(* ===== verification/Prelude.thy ===== *)
theory Prelude
  imports Main "HOL-Library.Word"
begin

unbundle bit_operations_syntax

section \<open>Shared vocabulary of the development\<close>

text \<open>
  The machine types of the Go sources, the outcome type for code that may panic, the
  wrap-around of a Go \<open>int\<close>, the effect of Go's built-in \<open>copy\<close> and slice expressions, and the
  generic lemmas on lists, words and options that the component theories share.

  Conventions used throughout: a Go \<open>[]byte\<close> is a \<^typ>\<open>8 word list\<close>; an unsigned 64-bit value
  (\<open>uint64\<close>, a bus id) is a \<^typ>\<open>64 word\<close>; a Go \<open>int\<close> is a HOL \<^typ>\<open>int\<close>, with \<open>wrap64\<close> written
  out wherever the code can compute a value outside the 64-bit range; the lengths of existing
  slices are \<^typ>\<open>nat\<close>.
\<close>

type_synonym byte = "8 word"
type_synonym uint32 = "32 word"
type_synonym uint64 = "64 word"
type_synonym bytes = "byte list"

named_theorems go_simps \<open>unfolding rules for the model of Go's built-ins\<close>

subsection \<open>Panics\<close>

text \<open>A Go call either returns or panics (slice bounds, nil dereference, negative \<open>make\<close>).\<close>

datatype 'a outcome = Panics | Returns 'a

fun bind_outcome :: "'a outcome \<Rightarrow> ('a \<Rightarrow> 'b outcome) \<Rightarrow> 'b outcome" where
  "bind_outcome Panics f = Panics"
| "bind_outcome (Returns x) f = f x"

fun map_outcome_val :: "('a \<Rightarrow> 'b) \<Rightarrow> 'a outcome \<Rightarrow> 'b outcome" where
  "map_outcome_val f Panics = Panics"
| "map_outcome_val f (Returns x) = Returns (f x)"

lemma bind_outcome_Returns_iff:
  "bind_outcome m f = Returns y \<longleftrightarrow> (\<exists>x. m = Returns x \<and> f x = Returns y)"
  by (cases m) auto

lemma bind_outcome_cong [fundef_cong]:
  "m = m' \<Longrightarrow> (\<And>x. m' = Returns x \<Longrightarrow> f x = g x) \<Longrightarrow> bind_outcome m f = bind_outcome m' g"
  by (cases m') auto

subsection \<open>Go's 64-bit int\<close>

definition wrap64 :: "int \<Rightarrow> int" where
  "wrap64 x = (x + 2 ^ 63) mod 2 ^ 64 - 2 ^ 63"

definition int_of_uint64 :: "uint64 \<Rightarrow> int" where
  "int_of_uint64 w = sint w"

lemma wrap64_id [simp]: "- (2 ^ 63) \<le> x \<Longrightarrow> x < 2 ^ 63 \<Longrightarrow> wrap64 x = x"
  by (simp add: wrap64_def)

lemma wrap64_range: "- (2 ^ 63) \<le> wrap64 x \<and> wrap64 x < 2 ^ 63"
proof -
  have "0 \<le> (x + 2 ^ 63) mod 2 ^ 64" and "(x + 2 ^ 63) mod 2 ^ 64 < (2 :: int) ^ 64"
    by simp_all
  then show ?thesis by (simp add: wrap64_def)
qed

lemma int_of_uint64_small:
  assumes "unat w < 2 ^ 63"
  shows "int_of_uint64 w = int (unat w)"
proof -
  have "int (unat w) < int (2 ^ 63)"
    using assms by (simp only: of_nat_less_iff)
  then have "uint w < 2 ^ 63"
    by simp
  then have "signed_take_bit 63 (uint w) = uint w"
    by (intro signed_take_bit_int_eq_self order_trans [OF _ uint_ge_0]) simp_all
  then show ?thesis
    by (simp add: int_of_uint64_def sint_uint)
qed

text \<open>Go's remainder takes the sign of the dividend.\<close>

definition go_rem :: "int \<Rightarrow> int \<Rightarrow> int" where
  "go_rem a b = sgn a * (\<bar>a\<bar> mod \<bar>b\<bar>)"

lemma go_rem_nonneg: "0 \<le> a \<Longrightarrow> 0 < b \<Longrightarrow> go_rem a b = a mod b"
  by (cases "a = 0") (simp_all add: go_rem_def sgn_if)

subsection \<open>Slices\<close>

text \<open>
  \<open>copy(dst[at:], src)\<close> overwrites as many elements as both sides have; \<open>make([]byte, n)\<close> is \<open>n\<close>
  zero bytes; \<open>s[lo:hi]\<close> on a slice whose capacity is its length panics outside \<open>0 \<le> lo \<le> hi \<le> len\<close>,
  and so does \<open>s[i]\<close> outside \<open>0 \<le> i < len\<close>.
\<close>

definition copy_at :: "nat \<Rightarrow> 'a list \<Rightarrow> 'a list \<Rightarrow> 'a list" where
  "copy_at i src dst = take i dst @ take (length dst - i) src @ drop (i + length src) dst"

definition make_bytes :: "nat \<Rightarrow> bytes" where
  "make_bytes n = replicate n 0"

definition slice :: "'a list \<Rightarrow> int \<Rightarrow> int \<Rightarrow> 'a list outcome" where
  "slice xs lo hi =
     (if 0 \<le> lo \<and> lo \<le> hi \<and> hi \<le> int (length xs)
      then Returns (take (nat hi - nat lo) (drop (nat lo) xs)) else Panics)"

definition index_at :: "'a list \<Rightarrow> nat \<Rightarrow> 'a outcome" where
  "index_at xs i = (if i < length xs then Returns (xs ! i) else Panics)"

lemma index_at_in_range [simp]: "i < length xs \<Longrightarrow> index_at xs i = Returns (xs ! i)"
  by (simp add: index_at_def)

lemma length_copy_at [simp]: "length (copy_at i src dst) = length dst"
  by (simp add: copy_at_def min_def)

lemma length_make_bytes [simp]: "length (make_bytes n) = n"
  by (simp add: make_bytes_def)

lemma copy_at_fits:
  "i + length src \<le> length dst \<Longrightarrow> copy_at i src dst = take i dst @ src @ drop (i + length src) dst"
  by (simp add: copy_at_def)

lemma copy_at_0_whole: "length src = length dst \<Longrightarrow> copy_at 0 src dst = src"
  by (simp add: copy_at_def)

lemma slice_nat [go_simps]:
  "lo \<le> hi \<Longrightarrow> hi \<le> length xs \<Longrightarrow> slice xs (int lo) (int hi) = Returns (take (hi - lo) (drop lo xs))"
  by (simp add: slice_def)

end
