(* ===== verification/Vint.thy ===== *)
theory Vint
  imports Prelude
begin

unbundle bit_operations_syntax

section \<open>Variable-length integers (buffer/buffer\_algorithm.go)\<close>

text \<open>
  The custom big-endian base-128 encoding of \<open>uint64\<close> that prefixes every frame and every packed
  message: \<open>ReadVint\<close>, \<open>WriteVint\<close> and \<open>VintEncodedSize\<close>, each loop as a recursive function over
  the same state. \<open>WriteVint\<close> writes into its argument slice, so the model returns the slice it
  leaves behind beside the count. The encoding itself is stated separately (\<open>vint_bytes\<close>), and the
  in-place writer, which stores the groups backwards and then swaps them, is shown equal to it.
\<close>

lemma unat_drop_bit_less: "v \<noteq> 0 \<Longrightarrow> unat (drop_bit 7 v) < unat v" for v :: uint64
  by (simp add: drop_bit_eq_div unat_div_distrib unat_gt_0)

subsection \<open>The code\<close>

fun ReadVint_loop :: "uint64 \<Rightarrow> nat \<Rightarrow> bytes \<Rightarrow> uint64 \<times> nat" where
  "ReadVint_loop out n [] = (out, n)"
| "ReadVint_loop out n (b # bs) =
     (let out' = push_bit 7 out OR ucast (b AND 0x7F) in
      if b AND 0x80 = 0 then (out', Suc n)
      else if bs = [] then (0, 0)
      else ReadVint_loop out' (Suc n) bs)"

definition ReadVint :: "bytes \<Rightarrow> uint64 \<times> nat" where
  "ReadVint data = (if data = [] then (0, 0) else ReadVint_loop 0 0 data)"

function WriteVint_loop :: "uint64 \<Rightarrow> nat \<Rightarrow> bytes \<Rightarrow> uint64 \<times> nat \<times> bytes" where
  "WriteVint_loop value d data =
     (if value \<noteq> 0 \<and> Suc d + 1 \<le> length data
      then WriteVint_loop (drop_bit 7 value) (Suc d)
             (data[Suc d := ucast (0x80 OR (value AND 0x7F))])
      else (value, d, data))"
  by pat_completeness auto
termination
  by (relation "measure (\<lambda>(value, d, data). length data - d)") auto

function swap_loop :: "nat \<Rightarrow> nat \<Rightarrow> bytes \<Rightarrow> bytes" where
  "swap_loop i j data =
     (if i < j then swap_loop (i + 1) (j - 1) (data[i := data ! j, j := data ! i]) else data)"
  by pat_completeness auto
termination
  by (relation "measure (\<lambda>(i, j, data). j - i)") auto

definition WriteVint :: "uint64 \<Rightarrow> bytes \<Rightarrow> nat \<times> bytes" where
  "WriteVint value data =
     (if data = [] then (0, data)
      else let (value', d, data') = WriteVint_loop (drop_bit 7 value) 0 (data[0 := ucast (value AND 0x7F)])
           in if value' \<noteq> 0 then (0, data')
              else (Suc d, if 0 < d then swap_loop 0 d data' else data'))"

function VintEncodedSize_loop :: "nat \<Rightarrow> uint64 \<Rightarrow> nat" where
  "VintEncodedSize_loop sz value =
     (if value \<noteq> 0 then VintEncodedSize_loop (Suc sz) (drop_bit 7 value) else sz)"
  by pat_completeness auto
termination
  by (relation "measure (\<lambda>(sz, value). unat value)") (auto simp: unat_drop_bit_less)

definition VintEncodedSize :: "uint64 \<Rightarrow> nat" where
  "VintEncodedSize value = (if value = 0 then 1 else VintEncodedSize_loop 0 value)"

declare ReadVint_loop.simps [simp del] WriteVint_loop.simps [simp del]
  swap_loop.simps [simp del] VintEncodedSize_loop.simps [simp del]

subsection \<open>The encoding\<close>

text \<open>The continuation groups of a value, most significant first, and the whole encoding.\<close>

function vint_high :: "uint64 \<Rightarrow> bytes" where
  "vint_high v =
     (if v = 0 then [] else vint_high (drop_bit 7 v) @ [ucast (0x80 OR (v AND 0x7F))])"
  by pat_completeness auto
termination
  by (relation "measure unat") (auto simp: unat_drop_bit_less)

definition vint_bytes :: "uint64 \<Rightarrow> bytes" where
  "vint_bytes v = vint_high (drop_bit 7 v) @ [ucast (v AND 0x7F)]"

declare vint_high.simps [simp del]

subsection \<open>Bit identities of one group\<close>

named_theorems vint_bits \<open>what the masks 0x7F and 0x80 do to one group\<close>

lemma bit_0x7F: "bit (0x7F :: int) n \<longleftrightarrow> n < 7"
proof -
  have "(0x7F :: int) = mask 7" by (simp add: mask_eq_exp_minus_1)
  then show ?thesis by (simp only: bit_mask_iff) simp
qed

lemma bit_0x80: "bit (0x80 :: int) n \<longleftrightarrow> n = 7"
proof -
  have "(0x80 :: int) = 2 ^ 7" by simp
  then show ?thesis by (simp only: bit_exp_iff) auto
qed

lemma group_join_high [vint_bits]:
  "push_bit 7 (drop_bit 7 v) OR ucast ((ucast (0x80 OR (v AND 0x7F)) :: byte) AND 0x7F) = v"
  for v :: uint64
proof (rule bit_eqI)
  fix n
  assume "possible_bit TYPE(64 word) n"
  then show "bit (push_bit 7 (drop_bit 7 v) OR ucast ((ucast (0x80 OR (v AND 0x7F)) :: byte) AND 0x7F)) n
    = bit v n"
    by (cases "n < 7") (auto simp: bit_simps bit_0x7F bit_0x80)
qed

lemma group_join_low [vint_bits]:
  "push_bit 7 (drop_bit 7 v) OR ucast ((ucast (v AND 0x7F) :: byte) AND 0x7F) = v"
  for v :: uint64
proof (rule bit_eqI)
  fix n
  assume "possible_bit TYPE(64 word) n"
  then show "bit (push_bit 7 (drop_bit 7 v) OR ucast ((ucast (v AND 0x7F) :: byte) AND 0x7F)) n = bit v n"
    by (cases "n < 7") (auto simp: bit_simps bit_0x7F)
qed

lemma group_high_continues [vint_bits]:
  "(ucast (0x80 OR (v AND 0x7F)) :: byte) AND 0x80 = 0x80" for v :: uint64
  by (rule bit_eqI) (auto simp: bit_simps bit_0x7F bit_0x80)

lemma group_low_ends [vint_bits]: "(ucast (v AND 0x7F) :: byte) AND 0x80 = 0" for v :: uint64
  by (rule bit_eqI) (auto simp: bit_simps bit_0x7F bit_0x80)

subsection \<open>Reading\<close>

lemma ReadVint_loop_high:
  "bs \<noteq> [] \<Longrightarrow>
   ReadVint_loop 0 n (vint_high v @ bs) = ReadVint_loop v (n + length (vint_high v)) bs"
proof (induction v arbitrary: bs rule: vint_high.induct)
  case (1 v)
  show ?case
  proof (cases "v = 0")
    case True
    then show ?thesis by (simp add: vint_high.simps)
  next
    case False
    with "1.prems" show ?thesis
      by (simp add: vint_high.simps [of v] "1.IH" ReadVint_loop.simps Let_def vint_bits)
  qed
qed

lemma ReadVint_vint_bytes: "ReadVint (vint_bytes v @ rest) = (v, length (vint_bytes v))"
  by (simp add: ReadVint_def vint_bytes_def ReadVint_loop_high ReadVint_loop.simps Let_def vint_bits)

text \<open>The bytes up to the first one without a continuation bit decide the result.\<close>

abbreviation continues :: "byte \<Rightarrow> bool" where
  "continues b \<equiv> b AND 0x80 \<noteq> 0"

definition vint_value :: "uint64 \<Rightarrow> bytes \<Rightarrow> uint64" where
  "vint_value = foldl (\<lambda>out b. push_bit 7 out OR ucast (b AND 0x7F))"

lemma ReadVint_loop_truncated:
  "data \<noteq> [] \<Longrightarrow> \<forall>b \<in> set data. continues b \<Longrightarrow> ReadVint_loop out n data = (0, 0)"
  by (induction data arbitrary: out n) (auto simp: ReadVint_loop.simps Let_def)

lemma ReadVint_loop_complete:
  "\<forall>b \<in> set pre. continues b \<Longrightarrow> \<not> continues b \<Longrightarrow>
   ReadVint_loop out n (pre @ b # rest) = (vint_value out (pre @ [b]), n + length pre + 1)"
  by (induction pre arbitrary: out n) (auto simp: ReadVint_loop.simps Let_def vint_value_def)

lemma ReadVint_truncated: "\<forall>b \<in> set data. continues b \<Longrightarrow> ReadVint data = (0, 0)"
  by (simp add: ReadVint_def ReadVint_loop_truncated)

lemma ReadVint_complete:
  "\<forall>b \<in> set pre. continues b \<Longrightarrow> \<not> continues b \<Longrightarrow>
   ReadVint (pre @ b # rest) = (vint_value 0 (pre @ [b]), length pre + 1)"
  by (simp add: ReadVint_def ReadVint_loop_complete)

lemma ReadVint_cases:
  obtains (truncated) "\<forall>b \<in> set data. continues b" "ReadVint data = (0, 0)"
  | (complete) pre b rest where "data = pre @ b # rest" "\<forall>x \<in> set pre. continues x" "\<not> continues b"
      "ReadVint data = (vint_value 0 (pre @ [b]), length pre + 1)"
proof (cases "\<forall>b \<in> set data. continues b")
  case True
  then show ?thesis by (simp add: truncated ReadVint_truncated)
next
  case False
  then obtain pre b rest where "data = pre @ b # rest" "\<not> continues b" "\<forall>x \<in> set pre. continues x"
    using split_list_first_prop [of data "\<lambda>b. \<not> continues b"] by auto
  then show ?thesis by (intro complete) (auto simp: ReadVint_complete)
qed

lemma ReadVint_consumed_le: "ReadVint data = (v, n) \<Longrightarrow> n \<le> length data"
  by (cases data rule: ReadVint_cases) auto

lemma ReadVint_append:
  assumes "ReadVint data = (v, n)" and "n \<noteq> 0"
  shows "ReadVint (data @ more) = (v, n)"
  using assms by (cases data rule: ReadVint_cases) (auto simp: ReadVint_complete)

lemma ReadVint_zero_value: "ReadVint data = (v, 0) \<Longrightarrow> v = 0"
  by (cases data rule: ReadVint_cases) auto

subsection \<open>Writing\<close>

lemma VintEncodedSize_loop_high: "VintEncodedSize_loop sz v = sz + length (vint_high v)"
  by (induction sz v rule: VintEncodedSize_loop.induct)
    (simp add: VintEncodedSize_loop.simps [of _ "_ :: uint64"] vint_high.simps [of "_ :: uint64"])

lemma VintEncodedSize_vint_bytes: "VintEncodedSize v = length (vint_bytes v)"
  by (simp add: VintEncodedSize_def VintEncodedSize_loop_high vint_bytes_def vint_high.simps [of v]
      vint_high.simps [of 0])

lemma length_vint_high_le: "unat v < 2 ^ (7 * k) \<Longrightarrow> length (vint_high v) \<le> k"
proof (induction k arbitrary: v)
  case 0
  then show ?case by (simp add: vint_high.simps unat_eq_0)
next
  case (Suc k)
  have "unat (drop_bit 7 v) < 2 ^ (7 * k)"
    using Suc.prems by (simp add: drop_bit_eq_div unat_div_distrib less_mult_imp_div_less power_add mult.commute)
  then have "length (vint_high (drop_bit 7 v)) \<le> k" by (rule Suc.IH)
  then show ?case by (simp add: vint_high.simps [of v])
qed

lemma VintEncodedSize_bounds: "1 \<le> VintEncodedSize v \<and> VintEncodedSize v \<le> 10"
proof -
  have "unat (drop_bit 7 v) < 2 ^ (7 * 9)"
    using unsigned_less [of v, where 'a = nat]
    by (simp add: drop_bit_eq_div unat_div_distrib less_mult_imp_div_less)
  then have "length (vint_high (drop_bit 7 v)) \<le> 9" by (rule length_vint_high_le)
  then show ?thesis by (simp add: VintEncodedSize_vint_bytes vint_bytes_def)
qed

lemma WriteVint_loop_fits:
  "d + length (vint_high v) < length data \<Longrightarrow>
   WriteVint_loop v d data =
     (0, d + length (vint_high v),
      take (Suc d) data @ rev (vint_high v) @ drop (Suc d + length (vint_high v)) data)"
proof (induction v d data rule: WriteVint_loop.induct)
  case (1 v d data)
  show ?case
  proof (cases "v = 0")
    case True
    with "1.prems" show ?thesis by (simp add: WriteVint_loop.simps vint_high.simps)
  next
    case False
    with "1.prems" have "Suc d + length (vint_high (drop_bit 7 v)) < length data"
      by (simp add: vint_high.simps [of v])
    with False "1.IH" show ?thesis
      by (simp add: WriteVint_loop.simps [of v d] vint_high.simps [of v] take_Suc_conv_app_nth)
  qed
qed

lemma WriteVint_loop_overflows:
  "d < length data \<Longrightarrow> length data \<le> d + length (vint_high v) \<Longrightarrow>
   fst (WriteVint_loop v d data) \<noteq> 0 \<and> length (snd (snd (WriteVint_loop v d data))) = length data"
proof (induction v d data rule: WriteVint_loop.induct)
  case (1 v d data)
  have "v \<noteq> 0"
    using "1.prems" by (auto simp: vint_high.simps [of 0])
  with "1.prems" "1.IH" show ?case
    by (cases "Suc d + 1 \<le> length data")
      (auto simp: WriteVint_loop.simps [of v d] vint_high.simps [of v])
qed

lemma swap_loop_length [simp]: "length (swap_loop i j data) = length data"
  by (induction i j data rule: swap_loop.induct) (simp add: swap_loop.simps [of "_ :: nat"])

lemma swap_loop_nth:
  "j < length data \<Longrightarrow> k < length data \<Longrightarrow>
   swap_loop i j data ! k = (if i \<le> k \<and> k \<le> j then data ! (i + j - k) else data ! k)"
proof (induction i j data rule: swap_loop.induct)
  case (1 i j data)
  show ?case
  proof (cases "i < j")
    case True
    with 1 show ?thesis
      by (auto simp: swap_loop.simps [of i j] nth_list_update)
  next
    case False
    then have "i \<le> k \<and> k \<le> j \<Longrightarrow> i + j - k = k" by linarith
    with False show ?thesis by (simp add: swap_loop.simps [of i j])
  qed
qed

lemma swap_loop_rev:
  assumes "d < length data"
  shows "swap_loop 0 d data = rev (take (Suc d) data) @ drop (Suc d) data"
proof (rule nth_equalityI)
  fix k
  assume "k < length (swap_loop 0 d data)"
  with assms show "swap_loop 0 d data ! k = (rev (take (Suc d) data) @ drop (Suc d) data) ! k"
    by (auto simp: swap_loop_nth nth_append rev_nth)
qed (use assms in simp)

lemma WriteVint_fits:
  assumes "length (vint_bytes v) \<le> length data"
  shows "WriteVint v data = (length (vint_bytes v), vint_bytes v @ drop (length (vint_bytes v)) data)"
proof -
  let ?h = "vint_high (drop_bit 7 v)" and ?g = "ucast (v AND 0x7F) :: byte"
  obtain x xs where data: "data = x # xs"
    using assms by (cases data) (auto simp: vint_bytes_def)
  have fit: "0 + length ?h < length (?g # xs)"
    using assms by (simp add: data vint_bytes_def)
  have "WriteVint_loop (drop_bit 7 v) 0 (?g # xs) = (0, length ?h, ?g # rev ?h @ drop (length ?h) xs)"
    using WriteVint_loop_fits [OF fit] by simp
  moreover have "swap_loop 0 (length ?h) (?g # rev ?h @ drop (length ?h) xs) = ?h @ ?g # drop (length ?h) xs"
    using fit by (simp add: swap_loop_rev)
  ultimately show ?thesis
    by (simp add: WriteVint_def data vint_bytes_def)
qed

lemma WriteVint_too_small:
  assumes "length data < length (vint_bytes v)"
  shows "fst (WriteVint v data) = 0 \<and> length (snd (WriteVint v data)) = length data"
proof (cases data)
  case Nil
  then show ?thesis by (simp add: WriteVint_def)
next
  case (Cons x xs)
  with assms WriteVint_loop_overflows [of 0 "ucast (v AND 0x7F) # xs" "drop_bit 7 v"]
  show ?thesis by (auto simp: WriteVint_def vint_bytes_def split: prod.splits)
qed

subsection \<open>The contract of the encoding\<close>

text \<open>C36: \<open>WriteVint\<close> succeeds exactly when the buffer has the size \<open>VintEncodedSize\<close> announces. Then it reports that size,
  \<open>ReadVint\<close> reads the same value and size back, and the bytes behind it are kept. Otherwise it reports 0; what is in the
  buffer then is not specified.\<close>

theorem WriteVint_ReadVint_roundtrip:
  assumes "WriteVint v buf = (n, buf')"
  shows "if VintEncodedSize v \<le> length buf
    then n = VintEncodedSize v \<and> 0 < n \<and> ReadVint buf' = (v, n) \<and> length buf' = length buf \<and> drop n buf' = drop n buf
    else n = 0"
proof (cases "length (vint_bytes v) \<le> length buf")
  case True
  have "0 < length (vint_bytes v)" by (simp add: vint_bytes_def)
  with assms True show ?thesis
    by (auto simp: WriteVint_fits ReadVint_vint_bytes VintEncodedSize_vint_bytes)
next
  case False
  then show ?thesis using assms WriteVint_too_small [of buf v] by (simp add: VintEncodedSize_vint_bytes)
qed

theorem WriteVint_ReadVint_roundtrip_witness:
  "WriteVint 300 [7, 7, 9] = (2, [0x82, 0x2C, 9]) \<and> ReadVint [0x82, 0x2C, 9] = (300, 2)"
proof -
  have w: "WriteVint 300 [7, 7, 9] = (2, [0x82, 0x2C, 9])" by code_simp
  have "VintEncodedSize 300 \<le> length [7 :: byte, 7, 9]" by code_simp
  then show ?thesis using w WriteVint_ReadVint_roundtrip [OF w] by simp
qed

end
