(* ===== verification/Buffer_Block.thy ===== *)
theory Buffer_Block
  imports Prelude
begin

unbundle bit_operations_syntax

section \<open>Buffer blocks (buffer/buffer\_block.go, buffer/static\_buffer\_block.go)\<close>

text \<open>
  \<open>BufferBlock\<close>, a byte slice with a consumed prefix, and \<open>StaticBufferBlock\<close>, the temporary buffer a
  message is packed into, with every method of both files; a nil receiver is \<^term>\<open>None\<close>. The size
  classes of \<open>MimallocPaddingSize\<close> are computed on HOL integers with the source's bit operations.
\<close>

subsection \<open>BufferBlock\<close>

definition DataAlignSize :: int where
  "DataAlignSize = 8"

datatype buffer_error = ErrNoData | ErrBuffLimit | ErrMalloc | ErrInvalidArg

record BufferBlock =
  bb_data :: bytes
  bb_used :: int

text \<open>
  \<open>make\<close> of the Go runtime panics for a negative length and for more bytes than its address space holds:
  \<open>maxAlloc\<close>, \<open>2\<^sup>4\<^sup>8\<close> on the common 64-bit systems.
\<close>

definition maxAlloc :: int where
  "maxAlloc = 2 ^ 48"

definition NewBufferBlock :: "int \<Rightarrow> BufferBlock option outcome" where
  "NewBufferBlock sz =
     (if sz \<le> 0 then Returns None
      else if maxAlloc < sz then Panics
      else Returns (Some \<lparr>bb_data = make_bytes (nat sz), bb_used = 0\<rparr>))"

definition NewBufferBlockFromSlice :: "bytes option \<Rightarrow> BufferBlock option" where
  "NewBufferBlockFromSlice data =
     (case data of None \<Rightarrow> None | Some xs \<Rightarrow> Some \<lparr>bb_data = xs, bb_used = 0\<rparr>)"

text \<open>A nil result slice is modelled as the empty list.\<close>

definition BufferBlock_Data :: "BufferBlock option \<Rightarrow> bytes outcome" where
  "BufferBlock_Data ob =
     (case ob of None \<Rightarrow> Returns []
      | Some b \<Rightarrow>
          if int (length (bb_data b)) \<le> bb_used b then Returns []
          else slice (bb_data b) (bb_used b) (int (length (bb_data b))))"

definition BufferBlock_RawData :: "BufferBlock option \<Rightarrow> bytes" where
  "BufferBlock_RawData ob = (case ob of None \<Rightarrow> [] | Some b \<Rightarrow> bb_data b)"

definition BufferBlock_Size :: "BufferBlock option \<Rightarrow> int" where
  "BufferBlock_Size ob =
     (case ob of None \<Rightarrow> 0
      | Some b \<Rightarrow>
          let remaining = int (length (bb_data b)) - bb_used b in
          if remaining < 0 then 0 else remaining)"

definition BufferBlock_RawSize :: "BufferBlock option \<Rightarrow> int" where
  "BufferBlock_RawSize ob = (case ob of None \<Rightarrow> 0 | Some b \<Rightarrow> int (length (bb_data b)))"

definition BufferBlock_Pop :: "int \<Rightarrow> BufferBlock option \<Rightarrow> BufferBlock option \<times> bytes outcome" where
  "BufferBlock_Pop s ob =
     (case ob of None \<Rightarrow> (None, Returns [])
      | Some b \<Rightarrow>
          let b' = (if int (length (bb_data b)) < bb_used b + s
                    then b\<lparr>bb_used := int (length (bb_data b))\<rparr>
                    else b\<lparr>bb_used := bb_used b + s\<rparr>)
          in (Some b', BufferBlock_Data (Some b')))"

definition BufferBlock_Reset :: "BufferBlock option \<Rightarrow> BufferBlock option" where
  "BufferBlock_Reset ob = (case ob of None \<Rightarrow> None | Some b \<Rightarrow> Some (b\<lparr>bb_used := 0\<rparr>))"

definition BufferBlock_Used :: "BufferBlock option \<Rightarrow> int" where
  "BufferBlock_Used ob = (case ob of None \<Rightarrow> 0 | Some b \<Rightarrow> bb_used b)"

definition BufferBlock_SetUsed :: "int \<Rightarrow> BufferBlock option \<Rightarrow> BufferBlock option" where
  "BufferBlock_SetUsed used ob =
     (case ob of None \<Rightarrow> None
      | Some b \<Rightarrow>
          let u = (if used < 0 then 0 else used);
              u' = (if int (length (bb_data b)) < u then int (length (bb_data b)) else u)
          in Some (b\<lparr>bb_used := u'\<rparr>))"

definition BufferBlock_Clone :: "BufferBlock option \<Rightarrow> BufferBlock option" where
  "BufferBlock_Clone ob =
     (case ob of None \<Rightarrow> None
      | Some b \<Rightarrow>
          Some \<lparr>bb_data = copy_at 0 (bb_data b) (make_bytes (length (bb_data b))), bb_used = bb_used b\<rparr>)"

definition PaddingSize :: "int \<Rightarrow> int" where
  "PaddingSize s =
     (let pl = go_rem s DataAlignSize in if pl = 0 then s else s + DataAlignSize - pl)"

definition HeadSize :: "int \<Rightarrow> int" where
  "HeadSize s = PaddingSize 24"

definition FullSize :: "int \<Rightarrow> int" where
  "FullSize s = HeadSize s + PaddingSize s"

subsection \<open>StaticBufferBlock\<close>

record StaticBufferBlock =
  sbb_data :: bytes
  sbb_size :: int
  sbb_used :: int

definition NewStaticBufferBlock :: "int \<Rightarrow> StaticBufferBlock option" where
  "NewStaticBufferBlock sz =
     (if sz \<le> 0 then None
      else Some \<lparr>sbb_data = make_bytes (nat sz), sbb_size = sz, sbb_used = 0\<rparr>)"

definition NewStaticBufferBlockWithUsed :: "int \<Rightarrow> int \<Rightarrow> StaticBufferBlock option" where
  "NewStaticBufferBlockWithUsed sz used =
     (if sz \<le> 0 then None
      else let u = (if used < 0 then 0 else used); u' = (if sz < u then sz else u)
           in Some \<lparr>sbb_data = make_bytes (nat sz), sbb_size = sz, sbb_used = u'\<rparr>)"

definition NewStaticBufferBlockFromData :: "bytes option \<Rightarrow> StaticBufferBlock option" where
  "NewStaticBufferBlockFromData data =
     (case data of None \<Rightarrow> None
      | Some xs \<Rightarrow>
          if xs = [] then None
          else Some \<lparr>sbb_data = copy_at 0 xs (make_bytes (length xs)),
                     sbb_size = int (length xs), sbb_used = int (length xs)\<rparr>)"

definition StaticBufferBlock_Data :: "StaticBufferBlock option \<Rightarrow> bytes" where
  "StaticBufferBlock_Data os = (case os of None \<Rightarrow> [] | Some s \<Rightarrow> sbb_data s)"

definition StaticBufferBlock_Size :: "StaticBufferBlock option \<Rightarrow> int" where
  "StaticBufferBlock_Size os = (case os of None \<Rightarrow> 0 | Some s \<Rightarrow> sbb_size s)"

definition StaticBufferBlock_Used :: "StaticBufferBlock option \<Rightarrow> int" where
  "StaticBufferBlock_Used os = (case os of None \<Rightarrow> 0 | Some s \<Rightarrow> sbb_used s)"

definition StaticBufferBlock_SetUsed :: "int \<Rightarrow> StaticBufferBlock option \<Rightarrow> StaticBufferBlock option" where
  "StaticBufferBlock_SetUsed used os =
     (case os of None \<Rightarrow> None
      | Some s \<Rightarrow>
          let u = (if used < 0 then 0 else used); u' = (if sbb_size s < u then sbb_size s else u)
          in Some (s\<lparr>sbb_used := u'\<rparr>))"

definition StaticBufferBlock_MaxSpan :: "StaticBufferBlock option \<Rightarrow> bytes outcome" where
  "StaticBufferBlock_MaxSpan os =
     (case os of None \<Rightarrow> Returns [] | Some s \<Rightarrow> slice (sbb_data s) 0 (sbb_size s))"

definition StaticBufferBlock_UsedSpan :: "StaticBufferBlock option \<Rightarrow> bytes outcome" where
  "StaticBufferBlock_UsedSpan os =
     (case os of None \<Rightarrow> Returns []
      | Some s \<Rightarrow> if sbb_used s = 0 then Returns [] else slice (sbb_data s) 0 (sbb_used s))"

definition StaticBufferBlock_IsEmpty :: "StaticBufferBlock option \<Rightarrow> bool" where
  "StaticBufferBlock_IsEmpty os = (case os of None \<Rightarrow> True | Some s \<Rightarrow> sbb_used s = 0)"

definition StaticBufferBlock_Reset :: "StaticBufferBlock option \<Rightarrow> StaticBufferBlock option" where
  "StaticBufferBlock_Reset os = (case os of None \<Rightarrow> None | Some s \<Rightarrow> Some (s\<lparr>sbb_used := 0\<rparr>))"

text \<open>\<open>s.data[s.used:]\<close> panics for a \<open>used\<close> outside the slice, as the model's slice does.\<close>

definition StaticBufferBlock_Write ::
  "bytes \<Rightarrow> StaticBufferBlock option \<Rightarrow> (StaticBufferBlock option \<times> int) outcome" where
  "StaticBufferBlock_Write data os =
     (case os of None \<Rightarrow> Returns (None, 0)
      | Some s \<Rightarrow>
          if data = [] then Returns (Some s, 0)
          else let available = sbb_size s - sbb_used s in
            if available \<le> 0 then Returns (Some s, 0)
            else let n = (if available < int (length data) then available else int (length data)) in
              bind_outcome (slice (sbb_data s) (sbb_used s) (int (length (sbb_data s)))) (\<lambda>_.
              Returns (Some (s\<lparr>sbb_data := copy_at (nat (sbb_used s)) (take (nat n) data) (sbb_data s),
                              sbb_used := sbb_used s + n\<rparr>), n)))"

definition StaticBufferBlock_WriteAt ::
  "int \<Rightarrow> bytes \<Rightarrow> StaticBufferBlock option \<Rightarrow> (StaticBufferBlock option \<times> int) outcome" where
  "StaticBufferBlock_WriteAt offset data os =
     (case os of None \<Rightarrow> Returns (None, 0)
      | Some s \<Rightarrow>
          if offset < 0 \<or> sbb_size s \<le> offset \<or> data = [] then Returns (Some s, 0)
          else let available = sbb_size s - offset;
                   n = (if available < int (length data) then available else int (length data)) in
            bind_outcome (slice (sbb_data s) offset (int (length (sbb_data s)))) (\<lambda>_.
            Returns (Some (s\<lparr>sbb_data := copy_at (nat offset) (take (nat n) data) (sbb_data s)\<rparr>), n)))"

function bitWidth_loop :: "int \<Rightarrow> int \<Rightarrow> int" where
  "bitWidth_loop x n = (if 0 < x then bitWidth_loop (drop_bit 1 x) (n + 1) else n)"
  by pat_completeness auto
termination
  by (relation "measure (\<lambda>(x, n). nat x)") (auto simp: drop_bit_eq_div)

definition bitWidth :: "int \<Rightarrow> int" where
  "bitWidth x = (if x \<le> 0 then 0 else bitWidth_loop x 0)"

definition MimallocPaddingSize :: "int \<Rightarrow> int" where
  "MimallocPaddingSize originSize =
     (let wordSize = 8; minAllocSize = 8; smallPageSize = 4096 in
      if originSize \<le> 0 then minAllocSize
      else if originSize \<le> 64 then (originSize + wordSize - 1) AND NOT (wordSize - 1)
      else if originSize \<le> 512 then (originSize + 15) AND NOT 15
      else if originSize \<le> 8192 then
        (let wsize = (originSize + wordSize - 1) div wordSize;
             b = bitWidth (wsize - 1);
             bin = (if b < 3 then wsize
                    else push_bit 2 b + (drop_bit (nat (b - 2)) (wsize - 1) AND 0x03));
             binB = drop_bit 2 bin;
             binExtra = bin AND 0x03;
             resultWsize = (if binB < 3 then bin
                            else push_bit (nat (binB - 1)) 1 + push_bit (nat (binB - 3)) (binExtra + 1))
         in resultWsize * wordSize)
      else (originSize + smallPageSize - 1) AND NOT (smallPageSize - 1))"

definition AllocateTemporaryBufferBlock :: "int \<Rightarrow> StaticBufferBlock option" where
  "AllocateTemporaryBufferBlock originSize =
     (if originSize \<le> 0 then None
      else let realSize = MimallocPaddingSize originSize in
        Some \<lparr>sbb_data = make_bytes (nat realSize), sbb_size = realSize, sbb_used = originSize\<rparr>)"

declare bitWidth_loop.simps [simp del]

subsection \<open>Well-formed blocks\<close>

definition bb_wf :: "BufferBlock \<Rightarrow> bool" where
  "bb_wf b \<longleftrightarrow> 0 \<le> bb_used b \<and> bb_used b \<le> int (length (bb_data b))"

definition bb_unread :: "BufferBlock \<Rightarrow> bytes" where
  "bb_unread b = drop (nat (bb_used b)) (bb_data b)"

definition sbb_wf :: "StaticBufferBlock \<Rightarrow> bool" where
  "sbb_wf s \<longleftrightarrow> sbb_size s = int (length (sbb_data s)) \<and> 0 \<le> sbb_used s \<and> sbb_used s \<le> sbb_size s"

definition sbb_content :: "StaticBufferBlock \<Rightarrow> bytes" where
  "sbb_content s = take (nat (sbb_used s)) (sbb_data s)"

lemma NewBufferBlock_wf: "NewBufferBlock n = Returns (Some b) \<Longrightarrow> bb_wf b"
  by (auto simp: NewBufferBlock_def bb_wf_def split: if_splits)

lemma BufferBlock_Data_unread: "bb_wf b \<Longrightarrow> BufferBlock_Data (Some b) = Returns (bb_unread b)"
  by (auto simp: BufferBlock_Data_def bb_wf_def bb_unread_def slice_def)

lemma BufferBlock_Size_unread: "bb_wf b \<Longrightarrow> BufferBlock_Size (Some b) = int (length (bb_unread b))"
  by (auto simp: BufferBlock_Size_def bb_wf_def bb_unread_def)

text \<open>Popping at most the unread bytes drops exactly that many of them.\<close>

lemma BufferBlock_Pop_unread:
  assumes "bb_wf b" and "0 \<le> n" and "n \<le> BufferBlock_Size (Some b)"
  obtains b' where "BufferBlock_Pop n (Some b) = (Some b', Returns (bb_unread b'))" "bb_wf b'"
    "bb_unread b' = drop (nat n) (bb_unread b)" "bb_data b' = bb_data b" "bb_used b' = bb_used b + n"
proof
  let ?b = "b\<lparr>bb_used := bb_used b + n\<rparr>"
  from assms have le: "bb_used b + n \<le> int (length (bb_data b))"
    by (simp add: BufferBlock_Size_def bb_wf_def Let_def split: if_splits)
  with assms show wf: "bb_wf ?b" by (simp add: bb_wf_def)
  show "BufferBlock_Pop n (Some b) = (Some ?b, Returns (bb_unread ?b))"
    using le BufferBlock_Data_unread [OF wf] by (simp add: BufferBlock_Pop_def Let_def)
  show "bb_unread ?b = drop (nat n) (bb_unread b)"
    using assms by (simp add: bb_unread_def bb_wf_def nat_add_distrib add.commute)
qed simp_all

lemma BufferBlock_Clone_id: "BufferBlock_Clone ob = ob"
  by (cases ob) (simp_all add: BufferBlock_Clone_def copy_at_0_whole)

lemma BufferBlock_SetUsed_wf: "BufferBlock_SetUsed n (Some b) = Some b' \<Longrightarrow> bb_wf b'"
  by (auto simp: BufferBlock_SetUsed_def bb_wf_def Let_def)

subsection \<open>StaticBufferBlock: writes append\<close>

lemma StaticBufferBlock_constructors_wf:
  "NewStaticBufferBlock n = Some s \<Longrightarrow> sbb_wf s"
  "NewStaticBufferBlockWithUsed n u = Some s \<Longrightarrow> sbb_wf s"
  "NewStaticBufferBlockFromData xs = Some s \<Longrightarrow> sbb_wf s"
  by (auto simp: NewStaticBufferBlock_def NewStaticBufferBlockWithUsed_def
      NewStaticBufferBlockFromData_def sbb_wf_def Let_def split: if_splits option.splits)

lemma StaticBufferBlock_UsedSpan_content:
  "sbb_wf s \<Longrightarrow> StaticBufferBlock_UsedSpan (Some s) = Returns (sbb_content s)"
  by (auto simp: StaticBufferBlock_UsedSpan_def sbb_wf_def sbb_content_def slice_def)

lemma StaticBufferBlock_FromData_content:
  "xs \<noteq> [] \<Longrightarrow> map_option sbb_content (NewStaticBufferBlockFromData (Some xs)) = Some xs"
  by (simp add: NewStaticBufferBlockFromData_def sbb_content_def copy_at_0_whole)

text \<open>\<open>StaticBufferBlock.Write\<close> on a well-formed block never panics, appends to the used bytes the
  longest prefix of its argument that fits, reports its length, and keeps the block well-formed.\<close>

theorem StaticBufferBlock_Write_appends:
  assumes "sbb_wf s"
  shows "\<exists>s' n. StaticBufferBlock_Write data (Some s) = Returns (Some s', n)
    \<and> n = min (int (length data)) (sbb_size s - sbb_used s)
    \<and> sbb_wf s' \<and> sbb_size s' = sbb_size s
    \<and> sbb_content s' = sbb_content s @ take (nat n) data"
proof (cases "data = [] \<or> sbb_size s - sbb_used s \<le> 0")
  case True
  with assms show ?thesis
    by (auto simp: StaticBufferBlock_Write_def sbb_wf_def Let_def)
next
  case False
  let ?n = "min (int (length data)) (sbb_size s - sbb_used s)"
  let ?s = "s\<lparr>sbb_data := copy_at (nat (sbb_used s)) (take (nat ?n) data) (sbb_data s),
              sbb_used := sbb_used s + ?n\<rparr>"
  from False assms have fit: "nat (sbb_used s) + length (take (nat ?n) data) \<le> length (sbb_data s)"
    by (auto simp: sbb_wf_def)
  have "StaticBufferBlock_Write data (Some s) = Returns (Some ?s, ?n)"
    using False assms by (auto simp: StaticBufferBlock_Write_def sbb_wf_def Let_def slice_def min_def)
  moreover have "sbb_content ?s = sbb_content s @ take (nat ?n) data"
    using False assms fit
    by (auto simp: sbb_content_def sbb_wf_def copy_at_fits nat_add_distrib min_def)
  moreover have "sbb_wf ?s"
    using False assms by (auto simp: sbb_wf_def)
  ultimately show ?thesis by auto
qed

theorem StaticBufferBlock_Write_appends_witness:
  "\<exists>s' n. StaticBufferBlock_Write [1, 2, 3] (Some \<lparr>sbb_data = [9, 0, 0], sbb_size = 3, sbb_used = 1\<rparr>)
     = Returns (Some s', n) \<and> n = 2 \<and> sbb_content s' = [9, 1, 2]"
proof -
  have "sbb_wf \<lparr>sbb_data = [9, 0, 0], sbb_size = 3, sbb_used = 1\<rparr>"
    by (simp add: sbb_wf_def)
  from StaticBufferBlock_Write_appends [OF this, of "[1, 2, 3]"] show ?thesis
    by (auto simp: sbb_content_def numeral_2_eq_2)
qed

subsection \<open>Size classes\<close>

lemma int_and_not_mask: "x AND NOT (mask n) = x - x mod 2 ^ n" for x :: int
proof -
  have "x AND NOT (mask n) = push_bit n (drop_bit n x)"
    by (rule bit_eqI) (auto simp: bit_simps)
  also have "\<dots> = x - x mod 2 ^ n"
    using bits_ident [of n x] by (simp add: take_bit_eq_mod)
  finally show ?thesis .
qed

lemmas int_align_down = int_and_not_mask [of _ 3, unfolded mask_eq_exp_minus_1, simplified]
  int_and_not_mask [of _ 4, unfolded mask_eq_exp_minus_1, simplified]
  int_and_not_mask [of _ 12, unfolded mask_eq_exp_minus_1, simplified]

lemma bitWidth_loop_add: "bitWidth_loop x (n + m) = bitWidth_loop x n + m"
proof (induction x n rule: bitWidth_loop.induct)
  case (1 x n)
  then show ?case
    by (cases "0 < x") (simp_all add: bitWidth_loop.simps [of x] add.commute add.left_commute)
qed

lemma bitWidth_eq:
  "2 ^ k \<le> x \<Longrightarrow> x < 2 ^ Suc k \<Longrightarrow> bitWidth x = int (Suc k)"
proof (induction k arbitrary: x)
  case 0
  then have "x = 1" by simp
  then show ?case by (simp add: bitWidth_def bitWidth_loop.simps)
next
  case (Suc k)
  have half: "2 ^ k \<le> x div 2" "x div 2 < 2 ^ Suc k" and "0 < x"
    using Suc.prems by auto
  then have "bitWidth (x div 2) = int (Suc k)" by (intro Suc.IH) auto
  moreover have "0 < x div 2"
    using half(1) zero_less_power [of "2 :: int" k] by linarith
  ultimately show ?case
    using \<open>0 < x\<close> bitWidth_loop_add [of "x div 2" 0 1]
    by (simp add: bitWidth_def bitWidth_loop.simps [of x] drop_bit_eq_div)
qed

lemma int_and_3: "x AND 0x03 = x mod 4" for x :: int
  using take_bit_eq_mask [of 2 x] by (simp add: take_bit_eq_mod mask_eq_exp_minus_1)

lemma MimallocPaddingSize_medium:
  fixes n :: int and k :: nat
  defines "w \<equiv> (n + 7) div 8"
  assumes "512 < n" and "n \<le> 8192" and "2 \<le> k" and "2 ^ k \<le> w - 1" and "w - 1 < 2 ^ Suc k"
  shows "MimallocPaddingSize n = 8 * (2 ^ k + ((w - 1) div 2 ^ (k - 1) mod 4 + 1) * 2 ^ (k - 2))"
proof -
  let ?e = "(w - 1) div 2 ^ (k - 1) mod 4"
  have b: "bitWidth (w - 1) = int (Suc k)"
    using assms by (intro bitWidth_eq)
  have e: "0 \<le> ?e" "?e < 4" by simp_all
  have "(4 * (1 + a) + d) div 4 = 1 + a \<and> (4 * (1 + a) + d) mod 4 = d" if "0 \<le> d" "d < 4" for a d :: int
    using that by presburger
  from this [OF e] have q: "(4 * (1 + int k) + ?e) div 4 = 1 + int k" and r: "(4 * (1 + int k) + ?e) mod 4 = ?e"
    by blast+
  let ?bin = "4 * (1 + int k) + ?e"
  have k1: "nat (int (Suc k) - 2) = k - 1" and k2: "nat (1 + int k - 3) = k - 2" and k3: "\<not> int (Suc k) < 3"
    and k4: "nat (1 + int k - 1) = k" and k5: "\<not> 1 + int k < 3"
    using assms by auto
  have bin: "push_bit 2 (int (Suc k)) + (drop_bit (nat (int (Suc k) - 2)) (w - 1) AND 0x03) = ?bin"
    by (simp only: k1 int_and_3 drop_bit_eq_div push_bit_eq_mult) simp
  have parts: "drop_bit 2 ?bin = 1 + int k" "?bin AND 0x03 = ?e"
    using q r by (simp_all only: int_and_3 drop_bit_eq_div power2_eq_square) simp_all
  have n7: "n + 8 - 1 = n + 7" and range: "(n \<le> 0) = False" "(n \<le> 64) = False" "(n \<le> 512) = False"
    "(n \<le> 8192) = True"
    using assms(2,3) by auto
  have "MimallocPaddingSize n =
     (let b = bitWidth (w - 1);
          bin = (if b < 3 then w else push_bit 2 b + (drop_bit (nat (b - 2)) (w - 1) AND 0x03));
          binB = drop_bit 2 bin
      in (if binB < 3 then bin
          else push_bit (nat (binB - 1)) 1 + push_bit (nat (binB - 3)) ((bin AND 0x03) + 1)) * 8)"
    by (simp only: MimallocPaddingSize_def Let_def n7 range if_False if_True w_def)
  also have "\<dots> = (push_bit k 1 + push_bit (k - 2) (?e + 1)) * 8"
    by (simp only: b Let_def k3 k5 if_False bin parts k2 k4)
  finally show ?thesis by (simp only: push_bit_eq_mult) (simp add: algebra_simps)
qed

lemma MimallocPaddingSize_medium_covers:
  assumes "512 < n" and "n \<le> 8192"
  shows "n \<le> MimallocPaddingSize n \<and> 8 dvd MimallocPaddingSize n"
proof -
  let ?x = "(n + 7) div 8 - 1"
  have x: "2 ^ 6 \<le> ?x" "?x < 2 ^ 10"
    using assms by auto
  have *: "n \<le> 8 * (2 ^ k + (?x div 2 ^ (k - 1) mod 4 + 1) * 2 ^ (k - 2))"
    if "2 ^ k \<le> ?x" "?x < 2 ^ Suc k" "k = 6 \<or> k = 7 \<or> k = 8 \<or> k = 9" for k :: nat
  proof -
    have "n \<le> 8 * (?x + 1)" by presburger
    moreover have "?x + 1 \<le> 2 ^ k + (?x div 2 ^ (k - 1) mod 4 + 1) * 2 ^ (k - 2)"
      using that(3) that(1,2) by (elim disjE) simp_all
    then have "8 * (?x + 1) \<le> 8 * (2 ^ k + (?x div 2 ^ (k - 1) mod 4 + 1) * 2 ^ (k - 2))"
      by (intro mult_left_mono) simp_all
    ultimately show ?thesis by (rule order_trans)
  qed
  obtain k :: nat where k: "2 ^ k \<le> ?x" "?x < 2 ^ Suc k" "k = 6 \<or> k = 7 \<or> k = 8 \<or> k = 9"
  proof -
    consider "?x < 2 ^ 7" | "2 ^ 7 \<le> ?x" "?x < 2 ^ 8" | "2 ^ 8 \<le> ?x" "?x < 2 ^ 9" | "2 ^ 9 \<le> ?x"
      by linarith
    then show thesis
    proof cases
      case 1 with x show thesis by (intro that [of 6]) simp_all
    next
      case 2 then show thesis by (intro that [of 7]) simp_all
    next
      case 3 then show thesis by (intro that [of 8]) simp_all
    next
      case 4 with x show thesis by (intro that [of 9]) simp_all
    qed
  qed
  with * [OF k] assms show ?thesis
    by (subst (1 2) MimallocPaddingSize_medium [where k = k]) auto
qed

lemma align_up_covers:
  fixes m n :: int
  assumes "0 < m"
  shows "n \<le> (n + m - 1) - (n + m - 1) mod m" and "m dvd (n + m - 1) - (n + m - 1) mod m"
proof -
  have "(n + m - 1) mod m \<le> m - 1" using pos_mod_bound [OF assms, of "n + m - 1"] by linarith
  then show "n \<le> (n + m - 1) - (n + m - 1) mod m" by linarith
qed (rule dvd_minus_mod)

lemmas align_up_classes = align_up_covers(1) [of 8] align_up_covers(1) [of 16] align_up_covers(1) [of 4096]

text \<open>The padded size of a temporary buffer is at least the requested size and a multiple of the
  word size, for every request, so \<open>AllocateTemporaryBufferBlock\<close> yields a well-formed block whose
  used bytes are the requested ones.\<close>

theorem MimallocPaddingSize_covers:
  "n \<le> MimallocPaddingSize n \<and> 8 dvd MimallocPaddingSize n
   \<and> (\<forall>s. AllocateTemporaryBufferBlock n = Some s \<longleftrightarrow>
        0 < n \<and> s = \<lparr>sbb_data = make_bytes (nat (MimallocPaddingSize n)),
                       sbb_size = MimallocPaddingSize n, sbb_used = n\<rparr> \<and> sbb_wf s)"
proof -
  have core: "n \<le> MimallocPaddingSize n \<and> 8 dvd MimallocPaddingSize n"
  proof -
    consider "n \<le> 0" | "0 < n" "n \<le> 64" | "64 < n" "n \<le> 512" | "512 < n" "n \<le> 8192" | "8192 < n"
      by linarith
    then show ?thesis
    proof cases
      case 4
      then show ?thesis by (rule MimallocPaddingSize_medium_covers)
    next
      case 2
      then show ?thesis
        using align_up_classes(1) [of n] by (simp add: MimallocPaddingSize_def int_align_down)
    next
      case 3
      then show ?thesis
        using align_up_classes(2) [of n]
        by (simp add: MimallocPaddingSize_def int_align_down dvd_trans [of 8 16])
    next
      case 5
      then show ?thesis
        using align_up_classes(3) [of n]
        by (simp add: MimallocPaddingSize_def int_align_down dvd_trans [of 8 4096])
    qed (simp add: MimallocPaddingSize_def)
  qed
  then show ?thesis
    by (auto simp: AllocateTemporaryBufferBlock_def Let_def sbb_wf_def)
qed

text \<open>The class spacing of the medium range is coarser than the 12.5 percent its comment gives.\<close>

lemma MimallocPaddingSize_medium_spacing: "MimallocPaddingSize 520 = 896"
  by code_simp

end
