(* ===== verification/Buffer_Manager.thy ===== *)
theory Buffer_Manager
  imports Buffer_Block
begin

section \<open>Buffer manager (buffer/buffer\_manager.go)\<close>

text \<open>
  \<open>BufferManager\<close> in its two modes: a linked list of blocks (dynamic) and a ring of \<open>maxNumber + 1\<close>
  slots (static), with every method of the file. The blocks are values: a block is reachable from
  one slot only, so an in-place update of a block is an update of that slot. A caller writes its
  payload through the slice a push returns; the theorems hold for every content of the blocks and
  of the shared buffer, so they cover every such write.

  Sizes are HOL integers and the sums of sizes that decide about a request wrap around as a Go \<open>int\<close>
  does. The locale \<open>block_deque\<close> states what both storage modes promise to the code above
  them; it is interpreted for each mode, and the manager's theorems are derived from it.
\<close>

record Limit =
  CostNumber :: int
  CostSize :: int
  LimitNumber :: int
  LimitSize :: int

record staticBufferStorage =
  sb_buffer :: bytes
  sb_circleIndex :: "BufferBlock option list"
  sb_head :: nat
  sb_tail :: nat

record BufferManager =
  dynamicBuffer :: "BufferBlock list"
  staticBuffer :: "staticBufferStorage option"
  bm_limit :: Limit

type_synonym 'a buffer_result = "(BufferManager \<times> (buffer_error + 'a)) outcome"

definition no_limit :: Limit where
  "no_limit = \<lparr>CostNumber = 0, CostSize = 0, LimitNumber = 0, LimitSize = 0\<rparr>"

definition NewBufferManager :: BufferManager where
  "NewBufferManager = \<lparr>dynamicBuffer = [], staticBuffer = None, bm_limit = no_limit\<rparr>"

definition BufferManager_SetLimit :: "int \<Rightarrow> int \<Rightarrow> BufferManager \<Rightarrow> BufferManager \<times> bool" where
  "BufferManager_SetLimit maxSize maxNumber m =
     (if staticBuffer m \<noteq> None then (m, False)
      else (m\<lparr>bm_limit := (bm_limit m)\<lparr>LimitNumber := maxNumber, LimitSize := maxSize\<rparr>\<rparr>, True))"

definition BufferManager_Reset :: "BufferManager \<Rightarrow> BufferManager" where
  "BufferManager_Reset m =
     m\<lparr>staticBuffer := None, dynamicBuffer := [],
       bm_limit := (bm_limit m)\<lparr>CostSize := 0, CostNumber := 0, LimitNumber := 0, LimitSize := 0\<rparr>\<rparr>"

text \<open>\<open>make\<close> panics for a negative length and for more than the runtime can allocate; a pointer has eight bytes.\<close>

definition BufferManager_SetMode :: "int \<Rightarrow> int \<Rightarrow> BufferManager \<Rightarrow> BufferManager outcome" where
  "BufferManager_SetMode maxSize maxNumber m =
     (let m = BufferManager_Reset m in
      if maxSize \<noteq> 0 \<and> 0 < maxNumber then
        let bufSize = PaddingSize (wrap64 (maxSize + DataAlignSize)); slots = wrap64 (maxNumber + 1) in
        if bufSize < 0 \<or> maxAlloc < bufSize \<or> slots < 0 \<or> maxAlloc < 8 * slots then Panics
        else Returns (m\<lparr>staticBuffer := Some \<lparr>sb_buffer = make_bytes (nat bufSize),
                           sb_circleIndex = replicate (nat slots) None,
                           sb_head = 0, sb_tail = 0\<rparr>,
                         bm_limit := (bm_limit m)\<lparr>LimitSize := maxSize, LimitNumber := maxNumber\<rparr>\<rparr>)
      else Returns m)"

definition BufferManager_IsStaticMode :: "BufferManager \<Rightarrow> bool" where
  "BufferManager_IsStaticMode m \<longleftrightarrow> staticBuffer m \<noteq> None"

definition BufferManager_IsDynamicMode :: "BufferManager \<Rightarrow> bool" where
  "BufferManager_IsDynamicMode m \<longleftrightarrow> staticBuffer m = None"

subsection \<open>Dynamic mode\<close>

definition dynamicEmpty :: "BufferManager \<Rightarrow> bool" where
  "dynamicEmpty m \<longleftrightarrow> dynamicBuffer m = []"

definition dynamicFront :: "BufferManager \<Rightarrow> BufferBlock option" where
  "dynamicFront m = (if dynamicEmpty m then None else Some (hd (dynamicBuffer m)))"

definition dynamicBack :: "BufferManager \<Rightarrow> BufferBlock option" where
  "dynamicBack m = (if dynamicEmpty m then None else Some (last (dynamicBuffer m)))"

definition dynamicPushBack :: "int \<Rightarrow> BufferManager \<Rightarrow> BufferBlock buffer_result" where
  "dynamicPushBack sz m =
     bind_outcome (NewBufferBlock sz) (\<lambda>r. case r of
        None \<Rightarrow> Returns (m, Inl ErrMalloc)
      | Some block \<Rightarrow> Returns (m\<lparr>dynamicBuffer := dynamicBuffer m @ [block]\<rparr>, Inr block))"

definition dynamicPushFront :: "int \<Rightarrow> BufferManager \<Rightarrow> BufferBlock buffer_result" where
  "dynamicPushFront sz m =
     bind_outcome (NewBufferBlock sz) (\<lambda>r. case r of
        None \<Rightarrow> Returns (m, Inl ErrMalloc)
      | Some block \<Rightarrow> Returns (m\<lparr>dynamicBuffer := block # dynamicBuffer m\<rparr>, Inr block))"

text \<open>The tail of both pop functions: the cost of the removed bytes is given back.\<close>

definition fixLimit :: "bool \<Rightarrow> int \<Rightarrow> Limit \<Rightarrow> Limit" where
  "fixLimit nowEmpty sz l =
     (if nowEmpty then l\<lparr>CostSize := 0, CostNumber := 0\<rparr>
      else if sz \<le> CostSize l then l\<lparr>CostSize := CostSize l - sz\<rparr>
      else l\<lparr>CostSize := 0\<rparr>)"

definition releaseNumber :: "Limit \<Rightarrow> Limit" where
  "releaseNumber l = (if 0 < CostNumber l then l\<lparr>CostNumber := CostNumber l - 1\<rparr> else l)"

definition dynamicPopBack :: "int \<Rightarrow> bool \<Rightarrow> BufferManager \<Rightarrow> unit buffer_result" where
  "dynamicPopBack sz freeUnwritable m =
     (if dynamicEmpty m then Returns (m, Inl ErrNoData)
      else let block = last (dynamicBuffer m);
               s = (if BufferBlock_Size (Some block) < sz then BufferBlock_Size (Some block) else sz);
               (ob, d) = BufferBlock_Pop s (Some block) in
        bind_outcome d (\<lambda>_.
        let m = m\<lparr>dynamicBuffer := butlast (dynamicBuffer m) @ [the ob]\<rparr>;
            m = (if freeUnwritable \<and> BufferBlock_Size ob \<le> 0
                 then m\<lparr>dynamicBuffer := butlast (dynamicBuffer m), bm_limit := releaseNumber (bm_limit m)\<rparr>
                 else m)
        in Returns (m\<lparr>bm_limit := fixLimit (dynamicEmpty m) s (bm_limit m)\<rparr>, Inr ())))"

definition dynamicPopFront :: "int \<Rightarrow> bool \<Rightarrow> BufferManager \<Rightarrow> unit buffer_result" where
  "dynamicPopFront sz freeUnwritable m =
     (if dynamicEmpty m then Returns (m, Inl ErrNoData)
      else let block = hd (dynamicBuffer m);
               s = (if BufferBlock_Size (Some block) < sz then BufferBlock_Size (Some block) else sz);
               (ob, d) = BufferBlock_Pop s (Some block) in
        bind_outcome d (\<lambda>_.
        let m = m\<lparr>dynamicBuffer := the ob # tl (dynamicBuffer m)\<rparr>;
            m = (if freeUnwritable \<and> BufferBlock_Size ob \<le> 0
                 then m\<lparr>dynamicBuffer := tl (dynamicBuffer m), bm_limit := releaseNumber (bm_limit m)\<rparr>
                 else m)
        in Returns (m\<lparr>bm_limit := fixLimit (dynamicEmpty m) s (bm_limit m)\<rparr>, Inr ())))"

text \<open>
  The new block of both merge functions and the slice of it they return. The copy into
  \<open>newBlock.data[at:]\<close> panics when \<open>at\<close> is negative or beyond the new block.
\<close>

definition grownBack :: "int \<Rightarrow> BufferBlock \<Rightarrow> (BufferBlock \<times> bytes) option outcome" where
  "grownBack sz block =
     bind_outcome (NewBufferBlock (wrap64 (sz + BufferBlock_RawSize (Some block)))) (\<lambda>r. case r of
        None \<Rightarrow> Returns None
      | Some nb \<Rightarrow>
          let nb = nb\<lparr>bb_data := copy_at 0 (bb_data block) (bb_data nb), bb_used := bb_used block\<rparr> in
          bind_outcome (slice (bb_data nb) (BufferBlock_RawSize (Some block)) (int (length (bb_data nb))))
            (\<lambda>d. Returns (Some (nb, d))))"

definition grownFront :: "int \<Rightarrow> BufferBlock \<Rightarrow> (BufferBlock \<times> bytes) option outcome" where
  "grownFront sz block =
     bind_outcome (NewBufferBlock (wrap64 (sz + BufferBlock_RawSize (Some block)))) (\<lambda>r. case r of
        None \<Rightarrow> Returns None
      | Some nb \<Rightarrow>
          bind_outcome (slice (bb_data nb) sz (int (length (bb_data nb)))) (\<lambda>_.
          let nb = nb\<lparr>bb_data := copy_at (nat sz) (bb_data block) (bb_data nb), bb_used := bb_used block\<rparr> in
          bind_outcome (slice (bb_data nb) 0 sz) (\<lambda>d. Returns (Some (nb, d)))))"

definition dynamicMergeBack :: "int \<Rightarrow> BufferManager \<Rightarrow> bytes buffer_result" where
  "dynamicMergeBack sz m =
     (if sz = 0 then Returns (m, Inr [])
      else case dynamicBack m of
        None \<Rightarrow> Returns (m, Inl ErrNoData)
      | Some block \<Rightarrow>
          bind_outcome (grownBack sz block) (\<lambda>r. case r of
            None \<Rightarrow> Returns (m, Inl ErrMalloc)
          | Some (nb, d) \<Rightarrow> Returns (m\<lparr>dynamicBuffer := butlast (dynamicBuffer m) @ [nb]\<rparr>, Inr d)))"

definition dynamicMergeFront :: "int \<Rightarrow> BufferManager \<Rightarrow> bytes buffer_result" where
  "dynamicMergeFront sz m =
     (if sz = 0 then Returns (m, Inr [])
      else case dynamicFront m of
        None \<Rightarrow> Returns (m, Inl ErrNoData)
      | Some block \<Rightarrow>
          bind_outcome (grownFront sz block) (\<lambda>r. case r of
            None \<Rightarrow> Returns (m, Inl ErrMalloc)
          | Some (nb, d) \<Rightarrow> Returns (m\<lparr>dynamicBuffer := nb # tl (dynamicBuffer m)\<rparr>, Inr d)))"

subsection \<open>Static mode\<close>

text \<open>The static functions are entered with a storage; without one they dereference nil.\<close>

definition with_storage ::
  "BufferManager \<Rightarrow> (staticBufferStorage \<Rightarrow> 'a outcome) \<Rightarrow> 'a outcome" where
  "with_storage m f = (case staticBuffer m of None \<Rightarrow> Panics | Some sb \<Rightarrow> f sb)"

definition staticEmpty :: "BufferManager \<Rightarrow> bool" where
  "staticEmpty m = (case staticBuffer m of None \<Rightarrow> True | Some sb \<Rightarrow> sb_head sb = sb_tail sb)"

definition sb_back_index :: "staticBufferStorage \<Rightarrow> nat" where
  "sb_back_index sb = (sb_tail sb + length (sb_circleIndex sb) - 1) mod length (sb_circleIndex sb)"

definition staticFront :: "BufferManager \<Rightarrow> BufferBlock option outcome" where
  "staticFront m =
     (if staticEmpty m then Returns None
      else with_storage m (\<lambda>sb. index_at (sb_circleIndex sb) (sb_head sb)))"

definition staticBack :: "BufferManager \<Rightarrow> BufferBlock option outcome" where
  "staticBack m =
     (if staticEmpty m then Returns None
      else with_storage m (\<lambda>sb. index_at (sb_circleIndex sb) (sb_back_index sb)))"

definition staticPushBack :: "int \<Rightarrow> BufferManager \<Rightarrow> BufferBlock buffer_result" where
  "staticPushBack sz m =
     with_storage m (\<lambda>sb.
     let circleLen = length (sb_circleIndex sb) in
     if (sb_tail sb + 1) mod circleLen = sb_head sb then Returns (m, Inl ErrBuffLimit)
     else
       bind_outcome (index_at (sb_circleIndex sb) (sb_head sb)) (\<lambda>head.
       bind_outcome (index_at (sb_circleIndex sb) (sb_tail sb)) (\<lambda>tail.
       if head = None \<and> tail = None then
         bind_outcome (slice (sb_buffer sb) 0 sz) (\<lambda>data.
         let block = \<lparr>bb_data = data, bb_used = 0\<rparr> in
         Returns (m\<lparr>staticBuffer := Some (sb\<lparr>sb_circleIndex := (sb_circleIndex sb)[0 := Some block],
                                    sb_head := 0, sb_tail := (0 + 1) mod circleLen\<rparr>)\<rparr>, Inr block))
       else bind_outcome (NewBufferBlock sz) (\<lambda>r. case r of
         None \<Rightarrow> Returns (m, Inl ErrMalloc)
       | Some block \<Rightarrow>
         Returns (m\<lparr>staticBuffer := Some (sb\<lparr>
                      sb_circleIndex := (sb_circleIndex sb)[sb_tail sb := Some block],
                      sb_tail := (sb_tail sb + 1) mod circleLen\<rparr>)\<rparr>, Inr block)))))"

definition staticPushFront :: "int \<Rightarrow> BufferManager \<Rightarrow> BufferBlock buffer_result" where
  "staticPushFront sz m =
     with_storage m (\<lambda>sb.
     let circleLen = length (sb_circleIndex sb) in
     if (sb_tail sb + 1) mod circleLen = sb_head sb then Returns (m, Inl ErrBuffLimit)
     else
       bind_outcome (index_at (sb_circleIndex sb) (sb_head sb)) (\<lambda>head.
       bind_outcome (index_at (sb_circleIndex sb) (sb_tail sb)) (\<lambda>tail.
       if head = None \<and> tail = None then
         bind_outcome (slice (sb_buffer sb) 0 sz) (\<lambda>data.
         let block = \<lparr>bb_data = data, bb_used = 0\<rparr> in
         Returns (m\<lparr>staticBuffer := Some (sb\<lparr>sb_circleIndex := (sb_circleIndex sb)[0 := Some block],
                                    sb_head := 0, sb_tail := (0 + 1) mod circleLen\<rparr>)\<rparr>, Inr block))
       else bind_outcome (NewBufferBlock sz) (\<lambda>r. case r of
         None \<Rightarrow> Returns (m, Inl ErrMalloc)
       | Some block \<Rightarrow>
         let h = (sb_head sb + circleLen - 1) mod circleLen in
         Returns (m\<lparr>staticBuffer := Some (sb\<lparr>sb_head := h,
                      sb_circleIndex := (sb_circleIndex sb)[h := Some block]\<rparr>)\<rparr>, Inr block)))))"

definition staticPopBack :: "int \<Rightarrow> bool \<Rightarrow> BufferManager \<Rightarrow> unit buffer_result" where
  "staticPopBack sz freeUnwritable m =
     (if staticEmpty m then Returns (m, Inl ErrNoData)
      else with_storage m (\<lambda>sb.
        let tailIndex = sb_back_index sb in
        bind_outcome (index_at (sb_circleIndex sb) tailIndex) (\<lambda>block.
        let s = (if BufferBlock_Size block < sz then BufferBlock_Size block else sz);
            (ob, d) = BufferBlock_Pop s block in
        bind_outcome d (\<lambda>_.
        let sb = sb\<lparr>sb_circleIndex := (sb_circleIndex sb)[tailIndex := ob]\<rparr>;
            m = (if freeUnwritable \<and> BufferBlock_Size ob = 0
                 then m\<lparr>staticBuffer := Some (sb\<lparr>sb_circleIndex := (sb_circleIndex sb)[tailIndex := None],
                                            sb_tail := tailIndex\<rparr>),
                        bm_limit := releaseNumber (bm_limit m)\<rparr>
                 else m\<lparr>staticBuffer := Some sb\<rparr>);
            nowEmpty = staticEmpty m;
            m = (if nowEmpty
                 then m\<lparr>staticBuffer := map_option (\<lambda>sb. sb\<lparr>sb_head := 0, sb_tail := 0\<rparr>) (staticBuffer m)\<rparr>
                 else m)
        in Returns (m\<lparr>bm_limit := fixLimit nowEmpty s (bm_limit m)\<rparr>, Inr ())))))"

definition staticPopFront :: "int \<Rightarrow> bool \<Rightarrow> BufferManager \<Rightarrow> unit buffer_result" where
  "staticPopFront sz freeUnwritable m =
     (if staticEmpty m then Returns (m, Inl ErrNoData)
      else with_storage m (\<lambda>sb.
        let circleLen = length (sb_circleIndex sb) in
        bind_outcome (index_at (sb_circleIndex sb) (sb_head sb)) (\<lambda>block.
        let s = (if BufferBlock_Size block < sz then BufferBlock_Size block else sz);
            (ob, d) = BufferBlock_Pop s block in
        bind_outcome d (\<lambda>_.
        let sb = sb\<lparr>sb_circleIndex := (sb_circleIndex sb)[sb_head sb := ob]\<rparr>;
            m = (if freeUnwritable \<and> BufferBlock_Size ob = 0
                 then m\<lparr>staticBuffer := Some (sb\<lparr>sb_circleIndex := (sb_circleIndex sb)[sb_head sb := None],
                                            sb_head := (sb_head sb + 1) mod circleLen\<rparr>),
                        bm_limit := releaseNumber (bm_limit m)\<rparr>
                 else m\<lparr>staticBuffer := Some sb\<rparr>);
            nowEmpty = staticEmpty m;
            m = (if nowEmpty
                 then m\<lparr>staticBuffer := map_option (\<lambda>sb. sb\<lparr>sb_head := 0, sb_tail := 0\<rparr>) (staticBuffer m)\<rparr>
                 else m)
        in Returns (m\<lparr>bm_limit := fixLimit nowEmpty s (bm_limit m)\<rparr>, Inr ())))))"

definition staticMergeBack :: "int \<Rightarrow> BufferManager \<Rightarrow> bytes buffer_result" where
  "staticMergeBack sz m =
     (if sz = 0 then Returns (m, Inr [])
      else bind_outcome (staticBack m) (\<lambda>ob. case ob of
        None \<Rightarrow> Returns (m, Inl ErrNoData)
      | Some block \<Rightarrow>
          bind_outcome (grownBack sz block) (\<lambda>r. case r of
            None \<Rightarrow> Returns (m, Inl ErrMalloc)
          | Some (nb, d) \<Rightarrow>
              with_storage m (\<lambda>sb.
              Returns (m\<lparr>staticBuffer := Some (sb\<lparr>sb_circleIndex :=
                           (sb_circleIndex sb)[sb_back_index sb := Some nb]\<rparr>)\<rparr>, Inr d)))))"

definition staticMergeFront :: "int \<Rightarrow> BufferManager \<Rightarrow> bytes buffer_result" where
  "staticMergeFront sz m =
     (if sz = 0 then Returns (m, Inr [])
      else bind_outcome (staticFront m) (\<lambda>ob. case ob of
        None \<Rightarrow> Returns (m, Inl ErrNoData)
      | Some block \<Rightarrow>
          bind_outcome (grownFront sz block) (\<lambda>r. case r of
            None \<Rightarrow> Returns (m, Inl ErrMalloc)
          | Some (nb, d) \<Rightarrow>
              with_storage m (\<lambda>sb.
              Returns (m\<lparr>staticBuffer := Some (sb\<lparr>sb_circleIndex :=
                           (sb_circleIndex sb)[sb_head sb := Some nb]\<rparr>)\<rparr>, Inr d)))))"

subsection \<open>The manager's operations\<close>

definition BufferManager_Empty :: "BufferManager \<Rightarrow> bool" where
  "BufferManager_Empty m =
     (if BufferManager_IsDynamicMode m then dynamicEmpty m else staticEmpty m)"

definition BufferManager_Front :: "BufferManager \<Rightarrow> BufferBlock option outcome" where
  "BufferManager_Front m =
     (if BufferManager_IsDynamicMode m then Returns (dynamicFront m) else staticFront m)"

definition BufferManager_Back :: "BufferManager \<Rightarrow> BufferBlock option outcome" where
  "BufferManager_Back m =
     (if BufferManager_IsDynamicMode m then Returns (dynamicBack m) else staticBack m)"

text \<open>The data, read size and write size of the front and back block.\<close>

definition blockData :: "BufferBlock option \<Rightarrow> (buffer_error + bytes \<times> int \<times> int) outcome" where
  "blockData ob =
     (if ob = None then Returns (Inl ErrNoData)
      else bind_outcome (BufferBlock_Data ob) (\<lambda>d.
        let nwrite = BufferBlock_Size ob; nread = BufferBlock_RawSize ob - nwrite
        in Returns (Inr (d, nread, nwrite))))"

definition BufferManager_FrontData :: "BufferManager \<Rightarrow> (buffer_error + bytes \<times> int \<times> int) outcome" where
  "BufferManager_FrontData m = bind_outcome (BufferManager_Front m) blockData"

definition BufferManager_BackData :: "BufferManager \<Rightarrow> (buffer_error + bytes \<times> int \<times> int) outcome" where
  "BufferManager_BackData m = bind_outcome (BufferManager_Back m) blockData"

definition overLimitNumber :: "Limit \<Rightarrow> bool" where
  "overLimitNumber l \<longleftrightarrow> 0 < LimitNumber l \<and> LimitNumber l \<le> CostNumber l"

definition overLimitSize :: "int \<Rightarrow> Limit \<Rightarrow> bool" where
  "overLimitSize sz l \<longleftrightarrow> 0 < LimitSize l \<and> LimitSize l < wrap64 (CostSize l + sz)"

definition chargePush :: "int \<Rightarrow> BufferBlock buffer_result \<Rightarrow> bytes buffer_result" where
  "chargePush sz r =
     bind_outcome r (\<lambda>(m, e). case e of
       Inl err \<Rightarrow> Returns (m, Inl err)
     | Inr block \<Rightarrow>
         let l = bm_limit m;
             m = m\<lparr>bm_limit := l\<lparr>CostNumber := CostNumber l + 1, CostSize := wrap64 (CostSize l + sz)\<rparr>\<rparr>
         in bind_outcome (BufferBlock_Data (Some block)) (\<lambda>d. Returns (m, Inr d)))"

definition BufferManager_PushBack :: "int \<Rightarrow> BufferManager \<Rightarrow> bytes buffer_result" where
  "BufferManager_PushBack sz m =
     (if overLimitNumber (bm_limit m) then Returns (m, Inl ErrBuffLimit)
      else if overLimitSize sz (bm_limit m) then Returns (m, Inl ErrBuffLimit)
      else chargePush sz
        (if BufferManager_IsDynamicMode m then dynamicPushBack sz m else staticPushBack sz m))"

definition BufferManager_PushFront :: "int \<Rightarrow> BufferManager \<Rightarrow> bytes buffer_result" where
  "BufferManager_PushFront sz m =
     (if overLimitNumber (bm_limit m) then Returns (m, Inl ErrBuffLimit)
      else if overLimitSize sz (bm_limit m) then Returns (m, Inl ErrBuffLimit)
      else chargePush sz
        (if BufferManager_IsDynamicMode m then dynamicPushFront sz m else staticPushFront sz m))"

definition BufferManager_PopBack :: "int \<Rightarrow> bool \<Rightarrow> BufferManager \<Rightarrow> unit buffer_result" where
  "BufferManager_PopBack sz freeUnwritable m =
     (if BufferManager_IsDynamicMode m then dynamicPopBack sz freeUnwritable m
      else staticPopBack sz freeUnwritable m)"

definition BufferManager_PopFront :: "int \<Rightarrow> bool \<Rightarrow> BufferManager \<Rightarrow> unit buffer_result" where
  "BufferManager_PopFront sz freeUnwritable m =
     (if BufferManager_IsDynamicMode m then dynamicPopFront sz freeUnwritable m
      else staticPopFront sz freeUnwritable m)"

definition chargeMerge :: "int \<Rightarrow> bytes buffer_result \<Rightarrow> bytes buffer_result" where
  "chargeMerge sz r =
     bind_outcome r (\<lambda>(m, e). case e of
       Inl err \<Rightarrow> Returns (m, Inl err)
     | Inr d \<Rightarrow>
         let l = bm_limit m in Returns (m\<lparr>bm_limit := l\<lparr>CostSize := wrap64 (CostSize l + sz)\<rparr>\<rparr>, Inr d))"

definition BufferManager_MergeBack :: "int \<Rightarrow> BufferManager \<Rightarrow> bytes buffer_result" where
  "BufferManager_MergeBack sz m =
     (if BufferManager_Empty m then BufferManager_PushBack sz m
      else if overLimitSize sz (bm_limit m) then Returns (m, Inl ErrBuffLimit)
      else chargeMerge sz
        (if BufferManager_IsDynamicMode m then dynamicMergeBack sz m else staticMergeBack sz m))"

definition BufferManager_MergeFront :: "int \<Rightarrow> BufferManager \<Rightarrow> bytes buffer_result" where
  "BufferManager_MergeFront sz m =
     (if BufferManager_Empty m then BufferManager_PushFront sz m
      else if overLimitSize sz (bm_limit m) then Returns (m, Inl ErrBuffLimit)
      else chargeMerge sz
        (if BufferManager_IsDynamicMode m then dynamicMergeFront sz m else staticMergeFront sz m))"

definition BufferManager_Count :: "BufferManager \<Rightarrow> nat" where
  "BufferManager_Count m =
     (case staticBuffer m of
        None \<Rightarrow> length (dynamicBuffer m)
      | Some sb \<Rightarrow>
          if staticEmpty m then 0
          else if sb_head sb \<le> sb_tail sb then sb_tail sb - sb_head sb
          else length (sb_circleIndex sb) - sb_head sb + sb_tail sb)"

text \<open>
  \<open>ForEach\<close> calls \<open>fn\<close>, here a state transformer that also says whether to go on, on every block.
  The loop over the ring stops at \<open>tail\<close>; it takes at most \<open>circleLen\<close> rounds, the fuel given to it.
\<close>

fun ForEach_list :: "(BufferBlock \<Rightarrow> 's \<Rightarrow> 's \<times> bool) \<Rightarrow> BufferBlock list \<Rightarrow> 's \<Rightarrow> 's" where
  "ForEach_list fn [] s = s"
| "ForEach_list fn (b # bs) s =
     (let (s', cont) = fn b s in if cont then ForEach_list fn bs s' else s')"

fun ForEach_ring ::
  "(BufferBlock \<Rightarrow> 's \<Rightarrow> 's \<times> bool) \<Rightarrow> nat \<Rightarrow> staticBufferStorage \<Rightarrow> nat \<Rightarrow> 's \<Rightarrow> 's option" where
  "ForEach_ring fn fuel sb i s =
     (if i = sb_tail sb then Some s
      else case fuel of 0 \<Rightarrow> None
      | Suc fuel \<Rightarrow>
          (case sb_circleIndex sb ! i of
             None \<Rightarrow> ForEach_ring fn fuel sb ((i + 1) mod length (sb_circleIndex sb)) s
           | Some b \<Rightarrow>
               let (s', cont) = fn b s in
               if cont then ForEach_ring fn fuel sb ((i + 1) mod length (sb_circleIndex sb)) s'
               else Some s'))"

definition BufferManager_ForEach ::
  "(BufferBlock \<Rightarrow> 's \<Rightarrow> 's \<times> bool) \<Rightarrow> BufferManager \<Rightarrow> 's \<Rightarrow> 's option" where
  "BufferManager_ForEach fn m s =
     (case staticBuffer m of
        None \<Rightarrow> Some (ForEach_list fn (dynamicBuffer m) s)
      | Some sb \<Rightarrow>
          if staticEmpty m then Some s
          else ForEach_ring fn (length (sb_circleIndex sb)) sb (sb_head sb) s)"

declare ForEach_ring.simps [simp del]


subsection \<open>Abstract view: a list of blocks\<close>

definition sizes :: "BufferBlock list \<Rightarrow> int" where
  "sizes bs = (\<Sum>b\<leftarrow>bs. BufferBlock_Size (Some b))"

definition stream :: "BufferBlock list \<Rightarrow> bytes" where
  "stream bs = concat (map bb_unread bs)"

definition costs :: "BufferBlock list \<Rightarrow> Limit \<Rightarrow> bool" where
  "costs bs l \<longleftrightarrow> CostNumber l = int (length bs) \<and> CostSize l = sizes bs"

definition same_bounds :: "Limit \<Rightarrow> Limit \<Rightarrow> bool" where
  "same_bounds l l' \<longleftrightarrow> LimitNumber l' = LimitNumber l \<and> LimitSize l' = LimitSize l"

definition fresh :: "int \<Rightarrow> BufferBlock \<Rightarrow> bool" where
  "fresh n b \<longleftrightarrow> int (length (bb_data b)) = n \<and> bb_used b = 0"

definition advance :: "int \<Rightarrow> BufferBlock \<Rightarrow> BufferBlock" where
  "advance n b = b\<lparr>bb_used := bb_used b + min n (BufferBlock_Size (Some b))\<rparr>"

definition popped :: "int \<Rightarrow> bool \<Rightarrow> BufferBlock \<Rightarrow> BufferBlock list" where
  "popped n free b =
     (if free \<and> BufferBlock_Size (Some (advance n b)) = 0 then [] else [advance n b])"

definition grow_back :: "int \<Rightarrow> BufferBlock \<Rightarrow> BufferBlock" where
  "grow_back n b = b\<lparr>bb_data := bb_data b @ make_bytes (nat n)\<rparr>"

definition grow_front :: "int \<Rightarrow> BufferBlock \<Rightarrow> BufferBlock" where
  "grow_front n b = b\<lparr>bb_data := make_bytes (nat n) @ bb_data b\<rparr>"

lemma sizes_simps [simp]:
  "sizes [] = 0" "sizes (b # bs) = BufferBlock_Size (Some b) + sizes bs"
  "sizes (bs @ cs) = sizes bs + sizes cs"
  by (simp_all add: sizes_def)

lemma stream_simps [simp]:
  "stream [] = []" "stream (b # bs) = bb_unread b @ stream bs" "stream (bs @ cs) = stream bs @ stream cs"
  by (simp_all add: stream_def)

lemma BufferBlock_Size_nonneg [simp]: "0 \<le> BufferBlock_Size ob"
  by (auto simp: BufferBlock_Size_def Let_def split: option.split)

lemma sizes_nonneg [simp]: "0 \<le> sizes bs"
  by (induction bs) simp_all

text \<open>The memory of the blocks, and that a request for \<open>n\<close> more bytes can be served from what the runtime can allocate.\<close>

definition raws :: "BufferBlock list \<Rightarrow> int" where
  "raws bs = (\<Sum>b\<leftarrow>bs. int (length (bb_data b)))"

definition fits :: "int \<Rightarrow> BufferBlock list \<Rightarrow> bool" where
  "fits n bs \<longleftrightarrow> 0 < n \<and> raws bs + n \<le> maxAlloc"

lemma raws_simps [simp]:
  "raws [] = 0" "raws (b # bs) = int (length (bb_data b)) + raws bs" "raws (bs @ cs) = raws bs + raws cs"
  by (simp_all add: raws_def)

lemma raws_nonneg [simp]: "0 \<le> raws bs"
  by (induction bs) simp_all

lemma sizes_le_raws: "\<forall>b\<in>set bs. bb_wf b \<Longrightarrow> sizes bs \<le> raws bs"
  by (induction bs) (auto simp: bb_wf_def BufferBlock_Size_def Let_def)

lemma fitsD:
  assumes "fits n bs"
  shows "0 < n" "n \<le> maxAlloc" "b \<in> set bs \<Longrightarrow> n + int (length (bb_data b)) \<le> maxAlloc"
    "\<forall>b\<in>set bs. bb_wf b \<Longrightarrow> sizes bs + n < 2 ^ 63"
proof -
  show "0 < n" "n \<le> maxAlloc" using assms raws_nonneg [of bs] unfolding fits_def by linarith+
  show "n + int (length (bb_data b)) \<le> maxAlloc" if b: "b \<in> set bs"
  proof -
    obtain xs ys where "bs = xs @ b # ys" using b by (meson split_list)
    then have "int (length (bb_data b)) \<le> raws bs" by simp
    then show ?thesis using assms by (simp add: fits_def)
  qed
  show "sizes bs + n < 2 ^ 63" if "\<forall>b\<in>set bs. bb_wf b"
    using assms sizes_le_raws [OF that] by (simp add: fits_def maxAlloc_def)
qed

lemma wrap64_sizes: "0 \<le> n \<Longrightarrow> sizes bs + n < 2 ^ 63 \<Longrightarrow> wrap64 (sizes bs + n) = sizes bs + n"
  using sizes_nonneg [of bs] by (intro wrap64_id) linarith+

lemma sizes_stream: "(\<forall>b\<in>set bs. bb_wf b) \<Longrightarrow> sizes bs = int (length (stream bs))"
  by (induction bs) (simp_all add: BufferBlock_Size_unread)

lemma fresh_block: "fresh n b \<Longrightarrow> bb_wf b \<and> BufferBlock_Size (Some b) = n \<and> BufferBlock_Data (Some b) = Returns (bb_data b)"
  by (auto simp: fresh_def bb_wf_def BufferBlock_Size_def BufferBlock_Data_def slice_def)

lemma NewBufferBlock_fresh: "0 < n \<Longrightarrow> n \<le> maxAlloc \<Longrightarrow> \<exists>b. NewBufferBlock n = Returns (Some b) \<and> fresh n b"
  by (auto simp: NewBufferBlock_def fresh_def)

lemma advance_block:
  assumes "bb_wf b" and "0 \<le> n"
  shows "bb_wf (advance n b)"
    and "BufferBlock_Size (Some (advance n b)) = BufferBlock_Size (Some b) - min n (BufferBlock_Size (Some b))"
    and "bb_unread (advance n b) = drop (nat n) (bb_unread b)"
    and "BufferBlock_Pop (min n (BufferBlock_Size (Some b))) (Some b)
           = (Some (advance n b), Returns (bb_unread (advance n b)))"
proof -
  let ?k = "min n (BufferBlock_Size (Some b))"
  obtain b' where b': "BufferBlock_Pop ?k (Some b) = (Some b', Returns (bb_unread b'))" "bb_wf b'"
    "bb_unread b' = drop (nat ?k) (bb_unread b)" "bb_data b' = bb_data b" "bb_used b' = bb_used b + ?k"
    using BufferBlock_Pop_unread [of b ?k] assms by auto
  have eq: "b' = advance n b"
    using b'(4,5) by (simp add: advance_def)
  have size_b: "BufferBlock_Size (Some b) = int (length (bb_unread b))"
    using assms by (simp add: BufferBlock_Size_unread)
  show "bb_wf (advance n b)" and "BufferBlock_Pop ?k (Some b) = (Some (advance n b), Returns (bb_unread (advance n b)))"
    using b' eq by simp_all
  show un: "bb_unread (advance n b) = drop (nat n) (bb_unread b)"
    using b'(3) eq assms(2) size_b by (simp add: min_def nat_le_iff)
  show "BufferBlock_Size (Some (advance n b)) = BufferBlock_Size (Some b) - ?k"
    using b'(2) eq un size_b assms(2) by (simp add: BufferBlock_Size_unread min_def of_nat_diff)
qed

lemma popped_props:
  assumes "bb_wf b" and "0 \<le> n"
  shows "\<forall>x\<in>set (popped n free b). bb_wf x"
    and "sizes (popped n free b) = BufferBlock_Size (Some b) - min n (BufferBlock_Size (Some b))"
    and "stream (popped n free b) = drop (nat n) (bb_unread b)"
  using advance_block [OF assms] BufferBlock_Size_unread [of "advance n b"]
  by (auto simp: popped_def)

lemma grownBack_wf:
  assumes "bb_wf b" and "0 < n" and "n + int (length (bb_data b)) \<le> maxAlloc"
  shows "grownBack n b = Returns (Some (grow_back n b, make_bytes (nat n)))"
  using assms
  by (auto simp: grownBack_def NewBufferBlock_def BufferBlock_RawSize_def slice_def Let_def maxAlloc_def
      grow_back_def copy_at_fits make_bytes_def nat_add_distrib)

lemma grownFront_wf:
  assumes "bb_wf b" and "0 < n" and "n + int (length (bb_data b)) \<le> maxAlloc"
  shows "grownFront n b = Returns (Some (grow_front n b, make_bytes (nat n)))"
  using assms
  by (auto simp: grownFront_def NewBufferBlock_def BufferBlock_RawSize_def slice_def Let_def maxAlloc_def
      grow_front_def copy_at_fits make_bytes_def nat_add_distrib)

lemma grow_back_block:
  assumes "bb_wf b" and "0 < n"
  shows "bb_wf (grow_back n b)" and "BufferBlock_Size (Some (grow_back n b)) = BufferBlock_Size (Some b) + n"
    and "bb_unread (grow_back n b) = bb_unread b @ make_bytes (nat n)"
  using assms by (auto simp: bb_wf_def grow_back_def BufferBlock_Size_def bb_unread_def)

lemma grow_front_block:
  assumes "bb_wf b" and "0 < n"
  shows "bb_wf (grow_front n b)" and "BufferBlock_Size (Some (grow_front n b)) = BufferBlock_Size (Some b) + n"
    and "bb_unread (grow_front n b) = drop (nat (bb_used b)) (make_bytes (nat n) @ bb_data b)"
  using assms by (auto simp: bb_wf_def grow_front_def BufferBlock_Size_def bb_unread_def)

subsection \<open>The deque contract of both storage modes\<close>

text \<open>
  \<open>rep m bs\<close>: the storage of \<open>m\<close> holds the blocks \<open>bs\<close> in order; \<open>room m bs n\<close>: it can take a block
  of \<open>n\<close> more bytes. The laws say how each operation changes the list.
\<close>

locale block_deque =
  fixes rep :: "BufferManager \<Rightarrow> BufferBlock list \<Rightarrow> bool"
    and room :: "BufferManager \<Rightarrow> BufferBlock list \<Rightarrow> int \<Rightarrow> bool"
    and push_back push_front :: "int \<Rightarrow> BufferManager \<Rightarrow> BufferBlock buffer_result"
    and pop_back pop_front :: "int \<Rightarrow> bool \<Rightarrow> BufferManager \<Rightarrow> unit buffer_result"
    and merge_back merge_front :: "int \<Rightarrow> BufferManager \<Rightarrow> bytes buffer_result"
  assumes rep_limit: "rep m bs \<Longrightarrow> same_bounds (bm_limit m) l \<Longrightarrow> rep (m\<lparr>bm_limit := l\<rparr>) bs"
    and push_back_law: "rep m bs \<Longrightarrow> room m bs n \<Longrightarrow> fits n bs \<Longrightarrow>
      \<exists>m' b. push_back n m = Returns (m', Inr b) \<and> rep m' (bs @ [b]) \<and> fresh n b \<and> bm_limit m' = bm_limit m"
    and push_front_law: "rep m bs \<Longrightarrow> room m bs n \<Longrightarrow> fits n bs \<Longrightarrow>
      \<exists>m' b. push_front n m = Returns (m', Inr b) \<and> rep m' (b # bs) \<and> fresh n b \<and> bm_limit m' = bm_limit m"
    and pop_back_law: "rep m (bs @ [b]) \<Longrightarrow> bb_wf b \<Longrightarrow> 0 \<le> n \<Longrightarrow>
      \<exists>m'. pop_back n free m = Returns (m', Inr ()) \<and> rep m' (bs @ popped n free b)
        \<and> bm_limit m' = fixLimit (bs @ popped n free b = []) (min n (BufferBlock_Size (Some b)))
            (if popped n free b = [] then releaseNumber (bm_limit m) else bm_limit m)"
    and pop_front_law: "rep m (b # bs) \<Longrightarrow> bb_wf b \<Longrightarrow> 0 \<le> n \<Longrightarrow>
      \<exists>m'. pop_front n free m = Returns (m', Inr ()) \<and> rep m' (popped n free b @ bs)
        \<and> bm_limit m' = fixLimit (popped n free b @ bs = []) (min n (BufferBlock_Size (Some b)))
            (if popped n free b = [] then releaseNumber (bm_limit m) else bm_limit m)"
    and pop_empty_law: "rep m [] \<Longrightarrow>
      pop_back n free m = Returns (m, Inl ErrNoData) \<and> pop_front n free m = Returns (m, Inl ErrNoData)"
    and merge_back_law: "rep m (bs @ [b]) \<Longrightarrow> bb_wf b \<Longrightarrow> fits n (bs @ [b]) \<Longrightarrow>
      \<exists>m'. merge_back n m = Returns (m', Inr (make_bytes (nat n))) \<and> rep m' (bs @ [grow_back n b])
        \<and> bm_limit m' = bm_limit m"
    and merge_front_law: "rep m (b # bs) \<Longrightarrow> bb_wf b \<Longrightarrow> fits n (b # bs) \<Longrightarrow>
      \<exists>m'. merge_front n m = Returns (m', Inr (make_bytes (nat n))) \<and> rep m' (grow_front n b # bs)
        \<and> bm_limit m' = bm_limit m"
begin

definition deque :: "BufferManager \<Rightarrow> BufferBlock list \<Rightarrow> bool" where
  "deque m bs \<longleftrightarrow> rep m bs \<and> (\<forall>b\<in>set bs. bb_wf b) \<and> costs bs (bm_limit m)"

lemma charged_push:
  assumes "push_op n m = Returns (m', Inr b)" and "rep m' bs'" and "fresh n b" and "bm_limit m' = bm_limit m"
    and "costs bs (bm_limit m)" and "\<forall>x\<in>set bs'. bb_wf x" and "length bs' = Suc (length bs)" and "sizes bs' = sizes bs + n"
    and "0 < n" and "sizes bs + n < 2 ^ 63"
  shows "\<exists>m''. chargePush n (push_op n m) = Returns (m'', Inr (bb_data b)) \<and> deque m'' bs'
    \<and> same_bounds (bm_limit m) (bm_limit m'')"
proof -
  let ?l = "(bm_limit m)\<lparr>CostNumber := CostNumber (bm_limit m) + 1, CostSize := CostSize (bm_limit m) + n\<rparr>"
  have "rep (m'\<lparr>bm_limit := ?l\<rparr>) bs'"
    using assms by (intro rep_limit) (simp_all add: same_bounds_def)
  then have "deque (m'\<lparr>bm_limit := ?l\<rparr>) bs'"
    using assms by (simp add: deque_def costs_def)
  then show ?thesis
    using assms fresh_block [of n b] wrap64_sizes [of n bs] by (simp add: chargePush_def same_bounds_def costs_def Let_def)
qed

lemma charged_push_back:
  assumes "deque m bs" and "room m bs n" and "fits n bs"
  shows "\<exists>m' b. chargePush n (push_back n m) = Returns (m', Inr (bb_data b)) \<and> deque m' (bs @ [b]) \<and> fresh n b
    \<and> same_bounds (bm_limit m) (bm_limit m')"
proof -
  obtain m' b where "push_back n m = Returns (m', Inr b)" "rep m' (bs @ [b])" "fresh n b" "bm_limit m' = bm_limit m"
    using push_back_law [of m bs n] assms by (auto simp: deque_def)
  with charged_push [of push_back n m m' b "bs @ [b]" bs] fresh_block [of n b] fitsD(1,4) [OF assms(3)] assms show ?thesis
    by (auto simp: deque_def)
qed

lemma charged_push_front:
  assumes "deque m bs" and "room m bs n" and "fits n bs"
  shows "\<exists>m' b. chargePush n (push_front n m) = Returns (m', Inr (bb_data b)) \<and> deque m' (b # bs) \<and> fresh n b
    \<and> same_bounds (bm_limit m) (bm_limit m')"
proof -
  obtain m' b where "push_front n m = Returns (m', Inr b)" "rep m' (b # bs)" "fresh n b" "bm_limit m' = bm_limit m"
    using push_front_law [of m bs n] assms by (auto simp: deque_def)
  with charged_push [of push_front n m m' b "b # bs" bs] fresh_block [of n b] fitsD(1,4) [OF assms(3)] assms show ?thesis
    by (auto simp: deque_def)
qed

lemma popped_costs:
  assumes "costs bs l" and "sizes bs = BufferBlock_Size (Some b) + sizes cs" and "length bs = Suc (length cs)"
    and "bb_wf b" and "0 \<le> n" and "sizes bs' = sizes (popped n free b) + sizes cs"
    and "length bs' = length (popped n free b) + length cs"
  shows "costs bs' (fixLimit (bs' = []) (min n (BufferBlock_Size (Some b)))
    (if popped n free b = [] then releaseNumber l else l))"
proof -
  have "sizes bs' = sizes bs - min n (BufferBlock_Size (Some b))"
    using assms(2,6) popped_props(2) [OF assms(4,5), of free] by simp
  moreover have "min n (BufferBlock_Size (Some b)) \<le> sizes bs"
    using assms(2) sizes_nonneg [of cs] by linarith
  moreover have "length (popped n free b) = (if popped n free b = [] then 0 else 1)"
    by (simp add: popped_def)
  ultimately show ?thesis
    using assms(1,3,7) by (auto simp: costs_def fixLimit_def releaseNumber_def split: if_splits)
qed

lemma bounds_after_pop:
  "same_bounds l (fixLimit e n (if c then releaseNumber l else l))"
  by (simp add: same_bounds_def fixLimit_def releaseNumber_def)

lemma pop_back_deque:
  assumes "deque m (bs @ [b])" and "0 \<le> n"
  shows "\<exists>m'. pop_back n free m = Returns (m', Inr ()) \<and> deque m' (bs @ popped n free b)
    \<and> same_bounds (bm_limit m) (bm_limit m')"
proof -
  have d: "rep m (bs @ [b])" "\<forall>x\<in>set bs. bb_wf x" "bb_wf b" "costs (bs @ [b]) (bm_limit m)"
    using assms(1) by (auto simp: deque_def)
  obtain m' where m': "pop_back n free m = Returns (m', Inr ())" "rep m' (bs @ popped n free b)"
    "bm_limit m' = fixLimit (bs @ popped n free b = []) (min n (BufferBlock_Size (Some b)))
       (if popped n free b = [] then releaseNumber (bm_limit m) else bm_limit m)"
    using pop_back_law [OF d(1,3) assms(2)] by blast
  have "costs (bs @ popped n free b) (bm_limit m')"
    unfolding m'(3) using d assms(2) by (intro popped_costs [where bs = "bs @ [b]" and cs = bs]) simp_all
  with m' d popped_props(1) [OF d(3) assms(2), of free] show ?thesis
    by (auto simp: deque_def bounds_after_pop)
qed

lemma pop_front_deque:
  assumes "deque m (b # bs)" and "0 \<le> n"
  shows "\<exists>m'. pop_front n free m = Returns (m', Inr ()) \<and> deque m' (popped n free b @ bs)
    \<and> same_bounds (bm_limit m) (bm_limit m')"
proof -
  have d: "rep m (b # bs)" "\<forall>x\<in>set bs. bb_wf x" "bb_wf b" "costs (b # bs) (bm_limit m)"
    using assms(1) by (auto simp: deque_def)
  obtain m' where m': "pop_front n free m = Returns (m', Inr ())" "rep m' (popped n free b @ bs)"
    "bm_limit m' = fixLimit (popped n free b @ bs = []) (min n (BufferBlock_Size (Some b)))
       (if popped n free b = [] then releaseNumber (bm_limit m) else bm_limit m)"
    using pop_front_law [OF d(1,3) assms(2)] by blast
  have "costs (popped n free b @ bs) (bm_limit m')"
    unfolding m'(3) using d assms(2) by (intro popped_costs [where bs = "b # bs" and cs = bs]) simp_all
  with m' d popped_props(1) [OF d(3) assms(2), of free] show ?thesis
    by (auto simp: deque_def bounds_after_pop)
qed

lemma charged_merge:
  assumes "r = Returns (m', Inr d)" and "rep m' bs'" and "bm_limit m' = bm_limit m"
    and "costs bs (bm_limit m)" and "\<forall>x\<in>set bs'. bb_wf x" and "length bs' = length bs" and "sizes bs' = sizes bs + n"
    and "0 < n" and "sizes bs + n < 2 ^ 63"
  shows "\<exists>m''. chargeMerge n r = Returns (m'', Inr d) \<and> deque m'' bs' \<and> same_bounds (bm_limit m) (bm_limit m'')"
proof -
  let ?l = "(bm_limit m)\<lparr>CostSize := CostSize (bm_limit m) + n\<rparr>"
  have "rep (m'\<lparr>bm_limit := ?l\<rparr>) bs'"
    using assms by (intro rep_limit) (simp_all add: same_bounds_def)
  then have "deque (m'\<lparr>bm_limit := ?l\<rparr>) bs'"
    using assms by (simp add: deque_def costs_def)
  then show ?thesis
    using assms wrap64_sizes [of n bs] by (simp add: chargeMerge_def same_bounds_def costs_def Let_def)
qed

lemma charged_merge_back:
  assumes "deque m (bs @ [b])" and "fits n (bs @ [b])"
  shows "\<exists>m'. chargeMerge n (merge_back n m) = Returns (m', Inr (make_bytes (nat n)))
    \<and> deque m' (bs @ [grow_back n b]) \<and> same_bounds (bm_limit m) (bm_limit m')"
proof -
  have d: "rep m (bs @ [b])" "\<forall>x\<in>set bs. bb_wf x" "bb_wf b" "costs (bs @ [b]) (bm_limit m)"
    using assms(1) by (auto simp: deque_def)
  obtain m' where "merge_back n m = Returns (m', Inr (make_bytes (nat n)))" "rep m' (bs @ [grow_back n b])"
    "bm_limit m' = bm_limit m"
    using merge_back_law [OF d(1,3) assms(2)] by blast
  then show ?thesis
    using d grow_back_block [OF d(3) fitsD(1) [OF assms(2)]] fitsD(1,4) [OF assms(2)]
    by (intro charged_merge [where bs = "bs @ [b]" and m' = m']) auto
qed

lemma charged_merge_front:
  assumes "deque m (b # bs)" and "fits n (b # bs)"
  shows "\<exists>m'. chargeMerge n (merge_front n m) = Returns (m', Inr (make_bytes (nat n)))
    \<and> deque m' (grow_front n b # bs) \<and> same_bounds (bm_limit m) (bm_limit m')"
proof -
  have d: "rep m (b # bs)" "\<forall>x\<in>set bs. bb_wf x" "bb_wf b" "costs (b # bs) (bm_limit m)"
    using assms(1) by (auto simp: deque_def)
  obtain m' where "merge_front n m = Returns (m', Inr (make_bytes (nat n)))" "rep m' (grow_front n b # bs)"
    "bm_limit m' = bm_limit m"
    using merge_front_law [OF d(1,3) assms(2)] by blast
  then show ?thesis
    using d grow_front_block [OF d(3) fitsD(1) [OF assms(2)]] fitsD(1,4) [OF assms(2)]
    by (intro charged_merge [where bs = "b # bs" and m' = m']) auto
qed

end

subsection \<open>The linked list provides the contract\<close>

definition dynamic_rep :: "BufferManager \<Rightarrow> BufferBlock list \<Rightarrow> bool" where
  "dynamic_rep m bs \<longleftrightarrow> staticBuffer m = None \<and> dynamicBuffer m = bs"

definition dynamic_room :: "BufferManager \<Rightarrow> BufferBlock list \<Rightarrow> int \<Rightarrow> bool" where
  "dynamic_room m bs n \<longleftrightarrow> True"

lemma min_by_if: "(if y < x then y else x) = min x y" for x y :: int
  by simp

lemma size_zero_iff: "BufferBlock_Size ob \<le> 0 \<longleftrightarrow> BufferBlock_Size ob = 0"
  using BufferBlock_Size_nonneg [of ob] by linarith

lemma dynamicPopBack_rep:
  assumes "dynamic_rep m (bs @ [b])" and "bb_wf b" and "0 \<le> n"
  shows "\<exists>m'. dynamicPopBack n free m = Returns (m', Inr ()) \<and> dynamic_rep m' (bs @ popped n free b)
    \<and> bm_limit m' = fixLimit (bs @ popped n free b = []) (min n (BufferBlock_Size (Some b)))
        (if popped n free b = [] then releaseNumber (bm_limit m) else bm_limit m)"
  using assms advance_block(4) [OF assms(2,3)]
  by (auto simp: dynamicPopBack_def dynamic_rep_def dynamicEmpty_def min_by_if size_zero_iff popped_def Let_def)

lemma dynamicPopFront_rep:
  assumes "dynamic_rep m (b # bs)" and "bb_wf b" and "0 \<le> n"
  shows "\<exists>m'. dynamicPopFront n free m = Returns (m', Inr ()) \<and> dynamic_rep m' (popped n free b @ bs)
    \<and> bm_limit m' = fixLimit (popped n free b @ bs = []) (min n (BufferBlock_Size (Some b)))
        (if popped n free b = [] then releaseNumber (bm_limit m) else bm_limit m)"
  using assms advance_block(4) [OF assms(2,3)]
  by (auto simp: dynamicPopFront_def dynamic_rep_def dynamicEmpty_def min_by_if size_zero_iff popped_def Let_def)

lemma dynamicPush_rep:
  assumes "dynamic_rep m bs" and "dynamic_room m bs n" and "fits n bs"
  shows "\<exists>m' b. dynamicPushBack n m = Returns (m', Inr b) \<and> dynamic_rep m' (bs @ [b]) \<and> fresh n b
      \<and> bm_limit m' = bm_limit m"
    and "\<exists>m' b. dynamicPushFront n m = Returns (m', Inr b) \<and> dynamic_rep m' (b # bs) \<and> fresh n b
      \<and> bm_limit m' = bm_limit m"
  using assms NewBufferBlock_fresh [OF fitsD(1,2) [OF assms(3)]]
  by (auto simp: dynamicPushBack_def dynamicPushFront_def dynamic_rep_def)

lemma dynamicMergeBack_rep:
  assumes "dynamic_rep m (bs @ [b])" and "bb_wf b" and "fits n (bs @ [b])"
  shows "\<exists>m'. dynamicMergeBack n m = Returns (m', Inr (make_bytes (nat n))) \<and> dynamic_rep m' (bs @ [grow_back n b]) \<and> bm_limit m' = bm_limit m"
  using assms grownBack_wf [OF assms(2) fitsD(1) [OF assms(3)] fitsD(3) [OF assms(3)]] fitsD(1) [OF assms(3)]
  by (auto simp: dynamic_rep_def dynamicMergeBack_def dynamicBack_def dynamicEmpty_def)

lemma dynamicMergeFront_rep:
  assumes "dynamic_rep m (b # bs)" and "bb_wf b" and "fits n (b # bs)"
  shows "\<exists>m'. dynamicMergeFront n m = Returns (m', Inr (make_bytes (nat n))) \<and> dynamic_rep m' (grow_front n b # bs) \<and> bm_limit m' = bm_limit m"
  using assms grownFront_wf [OF assms(2) fitsD(1) [OF assms(3)] fitsD(3) [OF assms(3)]] fitsD(1) [OF assms(3)]
  by (auto simp: dynamic_rep_def dynamicMergeFront_def dynamicFront_def dynamicEmpty_def)

interpretation dyn: block_deque dynamic_rep dynamic_room dynamicPushBack dynamicPushFront
  dynamicPopBack dynamicPopFront dynamicMergeBack dynamicMergeFront
  by unfold_locales (fact dynamicPush_rep dynamicPopBack_rep dynamicPopFront_rep dynamicMergeBack_rep dynamicMergeFront_rep |
    simp add: dynamic_rep_def dynamicPopBack_def dynamicPopFront_def dynamicEmpty_def)+

subsection \<open>The ring provides the contract\<close>

text \<open>
  Read from \<open>head\<close> on, the slots hold the blocks and then only nil; one slot always stays empty, and
  \<open>tail\<close> is the slot after the last block.
\<close>

definition ring :: "BufferBlock option list \<Rightarrow> nat \<Rightarrow> BufferBlock list \<Rightarrow> bool" where
  "ring idx h bs \<longleftrightarrow> h < length idx \<and> length bs < length idx
     \<and> (\<forall>i<length idx. idx ! ((h + i) mod length idx) = (if i < length bs then Some (bs ! i) else None))"

definition ring_storage :: "staticBufferStorage \<Rightarrow> BufferBlock list \<Rightarrow> bool" where
  "ring_storage sb bs \<longleftrightarrow> ring (sb_circleIndex sb) (sb_head sb) bs
     \<and> sb_tail sb = (sb_head sb + length bs) mod length (sb_circleIndex sb)"

definition static_rep :: "BufferManager \<Rightarrow> BufferBlock list \<Rightarrow> bool" where
  "static_rep m bs \<longleftrightarrow> (\<exists>sb. staticBuffer m = Some sb \<and> ring_storage sb bs
     \<and> LimitNumber (bm_limit m) = int (length (sb_circleIndex sb)) - 1 \<and> 0 < LimitNumber (bm_limit m)
     \<and> LimitSize (bm_limit m) \<le> int (length (sb_buffer sb)) \<and> 0 < LimitSize (bm_limit m))"

definition static_room :: "BufferManager \<Rightarrow> BufferBlock list \<Rightarrow> int \<Rightarrow> bool" where
  "static_room m bs n \<longleftrightarrow> int (length bs) < LimitNumber (bm_limit m) \<and> n \<le> LimitSize (bm_limit m)"

lemma add_mod_inj:
  "i < n \<Longrightarrow> j < n \<Longrightarrow> (h + i) mod n = (h + j) mod n \<longleftrightarrow> i = j" for h i j n :: nat
  using nth_eq_iff_index_eq [of "rotate h [0..<n]" i j] by (simp add: nth_rotate)

lemma mod_length_less: "i < length xs \<Longrightarrow> k mod length xs < length xs"
  by (intro mod_less_divisor) linarith

lemma shift_mod:
  "h < n \<Longrightarrow> ((h + n - 1) mod n + Suc k) mod n = (h + k) mod n"
  "((h + 1) mod n + k) mod n = (h + Suc k) mod n" for h k n :: nat
proof -
  assume "h < n"
  then have "(h + n - 1 + Suc k) mod n = (h + k + n) mod n" by (simp add: algebra_simps)
  then show "((h + n - 1) mod n + Suc k) mod n = (h + k) mod n" by (simp only: mod_add_left_eq mod_add_self2)
qed (simp add: mod_simps)

lemma ring_empty_any:
  assumes "ring idx h []" and "h' < length idx"
  shows "ring idx h' []"
proof -
  have "idx ! j = None" if "j < length idx" for j
  proof -
    let ?i = "(j + (length idx - h)) mod length idx"
    have "h + (j + (length idx - h)) = j + length idx"
      using assms(1) by (simp add: ring_def)
    then have "(h + ?i) mod length idx = j"
      using that by (metis mod_add_right_eq mod_add_self2 mod_less)
    moreover have "?i < length idx" using that by (intro mod_less_divisor) auto
    ultimately show ?thesis
      using assms(1) by (metis list.size(3) not_less_zero ring_def)
  qed
  then show ?thesis using assms(2) mod_length_less [OF assms(2)] by (auto simp: ring_def)
qed

lemma ring_update_nth:
  "ring idx h bs \<Longrightarrow> i < length idx \<Longrightarrow> j < length idx \<Longrightarrow>
   idx[(h + i) mod length idx := x] ! ((h + j) mod length idx) =
     (if i = j then x else if j < length bs then Some (bs ! j) else None)"
  using add_mod_inj [of i "length idx" j h] mod_length_less [of j idx]
  by (simp add: ring_def nth_list_update)

lemma ring_push_back:
  assumes "ring idx h bs" and "Suc (length bs) < length idx"
  shows "ring (idx[(h + length bs) mod length idx := Some b]) h (bs @ [b])"
  using assms ring_update_nth [OF assms(1), of "length bs"]
  by (auto simp: ring_def nth_append less_Suc_eq)

lemma ring_set:
  assumes "ring idx h bs" and "i < length bs"
  shows "ring (idx[(h + i) mod length idx := Some b]) h (bs[i := b])"
  using assms ring_update_nth [OF assms(1), of i]
  by (auto simp: ring_def nth_list_update)

lemma ring_pop_back:
  assumes "ring idx h (bs @ [b])"
  shows "ring (idx[(h + length bs) mod length idx := None]) h bs"
  using assms ring_update_nth [OF assms(1), of "length bs"]
  by (auto simp: ring_def nth_append)

lemma ring_push_front:
  assumes "ring idx h bs" and "Suc (length bs) < length idx"
  shows "ring (idx[(h + length idx - 1) mod length idx := Some b]) ((h + length idx - 1) mod length idx) (b # bs)"
proof -
  let ?L = "length idx" let ?h = "(h + length idx - 1) mod length idx"
  have h: "h < ?L" using assms by (simp add: ring_def)
  have "idx[?h := Some b] ! ((?h + i) mod ?L) = (if i < Suc (length bs) then Some ((b # bs) ! i) else None)"
    if "i < ?L" for i
  proof (cases i)
    case (Suc k)
    have eq: "(?h + i) mod ?L = (h + k) mod ?L" using Suc shift_mod(1) [OF h, of k] by simp
    have "?h \<noteq> (h + k) mod ?L"
      using add_mod_inj [of "?L - 1" ?L k h] Suc that by auto
    then show ?thesis
      using eq Suc that assms by (simp add: ring_def)
  qed (use h mod_length_less [of h idx] in simp)
  then show ?thesis using assms by (auto simp: ring_def intro: mod_less_divisor)
qed

lemma ring_pop_front:
  assumes "ring idx h (b # bs)"
  shows "ring (idx[h := None]) ((h + 1) mod length idx) bs"
proof -
  let ?L = "length idx"
  have h: "h < ?L" and len: "Suc (length bs) < ?L" using assms by (simp_all add: ring_def)
  have "idx[h := None] ! (((h + 1) mod ?L + i) mod ?L) = (if i < length bs then Some (bs ! i) else None)"
    if "i < ?L" for i
  proof (cases "Suc i = ?L")
    case True
    then have "((h + 1) mod ?L + i) mod ?L = h"
      using h by (simp only: shift_mod(2) True) simp
    then show ?thesis using True len h by simp
  next
    case False
    have "idx[(h + 0) mod ?L := None] ! ((h + Suc i) mod ?L) = (if Suc i < length (b # bs) then Some ((b # bs) ! Suc i) else None)"
      using False that h by (subst ring_update_nth [OF assms]) auto
    then show ?thesis unfolding shift_mod(2) using h by simp
  qed
  then show ?thesis using len by (auto simp: ring_def intro: mod_less_divisor)
qed

lemma ring_storage_slots:
  assumes "ring_storage sb bs"
  shows "sb_head sb < length (sb_circleIndex sb)" and "sb_tail sb < length (sb_circleIndex sb)"
    and "sb_circleIndex sb ! sb_head sb = (case bs of [] \<Rightarrow> None | b # _ \<Rightarrow> Some b)"
    and "sb_circleIndex sb ! sb_tail sb = None"
    and "sb_head sb = sb_tail sb \<longleftrightarrow> bs = []"
    and "(sb_tail sb + 1) mod length (sb_circleIndex sb) = sb_head sb
           \<longleftrightarrow> Suc (length bs) = length (sb_circleIndex sb)"
proof -
  let ?L = "length (sb_circleIndex sb)"
  have r: "ring (sb_circleIndex sb) (sb_head sb) bs" and t: "sb_tail sb = (sb_head sb + length bs) mod ?L"
    using assms by (simp_all add: ring_storage_def)
  have h: "sb_head sb < ?L" and l: "length bs < ?L"
    using r by (simp_all add: ring_def)
  show "sb_head sb < ?L" and "sb_tail sb < ?L"
    using h t mod_length_less [OF h] by simp_all
  show "sb_circleIndex sb ! sb_tail sb = None"
    using r l by (simp add: t ring_def)
  have "sb_circleIndex sb ! ((sb_head sb + 0) mod ?L) = (if 0 < length bs then Some (bs ! 0) else None)"
    using r l unfolding ring_def by (metis (no_types, lifting) le_less_trans zero_le)
  then show "sb_circleIndex sb ! sb_head sb = (case bs of [] \<Rightarrow> None | b # _ \<Rightarrow> Some b)"
    using h by (cases bs) simp_all
  show "sb_head sb = sb_tail sb \<longleftrightarrow> bs = []"
    using add_mod_inj [of 0 ?L "length bs" "sb_head sb"] h l by (cases "?L = 0") (simp_all add: t)
  have "(sb_tail sb + 1) mod ?L = (sb_head sb + Suc (length bs)) mod ?L"
    by (simp add: t mod_simps)
  moreover have "(sb_head sb + Suc (length bs)) mod ?L = sb_head sb \<longleftrightarrow> Suc (length bs) = ?L"
  proof (cases "Suc (length bs) = ?L")
    case True
    then show ?thesis using h by (simp only: True mod_add_self2) simp
  next
    case False
    then show ?thesis
      using add_mod_inj [of "Suc (length bs)" ?L 0 "sb_head sb"] h l by (cases "?L = 0") simp_all
  qed
  ultimately show "(sb_tail sb + 1) mod ?L = sb_head sb \<longleftrightarrow> Suc (length bs) = ?L"
    by simp
qed

lemma ring_storage_back:
  assumes "ring_storage sb (bs @ [b])"
  shows "sb_back_index sb = (sb_head sb + length bs) mod length (sb_circleIndex sb)"
    and "sb_back_index sb < length (sb_circleIndex sb)"
    and "sb_circleIndex sb ! sb_back_index sb = Some b"
proof -
  let ?L = "length (sb_circleIndex sb)"
  have r: "ring (sb_circleIndex sb) (sb_head sb) (bs @ [b])" and t: "sb_tail sb = (sb_head sb + Suc (length bs)) mod ?L"
    using assms by (simp_all add: ring_storage_def)
  have h: "sb_head sb < ?L" and l: "Suc (length bs) < ?L"
    using r by (simp_all add: ring_def)
  have "sb_head sb + Suc (length bs) + (?L - 1) = sb_head sb + length bs + ?L"
    using l by simp
  then have "((sb_head sb + Suc (length bs)) mod ?L + (?L - 1)) mod ?L = (sb_head sb + length bs + ?L) mod ?L"
    by (simp only: mod_add_left_eq)
  then show eq: "sb_back_index sb = (sb_head sb + length bs) mod ?L"
    using l by (simp add: sb_back_index_def t)
  show "sb_back_index sb < ?L"
    using eq mod_length_less [OF h] by simp
  show "sb_circleIndex sb ! sb_back_index sb = Some b"
    using r l by (simp add: eq ring_def)
qed

lemma ring_reset:
  assumes "ring_storage sb []"
  shows "ring_storage (sb\<lparr>sb_head := 0, sb_tail := 0\<rparr>) []"
proof -
  have "ring (sb_circleIndex sb) (sb_head sb) []" using assms by (simp add: ring_storage_def)
  moreover from this have "0 < length (sb_circleIndex sb)" unfolding ring_def by linarith
  ultimately have "ring (sb_circleIndex sb) 0 []" by (rule ring_empty_any)
  then show ?thesis by (simp add: ring_storage_def)
qed

lemma static_repI:
  assumes "static_rep m bs" and "staticBuffer m = Some sb" and "ring_storage sb' bs'"
    and "length (sb_circleIndex sb') = length (sb_circleIndex sb)" and "sb_buffer sb' = sb_buffer sb"
    and "same_bounds (bm_limit m) l"
  shows "static_rep (m\<lparr>staticBuffer := Some sb', bm_limit := l\<rparr>) bs'"
  using assms by (auto simp: static_rep_def same_bounds_def)

lemma static_repE:
  assumes "static_rep m bs"
  obtains sb where "staticBuffer m = Some sb" "ring_storage sb bs"
    "LimitNumber (bm_limit m) = int (length (sb_circleIndex sb)) - 1"
    "LimitSize (bm_limit m) \<le> int (length (sb_buffer sb))"
  using assms by (auto simp: static_rep_def)

text \<open>The first block of an empty ring takes the shared buffer; both pushes then agree.\<close>

lemma static_push_empty:
  assumes "staticBuffer m = Some sb" and "ring_storage sb []" and "1 < length (sb_circleIndex sb)"
    and "0 \<le> n" and "n \<le> int (length (sb_buffer sb))"
  defines "b \<equiv> \<lparr>bb_data = take (nat n) (sb_buffer sb), bb_used = 0\<rparr>"
  defines "sb' \<equiv> sb\<lparr>sb_circleIndex := (sb_circleIndex sb)[0 := Some b], sb_head := 0,
                   sb_tail := (0 + 1) mod length (sb_circleIndex sb)\<rparr>"
  shows "staticPushBack n m = Returns (m\<lparr>staticBuffer := Some sb'\<rparr>, Inr b)"
    and "staticPushFront n m = Returns (m\<lparr>staticBuffer := Some sb'\<rparr>, Inr b)"
    and "ring_storage sb' [b]" and "fresh n b"
proof -
  note slots = ring_storage_slots [OF assms(2)]
  have full: "(sb_tail sb + 1) mod length (sb_circleIndex sb) \<noteq> sb_head sb"
    using slots(6) assms(3) by simp
  show "staticPushBack n m = Returns (m\<lparr>staticBuffer := Some sb'\<rparr>, Inr b)"
    and "staticPushFront n m = Returns (m\<lparr>staticBuffer := Some sb'\<rparr>, Inr b)"
    using full slots(1-4) assms(1,4,5)
    by (simp_all add: staticPushBack_def staticPushFront_def with_storage_def slice_def Let_def b_def sb'_def)
  have "ring (sb_circleIndex sb) 0 []"
    by (rule ring_empty_any [of _ "sb_head sb"]) (use assms(2,3) in \<open>auto simp: ring_storage_def\<close>)
  from ring_push_back [OF this, of b] show "ring_storage sb' [b]"
    using assms(3) by (simp add: ring_storage_def sb'_def)
  show "fresh n b"
    using assms(4,5) by (simp add: fresh_def b_def)
qed

lemma static_push_more:
  assumes "staticBuffer m = Some sb" and "ring_storage sb bs" and "Suc (length bs) < length (sb_circleIndex sb)"
    and "bs \<noteq> []" and "NewBufferBlock n = Returns (Some b)"
  shows "\<exists>sb'. staticPushBack n m = Returns (m\<lparr>staticBuffer := Some sb'\<rparr>, Inr b) \<and> ring_storage sb' (bs @ [b])
      \<and> length (sb_circleIndex sb') = length (sb_circleIndex sb) \<and> sb_buffer sb' = sb_buffer sb"
    and "\<exists>sb'. staticPushFront n m = Returns (m\<lparr>staticBuffer := Some sb'\<rparr>, Inr b) \<and> ring_storage sb' (b # bs)
      \<and> length (sb_circleIndex sb') = length (sb_circleIndex sb) \<and> sb_buffer sb' = sb_buffer sb"
proof -
  let ?idx = "sb_circleIndex sb" let ?h = "(sb_head sb + length ?idx - 1) mod length ?idx"
  note slots = ring_storage_slots [OF assms(2)]
  obtain c cs where bs: "bs = c # cs" using assms(4) by (cases bs) auto
  have r: "ring ?idx (sb_head sb) bs" and t: "sb_tail sb = (sb_head sb + length bs) mod length ?idx"
    using assms(2) by (simp_all add: ring_storage_def)
  have full: "(sb_tail sb + 1) mod length ?idx \<noteq> sb_head sb" and hd: "?idx ! sb_head sb = Some c"
    using slots(3,6) assms(3) bs by simp_all
  let ?sb = "sb\<lparr>sb_circleIndex := ?idx[sb_tail sb := Some b], sb_tail := (sb_tail sb + 1) mod length ?idx\<rparr>"
  have "staticPushBack n m = Returns (m\<lparr>staticBuffer := Some ?sb\<rparr>, Inr b)"
    using full hd slots(1,2) assms(1,5) by (simp add: staticPushBack_def with_storage_def Let_def)
  moreover have "ring_storage ?sb (bs @ [b])"
    using ring_push_back [OF r assms(3), of b] by (simp add: ring_storage_def t mod_Suc_eq)
  ultimately show "\<exists>sb'. staticPushBack n m = Returns (m\<lparr>staticBuffer := Some sb'\<rparr>, Inr b)
      \<and> ring_storage sb' (bs @ [b]) \<and> length (sb_circleIndex sb') = length ?idx \<and> sb_buffer sb' = sb_buffer sb"
    by (intro exI [of _ ?sb]) simp
  let ?sf = "sb\<lparr>sb_head := ?h, sb_circleIndex := ?idx[?h := Some b]\<rparr>"
  have "staticPushFront n m = Returns (m\<lparr>staticBuffer := Some ?sf\<rparr>, Inr b)"
    using full hd slots(1,2) assms(1,5) by (simp add: staticPushFront_def with_storage_def Let_def)
  moreover have "ring_storage ?sf (b # bs)"
    using ring_push_front [OF r assms(3), of b] shift_mod(1) [OF slots(1), of "length bs"]
    by (simp add: ring_storage_def t)
  ultimately show "\<exists>sb'. staticPushFront n m = Returns (m\<lparr>staticBuffer := Some sb'\<rparr>, Inr b)
      \<and> ring_storage sb' (b # bs) \<and> length (sb_circleIndex sb') = length ?idx \<and> sb_buffer sb' = sb_buffer sb"
    by (intro exI [of _ ?sf]) simp
qed

lemma staticPush_rep:
  assumes "static_rep m bs" and "static_room m bs n" and "fits n bs"
  shows "\<exists>m' b. staticPushBack n m = Returns (m', Inr b) \<and> static_rep m' (bs @ [b]) \<and> fresh n b
      \<and> bm_limit m' = bm_limit m"
    and "\<exists>m' b. staticPushFront n m = Returns (m', Inr b) \<and> static_rep m' (b # bs) \<and> fresh n b
      \<and> bm_limit m' = bm_limit m"
proof -
  obtain sb where sb: "staticBuffer m = Some sb" "ring_storage sb bs"
    and lim: "Suc (length bs) < length (sb_circleIndex sb)" "n \<le> int (length (sb_buffer sb))"
    using assms(1,2) by (auto simp: static_rep_def static_room_def)
  have keep: "static_rep (m\<lparr>staticBuffer := Some sb'\<rparr>) bs'"
    if "ring_storage sb' bs'" "length (sb_circleIndex sb') = length (sb_circleIndex sb)" "sb_buffer sb' = sb_buffer sb" for sb' bs'
    using static_repI [OF assms(1) sb(1) that, of "bm_limit m"] by (simp add: same_bounds_def)
  show "\<exists>m' b. staticPushBack n m = Returns (m', Inr b) \<and> static_rep m' (bs @ [b]) \<and> fresh n b \<and> bm_limit m' = bm_limit m"
    and "\<exists>m' b. staticPushFront n m = Returns (m', Inr b) \<and> static_rep m' (b # bs) \<and> fresh n b \<and> bm_limit m' = bm_limit m"
  proof (atomize (full), cases "bs = []")
    case True
    then show "(\<exists>m' b. staticPushBack n m = Returns (m', Inr b) \<and> static_rep m' (bs @ [b]) \<and> fresh n b \<and> bm_limit m' = bm_limit m)
      \<and> (\<exists>m' b. staticPushFront n m = Returns (m', Inr b) \<and> static_rep m' (b # bs) \<and> fresh n b \<and> bm_limit m' = bm_limit m)"
      using static_push_empty [of m sb n] keep [OF static_push_empty(3) [of m sb n]] sb lim fitsD(1) [OF assms(3)] by simp
  next
    case False
    obtain b where b: "NewBufferBlock n = Returns (Some b)" "fresh n b"
      using NewBufferBlock_fresh [OF fitsD(1,2) [OF assms(3)]] by blast
    show "(\<exists>m' b. staticPushBack n m = Returns (m', Inr b) \<and> static_rep m' (bs @ [b]) \<and> fresh n b \<and> bm_limit m' = bm_limit m)
      \<and> (\<exists>m' b. staticPushFront n m = Returns (m', Inr b) \<and> static_rep m' (b # bs) \<and> fresh n b \<and> bm_limit m' = bm_limit m)"
      using static_push_more [OF sb lim(1) False b(1)] b(2) keep by fastforce
  qed
qed

lemma static_pop_finish:
  assumes "static_rep m bs" and "staticBuffer m = Some sb" and "ring_storage sb' bs'"
    and "length (sb_circleIndex sb') = length (sb_circleIndex sb)" and "sb_buffer sb' = sb_buffer sb"
    and "same_bounds (bm_limit m) l" and "mr = m\<lparr>staticBuffer := Some sb', bm_limit := l\<rparr>"
  shows "staticEmpty mr \<longleftrightarrow> bs' = []"
    and "static_rep ((if staticEmpty mr
           then mr\<lparr>staticBuffer := map_option (\<lambda>sb. sb\<lparr>sb_head := 0, sb_tail := 0\<rparr>) (staticBuffer mr)\<rparr>
           else mr)\<lparr>bm_limit := fixLimit (staticEmpty mr) k l\<rparr>) bs'"
proof -
  show e: "staticEmpty mr \<longleftrightarrow> bs' = []"
    using assms(7) ring_storage_slots(5) [OF assms(3)] by (simp add: staticEmpty_def)
  have bounds: "same_bounds (bm_limit m) (fixLimit (staticEmpty mr) k l)"
    using assms(6) by (simp add: same_bounds_def fixLimit_def)
  show "static_rep ((if staticEmpty mr
           then mr\<lparr>staticBuffer := map_option (\<lambda>sb. sb\<lparr>sb_head := 0, sb_tail := 0\<rparr>) (staticBuffer mr)\<rparr>
           else mr)\<lparr>bm_limit := fixLimit (staticEmpty mr) k l\<rparr>) bs'"
  proof (cases "staticEmpty mr")
    case True
    then have "ring_storage (sb'\<lparr>sb_head := 0, sb_tail := 0\<rparr>) bs'"
      using e assms(3) by (simp add: ring_reset)
    from static_repI [OF assms(1,2) this _ _ bounds] show ?thesis
      using True assms(4,5,7) by simp
  next
    case False
    from static_repI [OF assms(1,2,3,4,5) bounds] show ?thesis
      using False assms(7) by simp
  qed
qed

lemma static_popped_bounds:
  "same_bounds (bm_limit m) (if c then releaseNumber (bm_limit m) else bm_limit m)"
  by (simp add: same_bounds_def releaseNumber_def)

lemma staticPopBack_rep:
  assumes "static_rep m (bs @ [b])" and "bb_wf b" and "0 \<le> n"
  shows "\<exists>m'. staticPopBack n free m = Returns (m', Inr ()) \<and> static_rep m' (bs @ popped n free b)
    \<and> bm_limit m' = fixLimit (bs @ popped n free b = []) (min n (BufferBlock_Size (Some b)))
        (if popped n free b = [] then releaseNumber (bm_limit m) else bm_limit m)"
proof -
  obtain sb where sb: "staticBuffer m = Some sb" "ring_storage sb (bs @ [b])"
    using static_repE [OF assms(1)] by metis
  let ?i = "sb_back_index sb" let ?idx = "sb_circleIndex sb"
  let ?l = "if popped n free b = [] then releaseNumber (bm_limit m) else bm_limit m"
  let ?sb = "if popped n free b = [] then sb\<lparr>sb_circleIndex := ?idx[?i := None], sb_tail := ?i\<rparr>
             else sb\<lparr>sb_circleIndex := ?idx[?i := Some (advance n b)]\<rparr>"
  let ?m = "m\<lparr>staticBuffer := Some ?sb, bm_limit := ?l\<rparr>"
  note backs = ring_storage_back [OF sb(2)]
  have nonempty: "\<not> staticEmpty m"
    using sb ring_storage_slots(5) [OF sb(2)] by (simp add: staticEmpty_def)
  have r: "ring ?idx (sb_head sb) (bs @ [b])" "sb_tail sb = (sb_head sb + Suc (length bs)) mod length ?idx"
    using sb(2) by (simp_all add: ring_storage_def)
  have "ring_storage ?sb (bs @ popped n free b)"
  proof (cases "popped n free b = []")
    case True
    then show ?thesis using ring_pop_back [OF r(1)] by (simp add: ring_storage_def backs(1))
  next
    case False
    then have "popped n free b = [advance n b]" by (simp add: popped_def split: if_splits)
    then show ?thesis
      using ring_set [OF r(1), of "length bs" "advance n b"] r(2) by (simp add: ring_storage_def backs(1))
  qed
  note fin = static_pop_finish [OF assms(1) sb(1) this, where l = ?l and mr = ?m]
  have "staticPopBack n free m = Returns ((if staticEmpty ?m
      then ?m\<lparr>staticBuffer := map_option (\<lambda>sb. sb\<lparr>sb_head := 0, sb_tail := 0\<rparr>) (staticBuffer ?m)\<rparr>
      else ?m)\<lparr>bm_limit := fixLimit (staticEmpty ?m) (min n (BufferBlock_Size (Some b))) ?l\<rparr>, Inr ())"
    using nonempty sb(1) backs(2,3) advance_block(4) [OF assms(2,3)]
    by (simp add: staticPopBack_def with_storage_def min_by_if popped_def Let_def)
  with fin(1) fin(2) [where k = "min n (BufferBlock_Size (Some b))"] show ?thesis
    by (simp add: static_popped_bounds)
qed

lemma staticPopFront_rep:
  assumes "static_rep m (b # bs)" and "bb_wf b" and "0 \<le> n"
  shows "\<exists>m'. staticPopFront n free m = Returns (m', Inr ()) \<and> static_rep m' (popped n free b @ bs)
    \<and> bm_limit m' = fixLimit (popped n free b @ bs = []) (min n (BufferBlock_Size (Some b)))
        (if popped n free b = [] then releaseNumber (bm_limit m) else bm_limit m)"
proof -
  obtain sb where sb: "staticBuffer m = Some sb" "ring_storage sb (b # bs)"
    using static_repE [OF assms(1)] by metis
  let ?h = "sb_head sb" let ?idx = "sb_circleIndex sb"
  let ?l = "if popped n free b = [] then releaseNumber (bm_limit m) else bm_limit m"
  let ?sb = "if popped n free b = []
             then sb\<lparr>sb_circleIndex := ?idx[?h := None], sb_head := (?h + 1) mod length ?idx\<rparr>
             else sb\<lparr>sb_circleIndex := ?idx[?h := Some (advance n b)]\<rparr>"
  let ?m = "m\<lparr>staticBuffer := Some ?sb, bm_limit := ?l\<rparr>"
  note slots = ring_storage_slots [OF sb(2)]
  have nonempty: "\<not> staticEmpty m"
    using sb slots(5) by (simp add: staticEmpty_def)
  have r: "ring ?idx ?h (b # bs)" "sb_tail sb = (?h + Suc (length bs)) mod length ?idx"
    using sb(2) by (simp_all add: ring_storage_def)
  have "ring_storage ?sb (popped n free b @ bs)"
  proof (cases "popped n free b = []")
    case True
    then show ?thesis
      using ring_pop_front [OF r(1)] shift_mod(2) [of ?h "length ?idx" "length bs"] r(2) by (simp add: ring_storage_def)
  next
    case False
    then have "popped n free b = [advance n b]" by (simp add: popped_def split: if_splits)
    then show ?thesis
      using ring_set [OF r(1), of 0 "advance n b"] r(2) slots(1) by (simp add: ring_storage_def)
  qed
  note fin = static_pop_finish [OF assms(1) sb(1) this, where l = ?l and mr = ?m]
  have "staticPopFront n free m = Returns ((if staticEmpty ?m
      then ?m\<lparr>staticBuffer := map_option (\<lambda>sb. sb\<lparr>sb_head := 0, sb_tail := 0\<rparr>) (staticBuffer ?m)\<rparr>
      else ?m)\<lparr>bm_limit := fixLimit (staticEmpty ?m) (min n (BufferBlock_Size (Some b))) ?l\<rparr>, Inr ())"
    using nonempty sb(1) slots(1,3) advance_block(4) [OF assms(2,3)]
    by (simp add: staticPopFront_def with_storage_def min_by_if popped_def Let_def)
  with fin(1) fin(2) [where k = "min n (BufferBlock_Size (Some b))"] show ?thesis
    by (simp add: static_popped_bounds)
qed

lemma static_pop_empty:
  assumes "static_rep m []"
  shows "staticPopBack n free m = Returns (m, Inl ErrNoData) \<and> staticPopFront n free m = Returns (m, Inl ErrNoData)"
  using assms ring_storage_slots(5)
  by (auto simp: staticPopBack_def staticPopFront_def static_rep_def staticEmpty_def)

lemma staticMergeBack_rep:
  assumes "static_rep m (bs @ [b])" and "bb_wf b" and "fits n (bs @ [b])"
  shows "\<exists>m'. staticMergeBack n m = Returns (m', Inr (make_bytes (nat n)))
    \<and> static_rep m' (bs @ [grow_back n b]) \<and> bm_limit m' = bm_limit m"
proof -
  obtain sb where sb: "staticBuffer m = Some sb" "ring_storage sb (bs @ [b])"
    using static_repE [OF assms(1)] by metis
  note backs = ring_storage_back [OF sb(2)]
  let ?sb = "sb\<lparr>sb_circleIndex := (sb_circleIndex sb)[sb_back_index sb := Some (grow_back n b)]\<rparr>"
  have "ring_storage ?sb (bs @ [grow_back n b])"
    using sb(2) ring_set [of "sb_circleIndex sb" "sb_head sb" "bs @ [b]" "length bs" "grow_back n b"]
    by (simp add: ring_storage_def backs(1))
  from static_repI [OF assms(1) sb(1) this, of "bm_limit m"]
  have "static_rep (m\<lparr>staticBuffer := Some ?sb\<rparr>) (bs @ [grow_back n b])"
    by (simp add: same_bounds_def)
  then show ?thesis
    using sb(1) backs(2,3) ring_storage_slots(5) [OF sb(2)] fitsD(1) [OF assms(3)] grownBack_wf [OF assms(2) fitsD(1) [OF assms(3)] fitsD(3) [OF assms(3)]]
    by (simp add: staticMergeBack_def staticBack_def staticEmpty_def with_storage_def)
qed

lemma staticMergeFront_rep:
  assumes "static_rep m (b # bs)" and "bb_wf b" and "fits n (b # bs)"
  shows "\<exists>m'. staticMergeFront n m = Returns (m', Inr (make_bytes (nat n)))
    \<and> static_rep m' (grow_front n b # bs) \<and> bm_limit m' = bm_limit m"
proof -
  obtain sb where sb: "staticBuffer m = Some sb" "ring_storage sb (b # bs)"
    using static_repE [OF assms(1)] by metis
  note slots = ring_storage_slots [OF sb(2)]
  let ?sb = "sb\<lparr>sb_circleIndex := (sb_circleIndex sb)[sb_head sb := Some (grow_front n b)]\<rparr>"
  have "ring_storage ?sb (grow_front n b # bs)"
    using sb(2) slots(1) ring_set [of "sb_circleIndex sb" "sb_head sb" "b # bs" 0 "grow_front n b"]
    by (simp add: ring_storage_def)
  from static_repI [OF assms(1) sb(1) this, of "bm_limit m"]
  have "static_rep (m\<lparr>staticBuffer := Some ?sb\<rparr>) (grow_front n b # bs)"
    by (simp add: same_bounds_def)
  then show ?thesis
    using sb(1) slots(1,3,5) fitsD(1) [OF assms(3)] grownFront_wf [OF assms(2) fitsD(1) [OF assms(3)] fitsD(3) [OF assms(3)]]
    by (simp add: staticMergeFront_def staticFront_def staticEmpty_def with_storage_def)
qed

lemma static_rep_limit: "static_rep m bs \<Longrightarrow> same_bounds (bm_limit m) l \<Longrightarrow> static_rep (m\<lparr>bm_limit := l\<rparr>) bs"
  by (auto simp: static_rep_def same_bounds_def)

interpretation stat: block_deque static_rep static_room staticPushBack staticPushFront
  staticPopBack staticPopFront staticMergeBack staticMergeFront
  by unfold_locales (fact static_rep_limit staticPush_rep staticPopBack_rep staticPopFront_rep static_pop_empty
      staticMergeBack_rep staticMergeFront_rep)+

subsection \<open>The manager refines a bounded deque of blocks\<close>

definition bm_rep :: "BufferManager \<Rightarrow> BufferBlock list \<Rightarrow> bool" where
  "bm_rep m bs \<longleftrightarrow> (dynamic_rep m bs \<or> static_rep m bs) \<and> (\<forall>b\<in>set bs. bb_wf b) \<and> costs bs (bm_limit m)"

datatype bm_op = PushBack int | PushFront int | PopBack int bool | PopFront int bool | MergeBack int | MergeFront int

definition drop_value :: "'a buffer_result \<Rightarrow> (BufferManager \<times> buffer_error option) outcome" where
  "drop_value r = map_outcome_val (\<lambda>(m, e). (m, case e of Inl err \<Rightarrow> Some err | Inr _ \<Rightarrow> None)) r"

fun run_op :: "bm_op \<Rightarrow> BufferManager \<Rightarrow> (BufferManager \<times> buffer_error option) outcome" where
  "run_op (PushBack n) m = drop_value (BufferManager_PushBack n m)"
| "run_op (PushFront n) m = drop_value (BufferManager_PushFront n m)"
| "run_op (PopBack n free) m = drop_value (BufferManager_PopBack n free m)"
| "run_op (PopFront n free) m = drop_value (BufferManager_PopFront n free m)"
| "run_op (MergeBack n) m = drop_value (BufferManager_MergeBack n m)"
| "run_op (MergeFront n) m = drop_value (BufferManager_MergeFront n m)"

definition exceeds_size :: "int \<Rightarrow> Limit \<Rightarrow> BufferBlock list \<Rightarrow> bool" where
  "exceeds_size n l bs \<longleftrightarrow> 0 < LimitSize l \<and> LimitSize l < sizes bs + n"

definition exceeds :: "int \<Rightarrow> Limit \<Rightarrow> BufferBlock list \<Rightarrow> bool" where
  "exceeds n l bs \<longleftrightarrow> 0 < LimitNumber l \<and> LimitNumber l \<le> int (length bs) \<or> exceeds_size n l bs"

text \<open>A request can be served from memory, or it is refused by the limit and its sum with the cost does not wrap around.\<close>

definition serves :: "int \<Rightarrow> Limit \<Rightarrow> BufferBlock list \<Rightarrow> bool" where
  "serves n l bs \<longleftrightarrow> fits n bs \<or> 0 < n \<and> exceeds_size n l bs \<and> sizes bs + n < 2 ^ 63"

fun valid_op :: "bm_op \<Rightarrow> Limit \<Rightarrow> BufferBlock list \<Rightarrow> bool" where
  "valid_op (PushBack n) l bs \<longleftrightarrow> serves n l bs"
| "valid_op (PushFront n) l bs \<longleftrightarrow> serves n l bs"
| "valid_op (PopBack n free) l bs \<longleftrightarrow> 0 \<le> n"
| "valid_op (PopFront n free) l bs \<longleftrightarrow> 0 \<le> n"
| "valid_op (MergeBack n) l bs \<longleftrightarrow> serves n l bs"
| "valid_op (MergeFront n) l bs \<longleftrightarrow> serves n l bs"

lemma servesD:
  assumes "serves n l bs"
  shows "0 < n" "\<forall>b\<in>set bs. bb_wf b \<Longrightarrow> sizes bs + n < 2 ^ 63" "\<not> exceeds_size n l bs \<Longrightarrow> fits n bs" "\<not> exceeds n l bs \<Longrightarrow> fits n bs"
  using assms fitsD(1,4) [of n bs] by (auto simp: serves_def exceeds_def)

definition push_spec ::
  "int \<Rightarrow> (BufferBlock \<Rightarrow> BufferBlock list) \<Rightarrow> Limit \<Rightarrow> BufferBlock list \<Rightarrow> BufferBlock list \<Rightarrow> buffer_error option \<Rightarrow> bool" where
  "push_spec n place l bs bs' e \<longleftrightarrow>
     (if exceeds n l bs then bs' = bs \<and> e = Some ErrBuffLimit
      else e = None \<and> (\<exists>b. fresh n b \<and> bs' = place b))"

fun deque_spec ::
  "bm_op \<Rightarrow> Limit \<Rightarrow> BufferBlock list \<Rightarrow> BufferBlock list \<Rightarrow> buffer_error option \<Rightarrow> bool" where
  "deque_spec (PushBack n) l bs bs' e \<longleftrightarrow> push_spec n (\<lambda>b. bs @ [b]) l bs bs' e"
| "deque_spec (PushFront n) l bs bs' e \<longleftrightarrow> push_spec n (\<lambda>b. b # bs) l bs bs' e"
| "deque_spec (PopBack n free) l bs bs' e \<longleftrightarrow>
     (if bs = [] then bs' = [] \<and> e = Some ErrNoData
      else e = None \<and> bs' = butlast bs @ popped n free (last bs))"
| "deque_spec (PopFront n free) l bs bs' e \<longleftrightarrow>
     (if bs = [] then bs' = [] \<and> e = Some ErrNoData
      else e = None \<and> bs' = popped n free (hd bs) @ tl bs)"
| "deque_spec (MergeBack n) l bs bs' e \<longleftrightarrow>
     (if bs = [] then push_spec n (\<lambda>b. [b]) l bs bs' e
      else if exceeds_size n l bs then bs' = bs \<and> e = Some ErrBuffLimit
      else e = None \<and> bs' = butlast bs @ [grow_back n (last bs)])"
| "deque_spec (MergeFront n) l bs bs' e \<longleftrightarrow>
     (if bs = [] then push_spec n (\<lambda>b. [b]) l bs bs' e
      else if exceeds_size n l bs then bs' = bs \<and> e = Some ErrBuffLimit
      else e = None \<and> bs' = grow_front n (hd bs) # tl bs)"

definition refines_op :: "bm_op \<Rightarrow> BufferManager \<Rightarrow> BufferBlock list \<Rightarrow> bool" where
  "refines_op op m bs \<longleftrightarrow> (\<exists>m' bs' e. run_op op m = Returns (m', e) \<and> bm_rep m' bs'
     \<and> same_bounds (bm_limit m) (bm_limit m') \<and> deque_spec op (bm_limit m) bs bs' e)"

lemma bm_rep_cases:
  assumes "bm_rep m bs"
  obtains "BufferManager_IsDynamicMode m" "dyn.deque m bs" | "\<not> BufferManager_IsDynamicMode m" "stat.deque m bs"
  using assms
  by (auto simp: bm_rep_def dyn.deque_def stat.deque_def dynamic_rep_def static_rep_def BufferManager_IsDynamicMode_def)

lemma deque_bm_rep: "dyn.deque m bs \<Longrightarrow> bm_rep m bs" "stat.deque m bs \<Longrightarrow> bm_rep m bs"
  by (auto simp: bm_rep_def dyn.deque_def stat.deque_def)

lemma bm_rep_limits:
  assumes "bm_rep m bs" and "serves n l bs"
  shows "overLimitNumber (bm_limit m) \<or> overLimitSize n (bm_limit m) \<longleftrightarrow> exceeds n (bm_limit m) bs"
    and "overLimitSize n (bm_limit m) \<longleftrightarrow> exceeds_size n (bm_limit m) bs"
proof -
  have c: "CostNumber (bm_limit m) = int (length bs)" "CostSize (bm_limit m) = sizes bs" "\<forall>b\<in>set bs. bb_wf b"
    using assms(1) by (simp_all add: bm_rep_def costs_def)
  have w: "wrap64 (sizes bs + n) = sizes bs + n"
    using servesD(1,2) [OF assms(2)] c(3) by (intro wrap64_sizes) simp_all
  show "overLimitSize n (bm_limit m) \<longleftrightarrow> exceeds_size n (bm_limit m) bs"
    by (simp add: overLimitSize_def exceeds_size_def c w)
  then show "overLimitNumber (bm_limit m) \<or> overLimitSize n (bm_limit m) \<longleftrightarrow> exceeds n (bm_limit m) bs"
    by (simp add: exceeds_def overLimitNumber_def c)
qed

lemma static_room_if_allowed:
  assumes "stat.deque m bs" and "\<not> exceeds n (bm_limit m) bs"
  shows "static_room m bs n"
proof -
  have "sizes bs + n \<le> LimitSize (bm_limit m)" and "int (length bs) < LimitNumber (bm_limit m)"
    using assms by (auto simp: stat.deque_def static_rep_def exceeds_def exceeds_size_def)
  then show ?thesis
    using sizes_nonneg [of bs] unfolding static_room_def by linarith
qed

lemma bm_rep_Empty: "bm_rep m bs \<Longrightarrow> BufferManager_Empty m \<longleftrightarrow> bs = []"
  using ring_storage_slots(5)
  by (auto simp: bm_rep_def dynamic_rep_def static_rep_def BufferManager_Empty_def
      BufferManager_IsDynamicMode_def dynamicEmpty_def staticEmpty_def)

lemma PushBack_refines:
  assumes "bm_rep m bs" and "serves n (bm_limit m) bs"
  shows "refines_op (PushBack n) m bs"
proof (cases "exceeds n (bm_limit m) bs")
  case True
  then have "BufferManager_PushBack n m = Returns (m, Inl ErrBuffLimit)"
    using bm_rep_limits [OF assms(1,2)] by (auto simp: BufferManager_PushBack_def)
  then show ?thesis
    using True assms(1) by (simp add: refines_op_def drop_value_def push_spec_def same_bounds_def)
next
  case False
  then have allowed: "\<not> overLimitNumber (bm_limit m)" "\<not> overLimitSize n (bm_limit m)"
    using bm_rep_limits [OF assms(1,2)] by auto
  from assms(1) show ?thesis
  proof (cases rule: bm_rep_cases)
    case 1
    from dyn.charged_push_back [OF 1(2) _ servesD(4) [OF assms(2) False]] allowed 1(1) False show ?thesis
      by (auto simp: BufferManager_PushBack_def refines_op_def drop_value_def push_spec_def dynamic_room_def dest!: deque_bm_rep) blast
  next
    case 2
    from stat.charged_push_back [OF 2(2) static_room_if_allowed [OF 2(2) False] servesD(4) [OF assms(2) False]] allowed 2(1) False
    show ?thesis
      by (auto simp: BufferManager_PushBack_def refines_op_def drop_value_def push_spec_def dest!: deque_bm_rep) blast
  qed
qed

lemma PushFront_refines:
  assumes "bm_rep m bs" and "serves n (bm_limit m) bs"
  shows "refines_op (PushFront n) m bs"
proof (cases "exceeds n (bm_limit m) bs")
  case True
  then have "BufferManager_PushFront n m = Returns (m, Inl ErrBuffLimit)"
    using bm_rep_limits [OF assms(1,2)] by (auto simp: BufferManager_PushFront_def)
  then show ?thesis
    using True assms(1) by (simp add: refines_op_def drop_value_def push_spec_def same_bounds_def)
next
  case False
  then have allowed: "\<not> overLimitNumber (bm_limit m)" "\<not> overLimitSize n (bm_limit m)"
    using bm_rep_limits [OF assms(1,2)] by auto
  from assms(1) show ?thesis
  proof (cases rule: bm_rep_cases)
    case 1
    from dyn.charged_push_front [OF 1(2) _ servesD(4) [OF assms(2) False]] allowed 1(1) False show ?thesis
      by (auto simp: BufferManager_PushFront_def refines_op_def drop_value_def push_spec_def dynamic_room_def dest!: deque_bm_rep) blast
  next
    case 2
    from stat.charged_push_front [OF 2(2) static_room_if_allowed [OF 2(2) False] servesD(4) [OF assms(2) False]] allowed 2(1) False
    show ?thesis
      by (auto simp: BufferManager_PushFront_def refines_op_def drop_value_def push_spec_def dest!: deque_bm_rep) blast
  qed
qed

lemma Pop_refines:
  assumes "bm_rep m bs" and "0 \<le> n"
  shows "refines_op (PopBack n free) m bs" and "refines_op (PopFront n free) m bs"
proof -
  show "refines_op (PopBack n free) m bs"
  proof (cases bs rule: rev_cases)
    case Nil
    from assms(1) show ?thesis
      by (cases rule: bm_rep_cases)
        (use Nil assms(1) dyn.pop_empty_law stat.pop_empty_law in \<open>auto simp: refines_op_def drop_value_def
            BufferManager_PopBack_def dyn.deque_def stat.deque_def same_bounds_def\<close>)
  next
    case (snoc cs b)
    from assms(1) show ?thesis
    proof (cases rule: bm_rep_cases)
      case 1
      from dyn.pop_back_deque [OF 1(2) [unfolded snoc] assms(2), of free] 1(1) snoc show ?thesis
        by (auto simp: refines_op_def drop_value_def BufferManager_PopBack_def dest!: deque_bm_rep)
    next
      case 2
      from stat.pop_back_deque [OF 2(2) [unfolded snoc] assms(2), of free] 2(1) snoc show ?thesis
        by (auto simp: refines_op_def drop_value_def BufferManager_PopBack_def dest!: deque_bm_rep)
    qed
  qed
  show "refines_op (PopFront n free) m bs"
  proof (cases bs)
    case Nil
    from assms(1) show ?thesis
      by (cases rule: bm_rep_cases)
        (use Nil assms(1) dyn.pop_empty_law stat.pop_empty_law in \<open>auto simp: refines_op_def drop_value_def
            BufferManager_PopFront_def dyn.deque_def stat.deque_def same_bounds_def\<close>)
  next
    case (Cons b cs)
    from assms(1) show ?thesis
    proof (cases rule: bm_rep_cases)
      case 1
      from dyn.pop_front_deque [OF 1(2) [unfolded Cons] assms(2), of free] 1(1) Cons show ?thesis
        by (auto simp: refines_op_def drop_value_def BufferManager_PopFront_def dest!: deque_bm_rep)
    next
      case 2
      from stat.pop_front_deque [OF 2(2) [unfolded Cons] assms(2), of free] 2(1) Cons show ?thesis
        by (auto simp: refines_op_def drop_value_def BufferManager_PopFront_def dest!: deque_bm_rep)
    qed
  qed
qed

lemma MergeBack_refines:
  assumes "bm_rep m bs" and "serves n (bm_limit m) bs"
  shows "refines_op (MergeBack n) m bs"
proof (cases bs rule: rev_cases)
  case Nil
  then show ?thesis
    using PushBack_refines [OF assms] bm_rep_Empty [OF assms(1)]
    by (auto simp: refines_op_def BufferManager_MergeBack_def)
next
  case (snoc cs b)
  have nonempty: "\<not> BufferManager_Empty m" using bm_rep_Empty [OF assms(1)] snoc by simp
  show ?thesis
  proof (cases "exceeds_size n (bm_limit m) bs")
    case True
    then show ?thesis
      using nonempty assms(1) snoc bm_rep_limits(2) [OF assms(1,2)]
      by (auto simp: refines_op_def BufferManager_MergeBack_def drop_value_def same_bounds_def)
  next
    case False
    then have ok: "\<not> overLimitSize n (bm_limit m)" using bm_rep_limits(2) [OF assms(1,2)] by simp
    from assms(1) show ?thesis
    proof (cases rule: bm_rep_cases)
      case 1
      from dyn.charged_merge_back [OF 1(2) [unfolded snoc] servesD(3) [OF assms(2) False, unfolded snoc]] 1(1) snoc nonempty ok False show ?thesis
        by (auto simp: refines_op_def drop_value_def BufferManager_MergeBack_def dest!: deque_bm_rep)
    next
      case 2
      from stat.charged_merge_back [OF 2(2) [unfolded snoc] servesD(3) [OF assms(2) False, unfolded snoc]] 2(1) snoc nonempty ok False show ?thesis
        by (auto simp: refines_op_def drop_value_def BufferManager_MergeBack_def dest!: deque_bm_rep)
    qed
  qed
qed

lemma MergeFront_refines:
  assumes "bm_rep m bs" and "serves n (bm_limit m) bs"
  shows "refines_op (MergeFront n) m bs"
proof (cases bs)
  case Nil
  then show ?thesis
    using PushFront_refines [OF assms] bm_rep_Empty [OF assms(1)]
    by (auto simp: refines_op_def BufferManager_MergeFront_def)
next
  case (Cons b cs)
  have nonempty: "\<not> BufferManager_Empty m" using bm_rep_Empty [OF assms(1)] Cons by simp
  show ?thesis
  proof (cases "exceeds_size n (bm_limit m) bs")
    case True
    then show ?thesis
      using nonempty assms(1) Cons bm_rep_limits(2) [OF assms(1,2)]
      by (auto simp: refines_op_def BufferManager_MergeFront_def drop_value_def same_bounds_def)
  next
    case False
    then have ok: "\<not> overLimitSize n (bm_limit m)" using bm_rep_limits(2) [OF assms(1,2)] by simp
    from assms(1) show ?thesis
    proof (cases rule: bm_rep_cases)
      case 1
      from dyn.charged_merge_front [OF 1(2) [unfolded Cons] servesD(3) [OF assms(2) False, unfolded Cons]] 1(1) Cons nonempty ok False show ?thesis
        by (auto simp: refines_op_def drop_value_def BufferManager_MergeFront_def dest!: deque_bm_rep)
    next
      case 2
      from stat.charged_merge_front [OF 2(2) [unfolded Cons] servesD(3) [OF assms(2) False, unfolded Cons]] 2(1) Cons nonempty ok False show ?thesis
        by (auto simp: refines_op_def drop_value_def BufferManager_MergeFront_def dest!: deque_bm_rep)
    qed
  qed
qed

lemma BufferManager_refines: "bm_rep m bs \<Longrightarrow> valid_op op (bm_limit m) bs \<Longrightarrow> refines_op op m bs"
  by (cases op) (auto intro: PushBack_refines PushFront_refines Pop_refines MergeBack_refines MergeFront_refines)

text \<open>C29: on a manager that holds the blocks \<open>bs\<close>, in either mode, each of the six operations returns
  (no panic), leaves a manager that holds exactly the blocks a bounded deque would hold, with the
  error a bounded deque reports, its costs equal to the number and the total size of the blocks,
  and the configured limits unchanged. A push or merge asks for a positive size which, with all that is
  held, the runtime can allocate, or which the limit refuses while the sum with the cost stays below \<open>2\<^sup>6\<^sup>3\<close>.\<close>

theorem BufferManager_refines_deque:
  assumes "bm_rep m bs" and "valid_op op (bm_limit m) bs"
  shows "\<exists>m' bs' e. run_op op m = Returns (m', e) \<and> bm_rep m' bs'
    \<and> same_bounds (bm_limit m) (bm_limit m') \<and> deque_spec op (bm_limit m) bs bs' e"
  using BufferManager_refines [OF assms] by (simp only: refines_op_def)

text \<open>A request so large that its sum with the cost wraps around passes the check of the limit, and the allocation panics.\<close>

lemma PushBack_limit_wraps:
  assumes "bm_rep m bs" and "BufferManager_IsDynamicMode m" and "LimitNumber (bm_limit m) = 0" and "0 < LimitSize (bm_limit m)"
    and "0 < sizes bs" and "sizes bs < 2 ^ 62"
  shows "BufferManager_PushBack (2 ^ 63 - 1) m = Panics"
proof -
  have "(sizes bs + (2 ^ 63 - 1) + 2 ^ 63) mod 2 ^ 64 = sizes bs - 1"
    using assms(5,6) mod_add_self2 [of "sizes bs - 1" "2 ^ 64"] by (simp add: mod_pos_pos_trivial)
  then have "wrap64 (sizes bs + (2 ^ 63 - 1)) = sizes bs - 1 - 2 ^ 63" by (simp only: wrap64_def)
  then have "\<not> overLimitSize (2 ^ 63 - 1) (bm_limit m)" using assms by (simp add: overLimitSize_def bm_rep_def costs_def)
  then show ?thesis
    using assms(2,3) by (simp add: BufferManager_PushBack_def overLimitNumber_def chargePush_def dynamicPushBack_def NewBufferBlock_def maxAlloc_def)
qed

subsection \<open>Runs of the manager\<close>

text \<open>
  Besides calling the operations, a client writes bytes through the slices it got: the contents of
  blocks and of the shared buffer change, their lengths and offsets do not.
\<close>

definition block_shape :: "BufferBlock \<Rightarrow> nat \<times> int" where
  "block_shape b = (length (bb_data b), bb_used b)"

definition storage_shape :: "staticBufferStorage \<Rightarrow> nat \<times> (nat \<times> int) option list \<times> nat \<times> nat" where
  "storage_shape sb =
     (length (sb_buffer sb), map (map_option block_shape) (sb_circleIndex sb), sb_head sb, sb_tail sb)"

definition same_shape :: "BufferManager \<Rightarrow> BufferManager \<Rightarrow> bool" where
  "same_shape m m' \<longleftrightarrow> bm_limit m' = bm_limit m
     \<and> map block_shape (dynamicBuffer m') = map block_shape (dynamicBuffer m)
     \<and> map_option storage_shape (staticBuffer m') = map_option storage_shape (staticBuffer m)"

inductive bm_reachable :: "BufferManager \<Rightarrow> bool" where
  init_dynamic: "bm_reachable (fst (BufferManager_SetLimit maxSize maxNumber NewBufferManager))"
| init_static: "0 < maxSize \<Longrightarrow> maxSize < 2 ^ 63 \<Longrightarrow> 0 < maxNumber \<Longrightarrow> maxNumber < 2 ^ 63 \<Longrightarrow>
    BufferManager_SetMode maxSize maxNumber m = Returns m' \<Longrightarrow> bm_reachable m'"
| operation: "bm_reachable m \<Longrightarrow> bm_rep m bs \<Longrightarrow> valid_op op (bm_limit m) bs \<Longrightarrow> run_op op m = Returns (m', e) \<Longrightarrow> bm_reachable m'"
| client_write: "bm_reachable m \<Longrightarrow> same_shape m m' \<Longrightarrow> bm_reachable m'"

inductive_cases bm_reachableE: "bm_reachable m"

lemma shape_wf: "map block_shape bs' = map block_shape bs \<Longrightarrow>
  ((\<forall>b\<in>set bs'. bb_wf b) \<longleftrightarrow> (\<forall>b\<in>set bs. bb_wf b)) \<and> sizes bs' = sizes bs"
proof (induction bs arbitrary: bs')
  case (Cons b bs)
  then obtain c cs where cs: "bs' = c # cs" "block_shape c = block_shape b" "map block_shape cs = map block_shape bs"
    by auto
  then have "bb_wf c = bb_wf b" "BufferBlock_Size (Some c) = BufferBlock_Size (Some b)"
    by (simp_all add: block_shape_def bb_wf_def BufferBlock_Size_def)
  with cs Cons.IH [of cs] show ?case by simp
qed simp

lemma ring_shape:
  assumes "ring idx h bs" and "map (map_option block_shape) idx' = map (map_option block_shape) idx"
  shows "\<exists>bs'. ring idx' h bs' \<and> map block_shape bs' = map block_shape bs"
proof
  let ?L = "length idx"
  have len: "length idx' = ?L" using assms(2) by (rule map_eq_imp_length_eq)
  let ?bs = "map (\<lambda>i. the (idx' ! ((h + i) mod ?L))) [0..<length bs]"
  have nth: "map_option block_shape (idx' ! ((h + i) mod ?L)) =
      (if i < length bs then Some (block_shape (bs ! i)) else None)" if "i < ?L" for i
  proof -
    have "(h + i) mod ?L < ?L" using that by (rule mod_length_less)
    then have "map_option block_shape (idx' ! ((h + i) mod ?L)) = map_option block_shape (idx ! ((h + i) mod ?L))"
      using len by (metis assms(2) nth_map)
    then show ?thesis using assms(1) that by (simp add: ring_def)
  qed
  have l: "length bs < ?L" and h: "h < ?L" using assms(1) by (simp_all add: ring_def)
  have "idx' ! ((h + i) mod ?L) = (if i < length bs then Some (?bs ! i) else None)" if "i < ?L" for i
    using nth [OF that] by (cases "idx' ! ((h + i) mod ?L)") (simp_all split: if_splits)
  then have "ring idx' h ?bs"
    using l h len by (simp add: ring_def)
  moreover have "map block_shape ?bs = map block_shape bs"
  proof (rule nth_equalityI)
    fix i assume "i < length (map block_shape ?bs)"
    then have "i < length bs" by simp
    then show "map block_shape ?bs ! i = map block_shape bs ! i"
      using nth [of i] l by (cases "idx' ! ((h + i) mod ?L)") simp_all
  qed simp
  ultimately show "ring idx' h ?bs \<and> map block_shape ?bs = map block_shape bs" ..
qed

lemma same_shape_rep:
  assumes "bm_rep m bs" and "same_shape m m'"
  shows "\<exists>bs'. bm_rep m' bs' \<and> map block_shape bs' = map block_shape bs"
proof -
  have step: "bm_rep m' bs'" if "dynamic_rep m' bs' \<or> static_rep m' bs'" "map block_shape bs' = map block_shape bs" for bs'
    using that assms shape_wf [OF that(2)] map_eq_imp_length_eq [OF that(2)]
    by (simp add: bm_rep_def same_shape_def costs_def)
  have "dynamic_rep m bs \<or> static_rep m bs" using assms(1) by (simp add: bm_rep_def)
  then show ?thesis
  proof
    assume "dynamic_rep m bs"
    then show ?thesis
      using assms(2) step [of "dynamicBuffer m'"] by (auto simp: dynamic_rep_def same_shape_def)
  next
    assume r: "static_rep m bs"
    then obtain sb where sb: "staticBuffer m = Some sb" "ring_storage sb bs" by (rule static_repE)
    then obtain sb' where sb': "staticBuffer m' = Some sb'" "storage_shape sb' = storage_shape sb"
      using assms(2) by (auto simp: same_shape_def)
    obtain bs' where bs': "ring (sb_circleIndex sb') (sb_head sb) bs'" "map block_shape bs' = map block_shape bs"
      using ring_shape [of "sb_circleIndex sb" "sb_head sb" bs "sb_circleIndex sb'"] sb(2) sb'(2)
      by (auto simp: ring_storage_def storage_shape_def)
    have len: "length (sb_circleIndex sb') = length (sb_circleIndex sb)" "length bs' = length bs"
      "length (sb_buffer sb') = length (sb_buffer sb)"
      using sb'(2) bs'(2) map_eq_imp_length_eq [OF bs'(2)]
      by (auto simp: storage_shape_def dest: map_eq_imp_length_eq)
    have "ring_storage sb' bs'"
      using sb(2) sb'(2) bs'(1) len by (simp add: ring_storage_def storage_shape_def)
    then have "static_rep m' bs'"
      using r sb sb' len assms(2) by (auto simp: static_rep_def same_shape_def)
    with step bs'(2) show ?thesis by blast
  qed
qed

definition within :: "Limit \<Rightarrow> BufferBlock list \<Rightarrow> bool" where
  "within l bs \<longleftrightarrow> (0 < LimitNumber l \<longrightarrow> int (length bs) \<le> LimitNumber l)
     \<and> (0 < LimitSize l \<longrightarrow> sizes bs \<le> LimitSize l)"

lemma popped_shrinks:
  assumes "bb_wf b" and "0 \<le> n"
  shows "sizes (popped n free b) \<le> BufferBlock_Size (Some b)" and "length (popped n free b) \<le> 1"
  using popped_props(2) [OF assms, of free] assms(2) by (simp_all add: popped_def)

lemma push_spec_within:
  assumes "push_spec n place l bs bs' e" and "within l bs" and "serves n l bs"
    and "\<And>b. sizes (place b) = sizes bs + BufferBlock_Size (Some b)" and "\<And>b. length (place b) = Suc (length bs)"
  shows "within l bs'"
proof (cases "exceeds n l bs")
  case False
  then obtain b where "fresh n b" "bs' = place b" using assms(1) by (auto simp: push_spec_def)
  then show ?thesis
    using False assms(2,4,5) fresh_block [of n b] by (auto simp: within_def exceeds_def exceeds_size_def)
qed (use assms in \<open>simp add: push_spec_def\<close>)

lemma deque_spec_within:
  assumes "deque_spec op l bs bs' e" and "valid_op op l bs" and "within l bs" and "\<forall>b\<in>set bs. bb_wf b"
  shows "within l bs'"
proof (cases op)
  case (PopBack n free)
  then show ?thesis
  proof (cases bs rule: rev_cases)
    case (snoc cs b)
    with PopBack assms popped_shrinks [of b n free] show ?thesis by (auto simp: within_def)
  qed (use PopBack assms in simp)
next
  case (PopFront n free)
  then show ?thesis
  proof (cases bs)
    case (Cons b cs)
    with PopFront assms popped_shrinks [of b n free] show ?thesis by (auto simp: within_def)
  qed (use PopFront assms in simp)
next
  case (MergeBack n)
  then show ?thesis
  proof (cases bs rule: rev_cases)
    case (snoc cs b)
    with MergeBack assms grow_back_block(2) [of b n] servesD(1) [of n l bs] show ?thesis
      by (auto simp: within_def exceeds_size_def split: if_splits)
  qed (use MergeBack assms push_spec_within [of n "\<lambda>b. [b]" l bs bs' e] in simp)
next
  case (MergeFront n)
  then show ?thesis
  proof (cases bs)
    case (Cons b cs)
    with MergeFront assms grow_front_block(2) [of b n] servesD(1) [of n l bs] show ?thesis
      by (auto simp: within_def exceeds_size_def split: if_splits)
  qed (use MergeFront assms push_spec_within [of n "\<lambda>b. [b]" l bs bs' e] in simp)
qed (use assms push_spec_within [of _ _ l bs bs' e] in auto)

lemma PaddingSize_covers: "0 \<le> n \<Longrightarrow> n \<le> PaddingSize n"
  using pos_mod_bound [of 8 n]
  by (simp add: PaddingSize_def DataAlignSize_def go_rem_nonneg Let_def) (simp add: le_less)

lemma wrap64_over: "2 ^ 63 \<le> x \<Longrightarrow> x < 2 ^ 63 + 2 ^ 62 \<Longrightarrow> wrap64 x = x - 2 ^ 64"
  using mod_add_self2 [of "x - 2 ^ 63" "2 ^ 64"] by (simp add: wrap64_def mod_pos_pos_trivial add.commute)

lemma PaddingSize_near: "PaddingSize x \<le> x + 16"
  using pos_mod_bound [of 8 "\<bar>x\<bar>"] by (auto simp: PaddingSize_def DataAlignSize_def Let_def go_rem_def sgn_if)

lemma SetMode_static:
  assumes "0 < maxSize" and "maxSize < 2 ^ 63" and "0 < maxNumber" and "maxNumber < 2 ^ 63" and "BufferManager_SetMode maxSize maxNumber m = Returns m'"
  shows "bm_rep m' [] \<and> within (bm_limit m') []"
proof -
  define buf where "buf = PaddingSize (maxSize + DataAlignSize)"
  have buf: "maxSize \<le> buf"
    using PaddingSize_covers [of "maxSize + DataAlignSize"] assms(1) by (simp add: buf_def DataAlignSize_def)
  have m': "m' = (BufferManager_Reset m)\<lparr>staticBuffer := Some \<lparr>sb_buffer = make_bytes (nat buf),
        sb_circleIndex = replicate (nat (maxNumber + 1)) None, sb_head = 0, sb_tail = 0\<rparr>,
      bm_limit := (bm_limit (BufferManager_Reset m))\<lparr>LimitSize := maxSize, LimitNumber := maxNumber\<rparr>\<rparr>"
  proof -
    have pads: "\<not> PaddingSize (wrap64 (maxSize + DataAlignSize)) < 0" "\<not> wrap64 (maxNumber + 1) < 0"
      using assms by (auto simp: BufferManager_SetMode_def Let_def split: if_splits)
    have "wrap64 (maxSize + DataAlignSize) = maxSize + DataAlignSize"
    proof (cases "maxSize + DataAlignSize < 2 ^ 63")
      case False
      then have "wrap64 (maxSize + DataAlignSize) = maxSize + DataAlignSize - 2 ^ 64"
        using assms(2) by (intro wrap64_over) (simp_all add: DataAlignSize_def)
      then show ?thesis using pads(1) PaddingSize_near [of "wrap64 (maxSize + DataAlignSize)"] assms(2) by (simp add: DataAlignSize_def)
    qed (use assms(1) in \<open>simp add: DataAlignSize_def\<close>)
    moreover have "wrap64 (maxNumber + 1) = maxNumber + 1"
    proof (cases "maxNumber + 1 < 2 ^ 63")
      case False
      then show ?thesis using wrap64_over [of "maxNumber + 1"] pads(2) assms(4) by simp
    qed (use assms(3) in simp)
    ultimately show ?thesis using assms by (auto simp: BufferManager_SetMode_def Let_def buf_def split: if_splits)
  qed
  moreover have "ring (replicate (nat (maxNumber + 1)) None) 0 []"
    using assms(3) by (auto simp: ring_def)
  ultimately have "static_rep m' []"
    using assms(1,3) buf by (simp add: static_rep_def ring_storage_def)
  then show ?thesis
    using m' assms by (simp add: bm_rep_def costs_def within_def BufferManager_Reset_def)
qed

lemma reachable_rep: "bm_reachable m \<Longrightarrow> \<exists>bs. bm_rep m bs \<and> within (bm_limit m) bs"
proof (induction rule: bm_reachable.induct)
  case (init_dynamic maxSize maxNumber)
  show ?case
    by (rule exI [of _ "[]"])
      (simp add: bm_rep_def dynamic_rep_def costs_def within_def BufferManager_SetLimit_def NewBufferManager_def no_limit_def)
next
  case (init_static maxSize maxNumber m m')
  then show ?case using SetMode_static by blast
next
  case (operation m bs op m' e)
  then obtain bs0 where "bm_rep m bs0" "within (bm_limit m) bs0" by blast
  then have w: "within (bm_limit m) bs" using operation(2) by (simp add: within_def bm_rep_def costs_def)
  from BufferManager_refines [OF operation(2,3)] operation(4)
  obtain bs' where "bm_rep m' bs'" "same_bounds (bm_limit m) (bm_limit m')" "deque_spec op (bm_limit m) bs bs' e"
    by (auto simp: refines_op_def)
  moreover from this have "within (bm_limit m) bs'"
    using deque_spec_within operation(2,3) w by (auto simp: bm_rep_def)
  ultimately show ?case by (auto simp: within_def same_bounds_def)
next
  case (client_write m m')
  then obtain bs where bs: "bm_rep m bs" "within (bm_limit m) bs" by blast
  obtain bs' where bs': "bm_rep m' bs'" "map block_shape bs' = map block_shape bs"
    using same_shape_rep [OF bs(1) client_write(2)] by blast
  then have "within (bm_limit m') bs'"
    using bs(2) client_write(2) shape_wf [OF bs'(2)] map_eq_imp_length_eq [OF bs'(2)]
    by (simp add: within_def same_shape_def)
  with bs' show ?case by blast
qed

lemma bm_rep_Count: "bm_rep m bs \<Longrightarrow> BufferManager_Count m = length bs"
proof -
  assume r: "bm_rep m bs"
  show ?thesis
  proof (cases "staticBuffer m")
    case None
    then show ?thesis using r by (auto simp: BufferManager_Count_def bm_rep_def dynamic_rep_def static_rep_def)
  next
    case (Some sb)
    then have sb: "ring_storage sb bs" using r by (auto simp: bm_rep_def dynamic_rep_def static_rep_def)
    have "length bs < length (sb_circleIndex sb)" "sb_head sb < length (sb_circleIndex sb)"
      "sb_tail sb = (sb_head sb + length bs) mod length (sb_circleIndex sb)"
      using sb by (simp_all add: ring_storage_def ring_def)
    then show ?thesis
      using Some ring_storage_slots(5) [OF sb]
      by (cases "sb_head sb + length bs < length (sb_circleIndex sb)")
        (auto simp: BufferManager_Count_def staticEmpty_def mod_if)
  qed
qed

subsection \<open>Reading and draining\<close>

lemma ForEach_ring_list:
  "ring_storage sb bs \<Longrightarrow> k \<le> length bs \<Longrightarrow> length bs - k \<le> fuel \<Longrightarrow>
   ForEach_ring fn fuel sb ((sb_head sb + k) mod length (sb_circleIndex sb)) s = Some (ForEach_list fn (drop k bs) s)"
proof (induction fuel arbitrary: k s)
  case 0
  then show ?case by (simp add: ForEach_ring.simps ring_storage_def)
next
  case (Suc fuel)
  let ?L = "length (sb_circleIndex sb)"
  have l: "length bs < ?L" and t: "sb_tail sb = (sb_head sb + length bs) mod ?L"
    using Suc.prems(1) by (simp_all add: ring_storage_def ring_def)
  show ?case
  proof (cases "k = length bs")
    case True
    then show ?thesis by (simp add: ForEach_ring.simps t)
  next
    case False
    then have k: "k < length bs" using Suc.prems(2) by simp
    have neq: "(sb_head sb + k) mod ?L \<noteq> sb_tail sb"
      using add_mod_inj [of k ?L "length bs" "sb_head sb"] k l t by simp
    have slot: "sb_circleIndex sb ! ((sb_head sb + k) mod ?L) = Some (bs ! k)"
      using Suc.prems(1) k l by (simp add: ring_storage_def ring_def)
    have nxt: "((sb_head sb + k) mod ?L + 1) mod ?L = (sb_head sb + Suc k) mod ?L"
      by (simp add: mod_Suc_eq)
    show ?thesis
      using neq slot k Suc.IH [of "Suc k"] Suc.prems
      by (subst ForEach_ring.simps) (auto simp: nxt [simplified] Cons_nth_drop_Suc [symmetric] Let_def split: prod.split)
  qed
qed

lemma bm_rep_ForEach:
  assumes "bm_rep m bs"
  shows "BufferManager_ForEach fn m s = Some (ForEach_list fn bs s)"
proof (cases "staticBuffer m")
  case None
  then show ?thesis using assms by (auto simp: BufferManager_ForEach_def bm_rep_def dynamic_rep_def static_rep_def)
next
  case (Some sb)
  then have sb: "ring_storage sb bs" using assms by (auto simp: bm_rep_def dynamic_rep_def static_rep_def)
  then have "length bs \<le> length (sb_circleIndex sb)" by (simp add: ring_storage_def ring_def)
  then show ?thesis
    using Some ForEach_ring_list [OF sb, of 0 "length (sb_circleIndex sb)" fn s] ring_storage_slots(1,5) [OF sb]
    by (auto simp: BufferManager_ForEach_def staticEmpty_def)
qed

lemma bm_rep_ends:
  assumes "bm_rep m bs"
  shows "BufferManager_Front m = Returns (case bs of [] \<Rightarrow> None | b # _ \<Rightarrow> Some b)"
    and "BufferManager_Back m = Returns (if bs = [] then None else Some (last bs))"
proof -
  consider (dyn) "dynamic_rep m bs" | (stat) sb where "staticBuffer m = Some sb" "ring_storage sb bs"
    using assms by (auto simp: bm_rep_def static_rep_def)
  then show "BufferManager_Front m = Returns (case bs of [] \<Rightarrow> None | b # _ \<Rightarrow> Some b)"
  proof cases
    case dyn
    then show ?thesis by (cases bs)
        (simp_all add: dynamic_rep_def BufferManager_Front_def BufferManager_IsDynamicMode_def dynamicFront_def dynamicEmpty_def)
  next
    case stat
    then show ?thesis using ring_storage_slots [OF stat(2)]
      by (auto simp: BufferManager_Front_def BufferManager_IsDynamicMode_def staticFront_def staticEmpty_def with_storage_def)
  qed
  consider (dyn) "dynamic_rep m bs" | (stat) sb where "staticBuffer m = Some sb" "ring_storage sb bs"
    using assms by (auto simp: bm_rep_def static_rep_def)
  then show "BufferManager_Back m = Returns (if bs = [] then None else Some (last bs))"
  proof cases
    case dyn
    then show ?thesis
      by (simp add: dynamic_rep_def BufferManager_Back_def BufferManager_IsDynamicMode_def dynamicBack_def dynamicEmpty_def)
  next
    case stat
    then show ?thesis using ring_storage_slots(5) [OF stat(2)] ring_storage_back [of sb "butlast bs" "last bs"]
      by (auto simp: BufferManager_Back_def BufferManager_IsDynamicMode_def staticBack_def staticEmpty_def with_storage_def)
  qed
qed

text \<open>C35: however a manager that was configured with limits is used, with client writes in between, it
  never holds more blocks or more unread bytes than configured, and its counters are exact: the cost is the
  number of its blocks and the total of their unread bytes. The limits are set once, on an empty manager; the
  requests are ones that memory or the limit answers.\<close>

theorem BufferManager_within_limits:
  assumes "bm_reachable m"
  shows "(0 < LimitNumber (bm_limit m) \<longrightarrow> CostNumber (bm_limit m) \<le> LimitNumber (bm_limit m))
    \<and> (0 < LimitSize (bm_limit m) \<longrightarrow> CostSize (bm_limit m) \<le> LimitSize (bm_limit m))
    \<and> CostNumber (bm_limit m) = int (BufferManager_Count m)
    \<and> BufferManager_ForEach (\<lambda>b total. (total + BufferBlock_Size (Some b), True)) m 0 = Some (CostSize (bm_limit m))"
proof -
  obtain bs where bs: "bm_rep m bs" "within (bm_limit m) bs" using reachable_rep [OF assms] by blast
  have "ForEach_list (\<lambda>b total. (total + BufferBlock_Size (Some b), True)) bs k = k + sizes bs" for k
    by (induction bs arbitrary: k) simp_all
  then show ?thesis
    using bs bm_rep_Count [OF bs(1)] by (auto simp: bm_rep_ForEach [OF bs(1)] bm_rep_def costs_def within_def)
qed

theorem BufferManager_within_limits_witness:
  "\<exists>m. bm_reachable m \<and> 0 < LimitNumber (bm_limit m) \<and> CostNumber (bm_limit m) = 1
     \<and> CostNumber (bm_limit m) \<le> LimitNumber (bm_limit m)"
proof -
  define m where "m = fst (BufferManager_SetLimit 64 2 NewBufferManager)"
  have m: "bm_reachable m" unfolding m_def by (rule init_dynamic)
  have "run_op (PushBack 4) m = Returns (m\<lparr>dynamicBuffer := [\<lparr>bb_data = make_bytes 4, bb_used = 0\<rparr>],
      bm_limit := \<lparr>CostNumber = 1, CostSize = 4, LimitNumber = 2, LimitSize = 64\<rparr>\<rparr>, None)" (is "_ = Returns (?m, _)")
    by (simp add: m_def BufferManager_SetLimit_def NewBufferManager_def no_limit_def drop_value_def
        BufferManager_PushBack_def overLimitNumber_def overLimitSize_def chargePush_def
        BufferManager_IsDynamicMode_def dynamicPushBack_def NewBufferBlock_def maxAlloc_def BufferBlock_Data_def slice_def Let_def)
  from bm_reachable.operation [OF m _ _ this, of "[]"] have "bm_reachable ?m"
    by
    (simp_all add: m_def BufferManager_SetLimit_def NewBufferManager_def no_limit_def bm_rep_def dynamic_rep_def costs_def serves_def fits_def maxAlloc_def)
  from BufferManager_within_limits [OF this] this show ?thesis
    by (intro exI [of _ ?m]) simp
qed

text \<open>A consumer reads the front block and pops what it read, until the manager is empty.\<close>

fun drain :: "nat \<Rightarrow> BufferManager \<Rightarrow> (BufferManager \<times> bytes) outcome" where
  "drain 0 m = Returns (m, [])"
| "drain (Suc k) m =
     bind_outcome (BufferManager_FrontData m) (\<lambda>r. case r of
       Inl _ \<Rightarrow> Returns (m, [])
     | Inr (d, nread, nwrite) \<Rightarrow>
         bind_outcome (BufferManager_PopFront nwrite True m) (\<lambda>(m', _).
         map_outcome_val (\<lambda>(m'', rest). (m'', d @ rest)) (drain k m')))"

lemma PopFront_whole:
  assumes "bm_rep m (b # bs)"
  shows "\<exists>m'. BufferManager_PopFront (BufferBlock_Size (Some b)) True m = Returns (m', Inr ()) \<and> bm_rep m' bs"
proof -
  have wf: "bb_wf b" using assms by (simp add: bm_rep_def)
  have gone: "popped (BufferBlock_Size (Some b)) True b = []"
    using advance_block(2) [OF wf] by (simp add: popped_def)
  from assms show ?thesis
  proof (cases rule: bm_rep_cases)
    case 1
    from dyn.pop_front_deque [OF 1(2), of "BufferBlock_Size (Some b)" True] 1(1) gone show ?thesis
      by (auto simp: BufferManager_PopFront_def dest: deque_bm_rep)
  next
    case 2
    from stat.pop_front_deque [OF 2(2), of "BufferBlock_Size (Some b)" True] 2(1) gone show ?thesis
      by (auto simp: BufferManager_PopFront_def dest: deque_bm_rep)
  qed
qed

lemma drain_all: "bm_rep m bs \<Longrightarrow> length bs \<le> k \<Longrightarrow> \<exists>m'. drain k m = Returns (m', stream bs) \<and> bm_rep m' []"
proof (induction k arbitrary: m bs)
  case (Suc k)
  note ends = bm_rep_ends(1) [OF Suc.prems(1)]
  show ?case
  proof (cases bs)
    case Nil
    then show ?thesis using Suc.prems ends by (simp add: BufferManager_FrontData_def blockData_def)
  next
    case (Cons b cs)
    have wf: "bb_wf b" using Suc.prems(1) Cons by (simp add: bm_rep_def)
    obtain m' where "BufferManager_PopFront (BufferBlock_Size (Some b)) True m = Returns (m', Inr ())" "bm_rep m' cs"
      using PopFront_whole Suc.prems(1) Cons by blast
    with Suc.IH [of m' cs] Suc.prems(2) Cons ends show ?thesis
      by (auto simp: BufferManager_FrontData_def blockData_def BufferBlock_Data_unread [OF wf] Let_def)
  qed
qed simp

text \<open>A consumer that repeatedly reads the front block and pops it receives exactly the unread bytes of
  all blocks, in order, without a panic, and leaves the manager empty; \<open>ForEach\<close> visits the same
  blocks in the same order, and \<open>Count\<close> counts them.\<close>

theorem BufferManager_drain_is_fifo:
  assumes "bm_rep m bs"
  shows "(\<exists>m'. drain (BufferManager_Count m) m = Returns (m', stream bs) \<and> bm_rep m' [])
    \<and> BufferManager_ForEach (\<lambda>b acc. (acc @ bb_unread b, True)) m [] = Some (stream bs)
    \<and> BufferManager_Count m = length bs"
proof -
  have "ForEach_list (\<lambda>b acc. (acc @ bb_unread b, True)) bs acc = acc @ stream bs" for acc
    by (induction bs arbitrary: acc) simp_all
  then show ?thesis
    using drain_all [OF assms] bm_rep_Count [OF assms] by (simp add: bm_rep_ForEach [OF assms])
qed

lemma MergeBack_result:
  assumes "bm_rep m (bs @ [b])" and "fits n (bs @ [b])" and "\<not> exceeds_size n (bm_limit m) (bs @ [b])"
  shows "\<exists>m'. BufferManager_MergeBack n m = Returns (m', Inr (make_bytes (nat n))) \<and> bm_rep m' (bs @ [grow_back n b])"
proof -
  have ok: "\<not> BufferManager_Empty m" "\<not> overLimitSize n (bm_limit m)"
    using bm_rep_Empty [OF assms(1)] bm_rep_limits(2) [OF assms(1), of n "bm_limit m"] assms(2,3) by (auto simp: serves_def)
  from assms(1) show ?thesis
  proof (cases rule: bm_rep_cases)
    case 1
    from dyn.charged_merge_back [OF 1(2) assms(2)] 1(1) ok show ?thesis
      by (auto simp: BufferManager_MergeBack_def dest: deque_bm_rep)
  next
    case 2
    from stat.charged_merge_back [OF 2(2) assms(2)] 2(1) ok show ?thesis
      by (auto simp: BufferManager_MergeBack_def dest: deque_bm_rep)
  qed
qed

lemma MergeFront_result:
  assumes "bm_rep m (b # bs)" and "fits n (b # bs)" and "\<not> exceeds_size n (bm_limit m) (b # bs)"
  shows "\<exists>m'. BufferManager_MergeFront n m = Returns (m', Inr (make_bytes (nat n))) \<and> bm_rep m' (grow_front n b # bs)"
proof -
  have ok: "\<not> BufferManager_Empty m" "\<not> overLimitSize n (bm_limit m)"
    using bm_rep_Empty [OF assms(1)] bm_rep_limits(2) [OF assms(1), of n "bm_limit m"] assms(2,3) by (auto simp: serves_def)
  from assms(1) show ?thesis
  proof (cases rule: bm_rep_cases)
    case 1
    from dyn.charged_merge_front [OF 1(2) assms(2)] 1(1) ok show ?thesis
      by (auto simp: BufferManager_MergeFront_def dest: deque_bm_rep)
  next
    case 2
    from stat.charged_merge_front [OF 2(2) assms(2)] 2(1) ok show ?thesis
      by (auto simp: BufferManager_MergeFront_def dest: deque_bm_rep)
  qed
qed

text \<open>\<open>MergeBack\<close> extends the unread bytes at the end, keeping what is stored; \<open>MergeFront\<close> does so at the
  front while nothing of the front block has been popped. Once \<open>k\<close> bytes of it have been, \<open>MergeFront\<close>
  hides the first \<open>k\<close> bytes of what it added and makes popped bytes unread again.\<close>

theorem BufferManager_merge_streams:
  assumes "bm_rep m bs" and "bs \<noteq> []" and "fits n bs" and "\<not> exceeds_size n (bm_limit m) bs"
  shows "(\<exists>m' bs'. BufferManager_MergeBack n m = Returns (m', Inr (make_bytes (nat n))) \<and> bm_rep m' bs'
        \<and> stream bs' = stream bs @ make_bytes (nat n))
    \<and> (\<exists>m' bs'. BufferManager_MergeFront n m = Returns (m', Inr (make_bytes (nat n))) \<and> bm_rep m' bs'
        \<and> stream bs' = drop (nat (bb_used (hd bs))) (make_bytes (nat n) @ bb_data (hd bs)) @ stream (tl bs)
        \<and> (bb_used (hd bs) = 0 \<longrightarrow> stream bs' = make_bytes (nat n) @ stream bs))"
proof
  obtain cs b where snoc: "bs = cs @ [b]" using assms(2) by (cases bs rule: rev_cases) auto
  have "bb_wf b" using assms(1) snoc by (simp add: bm_rep_def)
  with MergeBack_result [of m cs b n] assms snoc grow_back_block(3) [of b n] fitsD(1) [OF assms(3)]
  show "\<exists>m' bs'. BufferManager_MergeBack n m = Returns (m', Inr (make_bytes (nat n))) \<and> bm_rep m' bs'
      \<and> stream bs' = stream bs @ make_bytes (nat n)" by fastforce
next
  obtain b cs where cons: "bs = b # cs" using assms(2) by (cases bs) auto
  have wf: "bb_wf b" using assms(1) cons by (simp add: bm_rep_def)
  obtain m' where m': "BufferManager_MergeFront n m = Returns (m', Inr (make_bytes (nat n)))"
      "bm_rep m' (grow_front n b # cs)"
    using MergeFront_result [of m b cs n] assms cons by auto
  show "\<exists>m' bs'. BufferManager_MergeFront n m = Returns (m', Inr (make_bytes (nat n))) \<and> bm_rep m' bs'
      \<and> stream bs' = drop (nat (bb_used (hd bs))) (make_bytes (nat n) @ bb_data (hd bs)) @ stream (tl bs)
      \<and> (bb_used (hd bs) = 0 \<longrightarrow> stream bs' = make_bytes (nat n) @ stream bs)"
    by (intro exI [of _ m'] exI [of _ "grow_front n b # cs"])
      (use m' cons grow_front_block(3) [OF wf fitsD(1) [OF assms(3)]] in \<open>simp add: bb_unread_def\<close>)
qed

text \<open>A small manager for the witnesses: two blocks, the first with one byte popped.\<close>

definition sample_blocks :: "BufferBlock list" where
  "sample_blocks = [\<lparr>bb_data = [1, 2, 3], bb_used = 1\<rparr>, \<lparr>bb_data = [4], bb_used = 0\<rparr>]"

definition sample_manager :: BufferManager where
  "sample_manager = \<lparr>dynamicBuffer = sample_blocks, staticBuffer = None,
     bm_limit = \<lparr>CostNumber = 2, CostSize = 3, LimitNumber = 0, LimitSize = 16\<rparr>\<rparr>"

lemma sample_manager_rep: "bm_rep sample_manager sample_blocks"
  by (simp add: bm_rep_def dynamic_rep_def sample_manager_def sample_blocks_def bb_wf_def costs_def
      BufferBlock_Size_def Let_def)

theorem BufferManager_refines_deque_witness:
  "\<exists>m' bs' e. run_op (PopFront 9 True) sample_manager = Returns (m', e) \<and> bm_rep m' bs' \<and> e = None
     \<and> bs' = [\<lparr>bb_data = [4], bb_used = 0\<rparr>]"
  using BufferManager_refines_deque [OF sample_manager_rep, of "PopFront 9 True"]
  by (auto simp: sample_blocks_def popped_def advance_def BufferBlock_Size_def Let_def)

theorem BufferManager_drain_is_fifo_witness:
  "\<exists>m'. drain 2 sample_manager = Returns (m', [2, 3, 4]) \<and> bm_rep m' []"
  using BufferManager_drain_is_fifo [OF sample_manager_rep]
  by (auto simp: sample_blocks_def stream_def bb_unread_def numeral_2_eq_2)

theorem BufferManager_merge_streams_witness:
  "\<exists>m' bs'. BufferManager_MergeFront 2 sample_manager = Returns (m', Inr (make_bytes 2)) \<and> bm_rep m' bs'
     \<and> stream bs' = [0, 1, 2, 3, 4]"
  using BufferManager_merge_streams [OF sample_manager_rep, of 2]
  by (auto simp: sample_blocks_def stream_def bb_unread_def make_bytes_def numeral_2_eq_2
      exceeds_size_def sample_manager_def BufferBlock_Size_def Let_def fits_def maxAlloc_def)

end
