(* ===== verification/Error_Code.thy ===== *)
theory Error_Code
  imports Prelude
begin

section \<open>Error codes (error\_code/libatbus\_error.go)\<close>

text \<open>
  The error codes the operations of the library return (\<open>ErrorType\<close>, a Go \<open>int32\<close>), and the table of
  messages behind \<open>ErrorType.String\<close> and \<open>ErrorType.Error\<close>. The definitions of the codes are collected in
  \<open>error_codes\<close>, so that a comparison of two codes is decided by the simplifier.
\<close>

type_synonym ErrorType = int

named_theorems error_codes \<open>the numbers of the error codes\<close>

definition EN_ATBUS_ERR_SUCCESS :: ErrorType where [error_codes]: "EN_ATBUS_ERR_SUCCESS = 0"
definition EN_ATBUS_ERR_PARAMS :: ErrorType where [error_codes]: "EN_ATBUS_ERR_PARAMS = - 1"
definition EN_ATBUS_ERR_INNER :: ErrorType where [error_codes]: "EN_ATBUS_ERR_INNER = - 2"
definition EN_ATBUS_ERR_NO_DATA :: ErrorType where [error_codes]: "EN_ATBUS_ERR_NO_DATA = - 3"
definition EN_ATBUS_ERR_BUFF_LIMIT :: ErrorType where [error_codes]: "EN_ATBUS_ERR_BUFF_LIMIT = - 4"
definition EN_ATBUS_ERR_MALLOC :: ErrorType where [error_codes]: "EN_ATBUS_ERR_MALLOC = - 5"
definition EN_ATBUS_ERR_SCHEME :: ErrorType where [error_codes]: "EN_ATBUS_ERR_SCHEME = - 6"
definition EN_ATBUS_ERR_BAD_DATA :: ErrorType where [error_codes]: "EN_ATBUS_ERR_BAD_DATA = - 7"
definition EN_ATBUS_ERR_INVALID_SIZE :: ErrorType where [error_codes]: "EN_ATBUS_ERR_INVALID_SIZE = - 8"
definition EN_ATBUS_ERR_NOT_INITED :: ErrorType where [error_codes]: "EN_ATBUS_ERR_NOT_INITED = - 9"
definition EN_ATBUS_ERR_ALREADY_INITED :: ErrorType where [error_codes]: "EN_ATBUS_ERR_ALREADY_INITED = - 10"
definition EN_ATBUS_ERR_ACCESS_DENY :: ErrorType where [error_codes]: "EN_ATBUS_ERR_ACCESS_DENY = - 11"
definition EN_ATBUS_ERR_UNPACK :: ErrorType where [error_codes]: "EN_ATBUS_ERR_UNPACK = - 12"
definition EN_ATBUS_ERR_PACK :: ErrorType where [error_codes]: "EN_ATBUS_ERR_PACK = - 13"
definition EN_ATBUS_ERR_UNSUPPORTED_VERSION :: ErrorType where [error_codes]: "EN_ATBUS_ERR_UNSUPPORTED_VERSION = - 14"
definition EN_ATBUS_ERR_CLOSING :: ErrorType where [error_codes]: "EN_ATBUS_ERR_CLOSING = - 15"
definition EN_ATBUS_ERR_ALGORITHM_NOT_SUPPORT :: ErrorType where [error_codes]: "EN_ATBUS_ERR_ALGORITHM_NOT_SUPPORT = - 16"
definition EN_ATBUS_ERR_MESSAGE_NOT_FINISH_YET :: ErrorType where [error_codes]: "EN_ATBUS_ERR_MESSAGE_NOT_FINISH_YET = - 17"
definition EN_ATBUS_ERR_ATNODE_NOT_FOUND :: ErrorType where [error_codes]: "EN_ATBUS_ERR_ATNODE_NOT_FOUND = - 65"
definition EN_ATBUS_ERR_ATNODE_INVALID_ID :: ErrorType where [error_codes]: "EN_ATBUS_ERR_ATNODE_INVALID_ID = - 66"
definition EN_ATBUS_ERR_ATNODE_NO_CONNECTION :: ErrorType where [error_codes]: "EN_ATBUS_ERR_ATNODE_NO_CONNECTION = - 67"
definition EN_ATBUS_ERR_ATNODE_FAULT_TOLERANT :: ErrorType where [error_codes]: "EN_ATBUS_ERR_ATNODE_FAULT_TOLERANT = - 68"
definition EN_ATBUS_ERR_ATNODE_INVALID_MSG :: ErrorType where [error_codes]: "EN_ATBUS_ERR_ATNODE_INVALID_MSG = - 69"
definition EN_ATBUS_ERR_ATNODE_BUS_ID_NOT_MATCH :: ErrorType where [error_codes]: "EN_ATBUS_ERR_ATNODE_BUS_ID_NOT_MATCH = - 70"
definition EN_ATBUS_ERR_ATNODE_TTL :: ErrorType where [error_codes]: "EN_ATBUS_ERR_ATNODE_TTL = - 71"
definition EN_ATBUS_ERR_ATNODE_MASK_CONFLICT :: ErrorType where [error_codes]: "EN_ATBUS_ERR_ATNODE_MASK_CONFLICT = - 72"
definition EN_ATBUS_ERR_ATNODE_ID_CONFLICT :: ErrorType where [error_codes]: "EN_ATBUS_ERR_ATNODE_ID_CONFLICT = - 73"
definition EN_ATBUS_ERR_ATNODE_SRC_DST_IS_SAME :: ErrorType where [error_codes]: "EN_ATBUS_ERR_ATNODE_SRC_DST_IS_SAME = - 75"
definition EN_ATBUS_ERR_CHANNEL_SIZE_TOO_SMALL :: ErrorType where [error_codes]: "EN_ATBUS_ERR_CHANNEL_SIZE_TOO_SMALL = - 101"
definition EN_ATBUS_ERR_CHANNEL_BUFFER_INVALID :: ErrorType where [error_codes]: "EN_ATBUS_ERR_CHANNEL_BUFFER_INVALID = - 102"
definition EN_ATBUS_ERR_CHANNEL_ADDR_INVALID :: ErrorType where [error_codes]: "EN_ATBUS_ERR_CHANNEL_ADDR_INVALID = - 103"
definition EN_ATBUS_ERR_CHANNEL_CLOSING :: ErrorType where [error_codes]: "EN_ATBUS_ERR_CHANNEL_CLOSING = - 104"
definition EN_ATBUS_ERR_CHANNEL_NOT_SUPPORT :: ErrorType where [error_codes]: "EN_ATBUS_ERR_CHANNEL_NOT_SUPPORT = - 105"
definition EN_ATBUS_ERR_CHANNEL_UNSUPPORTED_VERSION :: ErrorType where [error_codes]: "EN_ATBUS_ERR_CHANNEL_UNSUPPORTED_VERSION = - 106"
definition EN_ATBUS_ERR_CHANNEL_ALIGN_SIZE_MISMATCH :: ErrorType where [error_codes]: "EN_ATBUS_ERR_CHANNEL_ALIGN_SIZE_MISMATCH = - 107"
definition EN_ATBUS_ERR_CHANNEL_ARCH_SIZE_T_MISMATCH :: ErrorType where [error_codes]: "EN_ATBUS_ERR_CHANNEL_ARCH_SIZE_T_MISMATCH = - 108"
definition EN_ATBUS_ERR_NODE_BAD_BLOCK_NODE_NUM :: ErrorType where [error_codes]: "EN_ATBUS_ERR_NODE_BAD_BLOCK_NODE_NUM = - 202"
definition EN_ATBUS_ERR_NODE_BAD_BLOCK_BUFF_SIZE :: ErrorType where [error_codes]: "EN_ATBUS_ERR_NODE_BAD_BLOCK_BUFF_SIZE = - 203"
definition EN_ATBUS_ERR_NODE_BAD_BLOCK_WSEQ_ID :: ErrorType where [error_codes]: "EN_ATBUS_ERR_NODE_BAD_BLOCK_WSEQ_ID = - 204"
definition EN_ATBUS_ERR_NODE_BAD_BLOCK_CSEQ_ID :: ErrorType where [error_codes]: "EN_ATBUS_ERR_NODE_BAD_BLOCK_CSEQ_ID = - 205"
definition EN_ATBUS_ERR_NODE_TIMEOUT :: ErrorType where [error_codes]: "EN_ATBUS_ERR_NODE_TIMEOUT = - 211"
definition EN_ATBUS_ERR_CRYPTO_DECRYPT :: ErrorType where [error_codes]: "EN_ATBUS_ERR_CRYPTO_DECRYPT = - 231"
definition EN_ATBUS_ERR_CRYPTO_ENCRYPT :: ErrorType where [error_codes]: "EN_ATBUS_ERR_CRYPTO_ENCRYPT = - 232"
definition EN_ATBUS_ERR_CRYPTO_ALGORITHM_NOT_SUPPORT :: ErrorType where [error_codes]: "EN_ATBUS_ERR_CRYPTO_ALGORITHM_NOT_SUPPORT = - 233"
definition EN_ATBUS_ERR_CRYPTO_ALGORITHM_NOT_MATCH :: ErrorType where [error_codes]: "EN_ATBUS_ERR_CRYPTO_ALGORITHM_NOT_MATCH = - 234"
definition EN_ATBUS_ERR_CRYPTO_INVALID_IV :: ErrorType where [error_codes]: "EN_ATBUS_ERR_CRYPTO_INVALID_IV = - 235"
definition EN_ATBUS_ERR_CRYPTO_HANDSHAKE_MAKE_KEY_PAIR :: ErrorType where [error_codes]: "EN_ATBUS_ERR_CRYPTO_HANDSHAKE_MAKE_KEY_PAIR = - 236"
definition EN_ATBUS_ERR_CRYPTO_HANDSHAKE_READ_PEER_KEY :: ErrorType where [error_codes]: "EN_ATBUS_ERR_CRYPTO_HANDSHAKE_READ_PEER_KEY = - 237"
definition EN_ATBUS_ERR_CRYPTO_HANDSHAKE_MAKE_SECRET :: ErrorType where [error_codes]: "EN_ATBUS_ERR_CRYPTO_HANDSHAKE_MAKE_SECRET = - 238"
definition EN_ATBUS_ERR_CRYPTO_HANDSHAKE_SEQUENCE_EXPIRED :: ErrorType where [error_codes]: "EN_ATBUS_ERR_CRYPTO_HANDSHAKE_SEQUENCE_EXPIRED = - 239"
definition EN_ATBUS_ERR_CRYPTO_HANDSHAKE_NO_AVAILABLE_ALGORITHM :: ErrorType where [error_codes]: "EN_ATBUS_ERR_CRYPTO_HANDSHAKE_NO_AVAILABLE_ALGORITHM = - 240"
definition EN_ATBUS_ERR_CRYPTO_HANDSHAKE_KDF_ERROR :: ErrorType where [error_codes]: "EN_ATBUS_ERR_CRYPTO_HANDSHAKE_KDF_ERROR = - 241"
definition EN_ATBUS_ERR_CRYPTO_HANDSHAKE_KDF_NOT_SUPPORT :: ErrorType where [error_codes]: "EN_ATBUS_ERR_CRYPTO_HANDSHAKE_KDF_NOT_SUPPORT = - 242"
definition EN_ATBUS_ERR_COMPRESSION_ALGORITHM_NOT_SUPPORT :: ErrorType where [error_codes]: "EN_ATBUS_ERR_COMPRESSION_ALGORITHM_NOT_SUPPORT = - 251"
definition EN_ATBUS_ERR_SHM_GET_FAILED :: ErrorType where [error_codes]: "EN_ATBUS_ERR_SHM_GET_FAILED = - 301"
definition EN_ATBUS_ERR_SHM_NOT_FOUND :: ErrorType where [error_codes]: "EN_ATBUS_ERR_SHM_NOT_FOUND = - 302"
definition EN_ATBUS_ERR_SHM_CLOSE_FAILED :: ErrorType where [error_codes]: "EN_ATBUS_ERR_SHM_CLOSE_FAILED = - 303"
definition EN_ATBUS_ERR_SHM_PATH_INVALID :: ErrorType where [error_codes]: "EN_ATBUS_ERR_SHM_PATH_INVALID = - 304"
definition EN_ATBUS_ERR_SHM_MAP_FAILED :: ErrorType where [error_codes]: "EN_ATBUS_ERR_SHM_MAP_FAILED = - 305"
definition EN_ATBUS_ERR_SOCK_BIND_FAILED :: ErrorType where [error_codes]: "EN_ATBUS_ERR_SOCK_BIND_FAILED = - 401"
definition EN_ATBUS_ERR_SOCK_LISTEN_FAILED :: ErrorType where [error_codes]: "EN_ATBUS_ERR_SOCK_LISTEN_FAILED = - 402"
definition EN_ATBUS_ERR_SOCK_CONNECT_FAILED :: ErrorType where [error_codes]: "EN_ATBUS_ERR_SOCK_CONNECT_FAILED = - 403"
definition EN_ATBUS_ERR_PIPE_BIND_FAILED :: ErrorType where [error_codes]: "EN_ATBUS_ERR_PIPE_BIND_FAILED = - 501"
definition EN_ATBUS_ERR_PIPE_LISTEN_FAILED :: ErrorType where [error_codes]: "EN_ATBUS_ERR_PIPE_LISTEN_FAILED = - 502"
definition EN_ATBUS_ERR_PIPE_CONNECT_FAILED :: ErrorType where [error_codes]: "EN_ATBUS_ERR_PIPE_CONNECT_FAILED = - 503"
definition EN_ATBUS_ERR_PIPE_ADDR_TOO_LONG :: ErrorType where [error_codes]: "EN_ATBUS_ERR_PIPE_ADDR_TOO_LONG = - 504"
definition EN_ATBUS_ERR_PIPE_REMOVE_FAILED :: ErrorType where [error_codes]: "EN_ATBUS_ERR_PIPE_REMOVE_FAILED = - 505"
definition EN_ATBUS_ERR_PIPE_PATH_EXISTS :: ErrorType where [error_codes]: "EN_ATBUS_ERR_PIPE_PATH_EXISTS = - 506"
definition EN_ATBUS_ERR_PIPE_LOCK_PATH_FAILED :: ErrorType where [error_codes]: "EN_ATBUS_ERR_PIPE_LOCK_PATH_FAILED = - 507"
definition EN_ATBUS_ERR_DNS_GETADDR_FAILED :: ErrorType where [error_codes]: "EN_ATBUS_ERR_DNS_GETADDR_FAILED = - 601"
definition EN_ATBUS_ERR_CONNECTION_NOT_FOUND :: ErrorType where [error_codes]: "EN_ATBUS_ERR_CONNECTION_NOT_FOUND = - 602"
definition EN_ATBUS_ERR_WRITE_FAILED :: ErrorType where [error_codes]: "EN_ATBUS_ERR_WRITE_FAILED = - 603"
definition EN_ATBUS_ERR_READ_FAILED :: ErrorType where [error_codes]: "EN_ATBUS_ERR_READ_FAILED = - 604"
definition EN_ATBUS_ERR_EV_RUN :: ErrorType where [error_codes]: "EN_ATBUS_ERR_EV_RUN = - 605"
definition EN_ATBUS_ERR_NO_LISTEN :: ErrorType where [error_codes]: "EN_ATBUS_ERR_NO_LISTEN = - 606"
definition EN_ATBUS_ERR_NOT_READY :: ErrorType where [error_codes]: "EN_ATBUS_ERR_NOT_READY = - 607"
definition EN_ATBUS_ERR_MIN :: ErrorType where [error_codes]: "EN_ATBUS_ERR_MIN = - 999"

text \<open>\<open>\%d\<close> of a Go integer.\<close>

definition digit_char :: "nat \<Rightarrow> char" where
  "digit_char d = char_of (48 + d)"

fun show_nat :: "nat \<Rightarrow> string" where
  "show_nat n = (if n < 10 then [digit_char n] else show_nat (n div 10) @ [digit_char (n mod 10)])"

definition show_int :: "int \<Rightarrow> string" where
  "show_int i = (if i < 0 then CHR ''-'' # show_nat (nat (- i)) else show_nat (nat i))"

declare show_nat.simps [simp del]

definition libatbusBuildErrorString :: "ErrorType \<Rightarrow> string \<Rightarrow> string \<Rightarrow> string" where
  "libatbusBuildErrorString code name message = name @ ''('' @ show_int code @ ''): '' @ message"

text \<open>The rows of \<open>atbusKnownErrorStringByCode\<close>: the code, its printed name and its message.\<close>

definition known_errors :: "(ErrorType \<times> string \<times> string) list" where
  "known_errors = [
    (EN_ATBUS_ERR_SUCCESS, ''EN_ATBUS_ERR_SUCCESS'', ''success''),
    (EN_ATBUS_ERR_PARAMS, ''EN_ATBUS_ERR_PARAMS'', ''ATBUS parameter error''),
    (EN_ATBUS_ERR_INNER, ''EN_ATBUS_ERR_INNER'', ''ATBUS inner error''),
    (EN_ATBUS_ERR_NO_DATA, ''EN_ATBUS_ERR_NO_DATA'', ''no data''),
    (EN_ATBUS_ERR_BUFF_LIMIT, ''EN_ATBUS_ERR_BUFF_LIMIT'', ''buffer limit''),
    (EN_ATBUS_ERR_MALLOC, ''EN_ATBUS_ERR_MALLOC'', ''memory allocation failed''),
    (EN_ATBUS_ERR_SCHEME, ''EN_ATBUS_ERR_SCHEME'', ''protocol error''),
    (EN_ATBUS_ERR_BAD_DATA, ''EN_ATBUS_ERR_BAD_DATA'', ''bad data''),
    (EN_ATBUS_ERR_INVALID_SIZE, ''EN_ATBUS_ERR_INVALID_SIZE'', ''invalid size''),
    (EN_ATBUS_ERR_NOT_INITED, ''EN_ATBUS_ERR_NOT_INITED'', ''not initialized''),
    (EN_ATBUS_ERR_ALREADY_INITED, ''EN_ATBUS_ERR_ALREADY_INITED'', ''already initialized''),
    (EN_ATBUS_ERR_ACCESS_DENY, ''EN_ATBUS_ERR_ACCESS_DENY'', ''access denied''),
    (EN_ATBUS_ERR_UNPACK, ''EN_ATBUS_ERR_UNPACK'', ''unpack failed''),
    (EN_ATBUS_ERR_PACK, ''EN_ATBUS_ERR_PACK'', ''pack failed''),
    (EN_ATBUS_ERR_UNSUPPORTED_VERSION, ''EN_ATBUS_ERR_UNSUPPORTED_VERSION'', ''unsupported version''),
    (EN_ATBUS_ERR_CLOSING, ''EN_ATBUS_ERR_CLOSING'', ''closing''),
    (EN_ATBUS_ERR_ALGORITHM_NOT_SUPPORT, ''EN_ATBUS_ERR_ALGORITHM_NOT_SUPPORT'', ''algorithm not supported''),
    (EN_ATBUS_ERR_MESSAGE_NOT_FINISH_YET, ''EN_ATBUS_ERR_MESSAGE_NOT_FINISH_YET'', ''message not finished yet''),
    (EN_ATBUS_ERR_ATNODE_NOT_FOUND, ''EN_ATBUS_ERR_ATNODE_NOT_FOUND'', ''target node not found''),
    (EN_ATBUS_ERR_ATNODE_INVALID_ID, ''EN_ATBUS_ERR_ATNODE_INVALID_ID'', ''invalid node id''),
    (EN_ATBUS_ERR_ATNODE_NO_CONNECTION, ''EN_ATBUS_ERR_ATNODE_NO_CONNECTION'', ''no connection''),
    (EN_ATBUS_ERR_ATNODE_FAULT_TOLERANT, ''EN_ATBUS_ERR_ATNODE_FAULT_TOLERANT'', ''exceeded fault tolerant''),
    (EN_ATBUS_ERR_ATNODE_INVALID_MSG, ''EN_ATBUS_ERR_ATNODE_INVALID_MSG'', ''invalid message''),
    (EN_ATBUS_ERR_ATNODE_BUS_ID_NOT_MATCH, ''EN_ATBUS_ERR_ATNODE_BUS_ID_NOT_MATCH'', ''bus id not match''),
    (EN_ATBUS_ERR_ATNODE_TTL, ''EN_ATBUS_ERR_ATNODE_TTL'', ''ttl limited''),
    (EN_ATBUS_ERR_ATNODE_MASK_CONFLICT, ''EN_ATBUS_ERR_ATNODE_MASK_CONFLICT'', ''mask conflict''),
    (EN_ATBUS_ERR_ATNODE_ID_CONFLICT, ''EN_ATBUS_ERR_ATNODE_ID_CONFLICT'', ''id conflict''),
    (EN_ATBUS_ERR_ATNODE_SRC_DST_IS_SAME, ''EN_ATBUS_ERR_ATNODE_SRC_DST_IS_SAME'', ''source and destination are the same''),
    (EN_ATBUS_ERR_CHANNEL_SIZE_TOO_SMALL, ''EN_ATBUS_ERR_CHANNEL_SIZE_TOO_SMALL'', ''channel size too small''),
    (EN_ATBUS_ERR_CHANNEL_BUFFER_INVALID, ''EN_ATBUS_ERR_CHANNEL_BUFFER_INVALID'', ''channel buffer invalid''),
    (EN_ATBUS_ERR_CHANNEL_ADDR_INVALID, ''EN_ATBUS_ERR_CHANNEL_ADDR_INVALID'', ''channel address invalid''),
    (EN_ATBUS_ERR_CHANNEL_CLOSING, ''EN_ATBUS_ERR_CHANNEL_CLOSING'', ''channel closing''),
    (EN_ATBUS_ERR_CHANNEL_NOT_SUPPORT, ''EN_ATBUS_ERR_CHANNEL_NOT_SUPPORT'', ''channel not supported''),
    (EN_ATBUS_ERR_CHANNEL_UNSUPPORTED_VERSION, ''EN_ATBUS_ERR_CHANNEL_UNSUPPORTED_VERSION'', ''channel unsupported version''),
    (EN_ATBUS_ERR_CHANNEL_ALIGN_SIZE_MISMATCH, ''EN_ATBUS_ERR_CHANNEL_ALIGN_SIZE_MISMATCH'', ''channel align size mismatch''),
    (EN_ATBUS_ERR_CHANNEL_ARCH_SIZE_T_MISMATCH, ''EN_ATBUS_ERR_CHANNEL_ARCH_SIZE_T_MISMATCH'', ''channel architecture size_t mismatch''),
    (EN_ATBUS_ERR_NODE_BAD_BLOCK_NODE_NUM, ''EN_ATBUS_ERR_NODE_BAD_BLOCK_NODE_NUM'', ''corrupted node block - node count error''),
    (EN_ATBUS_ERR_NODE_BAD_BLOCK_BUFF_SIZE, ''EN_ATBUS_ERR_NODE_BAD_BLOCK_BUFF_SIZE'', ''corrupted node block - buffer size error''),
    (EN_ATBUS_ERR_NODE_BAD_BLOCK_WSEQ_ID, ''EN_ATBUS_ERR_NODE_BAD_BLOCK_WSEQ_ID'', ''corrupted node block - write sequence error''),
    (EN_ATBUS_ERR_NODE_BAD_BLOCK_CSEQ_ID, ''EN_ATBUS_ERR_NODE_BAD_BLOCK_CSEQ_ID'', ''corrupted node block - check sequence error''),
    (EN_ATBUS_ERR_NODE_TIMEOUT, ''EN_ATBUS_ERR_NODE_TIMEOUT'', ''operation timeout''),
    (EN_ATBUS_ERR_CRYPTO_DECRYPT, ''EN_ATBUS_ERR_CRYPTO_DECRYPT'', ''decryption failed''),
    (EN_ATBUS_ERR_CRYPTO_ENCRYPT, ''EN_ATBUS_ERR_CRYPTO_ENCRYPT'', ''encryption failed''),
    (EN_ATBUS_ERR_CRYPTO_ALGORITHM_NOT_SUPPORT, ''EN_ATBUS_ERR_CRYPTO_ALGORITHM_NOT_SUPPORT'', ''crypto algorithm not supported''),
    (EN_ATBUS_ERR_CRYPTO_ALGORITHM_NOT_MATCH, ''EN_ATBUS_ERR_CRYPTO_ALGORITHM_NOT_MATCH'', ''crypto algorithm not match''),
    (EN_ATBUS_ERR_CRYPTO_INVALID_IV, ''EN_ATBUS_ERR_CRYPTO_INVALID_IV'', ''invalid crypto iv/nonce''),
    (EN_ATBUS_ERR_CRYPTO_HANDSHAKE_MAKE_KEY_PAIR, ''EN_ATBUS_ERR_CRYPTO_HANDSHAKE_MAKE_KEY_PAIR'', ''crypto handshake make key pair failed''),
    (EN_ATBUS_ERR_CRYPTO_HANDSHAKE_READ_PEER_KEY, ''EN_ATBUS_ERR_CRYPTO_HANDSHAKE_READ_PEER_KEY'', ''crypto handshake read peer key failed''),
    (EN_ATBUS_ERR_CRYPTO_HANDSHAKE_MAKE_SECRET, ''EN_ATBUS_ERR_CRYPTO_HANDSHAKE_MAKE_SECRET'', ''crypto handshake make secret failed''),
    (EN_ATBUS_ERR_CRYPTO_HANDSHAKE_SEQUENCE_EXPIRED, ''EN_ATBUS_ERR_CRYPTO_HANDSHAKE_SEQUENCE_EXPIRED'', ''crypto handshake sequence expired''),
    (EN_ATBUS_ERR_CRYPTO_HANDSHAKE_NO_AVAILABLE_ALGORITHM, ''EN_ATBUS_ERR_CRYPTO_HANDSHAKE_NO_AVAILABLE_ALGORITHM'', ''crypto handshake no available algorithm''),
    (EN_ATBUS_ERR_CRYPTO_HANDSHAKE_KDF_ERROR, ''EN_ATBUS_ERR_CRYPTO_HANDSHAKE_KDF_ERROR'', ''crypto handshake kdf error''),
    (EN_ATBUS_ERR_CRYPTO_HANDSHAKE_KDF_NOT_SUPPORT, ''EN_ATBUS_ERR_CRYPTO_HANDSHAKE_KDF_NOT_SUPPORT'', ''crypto handshake kdf not support''),
    (EN_ATBUS_ERR_COMPRESSION_ALGORITHM_NOT_SUPPORT, ''EN_ATBUS_ERR_COMPRESSION_ALGORITHM_NOT_SUPPORT'', ''compression algorithm not supported''),
    (EN_ATBUS_ERR_SHM_GET_FAILED, ''EN_ATBUS_ERR_SHM_GET_FAILED'', ''shared memory get failed''),
    (EN_ATBUS_ERR_SHM_NOT_FOUND, ''EN_ATBUS_ERR_SHM_NOT_FOUND'', ''shared memory not found''),
    (EN_ATBUS_ERR_SHM_CLOSE_FAILED, ''EN_ATBUS_ERR_SHM_CLOSE_FAILED'', ''shared memory close failed''),
    (EN_ATBUS_ERR_SHM_PATH_INVALID, ''EN_ATBUS_ERR_SHM_PATH_INVALID'', ''shared memory path invalid''),
    (EN_ATBUS_ERR_SHM_MAP_FAILED, ''EN_ATBUS_ERR_SHM_MAP_FAILED'', ''shared memory map failed''),
    (EN_ATBUS_ERR_SOCK_BIND_FAILED, ''EN_ATBUS_ERR_SOCK_BIND_FAILED'', ''socket bind failed''),
    (EN_ATBUS_ERR_SOCK_LISTEN_FAILED, ''EN_ATBUS_ERR_SOCK_LISTEN_FAILED'', ''socket listen failed''),
    (EN_ATBUS_ERR_SOCK_CONNECT_FAILED, ''EN_ATBUS_ERR_SOCK_CONNECT_FAILED'', ''socket connect failed''),
    (EN_ATBUS_ERR_PIPE_BIND_FAILED, ''EN_ATBUS_ERR_PIPE_BIND_FAILED'', ''pipe bind failed''),
    (EN_ATBUS_ERR_PIPE_LISTEN_FAILED, ''EN_ATBUS_ERR_PIPE_LISTEN_FAILED'', ''pipe listen failed''),
    (EN_ATBUS_ERR_PIPE_CONNECT_FAILED, ''EN_ATBUS_ERR_PIPE_CONNECT_FAILED'', ''pipe connect failed''),
    (EN_ATBUS_ERR_PIPE_ADDR_TOO_LONG, ''EN_ATBUS_ERR_PIPE_ADDR_TOO_LONG'', ''pipe address too long''),
    (EN_ATBUS_ERR_PIPE_REMOVE_FAILED, ''EN_ATBUS_ERR_PIPE_REMOVE_FAILED'', ''pipe remove old socket failed''),
    (EN_ATBUS_ERR_PIPE_PATH_EXISTS, ''EN_ATBUS_ERR_PIPE_PATH_EXISTS'', ''pipe path already exists''),
    (EN_ATBUS_ERR_PIPE_LOCK_PATH_FAILED, ''EN_ATBUS_ERR_PIPE_LOCK_PATH_FAILED'', ''pipe lock path failed''),
    (EN_ATBUS_ERR_DNS_GETADDR_FAILED, ''EN_ATBUS_ERR_DNS_GETADDR_FAILED'', ''dns getaddr failed''),
    (EN_ATBUS_ERR_CONNECTION_NOT_FOUND, ''EN_ATBUS_ERR_CONNECTION_NOT_FOUND'', ''connection not found''),
    (EN_ATBUS_ERR_WRITE_FAILED, ''EN_ATBUS_ERR_WRITE_FAILED'', ''write failed''),
    (EN_ATBUS_ERR_READ_FAILED, ''EN_ATBUS_ERR_READ_FAILED'', ''read failed''),
    (EN_ATBUS_ERR_EV_RUN, ''EN_ATBUS_ERR_EV_RUN'', ''event loop run failed''),
    (EN_ATBUS_ERR_NO_LISTEN, ''EN_ATBUS_ERR_NO_LISTEN'', ''no listen''),
    (EN_ATBUS_ERR_NOT_READY, ''EN_ATBUS_ERR_NOT_READY'', ''not ready'')]"

definition atbusKnownErrorStringByCode :: "(ErrorType \<times> string) list" where
  "atbusKnownErrorStringByCode =
     map (\<lambda>(e, name, message). (e, libatbusBuildErrorString e name message)) known_errors"

definition libatbusStrerror :: "ErrorType \<Rightarrow> string" where
  "libatbusStrerror errcode =
     (case map_of atbusKnownErrorStringByCode errcode of
        Some s \<Rightarrow> s
      | None \<Rightarrow> libatbusBuildErrorString errcode ''ATBUS_ERROR_TYPE'' ''unknown'')"

definition error_codes_in_order :: "ErrorType list" where
  "error_codes_in_order = [0, - 1, - 2, - 3, - 4, - 5, - 6, - 7, - 8, - 9, - 10, - 11, - 12, - 13, - 14, - 15, - 16, - 17, - 65, - 66, - 67, - 68, - 69, - 70, - 71, - 72, - 73, - 75, - 101, - 102, - 103, - 104, - 105, - 106, - 107, - 108, - 202, - 203, - 204, - 205, - 211, - 231, - 232, - 233, - 234, - 235, - 236, - 237, - 238, - 239, - 240, - 241, - 242, - 251, - 301, - 302, - 303, - 304, - 305, - 401, - 402, - 403, - 501, - 502, - 503, - 504, - 505, - 506, - 507, - 601, - 602, - 603, - 604, - 605, - 606, - 607]"

lemma known_error_codes: "map fst known_errors = error_codes_in_order"
  by (simp add: known_errors_def error_codes_in_order_def error_codes)

lemma error_codes_sorted: "sorted (rev error_codes_in_order) \<and> distinct error_codes_in_order"
  by code_simp

text \<open>No two error codes of the message table share a number, so \<open>libatbusStrerror\<close> returns for each of them
  its own row (name, number and message); every number that is not in the table is reported as
  unknown.\<close>

theorem libatbusStrerror_total:
  "distinct (map fst known_errors)
   \<and> (\<forall>(e, name, message) \<in> set known_errors.
        libatbusStrerror e = libatbusBuildErrorString e name message)
   \<and> (\<forall>code. code \<notin> fst ` set known_errors \<longrightarrow>
        libatbusStrerror code = libatbusBuildErrorString code ''ATBUS_ERROR_TYPE'' ''unknown'')"
proof (intro conjI allI impI)
  show dist: "distinct (map fst known_errors)"
    using error_codes_sorted by (simp add: known_error_codes)
  have "map fst atbusKnownErrorStringByCode = map fst known_errors"
    by (simp add: atbusKnownErrorStringByCode_def case_prod_unfold)
  with dist have rows: "distinct (map fst atbusKnownErrorStringByCode)"
    by simp
  show "\<forall>(e, name, message) \<in> set known_errors. libatbusStrerror e = libatbusBuildErrorString e name message"
  proof clarify
    fix e name message assume "(e, name, message) \<in> set known_errors"
    then have "(e, libatbusBuildErrorString e name message) \<in> set atbusKnownErrorStringByCode"
      unfolding atbusKnownErrorStringByCode_def by force
    from map_of_is_SomeI [OF rows this] show "libatbusStrerror e = libatbusBuildErrorString e name message"
      by (simp only: libatbusStrerror_def option.case)
  qed
next
  fix code assume "code \<notin> fst ` set known_errors"
  then have "map_of atbusKnownErrorStringByCode code = None"
    by (force simp: atbusKnownErrorStringByCode_def map_of_eq_None_iff)
  then show "libatbusStrerror code = libatbusBuildErrorString code ''ATBUS_ERROR_TYPE'' ''unknown''"
    by (simp only: libatbusStrerror_def option.case)
qed

theorem libatbusStrerror_total_witness:
  "libatbusStrerror EN_ATBUS_ERR_BAD_DATA = ''EN_ATBUS_ERR_BAD_DATA(-7): bad data''
   \<and> libatbusStrerror (- 74) = ''ATBUS_ERROR_TYPE(-74): unknown''"
proof -
  have "(EN_ATBUS_ERR_BAD_DATA, ''EN_ATBUS_ERR_BAD_DATA'', ''bad data'') \<in> set known_errors"
    unfolding known_errors_def by (simp only: list.set insert_iff simp_thms)
  from bspec [OF libatbusStrerror_total [THEN conjunct2, THEN conjunct1] this]
  have a: "libatbusStrerror EN_ATBUS_ERR_BAD_DATA =
      libatbusBuildErrorString EN_ATBUS_ERR_BAD_DATA ''EN_ATBUS_ERR_BAD_DATA'' ''bad data''"
    by (simp only: prod.case)
  have "- 74 \<notin> set (map fst known_errors)"
    unfolding known_error_codes error_codes_in_order_def by simp
  then have "- 74 \<notin> fst ` set known_errors" by simp
  from libatbusStrerror_total [THEN conjunct2, THEN conjunct2, rule_format, OF this]
  have b: "libatbusStrerror (- 74) = libatbusBuildErrorString (- 74) ''ATBUS_ERROR_TYPE'' ''unknown''" .
  have "show_int (- 7) = ''-7''" "show_int (- 74) = ''-74''"
    by code_simp+
  with a b show ?thesis by (simp add: libatbusBuildErrorString_def error_codes)
qed

end
