(* ===== verification/Frame_Codec.thy ===== *)
theory Frame_Codec
  imports Vint Error_Code
begin

unbundle bit_operations_syntax

section \<open>Frames (channel/io\_stream/frame\_codec.go)\<close>

text \<open>
  A frame is the 32-bit murmur3 hash of the payload (little endian), the payload length as a vint,
  and the payload. The hash function is a third-party package, so every definition that hashes
  takes it as the parameter \<open>sum32\<close>, of which nothing is assumed. Packing, unpacking, header
  parsing and the buffering \<open>FrameReader\<close> are modelled with the source's 64-bit arithmetic: the
  announced length is converted to a signed \<open>int\<close> and added with wrap-around.
\<close>

type_synonym hash_fun = "bytes \<Rightarrow> uint32"

definition HashSize :: nat where "HashSize = 4"
definition MaxVintSize :: nat where "MaxVintSize = 10"
definition MaxFrameHeaderSize :: nat where "MaxFrameHeaderSize = HashSize + MaxVintSize"

datatype frame_error = ErrBufferTooSmall | ErrInvalidFrameHash | ErrInvalidFrameLength | ErrIncompleteFrame

definition CalculateHash :: "hash_fun \<Rightarrow> bytes \<Rightarrow> uint32" where
  "CalculateHash sum32 payload = sum32 payload"

text \<open>\<open>binary.LittleEndian\<close>; reading needs four bytes, like the library's bounds hint.\<close>

definition PutUint32 :: "uint32 \<Rightarrow> bytes" where
  "PutUint32 v = [ucast v, ucast (drop_bit 8 v), ucast (drop_bit 16 v), ucast (drop_bit 24 v)]"

definition Uint32 :: "bytes \<Rightarrow> uint32 outcome" where
  "Uint32 b =
     (if length b < 4 then Panics
      else Returns (ucast (b ! 0) OR push_bit 8 (ucast (b ! 1)) OR push_bit 16 (ucast (b ! 2))
                    OR push_bit 24 (ucast (b ! 3))))"

definition PackFrameSize :: "uint64 \<Rightarrow> int" where
  "PackFrameSize payloadSize =
     wrap64 (int HashSize + int (VintEncodedSize payloadSize) + int_of_uint64 payloadSize)"

text \<open>\<open>PackFrame\<close> writes into its argument slice: the count and the slice it leaves behind.\<close>

definition PackFrame :: "hash_fun \<Rightarrow> bytes \<Rightarrow> bytes \<Rightarrow> nat \<times> bytes" where
  "PackFrame sum32 payload frame =
     (let payloadLen = (of_nat (length payload) :: uint64);
          vintSize = VintEncodedSize payloadLen;
          totalSize = HashSize + vintSize + length payload
      in if length frame < totalSize then (0, frame)
         else
           let frame = copy_at 0 (PutUint32 (CalculateHash sum32 payload)) frame;
               (vintWritten, piece) = WriteVint payloadLen (take vintSize (drop HashSize frame));
               frame = copy_at HashSize piece frame
           in if vintWritten \<noteq> vintSize then (0, frame)
              else (totalSize, copy_at (HashSize + vintSize) payload frame))"

record UnpackFrameResult =
  Payload :: bytes
  Consumed :: int
  ufr_Error :: "frame_error option"
  ufr_ErrorCode :: ErrorType

definition UnpackFrame :: "hash_fun \<Rightarrow> bytes \<Rightarrow> UnpackFrameResult outcome" where
  "UnpackFrame sum32 data =
     (let result = \<lparr>Payload = [], Consumed = 0, ufr_Error = None, ufr_ErrorCode = EN_ATBUS_ERR_SUCCESS\<rparr>;
          incomplete = result\<lparr>ufr_Error := Some ErrIncompleteFrame, ufr_ErrorCode := EN_ATBUS_ERR_NO_DATA\<rparr>
      in if length data < HashSize + 1 then Returns incomplete
         else
           bind_outcome (Uint32 (take HashSize data)) (\<lambda>expectedHash.
           let (payloadLen, vintSize) = ReadVint (drop HashSize data) in
           if vintSize = 0 then Returns incomplete
           else
             let totalFrameSize = wrap64 (int HashSize + int vintSize + int_of_uint64 payloadLen) in
             if int (length data) < totalFrameSize then Returns incomplete
             else
               let payloadStart = int HashSize + int vintSize in
               bind_outcome (slice data payloadStart (wrap64 (payloadStart + int_of_uint64 payloadLen))) (\<lambda>payload.
               let result = result\<lparr>Payload := payload, Consumed := totalFrameSize\<rparr> in
               if CalculateHash sum32 payload \<noteq> expectedHash
               then Returns (result\<lparr>ufr_Error := Some ErrInvalidFrameHash, ufr_ErrorCode := EN_ATBUS_ERR_BAD_DATA\<rparr>)
               else Returns result)))"

definition TryUnpackFrameHeader :: "bytes \<Rightarrow> uint64 \<times> nat \<times> bool" where
  "TryUnpackFrameHeader data =
     (if length data < HashSize + 1 then (0, 0, True)
      else let (payloadLen, vintSize) = ReadVint (drop HashSize data) in
        if vintSize = 0 then (0, 0, True) else (payloadLen, HashSize + vintSize, False))"

subsection \<open>FrameReader\<close>

record FrameReader =
  fr_buf :: bytes
  fr_readPos :: nat
  fr_writePos :: nat

definition NewFrameReader :: "nat \<Rightarrow> FrameReader" where
  "NewFrameReader initialCapacity = \<lparr>fr_buf = make_bytes initialCapacity, fr_readPos = 0, fr_writePos = 0\<rparr>"

definition fr_available :: "FrameReader \<Rightarrow> bytes" where
  "fr_available r = take (fr_writePos r - fr_readPos r) (drop (fr_readPos r) (fr_buf r))"

definition FrameReader_Write :: "bytes \<Rightarrow> FrameReader \<Rightarrow> FrameReader \<times> nat" where
  "FrameReader_Write data r =
     (let needed = fr_writePos r + length data;
          r = (if length (fr_buf r) < needed then
                 let newSize = length (fr_buf r) * 2;
                     newSize = (if newSize < needed then needed else newSize)
                 in r\<lparr>fr_buf := copy_at 0 (fr_available r) (make_bytes newSize),
                      fr_writePos := fr_writePos r - fr_readPos r, fr_readPos := 0\<rparr>
               else r);
          n = min (length data) (length (fr_buf r) - fr_writePos r)
      in (r\<lparr>fr_buf := copy_at (fr_writePos r) data (fr_buf r), fr_writePos := fr_writePos r + n\<rparr>, n))"

text \<open>
  The defensive copy of the payload before compaction is invisible here: the result holds the bytes
  of the payload as a value, which is what the copy preserves in the source.
\<close>

definition FrameReader_ReadFrame :: "hash_fun \<Rightarrow> FrameReader \<Rightarrow> (FrameReader \<times> UnpackFrameResult) outcome" where
  "FrameReader_ReadFrame sum32 r =
     bind_outcome (UnpackFrame sum32 (fr_available r)) (\<lambda>result.
     if ufr_Error result = None \<and> 0 < Consumed result then
       let r = r\<lparr>fr_readPos := fr_readPos r + nat (Consumed result)\<rparr>;
           r = (if length (fr_buf r) div 2 < fr_readPos r
                then r\<lparr>fr_buf := copy_at 0 (fr_available r) (fr_buf r), fr_readPos := 0,
                       fr_writePos := fr_writePos r - fr_readPos r\<rparr>
                else r)
       in Returns (r, result)
     else Returns (r, result))"

definition FrameReader_Available :: "FrameReader \<Rightarrow> nat" where
  "FrameReader_Available r = fr_writePos r - fr_readPos r"

definition FrameReader_Reset :: "FrameReader \<Rightarrow> FrameReader" where
  "FrameReader_Reset r = r\<lparr>fr_readPos := 0, fr_writePos := 0\<rparr>"

subsection \<open>What a frame is\<close>

definition frame_of :: "hash_fun \<Rightarrow> bytes \<Rightarrow> bytes" where
  "frame_of sum32 p = PutUint32 (sum32 p) @ vint_bytes (of_nat (length p)) @ p"

text \<open>A payload a Go slice can hold together with its header.\<close>

definition packable :: "bytes \<Rightarrow> bool" where
  "packable p \<longleftrightarrow> length p + MaxFrameHeaderSize < 2 ^ 63"

lemma length_PutUint32 [simp]: "length (PutUint32 v) = 4"
  by (simp add: PutUint32_def)

lemma Uint32_PutUint32: "Uint32 (PutUint32 v @ rest) = Returns v" for v :: uint32
proof -
  have "(ucast (ucast v :: byte) :: uint32) OR push_bit 8 (ucast (ucast (drop_bit 8 v) :: byte))
     OR push_bit 16 (ucast (ucast (drop_bit 16 v) :: byte))
     OR push_bit 24 (ucast (ucast (drop_bit 24 v) :: byte)) = v"
  proof (rule bit_eqI)
    fix n assume "possible_bit TYPE(32 word) n"
    then have n: "n < 32" by simp
    then consider "n < 8" | "8 \<le> n" "n < 16" | "16 \<le> n" "n < 24" | "24 \<le> n" by linarith
    then show "bit ((ucast (ucast v :: byte) :: uint32) OR push_bit 8 (ucast (ucast (drop_bit 8 v) :: byte))
       OR push_bit 16 (ucast (ucast (drop_bit 16 v) :: byte))
       OR push_bit 24 (ucast (ucast (drop_bit 24 v) :: byte))) n = bit v n"
      using n by cases (auto simp: bit_simps)
  qed
  then show ?thesis by (simp add: Uint32_def PutUint32_def or.assoc)
qed

lemma wrap64_add_ge:
  assumes "0 \<le> p" and "- (2 ^ 63) \<le> m" and "m < 2 ^ 63" and "p \<le> wrap64 (p + m)"
  shows "0 \<le> m" and "p + m < 2 ^ 63" and "wrap64 (p + m) = p + m"
proof -
  define N where "N = (2 :: int) ^ 63"
  have N: "0 < N" "(2 :: int) ^ 64 = 2 * N" by (simp_all add: N_def)
  have w: "wrap64 (p + m) = (p + m + N) mod (2 * N) - N" by (simp add: wrap64_def N_def)
  have m: "- N \<le> m" "m < N" using assms(2,3) by (simp_all only: N_def)
  have "(p + m + N) mod (2 * N) < 2 * N" using N by (intro pos_mod_bound) simp
  then have p: "p < N" using assms(4) w by linarith
  have no: "p + m < N"
  proof (rule ccontr)
    assume "\<not> p + m < N"
    then have "(p + m + N - 2 * N) mod (2 * N) = p + m - N" using p m by (simp add: mod_pos_pos_trivial)
    then have "(p + m + N) mod (2 * N) = p + m - N" by (simp only: minus_mod_self2)
    then show False using assms(4) w m by linarith
  qed
  have eq: "wrap64 (p + m) = p + m"
    using no assms(1) m unfolding w by (simp add: mod_pos_pos_trivial)
  from eq show "wrap64 (p + m) = p + m" .
  show "0 \<le> m" using eq assms(4) by simp
  show "p + m < 2 ^ 63" using no by (simp only: N_def)
qed

lemma int_of_uint64_range: "- (2 ^ 63) \<le> int_of_uint64 w \<and> int_of_uint64 w < 2 ^ 63"
  using sint_greater_eq [of w] sint_less [of w] by (simp add: int_of_uint64_def)

lemma int_of_uint64_nonneg: "0 \<le> int_of_uint64 w \<Longrightarrow> int_of_uint64 w = int (unat w)"
proof -
  assume "0 \<le> int_of_uint64 w"
  then have "\<not> bit (uint w) 63"
    by (simp add: int_of_uint64_def sint_uint)
  then have even: "even (uint w div 2 ^ 63)" by (simp add: bit_iff_odd)
  have lt: "uint w < 2 * 2 ^ 63" using uint_bounded [of w] by simp
  have "\<not> 2 ^ 63 \<le> uint w"
  proof
    assume "2 ^ 63 \<le> uint w"
    with lt have "uint w div 2 ^ 63 = 1" by (intro int_div_pos_eq [of _ _ 1 "uint w - 2 ^ 63"]) simp_all
    with even show False by simp
  qed
  then have "int (unat w) < int (2 ^ 63)" by simp
  then have "unat w < 2 ^ 63" by (simp only: of_nat_less_iff)
  then show ?thesis by (rule int_of_uint64_small)
qed

text \<open>An announced length and header size: the frame size the code computes from them.\<close>

definition announced :: "nat \<Rightarrow> uint64 \<Rightarrow> int" where
  "announced vintSize len = wrap64 (int HashSize + int vintSize + int_of_uint64 len)"

lemma packable_length:
  assumes "packable p"
  shows "unat (of_nat (length p) :: uint64) = length p"
    and "int_of_uint64 (of_nat (length p)) = int (length p)"
    and "k \<le> MaxFrameHeaderSize \<Longrightarrow> wrap64 (int k + int (length p)) = int k + int (length p)"
proof -
  have l: "length p + 14 < 2 ^ 63" using assms by (simp add: packable_def MaxFrameHeaderSize_def HashSize_def MaxVintSize_def)
  then have "length p < 2 ^ LENGTH(64)" by simp
  then show u: "unat (of_nat (length p) :: uint64) = length p" by (simp add: unsigned_of_nat take_bit_nat_eq_self)
  show "int_of_uint64 (of_nat (length p)) = int (length p)"
    using int_of_uint64_small [of "of_nat (length p)"] u l by simp
  show "wrap64 (int k + int (length p)) = int k + int (length p)" if "k \<le> MaxFrameHeaderSize"
  proof -
    have "k + length p < 2 ^ 63"
      using that l by (simp add: MaxFrameHeaderSize_def HashSize_def MaxVintSize_def)
    then have "int (k + length p) < int (2 ^ 63)" by (simp only: of_nat_less_iff)
    then show ?thesis by (intro wrap64_id) simp_all
  qed
qed

lemma header_size: "HashSize + VintEncodedSize v \<le> MaxFrameHeaderSize"
  using VintEncodedSize_bounds [of v] by (simp add: MaxFrameHeaderSize_def MaxVintSize_def)

lemma length_frame_of:
  "length (frame_of sum32 p) = HashSize + VintEncodedSize (of_nat (length p)) + length p"
  by (simp add: frame_of_def HashSize_def VintEncodedSize_vint_bytes)

lemma announced_frame:
  assumes "packable p"
  shows "announced (VintEncodedSize (of_nat (length p))) (of_nat (length p)) = int (length (frame_of sum32 p))"
  using packable_length(2) [OF assms] packable_length(3) [OF assms header_size]
  by (simp add: announced_def length_frame_of)

lemma PackFrame_frame:
  assumes "length (frame_of sum32 p) \<le> length buf"
  shows "PackFrame sum32 p buf = (length (frame_of sum32 p), frame_of sum32 p @ drop (length (frame_of sum32 p)) buf)"
proof -
  let ?v = "of_nat (length p) :: uint64" let ?h = "PutUint32 (sum32 p)" let ?n = "VintEncodedSize ?v"
  have le: "4 + ?n + length p \<le> length buf" using assms by (simp add: length_frame_of HashSize_def)
  define b1 where "b1 = copy_at 0 ?h buf"
  have b1: "b1 = ?h @ drop 4 buf"
    using le by (simp add: b1_def copy_at_fits)
  have w: "WriteVint ?v (take ?n (drop 4 b1)) = (?n, vint_bytes ?v)"
    using le by (subst WriteVint_fits) (simp_all add: b1 VintEncodedSize_vint_bytes)
  have b2: "copy_at 4 (vint_bytes ?v) b1 = ?h @ vint_bytes ?v @ drop (4 + ?n) buf"
    using le by (simp add: b1 copy_at_fits VintEncodedSize_vint_bytes add.commute)
  have "copy_at (4 + ?n) p (?h @ vint_bytes ?v @ drop (4 + ?n) buf) = ?h @ vint_bytes ?v @ p @ drop (4 + ?n + length p) buf"
    using le by (simp add: copy_at_fits VintEncodedSize_vint_bytes add.commute add.left_commute)
  with w b2 le show ?thesis
    by (simp add: add.assoc PackFrame_def HashSize_def CalculateHash_def b1_def [symmetric] Let_def frame_of_def
        VintEncodedSize_vint_bytes [symmetric])
qed

lemma PackFrame_too_small: "length buf < length (frame_of sum32 p) \<Longrightarrow> PackFrame sum32 p buf = (0, buf)"
  by (simp add: PackFrame_def length_frame_of Let_def)

subsection \<open>Unpacking\<close>

definition incomplete_result :: UnpackFrameResult where
  "incomplete_result = \<lparr>Payload = [], Consumed = 0, ufr_Error = Some ErrIncompleteFrame,
     ufr_ErrorCode = EN_ATBUS_ERR_NO_DATA\<rparr>"

definition frame_result :: "hash_fun \<Rightarrow> bytes \<Rightarrow> UnpackFrameResult" where
  "frame_result sum32 p = \<lparr>Payload = p, Consumed = int (length (frame_of sum32 p)), ufr_Error = None,
     ufr_ErrorCode = EN_ATBUS_ERR_SUCCESS\<rparr>"

text \<open>Unpacking by the outcome of the length field.\<close>

lemma UnpackFrame_cases:
  assumes "5 \<le> length data" and "ReadVint (drop 4 data) = (len, n)"
  shows "n = 0 \<Longrightarrow> UnpackFrame sum32 data = Returns incomplete_result"
    and "n \<noteq> 0 \<Longrightarrow> int (length data) < announced n len \<Longrightarrow> UnpackFrame sum32 data = Returns incomplete_result"
    and "n \<noteq> 0 \<Longrightarrow> announced n len \<le> int (length data) \<Longrightarrow>
      UnpackFrame sum32 data = bind_outcome (Uint32 (take 4 data)) (\<lambda>expectedHash.
        bind_outcome (slice data (int (4 + n)) (wrap64 (int (4 + n) + int_of_uint64 len))) (\<lambda>payload.
        Returns (if sum32 payload \<noteq> expectedHash
          then \<lparr>Payload = payload, Consumed = announced n len, ufr_Error = Some ErrInvalidFrameHash,
                ufr_ErrorCode = EN_ATBUS_ERR_BAD_DATA\<rparr>
          else \<lparr>Payload = payload, Consumed = announced n len, ufr_Error = None,
                ufr_ErrorCode = EN_ATBUS_ERR_SUCCESS\<rparr>)))"
proof -
  have u: "\<exists>h. Uint32 (take 4 data) = Returns h" using assms(1) by (simp add: Uint32_def)
  show "n = 0 \<Longrightarrow> UnpackFrame sum32 data = Returns incomplete_result"
    and "n \<noteq> 0 \<Longrightarrow> int (length data) < announced n len \<Longrightarrow> UnpackFrame sum32 data = Returns incomplete_result"
    using assms u by (auto simp: UnpackFrame_def HashSize_def incomplete_result_def announced_def Let_def)
  show "UnpackFrame sum32 data = bind_outcome (Uint32 (take 4 data)) (\<lambda>expectedHash.
        bind_outcome (slice data (int (4 + n)) (wrap64 (int (4 + n) + int_of_uint64 len))) (\<lambda>payload.
        Returns (if sum32 payload \<noteq> expectedHash
          then \<lparr>Payload = payload, Consumed = announced n len, ufr_Error = Some ErrInvalidFrameHash,
                ufr_ErrorCode = EN_ATBUS_ERR_BAD_DATA\<rparr>
          else \<lparr>Payload = payload, Consumed = announced n len, ufr_Error = None,
                ufr_ErrorCode = EN_ATBUS_ERR_SUCCESS\<rparr>)))"
    if "n \<noteq> 0" "announced n len \<le> int (length data)"
    using assms u that
    by (cases "slice data (4 + int n) (wrap64 (4 + int n + int_of_uint64 len))")
      (auto simp: UnpackFrame_def HashSize_def announced_def CalculateHash_def Let_def)
qed

lemma frame_of_parts:
  "take 4 (frame_of sum32 p @ rest) = PutUint32 (sum32 p)"
  "drop 4 (frame_of sum32 p @ rest) = vint_bytes (of_nat (length p)) @ p @ rest"
  by (simp_all add: frame_of_def)

lemma vint_bytes_nonempty: "length (vint_bytes v) \<noteq> 0"
  by (simp add: vint_bytes_def)

lemma frame_slice:
  assumes "packable p"
  shows "slice (frame_of sum32 p @ rest) (int (4 + VintEncodedSize (of_nat (length p))))
    (wrap64 (int (4 + VintEncodedSize (of_nat (length p))) + int_of_uint64 (of_nat (length p)))) = Returns p"
proof -
  let ?n = "VintEncodedSize (of_nat (length p) :: uint64)"
  have "wrap64 (int (4 + ?n) + int_of_uint64 (of_nat (length p))) = int (4 + ?n + length p)"
    using packable_length(2) [OF assms] packable_length(3) [OF assms header_size [of "of_nat (length p)"]]
    by (simp add: HashSize_def)
  moreover have "frame_of sum32 p @ rest = (PutUint32 (sum32 p) @ vint_bytes (of_nat (length p))) @ p @ rest"
    by (simp add: frame_of_def)
  ultimately show ?thesis
    using slice_nat [of "4 + ?n" "4 + ?n + length p" "frame_of sum32 p @ rest"]
    by (simp only:) (simp add: VintEncodedSize_vint_bytes)
qed

lemma UnpackFrame_frame:
  assumes "packable p"
  shows "UnpackFrame sum32 (frame_of sum32 p @ rest) = Returns (frame_result sum32 p)"
proof -
  let ?data = "frame_of sum32 p @ rest" let ?v = "of_nat (length p) :: uint64"
  have len: "5 \<le> length ?data"
    using VintEncodedSize_bounds [of ?v] by (simp add: length_frame_of HashSize_def)
  have rd: "ReadVint (drop 4 ?data) = (?v, VintEncodedSize ?v)"
    by (simp only: frame_of_parts ReadVint_vint_bytes VintEncodedSize_vint_bytes)
  have "announced (VintEncodedSize ?v) ?v \<le> int (length ?data)"
    using announced_frame [OF assms, of sum32] by simp
  moreover have "VintEncodedSize ?v \<noteq> 0" using VintEncodedSize_bounds [of ?v] by simp
  ultimately show ?thesis
    using UnpackFrame_cases(3) [OF len rd, of sum32] frame_slice [OF assms, of sum32 rest]
      announced_frame [OF assms, of sum32] Uint32_PutUint32 [of "sum32 p" "[]"]
    by (simp only: frame_of_parts frame_result_def append_Nil2 bind_outcome.simps simp_thms if_False)
qed

lemma vint_high_continues: "b \<in> set (vint_high v) \<Longrightarrow> continues b"
  by (induction v rule: vint_high.induct)
    (auto simp: vint_high.simps [of "_ :: uint64"] vint_bits split: if_splits)

lemma ReadVint_frame_prefix:
  assumes "vint_bytes v @ p = pre @ suf" and "length pre < length (vint_bytes v)"
  shows "ReadVint pre = (0, 0)"
proof (rule ReadVint_truncated)
  have "take (length pre) (vint_bytes v) = pre"
    using arg_cong [OF assms(1), of "take (length pre)"] assms(2) by simp
  then have "take (length pre) (vint_high (drop_bit 7 v)) = pre"
    using assms(2) by (simp add: vint_bytes_def)
  then have "set pre \<subseteq> set (vint_high (drop_bit 7 v))"
    by (metis set_take_subset)
  then show "\<forall>b \<in> set pre. continues b" using vint_high_continues by blast
qed

lemma UnpackFrame_prefix:
  assumes "packable p" and "frame_of sum32 p = pre @ suf" and "suf \<noteq> []"
  shows "UnpackFrame sum32 pre = Returns incomplete_result"
proof (cases "length pre < 5")
  case True
  then show ?thesis by (simp add: UnpackFrame_def HashSize_def incomplete_result_def Let_def)
next
  case False
  then have len: "5 \<le> length pre" by simp
  let ?v = "of_nat (length p) :: uint64"
  have eq: "vint_bytes ?v @ p = drop 4 pre @ suf"
    using arg_cong [OF assms(2), of "drop 4"] len by (simp add: frame_of_def)
  show ?thesis
  proof (cases "length (drop 4 pre) < length (vint_bytes ?v)")
    case True
    from ReadVint_frame_prefix [OF eq True] show ?thesis by (rule UnpackFrame_cases(1) [OF len]) simp
  next
    case False
    then have "vint_bytes ?v = take (length (vint_bytes ?v)) (drop 4 pre)"
      using eq by (simp add: append_eq_append_conv_if not_less)
    then have "drop 4 pre = vint_bytes ?v @ drop (length (vint_bytes ?v)) (drop 4 pre)"
      by (metis append_take_drop_id)
    then have rd: "ReadVint (drop 4 pre) = (?v, VintEncodedSize ?v)"
      by (metis ReadVint_vint_bytes VintEncodedSize_vint_bytes)
    have "length pre < length (frame_of sum32 p)" using assms(2,3) by simp
    then have "int (length pre) < announced (VintEncodedSize ?v) ?v"
      using announced_frame [OF assms(1), of sum32] by simp
    moreover have "VintEncodedSize ?v \<noteq> 0" using VintEncodedSize_bounds [of ?v] by simp
    ultimately show ?thesis by (intro UnpackFrame_cases(2) [OF len rd])
  qed
qed

text \<open>C28: unpacking what \<open>PackFrame\<close> wrote, whatever bytes follow it, yields the payload and consumes exactly the
  frame; unpacking any shorter part of it reports incomplete data, never a payload or a panic. A
  buffer smaller than \<open>PackFrameSize\<close> is left alone.\<close>

theorem PackFrame_UnpackFrame_roundtrip:
  assumes "packable p"
  shows "PackFrameSize (of_nat (length p)) = int (length (frame_of sum32 p))
    \<and> (length buf < length (frame_of sum32 p) \<longrightarrow> PackFrame sum32 p buf = (0, buf))
    \<and> (length (frame_of sum32 p) \<le> length buf \<longrightarrow>
        (\<exists>n buf'. PackFrame sum32 p buf = (n, buf') \<and> n = length (frame_of sum32 p) \<and> drop n buf' = drop n buf
          \<and> UnpackFrame sum32 (take n buf' @ rest) = Returns (frame_result sum32 p)
          \<and> (\<forall>k<n. UnpackFrame sum32 (take k buf') = Returns incomplete_result)))"
proof (intro conjI impI)
  show "PackFrameSize (of_nat (length p)) = int (length (frame_of sum32 p))"
    using announced_frame [OF assms] by (simp add: PackFrameSize_def announced_def)
  show "PackFrame sum32 p buf = (0, buf)" if "length buf < length (frame_of sum32 p)"
    using that by (rule PackFrame_too_small)
  assume fits: "length (frame_of sum32 p) \<le> length buf"
  let ?f = "frame_of sum32 p"
  have prefix: "UnpackFrame sum32 (take k ?f) = Returns incomplete_result" if "k < length ?f" for k
    using UnpackFrame_prefix [OF assms, of sum32 "take k ?f" "drop k ?f"] that by simp
  show "\<exists>n buf'. PackFrame sum32 p buf = (n, buf') \<and> n = length ?f \<and> drop n buf' = drop n buf
      \<and> UnpackFrame sum32 (take n buf' @ rest) = Returns (frame_result sum32 p)
      \<and> (\<forall>k<n. UnpackFrame sum32 (take k buf') = Returns incomplete_result)"
    using PackFrame_frame [OF fits] UnpackFrame_frame [OF assms, of sum32 rest] prefix by simp
qed

theorem PackFrame_UnpackFrame_roundtrip_witness:
  "PackFrame (\<lambda>p. of_nat (length p)) [7, 8] [1, 1, 1, 1, 1, 1, 1, 9] = (7, [2, 0, 0, 0, 2, 7, 8, 9])
   \<and> UnpackFrame (\<lambda>p. of_nat (length p)) [2, 0, 0, 0, 2, 7, 8, 9] = Returns (frame_result (\<lambda>p. of_nat (length p)) [7, 8])"
proof -
  let ?h = "\<lambda>p :: bytes. of_nat (length p) :: uint32"
  have f: "frame_of ?h [7, 8] = [2, 0, 0, 0, 2, 7, 8]" by code_simp
  have p: "packable [7, 8]" by (simp add: packable_def MaxFrameHeaderSize_def HashSize_def MaxVintSize_def)
  from PackFrame_UnpackFrame_roundtrip [OF p, of ?h "[1, 1, 1, 1, 1, 1, 1, 9]" "[9]"]
  obtain buf' where b: "PackFrame ?h [7, 8] [1, 1, 1, 1, 1, 1, 1, 9] = (7, buf')" "drop 7 buf' = [9]"
    "UnpackFrame ?h (take 7 buf' @ [9]) = Returns (frame_result ?h [7, 8])"
    unfolding f by (auto simp: numeral_eq_Suc)
  have e: "PackFrame ?h [7, 8] [1, 1, 1, 1, 1, 1, 1, 9] = (7, [2, 0, 0, 0, 2, 7, 8, 9])" by code_simp
  with b have "buf' = [2, 0, 0, 0, 2, 7, 8, 9]" by simp
  with b(3) e show ?thesis by simp
qed

definition bad_length :: "nat \<Rightarrow> uint64 \<Rightarrow> bool" where
  "bad_length n len \<longleftrightarrow> int_of_uint64 len < 0 \<or> 2 ^ 63 \<le> 4 + int n + int_of_uint64 len"

lemma good_length:
  assumes "\<not> bad_length n len"
  shows "announced n len = int (4 + n + unat len)" and "wrap64 (int (4 + n) + int_of_uint64 len) = int (4 + n + unat len)"
proof -
  have m: "0 \<le> int_of_uint64 len" "4 + int n + int_of_uint64 len < 2 ^ 63"
    using assms by (simp_all only: bad_length_def) linarith+
  have u: "int_of_uint64 len = int (unat len)" using m(1) by (rule int_of_uint64_nonneg)
  have "wrap64 (4 + int n + int_of_uint64 len) = 4 + int n + int_of_uint64 len"
    by (rule wrap64_id) (use m in linarith)+
  then show "announced n len = int (4 + n + unat len)" and "wrap64 (int (4 + n) + int_of_uint64 len) = int (4 + n + unat len)"
    using u by (simp_all only: announced_def HashSize_def of_nat_add of_nat_numeral)
qed

lemma slice_good_length:
  assumes "\<not> bad_length n len" and "4 + n + unat len \<le> length data"
  shows "slice data (int (4 + n)) (wrap64 (int (4 + n) + int_of_uint64 len)) = Returns (take (unat len) (drop (4 + n) data))"
  unfolding good_length(2) [OF assms(1)]
  using slice_nat [of "4 + n" "4 + n + unat len" data] assms(2) by (simp only: diff_add_inverse le_add1)

lemma slice_bad_length:
  assumes "bad_length n len"
  shows "slice data (int p + int (4 + n)) (wrap64 (int p + int (4 + n) + int_of_uint64 len)) = Panics"
proof -
  let ?q = "int p + int (4 + n)"
  have "\<not> ?q \<le> wrap64 (?q + int_of_uint64 len)"
  proof
    assume "?q \<le> wrap64 (?q + int_of_uint64 len)"
    from wrap64_add_ge(1,2) [OF _ _ _ this] int_of_uint64_range [of len]
    have "0 \<le> int_of_uint64 len" "?q + int_of_uint64 len < 2 ^ 63" by linarith+
    with assms show False unfolding bad_length_def by linarith
  qed
  then show ?thesis by (simp only: slice_def simp_thms if_False)
qed

lemma unpack_reads:
  assumes "5 \<le> length data" and "ReadVint (drop 4 data) = (len, n)" and "n \<noteq> 0"
    and "announced n len \<le> int (length data)"
  shows "UnpackFrame sum32 data = Panics \<longleftrightarrow> bad_length n len"
    and "UnpackFrame sum32 data = Returns r \<Longrightarrow> ufr_Error r = None \<Longrightarrow>
        len = of_nat (length (Payload r)) \<and> Uint32 (take 4 data) = Returns (sum32 (Payload r))
        \<and> Consumed r = int (4 + n + length (Payload r)) \<and> 4 + n + length (Payload r) \<le> length data
        \<and> Payload r = take (length (Payload r)) (drop (4 + n) data)"
proof -
  obtain h where h: "Uint32 (take 4 data) = Returns h" using assms(1) by (simp add: Uint32_def)
  note u = UnpackFrame_cases(3) [OF assms, of sum32, unfolded h]
  consider "bad_length n len" | "\<not> bad_length n len" "4 + n + unat len \<le> length data"
      "announced n len = int (4 + n + unat len)"
    using good_length(1) [of n len] assms(4) by (cases "bad_length n len") simp_all
  then show "UnpackFrame sum32 data = Panics \<longleftrightarrow> bad_length n len"
    and "UnpackFrame sum32 data = Returns r \<Longrightarrow> ufr_Error r = None \<Longrightarrow>
        len = of_nat (length (Payload r)) \<and> Uint32 (take 4 data) = Returns (sum32 (Payload r))
        \<and> Consumed r = int (4 + n + length (Payload r)) \<and> 4 + n + length (Payload r) \<le> length data
        \<and> Payload r = take (length (Payload r)) (drop (4 + n) data)"
  proof (atomize (full), cases)
    case 1
    with u slice_bad_length [of n len data 0]
    show "(UnpackFrame sum32 data = Panics \<longleftrightarrow> bad_length n len) \<and> (UnpackFrame sum32 data = Returns r \<longrightarrow> ufr_Error r = None \<longrightarrow>
        len = of_nat (length (Payload r)) \<and> Uint32 (take 4 data) = Returns (sum32 (Payload r))
        \<and> Consumed r = int (4 + n + length (Payload r)) \<and> 4 + n + length (Payload r) \<le> length data
        \<and> Payload r = take (length (Payload r)) (drop (4 + n) data))" by simp
  next
    case 2
    with u slice_good_length [OF 2(1,2)] h
    show "(UnpackFrame sum32 data = Panics \<longleftrightarrow> bad_length n len) \<and> (UnpackFrame sum32 data = Returns r \<longrightarrow> ufr_Error r = None \<longrightarrow>
        len = of_nat (length (Payload r)) \<and> Uint32 (take 4 data) = Returns (sum32 (Payload r))
        \<and> Consumed r = int (4 + n + length (Payload r)) \<and> 4 + n + length (Payload r) \<le> length data
        \<and> Payload r = take (length (Payload r)) (drop (4 + n) data))" by auto
  qed
qed

text \<open>C38: exactly which inputs make \<open>UnpackFrame\<close> panic: a complete header whose length field, converted to a signed
  64-bit integer, is negative or overflows the frame size. For every other input it returns, and
  then a payload it delivers is preceded by its own hash and its own length.\<close>

theorem UnpackFrame_panics_iff:
  "(UnpackFrame sum32 data = Panics \<longleftrightarrow>
     5 \<le> length data \<and> (\<exists>len n. ReadVint (drop 4 data) = (len, n) \<and> n \<noteq> 0
       \<and> announced n len \<le> int (length data) \<and> bad_length n len))
   \<and> (\<forall>r. UnpackFrame sum32 data = Returns r \<and> ufr_Error r = None \<longrightarrow>
        (\<exists>n. ReadVint (drop 4 data) = (of_nat (length (Payload r)), n) \<and> n \<noteq> 0
          \<and> Uint32 (take 4 data) = Returns (sum32 (Payload r))
          \<and> Consumed r = int (4 + n + length (Payload r)) \<and> 4 + n + length (Payload r) \<le> length data
          \<and> Payload r = take (length (Payload r)) (drop (4 + n) data)))"
proof (cases "5 \<le> length data")
  case False
  then have "UnpackFrame sum32 data = Returns incomplete_result"
    by (simp add: UnpackFrame_def HashSize_def incomplete_result_def Let_def)
  with False show ?thesis by (simp add: incomplete_result_def)
next
  case True
  obtain len n where rd: "ReadVint (drop 4 data) = (len, n)" by fastforce
  note unpack = UnpackFrame_cases [OF True rd, of sum32]
  show ?thesis
  proof (cases "n \<noteq> 0 \<and> announced n len \<le> int (length data)")
    case False
    then have "UnpackFrame sum32 data = Returns incomplete_result" using unpack(1,2) by linarith
    with False rd show ?thesis by (auto simp: incomplete_result_def)
  next
    case big: True
    show ?thesis
    proof (intro conjI allI impI)
      show "UnpackFrame sum32 data = Panics \<longleftrightarrow> 5 \<le> length data \<and> (\<exists>len n. ReadVint (drop 4 data) = (len, n) \<and> n \<noteq> 0
          \<and> announced n len \<le> int (length data) \<and> bad_length n len)"
        using unpack_reads(1) [OF True rd] big rd True by simp
      fix r assume "UnpackFrame sum32 data = Returns r \<and> ufr_Error r = None"
      then have *: "len = of_nat (length (Payload r)) \<and> Uint32 (take 4 data) = Returns (sum32 (Payload r))
          \<and> Consumed r = int (4 + n + length (Payload r)) \<and> 4 + n + length (Payload r) \<le> length data
          \<and> Payload r = take (length (Payload r)) (drop (4 + n) data)"
        using unpack_reads(2) [OF True rd, of sum32 r] big by blast
      with rd have "ReadVint (drop 4 data) = (of_nat (length (Payload r)), n)" by (simp only:)
      with * big show "\<exists>n. ReadVint (drop 4 data) = (of_nat (length (Payload r)), n) \<and> n \<noteq> 0
          \<and> Uint32 (take 4 data) = Returns (sum32 (Payload r))
          \<and> Consumed r = int (4 + n + length (Payload r)) \<and> 4 + n + length (Payload r) \<le> length data
          \<and> Payload r = take (length (Payload r)) (drop (4 + n) data)" by blast
    qed
  qed
qed

text \<open>A 14-byte input announcing \<open>2 ^ 63\<close> payload bytes is enough.\<close>

theorem UnpackFrame_panics_iff_witness:
  "UnpackFrame (\<lambda>_. 0) ([1, 2, 3, 4, 0x81] @ replicate 8 0x80 @ [0]) = Panics"
proof -
  let ?d = "[1, 2, 3, 4, 0x81] @ replicate 8 0x80 @ [0 :: byte]"
  have rd: "ReadVint (drop 4 ?d) = (0x8000000000000000, 10)" by code_simp
  have "int_of_uint64 0x8000000000000000 < 0" "announced 10 0x8000000000000000 \<le> int (length ?d)" by code_simp+
  with rd have "5 \<le> length ?d \<and> (\<exists>len n. ReadVint (drop 4 ?d) = (len, n) \<and> n \<noteq> 0
       \<and> announced n len \<le> int (length ?d) \<and> bad_length n len)"
    by (auto simp: bad_length_def)
  with UnpackFrame_panics_iff [of "\<lambda>_. 0" ?d] show ?thesis by blast
qed

subsection \<open>The buffering reader\<close>

definition fr_wf :: "FrameReader \<Rightarrow> bool" where
  "fr_wf r \<longleftrightarrow> fr_readPos r \<le> fr_writePos r \<and> fr_writePos r \<le> length (fr_buf r)"

lemma fr_available_length: "fr_wf r \<Longrightarrow> length (fr_available r) = FrameReader_Available r"
  by (auto simp: fr_wf_def fr_available_def FrameReader_Available_def min_def)

lemma FrameReader_Write_appends:
  assumes "fr_wf r"
  shows "\<exists>r'. FrameReader_Write data r = (r', length data) \<and> fr_wf r' \<and> fr_available r' = fr_available r @ data"
proof -
  let ?n = "length (fr_available r)"
  have n: "?n = fr_writePos r - fr_readPos r"
    using fr_available_length [OF assms] by (simp add: FrameReader_Available_def)
  have put: "take (w + length data - k) (drop k (copy_at w data buf)) = take (w - k) (drop k buf) @ data"
    if "k \<le> w" "w + length data \<le> length buf" for k w and buf :: bytes
    using that by (simp add: copy_at_fits take_drop)
  show ?thesis
  proof (cases "length (fr_buf r) < fr_writePos r + length data")
    case False
    then show ?thesis
      using assms put [of "fr_readPos r" "fr_writePos r" "fr_buf r"]
      by (auto simp: FrameReader_Write_def fr_wf_def fr_available_def Let_def min_def)
  next
    case True
    let ?size = "max (length (fr_buf r) * 2) (fr_writePos r + length data)"
    let ?buf = "copy_at 0 (fr_available r) (make_bytes ?size)"
    have size: "?n + length data \<le> ?size" using n by simp
    then have cp: "take ?n ?buf = fr_available r" by (simp add: copy_at_fits)
    have "FrameReader_Write data r =
        (r\<lparr>fr_buf := copy_at ?n data ?buf, fr_readPos := 0, fr_writePos := ?n + length data\<rparr>, length data)"
      using True size n by (simp add: FrameReader_Write_def Let_def max_def min_def) arith
    then show ?thesis
      using size cp put [of 0 ?n ?buf] by (simp add: fr_wf_def fr_available_def)
  qed
qed

lemma FrameReader_ReadFrame_frame:
  assumes "fr_wf r" and "packable p" and "fr_available r = frame_of sum32 p @ rest"
  shows "\<exists>r'. FrameReader_ReadFrame sum32 r = Returns (r', frame_result sum32 p) \<and> fr_wf r' \<and> fr_available r' = rest"
proof -
  let ?n = "length (frame_of sum32 p)"
  let ?r = "r\<lparr>fr_readPos := fr_readPos r + ?n\<rparr>"
  have "length (fr_available r) = ?n + length rest" using assms(3) by simp
  then have le: "fr_readPos r + ?n \<le> fr_writePos r"
    using fr_available_length [OF assms(1)] assms(1) unfolding FrameReader_Available_def fr_wf_def by linarith
  have av: "fr_available ?r = rest"
    using arg_cong [OF assms(3), of "drop ?n"] assms(1) by (simp add: fr_available_def drop_take add.commute)
  have wf: "fr_wf ?r" using assms(1) le by (simp add: fr_wf_def)
  have "0 < ?n" using VintEncodedSize_bounds by (simp add: length_frame_of HashSize_def)
  then have "FrameReader_ReadFrame sum32 r = Returns
      (if length (fr_buf r) div 2 < fr_readPos ?r
       then ?r\<lparr>fr_buf := copy_at 0 rest (fr_buf r), fr_readPos := 0, fr_writePos := fr_writePos r - fr_readPos ?r\<rparr>
       else ?r, frame_result sum32 p)"
    using assms(3) UnpackFrame_frame [OF assms(2), of sum32 rest] av
    by (simp add: FrameReader_ReadFrame_def frame_result_def Let_def)
  moreover have "length rest = fr_writePos r - fr_readPos ?r"
    using arg_cong [OF av, of length] fr_available_length [OF wf] by (simp add: FrameReader_Available_def)
  ultimately show ?thesis
    using av wf by (auto simp: fr_wf_def fr_available_def copy_at_fits)
qed

text \<open>A client that writes chunks and reads every complete frame after each of them.\<close>

fun read_frames :: "hash_fun \<Rightarrow> nat \<Rightarrow> FrameReader \<Rightarrow> (FrameReader \<times> bytes list) outcome" where
  "read_frames sum32 0 r = Returns (r, [])"
| "read_frames sum32 (Suc fuel) r =
     bind_outcome (FrameReader_ReadFrame sum32 r) (\<lambda>(r', result).
     if ufr_Error result = None
     then map_outcome_val (\<lambda>(r'', ps). (r'', Payload result # ps)) (read_frames sum32 fuel r')
     else Returns (r', []))"

lemma FrameReader_ReadFrame_incomplete:
  "UnpackFrame sum32 (fr_available r) = Returns incomplete_result \<Longrightarrow>
   FrameReader_ReadFrame sum32 r = Returns (r, incomplete_result)"
  by (simp add: FrameReader_ReadFrame_def incomplete_result_def)

lemma frame_nonempty: "frame_of sum32 p \<noteq> []"
  by (simp add: frame_of_def PutUint32_def)

lemma UnpackFrame_nil: "UnpackFrame sum32 [] = Returns incomplete_result"
  by (simp add: UnpackFrame_def incomplete_result_def Let_def)

lemma read_frames_stream:
  assumes "\<forall>p \<in> set ps. packable p" and "fr_wf r" and "fr_available r @ later = concat (map (frame_of sum32) ps)"
    and "length (fr_available r) < fuel"
  shows "\<exists>r' done todo. read_frames sum32 fuel r = Returns (r', done) \<and> fr_wf r' \<and> ps = done @ todo
    \<and> fr_available r' @ later = concat (map (frame_of sum32) todo)
    \<and> (todo = [] \<or> length (fr_available r') < length (frame_of sum32 (hd todo)))"
  using assms
proof (induction fuel arbitrary: r ps)
  case (Suc fuel)
  show ?case
  proof (cases ps)
    case Nil
    then have "fr_available r = []" using Suc.prems(3) by simp
    then show ?thesis
      using Nil Suc.prems FrameReader_ReadFrame_incomplete [of sum32 r] by (simp add: UnpackFrame_nil incomplete_result_def)
  next
    case (Cons p qs)
    then have p: "packable p" and eq: "fr_available r @ later = frame_of sum32 p @ concat (map (frame_of sum32) qs)"
      using Suc.prems by simp_all
    show ?thesis
    proof (cases "length (frame_of sum32 p) \<le> length (fr_available r)")
      case True
      then obtain rest where rest: "fr_available r = frame_of sum32 p @ rest"
        using eq by (metis append_eq_append_conv_if append_take_drop_id)
      obtain r' where r': "FrameReader_ReadFrame sum32 r = Returns (r', frame_result sum32 p)" "fr_wf r'" "fr_available r' = rest"
        using FrameReader_ReadFrame_frame [OF Suc.prems(2) p rest] by blast
      have "fr_available r' @ later = concat (map (frame_of sum32) qs)" using eq rest r'(3) by simp
      moreover have "length (fr_available r') < fuel"
        using Suc.prems(4) rest r'(3) frame_nonempty [of sum32 p] by (cases "frame_of sum32 p") simp_all
      ultimately show ?thesis
        using Suc.IH [of qs r'] Suc.prems Cons r' by (fastforce simp: frame_result_def)
    next
      case False
      then obtain suf where suf: "frame_of sum32 p = fr_available r @ suf" "suf \<noteq> []"
        using eq by (metis append_Nil2 append_eq_append_conv_if append_take_drop_id linorder_le_cases order_refl)
      show ?thesis
        using False Cons Suc.prems FrameReader_ReadFrame_incomplete [OF UnpackFrame_prefix [OF p suf]]
        by (simp add: incomplete_result_def)
    qed
  qed
qed simp

fun FrameReader_feed :: "hash_fun \<Rightarrow> bytes list \<Rightarrow> FrameReader \<Rightarrow> (FrameReader \<times> bytes list) outcome" where
  "FrameReader_feed sum32 [] r = Returns (r, [])"
| "FrameReader_feed sum32 (c # cs) r =
     (let r = fst (FrameReader_Write c r) in
      bind_outcome (read_frames sum32 (FrameReader_Available r + 1) r) (\<lambda>(r', ps).
      map_outcome_val (\<lambda>(r'', qs). (r'', ps @ qs)) (FrameReader_feed sum32 cs r')))"

lemma FrameReader_feed_stream:
  assumes "\<forall>p \<in> set ps. packable p" and "fr_wf r"
    and "fr_available r @ concat cs = concat (map (frame_of sum32) ps)"
    and "ps = [] \<or> length (fr_available r) < length (frame_of sum32 (hd ps))"
  shows "\<exists>r'. FrameReader_feed sum32 cs r = Returns (r', ps) \<and> fr_wf r' \<and> fr_available r' = []"
  using assms
proof (induction cs arbitrary: r ps)
  case Nil
  then have "ps = []" by (cases ps) auto
  with Nil show ?case by simp
next
  case (Cons c cs)
  obtain w where w: "FrameReader_Write c r = (w, length c)" "fr_wf w" "fr_available w = fr_available r @ c"
    using FrameReader_Write_appends [OF Cons.prems(2), of c] by blast
  have "fr_available w @ concat cs = concat (map (frame_of sum32) ps)" using w(3) Cons.prems(3) by simp
  then obtain r' ps1 ps2 where r': "read_frames sum32 (FrameReader_Available w + 1) w = Returns (r', ps1)" "fr_wf r'"
    "ps = ps1 @ ps2" "fr_available r' @ concat cs = concat (map (frame_of sum32) ps2)"
    "ps2 = [] \<or> length (fr_available r') < length (frame_of sum32 (hd ps2))"
    using read_frames_stream [OF Cons.prems(1) w(2), of "concat cs" sum32 "FrameReader_Available w + 1"]
      fr_available_length [OF w(2)] by auto
  with Cons.IH [OF _ r'(2,4,5)] Cons.prems(1) w(1) show ?case by auto
qed

text \<open>A \<open>FrameReader\<close> that is fed the bytes of any number of frames, cut into chunks at arbitrary places, delivers
  exactly their payloads, in order, and ends with an empty buffer, whatever its initial capacity.\<close>

theorem FrameReader_delivers:
  assumes "\<forall>p \<in> set ps. packable p" and "concat cs = concat (map (frame_of sum32) ps)"
  shows "\<exists>r'. FrameReader_feed sum32 cs (NewFrameReader capacity) = Returns (r', ps) \<and> FrameReader_Available r' = 0"
proof -
  have "fr_wf (NewFrameReader capacity)" "fr_available (NewFrameReader capacity) = []"
    by (simp_all add: fr_wf_def NewFrameReader_def fr_available_def)
  then obtain r' where "FrameReader_feed sum32 cs (NewFrameReader capacity) = Returns (r', ps)" "fr_wf r'" "fr_available r' = []"
    using FrameReader_feed_stream [OF assms(1), of "NewFrameReader capacity" cs sum32] assms(2) frame_nonempty [of sum32 "hd ps"]
    by (auto simp: length_greater_0_conv)
  with fr_available_length [of r'] show ?thesis by simp
qed

theorem FrameReader_delivers_witness:
  "\<exists>r'. FrameReader_feed (\<lambda>p. of_nat (length p)) [[1, 0, 0], [0, 1, 7, 0, 0], [0, 0, 0]] (NewFrameReader 2) = Returns (r', [[7], []])
     \<and> FrameReader_Available r' = 0"
proof -
  let ?h = "\<lambda>p :: bytes. of_nat (length p) :: uint32"
  have f: "frame_of ?h [7] = [1, 0, 0, 0, 1, 7]" "frame_of ?h [] = [0, 0, 0, 0, 0]" by code_simp+
  have "packable [7]" "packable []" by (simp_all add: packable_def MaxFrameHeaderSize_def HashSize_def MaxVintSize_def)
  with FrameReader_delivers [of "[[7], []]" "[[1, 0, 0], [0, 1, 7, 0, 0], [0, 0, 0]]" ?h 2] f show ?thesis by simp
qed

end
