(* ===== verification/Io_Stream.thy ===== *)
theory Io_Stream
  imports Frame_Codec
begin

unbundle bit_operations_syntax

section \<open>The receiving side of a stream channel (channel/io\_stream/channel\_io\_stream.go)\<close>

text \<open>
  The two-phase reader of a connection: small frames are parsed out of a fixed head buffer, a frame
  that does not fit it is assembled in a buffer of its own. \<open>readLoop_feed\<close> is the body of
  \<open>readLoop\<close> for one chunk that the socket delivered. Callbacks are recorded in the order in which
  they are fired; the hash function is the parameter \<open>sum32\<close>. Allocation is assumed to succeed for
  every non-negative size.
\<close>

definition DataSmallSize :: nat where "DataSmallSize = 7168"
definition MessageMaxMergeSize :: nat where "MessageMaxMergeSize = 64 * 1024"
definition MergeBufferMaxSize :: nat where "MergeBufferMaxSize = MessageMaxMergeSize - 256"
definition DefaultReadBufferSize :: nat where "DefaultReadBufferSize = 64 * 1024"
definition DefaultWriteQueueSize :: nat where "DefaultWriteQueueSize = 1024"

text \<open>The configuration of a channel; durations are in nanoseconds.\<close>

record IoStreamConfigure =
  Keepalive :: int
  NoBlock :: bool
  NoDelay :: bool
  SendBufferStatic :: uint64
  ReceiveBufferStatic :: uint64
  SendBufferMaxSize :: uint64
  SendBufferLimitSize :: uint64
  ReceiveBufferMaxSize :: uint64
  ReceiveBufferLimitSize :: uint64
  Backlog :: int
  ConfirmTimeout :: int
  MaxReadNetEgainCount :: uint64
  MaxReadCheckBlockSizeFailedCount :: uint64
  MaxReadCheckHashFailedCount :: uint64
  OverwriteListenPath :: bool

definition zero_IoStreamConfigure :: IoStreamConfigure where
  "zero_IoStreamConfigure = \<lparr>Keepalive = 0, NoBlock = False, NoDelay = False, SendBufferStatic = 0, ReceiveBufferStatic = 0,
     SendBufferMaxSize = 0, SendBufferLimitSize = 0, ReceiveBufferMaxSize = 0, ReceiveBufferLimitSize = 0, Backlog = 0,
     ConfirmTimeout = 0, MaxReadNetEgainCount = 0, MaxReadCheckBlockSizeFailedCount = 0, MaxReadCheckHashFailedCount = 0,
     OverwriteListenPath = False\<rparr>"

definition SetDefaultIoStreamConfigure :: "IoStreamConfigure \<Rightarrow> IoStreamConfigure" where
  "SetDefaultIoStreamConfigure conf =
     conf\<lparr>Keepalive := 60 * 10 ^ 9, NoBlock := True, NoDelay := True,
       SendBufferStatic := 0, ReceiveBufferStatic := 0,
       SendBufferMaxSize := 8 * 1024 * 1024, SendBufferLimitSize := 2 * 1024 * 1024,
       ReceiveBufferMaxSize := 256 * 1024 * 1024, ReceiveBufferLimitSize := 2 * 1024 * 1024,
       Backlog := 256, ConfirmTimeout := 30 * 10 ^ 9,
       MaxReadNetEgainCount := 1000, MaxReadCheckBlockSizeFailedCount := 3, MaxReadCheckHashFailedCount := 3\<rparr>"

record readHeadBuffer =
  rh_buffer :: bytes
  rh_len :: nat

record readLargeFrameState =
  lf_buffer :: bytes
  lf_writePos :: int
  lf_msgLen :: int

text \<open>What a connection keeps for reading, with the channel's statistics and the delivered payloads.\<close>

record read_state =
  readHead :: readHeadBuffer
  readLargeFrame :: "readLargeFrameState option"
  readEgainCount :: uint64
  checkHashFailedCount :: uint64
  checkBlockSizeFailedCount :: uint64
  statisticReadNetEgainCount :: uint64
  statisticCheckHashFailedCount :: uint64
  statisticCheckBlockSizeFailedCount :: uint64
  received :: "bytes list"

definition new_read_state :: read_state where
  "new_read_state = \<lparr>readHead = \<lparr>rh_buffer = make_bytes DataSmallSize, rh_len = 0\<rparr>, readLargeFrame = None,
     readEgainCount = 0, checkHashFailedCount = 0, checkBlockSizeFailedCount = 0, statisticReadNetEgainCount = 0,
     statisticCheckHashFailedCount = 0, statisticCheckBlockSizeFailedCount = 0, received = []\<rparr>"

definition failHash :: "read_state \<Rightarrow> read_state" where
  "failHash s = s\<lparr>checkHashFailedCount := checkHashFailedCount s + 1,
     statisticCheckHashFailedCount := statisticCheckHashFailedCount s + 1\<rparr>"

definition failBlockSize :: "read_state \<Rightarrow> read_state" where
  "failBlockSize s = s\<lparr>checkBlockSizeFailedCount := checkBlockSizeFailedCount s + 1,
     statisticCheckBlockSizeFailedCount := statisticCheckBlockSizeFailedCount s + 1\<rparr>"

definition fireReceived :: "bytes \<Rightarrow> read_state \<Rightarrow> read_state" where
  "fireReceived payload s = s\<lparr>received := received s @ [payload]\<rparr>"

definition overReceiveLimit :: "IoStreamConfigure \<Rightarrow> uint64 \<Rightarrow> bool" where
  "overReceiveLimit conf msgLen \<longleftrightarrow> 0 < ReceiveBufferLimitSize conf \<and> ReceiveBufferLimitSize conf < msgLen"

text \<open>
  One complete frame in the head buffer: the hash and the size limit are checked, then the callback
  is fired. The result says whether the connection has to be closed; the loop itself goes on.
\<close>

definition dispatchHeadFrame ::
  "hash_fun \<Rightarrow> IoStreamConfigure \<Rightarrow> uint64 \<Rightarrow> uint32 \<Rightarrow> bytes \<Rightarrow> read_state \<Rightarrow> read_state \<times> bool" where
  "dispatchHeadFrame sum32 conf msgLen expectedHash payload s =
     (if CalculateHash sum32 payload \<noteq> expectedHash then
        let s = failHash s in (s, MaxReadCheckHashFailedCount conf < checkHashFailedCount s)
      else if overReceiveLimit conf msgLen then
        let s = failBlockSize s in (s, MaxReadCheckBlockSizeFailedCount conf < checkBlockSizeFailedCount s)
      else (fireReceived payload s, False))"

text \<open>
  The switch to the body phase: a buffer for the hash and the payload is allocated and what the head
  buffer holds of the frame is copied into it.
\<close>

definition startLargeFrame :: "bytes \<Rightarrow> nat \<Rightarrow> nat \<Rightarrow> nat \<Rightarrow> uint64 \<Rightarrow> read_state \<Rightarrow> read_state outcome" where
  "startLargeFrame buf buffStart buffLeftLen vintSize msgLen s =
     (let largeBufSize = wrap64 (int HashSize + int_of_uint64 msgLen) in
      if largeBufSize < 0 then Panics
      else
        let largeBuf = make_bytes (nat largeBufSize);
            remainingPayloadBytes = int buffLeftLen - int HashSize - int vintSize in
        bind_outcome (slice buf (int buffStart) (int (buffStart + HashSize))) (\<lambda>hash.
        let largeBuf = copy_at 0 hash largeBuf in
        bind_outcome (if 0 < remainingPayloadBytes
                      then map_outcome_val (\<lambda>rest. copy_at HashSize rest largeBuf)
                             (slice buf (int (buffStart + HashSize + vintSize)) (int (buffStart + buffLeftLen)))
                      else Returns largeBuf) (\<lambda>largeBuf.
        Returns (s\<lparr>readLargeFrame := Some \<lparr>lf_buffer = largeBuf, lf_writePos = int HashSize + remainingPayloadBytes,
                                           lf_msgLen = int_of_uint64 msgLen\<rparr>\<rparr>))))"

text \<open>
  The loop of \<open>processReadHeadFrames\<close>: it returns the state, whether to close the connection, and the
  part of the head buffer (start and length) that is left over.
\<close>

function (sequential) processReadHeadFrames_loop ::
  "hash_fun \<Rightarrow> IoStreamConfigure \<Rightarrow> bytes \<Rightarrow> nat \<Rightarrow> nat \<Rightarrow> read_state \<Rightarrow> bool
    \<Rightarrow> (read_state \<times> bool \<times> nat \<times> nat) outcome" where
  "processReadHeadFrames_loop sum32 conf buf buffStart buffLeftLen s isFree =
     (if buffLeftLen \<le> HashSize then Returns (s, isFree, buffStart, buffLeftLen)
      else
        case slice buf (int (buffStart + HashSize)) (int (buffStart + buffLeftLen)) of
          Panics \<Rightarrow> Panics
        | Returns head \<Rightarrow>
          (case ReadVint head of (msgLen, vintSize) \<Rightarrow>
           if vintSize = 0 then Returns (s, isFree, buffStart, buffLeftLen)
           else
             let totalFrameSize = announced vintSize msgLen in
             if totalFrameSize \<le> int buffLeftLen then
               (let payloadStart = int buffStart + int (HashSize + vintSize) in
                case slice buf payloadStart (wrap64 (payloadStart + int_of_uint64 msgLen)) of
                  Panics \<Rightarrow> Panics
                | Returns payload \<Rightarrow>
                  (case bind_outcome (slice buf (int buffStart) (int (buffStart + HashSize))) Uint32 of
                     Panics \<Rightarrow> Panics
                   | Returns expectedHash \<Rightarrow>
                     (case dispatchHeadFrame sum32 conf msgLen expectedHash payload s of (s', close) \<Rightarrow>
                      processReadHeadFrames_loop sum32 conf buf (buffStart + nat totalFrameSize)
                        (buffLeftLen - nat totalFrameSize) s' (isFree \<or> close))))
             else if totalFrameSize \<le> int DataSmallSize then Returns (s, isFree, buffStart, buffLeftLen)
             else if overReceiveLimit conf msgLen then Returns (failBlockSize s, True, buffStart, buffLeftLen)
             else map_outcome_val (\<lambda>s'. (s', isFree, buffStart + buffLeftLen, 0))
                    (startLargeFrame buf buffStart buffLeftLen vintSize msgLen s)))"
  by pat_completeness auto
termination
proof (relation "measure (\<lambda>(sum32, conf, buf, start, left, s, isFree). left)", goal_cases)
  case (2 sum32 conf buf start left s isFree head msgLen n total pstart payload h s' close)
  have "slice buf (int start + int (4 + n)) (wrap64 (int start + int (4 + n) + int_of_uint64 msgLen)) = Returns payload"
    using 2(7,8) by (simp only: HashSize_def)
  then have "\<not> bad_length n msgLen"
    using slice_bad_length [of n msgLen buf start] by auto
  then have "nat total = 4 + n + unat msgLen"
    using 2(5) good_length(1) [of n msgLen] by (simp only: nat_int simp_thms)
  with 2(1) show ?case by (simp add: HashSize_def)
qed simp

declare processReadHeadFrames_loop.simps [simp del]

definition processReadHeadFrames ::
  "hash_fun \<Rightarrow> IoStreamConfigure \<Rightarrow> read_state \<Rightarrow> (read_state \<times> bool) outcome" where
  "processReadHeadFrames sum32 conf s =
     (let buf = rh_buffer (readHead s) in
      bind_outcome (processReadHeadFrames_loop sum32 conf buf 0 (rh_len (readHead s)) s False)
        (\<lambda>(s, isFree, buffStart, buffLeftLen).
        bind_outcome (if 0 < buffStart \<and> 0 < buffLeftLen
                      then map_outcome_val (\<lambda>left. copy_at 0 left buf)
                             (slice buf (int buffStart) (int (buffStart + buffLeftLen)))
                      else Returns buf) (\<lambda>buf.
        Returns (s\<lparr>readHead := \<lparr>rh_buffer = buf, rh_len = buffLeftLen\<rparr>\<rparr>, isFree))))"

definition processCompleteLargeFrame ::
  "hash_fun \<Rightarrow> IoStreamConfigure \<Rightarrow> read_state \<Rightarrow> (read_state \<times> bool) outcome" where
  "processCompleteLargeFrame sum32 conf s =
     (case readLargeFrame s of
        None \<Rightarrow> Returns (s, False)
      | Some lf \<Rightarrow>
          bind_outcome (slice (lf_buffer lf) (int HashSize) (int HashSize + lf_msgLen lf)) (\<lambda>payload.
          bind_outcome (bind_outcome (slice (lf_buffer lf) 0 (int HashSize)) Uint32) (\<lambda>expectedHash.
          if CalculateHash sum32 payload \<noteq> expectedHash then
            let s = failHash s in Returns (s, MaxReadCheckHashFailedCount conf < checkHashFailedCount s)
          else if overReceiveLimit conf (of_int (lf_msgLen lf)) then
            let s = failBlockSize s in
            Returns (s, MaxReadCheckBlockSizeFailedCount conf < checkBlockSizeFailedCount s)
          else Returns (fireReceived payload s, False))))"

text \<open>
  The loop of \<open>readLoop\<close> over one chunk. The result is the state and whether the connection is to be
  closed (\<open>isFree\<close>). An iteration consumes at least one byte or leaves the body phase.
\<close>

definition feedLargeFrame ::
  "hash_fun \<Rightarrow> IoStreamConfigure \<Rightarrow> readLargeFrameState \<Rightarrow> bytes \<Rightarrow> read_state \<Rightarrow> (read_state \<times> bool \<times> bytes) outcome" where
  "feedLargeFrame sum32 conf lf incoming s =
     (let remaining = int HashSize + lf_msgLen lf - lf_writePos lf;
          copyLen = (if remaining < int (length incoming) then remaining else int (length incoming)) in
      bind_outcome (slice incoming 0 copyLen) (\<lambda>piece.
      bind_outcome (slice (lf_buffer lf) (lf_writePos lf) (int (length (lf_buffer lf)))) (\<lambda>_.
      let lf = lf\<lparr>lf_buffer := copy_at (nat (lf_writePos lf)) piece (lf_buffer lf),
                  lf_writePos := lf_writePos lf + copyLen\<rparr>;
          s = s\<lparr>readLargeFrame := Some lf\<rparr>;
          incoming = drop (nat copyLen) incoming in
      if int HashSize + lf_msgLen lf \<le> lf_writePos lf then
        bind_outcome (processCompleteLargeFrame sum32 conf s) (\<lambda>(s, close).
        Returns (if close then s else s\<lparr>readLargeFrame := None\<rparr>, close, incoming))
      else Returns (s, False, incoming))))"

definition feedHead ::
  "hash_fun \<Rightarrow> IoStreamConfigure \<Rightarrow> bytes \<Rightarrow> read_state \<Rightarrow> (read_state \<times> bool \<times> bytes) outcome" where
  "feedHead sum32 conf incoming s =
     (let space = DataSmallSize - rh_len (readHead s) in
      if DataSmallSize \<le> rh_len (readHead s) then Returns (s, True, incoming)
      else
        let copyLen = (if space < length incoming then space else length incoming);
            s = s\<lparr>readHead := \<lparr>rh_buffer = copy_at (rh_len (readHead s)) (take copyLen incoming) (rh_buffer (readHead s)),
                             rh_len = rh_len (readHead s) + copyLen\<rparr>\<rparr> in
        bind_outcome (processReadHeadFrames sum32 conf s) (\<lambda>(s, close).
        Returns (s, close, drop copyLen incoming)))"

definition feed_measure :: "read_state \<Rightarrow> bytes \<Rightarrow> nat" where
  "feed_measure s incoming = 2 * length incoming + (if readLargeFrame s = None then 0 else 1)"

lemma feedLargeFrame_progress:
  assumes "feedLargeFrame sum32 conf lf incoming s = Returns (s', False, incoming')" and "incoming \<noteq> []"
  shows "feed_measure s' incoming' < 2 * length incoming + 1"
  using assms
  by (auto simp: feedLargeFrame_def feed_measure_def slice_def bind_outcome_Returns_iff Let_def split: if_splits prod.splits)

lemma feedHead_progress:
  assumes "feedHead sum32 conf incoming s = Returns (s', False, incoming')" and "incoming \<noteq> []"
  shows "feed_measure s' incoming' < 2 * length incoming"
proof -
  obtain x xs where "incoming = x # xs" using assms(2) by (cases incoming) auto
  with assms show ?thesis
    by (auto simp: feedHead_def feed_measure_def bind_outcome_Returns_iff Let_def split: if_splits prod.splits)
qed

function readLoop_feed ::
  "hash_fun \<Rightarrow> IoStreamConfigure \<Rightarrow> bytes \<Rightarrow> read_state \<Rightarrow> (read_state \<times> bool) outcome" where
  "readLoop_feed sum32 conf incoming s =
     (if incoming = [] then Returns (s, False)
      else
        bind_outcome (case readLargeFrame s of
                        Some lf \<Rightarrow> feedLargeFrame sum32 conf lf incoming s
                      | None \<Rightarrow> feedHead sum32 conf incoming s) (\<lambda>(s', close, incoming').
        if close then Returns (s', True) else readLoop_feed sum32 conf incoming' s'))"
  by pat_completeness auto
termination
proof (relation "measure (\<lambda>(sum32, conf, incoming, s). feed_measure s incoming)", goal_cases)
  case (2 sum32 conf incoming s x s' y close incoming')
  then show ?case
    using feedLargeFrame_progress [of sum32 conf _ incoming s s' incoming'] feedHead_progress [of sum32 conf incoming s s' incoming']
    by (auto simp: feed_measure_def split: option.splits)
qed simp

declare readLoop_feed.simps [simp del]

text \<open>
  \<open>readLoop\<close> itself: what a read of the socket can report, one event per iteration. \<open>ReadStopped\<close> stands for
  the checks at the top of the loop (context done, connection closed or no longer connected).
\<close>

datatype read_event = ReadData bytes | ReadTimeout | ReadEOF | ReadFailed | ReadStopped

definition countEgain :: "read_state \<Rightarrow> read_state" where
  "countEgain s = s\<lparr>readEgainCount := readEgainCount s + 1,
     statisticReadNetEgainCount := statisticReadNetEgainCount s + 1\<rparr>"

fun readLoop :: "hash_fun \<Rightarrow> IoStreamConfigure \<Rightarrow> read_event list \<Rightarrow> read_state \<Rightarrow> (read_state \<times> bool) outcome" where
  "readLoop sum32 conf [] s = Returns (s, False)"
| "readLoop sum32 conf (ReadData chunk # es) s =
     bind_outcome (readLoop_feed sum32 conf chunk s) (\<lambda>(s, isFree).
     if isFree then Returns (s, True) else readLoop sum32 conf es s)"
| "readLoop sum32 conf (ReadTimeout # es) s =
     (let s = countEgain s in
      if MaxReadNetEgainCount conf < readEgainCount s then Returns (s, True) else readLoop sum32 conf es s)"
| "readLoop sum32 conf (ReadEOF # es) s = Returns (s, True)"
| "readLoop sum32 conf (ReadFailed # es) s = Returns (s, True)"
| "readLoop sum32 conf (ReadStopped # es) s = Returns (s, True)"

subsection \<open>Parsing the head buffer\<close>

definition acceptable :: "IoStreamConfigure \<Rightarrow> bytes \<Rightarrow> bool" where
  "acceptable conf p \<longleftrightarrow> packable p \<and> \<not> overReceiveLimit conf (of_nat (length p))"

lemma window:
  assumes "take left (drop start buf) = xs @ ys @ zs" and "start + left \<le> length buf"
  shows "slice buf (int (start + length xs)) (int (start + length xs + length ys)) = Returns ys"
    and "take (left - length xs) (drop (start + length xs) buf) = ys @ zs"
    and "length xs + length ys + length zs = left"
proof -
  show l: "length xs + length ys + length zs = left"
    using arg_cong [OF assms(1), of length] assms(2) by simp
  show d: "take (left - length xs) (drop (start + length xs) buf) = ys @ zs"
    using arg_cong [OF assms(1), of "drop (length xs)"] by (simp add: drop_take add.commute)
  have "length ys \<le> left - length xs" using l by simp
  then have "take (length ys) (drop (start + length xs) buf) = ys"
    using arg_cong [OF d, of "take (length ys)"] by (simp add: min_absorb1)
  then show "slice buf (int (start + length xs)) (int (start + length xs + length ys)) = Returns ys"
    using slice_nat [of "start + length xs" "start + length xs + length ys" buf] assms(2) l by simp
qed

lemma head_window:
  assumes "take left (drop start buf) = B" and "start + left \<le> length buf" and "4 < left"
  shows "slice buf (int (start + HashSize)) (int (start + left)) = Returns (drop 4 B)"
    and "bind_outcome (slice buf (int start) (int (start + HashSize))) Uint32 = Uint32 (take 4 B)"
proof -
  have len: "length B = left" using arg_cong [OF assms(1), of length] assms(2) by simp
  have "take left (drop start buf) = take 4 B @ drop 4 B @ []" using assms(1) by simp
  from window(1) [OF this assms(2)] show "slice buf (int (start + HashSize)) (int (start + left)) = Returns (drop 4 B)"
    using assms(3) len by (simp add: HashSize_def)
  have "take left (drop start buf) = [] @ take 4 B @ drop 4 B" using assms(1) by simp
  from window(1) [OF this assms(2)] show "bind_outcome (slice buf (int start) (int (start + HashSize))) Uint32 = Uint32 (take 4 B)"
    using assms(3) len by (simp add: HashSize_def)
qed

lemma payload_window:
  assumes "take left (drop start buf) = frame_of sum32 p @ rest" and "start + left \<le> length buf"
    and "length buf < 2 ^ 62" and "packable p"
  defines "n \<equiv> VintEncodedSize (of_nat (length p))"
  shows "slice buf (int start + int (HashSize + n))
    (wrap64 (int start + int (HashSize + n) + int_of_uint64 (of_nat (length p)))) = Returns p"
proof -
  have w: "take left (drop start buf) = (PutUint32 (sum32 p) @ vint_bytes (of_nat (length p))) @ p @ rest"
    using assms(1) by (simp add: frame_of_def)
  have hd: "length (PutUint32 (sum32 p) @ vint_bytes (of_nat (length p))) = HashSize + n"
    by (simp add: n_def HashSize_def VintEncodedSize_vint_bytes)
  note win = window [OF w assms(2), unfolded hd]
  have "start + (HashSize + n) + length p \<le> length buf" using win(3) assms(2) by simp
  from this assms(3) have "start + (HashSize + n) + length p < 2 ^ 62" by (rule le_less_trans)
  then have "int (start + (HashSize + n) + length p) < int (2 ^ 62)" by (simp only: of_nat_less_iff)
  then have "wrap64 (int (start + (HashSize + n) + length p)) = int (start + (HashSize + n) + length p)"
    by (intro wrap64_id) simp_all
  then have "wrap64 (int start + int (HashSize + n) + int_of_uint64 (of_nat (length p))) = int (start + (HashSize + n) + length p)"
    using packable_length(2) [OF assms(4)] by (simp add: add.assoc)
  with win(1) show ?thesis by simp
qed

lemma frame_header_view:
  assumes "B @ later = frame_of sum32 p @ R" and "4 < length B"
  obtains (incomplete) "length B < 4 + VintEncodedSize (of_nat (length p))" "ReadVint (drop 4 B) = (0, 0)"
  | (complete) "4 + VintEncodedSize (of_nat (length p)) \<le> length B"
      "ReadVint (drop 4 B) = (of_nat (length p), VintEncodedSize (of_nat (length p)))"
proof -
  let ?v = "of_nat (length p) :: uint64" let ?b = "vint_bytes ?v"
  have eq: "?b @ p @ R = drop 4 B @ later"
    using arg_cong [OF assms(1), of "drop 4"] assms(2) by (simp add: frame_of_def)
  show thesis
  proof (cases "length (drop 4 B) < length ?b")
    case True
    then have "ReadVint (drop 4 B) = (0, 0)" using ReadVint_frame_prefix [of ?v "p @ R" "drop 4 B" later] eq by simp
    with True assms(2) show thesis by (intro incomplete) (simp_all add: VintEncodedSize_vint_bytes)
  next
    case False
    then have "?b = take (length ?b) (drop 4 B)"
      using eq by (simp add: append_eq_append_conv_if not_less)
    then have "drop 4 B = ?b @ drop (length ?b) (drop 4 B)" by (metis append_take_drop_id)
    then have "ReadVint (drop 4 B) = (?v, VintEncodedSize ?v)"
      by (metis ReadVint_vint_bytes VintEncodedSize_vint_bytes)
    with False assms(2) show thesis by (intro complete) (simp_all add: VintEncodedSize_vint_bytes)
  qed
qed

text \<open>The state of a large frame of payload \<open>p\<close> of which \<open>k\<close> payload bytes have arrived.\<close>

definition large_state :: "hash_fun \<Rightarrow> bytes \<Rightarrow> nat \<Rightarrow> readLargeFrameState" where
  "large_state sum32 p k =
     \<lparr>lf_buffer = PutUint32 (sum32 p) @ take k p @ make_bytes (length p - k),
      lf_writePos = int (4 + k), lf_msgLen = int (length p)\<rparr>"

lemma startLargeFrame_large:
  assumes "take left (drop start buf) = B" and "start + left \<le> length buf" and "packable p"
    and "B @ later = frame_of sum32 p @ R" and "4 + VintEncodedSize (of_nat (length p)) \<le> left"
    and "left < length (frame_of sum32 p)"
  defines "n \<equiv> VintEncodedSize (of_nat (length p))"
  shows "startLargeFrame buf start left n (of_nat (length p)) s
     = Returns (s\<lparr>readLargeFrame := Some (large_state sum32 p (left - (4 + n)))\<rparr>)"
    and "drop (left - (4 + n)) p @ R = later" and "left - (4 + n) < length p"
proof -
  let ?k = "left - (4 + n)" let ?h = "PutUint32 (sum32 p)" let ?v = "vint_bytes (of_nat (length p))"
  have len: "length B = left" using arg_cong [OF assms(1), of length] assms(2) by simp
  have n: "length ?v = n" by (simp add: n_def VintEncodedSize_vint_bytes)
  have nl: "4 + n \<le> left" using assms(5) by (simp add: n_def)
  show k: "?k < length p" using assms(6) nl by (simp add: length_frame_of HashSize_def n_def)
  have "B = take left (frame_of sum32 p @ R)" using arg_cong [OF assms(4), of "take left"] len by simp
  also have "\<dots> = ?h @ ?v @ take ?k p" using nl n k by (simp add: frame_of_def)
  finally have B: "B = ?h @ ?v @ take ?k p" .
  show "drop ?k p @ R = later"
    using arg_cong [OF assms(4), of "drop left"] len nl n k by (simp add: frame_of_def)
  have w: "take left (drop start buf) = [] @ ?h @ (?v @ take ?k p)"
    "take left (drop start buf) = (?h @ ?v) @ take ?k p @ []" using assms(1) B by simp_all
  have hash: "slice buf (int start) (int (start + HashSize)) = Returns ?h"
    using window(1) [OF w(1) assms(2)] by (simp add: HashSize_def)
  have rest: "slice buf (int (start + HashSize + n)) (int (start + left)) = Returns (take ?k p)"
    using window(1) [OF w(2) assms(2)] n nl k by (simp add: HashSize_def add.commute add.left_commute)
  have size: "wrap64 (int HashSize + int_of_uint64 (of_nat (length p))) = int (4 + length p)"
    using packable_length(2) [OF assms(3)] packable_length(3) [OF assms(3), of 4]
    by (simp add: HashSize_def MaxFrameHeaderSize_def)
  have c1: "copy_at 0 ?h (make_bytes (4 + length p)) = ?h @ make_bytes (length p)"
    by (simp add: copy_at_fits make_bytes_def)
  have c2: "copy_at 4 (take ?k p) (?h @ make_bytes (length p)) = ?h @ take ?k p @ make_bytes (length p - ?k)"
    using k by (simp add: copy_at_fits make_bytes_def)
  have rem: "int left - int HashSize - int n = int ?k" using nl by (simp add: HashSize_def)
  have sz: "nat (4 + int (length p)) = 4 + length p" by simp
  show "startLargeFrame buf start left n (of_nat (length p)) s = Returns (s\<lparr>readLargeFrame := Some (large_state sum32 p ?k)\<rparr>)"
    unfolding startLargeFrame_def size hash rem rest
    using c1 c2 packable_length(2) [OF assms(3)]
    by (cases "?k = 0") (simp_all add: large_state_def HashSize_def Let_def sz)
qed

text \<open>
  Where the reader stands between two frames of the stream \<open>frames ps\<close>, of which \<open>later\<close> has not arrived:
  in the head phase the window \<open>B\<close> is a proper prefix of the next frame; in the body phase \<open>k\<close> bytes of
  its payload have arrived.
\<close>

definition frames :: "hash_fun \<Rightarrow> bytes list \<Rightarrow> bytes" where
  "frames sum32 ps = concat (map (frame_of sum32) ps)"

lemma frames_simps [simp]:
  "frames sum32 [] = []" "frames sum32 (p # ps) = frame_of sum32 p @ frames sum32 ps"
  "frames sum32 (ps @ qs) = frames sum32 ps @ frames sum32 qs"
  by (simp_all add: frames_def)

definition in_head :: "hash_fun \<Rightarrow> bytes list \<Rightarrow> bytes \<Rightarrow> bytes \<Rightarrow> read_state \<Rightarrow> bool" where
  "in_head sum32 ps later B s \<longleftrightarrow> readLargeFrame s = None \<and> B @ later = frames sum32 ps
     \<and> length B < DataSmallSize \<and> (\<forall>p qs. ps = p # qs \<longrightarrow> length B < length (frame_of sum32 p))"

definition in_body :: "hash_fun \<Rightarrow> bytes list \<Rightarrow> bytes \<Rightarrow> read_state \<Rightarrow> bool" where
  "in_body sum32 ps later s \<longleftrightarrow> (\<exists>p qs k. ps = p # qs \<and> k < length p
     \<and> readLargeFrame s = Some (large_state sum32 p k) \<and> drop k p @ frames sum32 qs = later)"

lemma DataSmallSize_simps: "14 < DataSmallSize" "DataSmallSize < 2 ^ 62"
  by (simp_all add: DataSmallSize_def)

lemma dispatch_acceptable:
  assumes "acceptable conf p"
  shows "dispatchHeadFrame sum32 conf (of_nat (length p)) (sum32 p) p s = (fireReceived p s, False)"
  using assms by (simp add: dispatchHeadFrame_def acceptable_def CalculateHash_def)

lemma head_step_whole:
  assumes "take left (drop start buf) @ later = frame_of sum32 p @ R" and "start + left \<le> length buf"
    and "length buf = DataSmallSize" and "acceptable conf p" and "length (frame_of sum32 p) \<le> left"
  shows "take (left - length (frame_of sum32 p)) (drop (start + length (frame_of sum32 p)) buf) @ later = R"
    and "processReadHeadFrames_loop sum32 conf buf start left s isFree =
      processReadHeadFrames_loop sum32 conf buf (start + length (frame_of sum32 p)) (left - length (frame_of sum32 p))
        (fireReceived p s) isFree"
proof -
  let ?B = "take left (drop start buf)" let ?F = "frame_of sum32 p" let ?v = "of_nat (length p) :: uint64"
  let ?n = "VintEncodedSize ?v" let ?rest = "take (left - length ?F) (drop (start + length ?F) buf)"
  have pack: "packable p" using assms(4) by (simp add: acceptable_def)
  have len: "length ?B = left" using assms(2) by simp
  have "take (length ?F) ?B = ?F" using arg_cong [OF assms(1), of "take (length ?F)"] assms(5) len by simp
  then have B: "?B = ?F @ ?rest"
    by (metis append_take_drop_id drop_drop drop_take add.commute)
  then show "?rest @ later = R" using assms(1) by simp
  have nz: "?n \<noteq> 0" "5 \<le> length ?F" using VintEncodedSize_bounds [of ?v] by (simp_all add: length_frame_of HashSize_def)
  then have four: "4 < left" "4 < length ?B" using assms(5) len by simp_all
  have rd: "ReadVint (drop 4 ?B) = (?v, ?n)"
    using assms(1) four(2) by (cases rule: frame_header_view) (use assms(5) len in \<open>simp_all add: length_frame_of HashSize_def\<close>)
  have pay: "slice buf (int start + int (HashSize + ?n)) (wrap64 (int start + int (HashSize + ?n) + int_of_uint64 ?v)) = Returns p"
    using payload_window [OF B assms(2) _ pack] assms(3) DataSmallSize_simps by simp
  have hash: "Uint32 (take 4 ?B) = Returns (sum32 p)"
    unfolding B frame_of_parts using Uint32_PutUint32 [of "sum32 p" "[]"] by simp
  show "processReadHeadFrames_loop sum32 conf buf start left s isFree =
      processReadHeadFrames_loop sum32 conf buf (start + length ?F) (left - length ?F) (fireReceived p s) isFree"
    unfolding processReadHeadFrames_loop.simps [of sum32 conf buf start left s isFree] head_window [OF refl assms(2) four(1)]
    using four(1) rd nz(1) announced_frame [OF pack, of sum32] assms(5) pay hash dispatch_acceptable [OF assms(4), of sum32 s]
    by (simp add: Let_def HashSize_def)
qed

lemma head_step_part:
  assumes "take left (drop start buf) @ later = frame_of sum32 p @ R" and "start + left \<le> length buf"
    and "acceptable conf p" and "left < length (frame_of sum32 p)"
  obtains (wait) "processReadHeadFrames_loop sum32 conf buf start left s isFree = Returns (s, isFree, start, left)"
      "left < DataSmallSize"
  | (large) k where "k < length p" "drop k p @ R = later"
      "processReadHeadFrames_loop sum32 conf buf start left s isFree
        = Returns (s\<lparr>readLargeFrame := Some (large_state sum32 p k)\<rparr>, isFree, start + left, 0)"
proof (cases "4 < left")
  case False
  then show thesis
    using DataSmallSize_simps by (intro wait) (simp_all add: processReadHeadFrames_loop.simps HashSize_def)
next
  case True
  let ?B = "take left (drop start buf)" let ?v = "of_nat (length p) :: uint64" let ?n = "VintEncodedSize ?v"
  have pack: "packable p" using assms(3) by (simp add: acceptable_def)
  have nz: "?n \<noteq> 0" "?n \<le> 10" using VintEncodedSize_bounds [of ?v] by simp_all
  have len: "length ?B = left" using assms(2) by simp
  note loop = processReadHeadFrames_loop.simps [of sum32 conf buf start left s isFree,
      unfolded head_window [OF refl assms(2) True]]
  have "4 < length ?B" using True len by simp
  with assms(1) show thesis
  proof (cases rule: frame_header_view)
    case incomplete
    then show thesis using loop True nz len DataSmallSize_simps by (intro wait) (simp_all add: HashSize_def)
  next
    case complete
    have big: "\<not> announced ?n ?v \<le> int left" using announced_frame [OF pack, of sum32] assms(4) by simp
    show thesis
    proof (cases "length (frame_of sum32 p) \<le> DataSmallSize")
      case fits: True
      then show thesis
        using loop True complete(2) nz(1) big announced_frame [OF pack, of sum32] assms(4)
        by (intro wait) (simp_all add: HashSize_def Let_def)
    next
      case False
      have "4 + ?n \<le> left" using complete(1) len by simp
      note start = startLargeFrame_large [OF refl assms(2) pack assms(1) this assms(4)]
      show thesis
        using loop True complete(2) nz(1) big announced_frame [OF pack, of sum32] False start(1) [of s] assms(3)
        by (intro large [OF start(3,2)]) (simp add: HashSize_def Let_def acceptable_def)
    qed
  qed
qed

lemma head_loop_frames:
  assumes "\<forall>p \<in> set ps. acceptable conf p" and "take left (drop start buf) @ later = frames sum32 ps"
    and "start + left \<le> length buf" and "length buf = DataSmallSize" and "readLargeFrame s = None"
  shows "\<exists>ps1 ps2 s' start' left'. processReadHeadFrames_loop sum32 conf buf start left s isFree
      = Returns (s', isFree, start', left') \<and> ps = ps1 @ ps2 \<and> received s' = received s @ ps1
    \<and> start' + left' = start + left
    \<and> (in_head sum32 ps2 later (take left' (drop start' buf)) s' \<or> left' = 0 \<and> in_body sum32 ps2 later s')"
  using assms
proof (induction ps arbitrary: start left s)
  case Nil
  then have "left = 0" by (auto simp: DataSmallSize_def)
  with Nil show ?case by (simp add: processReadHeadFrames_loop.simps in_head_def DataSmallSize_def)
next
  case (Cons p ps)
  have acc: "acceptable conf p" and eq: "take left (drop start buf) @ later = frame_of sum32 p @ frames sum32 ps"
    using Cons.prems by simp_all
  show ?case
  proof (cases "length (frame_of sum32 p) \<le> left")
    case True
    note step = head_step_whole [OF eq Cons.prems(3,4) acc True]
    obtain ps1 ps2 s' start' left' where
      "processReadHeadFrames_loop sum32 conf buf start left s isFree = Returns (s', isFree, start', left')"
      "ps = ps1 @ ps2" "received s' = received s @ p # ps1" "start' + left' = start + left"
      "in_head sum32 ps2 later (take left' (drop start' buf)) s' \<or> left' = 0 \<and> in_body sum32 ps2 later s'"
      using Cons.IH [OF _ step(1), of "fireReceived p s"] Cons.prems True step(2) [of s isFree]
      by (auto simp: fireReceived_def)
    then show ?thesis by (intro exI [of _ "p # ps1"] exI [of _ ps2]) auto
  next
    case False
    then have part: "left < length (frame_of sum32 p)" by simp
    from eq Cons.prems(3) acc part show ?thesis
    proof (cases rule: head_step_part [where s = s and isFree = isFree])
      case wait
      then show ?thesis
        using eq Cons.prems(3,5) part
        by (intro exI [of _ "[]"] exI [of _ "p # ps"] exI [of _ s] exI [of _ start] exI [of _ left]) (simp add: in_head_def)
    next
      case (large k)
      then show ?thesis
        by (intro exI [of _ "[]"] exI [of _ "p # ps"] exI [of _ "s\<lparr>readLargeFrame := Some (large_state sum32 p k)\<rparr>"])
          (auto simp: in_body_def)
    qed
  qed
qed

subsection \<open>Feeding chunks\<close>

definition reading :: "hash_fun \<Rightarrow> bytes list \<Rightarrow> bytes \<Rightarrow> read_state \<Rightarrow> bool" where
  "reading sum32 ps later s \<longleftrightarrow> length (rh_buffer (readHead s)) = DataSmallSize
     \<and> (in_head sum32 ps later (take (rh_len (readHead s)) (rh_buffer (readHead s))) s
          \<and> rh_len (readHead s) < DataSmallSize
        \<or> rh_len (readHead s) = 0 \<and> in_body sum32 ps later s)"

definition advances ::
  "hash_fun \<Rightarrow> bytes list \<Rightarrow> bytes \<Rightarrow> read_state \<Rightarrow> (read_state \<times> bool \<times> bytes) outcome \<Rightarrow> bool" where
  "advances sum32 ps later s r \<longleftrightarrow> (\<exists>ps1 ps2 s' incoming'. r = Returns (s', False, incoming') \<and> ps = ps1 @ ps2
     \<and> received s' = received s @ ps1 \<and> reading sum32 ps2 (incoming' @ later) s')"

lemma in_phase_readHead [simp]:
  "in_head sum32 ps later B (s\<lparr>readHead := h\<rparr>) = in_head sum32 ps later B s"
  "in_body sum32 ps later (s\<lparr>readHead := h\<rparr>) = in_body sum32 ps later s"
  by (simp_all add: in_head_def in_body_def)

lemma processReadHeadFrames_frames:
  assumes "\<forall>p \<in> set ps. acceptable conf p" and "take (rh_len (readHead s)) (rh_buffer (readHead s)) @ later = frames sum32 ps"
    and "rh_len (readHead s) \<le> DataSmallSize" and "length (rh_buffer (readHead s)) = DataSmallSize" and "readLargeFrame s = None"
  shows "\<exists>ps1 ps2 s'. processReadHeadFrames sum32 conf s = Returns (s', False) \<and> ps = ps1 @ ps2
    \<and> received s' = received s @ ps1 \<and> reading sum32 ps2 later s'"
proof -
  let ?buf = "rh_buffer (readHead s)"
  obtain ps1 ps2 s' start left where loop:
    "processReadHeadFrames_loop sum32 conf ?buf 0 (rh_len (readHead s)) s False = Returns (s', False, start, left)"
    and ps: "ps = ps1 @ ps2" "received s' = received s @ ps1" and sum: "start + left = rh_len (readHead s)"
    and phase: "in_head sum32 ps2 later (take left (drop start ?buf)) s' \<or> left = 0 \<and> in_body sum32 ps2 later s'"
    using head_loop_frames [of ps conf "rh_len (readHead s)" 0 ?buf later sum32 s False] assms by auto
  have le: "start + left \<le> length ?buf" using sum assms(3,4) by simp
  let ?new = "if 0 < start \<and> 0 < left then copy_at 0 (take left (drop start ?buf)) ?buf else ?buf"
  have content: "take left ?new = take left (drop start ?buf)" and len: "length ?new = DataSmallSize"
    using le assms(4) by (auto simp: copy_at_fits min_absorb1)
  have "processReadHeadFrames sum32 conf s = Returns (s'\<lparr>readHead := \<lparr>rh_buffer = ?new, rh_len = left\<rparr>\<rparr>, False)"
    using loop slice_nat [of start "start + left" ?buf] le by (simp add: processReadHeadFrames_def Let_def)
  moreover have "in_head sum32 ps2 later (take left (drop start ?buf)) s' \<Longrightarrow> left < DataSmallSize"
    using le by (simp add: in_head_def min_absorb2)
  ultimately show ?thesis
    using ps phase content len
    by (intro exI [of _ ps1] exI [of _ ps2] exI [of _ "s'\<lparr>readHead := \<lparr>rh_buffer = ?new, rh_len = left\<rparr>\<rparr>"])
      (auto simp: reading_def)
qed

lemma min_if: "(if a < b then a else b) = min a b" for a b :: nat
  by simp

lemma feedHead_advances:
  assumes "\<forall>p \<in> set ps. acceptable conf p" and "reading sum32 ps (incoming @ later) s" and "readLargeFrame s = None"
  shows "advances sum32 ps later s (feedHead sum32 conf incoming s)"
proof -
  let ?len = "rh_len (readHead s)" let ?buf = "rh_buffer (readHead s)"
  let ?c = "min (DataSmallSize - ?len) (length incoming)"
  let ?s = "s\<lparr>readHead := \<lparr>rh_buffer = copy_at ?len (take ?c incoming) ?buf, rh_len = ?len + ?c\<rparr>\<rparr>"
  have h: "length ?buf = DataSmallSize" "?len < DataSmallSize" "take ?len ?buf @ incoming @ later = frames sum32 ps"
    using assms(2,3) by (auto simp: reading_def in_head_def in_body_def)
  have "take (?len + ?c) (copy_at ?len (take ?c incoming) ?buf) = take ?len ?buf @ take ?c incoming"
    using h(1,2) by (simp add: copy_at_fits min_absorb1)
  then have "take (rh_len (readHead ?s)) (rh_buffer (readHead ?s)) @ drop ?c incoming @ later = frames sum32 ps"
    using h(3) by (simp, metis append_take_drop_id append.assoc)
  moreover have "?len + ?c \<le> DataSmallSize" using h(2) by linarith
  ultimately obtain ps1 ps2 s' where "processReadHeadFrames sum32 conf ?s = Returns (s', False)" "ps = ps1 @ ps2"
    "received s' = received s @ ps1" "reading sum32 ps2 (drop ?c incoming @ later) s'"
    using processReadHeadFrames_frames [OF assms(1), of ?s "drop ?c incoming @ later" sum32] h assms(3) by auto
  moreover have "feedHead sum32 conf incoming s = bind_outcome (processReadHeadFrames sum32 conf ?s)
      (\<lambda>(s, close). Returns (s, close, drop ?c incoming))"
    using h(2) by (simp only: feedHead_def Let_def min_if if_not_P not_le)
  ultimately show ?thesis by (auto simp: advances_def)
qed

lemma large_state_complete:
  assumes "packable p" and "acceptable conf p" and "readLargeFrame s = Some (large_state sum32 p (length p))"
  shows "processCompleteLargeFrame sum32 conf s = Returns (fireReceived p s, False)"
proof -
  let ?b = "PutUint32 (sum32 p) @ p"
  have "slice ?b 4 (4 + int (length p)) = Returns p"
    using slice_nat [of 4 "4 + length p" ?b] by simp
  moreover have "slice ?b 0 4 = Returns (PutUint32 (sum32 p))"
    using slice_nat [of 0 4 ?b] by simp
  ultimately show ?thesis
    using assms Uint32_PutUint32 [of "sum32 p" "[]"]
    by (simp add: processCompleteLargeFrame_def large_state_def make_bytes_def HashSize_def CalculateHash_def acceptable_def)
qed

lemma large_state_write:
  assumes "k + c \<le> length p"
  shows "copy_at (4 + k) (take c (drop k p)) (PutUint32 (sum32 p) @ take k p @ make_bytes (length p - k))
    = PutUint32 (sum32 p) @ take (k + c) p @ make_bytes (length p - (k + c))"
  using assms by (simp add: copy_at_fits make_bytes_def take_add)

lemma feedLargeFrame_large:
  assumes "k < length p" and "take c incoming = take c (drop k p)" and "c = min (length p - k) (length incoming)"
  shows "feedLargeFrame sum32 conf (large_state sum32 p k) incoming s =
      (let s = s\<lparr>readLargeFrame := Some (large_state sum32 p (k + c))\<rparr> in
       if k + c = length p then bind_outcome (processCompleteLargeFrame sum32 conf s) (\<lambda>(s, close).
         Returns (if close then s else s\<lparr>readLargeFrame := None\<rparr>, close, drop c incoming))
       else Returns (s, False, drop c incoming))"
proof -
  let ?lf = "large_state sum32 p k"
  have kc: "k + c \<le> length p" "c \<le> length incoming" using assms(1,3) by simp_all
  have rem: "int HashSize + lf_msgLen ?lf - lf_writePos ?lf = int (length p - k)"
    using assms(1) by (simp add: large_state_def HashSize_def)
  have cl: "(if int (length p - k) < int (length incoming) then int (length p - k) else int (length incoming)) = int c"
    using assms(3) by (simp add: min_def)
  have in_slice: "slice incoming 0 (int c) = Returns (take c (drop k p))"
    using slice_nat [of 0 c incoming] kc(2) assms(2) by simp
  have buf_slice: "\<exists>x. slice (lf_buffer ?lf) (lf_writePos ?lf) (int (length (lf_buffer ?lf))) = Returns x"
    using assms(1) by (simp add: slice_def large_state_def)
  have upd: "?lf\<lparr>lf_buffer := copy_at (nat (lf_writePos ?lf)) (take c (drop k p)) (lf_buffer ?lf),
        lf_writePos := lf_writePos ?lf + int c\<rparr> = large_state sum32 p (k + c)"
    using large_state_write [OF kc(1), of sum32] by (simp add: large_state_def nat_add_distrib)
  have fin: "int HashSize + lf_msgLen (large_state sum32 p (k + c)) \<le> lf_writePos (large_state sum32 p (k + c))
      \<longleftrightarrow> k + c = length p"
    using kc(1) by (auto simp: large_state_def HashSize_def)
  show ?thesis
    using buf_slice unfolding feedLargeFrame_def rem Let_def cl in_slice bind_outcome.simps upd fin nat_int by auto
qed

lemma feedLargeFrame_advances:
  assumes "\<forall>p \<in> set ps. acceptable conf p" and "reading sum32 ps (incoming @ later) s" and "readLargeFrame s = Some lf"
  shows "advances sum32 ps later s (feedLargeFrame sum32 conf lf incoming s)"
proof -
  obtain p qs k where ps: "ps = p # qs" and k: "k < length p" and lf: "lf = large_state sum32 p k"
    and rest: "drop k p @ frames sum32 qs = incoming @ later" and head: "length (rh_buffer (readHead s)) = DataSmallSize"
    "rh_len (readHead s) = 0"
    using assms(2,3) by (auto simp: reading_def in_head_def in_body_def)
  have acc: "acceptable conf p" "packable p" using assms(1) ps by (simp_all add: acceptable_def)
  let ?c = "min (length p - k) (length incoming)"
  let ?lf = "large_state sum32 p (k + ?c)" let ?s = "s\<lparr>readLargeFrame := Some ?lf\<rparr>"
  have kc: "k + ?c \<le> length p" using k by simp
  have piece: "take ?c incoming = take ?c (drop k p)"
    using arg_cong [OF rest, of "take ?c"] k by (simp add: min_def)
  have after: "drop (k + ?c) p @ frames sum32 qs = drop ?c incoming @ later"
    using arg_cong [OF rest, of "drop ?c"] k by (simp add: add.commute)
  have feed: "feedLargeFrame sum32 conf lf incoming s =
      (if k + ?c = length p then bind_outcome (processCompleteLargeFrame sum32 conf ?s) (\<lambda>(s, close).
         Returns (if close then s else s\<lparr>readLargeFrame := None\<rparr>, close, drop ?c incoming))
       else Returns (?s, False, drop ?c incoming))"
    unfolding lf feedLargeFrame_large [OF k piece refl] Let_def ..
  show ?thesis
  proof (cases "k + ?c = length p")
    case True
    let ?s' = "(fireReceived p ?s)\<lparr>readLargeFrame := None\<rparr>"
    have "feedLargeFrame sum32 conf lf incoming s = Returns (?s', False, drop ?c incoming)"
      unfolding feed using True large_state_complete [OF acc(2,1), of ?s sum32] by simp
    moreover have "reading sum32 qs (drop ?c incoming @ later) ?s'"
      using head after True DataSmallSize_simps
      by (cases qs) (auto simp: reading_def in_head_def fireReceived_def length_frame_of HashSize_def)
    ultimately show ?thesis
      unfolding advances_def ps by (intro exI [of _ "[p]"] exI [of _ qs]) (simp add: fireReceived_def)
  next
    case False
    then have "in_body sum32 (p # qs) (drop ?c incoming @ later) ?s"
      unfolding in_body_def using after kc
      by (intro exI [of _ p] exI [of _ qs] exI [of _ "k + ?c"]) (simp del: drop_append)
    then show ?thesis
      unfolding advances_def ps feed using False head
      by (intro exI [of _ "[]"] exI [of _ "p # qs"]) (simp add: reading_def)
  qed
qed

lemma readLoop_feed_frames:
  assumes "\<forall>p \<in> set ps. acceptable conf p" and "reading sum32 ps (incoming @ later) s"
  shows "\<exists>ps1 ps2 s'. readLoop_feed sum32 conf incoming s = Returns (s', False) \<and> ps = ps1 @ ps2
    \<and> received s' = received s @ ps1 \<and> reading sum32 ps2 later s'"
  using assms
proof (induction sum32 conf incoming s arbitrary: ps rule: readLoop_feed.induct)
  case (1 sum32 conf incoming s)
  show ?case
  proof (cases "incoming = []")
    case True
    then show ?thesis using "1.prems" by (intro exI [of _ "[]"] exI [of _ ps]) (simp add: readLoop_feed.simps)
  next
    case False
    let ?r = "case readLargeFrame s of Some lf \<Rightarrow> feedLargeFrame sum32 conf lf incoming s | None \<Rightarrow> feedHead sum32 conf incoming s"
    have "advances sum32 ps later s ?r"
      using feedHead_advances [OF "1.prems"] feedLargeFrame_advances [OF "1.prems"] by (cases "readLargeFrame s") simp_all
    then obtain ps1 ps2 s' incoming' where step: "?r = Returns (s', False, incoming')" "ps = ps1 @ ps2"
      "received s' = received s @ ps1" "reading sum32 ps2 (incoming' @ later) s'"
      by (auto simp: advances_def)
    obtain qs1 qs2 s'' where "readLoop_feed sum32 conf incoming' s' = Returns (s'', False)" "ps2 = qs1 @ qs2"
      "received s'' = received s' @ qs1" "reading sum32 qs2 later s''"
      using "1.IH" [OF False step(1) refl refl, of ps2] step(2,4) "1.prems"(1) by auto
    with step False show ?thesis
      by (intro exI [of _ "ps1 @ qs1"] exI [of _ qs2]) (simp add: readLoop_feed.simps [of sum32 conf incoming])
  qed
qed

lemma readLoop_frames:
  assumes "\<forall>p \<in> set ps. acceptable conf p" and "reading sum32 ps (concat chunks @ later) s"
  shows "\<exists>ps1 ps2 s'. readLoop sum32 conf (map ReadData chunks) s = Returns (s', False) \<and> ps = ps1 @ ps2
    \<and> received s' = received s @ ps1 \<and> reading sum32 ps2 later s'"
  using assms
proof (induction chunks arbitrary: ps s)
  case Nil
  then show ?case by (intro exI [of _ "[]"] exI [of _ ps]) simp
next
  case (Cons c cs)
  obtain ps1 ps2 s' where step: "readLoop_feed sum32 conf c s = Returns (s', False)" "ps = ps1 @ ps2"
    "received s' = received s @ ps1" "reading sum32 ps2 (concat cs @ later) s'"
    using readLoop_feed_frames [of ps conf sum32 c "concat cs @ later" s] Cons.prems by auto
  obtain qs1 qs2 s'' where "readLoop sum32 conf (map ReadData cs) s' = Returns (s'', False)" "ps2 = qs1 @ qs2"
    "received s'' = received s' @ qs1" "reading sum32 qs2 later s''"
    using Cons.IH [of ps2 s'] step(2,4) Cons.prems(1) by auto
  with step show ?case by (intro exI [of _ "ps1 @ qs1"] exI [of _ qs2]) simp
qed

lemma reading_nil: "reading sum32 ps [] s \<Longrightarrow> ps = []"
  by (cases ps) (auto simp: reading_def in_head_def in_body_def dest: arg_cong [where f = length])

lemma reading_start: "reading sum32 ps (frames sum32 ps) new_read_state"
  using frame_nonempty by (auto simp: reading_def in_head_def new_read_state_def DataSmallSize_def)

lemma readLoop_frames_all:
  assumes "\<forall>p \<in> set ps. acceptable conf p" and "concat chunks = frames sum32 ps"
  shows "\<exists>s'. readLoop sum32 conf (map ReadData chunks) new_read_state = Returns (s', False)
    \<and> received s' = ps \<and> readLargeFrame s' = None \<and> rh_len (readHead s') = 0"
proof -
  have "reading sum32 ps (concat chunks @ []) new_read_state" using reading_start [of sum32 ps] assms(2) by simp
  from readLoop_frames [OF assms(1) this] obtain ps1 ps2 s' where
    s': "readLoop sum32 conf (map ReadData chunks) new_read_state = Returns (s', False)" "ps = ps1 @ ps2"
    "received s' = ps1" "reading sum32 ps2 [] s'" by (auto simp: new_read_state_def)
  then have "ps2 = []" by (blast dest: reading_nil)
  with s' show ?thesis by (auto simp: reading_def in_head_def in_body_def DataSmallSize_def)
qed

text \<open>C27: however the socket cuts the bytes of a sequence of frames into chunks, across the small-frame and the
  large-frame path, the connection delivers exactly the payloads of the frames, in order, without
  a panic, stays open, and has nothing left over.\<close>

theorem readLoop_delivers:
  assumes "\<forall>p \<in> set ps. acceptable conf p" and "concat chunks = frames sum32 ps"
  shows "\<exists>s'. readLoop sum32 conf (map ReadData chunks) new_read_state = Returns (s', False)
    \<and> received s' = ps \<and> readLargeFrame s' = None \<and> rh_len (readHead s') = 0"
  using assms by (rule readLoop_frames_all)

definition sample_conf :: IoStreamConfigure where
  "sample_conf = (SetDefaultIoStreamConfigure zero_IoStreamConfigure)\<lparr>ReceiveBufferLimitSize := 4\<rparr>"

theorem readLoop_delivers_witness:
  "\<exists>s'. readLoop (\<lambda>p. of_nat (length p)) sample_conf (map ReadData [[1, 0, 0], [0, 1, 7, 0, 0], [0, 0, 0]]) new_read_state = Returns (s', False) \<and> received s' = [[7], []]"
proof -
  let ?h = "\<lambda>p :: bytes. of_nat (length p) :: uint32"
  have f: "frames ?h [[7], []] = [1, 0, 0, 0, 1, 7, 0, 0, 0, 0, 0]" by code_simp
  have "\<forall>p \<in> set [[7], []]. acceptable sample_conf p"
    by (simp add: sample_conf_def acceptable_def packable_def MaxFrameHeaderSize_def HashSize_def MaxVintSize_def overReceiveLimit_def)
  from readLoop_delivers [OF this, of "[[1, 0, 0], [0, 1, 7, 0, 0], [0, 0, 0]]" ?h] f show ?thesis by auto
qed

subsection \<open>Arbitrary bytes\<close>

lemma slice_length: "slice xs lo hi = Returns ys \<Longrightarrow> lo \<le> hi \<and> length ys = nat (hi - lo)"
  by (auto simp: slice_def nat_diff_distrib split: if_splits)

definition within_limit :: "IoStreamConfigure \<Rightarrow> read_state \<Rightarrow> bool" where
  "within_limit conf s \<longleftrightarrow> (\<forall>p \<in> set (received s). \<not> overReceiveLimit conf (of_nat (length p)))"

lemma within_limit_updates [simp]:
  "within_limit conf (s\<lparr>readHead := h\<rparr>) = within_limit conf s"
  "within_limit conf (s\<lparr>readLargeFrame := l\<rparr>) = within_limit conf s"
  "within_limit conf (failHash s) = within_limit conf s"
  "within_limit conf (failBlockSize s) = within_limit conf s"
  "within_limit conf (countEgain s) = within_limit conf s"
  "within_limit conf (fireReceived p s) \<longleftrightarrow> within_limit conf s \<and> \<not> overReceiveLimit conf (of_nat (length p))"
  by (auto simp: within_limit_def failHash_def failBlockSize_def countEgain_def fireReceived_def)

lemma dispatch_within_limit:
  assumes "dispatchHeadFrame sum32 conf (of_nat (length p)) h p s = (s', c)" and "within_limit conf s"
  shows "within_limit conf s'"
  using assms by (auto simp: dispatchHeadFrame_def Let_def split: if_splits)

lemma payload_length:
  assumes "slice buf (int start + int (HashSize + n)) (wrap64 (int start + int (HashSize + n) + int_of_uint64 msgLen)) = Returns p"
  shows "msgLen = of_nat (length p)"
proof -
  let ?q = "int start + int (HashSize + n)"
  have ge: "?q \<le> wrap64 (?q + int_of_uint64 msgLen)" using slice_length [OF assms] by simp
  from wrap64_add_ge [OF _ _ _ ge] int_of_uint64_range [of msgLen]
  have "0 \<le> int_of_uint64 msgLen" "wrap64 (?q + int_of_uint64 msgLen) = ?q + int_of_uint64 msgLen" by auto
  with slice_length [OF assms] have "length p = unat msgLen" by (simp add: int_of_uint64_nonneg)
  then show ?thesis by simp
qed

lemma startLargeFrame_received: "startLargeFrame buf a b n m s = Returns s' \<Longrightarrow> \<exists>l. s' = s\<lparr>readLargeFrame := l\<rparr>"
  by (auto simp: startLargeFrame_def bind_outcome_Returns_iff Let_def split: if_splits)

lemma head_loop_within_limit:
  assumes "processReadHeadFrames_loop sum32 conf buf start left s isFree = Returns (s', r)" and "within_limit conf s"
  shows "within_limit conf s'"
  using assms
proof (induction sum32 conf buf start left s isFree arbitrary: s' r rule: processReadHeadFrames_loop.induct)
  case (1 sum32 conf buf start left s isFree)
  show ?case
  proof (cases "left \<le> HashSize")
    case True
    with "1.prems" show ?thesis by (simp add: processReadHeadFrames_loop.simps)
  next
    case False
    note loop = "1.prems"(1) [unfolded processReadHeadFrames_loop.simps [of sum32 conf buf start left s isFree]]
    from loop False obtain head where head: "slice buf (int (start + HashSize)) (int (start + left)) = Returns head"
      by (auto split: outcome.splits)
    obtain msgLen n where rd: "ReadVint head = (msgLen, n)" by fastforce
    show ?thesis
    proof (cases "n \<noteq> 0 \<and> announced n msgLen \<le> int left")
      case True
      from loop False head rd True obtain p h where
        p: "slice buf (int start + int (HashSize + n)) (wrap64 (int start + int (HashSize + n) + int_of_uint64 msgLen)) = Returns p"
        and h: "bind_outcome (slice buf (int start) (int (start + HashSize))) Uint32 = Returns h"
        by (auto simp: Let_def split: outcome.splits)
      obtain s1 c where d: "dispatchHeadFrame sum32 conf msgLen h p s = (s1, c)" by fastforce
      have "within_limit conf s1" using d payload_length [OF p] "1.prems"(2) by (auto intro: dispatch_within_limit)
      moreover have "processReadHeadFrames_loop sum32 conf buf (start + nat (announced n msgLen))
          (left - nat (announced n msgLen)) s1 (isFree \<or> c) = Returns (s', r)"
        using loop False head rd True p h d by (simp add: Let_def)
      ultimately show ?thesis using "1.IH" [OF False head rd [symmetric] _ refl _ refl p h d [symmetric]] True by blast
    next
      case no: False
      with loop False head rd "1.prems"(2) show ?thesis
        by (cases "startLargeFrame buf start left n msgLen s")
          (auto simp: Let_def split: if_splits dest!: startLargeFrame_received)
    qed
  qed
qed

lemma processReadHeadFrames_within_limit:
  "processReadHeadFrames sum32 conf s = Returns (s', c) \<Longrightarrow> within_limit conf s \<Longrightarrow> within_limit conf s'"
  by (auto simp: processReadHeadFrames_def bind_outcome_Returns_iff Let_def dest!: head_loop_within_limit)

lemma processCompleteLargeFrame_within_limit:
  assumes "processCompleteLargeFrame sum32 conf s = Returns (s', c)" and "within_limit conf s"
  shows "within_limit conf s'"
proof (cases "readLargeFrame s")
  case (Some lf)
  then obtain p where p: "slice (lf_buffer lf) (int HashSize) (int HashSize + lf_msgLen lf) = Returns p"
    using assms(1) by (auto simp: processCompleteLargeFrame_def bind_outcome_Returns_iff)
  then have "(of_int (lf_msgLen lf) :: uint64) = of_nat (length p)"
    using slice_length [OF p] by (simp add: of_nat_nat)
  with Some p assms show ?thesis
    by (auto simp: processCompleteLargeFrame_def bind_outcome_Returns_iff Let_def split: if_splits)
qed (use assms in \<open>simp add: processCompleteLargeFrame_def\<close>)

lemma feed_within_limit:
  "feedHead sum32 conf incoming s = Returns (s', c, incoming') \<Longrightarrow> within_limit conf s \<Longrightarrow> within_limit conf s'"
  "feedLargeFrame sum32 conf lf incoming s = Returns (s', c, incoming') \<Longrightarrow> within_limit conf s \<Longrightarrow> within_limit conf s'"
  by (auto simp: feedHead_def feedLargeFrame_def bind_outcome_Returns_iff Let_def split: if_splits
      dest!: processReadHeadFrames_within_limit processCompleteLargeFrame_within_limit)

lemma readLoop_feed_within_limit:
  "readLoop_feed sum32 conf incoming s = Returns (s', c) \<Longrightarrow> within_limit conf s \<Longrightarrow> within_limit conf s'"
proof (induction sum32 conf incoming s arbitrary: s' c rule: readLoop_feed.induct)
  case (1 sum32 conf incoming s)
  show ?case
  proof (cases "incoming = []")
    case False
    let ?r = "case readLargeFrame s of Some lf \<Rightarrow> feedLargeFrame sum32 conf lf incoming s | None \<Rightarrow> feedHead sum32 conf incoming s"
    obtain s1 close incoming' where r: "?r = Returns (s1, close, incoming')"
      using False "1.prems"(1) unfolding readLoop_feed.simps [of sum32 conf incoming s]
      by (auto simp: bind_outcome_Returns_iff)
    have "within_limit conf s1"
      using r "1.prems"(2) feed_within_limit by (auto split: option.splits)
    moreover have "(if close then Returns (s1, True) else readLoop_feed sum32 conf incoming' s1) = Returns (s', c)"
      using False "1.prems"(1) r unfolding readLoop_feed.simps [of sum32 conf incoming s] by simp
    ultimately show ?thesis using "1.IH" [OF False r refl refl, of s' c] by (cases close) auto
  qed (use "1.prems" in \<open>simp add: readLoop_feed.simps\<close>)
qed

lemma readLoop_within_limit:
  "readLoop sum32 conf events s = Returns (s', c) \<Longrightarrow> within_limit conf s \<Longrightarrow> within_limit conf s'"
proof (induction sum32 conf events s arbitrary: s' c rule: readLoop.induct)
  case (2 sum32 conf chunk es s)
  then obtain s1 f where s1: "readLoop_feed sum32 conf chunk s = Returns (s1, f)"
    by (auto simp: bind_outcome_Returns_iff)
  then have "within_limit conf s1" using "2.prems"(2) by (rule readLoop_feed_within_limit)
  with s1 "2.prems"(1) "2.IH" [of "(s1, f)" s1 f s' c] show ?case by (cases f) auto
qed (auto simp: Let_def split: if_splits)

text \<open>C34: whatever bytes a peer sends and however reading ends, a connection with a receive limit never delivers a
  payload longer than the limit.\<close>

theorem readLoop_respects_limit:
  assumes "readLoop sum32 conf events new_read_state = Returns (s', stopped)" and "0 < ReceiveBufferLimitSize conf"
    and "p \<in> set (received s')" and "length p < 2 ^ 64"
  shows "length p \<le> unat (ReceiveBufferLimitSize conf)"
proof -
  have "within_limit conf new_read_state" by (simp add: within_limit_def new_read_state_def)
  from readLoop_within_limit [OF assms(1) this] have "\<not> ReceiveBufferLimitSize conf < of_nat (length p)"
    using assms(2,3) by (auto simp: within_limit_def overReceiveLimit_def)
  then have "unat (of_nat (length p) :: uint64) \<le> unat (ReceiveBufferLimitSize conf)"
    by (simp add: word_less_nat_alt not_less)
  moreover have "unat (of_nat (length p) :: uint64) = length p"
    using assms(4) by (simp add: unsigned_of_nat take_bit_nat_eq_self)
  ultimately show ?thesis by simp
qed

theorem readLoop_respects_limit_witness:
  "\<exists>s'. readLoop (\<lambda>_. 7) sample_conf (map ReadData [frame_of (\<lambda>_. 7) [5]]) new_read_state = Returns (s', False)
     \<and> received s' = [[5]] \<and> length [5 :: byte] \<le> 4"
proof -
  have "\<forall>p \<in> set [[5]]. acceptable sample_conf p"
    by (simp add: sample_conf_def acceptable_def packable_def MaxFrameHeaderSize_def HashSize_def MaxVintSize_def overReceiveLimit_def)
  from readLoop_frames_all [OF this, of "[frame_of (\<lambda>_. 7) [5]]" "\<lambda>_. 7"] obtain s' where
    run: "readLoop (\<lambda>_. 7) sample_conf (map ReadData [frame_of (\<lambda>_. 7) [5]]) new_read_state = Returns (s', False)"
    and r: "received s' = [[5]]" by (auto simp: frames_def)
  with readLoop_respects_limit [OF run, of "[5]"] show ?thesis by (simp add: sample_conf_def)
qed

text \<open>A chunk that announces a payload length beyond the signed 64-bit range makes the reader of a fresh
  connection panic: the announced frame size wraps around to a small number, and the slice taken for
  the payload is out of bounds.\<close>

theorem readLoop_bad_length_panics:
  assumes "5 \<le> length chunk" and "length chunk \<le> DataSmallSize" and "ReadVint (drop 4 chunk) = (len, n)" and "n \<noteq> 0"
    and "bad_length n len" and "announced n len \<le> int (length chunk)"
  shows "readLoop sum32 conf [ReadData chunk] new_read_state = Panics"
proof -
  let ?buf = "chunk @ make_bytes (DataSmallSize - length chunk)"
  let ?s = "new_read_state\<lparr>readHead := \<lparr>rh_buffer = ?buf, rh_len = length chunk\<rparr>\<rparr>"
  have win: "take (length chunk) (drop 0 ?buf) = chunk" "0 + length chunk \<le> length ?buf" "4 < length chunk"
    using assms(1) by simp_all
  have bad: "slice ?buf (int 0 + int (HashSize + n)) (wrap64 (int 0 + int (HashSize + n) + int_of_uint64 len)) = Panics"
    using slice_bad_length [OF assms(5), of ?buf 0] by (simp only: HashSize_def)
  have "processReadHeadFrames_loop sum32 conf ?buf 0 (length chunk) ?s False = Panics"
    unfolding processReadHeadFrames_loop.simps [of sum32 conf ?buf 0 "length chunk"] head_window [OF win]
    using assms bad by (simp add: HashSize_def Let_def)
  then have "processReadHeadFrames sum32 conf ?s = Panics"
    by (simp add: processReadHeadFrames_def Let_def)
  moreover have "copy_at 0 chunk (make_bytes DataSmallSize) = ?buf"
    using assms(2) by (simp add: copy_at_fits make_bytes_def)
  moreover have "chunk \<noteq> []" using assms(1) by auto
  ultimately show ?thesis
    using assms(2) by (simp add: readLoop_feed.simps feedHead_def new_read_state_def Let_def DataSmallSize_def)
qed

theorem readLoop_bad_length_panics_witness:
  "readLoop (\<lambda>_. 0) sample_conf [ReadData ([1, 2, 3, 4, 0x81] @ replicate 8 0x80 @ [0])] new_read_state = Panics"
proof (rule readLoop_bad_length_panics [where len = "0x8000000000000000" and n = 10])
  show "ReadVint (drop 4 ([1, 2, 3, 4, 0x81] @ replicate 8 0x80 @ [0])) = (0x8000000000000000, 10)" by code_simp
  have "int_of_uint64 0x8000000000000000 < 0" by code_simp
  then show "bad_length 10 0x8000000000000000" by (simp add: bad_length_def)
  show "announced 10 0x8000000000000000 \<le> int (length ([1, 2, 3, 4, 0x81] @ replicate 8 0x80 @ [0 :: byte]))" by code_simp
qed (simp_all add: DataSmallSize_def)

end
