(* ===== verification/Io_Write.thy ===== *)
theory Io_Write
  imports Io_Stream
begin

unbundle bit_operations_syntax

section \<open>The sending side and the life of a connection (channel/io\_stream/channel\_io\_stream.go)\<close>

text \<open>
  A connection's write queue, the write loop with its merging of small frames, and the teardown.
  The socket is a script: what the next calls of \<open>Write\<close> will do (how many bytes they take, or an
  error); once the script is used up every call takes all it is given. What was taken is the wire.
  The goroutines that share a connection interleave: the second half of the theory is a step
  relation whose steps are the atomic parts of \<open>Send\<close>, \<open>disconnectInternal\<close> and \<open>disconnectRun\<close>.
\<close>

datatype IoStreamConnectionStatus = Created | Connected | Disconnecting | Disconnected

definition IoStreamConnectionFlag_Listen :: uint32 where "IoStreamConnectionFlag_Listen = 0x01"
definition IoStreamConnectionFlag_Connect :: uint32 where "IoStreamConnectionFlag_Connect = 0x02"
definition IoStreamConnectionFlag_Accept :: uint32 where "IoStreamConnectionFlag_Accept = 0x04"
definition IoStreamConnectionFlag_Writing :: uint32 where "IoStreamConnectionFlag_Writing = 0x08"
definition IoStreamConnectionFlag_Closing :: uint32 where "IoStreamConnectionFlag_Closing = 0x10"

datatype write_result = Wrote nat | WriteError

datatype io_event = EventWritten ErrorType bytes | EventDisconnected

record IoStreamConnection =
  ic_status :: IoStreamConnectionStatus
  ic_flags :: uint32
  ic_closed :: bool
  ic_writeQueue :: "bytes list"
  ic_writeQueueClosed :: bool
  ic_disconnectCh :: bool
  ic_registered :: bool
  ic_wire :: bytes
  ic_script :: "write_result list"
  ic_events :: "io_event list"

definition SetFlag :: "uint32 \<Rightarrow> bool \<Rightarrow> IoStreamConnection \<Rightarrow> IoStreamConnection" where
  "SetFlag f v c = (if v then c\<lparr>ic_flags := ic_flags c OR f\<rparr> else c\<lparr>ic_flags := ic_flags c AND NOT f\<rparr>)"

definition GetFlag :: "uint32 \<Rightarrow> IoStreamConnection \<Rightarrow> bool" where
  "GetFlag f c \<longleftrightarrow> ic_flags c AND f \<noteq> 0"

definition createConnection :: "uint32 \<Rightarrow> write_result list \<Rightarrow> IoStreamConnection" where
  "createConnection flag script =
     \<lparr>ic_status = Connected, ic_flags = flag, ic_closed = False, ic_writeQueue = [], ic_writeQueueClosed = False,
      ic_disconnectCh = False, ic_registered = True, ic_wire = [], ic_script = script, ic_events = []\<rparr>"

definition fire :: "io_event \<Rightarrow> IoStreamConnection \<Rightarrow> IoStreamConnection" where
  "fire e c = c\<lparr>ic_events := ic_events c @ [e]\<rparr>"

subsection \<open>Sending\<close>

text \<open>
  The checks of \<open>Send\<close> and the framing, then the non-blocking put into the queue. A put into a closed
  queue panics; \<open>channelClosed\<close> is the channel's \<open>closed\<close> flag and \<open>ctxDone\<close> its cancelled context, which
  Go's \<open>select\<close> may take when the queue has room too (the parameter \<open>preferDone\<close>).
\<close>

definition Send_check :: "IoStreamConfigure \<Rightarrow> hash_fun \<Rightarrow> bool \<Rightarrow> bytes \<Rightarrow> IoStreamConnection option \<Rightarrow> ErrorType + bytes" where
  "Send_check conf sum32 channelClosed data conn =
     (if channelClosed then Inl EN_ATBUS_ERR_CHANNEL_CLOSING
      else case conn of
        None \<Rightarrow> Inl EN_ATBUS_ERR_CLOSING
      | Some c \<Rightarrow>
          if ic_closed c then Inl EN_ATBUS_ERR_CLOSING
          else if ic_status c \<noteq> Connected then Inl EN_ATBUS_ERR_CLOSING
          else if 0 < SendBufferLimitSize conf \<and> SendBufferLimitSize conf < of_nat (length data)
          then Inl EN_ATBUS_ERR_INVALID_SIZE
          else
            let frameSize = PackFrameSize (of_nat (length data));
                (written, frame) = PackFrame sum32 data (make_bytes (nat frameSize))
            in if int written \<noteq> frameSize then Inl EN_ATBUS_ERR_MALLOC else Inr frame)"

definition Send_enqueue ::
  "bool \<Rightarrow> bool \<Rightarrow> bytes \<Rightarrow> IoStreamConnection \<Rightarrow> (IoStreamConnection \<times> ErrorType) outcome" where
  "Send_enqueue ctxDone preferDone frame c =
     (if ic_writeQueueClosed c then (if ctxDone \<and> preferDone then Returns (c, EN_ATBUS_ERR_CHANNEL_CLOSING) else Panics)
      else if length (ic_writeQueue c) < DefaultWriteQueueSize \<and> \<not> (ctxDone \<and> preferDone)
      then Returns (c\<lparr>ic_writeQueue := ic_writeQueue c @ [frame]\<rparr>, EN_ATBUS_ERR_SUCCESS)
      else if ctxDone then Returns (c, EN_ATBUS_ERR_CHANNEL_CLOSING)
      else Returns (c, EN_ATBUS_ERR_BUFF_LIMIT))"

definition Send ::
  "IoStreamConfigure \<Rightarrow> hash_fun \<Rightarrow> bool \<Rightarrow> bool \<Rightarrow> bool \<Rightarrow> bytes \<Rightarrow> IoStreamConnection
    \<Rightarrow> (IoStreamConnection \<times> ErrorType) outcome" where
  "Send conf sum32 channelClosed ctxDone preferDone data c =
     (case Send_check conf sum32 channelClosed data (Some c) of
        Inl e \<Rightarrow> Returns (c, e)
      | Inr frame \<Rightarrow> Send_enqueue ctxDone preferDone frame c)"

subsection \<open>Writing\<close>

definition extractFramePayload :: "bytes \<Rightarrow> bytes outcome" where
  "extractFramePayload frame =
     (if length frame \<le> HashSize then Returns []
      else let (payloadLen, headerSize, _) = TryUnpackFrameHeader frame;
               stop = wrap64 (int headerSize + int_of_uint64 payloadLen) in
        if headerSize \<le> 0 \<or> int (length frame) < stop then Returns []
        else slice frame (int headerSize) stop)"

text \<open>The loop over \<open>conn.conn.Write\<close>: what reached the wire, whether all did, and the rest of the script.\<close>

fun write_all :: "write_result list \<Rightarrow> bytes \<Rightarrow> bytes \<times> bool \<times> write_result list" where
  "write_all [] data = (data, True, [])"
| "write_all (r # script) data =
     (if data = [] then ([], True, r # script)
      else case r of
        WriteError \<Rightarrow> ([], False, script)
      | Wrote n \<Rightarrow>
          let (wire, ok, script') = write_all script (drop n data) in (take n data @ wire, ok, script'))"

definition put_on_wire :: "bytes \<Rightarrow> IoStreamConnection \<Rightarrow> IoStreamConnection \<times> bool" where
  "put_on_wire data c =
     (let (wire, ok, script) = write_all (ic_script c) data
      in (c\<lparr>ic_wire := ic_wire c @ wire, ic_script := script\<rparr>, ok))"

definition writeFrameAndNotify :: "bytes \<Rightarrow> IoStreamConnection \<Rightarrow> (IoStreamConnection \<times> bool) outcome" where
  "writeFrameAndNotify data c =
     (let c = SetFlag IoStreamConnectionFlag_Writing True c in
      bind_outcome (extractFramePayload data) (\<lambda>payload.
      let (c, ok) = put_on_wire data c;
          c = SetFlag IoStreamConnectionFlag_Writing False c
      in if ok then Returns (fire (EventWritten 0 payload) c, True)
         else Returns (fire (EventWritten EN_ATBUS_ERR_WRITE_FAILED payload) c, False)))"

text \<open>The queue is drained as long as it holds frames and the total stays below the merge limit.\<close>

fun collectSmallWrites_loop :: "bytes list \<Rightarrow> bytes list \<Rightarrow> nat \<Rightarrow> bytes list \<times> bytes list" where
  "collectSmallWrites_loop [] fs totalSize = (fs, [])"
| "collectSmallWrites_loop (data # queue) fs totalSize =
     (if totalSize < MergeBufferMaxSize then
        (let fs = fs @ [data]; totalSize = totalSize + length data in
         if MergeBufferMaxSize \<le> totalSize then (fs, queue)
         else collectSmallWrites_loop queue fs totalSize)
      else (fs, data # queue))"

definition collectSmallWrites :: "bytes \<Rightarrow> IoStreamConnection \<Rightarrow> IoStreamConnection \<times> bytes list" where
  "collectSmallWrites first c =
     (let (fs, queue) = collectSmallWrites_loop (ic_writeQueue c) [first] (length first)
      in (c\<lparr>ic_writeQueue := queue\<rparr>, fs))"

fun merge_frames :: "bytes \<Rightarrow> nat \<Rightarrow> bytes list \<Rightarrow> bytes" where
  "merge_frames merged pos [] = merged"
| "merge_frames merged pos (f # fs) = merge_frames (copy_at pos f merged) (pos + length f) fs"

fun notify_frames :: "ErrorType \<Rightarrow> bytes list \<Rightarrow> IoStreamConnection \<Rightarrow> IoStreamConnection outcome" where
  "notify_frames status [] c = Returns c"
| "notify_frames status (f # fs) c =
     bind_outcome (extractFramePayload f) (\<lambda>payload. notify_frames status fs (fire (EventWritten status payload) c))"

definition writeMergedFramesAndNotify ::
  "bytes list \<Rightarrow> IoStreamConnection \<Rightarrow> (IoStreamConnection \<times> bool) outcome" where
  "writeMergedFramesAndNotify fs c =
     (let c = SetFlag IoStreamConnectionFlag_Writing True c;
          totalSize = sum_list (map length fs);
          merged = merge_frames (make_bytes totalSize) 0 fs;
          (c, ok) = put_on_wire merged c;
          c = SetFlag IoStreamConnectionFlag_Writing False c
      in if ok then map_outcome_val (\<lambda>c. (c, True)) (notify_frames 0 fs c)
         else map_outcome_val (\<lambda>c. (c, False)) (notify_frames EN_ATBUS_ERR_WRITE_FAILED fs c))"

text \<open>\<open>drainRemainingWrites\<close> stops at an empty queue (the \<open>default\<close> case), a closed connection or a failed write.\<close>

fun drain_loop :: "bytes list \<Rightarrow> IoStreamConnection \<Rightarrow> IoStreamConnection outcome" where
  "drain_loop [] c = Returns c"
| "drain_loop (data # queue) c =
     (let c = c\<lparr>ic_writeQueue := queue\<rparr> in
      if ic_closed c then Returns c
      else bind_outcome (writeFrameAndNotify data c) (\<lambda>(c, ok).
        if ok then drain_loop queue c else Returns c))"

definition drainRemainingWrites :: "IoStreamConnection \<Rightarrow> IoStreamConnection outcome" where
  "drainRemainingWrites c = drain_loop (ic_writeQueue c) c"

text \<open>
  One iteration of \<open>writeLoop\<close> that took a frame from the queue: the connection and whether the loop
  goes on.
\<close>

definition writeLoop_frame :: "bytes \<Rightarrow> IoStreamConnection \<Rightarrow> (IoStreamConnection \<times> bool) outcome" where
  "writeLoop_frame data c =
     (if ic_closed c then Returns (c, False)
      else
        bind_outcome
          (if length data \<le> DataSmallSize \<and> ic_writeQueue c \<noteq> [] then
             (let (c, fs) = collectSmallWrites data c in
              if 1 < length fs then writeMergedFramesAndNotify fs c else writeFrameAndNotify data c)
           else writeFrameAndNotify data c) (\<lambda>(c, ok).
        if \<not> ok then Returns (c, False)
        else if ic_status c = Disconnecting then map_outcome_val (\<lambda>c. (c, False)) (drainRemainingWrites c)
        else Returns (c, True)))"

subsection \<open>Teardown\<close>

text \<open>
  \<open>disconnectRun\<close> in its two parts: the atomic swap of \<open>closed\<close>, which only one caller wins, and the work
  of the winner. Closing a closed Go channel panics.
\<close>

definition disconnectRun_swap :: "IoStreamConnection \<Rightarrow> IoStreamConnection \<times> bool" where
  "disconnectRun_swap c = (c\<lparr>ic_closed := True\<rparr>, \<not> ic_closed c)"

definition disconnectRun_teardown :: "IoStreamConnection \<Rightarrow> IoStreamConnection outcome" where
  "disconnectRun_teardown c =
     (let c = SetFlag IoStreamConnectionFlag_Closing True c in
      if ic_writeQueueClosed c then Panics
      else
        let c = c\<lparr>ic_writeQueueClosed := True\<rparr>;
            c = c\<lparr>ic_registered := False\<rparr>;
            c = c\<lparr>ic_status := Disconnected\<rparr>
        in Returns (fire EventDisconnected c))"

definition disconnectRun :: "IoStreamConnection \<Rightarrow> (IoStreamConnection \<times> ErrorType) outcome" where
  "disconnectRun c =
     (let (c, won) = disconnectRun_swap c in
      if won then map_outcome_val (\<lambda>c. (c, EN_ATBUS_ERR_SUCCESS)) (disconnectRun_teardown c)
      else Returns (c, EN_ATBUS_ERR_SUCCESS))"

text \<open>
  \<open>disconnectInternal\<close> likewise: the status change under the mutex, and what its caller does next.
  \<open>disconnectOnce\<close> closes \<open>disconnectCh\<close> at most once.
\<close>

definition disconnectInternal_status :: "IoStreamConnection \<Rightarrow> IoStreamConnection \<times> bool" where
  "disconnectInternal_status c =
     (if ic_status c \<noteq> Connected then (c, False) else (c\<lparr>ic_status := Disconnecting\<rparr>, True))"

definition disconnectInternal ::
  "bool \<Rightarrow> IoStreamConnection option \<Rightarrow> (IoStreamConnection option \<times> ErrorType) outcome" where
  "disconnectInternal force conn =
     (case conn of
        None \<Rightarrow> Returns (None, EN_ATBUS_ERR_PARAMS)
      | Some c \<Rightarrow>
          let (c, changed) = disconnectInternal_status c in
          if \<not> changed then
            (if force then map_outcome_val (\<lambda>(c, e). (Some c, e)) (disconnectRun c)
             else Returns (Some c, EN_ATBUS_ERR_SUCCESS))
          else if \<not> force \<and> GetFlag IoStreamConnectionFlag_Writing c then Returns (Some c, EN_ATBUS_ERR_SUCCESS)
          else if \<not> force then Returns (Some (c\<lparr>ic_disconnectCh := True\<rparr>), EN_ATBUS_ERR_SUCCESS)
          else map_outcome_val (\<lambda>(c, e). (Some c, e)) (disconnectRun c))"

definition Disconnect :: "IoStreamConnection option \<Rightarrow> (IoStreamConnection option \<times> ErrorType) outcome" where
  "Disconnect conn =
     (if conn = None then Returns (None, EN_ATBUS_ERR_PARAMS) else disconnectInternal False conn)"

subsection \<open>The write loop\<close>

text \<open>
  \<open>writeLoop\<close> for the cases its \<open>select\<close> takes one after the other. A case that is not ready (an empty open
  queue, an open \<open>disconnectCh\<close>) cannot be taken: the loop keeps waiting. The result says whether the
  loop is still running; when it returns, the deferred \<open>disconnectRun\<close> has run.
\<close>

datatype write_pick = PickContextDone | PickWriteQueue | PickDisconnectCh

definition writeLoop_exit :: "IoStreamConnection \<Rightarrow> (IoStreamConnection \<times> bool) outcome" where
  "writeLoop_exit c = map_outcome_val (\<lambda>(c, _). (c, False)) (disconnectRun c)"

fun writeLoop :: "write_pick list \<Rightarrow> IoStreamConnection \<Rightarrow> (IoStreamConnection \<times> bool) outcome" where
  "writeLoop [] c = Returns (c, True)"
| "writeLoop (PickContextDone # picks) c = writeLoop_exit c"
| "writeLoop (PickDisconnectCh # picks) c =
     (if ic_disconnectCh c then bind_outcome (drainRemainingWrites c) writeLoop_exit else writeLoop picks c)"
| "writeLoop (PickWriteQueue # picks) c =
     (case ic_writeQueue c of
        [] \<Rightarrow> if ic_writeQueueClosed c then writeLoop_exit c else writeLoop picks c
      | data # queue \<Rightarrow>
          bind_outcome (writeLoop_frame data (c\<lparr>ic_writeQueue := queue\<rparr>)) (\<lambda>(c, continue).
          if continue then writeLoop picks c else writeLoop_exit c))"

subsection \<open>What reaches the wire\<close>

definition no_write_error :: "IoStreamConnection \<Rightarrow> bool" where
  "no_write_error c \<longleftrightarrow> WriteError \<notin> set (ic_script c)"

lemma write_all_ok:
  "WriteError \<notin> set script \<Longrightarrow>
   \<exists>script'. write_all script data = (data, True, script') \<and> set script' \<subseteq> set script"
proof (induction script data rule: write_all.induct)
  case (2 r script data)
  show ?case
  proof (cases "data = []")
    case False
    with 2 obtain n where r: "r = Wrote n" by (cases r) auto
    from 2 False r obtain script' where "write_all script (drop n data) = (drop n data, True, script')" "set script' \<subseteq> set script"
      by auto
    with False r show ?thesis by auto
  qed simp
qed simp

lemma put_on_wire_ok:
  assumes "no_write_error c"
  shows "\<exists>script. put_on_wire data c = (c\<lparr>ic_wire := ic_wire c @ data, ic_script := script\<rparr>, True) \<and> WriteError \<notin> set script"
proof -
  obtain script where "write_all (ic_script c) data = (data, True, script)" "set script \<subseteq> set (ic_script c)"
    using write_all_ok assms unfolding no_write_error_def by blast
  then show ?thesis using assms by (auto simp: put_on_wire_def no_write_error_def)
qed

lemma extractFramePayload_frame:
  assumes "packable p"
  shows "extractFramePayload (frame_of sum32 p) = Returns p"
proof -
  let ?v = "of_nat (length p) :: uint64" let ?n = "VintEncodedSize ?v"
  have len: "5 \<le> length (frame_of sum32 p)" using VintEncodedSize_bounds [of ?v] by (simp add: length_frame_of HashSize_def)
  have rd: "ReadVint (drop 4 (frame_of sum32 p)) = (?v, ?n)"
    using ReadVint_vint_bytes [of ?v p] frame_of_parts(2) [of sum32 p "[]"] by (simp add: VintEncodedSize_vint_bytes)
  have h: "TryUnpackFrameHeader (frame_of sum32 p) = (?v, 4 + ?n, False)"
    using len rd VintEncodedSize_bounds [of ?v] by (simp add: TryUnpackFrameHeader_def HashSize_def)
  have w: "wrap64 (int (4 + ?n) + int_of_uint64 ?v) = int (length (frame_of sum32 p))"
    using announced_frame [OF assms, of sum32] by (simp add: announced_def HashSize_def)
  show ?thesis
    using len h w frame_slice [OF assms, of sum32 "[]"] by (simp add: extractFramePayload_def HashSize_def)
qed

lemma merge_frames_concat:
  "length pre + sum_list (map length fs) = length buf \<Longrightarrow> take (length pre) buf = pre \<Longrightarrow>
   merge_frames buf (length pre) fs = pre @ concat fs"
proof (induction fs arbitrary: pre buf)
  case (Cons f fs)
  let ?buf = "copy_at (length pre) f buf"
  have "take (length (pre @ f)) ?buf = pre @ f" using Cons.prems by (simp add: copy_at_fits)
  with Cons.IH [of "pre @ f" ?buf] Cons.prems show ?case by simp
qed simp

lemma collect_partition:
  "collectSmallWrites_loop queue fs n = (fs', queue') \<Longrightarrow> \<exists>taken. fs' = fs @ taken \<and> queue = taken @ queue'"
proof (induction queue arbitrary: fs n)
  case (Cons data queue)
  show ?case
  proof (cases "n < MergeBufferMaxSize \<and> n + length data < MergeBufferMaxSize")
    case True
    with Cons.prems have "collectSmallWrites_loop queue (fs @ [data]) (n + length data) = (fs', queue')"
      by (simp add: Let_def)
    from Cons.IH [OF this] show ?thesis by auto
  qed (use Cons.prems in \<open>auto simp: Let_def split: if_splits\<close>)
qed simp

text \<open>What a connection looks like after writing the frames of \<open>ps\<close> without an error.\<close>

definition wrote :: "hash_fun \<Rightarrow> bytes list \<Rightarrow> IoStreamConnection \<Rightarrow> IoStreamConnection \<Rightarrow> bool" where
  "wrote sum32 ps c c' \<longleftrightarrow> ic_wire c' = ic_wire c @ frames sum32 ps
     \<and> ic_events c' = ic_events c @ map (EventWritten 0) ps
     \<and> no_write_error c' \<and> ic_status c' = ic_status c \<and> ic_closed c' = ic_closed c
     \<and> ic_writeQueueClosed c' = ic_writeQueueClosed c \<and> ic_disconnectCh c' = ic_disconnectCh c"

lemma wrote_trans: "wrote sum32 ps a b \<Longrightarrow> wrote sum32 qs b c \<Longrightarrow> wrote sum32 (ps @ qs) a c"
  by (simp add: wrote_def)

lemma SetFlag_fields [simp]:
  "ic_status (SetFlag f v c) = ic_status c" "ic_closed (SetFlag f v c) = ic_closed c"
  "ic_writeQueue (SetFlag f v c) = ic_writeQueue c" "ic_wire (SetFlag f v c) = ic_wire c"
  "ic_script (SetFlag f v c) = ic_script c" "ic_events (SetFlag f v c) = ic_events c"
  "ic_writeQueueClosed (SetFlag f v c) = ic_writeQueueClosed c" "ic_disconnectCh (SetFlag f v c) = ic_disconnectCh c"
  "no_write_error (SetFlag f v c) = no_write_error c"
  by (simp_all add: SetFlag_def no_write_error_def)

lemma writeFrameAndNotify_wrote:
  assumes "no_write_error c" and "packable p"
  shows "\<exists>c'. writeFrameAndNotify (frame_of sum32 p) c = Returns (c', True) \<and> wrote sum32 [p] c c'
    \<and> ic_writeQueue c' = ic_writeQueue c"
proof -
  obtain script where "put_on_wire (frame_of sum32 p) (SetFlag IoStreamConnectionFlag_Writing True c) =
      ((SetFlag IoStreamConnectionFlag_Writing True c)\<lparr>ic_wire := ic_wire c @ frame_of sum32 p, ic_script := script\<rparr>, True)"
      "WriteError \<notin> set script"
    using put_on_wire_ok [of "SetFlag IoStreamConnectionFlag_Writing True c" "frame_of sum32 p"] assms(1) by auto
  then show ?thesis
    using extractFramePayload_frame [OF assms(2), of sum32]
    by (simp add: writeFrameAndNotify_def wrote_def fire_def no_write_error_def Let_def)
qed

lemma notify_frames_wrote:
  "\<forall>p \<in> set ps. packable p \<Longrightarrow> notify_frames status (map (frame_of sum32) ps) c
     = Returns (c\<lparr>ic_events := ic_events c @ map (EventWritten status) ps\<rparr>)"
  by (induction ps arbitrary: c) (simp_all add: extractFramePayload_frame fire_def)

lemma writeMerged_wrote:
  assumes "no_write_error c" and "\<forall>p \<in> set ps. packable p"
  shows "\<exists>c'. writeMergedFramesAndNotify (map (frame_of sum32) ps) c = Returns (c', True) \<and> wrote sum32 ps c c'
    \<and> ic_writeQueue c' = ic_writeQueue c"
proof -
  let ?fs = "map (frame_of sum32) ps" let ?c = "SetFlag IoStreamConnectionFlag_Writing True c"
  have merged: "merge_frames (make_bytes (sum_list (map length ?fs))) 0 ?fs = frames sum32 ps"
    using merge_frames_concat [of "[]" ?fs "make_bytes (sum_list (map length ?fs))"] by (simp add: frames_def)
  obtain script where "put_on_wire (frames sum32 ps) ?c = (?c\<lparr>ic_wire := ic_wire c @ frames sum32 ps, ic_script := script\<rparr>, True)"
      "WriteError \<notin> set script"
    using put_on_wire_ok [of ?c "frames sum32 ps"] assms(1) by auto
  then show ?thesis
    unfolding writeMergedFramesAndNotify_def Let_def merged
    by (simp add: notify_frames_wrote [OF assms(2)] wrote_def no_write_error_def)
qed

lemma drain_loop_wrote:
  "no_write_error c \<Longrightarrow> \<not> ic_closed c \<Longrightarrow> \<forall>p \<in> set ps. packable p \<Longrightarrow> ic_writeQueue c = map (frame_of sum32) ps \<Longrightarrow>
   \<exists>c'. drain_loop (map (frame_of sum32) ps) c = Returns c' \<and> wrote sum32 ps c c' \<and> ic_writeQueue c' = []"
proof (induction ps arbitrary: c)
  case (Cons p ps)
  let ?c = "c\<lparr>ic_writeQueue := map (frame_of sum32) ps\<rparr>"
  obtain c1 where c1: "writeFrameAndNotify (frame_of sum32 p) ?c = Returns (c1, True)" "wrote sum32 [p] ?c c1"
    "ic_writeQueue c1 = map (frame_of sum32) ps"
    using writeFrameAndNotify_wrote [of ?c p sum32] Cons.prems by (auto simp: no_write_error_def)
  obtain c' where "drain_loop (map (frame_of sum32) ps) c1 = Returns c'" "wrote sum32 ps c1 c'" "ic_writeQueue c' = []"
    using Cons.IH [of c1] Cons.prems c1 by (auto simp: wrote_def)
  with c1 Cons.prems show ?case by (auto simp: wrote_def)
qed (simp add: wrote_def)

lemma writeLoop_frame_writes:
  assumes "no_write_error c" and "\<not> ic_closed c" and "\<forall>p \<in> set (p # ps). packable p"
    and "ic_writeQueue c = map (frame_of sum32) ps"
  shows "\<exists>qs rs c'. ps = qs @ rs \<and> writeLoop_frame (frame_of sum32 p) c =
      (if ic_status c = Disconnecting then map_outcome_val (\<lambda>c. (c, False)) (drainRemainingWrites c') else Returns (c', True))
    \<and> wrote sum32 (p # qs) c c' \<and> ic_writeQueue c' = map (frame_of sum32) rs"
proof -
  have single: "\<exists>c'. writeFrameAndNotify (frame_of sum32 p) c = Returns (c', True) \<and> wrote sum32 [p] c c'
      \<and> ic_writeQueue c' = ic_writeQueue c"
    using writeFrameAndNotify_wrote [OF assms(1)] assms(3) by simp
  show ?thesis
  proof (cases "length (frame_of sum32 p) \<le> DataSmallSize \<and> ic_writeQueue c \<noteq> []")
    case False
    with single assms(2,4) show ?thesis
      by (intro exI [of _ "[]"] exI [of _ ps]) (auto simp: writeLoop_frame_def wrote_def)
  next
    case True
    obtain fs queue where col: "collectSmallWrites_loop (ic_writeQueue c) [frame_of sum32 p] (length (frame_of sum32 p)) = (fs, queue)"
      by fastforce
    obtain taken where taken: "fs = [frame_of sum32 p] @ taken" "ic_writeQueue c = taken @ queue"
      using collect_partition [OF col] by blast
    then obtain qs rs where ps: "ps = qs @ rs" "taken = map (frame_of sum32) qs" "queue = map (frame_of sum32) rs"
      using assms(4) by (auto simp: map_eq_append_conv)
    let ?c = "c\<lparr>ic_writeQueue := queue\<rparr>"
    have c: "no_write_error ?c" "packable p" "\<forall>x \<in> set (p # qs). packable x" using assms(1,3) ps(1) by (auto simp: no_write_error_def)
    have "\<exists>c'. (if 1 < length fs then writeMergedFramesAndNotify fs ?c else writeFrameAndNotify (frame_of sum32 p) ?c)
        = Returns (c', True) \<and> wrote sum32 (p # qs) ?c c' \<and> ic_writeQueue c' = queue"
      using writeMerged_wrote [OF c(1,3), of sum32] writeFrameAndNotify_wrote [OF c(1,2), of sum32] taken(1) ps(2)
      by (cases qs) simp_all
    then obtain c' where c': "(if 1 < length fs then writeMergedFramesAndNotify fs ?c else writeFrameAndNotify (frame_of sum32 p) ?c)
        = Returns (c', True)" "wrote sum32 (p # qs) ?c c'" "ic_writeQueue c' = queue" by blast
    have "writeLoop_frame (frame_of sum32 p) c = bind_outcome
        (if 1 < length fs then writeMergedFramesAndNotify fs ?c else writeFrameAndNotify (frame_of sum32 p) ?c) (\<lambda>(c, ok).
        if \<not> ok then Returns (c, False)
        else if ic_status c = Disconnecting then map_outcome_val (\<lambda>c. (c, False)) (drainRemainingWrites c)
        else Returns (c, True))"
      using True col assms(2) by (simp add: writeLoop_frame_def collectSmallWrites_def)
    moreover have w: "wrote sum32 (p # qs) c c'" using c'(2) by (simp add: wrote_def)
    ultimately have "writeLoop_frame (frame_of sum32 p) c =
        (if ic_status c = Disconnecting then map_outcome_val (\<lambda>c. (c, False)) (drainRemainingWrites c') else Returns (c', True))"
      using c'(1) by (simp only:) (simp add: wrote_def)
    with ps(1,3) w c'(3) show ?thesis by blast
  qed
qed

lemma writeLoop_wrote:
  "no_write_error c \<Longrightarrow> \<not> ic_closed c \<Longrightarrow> \<not> ic_writeQueueClosed c \<Longrightarrow> ic_status c = Connected \<Longrightarrow>
   \<forall>p \<in> set ps. packable p \<Longrightarrow> ic_writeQueue c = map (frame_of sum32) ps \<Longrightarrow> length ps \<le> n \<Longrightarrow>
   \<exists>c'. writeLoop (replicate n PickWriteQueue) c = Returns (c', True) \<and> wrote sum32 ps c c' \<and> ic_writeQueue c' = []"
proof (induction n arbitrary: c ps)
  case 0
  then show ?case by (simp add: wrote_def)
next
  case (Suc n)
  show ?case
  proof (cases ps)
    case Nil
    with Suc.prems Suc.IH [of c "[]"] show ?thesis by simp
  next
    case (Cons p ps')
    let ?c = "c\<lparr>ic_writeQueue := map (frame_of sum32) ps'\<rparr>"
    have pre: "no_write_error ?c" "\<not> ic_closed ?c" using Suc.prems by (simp_all add: no_write_error_def)
    obtain qs rs c1 where step: "ps' = qs @ rs" "writeLoop_frame (frame_of sum32 p) ?c = Returns (c1, True)"
      "wrote sum32 (p # qs) ?c c1" "ic_writeQueue c1 = map (frame_of sum32) rs"
      using writeLoop_frame_writes [OF pre, of p ps' sum32] Suc.prems(4,5) Cons by auto
    have c1: "wrote sum32 (p # qs) c c1" using step(3) by (simp add: wrote_def)
    obtain c' where "writeLoop (replicate n PickWriteQueue) c1 = Returns (c', True)" "wrote sum32 rs c1 c'" "ic_writeQueue c' = []"
      using Suc.IH [of c1 rs] Suc.prems c1 step(1,4) Cons by (auto simp: wrote_def)
    then show ?thesis
      using wrote_trans [OF c1, of rs c'] Suc.prems(6) Cons step(1,2) by simp
  qed
qed

lemma writeLoop_exit_open:
  assumes "\<not> ic_closed c" and "\<not> ic_writeQueueClosed c"
  shows "\<exists>c'. writeLoop_exit c = Returns (c', False) \<and> ic_wire c' = ic_wire c \<and> ic_writeQueue c' = ic_writeQueue c
    \<and> ic_events c' = ic_events c @ [EventDisconnected] \<and> ic_status c' = Disconnected \<and> ic_closed c' \<and> \<not> ic_registered c'"
  using assms
  by (simp add: writeLoop_exit_def disconnectRun_def disconnectRun_swap_def disconnectRun_teardown_def SetFlag_def fire_def Let_def)

text \<open>A connection that is disconnecting: whichever ready case is taken, all that is queued is written before the exit.\<close>

lemma writeLoop_flushes:
  "no_write_error c \<Longrightarrow> \<not> ic_closed c \<Longrightarrow> \<not> ic_writeQueueClosed c \<Longrightarrow> ic_status c = Disconnecting \<Longrightarrow> ic_disconnectCh c \<Longrightarrow>
   \<forall>p \<in> set ps. packable p \<Longrightarrow> ic_writeQueue c = map (frame_of sum32) ps \<Longrightarrow>
   PickDisconnectCh \<in> set picks \<Longrightarrow> PickContextDone \<notin> set picks \<Longrightarrow>
   \<exists>c1. wrote sum32 ps c c1 \<and> ic_writeQueue c1 = [] \<and> writeLoop picks c = writeLoop_exit c1"
proof (induction picks)
  case (Cons pick picks)
  show ?case
  proof (cases "pick = PickDisconnectCh")
    case True
    with Cons.prems drain_loop_wrote [of c ps sum32] show ?thesis by (auto simp: drainRemainingWrites_def)
  next
    case False
    with Cons.prems have pick: "pick = PickWriteQueue" by (cases pick) auto
    show ?thesis
    proof (cases ps)
      case Nil
      with Cons pick show ?thesis by simp
    next
      case (Cons p ps')
      let ?c = "c\<lparr>ic_writeQueue := map (frame_of sum32) ps'\<rparr>"
      have pre: "no_write_error ?c" "\<not> ic_closed ?c" using Cons.prems by (simp_all add: no_write_error_def)
      obtain qs rs c1 where step: "ps' = qs @ rs"
        "writeLoop_frame (frame_of sum32 p) ?c = map_outcome_val (\<lambda>c. (c, False)) (drainRemainingWrites c1)"
        "wrote sum32 (p # qs) ?c c1" "ic_writeQueue c1 = map (frame_of sum32) rs"
        using writeLoop_frame_writes [OF pre, of p ps' sum32] Cons.prems(4,6) Cons by auto
      have c1: "wrote sum32 (p # qs) c c1" using step(3) by (simp add: wrote_def)
      obtain c' where "drainRemainingWrites c1 = Returns c'" "wrote sum32 rs c1 c'" "ic_writeQueue c' = []"
        using drain_loop_wrote [of c1 rs sum32] Cons.prems c1 step(1,4) Cons
        by (auto simp: wrote_def drainRemainingWrites_def)
      then show ?thesis
        using wrote_trans [OF c1, of rs c'] Cons.prems(7) Cons step(1,2) pick by auto
    qed
  qed
qed simp

lemma Send_ok:
  assumes "ic_status c = Connected" and "\<not> ic_closed c" and "\<not> ic_writeQueueClosed c"
    and "length (ic_writeQueue c) < DefaultWriteQueueSize" and "packable p"
    and "SendBufferLimitSize conf = 0 \<or> of_nat (length p) \<le> SendBufferLimitSize conf"
  shows "Send conf sum32 False False preferDone p c
     = Returns (c\<lparr>ic_writeQueue := ic_writeQueue c @ [frame_of sum32 p]\<rparr>, EN_ATBUS_ERR_SUCCESS)"
proof -
  have size: "PackFrameSize (of_nat (length p)) = int (length (frame_of sum32 p))"
    using announced_frame [OF assms(5)] by (simp add: PackFrameSize_def announced_def)
  have "PackFrame sum32 p (make_bytes (length (frame_of sum32 p))) = (length (frame_of sum32 p), frame_of sum32 p)"
    using PackFrame_frame [of sum32 p "make_bytes (length (frame_of sum32 p))"] by simp
  then have "Send_check conf sum32 False p (Some c) = Inr (frame_of sum32 p)"
    using assms size by (auto simp: Send_check_def dest: leD)
  then show ?thesis using assms by (simp add: Send_def Send_enqueue_def)
qed

text \<open>A sender that hands over messages one after the other.\<close>

fun Send_messages ::
  "IoStreamConfigure \<Rightarrow> hash_fun \<Rightarrow> bytes list \<Rightarrow> IoStreamConnection \<Rightarrow> (IoStreamConnection \<times> ErrorType list) outcome" where
  "Send_messages conf sum32 [] c = Returns (c, [])"
| "Send_messages conf sum32 (m # ms) c =
     bind_outcome (Send conf sum32 False False False m c) (\<lambda>(c, e).
     map_outcome_val (\<lambda>(c, es). (c, e # es)) (Send_messages conf sum32 ms c))"

definition sendable :: "IoStreamConfigure \<Rightarrow> bytes \<Rightarrow> bool" where
  "sendable conf p \<longleftrightarrow> packable p \<and> (SendBufferLimitSize conf = 0 \<or> of_nat (length p) \<le> SendBufferLimitSize conf)"

lemma Send_messages_ok:
  "ic_status c = Connected \<Longrightarrow> \<not> ic_closed c \<Longrightarrow> \<not> ic_writeQueueClosed c \<Longrightarrow>
   length (ic_writeQueue c) + length ms \<le> DefaultWriteQueueSize \<Longrightarrow> \<forall>m \<in> set ms. sendable conf m \<Longrightarrow>
   Send_messages conf sum32 ms c = Returns (c\<lparr>ic_writeQueue := ic_writeQueue c @ map (frame_of sum32) ms\<rparr>,
     replicate (length ms) EN_ATBUS_ERR_SUCCESS)"
  by (induction ms arbitrary: c) (simp_all add: Send_ok sendable_def)

text \<open>C26: end to end: up to 1024 messages that respect the size limits of both sides are accepted by \<open>Send\<close> with success;
  whatever the write loop merges and however the socket splits its writes and the peer's reads, the
  peer receives exactly those messages, in order, and every message is reported as written once.\<close>

theorem Send_to_receive:
  assumes "\<forall>m \<in> set ms. sendable conf m \<and> acceptable peer_conf m" and "length ms \<le> DefaultWriteQueueSize"
    and "WriteError \<notin> set script"
  shows "\<exists>c c'. Send_messages conf sum32 ms (createConnection flag script) = Returns (c, replicate (length ms) EN_ATBUS_ERR_SUCCESS)
    \<and> writeLoop (replicate (length ms) PickWriteQueue) c = Returns (c', True) \<and> ic_writeQueue c' = []
    \<and> ic_events c' = map (EventWritten 0) ms
    \<and> (\<forall>chunks. concat chunks = ic_wire c' \<longrightarrow>
        (\<exists>s'. readLoop sum32 peer_conf (map ReadData chunks) new_read_state = Returns (s', False) \<and> received s' = ms))"
proof -
  let ?a = "createConnection flag script"
  let ?c = "?a\<lparr>ic_writeQueue := map (frame_of sum32) ms\<rparr>"
  have send: "Send_messages conf sum32 ms ?a = Returns (?c, replicate (length ms) EN_ATBUS_ERR_SUCCESS)"
    using Send_messages_ok [of ?a ms conf sum32] assms by (simp add: createConnection_def)
  obtain c' where c': "writeLoop (replicate (length ms) PickWriteQueue) ?c = Returns (c', True)" "wrote sum32 ms ?c c'" "ic_writeQueue c' = []"
    using writeLoop_wrote [of ?c ms sum32 "length ms"] assms
    by (auto simp: createConnection_def no_write_error_def sendable_def)
  then have wire: "ic_wire c' = frames sum32 ms" and events: "ic_events c' = map (EventWritten 0) ms"
    by (simp_all add: wrote_def createConnection_def)
  have "\<forall>chunks. concat chunks = ic_wire c' \<longrightarrow>
      (\<exists>s'. readLoop sum32 peer_conf (map ReadData chunks) new_read_state = Returns (s', False) \<and> received s' = ms)"
    using readLoop_frames_all [of ms peer_conf _ sum32] assms(1) wire by fastforce
  with send c'(1,3) events show ?thesis by blast
qed

theorem Send_to_receive_witness:
  "\<exists>c c'. Send_messages zero_IoStreamConfigure (\<lambda>_. 9) [[1], [2, 3]] (createConnection IoStreamConnectionFlag_Connect [Wrote 4, Wrote 0])
       = Returns (c, [EN_ATBUS_ERR_SUCCESS, EN_ATBUS_ERR_SUCCESS])
    \<and> writeLoop [PickWriteQueue, PickWriteQueue] c = Returns (c', True) \<and> ic_writeQueue c' = [] \<and> ic_events c' = [EventWritten 0 [1], EventWritten 0 [2, 3]]"
proof -
  have "\<forall>m \<in> set [[1], [2, 3]]. sendable zero_IoStreamConfigure m \<and> acceptable sample_conf m"
    by (simp add: sendable_def acceptable_def packable_def MaxFrameHeaderSize_def HashSize_def MaxVintSize_def
        zero_IoStreamConfigure_def sample_conf_def overReceiveLimit_def)
  from Send_to_receive [OF this, of "[Wrote 4, Wrote 0]" "\<lambda>_. 9" IoStreamConnectionFlag_Connect]
  show ?thesis
    by (auto simp: DefaultWriteQueueSize_def numeral_2_eq_2 simp del: writeLoop.simps Send_messages.simps)
qed

text \<open>C33: a graceful disconnect loses nothing: messages accepted by \<open>Send\<close> before \<open>Disconnect\<close> are all on the wire, in order,
  and reported as written, before the one disconnected callback; then the connection is closed. The
  write loop may take the queue or the disconnect signal first.\<close>

theorem Disconnect_flushes:
  assumes "\<forall>m \<in> set ms. sendable conf m" and "length ms \<le> DefaultWriteQueueSize" and "WriteError \<notin> set script"
    and "flag AND IoStreamConnectionFlag_Writing = 0"
    and "PickDisconnectCh \<in> set picks" and "PickContextDone \<notin> set picks"
  shows "\<exists>c d c'. Send_messages conf sum32 ms (createConnection flag script) = Returns (c, replicate (length ms) EN_ATBUS_ERR_SUCCESS)
    \<and> Disconnect (Some c) = Returns (Some d, EN_ATBUS_ERR_SUCCESS)
    \<and> writeLoop picks d = Returns (c', False) \<and> ic_wire c' = frames sum32 ms \<and> ic_writeQueue c' = []
    \<and> ic_events c' = map (EventWritten 0) ms @ [EventDisconnected] \<and> ic_status c' = Disconnected \<and> ic_closed c'"
proof -
  let ?a = "createConnection flag script"
  let ?c = "?a\<lparr>ic_writeQueue := map (frame_of sum32) ms\<rparr>"
  let ?d = "?c\<lparr>ic_status := Disconnecting, ic_disconnectCh := True\<rparr>"
  have send: "Send_messages conf sum32 ms ?a = Returns (?c, replicate (length ms) EN_ATBUS_ERR_SUCCESS)"
    using Send_messages_ok [of ?a ms conf sum32] assms by (simp add: createConnection_def)
  have disc: "Disconnect (Some ?c) = Returns (Some ?d, EN_ATBUS_ERR_SUCCESS)"
    using assms(4) by (simp add: Disconnect_def disconnectInternal_def disconnectInternal_status_def GetFlag_def createConnection_def)
  obtain c1 where c1: "wrote sum32 ms ?d c1" "ic_writeQueue c1 = []" "writeLoop picks ?d = writeLoop_exit c1"
    using writeLoop_flushes [of ?d ms sum32 picks] assms by (auto simp: createConnection_def no_write_error_def sendable_def)
  moreover have "\<not> ic_closed c1" "\<not> ic_writeQueueClosed c1" using c1(1) by (simp_all add: wrote_def createConnection_def)
  ultimately obtain c' where "writeLoop picks ?d = Returns (c', False)" "ic_wire c' = ic_wire c1" "ic_writeQueue c' = []"
    "ic_events c' = ic_events c1 @ [EventDisconnected]" "ic_status c' = Disconnected" "ic_closed c'"
    using writeLoop_exit_open [of c1] by auto
  then show ?thesis using send disc c1(1) by (intro exI conjI) (auto simp: wrote_def createConnection_def)
qed

theorem Disconnect_flushes_witness:
  "\<exists>c d c'. Send_messages zero_IoStreamConfigure (\<lambda>_. 9) [[1]] (createConnection IoStreamConnectionFlag_Connect [Wrote 4])
       = Returns (c, [EN_ATBUS_ERR_SUCCESS])
    \<and> Disconnect (Some c) = Returns (Some d, EN_ATBUS_ERR_SUCCESS)
    \<and> writeLoop [PickDisconnectCh] d = Returns (c', False) \<and> ic_events c' = [EventWritten 0 [1], EventDisconnected]"
proof -
  have "\<forall>m \<in> set [[1]]. sendable zero_IoStreamConfigure m"
    by (simp add: sendable_def packable_def MaxFrameHeaderSize_def HashSize_def MaxVintSize_def zero_IoStreamConfigure_def)
  from Disconnect_flushes [OF this, of "[Wrote 4]" IoStreamConnectionFlag_Connect "[PickDisconnectCh]" "\<lambda>_. 9"]
  show ?thesis
    by (auto simp: DefaultWriteQueueSize_def IoStreamConnectionFlag_Connect_def IoStreamConnectionFlag_Writing_def
        simp del: writeLoop.simps Send_messages.simps)
qed

subsection \<open>Interleavings\<close>

text \<open>
  The interleaving of the goroutines that use one connection. Besides the connection, a state counts
  the callers between the two parts of an operation: \<open>ls_signals\<close> (changed the status, force or not),
  \<open>ls_teardowns\<close> (won the swap), \<open>ls_sends\<close> (frames whose \<open>Send\<close> passed its checks). \<open>ls_panicked\<close> records
  that a step panicked.
\<close>

record life_state =
  ls_conn :: IoStreamConnection
  ls_signals :: "bool list"
  ls_teardowns :: nat
  ls_sends :: "bytes list"
  ls_panicked :: bool

definition life_init :: "uint32 \<Rightarrow> write_result list \<Rightarrow> life_state" where
  "life_init flag script = \<lparr>ls_conn = createConnection flag script, ls_signals = [], ls_teardowns = 0, ls_sends = [], ls_panicked = False\<rparr>"

definition life_swap :: "life_state \<Rightarrow> life_state" where
  "life_swap s =
     (let (c, won) = disconnectRun_swap (ls_conn s)
      in s\<lparr>ls_conn := c, ls_teardowns := ls_teardowns s + (if won then 1 else 0)\<rparr>)"

inductive life_step :: "IoStreamConfigure \<Rightarrow> hash_fun \<Rightarrow> life_state \<Rightarrow> life_state \<Rightarrow> bool" for conf sum32 where
  disconnect: "disconnectInternal_status (ls_conn s) = (c, True) \<Longrightarrow>
    life_step conf sum32 s (s\<lparr>ls_conn := c, ls_signals := force # ls_signals s\<rparr>)"
| disconnect_forced_again: "disconnectInternal_status (ls_conn s) = (c, False) \<Longrightarrow> life_step conf sum32 s (life_swap s)"
| signal_deferred: "ls_signals s = as @ False # bs \<Longrightarrow> GetFlag IoStreamConnectionFlag_Writing (ls_conn s) \<Longrightarrow>
    life_step conf sum32 s (s\<lparr>ls_signals := as @ bs\<rparr>)"
| signal: "ls_signals s = as @ False # bs \<Longrightarrow> \<not> GetFlag IoStreamConnectionFlag_Writing (ls_conn s) \<Longrightarrow>
    life_step conf sum32 s (s\<lparr>ls_conn := (ls_conn s)\<lparr>ic_disconnectCh := True\<rparr>, ls_signals := as @ bs\<rparr>)"
| signal_forced: "ls_signals s = as @ True # bs \<Longrightarrow> life_step conf sum32 s (life_swap (s\<lparr>ls_signals := as @ bs\<rparr>))"
| write_loop_exit: "life_step conf sum32 s (life_swap s)"
| teardown: "ls_teardowns s = Suc n \<Longrightarrow> disconnectRun_teardown (ls_conn s) = Returns c \<Longrightarrow>
    life_step conf sum32 s (s\<lparr>ls_conn := c, ls_teardowns := n\<rparr>)"
| teardown_panics: "ls_teardowns s = Suc n \<Longrightarrow> disconnectRun_teardown (ls_conn s) = Panics \<Longrightarrow>
    life_step conf sum32 s (s\<lparr>ls_teardowns := n, ls_panicked := True\<rparr>)"
| send_check: "Send_check conf sum32 False data (Some (ls_conn s)) = Inr frame \<Longrightarrow>
    life_step conf sum32 s (s\<lparr>ls_sends := frame # ls_sends s\<rparr>)"
| send_enqueue: "ls_sends s = as @ frame # bs \<Longrightarrow> Send_enqueue stop prefer frame (ls_conn s) = Returns (c, e) \<Longrightarrow>
    life_step conf sum32 s (s\<lparr>ls_conn := c, ls_sends := as @ bs\<rparr>)"
| send_panics: "ls_sends s = as @ frame # bs \<Longrightarrow> Send_enqueue stop prefer frame (ls_conn s) = Panics \<Longrightarrow>
    life_step conf sum32 s (s\<lparr>ls_sends := as @ bs, ls_panicked := True\<rparr>)"
| writing: "life_step conf sum32 s (s\<lparr>ls_conn := SetFlag IoStreamConnectionFlag_Writing v (ls_conn s)\<rparr>)"
| write_frame: "ic_writeQueue (ls_conn s) = data # queue \<Longrightarrow>
    writeFrameAndNotify data ((ls_conn s)\<lparr>ic_writeQueue := queue\<rparr>) = Returns (c, ok) \<Longrightarrow>
    life_step conf sum32 s (s\<lparr>ls_conn := c\<rparr>)"

inductive life_reachable :: "IoStreamConfigure \<Rightarrow> hash_fun \<Rightarrow> life_state \<Rightarrow> bool" for conf sum32 where
  start: "life_reachable conf sum32 (life_init flag script)"
| step: "life_reachable conf sum32 s \<Longrightarrow> life_step conf sum32 s s' \<Longrightarrow> life_reachable conf sum32 s'"

definition disconnects :: "IoStreamConnection \<Rightarrow> nat" where
  "disconnects c = count_list (ic_events c) EventDisconnected"

definition life_inv :: "life_state \<Rightarrow> bool" where
  "life_inv s \<longleftrightarrow>
     (let c = ls_conn s in
      ls_teardowns s = (if ic_closed c \<and> \<not> ic_writeQueueClosed c then 1 else 0)
      \<and> (ic_writeQueueClosed c \<longrightarrow> ic_closed c)
      \<and> (ic_status c = Disconnected \<longleftrightarrow> ic_writeQueueClosed c)
      \<and> (ic_registered c \<longleftrightarrow> \<not> ic_writeQueueClosed c)
      \<and> disconnects c = (if ic_writeQueueClosed c then 1 else 0))"

lemma SetFlag_life [simp]:
  "ic_registered (SetFlag f v c) = ic_registered c" "disconnects (SetFlag f v c) = disconnects c"
  by (simp_all add: SetFlag_def disconnects_def)

lemma disconnects_simps [simp]:
  "disconnects (fire (EventWritten e p) c) = disconnects c" "disconnects (fire EventDisconnected c) = Suc (disconnects c)"
  "disconnects (c\<lparr>ic_writeQueue := q\<rparr>) = disconnects c" "disconnects (c\<lparr>ic_closed := b\<rparr>) = disconnects c"
  "disconnects (c\<lparr>ic_status := t\<rparr>) = disconnects c" "disconnects (c\<lparr>ic_disconnectCh := b\<rparr>) = disconnects c"
  "disconnects (c\<lparr>ic_wire := w, ic_script := r\<rparr>) = disconnects c"
  "disconnects (c\<lparr>ic_writeQueueClosed := b, ic_registered := d\<rparr>) = disconnects c"
  by (simp_all add: disconnects_def fire_def)

lemma fire_fields [simp]:
  "ic_status (fire e c) = ic_status c" "ic_closed (fire e c) = ic_closed c" "ic_registered (fire e c) = ic_registered c"
  "ic_writeQueueClosed (fire e c) = ic_writeQueueClosed c"
  by (simp_all add: fire_def)

lemma writeFrame_life:
  assumes "writeFrameAndNotify data c = Returns (c', ok)"
  shows "ic_status c' = ic_status c" and "ic_closed c' = ic_closed c" and "ic_registered c' = ic_registered c"
    and "ic_writeQueueClosed c' = ic_writeQueueClosed c" and "disconnects c' = disconnects c"
  using assms
  by (auto simp: writeFrameAndNotify_def put_on_wire_def bind_outcome_Returns_iff Let_def split: prod.splits if_splits)

lemma life_swap_inv: "life_inv s \<Longrightarrow> life_inv (life_swap s)"
  by (auto simp: life_inv_def life_swap_def disconnectRun_swap_def Let_def split: if_splits)

lemma life_inv_frame:
  assumes "life_inv s" and "ls_teardowns s' = ls_teardowns s" and "ic_closed (ls_conn s') = ic_closed (ls_conn s)"
    and "ic_writeQueueClosed (ls_conn s') = ic_writeQueueClosed (ls_conn s)"
    and "ic_status (ls_conn s') = Disconnected \<longleftrightarrow> ic_status (ls_conn s) = Disconnected"
    and "ic_registered (ls_conn s') = ic_registered (ls_conn s)" and "disconnects (ls_conn s') = disconnects (ls_conn s)"
  shows "life_inv s'"
  using assms by (simp add: life_inv_def Let_def)

lemma life_teardown_inv:
  assumes "life_inv s" and "ls_teardowns s = Suc n"
  shows "\<exists>c. disconnectRun_teardown (ls_conn s) = Returns c \<and> life_inv (s\<lparr>ls_conn := c, ls_teardowns := n\<rparr>)"
  using assms by (auto simp: life_inv_def disconnectRun_teardown_def Let_def split: if_splits)

lemma Send_enqueue_life:
  assumes "Send_enqueue d prefer frame c = Returns (c', e)"
  shows "ic_status c' = ic_status c" and "ic_closed c' = ic_closed c" and "ic_registered c' = ic_registered c"
    and "ic_writeQueueClosed c' = ic_writeQueueClosed c" and "disconnects c' = disconnects c"
  using assms by (auto simp: Send_enqueue_def split: if_splits)

lemma life_step_inv:
  assumes "life_step conf sum32 s s'" and "life_inv s"
  shows "life_inv s'"
  using assms(1)
proof (cases rule: life_step.cases)
  case (disconnect c force)
  with assms(2) show ?thesis
    by (auto intro!: life_inv_frame [OF assms(2)] simp: disconnectInternal_status_def split: if_splits)
next
  case (signal_forced as bs)
  moreover have "life_inv (s\<lparr>ls_signals := as @ bs\<rparr>)" by (rule life_inv_frame [OF assms(2)]) simp_all
  ultimately show ?thesis by (simp add: life_swap_inv)
next
  case (teardown n c)
  then show ?thesis using life_teardown_inv [OF assms(2) teardown(2)] by simp
next
  case (teardown_panics n)
  then show ?thesis using life_teardown_inv [OF assms(2) teardown_panics(2)] by simp
next
  case (send_enqueue as frame bs stop pick c e)
  then show ?thesis by (intro life_inv_frame [OF assms(2)]) (simp_all add: Send_enqueue_life [OF send_enqueue(3)])
next
  case (write_frame data queue c ok)
  then show ?thesis by (intro life_inv_frame [OF assms(2)]) (simp_all add: writeFrame_life [OF write_frame(3)])
qed (auto intro!: life_swap_inv [OF assms(2)] intro: life_inv_frame [OF assms(2)])

lemma life_reachable_inv: "life_reachable conf sum32 s \<Longrightarrow> life_inv s"
proof (induction rule: life_reachable.induct)
  case (start flag script)
  then show ?case by (simp add: life_inv_def life_init_def createConnection_def disconnects_def)
qed (rule life_step_inv)

text \<open>C32: however the read loop, the write loop, senders and callers of \<open>Disconnect\<close> and \<open>Close\<close> interleave, a connection
  is torn down at most once: the disconnected callback is fired at most once, closing the write
  queue never panics, and once the connection is marked closed and the teardown has run it is
  disconnected and no longer registered.\<close>

theorem disconnect_once:
  assumes "life_reachable conf sum32 s"
  shows "disconnects (ls_conn s) \<le> 1
    \<and> (0 < ls_teardowns s \<longrightarrow> disconnectRun_teardown (ls_conn s) \<noteq> Panics)
    \<and> (ic_closed (ls_conn s) \<and> ls_teardowns s = 0 \<longrightarrow>
        ic_status (ls_conn s) = Disconnected \<and> disconnects (ls_conn s) = 1 \<and> \<not> ic_registered (ls_conn s))"
  using life_reachable_inv [OF assms]
  by (auto simp: life_inv_def disconnectRun_teardown_def Let_def split: if_splits)

lemma life_swap_fields:
  "ic_closed (ls_conn (life_swap s))" "ls_sends (life_swap s) = ls_sends s" "ls_panicked (life_swap s) = ls_panicked s"
  by (simp_all add: life_swap_def disconnectRun_swap_def Let_def)

lemma teardown_closes: "disconnectRun_teardown c = Returns d \<Longrightarrow> ic_writeQueueClosed d"
  by (auto simp: disconnectRun_teardown_def fire_def Let_def split: if_splits)

text \<open>The end of the write loop and the teardown close the write queue of a connection in any reachable state.\<close>

lemma write_queue_closes:
  assumes "life_inv s"
  obtains t where "(life_step conf sum32)\<^sup>*\<^sup>* s t" and "ls_sends t = ls_sends s" and "ls_panicked t = ls_panicked s"
    and "ic_writeQueueClosed (ls_conn t)"
proof -
  let ?u = "life_swap s"
  have step: "life_step conf sum32 s ?u" by (rule life_step.write_loop_exit)
  have inv: "life_inv ?u" by (rule life_swap_inv [OF assms])
  show ?thesis
  proof (cases "ic_writeQueueClosed (ls_conn ?u)")
    case True
    show ?thesis by (rule that [OF r_into_rtranclp [where r = "life_step conf sum32", OF step] _ _ True]) (simp_all only: life_swap_fields)
  next
    case False
    then have one: "ls_teardowns ?u = Suc 0" using inv by (simp add: life_inv_def Let_def life_swap_fields)
    then obtain d where d: "disconnectRun_teardown (ls_conn ?u) = Returns d" using life_teardown_inv [OF inv one] by blast
    have "(life_step conf sum32)\<^sup>*\<^sup>* s (?u\<lparr>ls_conn := d, ls_teardowns := 0\<rparr>)"
      by (rule converse_rtranclp_into_rtranclp [where r = "life_step conf sum32", OF step r_into_rtranclp [where r = "life_step conf sum32", OF life_step.teardown [OF one d]]])
    then show ?thesis by (rule that) (simp_all add: life_swap_fields teardown_closes [OF d])
  qed
qed

text \<open>C39: from every reachable state of a connection in which the checks of a \<open>Send\<close> pass, other goroutines can end the
  connection before the frame of that \<open>Send\<close> is put into the write queue: a state is reached in which nothing else
  panicked, the frame is still to be queued and the queue is closed, and there the enqueue of this very frame
  panics (the context of the channel not being cancelled), which is a step of the run.\<close>

theorem Send_races_with_teardown:
  assumes "life_reachable conf sum32 s" and "Send_check conf sum32 False data (Some (ls_conn s)) = Inr frame"
  shows "life_step conf sum32 s (s\<lparr>ls_sends := frame # ls_sends s\<rparr>)
    \<and> (\<exists>t. (life_step conf sum32)\<^sup>*\<^sup>* (s\<lparr>ls_sends := frame # ls_sends s\<rparr>) t
        \<and> ls_sends t = frame # ls_sends s \<and> ls_panicked t = ls_panicked s \<and> ic_writeQueueClosed (ls_conn t)
        \<and> (\<forall>preferDone. Send_enqueue False preferDone frame (ls_conn t) = Panics)
        \<and> life_step conf sum32 t (t\<lparr>ls_sends := ls_sends s, ls_panicked := True\<rparr>))"
proof
  show step: "life_step conf sum32 s (s\<lparr>ls_sends := frame # ls_sends s\<rparr>)" by (rule life_step.send_check [OF assms(2)])
  obtain t where t: "(life_step conf sum32)\<^sup>*\<^sup>* (s\<lparr>ls_sends := frame # ls_sends s\<rparr>) t" "ls_sends t = frame # ls_sends s"
      "ls_panicked t = ls_panicked s" "ic_writeQueueClosed (ls_conn t)"
    using write_queue_closes [OF life_step_inv [OF step life_reachable_inv [OF assms(1)]], of conf sum32] by auto
  have panics: "Send_enqueue False preferDone frame (ls_conn t) = Panics" for preferDone using t(4) by (simp add: Send_enqueue_def)
  have "life_step conf sum32 t (t\<lparr>ls_sends := [] @ ls_sends s, ls_panicked := True\<rparr>)"
    by (rule life_step.send_panics [OF _ panics]) (simp add: t(2))
  with t panics show "\<exists>t. (life_step conf sum32)\<^sup>*\<^sup>* (s\<lparr>ls_sends := frame # ls_sends s\<rparr>) t
        \<and> ls_sends t = frame # ls_sends s \<and> ls_panicked t = ls_panicked s \<and> ic_writeQueueClosed (ls_conn t)
        \<and> (\<forall>preferDone. Send_enqueue False preferDone frame (ls_conn t) = Panics)
        \<and> life_step conf sum32 t (t\<lparr>ls_sends := ls_sends s, ls_panicked := True\<rparr>)" by auto
qed

theorem disconnect_once_witness:
  "\<exists>s. life_reachable zero_IoStreamConfigure (\<lambda>_. 0) s \<and> ic_status (ls_conn s) = Disconnected \<and> disconnects (ls_conn s) = 1"
proof -
  let ?b = "life_swap (life_init 0 [])"
  obtain d where d: "disconnectRun_teardown (ls_conn ?b) = Returns d" "ic_closed d"
    by (auto simp: disconnectRun_teardown_def life_swap_def disconnectRun_swap_def life_init_def createConnection_def fire_def
        SetFlag_def Let_def)
  let ?s = "?b\<lparr>ls_conn := d, ls_teardowns := 0\<rparr>"
  have "life_step zero_IoStreamConfigure (\<lambda>_. 0) ?b ?s"
    by (rule life_step.teardown [OF _ d(1)]) (simp add: life_swap_def disconnectRun_swap_def life_init_def createConnection_def)
  then have r: "life_reachable zero_IoStreamConfigure (\<lambda>_. 0) ?s"
    by (meson life_reachable.intros life_step.write_loop_exit)
  from disconnect_once [OF r] d(2) have "ic_status (ls_conn ?s) = Disconnected \<and> disconnects (ls_conn ?s) = 1" by simp
  with r show ?thesis by blast
qed

theorem Send_races_with_teardown_witness:
  "\<exists>t. life_reachable zero_IoStreamConfigure (\<lambda>_. 0) t \<and> ls_sends t = [[0, 0, 0, 0, 0]] \<and> \<not> ls_panicked t
    \<and> Send_enqueue False False [0, 0, 0, 0, 0] (ls_conn t) = Panics"
proof -
  have check: "Send_check zero_IoStreamConfigure (\<lambda>_. 0) False [] (Some (ls_conn (life_init 0 []))) = Inr [0, 0, 0, 0, 0]" by code_simp
  note start = life_reachable.start [of zero_IoStreamConfigure "\<lambda>_. 0" 0 "[]"]
  note race = Send_races_with_teardown [OF start check]
  have more: "life_reachable zero_IoStreamConfigure (\<lambda>_. 0) t"
    if "(life_step zero_IoStreamConfigure (\<lambda>_. 0))\<^sup>*\<^sup>* s t" "life_reachable zero_IoStreamConfigure (\<lambda>_. 0) s" for s t
    using that by (induction rule: rtranclp_induct) (auto intro: life_reachable.step)
  have "ls_sends (life_init 0 []) = []" "\<not> ls_panicked (life_init 0 [])" by (simp_all add: life_init_def)
  with race more life_reachable.step [OF start conjunct1 [OF race]] show ?thesis by fastforce
qed

end
