(* ===== verification/Protocol.thy ===== *)
theory Protocol
  imports Prelude
begin

section \<open>The messages of the protocol\<close>

text \<open>
  protocol/libatbus\_protocol.proto: the enumerations and the messages two nodes exchange, and the wrapper of
  types/atbus\_message.go. An enumeration of proto3 is open: a number the peer sent that has no name is kept, as the constructor
  \<open>OTHER\<close> of its type, which stands for those numbers only. A sub-message that is not set is \<^term>\<open>None\<close>, a oneof is a datatype.
  The encoding of messages is generated code and the protobuf runtime: parameters of the theories that need it.
\<close>

subsection \<open>Enumerations\<close>

datatype ATBUS_ACCESS_DATA_ALGORITHM_TYPE = HMAC_SHA256 | ACCESS_OTHER int

datatype ATBUS_CRYPTO_KDF_TYPE = HKDF_SHA256 | KDF_OTHER int

datatype ATBUS_CRYPTO_ALGORITHM_TYPE =
    CRYPTO_NONE | XXTEA | AES_128_CBC | AES_192_CBC | AES_256_CBC | AES_128_GCM | AES_192_GCM | AES_256_GCM
  | CHACHA20 | CHACHA20_POLY1305_IETF | XCHACHA20_POLY1305_IETF | CRYPTO_OTHER int

datatype ATBUS_CRYPTO_KEY_EXCHANGE_TYPE =
    KEY_EXCHANGE_NONE | X25519 | SECP256R1 | SECP384R1 | SECP521R1 | KEY_EXCHANGE_OTHER int

datatype ATBUS_COMPRESSION_ALGORITHM_TYPE = COMPRESSION_NONE | ZSTD | LZ4 | SNAPPY | ZLIB | COMPRESSION_OTHER int

text \<open>The numbers of the enumeration whose values are printed into signed texts.\<close>

fun key_exchange_number :: "ATBUS_CRYPTO_KEY_EXCHANGE_TYPE \<Rightarrow> int" where
  "key_exchange_number KEY_EXCHANGE_NONE = 0"
| "key_exchange_number X25519 = 1"
| "key_exchange_number SECP256R1 = 2"
| "key_exchange_number SECP384R1 = 3"
| "key_exchange_number SECP521R1 = 4"
| "key_exchange_number (KEY_EXCHANGE_OTHER n) = n"

definition key_exchange_wf :: "ATBUS_CRYPTO_KEY_EXCHANGE_TYPE \<Rightarrow> bool" where
  "key_exchange_wf k = (case k of KEY_EXCHANGE_OTHER n \<Rightarrow> n < 0 \<or> 4 < n | _ \<Rightarrow> True)"

lemma key_exchange_number_inj:
  "key_exchange_wf k \<Longrightarrow> key_exchange_wf k' \<Longrightarrow> key_exchange_number k = key_exchange_number k' \<Longrightarrow> k = k'"
  by (cases k; cases k') (simp_all add: key_exchange_wf_def)

subsection \<open>Messages\<close>

record crypto_handshake_data =
  hd_sequence :: uint64
  hd_type :: ATBUS_CRYPTO_KEY_EXCHANGE_TYPE
  hd_kdf_type :: "ATBUS_CRYPTO_KDF_TYPE list"
  hd_algorithms :: "ATBUS_CRYPTO_ALGORITHM_TYPE list"
  hd_public_key :: bytes
  hd_iv_size :: uint32
  hd_tag_size :: uint32

record access_data =
  ad_algorithm :: ATBUS_ACCESS_DATA_ALGORITHM_TYPE
  ad_timestamp :: int
  ad_nonce1 :: uint64
  ad_nonce2 :: uint64
  ad_signature :: "bytes list"

record custom_command_data =
  cc_from :: uint64
  cc_commands :: "bytes list"
  cc_access_key :: "access_data option"

record forward_data =
  fd_from :: uint64
  fd_to :: uint64
  fd_router :: "uint64 list"
  fd_content :: bytes
  fd_flags :: uint32

record ping_data =
  pd_time_point :: int
  pd_crypto_handshake :: "crypto_handshake_data option"

record register_data =
  rd_bus_id :: uint64
  rd_pid :: int
  rd_hostname :: string
  rd_channels :: "string list"
  rd_supported_channel_schema :: "string list"
  rd_supported_compression_algorithm :: "ATBUS_COMPRESSION_ALGORITHM_TYPE list"
  rd_flags :: uint32
  rd_access_key :: "access_data option"
  rd_hash_code :: string
  rd_crypto_handshake :: "crypto_handshake_data option"

record handshake_confirm_data =
  hc_sequence :: uint64

record message_head_crypto =
  mc_algorithm :: ATBUS_CRYPTO_ALGORITHM_TYPE
  mc_iv :: bytes
  mc_aad :: bytes

record message_head_compression =
  mz_type :: ATBUS_COMPRESSION_ALGORITHM_TYPE
  mz_original_size :: uint64

record message_head =
  mh_version :: int
  mh_type :: int
  mh_result_code :: int
  mh_sequence :: uint64
  mh_source_bus_id :: uint64
  mh_crypto :: "message_head_crypto option"
  mh_compression :: "message_head_compression option"
  mh_body_size :: uint64

datatype message_body =
    BodyNone
  | BodyCustomCommandReq custom_command_data
  | BodyCustomCommandRsp custom_command_data
  | BodyDataTransformReq forward_data
  | BodyDataTransformRsp forward_data
  | BodyNodeRegisterReq register_data
  | BodyNodeRegisterRsp register_data
  | BodyNodePingReq ping_data
  | BodyNodePongRsp ping_data
  | BodyHandshakeConfirm handshake_confirm_data

datatype MessageBodyType =
    MessageBodyTypeUnknown | MessageBodyTypeCustomCommandReq | MessageBodyTypeCustomCommandRsp
  | MessageBodyTypeDataTransformReq | MessageBodyTypeDataTransformRsp | MessageBodyTypeNodeRegisterReq
  | MessageBodyTypeNodeRegisterRsp | MessageBodyTypeNodePingReq | MessageBodyTypeNodePongRsp
  | MessageBodyTypeHandshakeConfirm

definition zero_message_head :: message_head where
  "zero_message_head = \<lparr>mh_version = 0, mh_type = 0, mh_result_code = 0, mh_sequence = 0, mh_source_bus_id = 0,
     mh_crypto = None, mh_compression = None, mh_body_size = 0\<rparr>"

definition zero_message_head_crypto :: message_head_crypto where
  "zero_message_head_crypto = \<lparr>mc_algorithm = CRYPTO_NONE, mc_iv = [], mc_aad = []\<rparr>"

definition zero_access_data :: access_data where
  "zero_access_data = \<lparr>ad_algorithm = HMAC_SHA256, ad_timestamp = 0, ad_nonce1 = 0, ad_nonce2 = 0, ad_signature = []\<rparr>"

definition zero_crypto_handshake_data :: crypto_handshake_data where
  "zero_crypto_handshake_data = \<lparr>hd_sequence = 0, hd_type = KEY_EXCHANGE_NONE, hd_kdf_type = [], hd_algorithms = [],
     hd_public_key = [], hd_iv_size = 0, hd_tag_size = 0\<rparr>"

subsection \<open>The message wrapper\<close>

record Message =
  msg_head :: "message_head option"
  msg_body :: "message_body option"
  msg_unpackError :: string

definition NewMessage :: Message where
  "NewMessage = \<lparr>msg_head = Some zero_message_head, msg_body = Some BodyNone, msg_unpackError = ''''\<rparr>"

text \<open>The mutable accessors return the object they make sure exists; the model returns the message and the object.\<close>

definition MutableHead :: "Message \<Rightarrow> Message \<times> message_head" where
  "MutableHead m = (case msg_head m of
     None \<Rightarrow> (m\<lparr>msg_head := Some zero_message_head\<rparr>, zero_message_head)
   | Some h \<Rightarrow> (m, h))"

definition MutableBody :: "Message \<Rightarrow> Message \<times> message_body" where
  "MutableBody m = (case msg_body m of
     None \<Rightarrow> (m\<lparr>msg_body := Some BodyNone\<rparr>, BodyNone)
   | Some b \<Rightarrow> (m, b))"

definition GetHead :: "Message option \<Rightarrow> message_head option" where
  "GetHead om = (case om of None \<Rightarrow> None | Some m \<Rightarrow> msg_head m)"

definition GetBody :: "Message option \<Rightarrow> message_body option" where
  "GetBody om = (case om of None \<Rightarrow> None | Some m \<Rightarrow> msg_body m)"

fun oneof_case :: "message_body \<Rightarrow> MessageBodyType" where
  "oneof_case BodyNone = MessageBodyTypeUnknown"
| "oneof_case (BodyCustomCommandReq _) = MessageBodyTypeCustomCommandReq"
| "oneof_case (BodyCustomCommandRsp _) = MessageBodyTypeCustomCommandRsp"
| "oneof_case (BodyDataTransformReq _) = MessageBodyTypeDataTransformReq"
| "oneof_case (BodyDataTransformRsp _) = MessageBodyTypeDataTransformRsp"
| "oneof_case (BodyNodeRegisterReq _) = MessageBodyTypeNodeRegisterReq"
| "oneof_case (BodyNodeRegisterRsp _) = MessageBodyTypeNodeRegisterRsp"
| "oneof_case (BodyNodePingReq _) = MessageBodyTypeNodePingReq"
| "oneof_case (BodyNodePongRsp _) = MessageBodyTypeNodePongRsp"
| "oneof_case (BodyHandshakeConfirm _) = MessageBodyTypeHandshakeConfirm"

definition GetBodyType :: "Message option \<Rightarrow> MessageBodyType" where
  "GetBodyType om = (case GetBody om of None \<Rightarrow> MessageBodyTypeUnknown | Some b \<Rightarrow> oneof_case b)"

definition GetUnpackErrorMessage :: "Message option \<Rightarrow> string" where
  "GetUnpackErrorMessage om = (case om of None \<Rightarrow> '''' | Some m \<Rightarrow> msg_unpackError m)"

definition SetUnpackError :: "string \<Rightarrow> Message option \<Rightarrow> Message option" where
  "SetUnpackError err om = map_option (\<lambda>m. m\<lparr>msg_unpackError := err\<rparr>) om"

end
