(* ===== verification/Channel_Address.thy ===== *)
theory Channel_Address
  imports Protocol Error_Code
begin

section \<open>Channel addresses (channel/utility, types/atbus\_algorithm\_parse.go)\<close>

text \<open>
  Parsing, construction and classification of channel addresses, the translation between an address
  and the host and port strings of the \<open>net\<close> package, and the names of the algorithms. A Go string is a
  HOL \<^typ>\<open>string\<close>, one character per byte. \<open>strings.ToLower\<close> maps ASCII strings character by character
  and hands any other string to the Unicode tables, which are a parameter (\<open>unicodeLower\<close>) here.
\<close>

subsection \<open>The string functions of the standard library\<close>

definition is_ascii :: "string \<Rightarrow> bool" where
  "is_ascii s = list_all (\<lambda>c. of_char c < (128 :: nat)) s"

definition lower_char :: "char \<Rightarrow> char" where
  "lower_char c = (if 65 \<le> (of_char c :: nat) \<and> (of_char c :: nat) \<le> 90 then char_of ((of_char c :: nat) + 32) else c)"

definition ToLower :: "(string \<Rightarrow> string) \<Rightarrow> string \<Rightarrow> string" where
  "ToLower unicodeLower s = (if is_ascii s then map lower_char s else unicodeLower s)"

definition HasPrefix :: "string \<Rightarrow> string \<Rightarrow> bool" where
  "HasPrefix s p \<longleftrightarrow> take (length p) s = p"

fun strIndex :: "string \<Rightarrow> string \<Rightarrow> nat option" where
  "strIndex [] sub = (if sub = [] then Some 0 else None)"
| "strIndex (c # s) sub = (if HasPrefix (c # s) sub then Some 0 else map_option Suc (strIndex s sub))"

fun strLastIndex :: "string \<Rightarrow> char \<Rightarrow> nat option" where
  "strLastIndex [] c = None"
| "strLastIndex (x # s) c =
     (case strLastIndex s c of Some i \<Rightarrow> Some (Suc i) | None \<Rightarrow> if x = c then Some 0 else None)"

definition is_digit :: "char \<Rightarrow> bool" where
  "is_digit c \<longleftrightarrow> 48 \<le> (of_char c :: nat) \<and> (of_char c :: nat) \<le> 57"

definition digits_value :: "string \<Rightarrow> int" where
  "digits_value ds = foldl (\<lambda>n c. 10 * n + (int (of_char c) - 48)) 0 ds"

definition in_int64 :: "int \<Rightarrow> bool" where
  "in_int64 v \<longleftrightarrow> - (2 ^ 63) \<le> v \<and> v < 2 ^ 63"

text \<open>\<open>strconv.Atoi\<close>: an optional sign and at least one digit, and the value must fit an \<open>int\<close>.\<close>

definition split_sign :: "string \<Rightarrow> bool \<times> string" where
  "split_sign s = (case s of
      [] \<Rightarrow> (False, [])
    | c # ds \<Rightarrow> if c = CHR ''-'' then (True, ds) else if c = CHR ''+'' then (False, ds) else (False, s))"

definition Atoi :: "string \<Rightarrow> int option" where
  "Atoi s =
     (let (neg, ds) = split_sign s;
          v = (if neg then - digits_value ds else digits_value ds)
      in if ds = [] \<or> \<not> list_all is_digit ds \<or> \<not> in_int64 v then None else Some v)"

text \<open>
  \<open>fmt.Sscanf(s, "\%d", \&port)\<close>: blanks are skipped (a newline is an error), then a sign and the longest run
  of digits are read; \<open>None\<close> is an error, which leaves the variable alone. Blanks outside ASCII are not
  modelled: they are errors here.
\<close>

definition is_blank :: "char \<Rightarrow> bool" where
  "is_blank c \<longleftrightarrow> (of_char c :: nat) \<in> {9, 11, 12, 13, 32}"

definition Sscanf_d :: "string \<Rightarrow> int option" where
  "Sscanf_d s =
     (let (neg, rest) = split_sign (dropWhile is_blank s);
          ds = takeWhile is_digit rest;
          v = (if neg then - digits_value ds else digits_value ds)
      in if ds = [] \<or> \<not> in_int64 v then None else Some v)"

subsection \<open>Addresses\<close>

record ChannelAddress =
  ca_Address :: string
  ca_Scheme :: string
  ca_Host :: string
  ca_Port :: int

definition MakeAddress :: "(string \<Rightarrow> string) \<Rightarrow> string \<Rightarrow> ChannelAddress option" where
  "MakeAddress unicodeLower input =
     (if input = '''' then None
      else case strIndex input ''://'' of
        None \<Rightarrow> None
      | Some schemeEnd \<Rightarrow>
          let scheme = ToLower unicodeLower (take schemeEnd input);
              rest = drop (schemeEnd + 3) input
          in case strLastIndex rest CHR '':'' of
               Some portStart \<Rightarrow>
                 Some \<lparr>ca_Address = input, ca_Scheme = scheme, ca_Host = take portStart rest,
                       ca_Port = (case Atoi (drop (portStart + 1) rest) of Some port \<Rightarrow> port | None \<Rightarrow> 0)\<rparr>
             | None \<Rightarrow> Some \<lparr>ca_Address = input, ca_Scheme = scheme, ca_Host = rest, ca_Port = 0\<rparr>)"

definition MakeAddressFromComponents :: "(string \<Rightarrow> string) \<Rightarrow> string \<Rightarrow> string \<Rightarrow> int \<Rightarrow> ChannelAddress" where
  "MakeAddressFromComponents unicodeLower scheme host port =
     (let scheme = ToLower unicodeLower scheme in
      \<lparr>ca_Address = scheme @ ''://'' @ host @ (if 0 < port then '':'' @ show_int port else ''''),
       ca_Scheme = scheme, ca_Host = host, ca_Port = port\<rparr>)"

definition IsSimplexAddress :: "(string \<Rightarrow> string) \<Rightarrow> string \<Rightarrow> bool" where
  "IsSimplexAddress unicodeLower input =
     (if input = '''' then False
      else let lowerIn = ToLower unicodeLower input in
        if 4 \<le> length lowerIn \<and> take 4 lowerIn = ''mem:'' then True
        else 4 \<le> length lowerIn \<and> take 4 lowerIn = ''shm:'')"

definition IsDuplexAddress :: "(string \<Rightarrow> string) \<Rightarrow> string \<Rightarrow> bool" where
  "IsDuplexAddress unicodeLower input = (if input = '''' then False else \<not> IsSimplexAddress unicodeLower input)"

definition IsLocalProcessAddress :: "(string \<Rightarrow> string) \<Rightarrow> string \<Rightarrow> bool" where
  "IsLocalProcessAddress unicodeLower input =
     (if input = '''' then False
      else let lowerIn = ToLower unicodeLower input;
               minLen = (if length lowerIn < 4 then length lowerIn else 4)
           in 4 \<le> minLen \<and> take 4 lowerIn = ''mem:'')"

definition is_loopback_rest :: "string \<Rightarrow> string \<Rightarrow> bool" where
  "is_loopback_rest rest loopback \<longleftrightarrow>
     HasPrefix rest loopback \<and> (let remaining = drop (length loopback) rest in remaining = '''' \<or> hd remaining = CHR '':'')"

definition IsLocalHostAddress :: "(string \<Rightarrow> string) \<Rightarrow> string \<Rightarrow> bool" where
  "IsLocalHostAddress unicodeLower input =
     (if input = '''' then False
      else if IsLocalProcessAddress unicodeLower input then True
      else let lowerIn = ToLower unicodeLower input in
        if 4 \<le> length lowerIn \<and> take 4 lowerIn = ''shm:'' then True
        else if 5 \<le> length lowerIn \<and> (take 5 lowerIn = ''unix:'' \<or> take 5 lowerIn = ''pipe:'') then True
        else 10 \<le> length lowerIn
          \<and> (take 5 lowerIn = ''atcp:'' \<or> take 5 lowerIn = ''ipv4:'' \<or> take 5 lowerIn = ''ipv6:'')
          \<and> list_ex (is_loopback_rest (drop 7 lowerIn)) [''127.0.0.1'', ''::1''])"

subsection \<open>Addresses of the net package\<close>

definition resolveAddress :: "(string \<Rightarrow> string) \<Rightarrow> ChannelAddress \<Rightarrow> string \<times> string" where
  "resolveAddress unicodeLower addr =
     (let scheme = ToLower unicodeLower (ca_Scheme addr) in
      if scheme = ''atcp'' \<or> scheme = ''ipv4'' \<or> scheme = ''ipv6'' then
        (if CHR '':'' \<in> set (ca_Host addr)
         then (''tcp6'', ''['' @ ca_Host addr @ '']:'' @ show_int (ca_Port addr))
         else (''tcp4'', ca_Host addr @ '':'' @ show_int (ca_Port addr)))
      else if scheme = ''dns'' then (''tcp'', ca_Host addr @ '':'' @ show_int (ca_Port addr))
      else if scheme = ''unix'' \<or> scheme = ''pipe'' then (''pipe'', ca_Host addr)
      else ('''', ''''))"

definition scan_port :: "string \<Rightarrow> int" where
  "scan_port s = (case Sscanf_d s of Some v \<Rightarrow> v | None \<Rightarrow> 0)"

definition parseHostPort_plain :: "string \<Rightarrow> string \<times> int" where
  "parseHostPort_plain addr =
     (case strLastIndex addr CHR '':'' of
        Some lastColon \<Rightarrow>
          if 0 < lastColon then (take lastColon addr, scan_port (drop (lastColon + 1) addr)) else (addr, 0)
      | None \<Rightarrow> (addr, 0))"

definition parseHostPort :: "string \<Rightarrow> string \<times> int" where
  "parseHostPort addr =
     (if HasPrefix addr ''['' then
        (case strLastIndex addr CHR '']'' of
           Some closeBracket \<Rightarrow>
             if 0 < closeBracket then
               (take (closeBracket - 1) (drop 1 addr),
                if closeBracket + 2 < length addr \<and> addr ! (closeBracket + 1) = CHR '':''
                then scan_port (drop (closeBracket + 2) addr) else 0)
             else parseHostPort_plain addr
         | None \<Rightarrow> parseHostPort_plain addr)
      else parseHostPort_plain addr)"

subsection \<open>Names of algorithms\<close>

text \<open>
  \<open>strings.EqualFold\<close> against an ASCII token of the same number of bytes: a character outside ASCII takes
  at least two bytes, or is an invalid byte, so that only ASCII strings can be equal to the token.
\<close>

definition EqualFold :: "string \<Rightarrow> string \<Rightarrow> bool" where
  "EqualFold s t \<longleftrightarrow> map lower_char s = map lower_char t"

definition token_is :: "string \<Rightarrow> string \<Rightarrow> bool" where
  "token_is token name \<longleftrightarrow> length name = length token \<and> EqualFold name token"

definition ParseCryptoAlgorithmName :: "string \<Rightarrow> ATBUS_CRYPTO_ALGORITHM_TYPE" where
  "ParseCryptoAlgorithmName name =
     (if token_is ''chacha20'' name then CHACHA20
      else if token_is ''chacha20-poly1305-ietf'' name then CHACHA20_POLY1305_IETF
      else if token_is ''xchacha20-poly1305-ietf'' name then XCHACHA20_POLY1305_IETF
      else if token_is ''aes-256-gcm'' name then AES_256_GCM
      else if token_is ''aes-256-cbc'' name then AES_256_CBC
      else if token_is ''aes-192-gcm'' name then AES_192_GCM
      else if token_is ''aes-192-cbc'' name then AES_192_CBC
      else if token_is ''aes-128-gcm'' name then AES_128_GCM
      else if token_is ''aes-128-cbc'' name then AES_128_CBC
      else if token_is ''xxtea'' name then XXTEA
      else CRYPTO_NONE)"

definition ParseCompressionAlgorithmName :: "string \<Rightarrow> ATBUS_COMPRESSION_ALGORITHM_TYPE" where
  "ParseCompressionAlgorithmName name =
     (if token_is ''zstd'' name then ZSTD
      else if token_is ''lz4'' name then LZ4
      else if token_is ''zlib'' name then ZLIB
      else if token_is ''snappy'' name then SNAPPY
      else COMPRESSION_NONE)"

subsection \<open>Facts about the string functions\<close>

lemma of_char_lower_char:
  "(of_char (lower_char c) :: nat) = (if 65 \<le> (of_char c :: nat) \<and> (of_char c :: nat) \<le> 90 then of_char c + 32 else of_char c)"
  by (simp add: lower_char_def)

lemma lower_char_idem [simp]: "lower_char (lower_char c) = lower_char c"
  unfolding lower_char_def [of "lower_char c"] of_char_lower_char by auto

lemma lower_char_eq_iff:
  assumes "(of_char x :: nat) < 65"
  shows "lower_char c = x \<longleftrightarrow> c = x"
proof
  assume "lower_char c = x"
  then have "(of_char x :: nat) = (if 65 \<le> (of_char c :: nat) \<and> (of_char c :: nat) \<le> 90 then of_char c + 32 else of_char c)"
    by (simp flip: of_char_lower_char)
  with assms have "(of_char c :: nat) = of_char x" by (simp split: if_splits)
  then show "c = x" by simp
qed (use assms in \<open>simp add: lower_char_def\<close>)

lemma lower_char_ascii: "(of_char (lower_char c) :: nat) < 128 \<longleftrightarrow> (of_char c :: nat) < 128"
  by (simp add: of_char_lower_char)

lemma is_ascii_simps [simp]:
  "is_ascii []" "is_ascii (c # s) \<longleftrightarrow> (of_char c :: nat) < 128 \<and> is_ascii s" "is_ascii (s @ t) \<longleftrightarrow> is_ascii s \<and> is_ascii t"
  "is_ascii (map lower_char s) \<longleftrightarrow> is_ascii s"
  by (simp_all add: is_ascii_def lower_char_ascii list.pred_map comp_def)

lemma ToLower_ascii: "is_ascii s \<Longrightarrow> ToLower u s = map lower_char s"
  by (simp add: ToLower_def)

lemma ToLower_idem: "is_ascii s \<Longrightarrow> ToLower u (ToLower u s) = ToLower u s"
  by (simp add: ToLower_def)

lemma colon_lower [simp]: "CHR '':'' \<in> set (map lower_char s) \<longleftrightarrow> CHR '':'' \<in> set s"
  by (auto simp: image_iff lower_char_eq_iff eq_commute [of "CHR '':''"])

lemma strIndex_Some:
  "strIndex s sub = Some i \<Longrightarrow> HasPrefix (drop i s) sub \<and> (\<forall>k < i. \<not> HasPrefix (drop k s) sub)"
proof (induction s arbitrary: i)
  case (Cons c s)
  show ?case
  proof (cases "HasPrefix (c # s) sub")
    case False
    with Cons.prems obtain j where "strIndex s sub = Some j" "i = Suc j" by auto
    with Cons.IH [of j] False show ?thesis by (auto simp: less_Suc_eq_0_disj)
  qed (use Cons.prems in auto)
qed (simp add: HasPrefix_def split: if_splits)

lemma strIndex_None: "sub \<noteq> [] \<Longrightarrow> strIndex s sub = None \<Longrightarrow> \<not> HasPrefix (drop k s) sub"
proof (induction s arbitrary: k)
  case (Cons c s)
  then show ?case by (cases k) (auto split: if_splits)
qed (simp add: HasPrefix_def)

lemma HasPrefix_append: "HasPrefix s p \<longleftrightarrow> (\<exists>t. s = p @ t)"
  unfolding HasPrefix_def by (metis append_eq_conv_conj append_take_drop_id)

lemma strIndex_first:
  assumes "HasPrefix (drop i s) sub" and "\<And>k. k < i \<Longrightarrow> \<not> HasPrefix (drop k s) sub" and "sub \<noteq> []"
  shows "strIndex s sub = Some i"
proof (cases "strIndex s sub")
  case None
  with strIndex_None [OF assms(3) None] assms(1) show ?thesis by simp
next
  case (Some j)
  from strIndex_Some [OF this] assms(1,2) have "j = i" by (metis linorder_neqE_nat)
  with Some show ?thesis by simp
qed

lemma strLastIndex_None: "strLastIndex s c = None \<longleftrightarrow> c \<notin> set s"
  by (induction s) (auto split: option.splits)

lemma strLastIndex_Some: "strLastIndex s c = Some i \<Longrightarrow> s = take i s @ c # drop (Suc i) s \<and> c \<notin> set (drop (Suc i) s) \<and> i < length s"
proof (induction s arbitrary: i)
  case (Cons x s)
  then show ?case by (cases "strLastIndex s c") (auto simp: strLastIndex_None split: if_splits)
qed simp

lemma strLastIndex_append: "c \<notin> set t \<Longrightarrow> strLastIndex (s @ c # t) c = Some (length s)"
  by (induction s) (simp_all add: strLastIndex_None split: option.splits)

lemma is_digit_digit_char [simp]: "d < 10 \<Longrightarrow> is_digit (digit_char d)" "d < 10 \<Longrightarrow> of_char (digit_char d) = 48 + d"
  by (simp_all add: is_digit_def digit_char_def)

lemma show_nat_digits: "list_all is_digit (show_nat n) \<and> show_nat n \<noteq> [] \<and> digits_value (show_nat n) = int n"
proof (induction n rule: show_nat.induct)
  case (1 n)
  show ?case
  proof (cases "n < 10")
    case True
    then show ?thesis by (simp add: show_nat.simps [of n] digits_value_def)
  next
    case False
    with 1 have ih: "list_all is_digit (show_nat (n div 10))" "digits_value (show_nat (n div 10)) = int (n div 10)" by simp_all
    from False ih(1) have "list_all is_digit (show_nat n)" "show_nat n \<noteq> []" by (simp_all add: show_nat.simps [of n])
    moreover from False ih(2) have "digits_value (show_nat n) = 10 * int (n div 10) + int (n mod 10)"
      by (simp add: show_nat.simps [of n] digits_value_def)
    moreover have "10 * int (n div 10) + int (n mod 10) = int n"
      by (metis mult_div_mod_eq of_nat_add of_nat_mult of_nat_numeral)
    ultimately show ?thesis by simp
  qed
qed

lemma is_digit_not: "is_digit c \<Longrightarrow> c \<noteq> CHR '':'' \<and> c \<noteq> CHR ''-'' \<and> c \<noteq> CHR ''+'' \<and> c \<noteq> CHR '']'' \<and> \<not> is_blank c"
  by (auto simp: is_digit_def is_blank_def)

lemma digits_not_in: "list_all is_digit ds \<Longrightarrow> CHR '':'' \<notin> set ds \<and> CHR '']'' \<notin> set ds"
  using is_digit_not by (auto simp: list_all_iff)

lemma split_sign_digits: "list_all is_digit ds \<Longrightarrow> split_sign ds = (False, ds)"
  by (auto simp: split_sign_def dest: is_digit_not split: list.split)

lemma Atoi_show_nat: "int n < 2 ^ 63 \<Longrightarrow> Atoi (show_nat n) = Some (int n)"
  using show_nat_digits [of n] by (simp add: Atoi_def split_sign_digits in_int64_def)

lemma dropWhile_blank_digits: "list_all is_digit ds \<Longrightarrow> dropWhile is_blank ds = ds"
  using is_digit_not by (cases ds) auto

lemma takeWhile_digits: "list_all is_digit ds \<Longrightarrow> takeWhile is_digit ds = ds"
  by (simp add: takeWhile_eq_all_conv list_all_iff)

lemma Sscanf_show_nat: "int n < 2 ^ 63 \<Longrightarrow> Sscanf_d (show_nat n) = Some (int n)"
  using show_nat_digits [of n]
  by (simp add: Sscanf_d_def split_sign_digits in_int64_def dropWhile_blank_digits takeWhile_digits)

subsection \<open>Parsing and printing addresses\<close>

lemma scheme_end:
  assumes "CHR '':'' \<notin> set scheme"
  shows "strIndex (scheme @ ''://'' @ rest) ''://'' = Some (length scheme)"
proof (rule strIndex_first)
  fix k assume k: "k < length scheme"
  then have "hd (drop k (scheme @ ''://'' @ rest)) = scheme ! k" by (simp add: hd_drop_conv_nth nth_append)
  moreover have "scheme ! k \<noteq> CHR '':''" using assms nth_mem [OF k] by metis
  ultimately show "\<not> HasPrefix (drop k (scheme @ ''://'' @ rest)) ''://''" by (auto simp: HasPrefix_append)
qed (simp_all add: HasPrefix_append)

text \<open>What \<open>MakeAddress\<close> accepts and returns: an address is refused exactly when it has no \<open>://\<close>; otherwise the scheme is
  what precedes the first one, in lower case, and the last colon of the rest, if there is one,
  separates the host from the port, which is 0 when it is not a number that fits an \<open>int\<close>.\<close>

theorem MakeAddress_spec:
  "(case MakeAddress u s of
      None \<Rightarrow> \<nexists>a b. s = a @ ''://'' @ b
    | Some r \<Rightarrow> \<exists>scheme rest. s = scheme @ ''://'' @ rest \<and> (\<nexists>a b. s = a @ ''://'' @ b \<and> length a < length scheme)
        \<and> ca_Address r = s \<and> ca_Scheme r = ToLower u scheme
        \<and> (if CHR '':'' \<in> set rest
           then \<exists>p. rest = ca_Host r @ '':'' @ p \<and> CHR '':'' \<notin> set p \<and> ca_Port r = (case Atoi p of Some v \<Rightarrow> v | None \<Rightarrow> 0)
           else ca_Host r = rest \<and> ca_Port r = 0))"
proof (cases "strIndex s ''://''")
  case None
  then have "\<nexists>a b. s = a @ ''://'' @ b"
    using strIndex_None [of "''://''" s] by (metis HasPrefix_append append_eq_conv_conj list.distinct(1))
  with None show ?thesis by (simp add: MakeAddress_def)
next
  case (Some i)
  let ?rest = "drop (i + 3) s"
  from strIndex_Some [OF Some] obtain b where b: "drop i s = ''://'' @ b" by (auto simp: HasPrefix_append)
  have "drop 3 (drop i s) = b" unfolding b by simp
  then have rest: "?rest = b" by (simp add: add.commute)
  have s: "s = take i s @ ''://'' @ ?rest" unfolding rest using append_take_drop_id [of i s] b by simp
  have ne: "s \<noteq> []" and len: "length (take i s) = i" using b by (auto simp: min_def)
  have first: "\<nexists>a b. s = a @ ''://'' @ b \<and> length a < length (take i s)"
    using strIndex_Some [OF Some] len by (metis HasPrefix_append append_eq_conv_conj)
  show ?thesis
  proof (cases "strLastIndex ?rest CHR '':''")
    case None
    with Some ne have "MakeAddress u s = Some \<lparr>ca_Address = s, ca_Scheme = ToLower u (take i s), ca_Host = ?rest, ca_Port = 0\<rparr>"
      by (simp add: MakeAddress_def)
    moreover have "CHR '':'' \<notin> set ?rest" using None by (simp add: strLastIndex_None)
    ultimately show ?thesis using s first
      by (simp only: option.case ChannelAddress.simps if_False) (intro exI [of _ "take i s"] exI [of _ ?rest] conjI; simp)
  next
    case (Some j)
    let ?p = "drop (Suc j) ?rest"
    have j: "?rest = take j ?rest @ CHR '':'' # ?p" "CHR '':'' \<notin> set ?p" using strLastIndex_Some [OF Some] by blast+
    have "MakeAddress u s = Some \<lparr>ca_Address = s, ca_Scheme = ToLower u (take i s), ca_Host = take j ?rest,
        ca_Port = (case Atoi ?p of Some v \<Rightarrow> v | None \<Rightarrow> 0)\<rparr>"
      using Some \<open>strIndex s _ = _\<close> ne by (simp add: MakeAddress_def)
    moreover have "CHR '':'' \<in> set ?rest" using j(1) by (metis in_set_conv_decomp)
    ultimately show ?thesis
      using s first j by (simp only: option.case ChannelAddress.simps if_True)
        (intro exI [of _ "take i s"] exI [of _ ?rest] conjI; auto intro!: exI [of _ ?p])
  qed
qed

lemma MakeAddress_parts:
  assumes "CHR '':'' \<notin> set scheme"
  shows "MakeAddress u (scheme @ ''://'' @ rest) =
    (case strLastIndex rest CHR '':'' of
       Some k \<Rightarrow> Some \<lparr>ca_Address = scheme @ ''://'' @ rest, ca_Scheme = ToLower u scheme, ca_Host = take k rest,
                      ca_Port = (case Atoi (drop (k + 1) rest) of Some v \<Rightarrow> v | None \<Rightarrow> 0)\<rparr>
     | None \<Rightarrow> Some \<lparr>ca_Address = scheme @ ''://'' @ rest, ca_Scheme = ToLower u scheme, ca_Host = rest, ca_Port = 0\<rparr>)"
  unfolding MakeAddress_def scheme_end [OF assms] by (simp add: Let_def)

text \<open>C40: an address built from its components parses back to them, whatever colons the host has, as long as it has a port; without
  a port the host must have no colon, because its last one would be read as the separator.\<close>

theorem MakeAddress_roundtrip:
  assumes "is_ascii scheme" and "CHR '':'' \<notin> set scheme"
    and "0 < port \<and> port < 2 ^ 63 \<or> port = 0 \<and> CHR '':'' \<notin> set host"
  shows "MakeAddress u (ca_Address (MakeAddressFromComponents u scheme host port))
       = Some (MakeAddressFromComponents u scheme host port)"
proof -
  let ?s = "ToLower u scheme"
  have s: "CHR '':'' \<notin> set ?s" "ToLower u ?s = ?s"
    using assms(1,2) colon_lower [of scheme] by (simp_all add: ToLower_idem ToLower_ascii del: colon_lower)
  show ?thesis
  proof (cases "0 < port")
    case True
    define n where "n = nat port"
    have n: "port = int n" using True by (simp add: n_def)
    with True assms(3) have "int n < 2 ^ 63" by simp
    then have at: "Atoi (show_nat n) = Some (int n)" by (rule Atoi_show_nat)
    have sh: "show_int port = show_nat n" by (simp add: n show_int_def)
    have "strLastIndex (host @ CHR '':'' # show_nat n) CHR '':'' = Some (length host)"
      using show_nat_digits [of n] digits_not_in by (intro strLastIndex_append) blast
    with MakeAddress_parts [OF s(1), of u "host @ '':'' @ show_nat n"] True at sh n s(2)
    show ?thesis by (simp add: MakeAddressFromComponents_def Let_def)
  next
    case False
    with assms(3) have "strLastIndex host CHR '':'' = None" "port = 0" by (simp_all add: strLastIndex_None)
    with MakeAddress_parts [OF s(1), of u host] s(2) show ?thesis by (simp add: MakeAddressFromComponents_def Let_def)
  qed
qed

theorem MakeAddress_roundtrip_witness:
  "MakeAddress id ''ipv6://::1:80'' = Some \<lparr>ca_Address = ''ipv6://::1:80'', ca_Scheme = ''ipv6'', ca_Host = ''::1'', ca_Port = 80\<rparr>"
proof -
  have "MakeAddressFromComponents id ''IPv6'' ''::1'' 80
      = \<lparr>ca_Address = ''ipv6://::1:80'', ca_Scheme = ''ipv6'', ca_Host = ''::1'', ca_Port = 80\<rparr>"
    by code_simp
  moreover have "is_ascii ''IPv6''" "CHR '':'' \<notin> set ''IPv6''" by code_simp+
  ultimately show ?thesis using MakeAddress_roundtrip [of "''IPv6''" 80 "''::1''" id] by (simp only: ChannelAddress.simps) simp
qed

text \<open>An IPv6 host without a port is misread: its last group is taken for the port.\<close>

lemma MakeAddress_ipv6_without_port:
  "MakeAddress id ''ipv6://::1'' = Some \<lparr>ca_Address = ''ipv6://::1'', ca_Scheme = ''ipv6'', ca_Host = '':'', ca_Port = 1\<rparr>"
  by code_simp

text \<open>\<open>parseHostPort\<close>, which reads the remote address of an accepted connection, inverts \<open>resolveAddress\<close>, which writes the
  address to listen on or to dial, for IPv4 and IPv6 hosts and for names.\<close>

theorem parseHostPort_resolveAddress:
  assumes "ToLower u (ca_Scheme a) \<in> {''atcp'', ''ipv4'', ''ipv6'', ''dns''}" and "ca_Host a \<noteq> ''''"
    and "\<not> HasPrefix (ca_Host a) ''[''" and "0 \<le> ca_Port a" and "ca_Port a < 2 ^ 63"
  shows "parseHostPort (snd (resolveAddress u a)) = (ca_Host a, ca_Port a)
    \<and> fst (resolveAddress u a) \<in> {''tcp'', ''tcp4'', ''tcp6''}"
proof -
  define n where "n = nat (ca_Port a)"
  define ds where "ds = show_nat n"
  have n: "ca_Port a = int n" "int n < 2 ^ 63" using assms(4,5) by (simp_all add: n_def)
  have ds: "show_int (ca_Port a) = ds" "list_all is_digit ds" "ds \<noteq> []" "scan_port ds = int n"
    using show_nat_digits [of n] Sscanf_show_nat [OF n(2)] by (simp_all add: n(1) ds_def show_int_def scan_port_def)
  have nin: "CHR '':'' \<notin> set ds" "CHR '']'' \<notin> set ds" using digits_not_in [OF ds(2)] by simp_all
  have colon: "strLastIndex (ca_Host a @ CHR '':'' # ds) CHR '':'' = Some (length (ca_Host a))"
    using nin(1) by (rule strLastIndex_append)
  have plain: "parseHostPort (ca_Host a @ CHR '':'' # ds) = (ca_Host a, int n)"
    using assms(2,3) colon ds(4) by (cases "ca_Host a") (simp_all add: parseHostPort_def parseHostPort_plain_def HasPrefix_def)
  have "strLastIndex ((CHR ''['' # ca_Host a) @ CHR '']'' # CHR '':'' # ds) CHR '']'' = Some (length (CHR ''['' # ca_Host a))"
    using nin(2) by (intro strLastIndex_append) simp
  then have bracket: "parseHostPort (CHR ''['' # ca_Host a @ CHR '']'' # CHR '':'' # ds) = (ca_Host a, int n)"
    using ds(3,4) by (simp add: parseHostPort_def HasPrefix_def nth_append)
  show ?thesis using assms(1) plain bracket n(1) ds(1) by (auto simp: resolveAddress_def)
qed

theorem parseHostPort_resolveAddress_witness:
  "parseHostPort ''[::1]:80'' = (''::1'', 80)"
proof -
  let ?a = "\<lparr>ca_Address = ''ipv6://::1:80'', ca_Scheme = ''ipv6'', ca_Host = ''::1'', ca_Port = 80\<rparr>"
  have "resolveAddress id ?a = (''tcp6'', ''[::1]:80'')" by code_simp
  moreover have "ToLower id ''ipv6'' = ''ipv6''" by code_simp
  ultimately show ?thesis using parseHostPort_resolveAddress [of id ?a] by (simp add: HasPrefix_def)
qed

subsection \<open>Classification\<close>

lemma before_char: "c \<notin> set xs \<Longrightarrow> takeWhile (\<lambda>x. x \<noteq> c) (xs @ c # ys) = xs"
  by (induction xs) auto

lemma take_scheme:
  assumes "c \<notin> set t" and "c \<notin> set scheme"
  shows "take (Suc (length t)) (scheme @ c # rest) = t @ [c] \<longleftrightarrow> scheme = t"
proof
  assume "take (Suc (length t)) (scheme @ c # rest) = t @ [c]"
  then obtain r where "scheme @ c # rest = (t @ [c]) @ r"
    using append_take_drop_id [of "Suc (length t)" "scheme @ c # rest"] by metis
  then have "scheme @ c # rest = t @ c # r" by simp
  then show "scheme = t" using assms before_char [of c scheme rest] before_char [of c t r] by simp
next
  assume "scheme = t"
  then show "take (Suc (length t)) (scheme @ c # rest) = t @ [c]" by (simp only: take_append) simp
qed

lemma map_lower_eq: "\<forall>c \<in> set k. (of_char c :: nat) < 65 \<Longrightarrow> map lower_char h = k \<longleftrightarrow> h = k"
proof (induction h arbitrary: k)
  case (Cons c h)
  then show ?case by (cases k) (simp_all add: lower_char_eq_iff)
qed simp

lemma loopback_lower:
  assumes "\<forall>c \<in> set l. (of_char c :: nat) < 65"
  shows "is_loopback_rest (map lower_char host) l \<longleftrightarrow> host = l \<or> HasPrefix host (l @ '':'')"
proof -
  have pre: "HasPrefix (map lower_char host) l \<longleftrightarrow> HasPrefix host l"
    using map_lower_eq [OF assms] by (simp add: HasPrefix_def take_map)
  show ?thesis
  proof (cases "HasPrefix host l")
    case True
    then obtain t where t: "host = l @ t" by (auto simp: HasPrefix_append)
    then have "is_loopback_rest (map lower_char host) l \<longleftrightarrow> t = [] \<or> hd (map lower_char t) = CHR '':''"
      using pre True by (simp add: is_loopback_rest_def)
    also have "\<dots> \<longleftrightarrow> host = l \<or> HasPrefix host (l @ '':'')"
      using t by (cases t) (simp_all add: HasPrefix_append lower_char_eq_iff)
    finally show ?thesis .
  next
    case False
    then show ?thesis using pre by (auto simp: is_loopback_rest_def HasPrefix_append)
  qed
qed

lemma if_True_disj: "(if P then True else Q) \<longleftrightarrow> P \<or> Q"
  by simp

lemma scheme_prefix:
  assumes "c \<notin> set s" and "c \<notin> set t" and "m = Suc (length t)"
  shows "m \<le> length (s @ c # tail) \<and> take m (s @ c # tail) = t @ [c] \<longleftrightarrow> s = t"
  using take_scheme [OF assms(2,1), of tail] assms(3) by auto

lemma loopback_long: "list_ex (is_loopback_rest r) [''127.0.0.1'', ''::1''] \<Longrightarrow> 3 \<le> length r"
  by (auto simp: is_loopback_rest_def HasPrefix_append)

lemma tcp_prefix:
  assumes "c \<notin> set s" and "\<And>t. t \<in> T \<Longrightarrow> c \<notin> set t \<and> length t = 4" and "\<And>r. P r \<Longrightarrow> 3 \<le> length r"
    and low_def: "low = s @ c # x # y # r"
  shows "10 \<le> length low \<and> (\<exists>t \<in> T. take 5 low = t @ [c]) \<and> P (drop 7 low) \<longleftrightarrow> s \<in> T \<and> P r"
proof -
  have "take 5 low = t @ [c] \<longleftrightarrow> s = t" if "10 \<le> length low" "t \<in> T" for t
    using scheme_prefix [OF assms(1), of t 5 "x # y # r"] assms(2) [OF that(2)] that(1) unfolding low_def by force
  then have "10 \<le> length low \<Longrightarrow> (\<exists>t \<in> T. take 5 low = t @ [c]) \<longleftrightarrow> s \<in> T" by blast
  moreover have "drop 7 low = r \<and> (P r \<longrightarrow> 10 \<le> length low)" if "s \<in> T"
    using assms(2) [OF that] assms(3) [of r] by (auto simp: low_def)
  ultimately show ?thesis by metis
qed

text \<open>Which addresses are process-local, host-local and simplex, for an ASCII address \<open>scheme://rest\<close>: only the scheme decides the
  first and the third; host-local are also the loopback hosts, recognised textually up to the next colon.\<close>

theorem address_classes:
  assumes "is_ascii scheme" and "is_ascii rest" and "CHR '':'' \<notin> set scheme"
  shows "(IsLocalProcessAddress u (scheme @ ''://'' @ rest) \<longleftrightarrow> map lower_char scheme = ''mem'')
    \<and> (IsSimplexAddress u (scheme @ ''://'' @ rest) \<longleftrightarrow> map lower_char scheme \<in> {''mem'', ''shm''})
    \<and> (IsDuplexAddress u (scheme @ ''://'' @ rest) \<longleftrightarrow> map lower_char scheme \<notin> {''mem'', ''shm''})
    \<and> (IsLocalHostAddress u (scheme @ ''://'' @ rest) \<longleftrightarrow>
      map lower_char scheme \<in> {''mem'', ''shm'', ''unix'', ''pipe''}
      \<or> map lower_char scheme \<in> {''atcp'', ''ipv4'', ''ipv6''}
        \<and> (\<exists>l \<in> {''127.0.0.1'', ''::1''}. rest = l \<or> HasPrefix rest (l @ '':'')))"
proof -
  define input where "input = scheme @ ''://'' @ rest"
  define s where "s = map lower_char scheme"
  define low where "low = s @ CHR '':'' # CHR ''/'' # CHR ''/'' # map lower_char rest"
  define loop where "loop r = list_ex (is_loopback_rest r) [''127.0.0.1'', ''::1'']" for r
  have ne: "input \<noteq> []" and ascii: "is_ascii input" using assms(1,2) by (simp_all add: input_def)
  have low: "ToLower u input = low"
    using ToLower_ascii [OF ascii] by (simp add: input_def s_def low_def lower_char_def)
  have s: "CHR '':'' \<notin> set s" using assms(3) by (simp only: s_def colon_lower not_False_eq_True)
  have pre: "m \<le> length low \<and> take m low = t @ '':'' \<longleftrightarrow> s = t" if "CHR '':'' \<notin> set t" "m = Suc (length t)" for t m
    unfolding low_def by (rule scheme_prefix [OF s that])
  have mem: "4 \<le> length low \<and> take 4 low = ''mem:'' \<longleftrightarrow> s = ''mem''"
    by (rule pre [of "''mem''" 4, unfolded append_Cons append_Nil]) simp_all
  have shm: "4 \<le> length low \<and> take 4 low = ''shm:'' \<longleftrightarrow> s = ''shm''"
    by (rule pre [of "''shm''" 4, unfolded append_Cons append_Nil]) simp_all
  have unix: "5 \<le> length low \<and> take 5 low = ''unix:'' \<longleftrightarrow> s = ''unix''"
    by (rule pre [of "''unix''" 5, unfolded append_Cons append_Nil]) simp_all
  have pipe: "5 \<le> length low \<and> take 5 low = ''pipe:'' \<longleftrightarrow> s = ''pipe''"
    by (rule pre [of "''pipe''" 5, unfolded append_Cons append_Nil]) simp_all
  have pipes: "5 \<le> length low \<and> (take 5 low = ''unix:'' \<or> take 5 low = ''pipe:'') \<longleftrightarrow> s = ''unix'' \<or> s = ''pipe''"
    using unix pipe by metis
  have "10 \<le> length low \<and> (\<exists>t \<in> {''atcp'', ''ipv4'', ''ipv6''}. take 5 low = t @ '':'') \<and> loop (drop 7 low)
      \<longleftrightarrow> s \<in> {''atcp'', ''ipv4'', ''ipv6''} \<and> loop (map lower_char rest)"
    by (rule tcp_prefix [OF s _ _ low_def]) (simp_all only: loop_def loopback_long, auto)
  then have tcp: "10 \<le> length low \<and> (take 5 low = ''atcp:'' \<or> take 5 low = ''ipv4:'' \<or> take 5 low = ''ipv6:'') \<and> loop (drop 7 low)
      \<longleftrightarrow> s \<in> {''atcp'', ''ipv4'', ''ipv6''} \<and> loop (map lower_char rest)"
    by (simp only: bex_simps append_Cons append_Nil simp_thms)
  have l: "loop (map lower_char rest) \<longleftrightarrow> (\<exists>l \<in> {''127.0.0.1'', ''::1''}. rest = l \<or> HasPrefix rest (l @ '':''))"
    using loopback_lower [of "''127.0.0.1''" rest] loopback_lower [of "''::1''" rest] by (simp add: loop_def)
  have proc: "IsLocalProcessAddress u input \<longleftrightarrow> s = ''mem''"
    unfolding mem [symmetric] IsLocalProcessAddress_def low Let_def using ne by auto
  have simplex: "IsSimplexAddress u input \<longleftrightarrow> s = ''mem'' \<or> s = ''shm''"
    unfolding IsSimplexAddress_def low Let_def mem shm by (simp only: ne if_False if_True_disj)
  have duplex: "IsDuplexAddress u input \<longleftrightarrow> \<not> (s = ''mem'' \<or> s = ''shm'')"
    unfolding IsDuplexAddress_def simplex by (simp only: ne if_False)
  have host: "IsLocalHostAddress u input \<longleftrightarrow> s = ''mem'' \<or> s = ''shm'' \<or> (s = ''unix'' \<or> s = ''pipe'')
      \<or> s \<in> {''atcp'', ''ipv4'', ''ipv6''} \<and> loop (map lower_char rest)"
    unfolding IsLocalHostAddress_def proc low Let_def shm pipes loop_def [symmetric] tcp by (simp only: ne if_False if_True_disj)
  show ?thesis
    unfolding input_def [symmetric] s_def [symmetric] proc simplex duplex host l
    by (simp only: insert_iff empty_iff simp_thms disj_assoc)
qed

theorem address_classes_witness:
  "IsLocalHostAddress id ''ipv6://::1:5:80''"
proof -
  have "is_ascii ''ipv6''" "is_ascii ''::1:5:80''" "CHR '':'' \<notin> set ''ipv6''" "map lower_char ''ipv6'' = ''ipv6''"
    "HasPrefix ''::1:5:80'' (''::1'' @ '':'')"
    by code_simp+
  with address_classes [of "''ipv6''" "''::1:5:80''" id] show ?thesis by simp
qed

subsection \<open>Algorithm names\<close>

definition crypto_token :: "ATBUS_CRYPTO_ALGORITHM_TYPE \<Rightarrow> string" where
  "crypto_token a = (case a of CRYPTO_NONE \<Rightarrow> [] | XXTEA \<Rightarrow> ''xxtea'' | AES_128_CBC \<Rightarrow> ''aes-128-cbc'' | AES_192_CBC \<Rightarrow> ''aes-192-cbc''
    | AES_256_CBC \<Rightarrow> ''aes-256-cbc'' | AES_128_GCM \<Rightarrow> ''aes-128-gcm'' | AES_192_GCM \<Rightarrow> ''aes-192-gcm''
    | AES_256_GCM \<Rightarrow> ''aes-256-gcm'' | CHACHA20 \<Rightarrow> ''chacha20'' | CHACHA20_POLY1305_IETF \<Rightarrow> ''chacha20-poly1305-ietf''
    | XCHACHA20_POLY1305_IETF \<Rightarrow> ''xchacha20-poly1305-ietf'' | CRYPTO_OTHER _ \<Rightarrow> [])"

definition compression_token :: "ATBUS_COMPRESSION_ALGORITHM_TYPE \<Rightarrow> string" where
  "compression_token a = (case a of COMPRESSION_NONE \<Rightarrow> [] | ZSTD \<Rightarrow> ''zstd'' | LZ4 \<Rightarrow> ''lz4'' | SNAPPY \<Rightarrow> ''snappy'' | ZLIB \<Rightarrow> ''zlib'' | COMPRESSION_OTHER _ \<Rightarrow> [])"

lemma token_is_lower: "map lower_char t = t \<Longrightarrow> token_is t name \<longleftrightarrow> map lower_char name = t"
  by (auto simp: token_is_def EqualFold_def dest: arg_cong [where f = length])

lemma ParseCrypto_lower:
  "ParseCryptoAlgorithmName name =
     (let l = map lower_char name in
      if l = ''chacha20'' then CHACHA20
      else if l = ''chacha20-poly1305-ietf'' then CHACHA20_POLY1305_IETF
      else if l = ''xchacha20-poly1305-ietf'' then XCHACHA20_POLY1305_IETF
      else if l = ''aes-256-gcm'' then AES_256_GCM else if l = ''aes-256-cbc'' then AES_256_CBC
      else if l = ''aes-192-gcm'' then AES_192_GCM else if l = ''aes-192-cbc'' then AES_192_CBC
      else if l = ''aes-128-gcm'' then AES_128_GCM else if l = ''aes-128-cbc'' then AES_128_CBC
      else if l = ''xxtea'' then XXTEA else CRYPTO_NONE)"
  unfolding ParseCryptoAlgorithmName_def Let_def by (simp add: token_is_lower lower_char_def)

lemma ParseCompression_lower:
  "ParseCompressionAlgorithmName name =
     (let l = map lower_char name in
      if l = ''zstd'' then ZSTD else if l = ''lz4'' then LZ4 else if l = ''zlib'' then ZLIB
      else if l = ''snappy'' then SNAPPY else COMPRESSION_NONE)"
  unfolding ParseCompressionAlgorithmName_def Let_def by (simp add: token_is_lower lower_char_def)

lemma ParseCrypto_iff: "crypto_token a \<noteq> [] \<Longrightarrow> ParseCryptoAlgorithmName name = a \<longleftrightarrow> map lower_char name = crypto_token a"
  unfolding ParseCrypto_lower Let_def by (cases a) (simp_all add: crypto_token_def)

lemma ParseCompression_iff: "compression_token b \<noteq> [] \<Longrightarrow> ParseCompressionAlgorithmName name = b \<longleftrightarrow> map lower_char name = compression_token b"
  unfolding ParseCompression_lower Let_def by (cases b) (simp_all add: compression_token_def)

text \<open>An algorithm name is recognised exactly when it is one of the documented tokens, in any mixture of cases, and every
  algorithm has its own token.\<close>

theorem Parse_algorithm_names:
  assumes "crypto_token a \<noteq> []" and "compression_token b \<noteq> []"
  shows "(ParseCryptoAlgorithmName name = a \<longleftrightarrow> map lower_char name = crypto_token a)
    \<and> (ParseCompressionAlgorithmName name = b \<longleftrightarrow> map lower_char name = compression_token b)"
  using ParseCrypto_iff [OF assms(1)] ParseCompression_iff [OF assms(2)] by blast

theorem Parse_algorithm_names_witness:
  "ParseCryptoAlgorithmName ''AES-256-GCM'' = AES_256_GCM \<and> ParseCompressionAlgorithmName ''AES-256-GCM'' \<noteq> ZSTD"
proof -
  have "map lower_char ''AES-256-GCM'' = crypto_token AES_256_GCM" "map lower_char ''AES-256-GCM'' \<noteq> compression_token ZSTD"
    "crypto_token AES_256_GCM \<noteq> []" "compression_token ZSTD \<noteq> []"
    by code_simp+
  then show ?thesis using Parse_algorithm_names [of AES_256_GCM ZSTD "''AES-256-GCM''"] by simp
qed

end
