(* ===== verification/Topology.thy ===== *)
theory Topology
  imports Prelude "HOL-Library.AList"
begin

section \<open>The topology registry (impl/atbus\_topology.go, types/atbus\_topology.go)\<close>

text \<open>
  The registry of peers: a map from bus ids to peer objects, each with a pointer to its upstream peer
  and a map of its downstream peers. Pointers are compared by identity and may outlive the
  registration of the object they point to, so the objects live in an explicit store: a list, whose
  indices are the addresses and which only grows. Go maps are association lists with distinct keys.
  The receivers of the methods are never nil here; where the code passes a possibly nil peer the model
  has an \<open>option\<close>. The loops along the upstream pointers and the recursion of \<open>RemovePeer\<close> are partial
  functions whose value is \<open>None\<close> when they do not end; that they do end on every registry the
  operations can build is proved below.
\<close>

type_synonym BusIdType = uint64

subsection \<open>Data\<close>

record TopologyData =
  td_Pid :: int
  td_Hostname :: string
  td_Labels :: "(string \<times> string) list"

record TopologyPolicyRule =
  RequireSameProcess :: bool
  RequireSameHostName :: bool
  RequireLabelValues :: "(string \<times> string list) list"

datatype TopologyRelationType =
    Relation_Invalid | Relation_Self | ImmediateUpstream | TransitiveUpstream | ImmediateDownstream
  | TransitiveDownstream | SameUpstreamPeer | OtherUpstreamPeer

record TopologyPeer =
  tp_busId :: BusIdType
  tp_proactivelyAdded :: bool
  tp_upstream :: "nat option"
  tp_downstream :: "(BusIdType \<times> nat) list"
  tp_topologyData :: TopologyData

record TopologyRegistry =
  tr_data :: "(BusIdType \<times> nat) list"
  tr_heap :: "TopologyPeer list"

definition zero_TopologyData :: TopologyData where
  "zero_TopologyData = \<lparr>td_Pid = 0, td_Hostname = [], td_Labels = []\<rparr>"

definition CreateTopologyPeer :: "BusIdType \<Rightarrow> TopologyPeer" where
  "CreateTopologyPeer busId = \<lparr>tp_busId = busId, tp_proactivelyAdded = False, tp_upstream = None, tp_downstream = [],
     tp_topologyData = zero_TopologyData\<rparr>"

definition CreateTopologyRegistry :: TopologyRegistry where
  "CreateTopologyRegistry = \<lparr>tr_data = [], tr_heap = []\<rparr>"

subsection \<open>Operations on a peer\<close>

definition modify_peer :: "nat \<Rightarrow> (TopologyPeer \<Rightarrow> TopologyPeer) \<Rightarrow> TopologyRegistry \<Rightarrow> TopologyRegistry" where
  "modify_peer a f r = r\<lparr>tr_heap := (tr_heap r)[a := f (tr_heap r ! a)]\<rparr>"

definition GetUpstream :: "TopologyRegistry \<Rightarrow> nat \<Rightarrow> nat option" where
  "GetUpstream r a = tp_upstream (tr_heap r ! a)"

definition GetBusId :: "TopologyRegistry \<Rightarrow> nat \<Rightarrow> BusIdType" where
  "GetBusId r a = tp_busId (tr_heap r ! a)"

definition GetTopologyData :: "TopologyRegistry \<Rightarrow> nat \<Rightarrow> TopologyData" where
  "GetTopologyData r a = tp_topologyData (tr_heap r ! a)"

definition ContainsDownstream :: "TopologyRegistry \<Rightarrow> nat \<Rightarrow> BusIdType \<Rightarrow> bool" where
  "ContainsDownstream r a busId \<longleftrightarrow> map_of (tp_downstream (tr_heap r ! a)) busId \<noteq> None"

definition setProactivelyAdded :: "bool \<Rightarrow> nat \<Rightarrow> TopologyRegistry \<Rightarrow> TopologyRegistry" where
  "setProactivelyAdded v a = modify_peer a (\<lambda>p. p\<lparr>tp_proactivelyAdded := v\<rparr>)"

definition getProactivelyAdded :: "TopologyRegistry \<Rightarrow> nat \<Rightarrow> bool" where
  "getProactivelyAdded r a = tp_proactivelyAdded (tr_heap r ! a)"

definition updateUpstream :: "nat option \<Rightarrow> nat \<Rightarrow> TopologyRegistry \<Rightarrow> TopologyRegistry" where
  "updateUpstream u a = modify_peer a (\<lambda>p. p\<lparr>tp_upstream := u\<rparr>)"

definition updateData :: "TopologyData option \<Rightarrow> nat \<Rightarrow> TopologyRegistry \<Rightarrow> TopologyRegistry" where
  "updateData data a r = (case data of None \<Rightarrow> r | Some d \<Rightarrow> modify_peer a (\<lambda>p. p\<lparr>tp_topologyData := d\<rparr>) r)"

definition addDownstream :: "nat \<Rightarrow> nat option \<Rightarrow> TopologyRegistry \<Rightarrow> TopologyRegistry" where
  "addDownstream d up r = (case up of
      None \<Rightarrow> r
    | Some a \<Rightarrow> modify_peer a (\<lambda>p. p\<lparr>tp_downstream := AList.update (GetBusId r d) d (tp_downstream p)\<rparr>) r)"

definition removeDownstream :: "BusIdType \<Rightarrow> nat \<Rightarrow> nat \<Rightarrow> TopologyRegistry \<Rightarrow> TopologyRegistry" where
  "removeDownstream downStreamBusId check a r =
     (if map_of (tp_downstream (tr_heap r ! a)) downStreamBusId = Some check
      then modify_peer a (\<lambda>p. p\<lparr>tp_downstream := AList.delete downStreamBusId (tp_downstream p)\<rparr>) r
      else r)"

text \<open>\<open>ForeachDownstream\<close> and \<open>ForeachPeer\<close> visit a Go map in an order of the runtime's choice, here the order of the list they are given.\<close>

fun foreach_until :: "('s \<Rightarrow> nat \<Rightarrow> 's \<times> bool) \<Rightarrow> nat list \<Rightarrow> 's \<Rightarrow> 's \<times> bool" where
  "foreach_until fn [] s = (s, True)"
| "foreach_until fn (a # as) s = (let (s, continue) = fn s a in if continue then foreach_until fn as s else (s, False))"

definition ForeachDownstream :: "('s \<Rightarrow> nat \<Rightarrow> 's \<times> bool) \<Rightarrow> TopologyRegistry \<Rightarrow> nat \<Rightarrow> 's \<Rightarrow> 's \<times> bool" where
  "ForeachDownstream fn r a s = foreach_until fn (map snd (tp_downstream (tr_heap r ! a))) s"

definition ForeachPeer :: "('s \<Rightarrow> nat \<Rightarrow> 's \<times> bool) \<Rightarrow> TopologyRegistry \<Rightarrow> 's \<Rightarrow> 's \<times> bool" where
  "ForeachPeer fn r s = foreach_until fn (map snd (tr_data r)) s"

subsection \<open>Operations on the registry\<close>

definition GetPeerInstance :: "TopologyRegistry \<Rightarrow> BusIdType \<Rightarrow> nat option" where
  "GetPeerInstance r busId = map_of (tr_data r) busId"

definition GetPeer :: "TopologyRegistry \<Rightarrow> BusIdType \<Rightarrow> nat option" where
  "GetPeer r busId = GetPeerInstance r busId"

definition mutablePeer :: "BusIdType \<Rightarrow> TopologyRegistry \<Rightarrow> TopologyRegistry \<times> nat" where
  "mutablePeer busId r =
     (case GetPeerInstance r busId of
        Some a \<Rightarrow> (r, a)
      | None \<Rightarrow>
          let a = length (tr_heap r)
          in (r\<lparr>tr_heap := tr_heap r @ [CreateTopologyPeer busId], tr_data := AList.update busId a (tr_data r)\<rparr>, a))"

partial_function (option) RemovePeer :: "BusIdType \<Rightarrow> TopologyRegistry \<Rightarrow> TopologyRegistry option" where
  "RemovePeer targetBusId r =
     (case map_of (tr_data r) targetBusId of
        None \<Rightarrow> Some r
      | Some p \<Rightarrow>
          let r = setProactivelyAdded False p r;
              r = (if tp_downstream (tr_heap r ! p) = [] then r\<lparr>tr_data := AList.delete targetBusId (tr_data r)\<rparr> else r)
          in case GetUpstream r p of
               None \<Rightarrow> Some r
             | Some u \<Rightarrow>
                 let r = removeDownstream targetBusId p u r
                 in if \<not> getProactivelyAdded r u \<and> tp_downstream (tr_heap r ! u) = []
                    then RemovePeer (GetBusId r u) r
                    else Some r)"

text \<open>The loop of \<open>UpdatePeer\<close> that looks for the target among the ancestors of its new upstream.\<close>

partial_function (option) closes_circle :: "TopologyRegistry \<Rightarrow> BusIdType \<Rightarrow> nat option \<Rightarrow> bool option" where
  "closes_circle r targetBusId cur =
     (case cur of
        None \<Rightarrow> Some False
      | Some c \<Rightarrow> if GetBusId r c = targetBusId then Some True else closes_circle r targetBusId (GetUpstream r c))"

definition upstream_instance :: "BusIdType \<Rightarrow> TopologyRegistry \<Rightarrow> TopologyRegistry \<times> nat option" where
  "upstream_instance upstreamBusId r =
     (if upstreamBusId \<noteq> 0 then (let (r, a) = mutablePeer upstreamBusId r in (r, Some a)) else (r, None))"

text \<open>
  \<open>peer.GetUpstream() == upstream\<close> compares an interface with a pointer: a peer without upstream returns the
  nil interface, which differs from a nil pointer, so two absent upstreams do not compare equal.
\<close>

definition UpdatePeer ::
  "BusIdType \<Rightarrow> BusIdType \<Rightarrow> TopologyData option \<Rightarrow> TopologyRegistry \<Rightarrow> (TopologyRegistry \<times> bool) option" where
  "UpdatePeer targetBusId upstreamBusId data r =
     (if targetBusId = 0 then Some (r, False)
      else if targetBusId = upstreamBusId then Some (r, False)
      else
        let peer = GetPeerInstance r targetBusId;
            (r, upstream) = upstream_instance upstreamBusId r
        in case peer of
             Some p \<Rightarrow>
               let r = setProactivelyAdded True p r;
                   r = updateData data p r
               in if upstream \<noteq> None \<and> GetUpstream r p = upstream then Some (r, True)
                  else
                    (case closes_circle r targetBusId upstream of
                       None \<Rightarrow> None
                     | Some True \<Rightarrow> Some (r, False)
                     | Some False \<Rightarrow>
                         let r = (case GetUpstream r p of None \<Rightarrow> r | Some old \<Rightarrow> removeDownstream targetBusId p old r);
                             r = updateUpstream upstream p r
                         in Some (addDownstream p upstream r, True))
           | None \<Rightarrow>
               let (r, p) = mutablePeer targetBusId r;
                   r = setProactivelyAdded True p r;
                   r = updateData data p r;
                   r = updateUpstream upstream p r
               in Some (addDownstream p upstream r, True))"

text \<open>The two loops of \<open>GetRelation\<close>.\<close>

partial_function (option) climb_from :: "TopologyRegistry \<Rightarrow> nat \<Rightarrow> nat option \<Rightarrow> bool option" where
  "climb_from r toPeer fromPeerUpstream =
     (case fromPeerUpstream of
        None \<Rightarrow> Some False
      | Some c \<Rightarrow> if GetUpstream r c = Some toPeer then Some True else climb_from r toPeer (GetUpstream r c))"

partial_function (option) climb_to :: "TopologyRegistry \<Rightarrow> nat \<Rightarrow> nat option \<Rightarrow> nat option option" where
  "climb_to r fromPeer toPeerUpstream =
     (case toPeerUpstream of
        None \<Rightarrow> Some None
      | Some c \<Rightarrow> if GetUpstream r c = Some fromPeer then Some (Some c) else climb_to r fromPeer (GetUpstream r c))"

definition GetRelation ::
  "TopologyRegistry \<Rightarrow> BusIdType \<Rightarrow> BusIdType \<Rightarrow> (TopologyRelationType \<times> nat option) option" where
  "GetRelation r from to =
     (if from = 0 \<or> to = 0 then Some (Relation_Invalid, None)
      else case (GetPeerInstance r from, GetPeerInstance r to) of
        (Some fromPeer, Some toPeer) \<Rightarrow>
          if from = to then Some (Relation_Self, Some toPeer)
          else
            let fromPeerUpstream = GetUpstream r fromPeer; toPeerUpstream = GetUpstream r toPeer in
            if fromPeerUpstream = Some toPeer then Some (ImmediateUpstream, Some toPeer)
            else if toPeerUpstream = Some fromPeer then Some (ImmediateDownstream, Some toPeer)
            else if fromPeerUpstream \<noteq> None \<and> fromPeerUpstream = toPeerUpstream then Some (SameUpstreamPeer, fromPeerUpstream)
            else
              (case climb_from r toPeer fromPeerUpstream of
                 None \<Rightarrow> None
               | Some True \<Rightarrow> Some (TransitiveUpstream, GetUpstream r fromPeer)
               | Some False \<Rightarrow>
                   (case climb_to r fromPeer toPeerUpstream of
                      None \<Rightarrow> None
                    | Some (Some hop) \<Rightarrow> Some (TransitiveDownstream, Some hop)
                    | Some None \<Rightarrow>
                        if GetUpstream r fromPeer \<noteq> None then Some (OtherUpstreamPeer, GetUpstream r fromPeer)
                        else Some (OtherUpstreamPeer, Some toPeer)))
      | _ \<Rightarrow> Some (Relation_Invalid, None))"

definition CheckPolicy :: "TopologyPolicyRule option \<Rightarrow> TopologyData option \<Rightarrow> TopologyData option \<Rightarrow> bool" where
  "CheckPolicy rule fromData toData =
     (case rule of
        None \<Rightarrow> True
      | Some rl \<Rightarrow>
          (case (fromData, toData) of
             (Some f, Some t) \<Rightarrow>
               if (RequireSameProcess rl \<or> RequireSameHostName rl) \<and> td_Hostname f \<noteq> td_Hostname t then False
               else if RequireSameProcess rl \<and> td_Pid f \<noteq> td_Pid t then False
               else list_all (\<lambda>(labelKey, labelValues).
                      case map_of (td_Labels t) labelKey of
                        None \<Rightarrow> False
                      | Some toValue \<Rightarrow> toValue \<in> set labelValues) (RequireLabelValues rl)
           | _ \<Rightarrow> False))"

declare RemovePeer.simps [code] closes_circle.simps [code] climb_from.simps [code] climb_to.simps [code]

subsection \<open>The abstract registry\<close>

text \<open>
  What the operations rely on is visible through five functions of a registry: the number of objects,
  the registered peer of an id, and of each object its id, its upstream and its downstream map. An
  upstream pointer is \<open>rooted\<close> when following it reaches a peer without upstream.
\<close>

inductive rooted :: "(nat \<Rightarrow> nat option) \<Rightarrow> nat \<Rightarrow> bool" for U where
  root: "U a = None \<Longrightarrow> rooted U a"
| child: "U a = Some b \<Longrightarrow> rooted U b \<Longrightarrow> rooted U a"

inductive_simps rooted_Some: "rooted U a"

inductive on_chain :: "(nat \<Rightarrow> nat option) \<Rightarrow> nat \<Rightarrow> nat \<Rightarrow> bool" for U where
  here: "on_chain U a a"
| up: "U a = Some b \<Longrightarrow> on_chain U b c \<Longrightarrow> on_chain U a c"

text \<open>
  The invariant of the abstract registry: registered peers carry their id; upstream pointers stay in
  the store and are rooted; whoever is downstream of a peer is registered and points back; only
  registered peers have downstream peers; an upstream pointer whose id was registered again points to
  an object older than the one registered now, which is younger than the peer itself.
\<close>

definition wf_views ::
  "nat \<Rightarrow> (BusIdType \<rightharpoonup> nat) \<Rightarrow> (nat \<Rightarrow> BusIdType) \<Rightarrow> (nat \<Rightarrow> nat option) \<Rightarrow> (nat \<Rightarrow> BusIdType \<rightharpoonup> nat) \<Rightarrow> bool" where
  "wf_views n R B U D \<longleftrightarrow>
     (\<forall>i a. R i = Some a \<longrightarrow> a < n \<and> B a = i)
   \<and> (\<forall>a < n. (\<forall>b. U a = Some b \<longrightarrow> b < n) \<and> rooted U a)
   \<and> (\<forall>a < n. \<forall>i b. D a i = Some b \<longrightarrow> R i = Some b \<and> U b = Some a)
   \<and> (\<forall>a < n. D a \<noteq> Map.empty \<longrightarrow> R (B a) = Some a)
   \<and> (\<forall>i a u c. R i = Some a \<longrightarrow> U a = Some u \<longrightarrow> R (B u) = Some c \<longrightarrow> c = u \<or> a < c)"

lemma wf_viewsD:
  assumes "wf_views n R B U D"
  shows "R i = Some a \<Longrightarrow> a < n" "R i = Some a \<Longrightarrow> B a = i" "a < n \<Longrightarrow> U a = Some b \<Longrightarrow> b < n" "a < n \<Longrightarrow> rooted U a"
    "a < n \<Longrightarrow> D a i = Some b \<Longrightarrow> R i = Some b" "a < n \<Longrightarrow> D a i = Some b \<Longrightarrow> U b = Some a"
    "a < n \<Longrightarrow> D a i = Some b \<Longrightarrow> R (B a) = Some a"
    "R i = Some a \<Longrightarrow> U a = Some u \<Longrightarrow> R (B u) = Some c \<Longrightarrow> c = u \<or> a < c"
  using assms unfolding wf_views_def by (blast, blast, blast, blast, blast, blast, metis option.distinct(1), blast)

lemma wf_viewsI:
  assumes "\<And>i a. R i = Some a \<Longrightarrow> a < n \<and> B a = i"
    and "\<And>a b. a < n \<Longrightarrow> U a = Some b \<Longrightarrow> b < n" and "\<And>a. a < n \<Longrightarrow> rooted U a"
    and "\<And>a i b. a < n \<Longrightarrow> D a i = Some b \<Longrightarrow> R i = Some b \<and> U b = Some a \<and> R (B a) = Some a"
    and "\<And>i a u c. R i = Some a \<Longrightarrow> U a = Some u \<Longrightarrow> R (B u) = Some c \<Longrightarrow> c \<noteq> u \<Longrightarrow> a < c"
  shows "wf_views n R B U D"
  unfolding wf_views_def
proof (intro conjI allI impI)
  fix a assume a: "a < n" "D a \<noteq> Map.empty"
  then obtain i b where "D a i = Some b" by (meson not_None_eq ext)
  with a(1) assms(4) show "R (B a) = Some a" by blast
qed (use assms in blast)+

lemma rooted_below:
  assumes "rooted U a" and "a < n" and "\<And>a b. a < n \<Longrightarrow> U a = Some b \<Longrightarrow> b < n" and "\<And>a. a < n \<Longrightarrow> U' a = U a"
  shows "rooted U' a"
  using assms(1,2)
proof (induction rule: rooted.induct)
  case (root a)
  with assms(4) show ?case by (auto intro: rooted.root)
next
  case (child a b)
  with assms(3) [of a b] assms(4) [of a] show ?case by (auto intro: rooted.child)
qed

lemma rooted_off_chain: "rooted U a \<Longrightarrow> \<not> on_chain U a p \<Longrightarrow> rooted (U(p := q)) a"
proof (induction rule: rooted.induct)
  case (root a)
  then have "a \<noteq> p" by (auto intro: on_chain.here)
  with root show ?case by (intro rooted.root) simp
next
  case (child a b)
  then have "a \<noteq> p" "\<not> on_chain U b p" by (auto intro: on_chain.intros)
  with child show ?case by (intro rooted.child [of _ a b]) simp_all
qed

lemma rooted_relink:
  assumes "\<And>u. q = Some u \<Longrightarrow> rooted U u \<and> \<not> on_chain U u p" and "rooted U a"
  shows "rooted (U(p := q)) a"
proof -
  have p: "rooted (U(p := q)) p"
  proof (cases q)
    case None
    then show ?thesis by (intro rooted.root) simp
  next
    case (Some u)
    with assms(1) [OF Some] rooted_off_chain [of U u p q] show ?thesis by (intro rooted.child [of _ p u]) simp_all
  qed
  from assms(2) show ?thesis
  proof (induction rule: rooted.induct)
    case (root a)
    show ?case
    proof (cases "a = p")
      case False
      with root show ?thesis by (intro rooted.root) simp
    qed (use p in \<open>simp del: fun_upd_apply\<close>)
  next
    case (child a b)
    show ?case
    proof (cases "a = p")
      case False
      with child show ?thesis by (intro rooted.child [of _ a b]) simp_all
    qed (use p in \<open>simp del: fun_upd_apply\<close>)
  qed
qed

lemma wf_fresh:
  assumes "wf_views n R B U D" and "R i = None"
    and "\<And>a. a < n \<Longrightarrow> U' a = U a \<and> B' a = B a \<and> D' a = D a" and "U' n = None" and "B' n = i" and "D' n = Map.empty"
  shows "wf_views (Suc n) (R(i \<mapsto> n)) B' U' D'"
proof (rule wf_viewsI)
  note D = wf_viewsD [OF assms(1)]
  show "a < Suc n \<and> B' a = j" if "(R(i \<mapsto> n)) j = Some a" for j a
    using that D(1,2) [of j a] assms(3,5) by (cases "j = i") auto
  show "b < Suc n" if "a < Suc n" "U' a = Some b" for a b
    using that D(3) [of a b] assms(3,4) by (cases "a = n") auto
  show "rooted U' a" if "a < Suc n" for a
  proof (cases "a = n")
    case False
    with that have a: "a < n" by simp
    show ?thesis by (rule rooted_below [OF D(4) [OF a] a D(3)]) (use assms(3) in blast)+
  qed (use assms(4) in \<open>simp add: rooted.root\<close>)
  show "(R(i \<mapsto> n)) j = Some b \<and> U' b = Some a \<and> (R(i \<mapsto> n)) (B' a) = Some a" if "a < Suc n" "D' a j = Some b" for a j b
  proof -
    from that assms(6) have a: "a < n" by (cases "a = n") auto
    with that assms(3) have "R j = Some b" "U b = Some a" "R (B a) = Some a" using D(5-7) [of a j b] by auto
    moreover from this D(1) have "b < n" by blast
    ultimately show ?thesis using assms(2,3) a by auto
  qed
  show "a < c" if "(R(i \<mapsto> n)) j = Some a" "U' a = Some u" "(R(i \<mapsto> n)) (B' u) = Some c" "c \<noteq> u" for j a u c
  proof -
    from that(2) assms(4) have "a \<noteq> n" by auto
    with that(1) have R: "R j = Some a" by (auto split: if_splits)
    then have a: "a < n" by (rule D(1))
    with that(2) assms(3) have u: "U a = Some u" "u < n" using D(3) [of a u] by auto
    show ?thesis using that(3,4) R u a assms(3) D(8) [OF R u(1)] by (auto split: if_splits)
  qed
qed

lemma wf_remove:
  assumes "wf_views n R B U D" and "R t = Some p" and "R' = R \<or> R' = R(t := None) \<and> D p = Map.empty"
    and "\<And>a. D' a = (if U p = Some a then (D a)(t := None) else D a)"
  shows "wf_views n R' B U D'"
proof (rule wf_viewsI)
  note D = wf_viewsD [OF assms(1)]
  have R': "R i = Some a" if "R' i = Some a" for i a using that assms(3) by (auto split: if_splits)
  show "a < n \<and> B a = i" if "R' i = Some a" for i a using D(1,2) [OF R' [OF that]] by simp
  show "b < n" if "a < n" "U a = Some b" for a b using D(3) [OF that] .
  show "rooted U a" if "a < n" for a using D(4) [OF that] .
  show "R' i = Some b \<and> U b = Some a \<and> R' (B a) = Some a" if "a < n" "D' a i = Some b" for a i b
  proof -
    from that(2) assms(4) [of a] have Dab: "D a i = Some b" and no: "\<not> (U p = Some a \<and> i = t)" by (auto split: if_splits)
    have o: "R i = Some b" "U b = Some a" "R (B a) = Some a" using D(5-7) [OF that(1) Dab] by simp_all
    have "i \<noteq> t" using o(1,2) no assms(2) by auto
    moreover have "B a \<noteq> t" if "D p = Map.empty" using that Dab o(3) assms(2) by auto
    ultimately show ?thesis using o assms(3) by auto
  qed
  show "a < c" if "R' i = Some a" "U a = Some u" "R' (B u) = Some c" "c \<noteq> u" for i a u c
    using D(8) [OF R' [OF that(1)] that(2) R' [OF that(3)]] that(4) by blast
qed

lemma wf_relink:
  assumes "wf_views n R B U D" and "R t = Some p" and "\<And>u. q = Some u \<Longrightarrow> R (B u) = Some u \<and> \<not> on_chain U u p"
    and "\<And>a. D' a = (if q = Some a then (D'' a)(t \<mapsto> p) else D'' a)"
    and "\<And>a. D'' a = (if U p = Some a then (D a)(t := None) else D a)"
  shows "wf_views n R B (U(p := q)) D'"
proof (rule wf_viewsI)
  note D = wf_viewsD [OF assms(1)]
  have p: "p < n" "B p = t" using D(1,2) assms(2) by blast+
  have q: "u < n" if "q = Some u" for u using assms(3) [OF that] D(1) by blast
  show "a < n \<and> B a = i" if "R i = Some a" for i a using D(1,2) [OF that] by simp
  show "b < n" if "a < n" "(U(p := q)) a = Some b" for a b using that D(3) [of a b] q by (auto split: if_splits)
  show "rooted (U(p := q)) a" if "a < n" for a
    using assms(3) D(4) q by (intro rooted_relink [OF _ D(4) [OF that]]) blast
  show "R i = Some b \<and> (U(p := q)) b = Some a \<and> R (B a) = Some a" if "a < n" "D' a i = Some b" for a i b
  proof (cases "q = Some a \<and> i = t")
    case True
    with that(2) assms(4) [of a] assms(2) assms(3) [of a] show ?thesis by auto
  next
    case False
    with that(2) assms(4) [of a] have "D'' a i = Some b" by (auto split: if_splits)
    with assms(5) [of a] have Dab: "D a i = Some b" and no: "\<not> (U p = Some a \<and> i = t)" by (auto split: if_splits)
    have o: "R i = Some b" "U b = Some a" "R (B a) = Some a" using D(5-7) [OF that(1) Dab] by simp_all
    have "b \<noteq> p" using o(1,2) no p(2) D(2) by auto
    with o show ?thesis by simp
  qed
  show "a < c" if "R i = Some a" "(U(p := q)) a = Some u" "R (B u) = Some c" "c \<noteq> u" for i a u c
    using that D(8) [OF that(1)] assms(3) by (cases "a = p") auto
qed

subsection \<open>The registry through the views\<close>

definition downs :: "TopologyRegistry \<Rightarrow> nat \<Rightarrow> BusIdType \<rightharpoonup> nat" where
  "downs r a = map_of (tp_downstream (tr_heap r ! a))"

abbreviation peers :: "TopologyRegistry \<Rightarrow> BusIdType \<rightharpoonup> nat" where
  "peers r \<equiv> map_of (tr_data r)"

definition topo_inv :: "TopologyRegistry \<Rightarrow> bool" where
  "topo_inv r \<longleftrightarrow> wf_views (length (tr_heap r)) (peers r) (GetBusId r) (GetUpstream r) (downs r)"

named_theorems topo_views \<open>effect of the operations on the views of a registry\<close>

lemma downs_empty: "tp_downstream (tr_heap r ! a) = [] \<longleftrightarrow> downs r a = Map.empty"
  by (simp add: downs_def)

lemma modify_peer_views [topo_views]:
  "tr_data (modify_peer a f r) = tr_data r" "length (tr_heap (modify_peer a f r)) = length (tr_heap r)"
  "a < length (tr_heap r) \<Longrightarrow> tr_heap (modify_peer a f r) ! b = (if b = a then f (tr_heap r ! a) else tr_heap r ! b)"
  by (simp_all add: modify_peer_def)

lemma modify_same:
  assumes "\<And>p. g (f p) = g p"
  shows "g (tr_heap (modify_peer a f r) ! b) = g (tr_heap r ! b)"
  by (cases "a < length (tr_heap r)"; cases "b = a") (simp_all add: modify_peer_def assms nth_list_update list_update_beyond)

lemma setProactivelyAdded_views [topo_views]:
  "tr_data (setProactivelyAdded v a r) = tr_data r" "length (tr_heap (setProactivelyAdded v a r)) = length (tr_heap r)"
  "GetUpstream (setProactivelyAdded v a r) = GetUpstream r" "GetBusId (setProactivelyAdded v a r) = GetBusId r"
  "downs (setProactivelyAdded v a r) = downs r"
  "a < length (tr_heap r) \<Longrightarrow> getProactivelyAdded (setProactivelyAdded v a r) b = (if b = a then v else getProactivelyAdded r b)"
  by (simp_all add: setProactivelyAdded_def GetUpstream_def GetBusId_def downs_def getProactivelyAdded_def fun_eq_iff modify_same topo_views)

lemma updateData_views [topo_views]:
  "tr_data (updateData d a r) = tr_data r" "length (tr_heap (updateData d a r)) = length (tr_heap r)"
  "GetUpstream (updateData d a r) = GetUpstream r" "GetBusId (updateData d a r) = GetBusId r"
  "downs (updateData d a r) = downs r" "getProactivelyAdded (updateData d a r) = getProactivelyAdded r"
  by (simp_all add: updateData_def GetUpstream_def GetBusId_def downs_def getProactivelyAdded_def fun_eq_iff modify_same topo_views
      split: option.split)

lemma updateUpstream_views [topo_views]:
  "tr_data (updateUpstream u a r) = tr_data r" "length (tr_heap (updateUpstream u a r)) = length (tr_heap r)"
  "a < length (tr_heap r) \<Longrightarrow> GetUpstream (updateUpstream u a r) = (GetUpstream r)(a := u)"
  "GetBusId (updateUpstream u a r) = GetBusId r" "downs (updateUpstream u a r) = downs r"
  "getProactivelyAdded (updateUpstream u a r) = getProactivelyAdded r"
  by (simp_all add: updateUpstream_def GetUpstream_def GetBusId_def downs_def getProactivelyAdded_def fun_eq_iff modify_same topo_views)

lemma addDownstream_views [topo_views]:
  "tr_data (addDownstream d u r) = tr_data r" "length (tr_heap (addDownstream d u r)) = length (tr_heap r)"
  "GetUpstream (addDownstream d u r) = GetUpstream r" "GetBusId (addDownstream d u r) = GetBusId r"
  "getProactivelyAdded (addDownstream d u r) = getProactivelyAdded r"
  "(\<And>x. u = Some x \<Longrightarrow> x < length (tr_heap r)) \<Longrightarrow>
     downs (addDownstream d u r) a = (if u = Some a then (downs r a)(GetBusId r d \<mapsto> d) else downs r a)"
  by (auto simp: addDownstream_def GetUpstream_def GetBusId_def downs_def getProactivelyAdded_def fun_eq_iff modify_same topo_views update_conv'
      split: option.split)

lemma removeDownstream_views [topo_views]:
  "tr_data (removeDownstream i p u r) = tr_data r" "length (tr_heap (removeDownstream i p u r)) = length (tr_heap r)"
  "GetUpstream (removeDownstream i p u r) = GetUpstream r" "GetBusId (removeDownstream i p u r) = GetBusId r"
  "getProactivelyAdded (removeDownstream i p u r) = getProactivelyAdded r"
  "u < length (tr_heap r) \<Longrightarrow> downs r u i \<in> {None, Some p} \<Longrightarrow>
     downs (removeDownstream i p u r) a = (if a = u then (downs r u)(i := None) else downs r a)"
  by (auto simp: removeDownstream_def GetUpstream_def GetBusId_def downs_def getProactivelyAdded_def fun_eq_iff modify_same topo_views delete_conv')

lemma fresh_peer_views:
  fixes r i
  defines "r' \<equiv> r\<lparr>tr_heap := tr_heap r @ [CreateTopologyPeer i], tr_data := AList.update i (length (tr_heap r)) (tr_data r)\<rparr>"
  shows "peers r' = (peers r)(i \<mapsto> length (tr_heap r))" "length (tr_heap r') = Suc (length (tr_heap r))"
    "a < length (tr_heap r) \<Longrightarrow> GetUpstream r' a = GetUpstream r a \<and> GetBusId r' a = GetBusId r a \<and> downs r' a = downs r a"
    "GetUpstream r' (length (tr_heap r)) = None" "GetBusId r' (length (tr_heap r)) = i" "downs r' (length (tr_heap r)) = Map.empty"
  by (simp_all add: r'_def GetUpstream_def GetBusId_def downs_def CreateTopologyPeer_def update_conv' nth_append)

lemma mutablePeer_inv:
  assumes "topo_inv r" and "mutablePeer i r = (r', a)"
  shows "topo_inv r'" and "peers r' i = Some a" and "GetBusId r' a = i" and "a < length (tr_heap r')"
    and "\<And>j b. peers r j = Some b \<Longrightarrow> peers r' j = Some b" and "length (tr_heap r) \<le> length (tr_heap r')"
    and "\<And>b. b < length (tr_heap r) \<Longrightarrow> GetUpstream r' b = GetUpstream r b \<and> GetBusId r' b = GetBusId r b \<and> downs r' b = downs r b"
    and "\<And>j. j \<noteq> i \<Longrightarrow> peers r' j = peers r j" and "peers r i = None \<Longrightarrow> GetUpstream r' a = None \<and> a = length (tr_heap r)"
proof -
  have *: "topo_inv r' \<and> peers r' i = Some a \<and> GetBusId r' a = i \<and> a < length (tr_heap r')
    \<and> (\<forall>j b. peers r j = Some b \<longrightarrow> peers r' j = Some b) \<and> length (tr_heap r) \<le> length (tr_heap r')
    \<and> (\<forall>b. b < length (tr_heap r) \<longrightarrow> GetUpstream r' b = GetUpstream r b \<and> GetBusId r' b = GetBusId r b \<and> downs r' b = downs r b)
    \<and> (\<forall>j. j \<noteq> i \<longrightarrow> peers r' j = peers r j) \<and> (peers r i = None \<longrightarrow> GetUpstream r' a = None \<and> a = length (tr_heap r))"
  proof (cases "peers r i")
    case None
    let ?r = "r\<lparr>tr_heap := tr_heap r @ [CreateTopologyPeer i], tr_data := AList.update i (length (tr_heap r)) (tr_data r)\<rparr>"
    from None assms(2) have r': "r' = ?r" "a = length (tr_heap r)" by (auto simp: mutablePeer_def GetPeerInstance_def Let_def)
    have "topo_inv ?r"
      using wf_fresh [OF assms(1) [unfolded topo_inv_def] None, of "GetUpstream ?r" "GetBusId ?r" "downs ?r"] fresh_peer_views [where r = r and i = i]
      by (simp add: topo_inv_def del: fun_upd_apply)
    then show ?thesis using fresh_peer_views [where r = r and i = i] r' None by auto
  next
    case (Some b)
    with assms(2) have "r' = r" "a = b" by (simp_all add: mutablePeer_def GetPeerInstance_def)
    with Some assms(1) wf_viewsD(1,2) [OF assms(1) [unfolded topo_inv_def], of i b] show ?thesis by simp
  qed
  then show "topo_inv r'" and "peers r' i = Some a" and "GetBusId r' a = i" and "a < length (tr_heap r')"
    and "\<And>j b. peers r j = Some b \<Longrightarrow> peers r' j = Some b" and "length (tr_heap r) \<le> length (tr_heap r')"
    and "\<And>b. b < length (tr_heap r) \<Longrightarrow> GetUpstream r' b = GetUpstream r b \<and> GetBusId r' b = GetBusId r b \<and> downs r' b = downs r b"
    and "\<And>j. j \<noteq> i \<Longrightarrow> peers r' j = peers r j" and "peers r i = None \<Longrightarrow> GetUpstream r' a = None \<and> a = length (tr_heap r)"
    by blast+
qed

lemma topology_data_views [topo_views]:
  "GetTopologyData (setProactivelyAdded v a r) = GetTopologyData r" "GetTopologyData (updateUpstream u a r) = GetTopologyData r"
  "GetTopologyData (addDownstream a u r) = GetTopologyData r" "GetTopologyData (removeDownstream i a b r) = GetTopologyData r"
  "a < length (tr_heap r) \<Longrightarrow>
     GetTopologyData (updateData d a r) = (case d of None \<Rightarrow> GetTopologyData r | Some x \<Rightarrow> (GetTopologyData r)(a := x))"
  by (simp_all add: setProactivelyAdded_def updateUpstream_def addDownstream_def removeDownstream_def updateData_def GetTopologyData_def
      fun_eq_iff modify_same topo_views split: option.split)

lemma topo_inv_views:
  assumes "topo_inv r" and "length (tr_heap r') = length (tr_heap r)" and "tr_data r' = tr_data r" and "GetBusId r' = GetBusId r"
    and "GetUpstream r' = GetUpstream r" and "downs r' = downs r"
  shows "topo_inv r'"
  using assms by (simp add: topo_inv_def)

lemma closes_circle_rooted:
  "rooted (GetUpstream r) a \<Longrightarrow>
   closes_circle r t (Some a) = Some (\<exists>c. on_chain (GetUpstream r) a c \<and> GetBusId r c = t)"
proof (induction rule: rooted.induct)
  case (root a)
  have "on_chain (GetUpstream r) a c \<longleftrightarrow> c = a" for c using root by (auto elim: on_chain.cases intro: on_chain.here)
  with root show ?case by (simp add: closes_circle.simps [of r t "Some a"] closes_circle.simps [of r t None])
next
  case (child a b)
  have "on_chain (GetUpstream r) a c \<longleftrightarrow> c = a \<or> on_chain (GetUpstream r) b c" for c
    using child.hyps(1) by (auto elim: on_chain.cases intro: on_chain.intros)
  with child show ?case by (auto simp: closes_circle.simps [of r t "Some a"])
qed

lemma on_chain_below:
  assumes "on_chain U a c" and "a < n" and "\<And>a b. a < n \<Longrightarrow> U a = Some b \<Longrightarrow> b < n"
  shows "c < n"
  using assms(1,2) by (induction rule: on_chain.induct) (auto dest: assms(3))

text \<open>Hanging the registered peer \<open>p\<close> below \<open>q\<close>: the last part of both branches of \<open>UpdatePeer\<close>.\<close>

definition relink :: "BusIdType \<Rightarrow> nat \<Rightarrow> nat option \<Rightarrow> TopologyRegistry \<Rightarrow> TopologyRegistry" where
  "relink t p q r = addDownstream p q (updateUpstream q p
     (case GetUpstream r p of None \<Rightarrow> r | Some old \<Rightarrow> removeDownstream t p old r))"

lemma relink_views:
  assumes "topo_inv r" and "peers r t = Some p"
  shows "tr_data (relink t p q r) = tr_data r" and "length (tr_heap (relink t p q r)) = length (tr_heap r)"
    and "GetUpstream (relink t p q r) = (GetUpstream r)(p := q)" and "GetBusId (relink t p q r) = GetBusId r"
    and "getProactivelyAdded (relink t p q r) = getProactivelyAdded r" and "GetTopologyData (relink t p q r) = GetTopologyData r"
proof -
  have "p < length (tr_heap r)" using wf_viewsD(1) [OF assms(1) [unfolded topo_inv_def] assms(2)] .
  then show "tr_data (relink t p q r) = tr_data r" "length (tr_heap (relink t p q r)) = length (tr_heap r)"
    "GetUpstream (relink t p q r) = (GetUpstream r)(p := q)" "GetBusId (relink t p q r) = GetBusId r"
    "getProactivelyAdded (relink t p q r) = getProactivelyAdded r" "GetTopologyData (relink t p q r) = GetTopologyData r"
    by (simp_all add: relink_def topo_views split: option.split)
qed

lemma relink_inv:
  assumes "topo_inv r" and "peers r t = Some p" and "\<And>u. q = Some u \<Longrightarrow> peers r (GetBusId r u) = Some u \<and> \<not> on_chain (GetUpstream r) u p"
  shows "topo_inv (relink t p q r)"
proof -
  note wf = assms(1) [unfolded topo_inv_def] and D = wf_viewsD [OF assms(1) [unfolded topo_inv_def]]
  have p: "p < length (tr_heap r)" "GetBusId r p = t" using D(1,2) assms(2) by blast+
  define r1 where "r1 = (case GetUpstream r p of None \<Rightarrow> r | Some old \<Rightarrow> removeDownstream t p old r)"
  have r1: "tr_data r1 = tr_data r" "length (tr_heap r1) = length (tr_heap r)" "GetBusId r1 = GetBusId r"
    by (simp_all add: r1_def topo_views split: option.split)
  have old: "downs r u t \<in> {None, Some p}" if "u < length (tr_heap r)" for u
    using D(5) [OF that, of t] assms(2) by (cases "downs r u t") auto
  have d1: "downs r1 a = (if GetUpstream r p = Some a then (downs r a)(t := None) else downs r a)" for a
    using old D(3) [OF p(1)] by (auto simp: r1_def topo_views split: option.split)
  have q: "x < length (tr_heap r)" if "q = Some x" for x using assms(3) [OF that] D(1) by blast
  have d2: "downs (relink t p q r) a = (if q = Some a then (downs r1 a)(t \<mapsto> p) else downs r1 a)" for a
    using q p(2) r1 unfolding relink_def r1_def [symmetric] by (subst addDownstream_views(6)) (simp_all add: topo_views)
  from wf_relink [OF wf assms(2,3) d2 d1] show ?thesis
    by (simp add: topo_inv_def relink_views [OF assms(1,2)] del: fun_upd_apply)
qed

lemma upstream_instance_inv:
  assumes "topo_inv r" and "upstream_instance u r = (r', q)"
  shows "topo_inv r'" and "q = (if u = 0 then None else peers r' u)" and "\<And>x. q = Some x \<Longrightarrow> GetBusId r' x = u \<and> peers r' u = Some x"
    and "\<And>j b. peers r j = Some b \<Longrightarrow> peers r' j = Some b \<and> GetUpstream r' b = GetUpstream r b"
    and "\<And>j. j \<noteq> u \<Longrightarrow> peers r' j = peers r j"
    and "\<And>x. q = Some x \<Longrightarrow> peers r u = None \<Longrightarrow> GetUpstream r' x = None"
proof -
  have D: "a < length (tr_heap r)" if "peers r i = Some a" for i a
    using wf_viewsD(1) [OF assms(1) [unfolded topo_inv_def] that] .
  have "topo_inv r' \<and> q = (if u = 0 then None else peers r' u) \<and> (\<forall>x. q = Some x \<longrightarrow> GetBusId r' x = u \<and> peers r' u = Some x)
    \<and> (\<forall>j b. peers r j = Some b \<longrightarrow> peers r' j = Some b \<and> GetUpstream r' b = GetUpstream r b) \<and> (\<forall>j. j \<noteq> u \<longrightarrow> peers r' j = peers r j)
    \<and> (\<forall>x. q = Some x \<longrightarrow> peers r u = None \<longrightarrow> GetUpstream r' x = None)"
  proof (cases "u = 0")
    case False
    then obtain a where m: "mutablePeer u r = (r', a)" and q: "q = Some a"
      using assms(2) by (auto simp: upstream_instance_def split: prod.splits)
    note M = mutablePeer_inv [OF assms(1) m]
    show ?thesis using False q M(1-3,5,7-9) D by (intro conjI allI impI) auto
  qed (use assms in \<open>simp add: upstream_instance_def\<close>)
  then show "topo_inv r'" and "q = (if u = 0 then None else peers r' u)" and "\<And>x. q = Some x \<Longrightarrow> GetBusId r' x = u \<and> peers r' u = Some x"
    and "\<And>j b. peers r j = Some b \<Longrightarrow> peers r' j = Some b \<and> GetUpstream r' b = GetUpstream r b"
    and "\<And>j. j \<noteq> u \<Longrightarrow> peers r' j = peers r j"
    and "\<And>x. q = Some x \<Longrightarrow> peers r u = None \<Longrightarrow> GetUpstream r' x = None"
    by blast+
qed

text \<open>The peer and its upstream after a successful update, and everybody else as before.\<close>

definition linked :: "BusIdType \<Rightarrow> BusIdType \<Rightarrow> TopologyData option \<Rightarrow> TopologyRegistry \<Rightarrow> TopologyRegistry \<Rightarrow> bool" where
  "linked t u d r r' \<longleftrightarrow>
     (\<exists>p. peers r' t = Some p \<and> GetUpstream r' p = (if u = 0 then None else peers r' u) \<and> getProactivelyAdded r' p
        \<and> (case d of None \<Rightarrow> True | Some x \<Rightarrow> GetTopologyData r' p = x))
   \<and> (u \<noteq> 0 \<longrightarrow> peers r' u \<noteq> None)
   \<and> (\<forall>i a. peers r i = Some a \<longrightarrow> peers r' i = Some a \<and> (i \<noteq> t \<longrightarrow> GetUpstream r' a = GetUpstream r a))
   \<and> (\<forall>i. i \<noteq> t \<longrightarrow> i \<noteq> u \<longrightarrow> peers r' i = peers r i)"

lemma UpdatePeer_new:
  assumes "topo_inv r" and "peers r t = None" and "t \<noteq> 0" and "t \<noteq> u"
  shows "\<exists>r'. UpdatePeer t u d r = Some (r', True) \<and> topo_inv r' \<and> linked t u d r r'"
proof -
  obtain r1 q where i: "upstream_instance u r = (r1, q)" by fastforce
  note I = upstream_instance_inv [OF assms(1) i]
  have t: "peers r1 t = None" using I(5) [of t] assms(2,4) by simp
  obtain r2 p where m: "mutablePeer t r1 = (r2, p)" by fastforce
  note M = mutablePeer_inv [OF I(1) m]
  define r3 where "r3 = updateData d p (setProactivelyAdded True p r2)"
  have v: "tr_data r3 = tr_data r2" "length (tr_heap r3) = length (tr_heap r2)" "GetUpstream r3 = GetUpstream r2"
    "GetBusId r3 = GetBusId r2" "downs r3 = downs r2" "getProactivelyAdded r3 p"
    "case d of None \<Rightarrow> True | Some x \<Rightarrow> GetTopologyData r3 p = x"
    using M(4) by (simp_all add: r3_def topo_views split: option.split)
  have inv3: "topo_inv r3" by (rule topo_inv_views [OF M(1)]) (simp_all add: v)
  have p: "peers r3 t = Some p" "GetUpstream r3 p = None" using M(2) M(9) [OF t] v(1,3) by auto
  have Q: "peers r3 (GetBusId r3 x) = Some x \<and> \<not> on_chain (GetUpstream r3) x p" if q: "q = Some x" for x
  proof -
    have x: "peers r1 u = Some x" "GetBusId r1 x = u" using I(3) [OF q] by simp_all
    note D1 = wf_viewsD [OF I(1) [unfolded topo_inv_def]]
    have xl: "x < length (tr_heap r1)" using D1(1) x(1) by blast
    have "c < length (tr_heap r1)" if "on_chain (GetUpstream r3) x c" for c
      using on_chain_below [OF that xl] M(7) v(3) D1(3) by simp
    then have "\<not> on_chain (GetUpstream r3) x p" using M(9) [OF t] by blast
    with M(5) [OF x(1)] M(7) [OF xl] x(2) v show ?thesis by simp
  qed
  let ?r = "relink t p q r3"
  note V = relink_views [OF inv3 p(1), of q]
  have "UpdatePeer t u d r = Some (?r, True)"
    using assms i m p(2) by (simp add: UpdatePeer_def GetPeerInstance_def relink_def r3_def Let_def topo_views)
  moreover have "linked t u d r ?r"
    unfolding linked_def
  proof (intro conjI allI impI exI [of _ p])
    have pu: "peers ?r u = peers r1 u" using V(1) v(1) M(8) [of u] assms(4) by simp
    have "GetUpstream ?r p = q" using V(3) by simp
    then show "GetUpstream ?r p = (if u = 0 then None else peers ?r u)" unfolding pu using I(2) by (rule trans)
    show "peers ?r u \<noteq> None" if "u \<noteq> 0"
      unfolding pu using that i I(3) by (auto simp: upstream_instance_def split: prod.splits)
    fix j a assume a: "peers r j = Some a"
    with I(4) have r1: "peers r1 j = Some a" "GetUpstream r1 a = GetUpstream r a" by blast+
    have al: "a < length (tr_heap r1)" using wf_viewsD(1) [OF I(1) [unfolded topo_inv_def] r1(1)] .
    show "peers ?r j = Some a" using V(1) v(1) M(5) r1(1) by simp
    show "GetUpstream ?r a = GetUpstream r a" using V(3) v(3) M(7,9) t al r1(2) by auto
  next
    fix j assume "j \<noteq> t" "j \<noteq> u"
    then show "peers ?r j = peers r j" using V(1) v(1) M(8) I(5) by simp
  qed (use V v p in \<open>simp_all split: option.splits\<close>)
  ultimately show ?thesis using relink_inv [OF inv3 p(1) Q] by blast
qed

text \<open>An update of a registered peer is refused when its new upstream, or one of its ancestors, carries the peer's id.\<close>

definition refused :: "BusIdType \<Rightarrow> BusIdType \<Rightarrow> TopologyRegistry \<Rightarrow> bool" where
  "refused t u r \<longleftrightarrow> (\<exists>p q c. peers r t = Some p \<and> u \<noteq> 0 \<and> peers r u = Some q \<and> GetUpstream r p \<noteq> Some q
     \<and> on_chain (GetUpstream r) q c \<and> GetBusId r c = t)"

definition same_links :: "TopologyRegistry \<Rightarrow> TopologyRegistry \<Rightarrow> bool" where
  "same_links r r' \<longleftrightarrow> tr_data r' = tr_data r \<and> GetUpstream r' = GetUpstream r \<and> GetBusId r' = GetBusId r \<and> downs r' = downs r"

lemma upstream_instance_same: "upstream_instance u r = (r', q) \<Longrightarrow> u = 0 \<or> peers r u \<noteq> None \<Longrightarrow> r' = r"
  by (auto simp: upstream_instance_def mutablePeer_def GetPeerInstance_def split: prod.splits option.splits if_splits)

lemma upstream_instance_some: "upstream_instance u r = (r', q) \<Longrightarrow> u \<noteq> 0 \<Longrightarrow> q \<noteq> None"
  by (auto simp: upstream_instance_def split: prod.splits)

lemma relinked:
  assumes "topo_inv r" and "upstream_instance u r = (r1, q)" and "peers r t = Some p"
    and "tr_data r' = tr_data r1" and "GetUpstream r' = (GetUpstream r1)(p := q)" and "getProactivelyAdded r' p"
    and "case d of None \<Rightarrow> True | Some x \<Rightarrow> GetTopologyData r' p = x"
  shows "linked t u d r r'"
proof -
  note I = upstream_instance_inv [OF assms(1,2)]
  have p1: "peers r1 t = Some p" using I(4) [OF assms(3)] by simp
  show ?thesis
    unfolding linked_def
  proof (intro conjI allI impI exI [of _ p])
    have "GetUpstream r' p = q" using assms(5) by simp
    then show "GetUpstream r' p = (if u = 0 then None else peers r' u)" unfolding assms(4) using I(2) by (rule trans)
    show "peers r' u \<noteq> None" if "u \<noteq> 0" using upstream_instance_some [OF assms(2) that] I(3) assms(4) by auto
    fix j a assume a: "peers r j = Some a"
    then show "peers r' j = Some a" using I(4) assms(4) by simp
    assume "j \<noteq> t"
    then have "a \<noteq> p" using a assms(3) wf_viewsD(2) [OF assms(1) [unfolded topo_inv_def]] by metis
    then show "GetUpstream r' a = GetUpstream r a" using assms(5) I(4) [OF a] by simp
  next
    fix j assume "j \<noteq> u"
    then show "peers r' j = peers r j" using I(5) assms(4) by simp
  qed (use p1 assms(4,6,7) in simp_all)
qed

lemma refused_iff:
  assumes "topo_inv r" and "upstream_instance u r = (r1, q)" and "peers r t = Some p" and "t \<noteq> u"
  shows "refused t u r \<longleftrightarrow> (\<exists>x c. q = Some x \<and> GetUpstream r1 p \<noteq> Some x \<and> on_chain (GetUpstream r1) x c \<and> GetBusId r1 c = t)"
proof (cases "u = 0 \<or> peers r u \<noteq> None")
  case True
  then show ?thesis
    using upstream_instance_same [OF assms(2)] upstream_instance_inv(2) [OF assms(1,2)] assms(3) by (auto simp: refused_def)
next
  case False
  then obtain x where x: "q = Some x" using upstream_instance_some [OF assms(2)] by auto
  have "GetUpstream r1 x = None" "GetBusId r1 x = u" using upstream_instance_inv(3,6) [OF assms(1,2) x] False by simp_all
  then have "on_chain (GetUpstream r1) x c \<Longrightarrow> GetBusId r1 c \<noteq> t" for c using assms(4) by (auto elim: on_chain.cases)
  with False x show ?thesis by (auto simp: refused_def)
qed

lemma UpdatePeer_existing:
  assumes "topo_inv r" and "peers r t = Some p" and "t \<noteq> 0" and "t \<noteq> u"
  shows "\<exists>r' ok. UpdatePeer t u d r = Some (r', ok) \<and> topo_inv r' \<and> (ok \<longleftrightarrow> \<not> refused t u r)
    \<and> (if ok then linked t u d r r' else same_links r r')"
proof -
  obtain r1 q where i: "upstream_instance u r = (r1, q)" by fastforce
  note I = upstream_instance_inv [OF assms(1) i] and ref = refused_iff [OF assms(1) i assms(2,4)]
  define r2 where "r2 = updateData d p (setProactivelyAdded True p r1)"
  have p1: "peers r1 t = Some p" using I(4) [OF assms(2)] by simp
  have pl: "p < length (tr_heap r1)" using wf_viewsD(1) [OF I(1) [unfolded topo_inv_def] p1] .
  have v: "tr_data r2 = tr_data r1" "length (tr_heap r2) = length (tr_heap r1)" "GetUpstream r2 = GetUpstream r1"
    "GetBusId r2 = GetBusId r1" "downs r2 = downs r1" "getProactivelyAdded r2 p"
    "case d of None \<Rightarrow> True | Some x \<Rightarrow> GetTopologyData r2 p = x"
    using pl by (simp_all add: r2_def topo_views split: option.split)
  have inv2: "topo_inv r2" by (rule topo_inv_views [OF I(1)]) (simp_all add: v)
  have p2: "peers r2 t = Some p" "GetBusId r2 p = t" using p1 v(1) wf_viewsD(2) [OF inv2 [unfolded topo_inv_def]] by simp_all
  have U: "UpdatePeer t u d r = (if q \<noteq> None \<and> GetUpstream r2 p = q then Some (r2, True)
      else case closes_circle r2 t q of None \<Rightarrow> None | Some True \<Rightarrow> Some (r2, False) | Some False \<Rightarrow> Some (relink t p q r2, True))"
    unfolding UpdatePeer_def GetPeerInstance_def r2_def relink_def Let_def using assms(2-4) i by simp
  show ?thesis
  proof (cases "q \<noteq> None \<and> GetUpstream r2 p = q")
    case True
    then have "linked t u d r r2"
      using v by (intro relinked [OF assms(1) i assms(2)]) (auto simp: fun_eq_iff)
    moreover have "\<not> refused t u r" using ref True v(3) by auto
    ultimately show ?thesis using U True inv2 by auto
  next
    case early: False
    show ?thesis
    proof (cases "refused t u r")
      case True
      with ref obtain x c where x: "q = Some x" "on_chain (GetUpstream r1) x c" "GetBusId r1 c = t" by blast
      have "rooted (GetUpstream r2) x"
        using wf_viewsD(1,4) [OF inv2 [unfolded topo_inv_def]] I(3) [OF x(1)] v(1) by metis
      then have "closes_circle r2 t q = Some True" using closes_circle_rooted [of r2 x t] x v(3,4) by auto
      moreover have "r1 = r" using True upstream_instance_same [OF i] by (auto simp: refused_def)
      ultimately show ?thesis using U early inv2 True v by (auto simp: same_links_def)
    next
      case False
      have Q: "peers r2 (GetBusId r2 x) = Some x \<and> rooted (GetUpstream r2) x
          \<and> (\<forall>c. on_chain (GetUpstream r2) x c \<longrightarrow> GetBusId r2 c \<noteq> t)" if q: "q = Some x" for x
        using I(3) [OF q] wf_viewsD(1,4) [OF inv2 [unfolded topo_inv_def]] False ref early q v(1,3,4) by auto
      have "closes_circle r2 t q = Some False"
        by (cases q) (use Q closes_circle_rooted [of r2 _ t] in \<open>auto simp: closes_circle.simps [of r2 t None]\<close>)
      moreover have "topo_inv (relink t p q r2)" using Q p2 by (intro relink_inv [OF inv2 p2(1)]) auto
      moreover have "linked t u d r (relink t p q r2)"
        using relink_views [OF inv2 p2(1), of q] v by (intro relinked [OF assms(1) i assms(2)]) (simp_all split: option.splits)
      ultimately show ?thesis using U early False by auto
    qed
  qed
qed

lemma UpdatePeer_total:
  assumes "topo_inv r"
  shows "\<exists>r' ok. UpdatePeer t u d r = Some (r', ok) \<and> topo_inv r' \<and> (ok \<longleftrightarrow> t \<noteq> 0 \<and> t \<noteq> u \<and> \<not> refused t u r)
    \<and> (if ok then linked t u d r r' else same_links r r')"
proof (cases "t = 0 \<or> t = u")
  case True
  with assms show ?thesis by (auto simp: UpdatePeer_def same_links_def)
next
  case False
  then show ?thesis
  proof (cases "peers r t")
    case None
    moreover have "\<not> refused t u r" using None by (simp add: refused_def)
    ultimately show ?thesis using UpdatePeer_new [OF assms None, of u d] False by auto
  next
    case (Some p)
    from UpdatePeer_existing [OF assms Some, of u d] False show ?thesis by auto
  qed
qed

text \<open>\<open>UpdatePeer\<close> always returns; it is refused for id 0, for a self loop, and when a registered peer would become its own
  ancestor, and then no link changes; otherwise the peer is registered below the given upstream, with
  its data, and no other peer's link changes. The registry stays well-formed.\<close>

theorem UpdatePeer_links:
  assumes "topo_inv r"
  shows "\<exists>r' ok. UpdatePeer t u d r = Some (r', ok) \<and> topo_inv r' \<and> (ok \<longleftrightarrow> t \<noteq> 0 \<and> t \<noteq> u \<and> \<not> refused t u r)
    \<and> (if ok then linked t u d r r' else same_links r r')"
  using assms by (rule UpdatePeer_total)

subsection \<open>Removal\<close>

text \<open>One activation of \<open>RemovePeer\<close>: the registry it leaves behind and the id it goes on with, if it does.\<close>

definition remove_once :: "BusIdType \<Rightarrow> nat \<Rightarrow> TopologyRegistry \<Rightarrow> TopologyRegistry \<times> BusIdType option" where
  "remove_once t p r =
     (let r = setProactivelyAdded False p r;
          r = (if tp_downstream (tr_heap r ! p) = [] then r\<lparr>tr_data := AList.delete t (tr_data r)\<rparr> else r)
      in case GetUpstream r p of
           None \<Rightarrow> (r, None)
         | Some u \<Rightarrow>
             let r = removeDownstream t p u r
             in (r, if \<not> getProactivelyAdded r u \<and> tp_downstream (tr_heap r ! u) = [] then Some (GetBusId r u) else None))"

lemma RemovePeer_unfold:
  "RemovePeer t r = (case peers r t of
      None \<Rightarrow> Some r
    | Some p \<Rightarrow> (case remove_once t p r of (r', None) \<Rightarrow> Some r' | (r', Some t') \<Rightarrow> RemovePeer t' r'))"
  unfolding RemovePeer.simps [of t r] remove_once_def Let_def by (simp split: option.split)

lemma delete_data_views [simp]:
  "GetUpstream (r\<lparr>tr_data := x\<rparr>) = GetUpstream r" "GetBusId (r\<lparr>tr_data := x\<rparr>) = GetBusId r" "downs (r\<lparr>tr_data := x\<rparr>) = downs r"
  "getProactivelyAdded (r\<lparr>tr_data := x\<rparr>) = getProactivelyAdded r"
  by (simp_all add: GetUpstream_def GetBusId_def downs_def getProactivelyAdded_def fun_eq_iff)

lemma remove_once_views:
  assumes "topo_inv r" and "peers r t = Some p" and "remove_once t p r = (r', next)"
  shows "peers r' = (if downs r p = Map.empty then (peers r)(t := None) else peers r)"
    and "length (tr_data r') = (if downs r p = Map.empty then length (AList.delete t (tr_data r)) else length (tr_data r))"
    and "length (tr_heap r') = length (tr_heap r)" and "GetBusId r' = GetBusId r" and "GetUpstream r' = GetUpstream r"
    and "\<And>a. downs r' a = (if GetUpstream r p = Some a then (downs r a)(t := None) else downs r a)"
    and "\<And>a. getProactivelyAdded r' a = (if a = p then False else getProactivelyAdded r a)"
    and "next = (case GetUpstream r p of None \<Rightarrow> None
      | Some u \<Rightarrow> if \<not> getProactivelyAdded r' u \<and> downs r' u = Map.empty then Some (GetBusId r u) else None)"
proof -
  note D = wf_viewsD [OF assms(1) [unfolded topo_inv_def]]
  have p: "p < length (tr_heap r)" using D(1) assms(2) .
  have old: "downs r u t \<in> {None, Some p}" if "u < length (tr_heap r)" for u
    using D(5) [OF that, of t] assms(2) by (cases "downs r u t") auto
  have up: "u < length (tr_heap r)" if "GetUpstream r p = Some u" for u using D(3) [OF p that] .
  define r1 where "r1 = setProactivelyAdded False p r"
  define r2 where "r2 = (if downs r p = Map.empty then r1\<lparr>tr_data := AList.delete t (tr_data r1)\<rparr> else r1)"
  have v: "peers r2 = (if downs r p = Map.empty then (peers r)(t := None) else peers r)"
    "length (tr_data r2) = (if downs r p = Map.empty then length (AList.delete t (tr_data r)) else length (tr_data r))"
    "length (tr_heap r2) = length (tr_heap r)" "GetBusId r2 = GetBusId r" "GetUpstream r2 = GetUpstream r" "downs r2 = downs r"
    "getProactivelyAdded r2 a = (if a = p then False else getProactivelyAdded r a)" for a
    using p by (simp_all add: r2_def r1_def topo_views delete_conv')
  have r2: "r2 = (if downs r1 p = Map.empty then r1\<lparr>tr_data := AList.delete t (tr_data r1)\<rparr> else r1)"
    by (simp add: r2_def r1_def topo_views)
  have e: "(r', next) = (case GetUpstream r2 p of None \<Rightarrow> (r2, None)
      | Some u \<Rightarrow> (removeDownstream t p u r2, if \<not> getProactivelyAdded (removeDownstream t p u r2) u \<and> downs (removeDownstream t p u r2) u = Map.empty
          then Some (GetBusId (removeDownstream t p u r2) u) else None))"
    using assms(3) unfolding remove_once_def Let_def downs_empty r1_def [symmetric] r2 [symmetric] by (rule sym)
  show "peers r' = (if downs r p = Map.empty then (peers r)(t := None) else peers r)"
    "length (tr_data r') = (if downs r p = Map.empty then length (AList.delete t (tr_data r)) else length (tr_data r))"
    "length (tr_heap r') = length (tr_heap r)" "GetBusId r' = GetBusId r" "GetUpstream r' = GetUpstream r"
    "\<And>a. getProactivelyAdded r' a = (if a = p then False else getProactivelyAdded r a)"
    using e v by (auto simp: topo_views split: option.splits)
  show "\<And>a. downs r' a = (if GetUpstream r p = Some a then (downs r a)(t := None) else downs r a)"
    using e v(3-6) up old by (cases "GetUpstream r p") (auto simp: topo_views)
  show "next = (case GetUpstream r p of None \<Rightarrow> None
      | Some u \<Rightarrow> if \<not> getProactivelyAdded r' u \<and> downs r' u = Map.empty then Some (GetBusId r u) else None)"
    using e v(4,5) by (auto simp: topo_views split: option.splits)
qed

lemma remove_once_inv:
  assumes "topo_inv r" and "peers r t = Some p" and "remove_once t p r = (r', next)"
  shows "topo_inv r'"
proof -
  note V = remove_once_views [OF assms]
  have "wf_views (length (tr_heap r)) (peers r') (GetBusId r) (GetUpstream r) (downs r')"
    by (rule wf_remove [OF assms(1) [unfolded topo_inv_def] assms(2) _ V(6)]) (use V(1) in auto)
  with V(3-5) show ?thesis by (simp add: topo_inv_def)
qed

text \<open>The activations end: each one unregisters a peer, or goes on to a leaf, or to a younger object.\<close>

definition removal_rank :: "BusIdType \<Rightarrow> TopologyRegistry \<Rightarrow> nat \<times> nat" where
  "removal_rank t r = (length (tr_data r),
     case peers r t of None \<Rightarrow> 0 | Some p \<Rightarrow> if downs r p = Map.empty then 0 else Suc (length (tr_heap r) - p))"

lemma removal_rank_decreases:
  assumes "topo_inv r" and "peers r t = Some p" and "remove_once t p r = (r', Some t')"
  shows "(removal_rank t' r', removal_rank t r) \<in> less_than <*lex*> less_than"
proof -
  note V = remove_once_views [OF assms] and D = wf_viewsD [OF assms(1) [unfolded topo_inv_def]]
  obtain u where u: "GetUpstream r p = Some u" "t' = GetBusId r u" "downs r' u = Map.empty"
    using V(8) by (auto split: option.splits if_splits)
  show ?thesis
  proof (cases "downs r p = Map.empty")
    case True
    have "(t, p) \<in> set (tr_data r)" using assms(2) by (rule map_of_SomeD)
    then have "length (AList.delete t (tr_data r)) < length (tr_data r)"
      unfolding AList.delete_eq by (intro length_filter_less) auto
    with True V(2) show ?thesis by (simp add: removal_rank_def)
  next
    case False
    have "peers r t' = None \<or> (\<exists>c. peers r t' = Some c \<and> (downs r' c = Map.empty \<or> p < c \<and> c < length (tr_heap r)))"
      using D(8) [OF assms(2) u(1)] D(1) u by (cases "peers r t'") auto
    with False V(1-3) assms(2) show ?thesis by (auto simp: removal_rank_def)
  qed
qed

lemma RemovePeer_returns:
  assumes "topo_inv r"
  shows "\<exists>r'. RemovePeer t r = Some r' \<and> topo_inv r' \<and> peers r' \<subseteq>\<^sub>m peers r \<and> GetUpstream r' = GetUpstream r
    \<and> (\<forall>p. peers r t = Some p \<longrightarrow> downs r p = Map.empty \<longrightarrow> peers r' t = None)"
  using assms
proof (induction "removal_rank t r" arbitrary: t r rule: wf_induct_rule [OF wf_lex_prod [OF wf_less_than wf_less_than]])
  case 1
  show ?case
  proof (cases "peers r t")
    case None
    then show ?thesis using "1.prems" by (auto simp: RemovePeer_unfold)
  next
    case (Some p)
    obtain r1 nxt where o: "remove_once t p r = (r1, nxt)" by fastforce
    note V = remove_once_views [OF "1.prems" Some o] and inv = remove_once_inv [OF "1.prems" Some o]
    have sub: "peers r1 \<subseteq>\<^sub>m peers r" and gone: "downs r p = Map.empty \<Longrightarrow> peers r1 t = None"
      using V(1) by (auto simp: map_le_def)
    show ?thesis
    proof (cases nxt)
      case None
      then show ?thesis using Some o inv sub gone V(5) by (simp add: RemovePeer_unfold [of t r])
    next
      case (Some t')
      with "1.hyps" [OF _ inv, of t'] removal_rank_decreases [OF "1.prems" \<open>peers r t = Some p\<close>] o obtain r'
        where r': "RemovePeer t' r1 = Some r'" "topo_inv r'" "peers r' \<subseteq>\<^sub>m peers r1" "GetUpstream r' = GetUpstream r1" by blast
      have "peers r' \<subseteq>\<^sub>m peers r" using r'(3) sub by (rule map_le_trans)
      moreover have "downs r p = Map.empty \<Longrightarrow> peers r' t = None"
        using gone r'(3) by (auto simp: map_le_def dom_def)
      ultimately show ?thesis using \<open>peers r t = Some p\<close> Some o r' V(5) by (simp add: RemovePeer_unfold [of t r])
    qed
  qed
qed

text \<open>C37: \<open>RemovePeer\<close> always returns, although its recursion looks up the upstream's id and may find another object than the
  upstream; it only unregisters peers, a leaf among them for certain, changes no upstream pointer, and
  leaves a well-formed registry.\<close>

theorem RemovePeer_terminates:
  assumes "topo_inv r"
  shows "\<exists>r'. RemovePeer t r = Some r' \<and> topo_inv r' \<and> peers r' \<subseteq>\<^sub>m peers r \<and> GetUpstream r' = GetUpstream r
    \<and> (\<forall>p. peers r t = Some p \<and> (\<forall>i. \<not> ContainsDownstream r p i) \<longrightarrow> peers r' t = None)"
proof -
  have "downs r p = Map.empty" if "\<forall>i. \<not> ContainsDownstream r p i" for p
    using that by (auto simp: ContainsDownstream_def downs_def fun_eq_iff)
  with RemovePeer_returns [OF assms, of t] show ?thesis by blast
qed

text \<open>Every registered peer, apart from those at the addresses \<open>X\<close>, is listed by its upstream.\<close>

definition attached_except :: "nat set \<Rightarrow> TopologyRegistry \<Rightarrow> bool" where
  "attached_except X r \<longleftrightarrow> (\<forall>i a u. peers r i = Some a \<longrightarrow> a \<notin> X \<longrightarrow> GetUpstream r a = Some u \<longrightarrow> downs r u i = Some a)"

lemma attached_exceptD:
  "attached_except X r \<Longrightarrow> peers r i = Some a \<Longrightarrow> a \<notin> X \<Longrightarrow> GetUpstream r a = Some u \<Longrightarrow> downs r u i = Some a"
  unfolding attached_except_def by blast

lemma on_chain_snoc: "on_chain U a b \<Longrightarrow> U b = Some c \<Longrightarrow> on_chain U a c"
  by (induction rule: on_chain.induct) (auto intro: on_chain.intros)

lemma rooted_acyclic: "rooted U a \<Longrightarrow> U a = Some b \<Longrightarrow> \<not> on_chain U b a"
proof (induction arbitrary: b rule: rooted.induct)
  case (child a c)
  show ?case
  proof
    assume "on_chain U b a"
    with child.prems child.hyps(1) have c: "on_chain U c a" by simp
    from this show False
    proof cases
      case here
      with child show ?thesis by (auto intro: on_chain.here)
    next
      case (up d)
      with child on_chain_snoc [of U d a c] show ?thesis by auto
    qed
  qed
qed simp

lemma remove_once_attached:
  assumes "topo_inv r" and "peers r t = Some p" and "remove_once t p r = (r', next)" and "attached_except X r"
  shows "attached_except (insert p X) r'"
  unfolding attached_except_def
proof (intro allI impI)
  fix i a u assume a: "peers r' i = Some a" "a \<notin> insert p X" "GetUpstream r' a = Some u"
  note V = remove_once_views [OF assms(1-3)]
  have "peers r i = Some a" using a(1) V(1) by (auto split: if_splits)
  moreover from this have "i \<noteq> t" using a(2) assms(2) by auto
  ultimately show "downs r' u i = Some a"
    using attached_exceptD [OF assms(4)] a(2,3) V(5,6) by auto
qed

lemma removal_goes_on:
  assumes "topo_inv r" and "peers r t = Some p" and "remove_once t p r = (r', Some t')" and "attached_except X r" and "p \<notin> X"
  shows "\<exists>u. GetUpstream r p = Some u \<and> peers r' t' = Some u \<and> downs r' u = Map.empty \<and> \<not> getProactivelyAdded r' u"
proof -
  note V = remove_once_views [OF assms(1-3)] and D = wf_viewsD [OF assms(1) [unfolded topo_inv_def]]
  obtain u where u: "GetUpstream r p = Some u" "t' = GetBusId r u" "downs r' u = Map.empty" "\<not> getProactivelyAdded r' u"
    using V(8) by (auto split: option.splits if_splits)
  have pl: "p < length (tr_heap r)" using D(1) assms(2) .
  have d: "downs r u t = Some p" using attached_exceptD [OF assms(4,2,5) u(1)] .
  have reg: "peers r t' = Some u" using D(7) [OF D(3) [OF pl u(1)] d] u(2) by simp
  have "u \<noteq> p" using rooted_acyclic [OF D(4) [OF pl] u(1)] by (auto intro: on_chain.here)
  moreover from this have "t' \<noteq> t" using reg assms(2) by auto
  ultimately show ?thesis using u(1,3,4) reg V(1) by auto
qed

lemma RemovePeer_spares:
  assumes "topo_inv r" and "attached_except X r" and "RemovePeer t r = Some r'"
    and "\<And>p. peers r t = Some p \<Longrightarrow> downs r p = Map.empty \<and> \<not> getProactivelyAdded r p \<and> (\<forall>x \<in> X. \<not> on_chain (GetUpstream r) p x)"
    and "peers r i = Some a" and "getProactivelyAdded r a"
  shows "peers r' i = Some a \<and> getProactivelyAdded r' a"
  using assms
proof (induction "length (tr_data r)" arbitrary: t r X rule: less_induct)
  case less
  show ?case
  proof (cases "peers r t")
    case None
    with less.prems show ?thesis by (simp add: RemovePeer_unfold [of t r])
  next
    case (Some p)
    note P = less.prems(4) [OF Some]
    have pX: "p \<notin> X" using P by (auto intro: on_chain.here)
    obtain r1 nxt where o: "remove_once t p r = (r1, nxt)" by fastforce
    note V = remove_once_views [OF less.prems(1) Some o] and inv = remove_once_inv [OF less.prems(1) Some o]
    have ne: "a \<noteq> p" "i \<noteq> t" using P less.prems(5,6) Some by auto
    have keep: "peers r1 i = Some a" "getProactivelyAdded r1 a" using V(1,7) ne less.prems(5,6) by auto
    have att: "attached_except X r1"
      unfolding attached_except_def
    proof (intro allI impI)
      fix j b u assume b: "peers r1 j = Some b" "b \<notin> X" "GetUpstream r1 b = Some u"
      then have "j \<noteq> t" "peers r j = Some b" using V(1) P by (auto split: if_splits)
      then show "downs r1 u j = Some b"
        using attached_exceptD [OF less.prems(2), of j b u] b(2,3) V(5,6) by auto
    qed
    show ?thesis
    proof (cases nxt)
      case None
      with less.prems(3) Some o keep show ?thesis by (simp add: RemovePeer_unfold [of t r])
    next
      case (Some t')
      have "(t, p) \<in> set (tr_data r)" using \<open>peers r t = Some p\<close> by (rule map_of_SomeD)
      then have short: "length (tr_data r1) < length (tr_data r)"
        using V(2) P unfolding AList.delete_eq by (auto intro!: length_filter_less)
      obtain u where u: "GetUpstream r p = Some u" "peers r1 t' = Some u" "downs r1 u = Map.empty" "\<not> getProactivelyAdded r1 u"
        using removal_goes_on [OF less.prems(1) \<open>peers r t = Some p\<close> _ less.prems(2) pX] o Some by blast
      have rm: "RemovePeer t' r1 = Some r'"
        using less.prems(3) \<open>peers r t = Some p\<close> o Some by (simp add: RemovePeer_unfold [of t r])
      show ?thesis
        by (rule less.hyps [OF short inv att rm _ keep]) (use u P V(5) in \<open>auto dest: on_chain.up [where U = "GetUpstream r", OF u(1)]\<close>)
    qed
  qed
qed

text \<open>Removing a peer of a registry in which every peer is listed by its upstream never unregisters another peer that was
  added on purpose: the cascade only takes ancestors that were created as somebody's upstream.\<close>

theorem RemovePeer_keeps_proactive:
  assumes "topo_inv r" and "attached_except {} r" and "RemovePeer t r = Some r'"
    and "peers r i = Some a" and "i \<noteq> t" and "getProactivelyAdded r a"
  shows "peers r' i = Some a \<and> getProactivelyAdded r' a"
proof (cases "peers r t")
  case None
  with assms show ?thesis by (simp add: RemovePeer_unfold [of t r])
next
  case (Some p)
  note D = wf_viewsD [OF assms(1) [unfolded topo_inv_def]]
  obtain r1 nxt where o: "remove_once t p r = (r1, nxt)" by fastforce
  note V = remove_once_views [OF assms(1) Some o] and inv = remove_once_inv [OF assms(1) Some o]
  have "a \<noteq> p" using D(2) [OF Some] D(2) [OF assms(4)] assms(5) by auto
  then have keep: "peers r1 i = Some a" "getProactivelyAdded r1 a" using V(1,7) assms(4-6) by auto
  show ?thesis
  proof (cases nxt)
    case None
    with assms(3) Some o keep show ?thesis by (simp add: RemovePeer_unfold [of t r])
  next
    case nxt: (Some t')
    obtain u where u: "GetUpstream r p = Some u" "peers r1 t' = Some u" "downs r1 u = Map.empty" "\<not> getProactivelyAdded r1 u"
      using removal_goes_on [OF assms(1) Some _ assms(2)] o nxt by blast
    have "\<not> on_chain (GetUpstream r) u p" using rooted_acyclic [OF D(4) [OF D(1) [OF Some]] u(1)] .
    moreover have rm: "RemovePeer t' r1 = Some r'" using assms(3) Some o nxt by (simp add: RemovePeer_unfold [of t r])
    ultimately show ?thesis
      by (intro RemovePeer_spares [OF inv remove_once_attached [OF assms(1) Some o assms(2)] rm _ keep]) (use u V(5) in auto)
  qed
qed

subsection \<open>Relations\<close>

text \<open>\<open>ancestor U a c\<close>: \<open>c\<close> is a proper ancestor of \<open>a\<close>.\<close>

definition ancestor :: "(nat \<Rightarrow> nat option) \<Rightarrow> nat \<Rightarrow> nat \<Rightarrow> bool" where
  "ancestor U a c \<longleftrightarrow> (\<exists>b. U a = Some b \<and> on_chain U b c)"

lemma on_chain_ancestor: "on_chain U a c \<longleftrightarrow> a = c \<or> ancestor U a c"
  unfolding ancestor_def by (auto elim: on_chain.cases intro: on_chain.intros)

lemma climb_from_rooted:
  "rooted (GetUpstream r) a \<Longrightarrow> climb_from r to (Some a) = Some (ancestor (GetUpstream r) a to)"
proof (induction rule: rooted.induct)
  case (root a)
  then show ?case by (simp add: climb_from.simps [of r to "Some a"] climb_from.simps [of r to None] ancestor_def)
next
  case (child a b)
  then have "ancestor (GetUpstream r) a to \<longleftrightarrow> b = to \<or> ancestor (GetUpstream r) b to"
    using on_chain_ancestor by (auto simp: ancestor_def [of _ a])
  with child show ?case by (auto simp: climb_from.simps [of r to "Some a"])
qed

lemma climb_to_rooted:
  "rooted (GetUpstream r) a \<Longrightarrow>
   \<exists>hop. climb_to r from (Some a) = Some hop \<and>
     (case hop of None \<Rightarrow> \<not> ancestor (GetUpstream r) a from
      | Some c \<Rightarrow> GetUpstream r c = Some from \<and> on_chain (GetUpstream r) a c)"
proof (induction rule: rooted.induct)
  case (root a)
  then show ?case by (simp add: climb_to.simps [of r "from" "Some a"] climb_to.simps [of r "from" None] ancestor_def)
next
  case (child a b)
  then obtain hop where h: "climb_to r from (Some b) = Some hop"
    "case hop of None \<Rightarrow> \<not> ancestor (GetUpstream r) b from | Some c \<Rightarrow> GetUpstream r c = Some from \<and> on_chain (GetUpstream r) b c" by blast
  show ?case
  proof (cases "b = from")
    case True
    with child show ?thesis by (auto simp: climb_to.simps [of r "from" "Some a"] intro: on_chain.here)
  next
    case False
    with child h show ?thesis
      using on_chain_ancestor by (auto simp: climb_to.simps [of r "from" "Some a"] ancestor_def [of _ a] intro: on_chain.up split: option.splits)
  qed
qed

text \<open>The relation of two peers according to the upstream links.\<close>

definition relation_of :: "(nat \<Rightarrow> nat option) \<Rightarrow> nat \<Rightarrow> nat \<Rightarrow> TopologyRelationType" where
  "relation_of U a b =
     (if a = b then Relation_Self
      else if U a = Some b then ImmediateUpstream
      else if U b = Some a then ImmediateDownstream
      else if U a \<noteq> None \<and> U a = U b then SameUpstreamPeer
      else if ancestor U a b then TransitiveUpstream
      else if ancestor U b a then TransitiveDownstream
      else OtherUpstreamPeer)"

text \<open>The next hop towards \<open>b\<close>: for a descendant, the immediate downstream on the way to it.\<close>

definition next_hop :: "(nat \<Rightarrow> nat option) \<Rightarrow> nat \<Rightarrow> nat \<Rightarrow> nat \<Rightarrow> bool" where
  "next_hop U a b h \<longleftrightarrow>
     (case relation_of U a b of
        SameUpstreamPeer \<Rightarrow> U a = Some h
      | TransitiveUpstream \<Rightarrow> U a = Some h
      | TransitiveDownstream \<Rightarrow> U h = Some a \<and> ancestor U b h
      | OtherUpstreamPeer \<Rightarrow> (case U a of Some u \<Rightarrow> h = u | None \<Rightarrow> h = b)
      | _ \<Rightarrow> h = b)"

lemma GetRelation_returns:
  assumes "topo_inv r" and "peers r from = Some a" and "peers r to = Some b" and "from \<noteq> 0" and "to \<noteq> 0"
  shows "\<exists>h. GetRelation r from to = Some (relation_of (GetUpstream r) a b, Some h) \<and> next_hop (GetUpstream r) a b h"
proof -
  note ab = assms(2,3)
  note D = wf_viewsD [OF assms(1) [unfolded topo_inv_def]]
  have eq: "from = to \<longleftrightarrow> a = b" using D(2) ab by auto
  let ?U = "GetUpstream r"
  have cf: "climb_from r b (?U a) = Some (ancestor ?U a b)" if "?U a \<noteq> Some b"
  proof (cases "?U a")
    case (Some c)
    then have "rooted ?U c" using D(4) [OF D(3) [OF D(1) [OF ab(1)]]] by simp
    with Some that on_chain_ancestor [of ?U c b] show ?thesis by (simp add: climb_from_rooted ancestor_def [of _ a])
  qed (simp add: climb_from.simps [of r b None] ancestor_def)
  have ct: "\<exists>hop. climb_to r a (?U b) = Some hop \<and> (case hop of None \<Rightarrow> \<not> ancestor ?U b a | Some c \<Rightarrow> ?U c = Some a \<and> ancestor ?U b c \<and> ancestor ?U b a)"
    if "?U b \<noteq> Some a"
  proof (cases "?U b")
    case (Some c)
    then have "rooted ?U c" using D(4) [OF D(3) [OF D(1) [OF ab(2)]]] by simp
    from climb_to_rooted [OF this, of a] obtain hop where hop: "climb_to r a (Some c) = Some hop"
      "case hop of None \<Rightarrow> \<not> ancestor ?U c a | Some d \<Rightarrow> ?U d = Some a \<and> on_chain ?U c d" by blast
    show ?thesis
    proof (cases hop)
      case None
      with hop Some that on_chain_ancestor [of ?U c a] show ?thesis by (simp add: ancestor_def [of _ b])
    next
      case (Some d)
      with hop have "?U d = Some a" "on_chain ?U c d" by simp_all
      with on_chain_snoc [of ?U c d a] Some hop(1) \<open>?U b = Some c\<close> show ?thesis by (simp add: ancestor_def [of _ b])
    qed
  qed (simp add: climb_to.simps [of r a None] ancestor_def)
  have R: "GetRelation r from to =
      (if a = b then Some (Relation_Self, Some b)
       else if ?U a = Some b then Some (ImmediateUpstream, Some b)
       else if ?U b = Some a then Some (ImmediateDownstream, Some b)
       else if ?U a \<noteq> None \<and> ?U a = ?U b then Some (SameUpstreamPeer, ?U a)
       else case climb_from r b (?U a) of
          None \<Rightarrow> None
        | Some True \<Rightarrow> Some (TransitiveUpstream, ?U a)
        | Some False \<Rightarrow>
            (case climb_to r a (?U b) of
               None \<Rightarrow> None
             | Some (Some hop) \<Rightarrow> Some (TransitiveDownstream, Some hop)
             | Some None \<Rightarrow> if ?U a \<noteq> None then Some (OtherUpstreamPeer, ?U a) else Some (OtherUpstreamPeer, Some b)))"
    unfolding GetRelation_def GetPeerInstance_def Let_def using assms(4,5) ab eq by simp
  show ?thesis
  proof (cases "a = b \<or> ?U a = Some b \<or> ?U b = Some a \<or> ?U a \<noteq> None \<and> ?U a = ?U b")
    case True
    then show ?thesis unfolding R by (auto simp: relation_of_def next_hop_def)
  next
    case far: False
    obtain hop where hop: "climb_to r a (?U b) = Some hop"
      "case hop of None \<Rightarrow> \<not> ancestor ?U b a | Some c \<Rightarrow> ?U c = Some a \<and> ancestor ?U b c \<and> ancestor ?U b a" using ct far by blast
    have rel: "relation_of ?U a b = (if ancestor ?U a b then TransitiveUpstream else if ancestor ?U b a then TransitiveDownstream else OtherUpstreamPeer)"
      using far unfolding relation_of_def by auto
    show ?thesis
    proof (cases "ancestor ?U a b")
      case True
      then obtain u where "?U a = Some u" by (auto simp: ancestor_def)
      with True far cf rel show ?thesis unfolding R by (auto simp: next_hop_def)
    next
      case False
      with far cf hop rel show ?thesis unfolding R by (cases hop; cases "?U a") (auto simp: next_hop_def)
    qed
  qed
qed

text \<open>C30: \<open>GetRelation\<close> always returns; for registered peers it is the relation their upstream links say, and the peer it returns
  is the next hop: the direct upstream, the direct downstream on the way, or the target itself. It is
  invalid exactly when an id is 0 or not registered.\<close>

theorem GetRelation_correct:
  assumes "topo_inv r"
  shows "case (if from = 0 \<or> to = 0 then None else peers r from, if from = 0 \<or> to = 0 then None else peers r to) of
      (Some a, Some b) \<Rightarrow> \<exists>h. GetRelation r from to = Some (relation_of (GetUpstream r) a b, Some h) \<and> next_hop (GetUpstream r) a b h
    | _ \<Rightarrow> GetRelation r from to = Some (Relation_Invalid, None)"
  using GetRelation_returns [OF assms] by (auto simp: GetRelation_def GetPeerInstance_def split: option.splits)

lemma relation_of_sym:
  assumes "rooted U a" and "rooted U b"
  shows "relation_of U a b = ImmediateUpstream \<longleftrightarrow> relation_of U b a = ImmediateDownstream"
    and "relation_of U a b = TransitiveUpstream \<longleftrightarrow> relation_of U b a = TransitiveDownstream"
proof -
  have tr: "on_chain U x z" if "on_chain U x y" "on_chain U y z" for x y z
    using that by (induction rule: on_chain.induct) (auto intro: on_chain.up)
  have "\<not> (ancestor U a b \<and> ancestor U b a)"
    using rooted_acyclic [OF assms(1)] tr on_chain_ancestor unfolding ancestor_def by metis
  moreover have "\<not> (U a = Some b \<and> U b = Some a)"
    using rooted_acyclic [OF assms(1)] by (auto intro: on_chain.intros)
  ultimately show "relation_of U a b = ImmediateUpstream \<longleftrightarrow> relation_of U b a = ImmediateDownstream"
    "relation_of U a b = TransitiveUpstream \<longleftrightarrow> relation_of U b a = TransitiveDownstream"
    by (auto simp: relation_of_def)
qed

subsection \<open>Registries built by the operations\<close>

inductive topo_reachable :: "TopologyRegistry \<Rightarrow> bool" where
  create: "topo_reachable CreateTopologyRegistry"
| update: "topo_reachable r \<Longrightarrow> UpdatePeer t u d r = Some (r', ok) \<Longrightarrow> topo_reachable r'"
| remove: "topo_reachable r \<Longrightarrow> RemovePeer t r = Some r' \<Longrightarrow> topo_reachable r'"

lemma topo_inv_create: "topo_inv CreateTopologyRegistry"
  by (simp add: topo_inv_def wf_views_def CreateTopologyRegistry_def)

lemma UpdatePeer_inv: "topo_inv r \<Longrightarrow> UpdatePeer t u d r = Some (r', ok) \<Longrightarrow> topo_inv r'"
  using UpdatePeer_total [of r t u d] by auto

lemma topo_reachable_inv: "topo_reachable r \<Longrightarrow> topo_inv r"
proof (induction rule: topo_reachable.induct)
  case create
  show ?case by (rule topo_inv_create)
next
  case (update r t u d r' ok)
  then show ?case by (blast intro: UpdatePeer_inv)
next
  case (remove r t r')
  with RemovePeer_returns [of r t] show ?case by auto
qed

text \<open>C31: in every registry the operations can build no peer is its own ancestor, every registered peer is found under its own id, and
  the relation of two peers is symmetric: upstream one way is downstream the other way.\<close>

theorem topology_forest:
  assumes "topo_reachable r" and "peers r i = Some a" and "peers r j = Some b" and "i \<noteq> 0" and "j \<noteq> 0"
  shows "GetBusId r a = i \<and> \<not> ancestor (GetUpstream r) a a
    \<and> (\<forall>h. GetRelation r i j = Some (TransitiveUpstream, h) \<longrightarrow> (\<exists>h'. GetRelation r j i = Some (TransitiveDownstream, h')))
    \<and> (\<forall>h. GetRelation r i j = Some (ImmediateUpstream, h) \<longrightarrow> GetRelation r j i = Some (ImmediateDownstream, Some a))"
proof -
  have inv: "topo_inv r" by (rule topo_reachable_inv [OF assms(1)])
  note D = wf_viewsD [OF inv [unfolded topo_inv_def]]
  have root: "rooted (GetUpstream r) a" "rooted (GetUpstream r) b" using D(1,4) assms(2,3) by blast+
  have "\<not> ancestor (GetUpstream r) a a" using rooted_acyclic [OF root(1)] by (auto simp: ancestor_def)
  moreover obtain h where h: "GetRelation r i j = Some (relation_of (GetUpstream r) a b, Some h)"
    using GetRelation_returns [OF inv assms(2-5)] by blast
  moreover obtain h' where h': "GetRelation r j i = Some (relation_of (GetUpstream r) b a, Some h')" "next_hop (GetUpstream r) b a h'"
    using GetRelation_returns [OF inv assms(3,2,5,4)] by blast
  ultimately show ?thesis
    using D(2) [OF assms(2)] relation_of_sym [OF root] by (auto simp: next_hop_def)
qed

text \<open>What a policy admits: without a rule everything; with one both sides need data, a same-process rule needs equal host names and
  process ids, a same-host rule equal host names, and each required label of the target must have an allowed value.\<close>

theorem CheckPolicy_admits:
  "CheckPolicy rule f t \<longleftrightarrow>
     (case rule of None \<Rightarrow> True
      | Some rl \<Rightarrow> \<exists>fd td. f = Some fd \<and> t = Some td
          \<and> (RequireSameProcess rl \<longrightarrow> td_Pid fd = td_Pid td)
          \<and> (RequireSameProcess rl \<or> RequireSameHostName rl \<longrightarrow> td_Hostname fd = td_Hostname td)
          \<and> (\<forall>(k, vs) \<in> set (RequireLabelValues rl). \<exists>v \<in> set vs. map_of (td_Labels td) k = Some v))"
  by (auto simp: CheckPolicy_def list_all_iff split: option.splits)

theorem CheckPolicy_admits_witness:
  "\<not> CheckPolicy (Some \<lparr>RequireSameProcess = True, RequireSameHostName = False, RequireLabelValues = []\<rparr>)
      (Some \<lparr>td_Pid = 1, td_Hostname = ''a'', td_Labels = []\<rparr>) (Some \<lparr>td_Pid = 1, td_Hostname = ''b'', td_Labels = []\<rparr>)"
  by (subst CheckPolicy_admits) simp

text \<open>Two peers below 1, one of them with a peer of its own.\<close>

definition sample_registry :: TopologyRegistry where
  "sample_registry = fst (the (UpdatePeer 4 2 None (fst (the (UpdatePeer 3 1 None (fst (the
     (UpdatePeer 2 1 None CreateTopologyRegistry))))))))"

lemma reachable_update: "topo_reachable r \<Longrightarrow> topo_reachable (fst (the (UpdatePeer t u d r)))"
  using UpdatePeer_total [OF topo_reachable_inv, of r t u d] by (auto intro: topo_reachable.update)

lemma sample_reachable: "topo_reachable sample_registry"
  unfolding sample_registry_def by (intro reachable_update topo_reachable.create)

lemma sample_views:
  "peers sample_registry 1 = Some 0" "peers sample_registry 2 = Some 1" "peers sample_registry 3 = Some 2" "peers sample_registry 4 = Some 3"
  "GetUpstream sample_registry 1 = Some 0" "GetUpstream sample_registry 3 = Some 1" "GetUpstream sample_registry 0 = None"
  by code_simp+

theorem UpdatePeer_links_witness:
  "\<exists>r'. UpdatePeer 1 4 None sample_registry = Some (r', False) \<and> same_links sample_registry r'"
proof -
  have "on_chain (GetUpstream sample_registry) 3 0" using sample_views by (meson on_chain.intros)
  moreover have "GetBusId sample_registry 0 = 1" by code_simp
  ultimately have "refused 1 4 sample_registry" using sample_views by (auto simp: refused_def)
  then show ?thesis using UpdatePeer_links [OF topo_reachable_inv [OF sample_reachable], of 1 4 None] by auto
qed

theorem RemovePeer_terminates_witness: "\<exists>r'. RemovePeer 4 sample_registry = Some r' \<and> topo_inv r'"
  using RemovePeer_terminates [OF topo_reachable_inv [OF sample_reachable], of 4] by blast

lemma sample_attached: "attached_except {} sample_registry"
proof -
  have "sample_registry = \<lparr>tr_data = [(1, 0), (2, 1), (3, 2), (4, 3)], tr_heap =
      [\<lparr>tp_busId = 1, tp_proactivelyAdded = False, tp_upstream = None, tp_downstream = [(2, 1), (3, 2)], tp_topologyData = zero_TopologyData\<rparr>,
       \<lparr>tp_busId = 2, tp_proactivelyAdded = True, tp_upstream = Some 0, tp_downstream = [(4, 3)], tp_topologyData = zero_TopologyData\<rparr>,
       \<lparr>tp_busId = 3, tp_proactivelyAdded = True, tp_upstream = Some 0, tp_downstream = [], tp_topologyData = zero_TopologyData\<rparr>,
       \<lparr>tp_busId = 4, tp_proactivelyAdded = True, tp_upstream = Some 1, tp_downstream = [], tp_topologyData = zero_TopologyData\<rparr>]\<rparr>"
    by code_simp
  note e = this
  show ?thesis unfolding attached_except_def GetUpstream_def downs_def e by (auto split: if_splits)
qed

theorem RemovePeer_keeps_proactive_witness:
  "\<exists>r'. RemovePeer 4 sample_registry = Some r' \<and> peers r' 3 = Some 2 \<and> getProactivelyAdded r' 2"
proof -
  have inv: "topo_inv sample_registry" by (rule topo_reachable_inv [OF sample_reachable])
  obtain r' where r': "RemovePeer 4 sample_registry = Some r'" using RemovePeer_returns [OF inv] by blast
  moreover have "getProactivelyAdded sample_registry 2" by code_simp
  ultimately show ?thesis
    using RemovePeer_keeps_proactive [OF inv sample_attached r', of 3 2] sample_views by simp
qed

theorem GetRelation_correct_witness:
  "GetRelation sample_registry 4 1 = Some (TransitiveUpstream, Some 1)"
proof -
  have "ancestor (GetUpstream sample_registry) 3 0" using sample_views by (auto simp: ancestor_def intro: on_chain.intros)
  then have "relation_of (GetUpstream sample_registry) 3 0 = TransitiveUpstream" using sample_views by (simp add: relation_of_def)
  then show ?thesis
    using GetRelation_correct [OF topo_reachable_inv [OF sample_reachable], of 4 1] sample_views by (auto simp: next_hop_def)
qed

theorem topology_forest_witness: "GetRelation sample_registry 1 2 = Some (ImmediateDownstream, Some 1)"
proof -
  have "GetRelation sample_registry 2 1 = Some (ImmediateUpstream, Some 0)" by code_simp
  then show ?thesis using topology_forest [OF sample_reachable, of 2 1 1 0] sample_views by simp
qed

text \<open>
  A peer that is removed while it has downstream peers stays registered with a stale upstream pointer.
  Here peer 2 keeps pointing to the first object of id 1; when id 1 is registered again on purpose,
  the peers are no longer related, and removing peer 3 unregisters the new peer 1.
\<close>

lemma RemovePeer_stale_upstream:
  "let r = fst (the (UpdatePeer 2 1 None CreateTopologyRegistry));
       r = fst (the (UpdatePeer 3 2 None r));
       r = the (RemovePeer 2 r);
       r = fst (the (UpdatePeer 1 0 None r))
   in peers r 1 \<noteq> None \<and> GetRelation r 2 1 = Some (OtherUpstreamPeer, Some 0) \<and> peers (the (RemovePeer 3 r)) 1 = None"
  by code_simp

end
