(* ===== verification/Node_State.thy ===== *)
theory Node_State
  imports Topology Channel_Address
begin

unbundle bit_operations_syntax

section \<open>The state of a node\<close>

text \<open>
  The objects a node owns, as one state: its connections and endpoints live in stores (lists that only
  grow, whose indices are the addresses), because they point to each other: a connection has a binding
  endpoint, an endpoint has a control connection and data connections. The node itself has flags, a
  state, a route table, the topology registry, timers and queues. The timer lists are \<open>LRUMap\<close>s of another
  module: their operations are a parameter (\<open>LRUMap\<close>) and what the code relies on is \<open>lru_laws\<close>. Calls of the
  application's event handlers are logged in \<open>nd_events\<close>; a handler does not call back into the node. The
  guard flag that is set around a handler is restored afterwards in every case, so it leaves no trace.
  Times are nanoseconds.
\<close>

subsection \<open>Flags\<close>

definition has_flag :: "'a::len word \<Rightarrow> 'a word \<Rightarrow> bool" where
  "has_flag f w \<longleftrightarrow> w AND f \<noteq> 0"

definition put_flag :: "'a::len word \<Rightarrow> bool \<Rightarrow> 'a word \<Rightarrow> 'a word" where
  "put_flag f v w = (if v then w OR f else w AND NOT f)"

lemma has_flag_put_other: "f AND g = 0 \<Longrightarrow> has_flag f (put_flag g v w) = has_flag f w"
proof -
  assume fg: "f AND g = 0"
  have "(w OR g) AND f = w AND f" using fg by (simp add: and.commute bit.conj_disj_distrib)
  moreover have "(w AND NOT g) AND f = w AND f"
  proof -
    have "NOT g AND f = f"
    proof (rule bit_word_eqI)
      fix i assume "i < LENGTH('a)"
      have "\<not> bit (f AND g) i" using fg by simp
      then show "bit (NOT g AND f) i = bit f i" using \<open>i < LENGTH('a)\<close> by (auto simp: bit_simps)
    qed
    then show ?thesis by (simp add: and.assoc)
  qed
  ultimately show ?thesis by (simp add: has_flag_def put_flag_def)
qed

lemma has_flag_put_same [simp]: "f \<noteq> 0 \<Longrightarrow> has_flag f (put_flag f v w) = v"
proof -
  assume f: "f \<noteq> 0"
  have "(w OR f) AND f = f" by (rule bit_word_eqI) (auto simp: bit_simps)
  moreover have "(w AND NOT f) AND f = 0" by (simp add: and.assoc)
  ultimately show ?thesis using f by (cases v) (simp_all add: has_flag_def put_flag_def)
qed

lemma has_flag_0 [simp]: "\<not> has_flag f 0"
  by (simp add: has_flag_def)

subsection \<open>Configuration\<close>

record NodeConfigure =
  UpstreamAddress :: string
  TopologyLabels :: "(string \<times> string) list"
  LoopTimes :: int
  TTL :: int
  ProtocolVersion :: int
  ProtocolMinimalVersion :: int
  BackLog :: int
  FirstIdleTimeout :: int
  PingInterval :: int
  RetryInterval :: int
  FaultTolerant :: uint32
  AccessTokenMaxNumber :: uint32
  AccessTokens :: "bytes list"
  OverwriteListenPath :: bool
  CryptoKeyExchangeType :: ATBUS_CRYPTO_KEY_EXCHANGE_TYPE
  CryptoKeyRefreshInterval :: int
  CryptoAllowAlgorithms :: "ATBUS_CRYPTO_ALGORITHM_TYPE list"
  CompressionAllowAlgorithms :: "ATBUS_COMPRESSION_ALGORITHM_TYPE list"
  CompressionLevel :: int
  MessageSize :: uint64
  RecvBufferSize :: uint64
  SendBufferSize :: uint64
  SendBufferNumber :: uint64

definition second :: int where "second = 1000000000"

definition SetDefaultNodeConfigure :: "NodeConfigure \<Rightarrow> NodeConfigure" where
  "SetDefaultNodeConfigure conf = conf\<lparr>
     UpstreamAddress := '''', TopologyLabels := [], LoopTimes := 256, TTL := 16, ProtocolVersion := 3, ProtocolMinimalVersion := 3,
     FirstIdleTimeout := 30 * second, PingInterval := 8 * second, RetryInterval := 3 * second, FaultTolerant := 2, BackLog := 256,
     AccessTokenMaxNumber := 5, AccessTokens := [], OverwriteListenPath := False,
     CryptoKeyExchangeType := KEY_EXCHANGE_NONE, CryptoKeyRefreshInterval := 3 * 3600 * second,
     CryptoAllowAlgorithms := [XXTEA, AES_128_CBC, AES_192_CBC, AES_256_CBC, AES_128_GCM, AES_192_GCM, AES_256_GCM,
       CHACHA20, CHACHA20_POLY1305_IETF, XCHACHA20_POLY1305_IETF],
     CompressionAllowAlgorithms := [ZSTD, LZ4, SNAPPY, ZLIB], CompressionLevel := 0,
     MessageSize := 2 * 1024 * 1024, RecvBufferSize := 268435456, SendBufferSize := 8 * 1024 * 1024, SendBufferNumber := 0\<rparr>"

definition zero_NodeConfigure :: NodeConfigure where
  "zero_NodeConfigure = \<lparr>UpstreamAddress = '''', TopologyLabels = [], LoopTimes = 0, TTL = 0, ProtocolVersion = 0, ProtocolMinimalVersion = 0,
     BackLog = 0, FirstIdleTimeout = 0, PingInterval = 0, RetryInterval = 0, FaultTolerant = 0, AccessTokenMaxNumber = 0,
     AccessTokens = [], OverwriteListenPath = False, CryptoKeyExchangeType = KEY_EXCHANGE_NONE, CryptoKeyRefreshInterval = 0,
     CryptoAllowAlgorithms = [], CompressionAllowAlgorithms = [], CompressionLevel = 0, MessageSize = 0, RecvBufferSize = 0,
     SendBufferSize = 0, SendBufferNumber = 0\<rparr>"

subsection \<open>Connections\<close>

datatype ConnectionState =
    ConnectionState_Disconnected | ConnectionState_Connecting | ConnectionState_Handshaking | ConnectionState_Connected
  | ConnectionState_Disconnecting

definition ConnectionFlag_RegProc :: uint32 where "ConnectionFlag_RegProc = 0x0001"
definition ConnectionFlag_RegFd :: uint32 where "ConnectionFlag_RegFd = 0x0002"
definition ConnectionFlag_AccessShareAddr :: uint32 where "ConnectionFlag_AccessShareAddr = 0x0004"
definition ConnectionFlag_AccessShareHost :: uint32 where "ConnectionFlag_AccessShareHost = 0x0008"
definition ConnectionFlag_Resetting :: uint32 where "ConnectionFlag_Resetting = 0x0010"
definition ConnectionFlag_Destructing :: uint32 where "ConnectionFlag_Destructing = 0x0020"
definition ConnectionFlag_ListenFd :: uint32 where "ConnectionFlag_ListenFd = 0x0040"
definition ConnectionFlag_Temporary :: uint32 where "ConnectionFlag_Temporary = 0x0080"
definition ConnectionFlag_PeerClosed :: uint32 where "ConnectionFlag_PeerClosed = 0x0100"
definition ConnectionFlag_ServerMode :: uint32 where "ConnectionFlag_ServerMode = 0x0200"
definition ConnectionFlag_ClientMode :: uint32 where "ConnectionFlag_ClientMode = 0x0400"

record ConnectionStatistic =
  PushStartTimes :: uint64
  PushStartSize :: uint64
  PushSuccessTimes :: uint64
  PushSuccessSize :: uint64
  PushFailedTimes :: uint64
  PushFailedSize :: uint64
  PullStartTimes :: uint64
  PullStartSize :: uint64
  ConnFaultCount :: uint64

definition zero_ConnectionStatistic :: ConnectionStatistic where
  "zero_ConnectionStatistic = \<lparr>PushStartTimes = 0, PushStartSize = 0, PushSuccessTimes = 0, PushSuccessSize = 0, PushFailedTimes = 0,
     PushFailedSize = 0, PullStartTimes = 0, PullStartSize = 0, ConnFaultCount = 0\<rparr>"

record Connection =
  cn_binding :: "nat option"
  cn_status :: ConnectionState
  cn_address :: ChannelAddress
  cn_flags :: uint32
  cn_statistic :: ConnectionStatistic
  cn_ioStreamConnection :: "nat option"

subsection \<open>Endpoints\<close>

definition EndpointFlag_Resetting :: uint32 where "EndpointFlag_Resetting = 0x0001"
definition EndpointFlag_ConnectionSorted :: uint32 where "EndpointFlag_ConnectionSorted = 0x0002"
definition EndpointFlag_Destructing :: uint32 where "EndpointFlag_Destructing = 0x0004"
definition EndpointFlag_HasListenPorc :: uint32 where "EndpointFlag_HasListenPorc = 0x0008"
definition EndpointFlag_HasListenFd :: uint32 where "EndpointFlag_HasListenFd = 0x0010"
definition EndpointFlag_MutableFlags :: uint32 where "EndpointFlag_MutableFlags = 0x0020"
definition EndpointFlag_HasPingTimer :: uint32 where "EndpointFlag_HasPingTimer = 0x0040"

record endpointStatistic =
  es_FaultCount :: uint64
  es_UnfinishedPing :: uint64
  es_PingDelay :: int
  es_LastPongTime :: int
  es_CreatedTime :: int

record Endpoint =
  ep_id :: BusIdType
  ep_pid :: int
  ep_hostname :: string
  ep_hashCode :: string
  ep_flags :: uint32
  ep_ctrlConn :: "nat option"
  ep_dataConn :: "nat list"
  ep_listenAddress :: "ChannelAddress list"
  ep_supportedSchemas :: "string list option"
  ep_stat :: endpointStatistic

subsection \<open>The node\<close>

datatype NodeState =
    NodeState_Created | NodeState_Inited | NodeState_LostUpstream | NodeState_ConnectingUpstream | NodeState_Running

definition NodeFlag_Resetting :: "16 word" where "NodeFlag_Resetting = 0x0001"
definition NodeFlag_ResettingGc :: "16 word" where "NodeFlag_ResettingGc = 0x0002"
definition NodeFlag_Actived :: "16 word" where "NodeFlag_Actived = 0x0004"
definition NodeFlag_UpstreamRegDone :: "16 word" where "NodeFlag_UpstreamRegDone = 0x0008"
definition NodeFlag_Shutdown :: "16 word" where "NodeFlag_Shutdown = 0x0010"
definition NodeFlag_RecvSelfMsg :: "16 word" where "NodeFlag_RecvSelfMsg = 0x0020"
definition NodeFlag_InCallback :: "16 word" where "NodeFlag_InCallback = 0x0040"
definition NodeFlag_InProc :: "16 word" where "NodeFlag_InProc = 0x0080"
definition NodeFlag_InPoll :: "16 word" where "NodeFlag_InPoll = 0x0100"
definition NodeFlag_InGcEndpoints :: "16 word" where "NodeFlag_InGcEndpoints = 0x0200"
definition NodeFlag_InGcConnections :: "16 word" where "NodeFlag_InGcConnections = 0x0400"

datatype node_event =
    OnCloseConnection "nat option" nat
  | OnInvalidConnection nat ErrorType
  | OnEndpointAdded nat
  | OnEndpointRemoved nat
  | OnNodeUp
  | OnNodeDown ErrorType
  | OnTopologyUpdateUpstream BusIdType
  | OnForwardRequest "nat option" "nat option" Message bytes
  | OnForwardResponse "nat option" "nat option" Message
  | OnRegister "nat option" "nat option" ErrorType
  | OnNewConnection nat
  | OnCustomCommandRequest "nat option" "nat option" BusIdType "bytes list"
  | OnCustomCommandResponse "nat option" "nat option" BusIdType "bytes list" uint64
  | OnEndpointPing "nat option" "(Message \<times> ping_data) option"
  | OnEndpointPong "nat option" Message ping_data

record ('m, 'k, 'v) LRUMap =
  lru_Put :: "'k \<Rightarrow> 'v \<Rightarrow> 'm \<Rightarrow> 'm"
  lru_Get :: "'k \<Rightarrow> 'm \<Rightarrow> 'v option"
  lru_Delete :: "'k \<Rightarrow> 'm \<Rightarrow> 'm"

definition lru_laws :: "('m, 'k, 'v) LRUMap \<Rightarrow> bool" where
  "lru_laws L \<longleftrightarrow>
     (\<forall>k k' v m. lru_Get L k' (lru_Put L k v m) = (if k' = k then Some v else lru_Get L k' m))
   \<and> (\<forall>k k' m. lru_Get L k' (lru_Delete L k m) = (if k' = k then None else lru_Get L k' m))"

text \<open>The entries of the connecting list are the timeout and the connection, those of the ping list the timeout and the endpoint.\<close>

record ('p, 'c) Node =
  nd_conns :: "Connection list"
  nd_eps :: "Endpoint list"
  nd_flags :: "16 word"
  nd_state :: NodeState
  nd_configure :: NodeConfigure
  nd_self :: "nat option"
  nd_upstream :: "nat option"
  nd_route :: "(BusIdType \<times> nat) list"
  nd_topology :: TopologyRegistry
  nd_tick :: int
  nd_upstreamOpTimepoint :: int
  nd_pingList :: 'p
  nd_connectingList :: 'c
  nd_pendingEndpointGc :: "nat list"
  nd_pendingConnectionGc :: "nat list"
  nd_sequence :: uint64
  nd_events :: "node_event list"

type_synonym 'p ping_ops = "('p, nat, int \<times> nat) LRUMap"
type_synonym 'c connecting_ops = "('c, string, int \<times> nat) LRUMap"

definition upd_conn :: "nat \<Rightarrow> (Connection \<Rightarrow> Connection) \<Rightarrow> ('p, 'c) Node \<Rightarrow> ('p, 'c) Node" where
  "upd_conn c f n = n\<lparr>nd_conns := (nd_conns n)[c := f (nd_conns n ! c)]\<rparr>"

definition upd_ep :: "nat \<Rightarrow> (Endpoint \<Rightarrow> Endpoint) \<Rightarrow> ('p, 'c) Node \<Rightarrow> ('p, 'c) Node" where
  "upd_ep e f n = n\<lparr>nd_eps := (nd_eps n)[e := f (nd_eps n ! e)]\<rparr>"

definition log_event :: "node_event \<Rightarrow> ('p, 'c) Node \<Rightarrow> ('p, 'c) Node" where
  "log_event ev n = n\<lparr>nd_events := nd_events n @ [ev]\<rparr>"

definition Node_CheckFlag :: "16 word \<Rightarrow> ('p, 'c) Node \<Rightarrow> bool" where
  "Node_CheckFlag f n = has_flag f (nd_flags n)"

definition Node_GetId :: "('p, 'c) Node \<Rightarrow> BusIdType" where
  "Node_GetId n = (case nd_self n of None \<Rightarrow> 0 | Some e \<Rightarrow> ep_id (nd_eps n ! e))"

definition setState :: "NodeState \<Rightarrow> ('p, 'c) Node \<Rightarrow> ('p, 'c) Node" where
  "setState s n = n\<lparr>nd_state := s\<rparr>"

subsection \<open>What connections and endpoints ask of the node\<close>

definition AddEndpointGcList :: "nat \<Rightarrow> ('p, 'c) Node \<Rightarrow> ('p, 'c) Node" where
  "AddEndpointGcList e n =
     (if Node_CheckFlag NodeFlag_ResettingGc n \<or> Node_CheckFlag NodeFlag_InGcEndpoints n then n
      else n\<lparr>nd_pendingEndpointGc := nd_pendingEndpointGc n @ [e]\<rparr>)"

definition AddConnectionGcList :: "nat \<Rightarrow> ('p, 'c) Node \<Rightarrow> ('p, 'c) Node" where
  "AddConnectionGcList c n =
     (if Node_CheckFlag NodeFlag_ResettingGc n \<or> Node_CheckFlag NodeFlag_InGcConnections n then n
      else n\<lparr>nd_pendingConnectionGc := nd_pendingConnectionGc n @ [c]\<rparr>)"

definition addPingTimer :: "'p ping_ops \<Rightarrow> nat \<Rightarrow> int \<Rightarrow> ('p, 'c) Node \<Rightarrow> ('p, 'c) Node \<times> bool" where
  "addPingTimer P e nextPingTime n =
     (if ep_id (nd_eps n ! e) = Node_GetId n then (n, False)
      else if PingInterval (nd_configure n) \<le> 0 then (n, False)
      else if Node_CheckFlag NodeFlag_ResettingGc n then (n, False)
      else (n\<lparr>nd_pingList := lru_Put P e (nextPingTime, e) (nd_pingList n)\<rparr>, True))"

definition removePingTimer :: "'p ping_ops \<Rightarrow> nat \<Rightarrow> ('p, 'c) Node \<Rightarrow> ('p, 'c) Node" where
  "removePingTimer P e n = n\<lparr>nd_pingList := lru_Delete P e (nd_pingList n)\<rparr>"

definition OnShutdown :: "(ErrorType \<Rightarrow> ErrorType) \<Rightarrow> ErrorType \<Rightarrow> ('p, 'c) Node \<Rightarrow> ('p, 'c) Node \<times> ErrorType" where
  "OnShutdown handle code n =
     (if \<not> Node_CheckFlag NodeFlag_Actived n then (n, EN_ATBUS_ERR_SUCCESS)
      else (log_event (OnNodeDown code) n, handle code))"

definition Shutdown :: "(ErrorType \<Rightarrow> ErrorType) \<Rightarrow> ErrorType \<Rightarrow> ('p, 'c) Node \<Rightarrow> ('p, 'c) Node \<times> ErrorType" where
  "Shutdown handle reason n =
     (if Node_CheckFlag NodeFlag_Shutdown n then (n, EN_ATBUS_ERR_SUCCESS)
      else OnShutdown handle reason (n\<lparr>nd_flags := nd_flags n OR NodeFlag_Shutdown\<rparr>))"

definition FatalShutdown :: "ErrorType \<Rightarrow> ('p, 'c) Node \<Rightarrow> ('p, 'c) Node \<times> ErrorType" where
  "FatalShutdown code n =
     (if Node_CheckFlag NodeFlag_Shutdown n then (n, EN_ATBUS_ERR_SUCCESS)
      else (fst (Shutdown id code n), EN_ATBUS_ERR_SUCCESS))"

definition OnDisconnect :: "nat option \<Rightarrow> nat \<Rightarrow> ('p, 'c) Node \<Rightarrow> ('p, 'c) Node" where
  "OnDisconnect e c n =
     (let n = (if nd_state n = NodeState_ConnectingUpstream \<and> UpstreamAddress (nd_configure n) \<noteq> ''''
                  \<and> UpstreamAddress (nd_configure n) = ca_Address (cn_address (nd_conns n ! c))
               then
                 let n = setState NodeState_LostUpstream n;
                     n = n\<lparr>nd_upstreamOpTimepoint := nd_tick n + RetryInterval (nd_configure n)\<rparr>
                 in if \<not> Node_CheckFlag NodeFlag_Actived n then fst (FatalShutdown EN_ATBUS_ERR_ATNODE_MASK_CONFLICT n) else n
               else n)
      in log_event (OnCloseConnection e c) n)"

definition removeConnectionTimer :: "'c connecting_ops \<Rightarrow> nat \<Rightarrow> ('p, 'c) Node \<Rightarrow> ('p, 'c) Node" where
  "removeConnectionTimer C c n =
     (let addr = ca_Address (cn_address (nd_conns n ! c)) in
      case lru_Get C addr (nd_connectingList n) of
        None \<Rightarrow> n
      | Some (_, found) \<Rightarrow>
          if found \<noteq> c then n
          else
            let n = (if cn_status (nd_conns n ! found) \<noteq> ConnectionState_Connected
                        \<and> (\<not> has_flag ConnectionFlag_Temporary (cn_flags (nd_conns n ! found))
                           \<or> \<not> has_flag ConnectionFlag_PeerClosed (cn_flags (nd_conns n ! found)))
                     then log_event (OnInvalidConnection found EN_ATBUS_ERR_NODE_TIMEOUT) n else n)
            in n\<lparr>nd_connectingList := lru_Delete C addr (nd_connectingList n)\<rparr>)"

end
