(* ===== verification/Endpoint.thy ===== *)
theory Endpoint
  imports Node_State "HOL-Library.Multiset"
begin

unbundle bit_operations_syntax

section \<open>Connections and endpoints (impl/atbus\_connection.go, impl/atbus\_endpoint.go)\<close>

text \<open>
  The operations of connections and endpoints on the state of their node. Resetting is mutually
  recursive: a connection that resets itself is removed from its endpoint, which may reset the
  endpoint, which resets its connections; flags cut the recursion. The three functions carry the depth
  of the recursion that is left, \<open>None\<close> meaning that it was not enough: depth four always is.
\<close>

subsection \<open>Connections\<close>

definition CheckFlag :: "uint32 \<Rightarrow> Connection \<Rightarrow> bool" where
  "CheckFlag f c = has_flag f (cn_flags c)"

definition Connection_setFlag :: "uint32 \<Rightarrow> bool \<Rightarrow> Connection \<Rightarrow> Connection" where
  "Connection_setFlag f v c = c\<lparr>cn_flags := put_flag f v (cn_flags c)\<rparr>"

definition setBinding :: "nat option \<Rightarrow> Connection \<Rightarrow> Connection" where
  "setBinding e c = c\<lparr>cn_binding := e\<rparr>"

definition setStatus :: "ConnectionState \<Rightarrow> Connection \<Rightarrow> Connection" where
  "setStatus s c = c\<lparr>cn_status := s\<rparr>"

definition SetTemporary :: "Connection \<Rightarrow> Connection" where
  "SetTemporary c = c\<lparr>cn_flags := cn_flags c OR ConnectionFlag_Temporary\<rparr>"

definition IsConnected :: "Connection \<Rightarrow> bool" where
  "IsConnected c \<longleftrightarrow> cn_status c = ConnectionState_Connected"

definition IsRunning :: "Connection \<Rightarrow> bool" where
  "IsRunning c \<longleftrightarrow> cn_status c = ConnectionState_Connecting \<or> cn_status c = ConnectionState_Handshaking
     \<or> cn_status c = ConnectionState_Connected"

definition Connection_AddStatisticFault :: "Connection \<Rightarrow> Connection \<times> uint64" where
  "Connection_AddStatisticFault c =
     (let f = ConnFaultCount (cn_statistic c) + 1 in (c\<lparr>cn_statistic := (cn_statistic c)\<lparr>ConnFaultCount := f\<rparr>\<rparr>, f))"

definition Connection_ClearStatisticFault :: "Connection \<Rightarrow> Connection" where
  "Connection_ClearStatisticFault c = c\<lparr>cn_statistic := (cn_statistic c)\<lparr>ConnFaultCount := 0\<rparr>\<rparr>"

definition CreateConnection :: "(string \<Rightarrow> string) \<Rightarrow> string \<Rightarrow> ('p, 'c) Node \<Rightarrow> (('p, 'c) Node \<times> nat) option" where
  "CreateConnection unicodeLower addr n =
     (case MakeAddress unicodeLower addr of
        None \<Rightarrow> None
      | Some address \<Rightarrow>
          Some (n\<lparr>nd_conns := nd_conns n @ [\<lparr>cn_binding = None, cn_status = ConnectionState_Disconnected, cn_address = address,
                  cn_flags = 0, cn_statistic = zero_ConnectionStatistic, cn_ioStreamConnection = None\<rparr>]\<rparr>, length (nd_conns n)))"

text \<open>\<open>Listen\<close>, \<open>Disconnect\<close> and \<open>Push\<close> call the channel: what it answers is a parameter, \<open>None\<close> when the node has no channel.\<close>

definition Connection_Listen :: "(string \<Rightarrow> ErrorType) option \<Rightarrow> Connection \<Rightarrow> Connection \<times> ErrorType" where
  "Connection_Listen channel c =
     (case channel of
        None \<Rightarrow> (c, EN_ATBUS_ERR_CHANNEL_NOT_SUPPORT)
      | Some listen \<Rightarrow>
          let c = setStatus ConnectionState_Connecting c;
              c = Connection_setFlag ConnectionFlag_ListenFd True c;
              c = Connection_setFlag ConnectionFlag_ServerMode True c;
              ret = listen (ca_Address (cn_address c))
          in if ret \<noteq> EN_ATBUS_ERR_SUCCESS then
               (Connection_setFlag ConnectionFlag_ServerMode False (Connection_setFlag ConnectionFlag_ListenFd False
                 (setStatus ConnectionState_Disconnected c)), ret)
             else (setStatus ConnectionState_Connected c, EN_ATBUS_ERR_SUCCESS))"

text \<open>\<open>Disconnect\<close> also yields the stream connection it tells the channel to disconnect, if the node has a channel.\<close>

definition Connection_Disconnect :: "bool \<Rightarrow> Connection \<Rightarrow> Connection \<times> nat option \<times> ErrorType" where
  "Connection_Disconnect hasChannel c =
     (if cn_status c = ConnectionState_Disconnected then (c, None, EN_ATBUS_ERR_SUCCESS)
      else
        let c = setStatus ConnectionState_Disconnecting c;
            io = (if hasChannel then cn_ioStreamConnection c else None);
            c = c\<lparr>cn_ioStreamConnection := None\<rparr>
        in (setStatus ConnectionState_Disconnected c, io, EN_ATBUS_ERR_SUCCESS))"

definition push_failed :: "uint64 \<Rightarrow> ConnectionStatistic \<Rightarrow> ConnectionStatistic" where
  "push_failed payloadSize s = s\<lparr>PushFailedTimes := PushFailedTimes s + 1, PushFailedSize := PushFailedSize s + payloadSize\<rparr>"

definition Push :: "(nat \<Rightarrow> bytes \<Rightarrow> ErrorType) option \<Rightarrow> bytes \<Rightarrow> Connection \<Rightarrow> Connection \<times> ErrorType" where
  "Push channel data c =
     (let payloadSize = of_nat (length data);
          s = cn_statistic c;
          s = s\<lparr>PushStartTimes := PushStartTimes s + 1, PushStartSize := PushStartSize s + payloadSize\<rparr>;
          c = c\<lparr>cn_statistic := s\<rparr>;
          failed = c\<lparr>cn_statistic := push_failed payloadSize s\<rparr>
      in if cn_status c \<noteq> ConnectionState_Connected \<and> cn_status c \<noteq> ConnectionState_Handshaking then (failed, EN_ATBUS_ERR_CLOSING)
         else case cn_ioStreamConnection c of
           None \<Rightarrow> (failed, EN_ATBUS_ERR_NO_DATA)
         | Some io \<Rightarrow>
             (case channel of
                None \<Rightarrow> (failed, EN_ATBUS_ERR_CHANNEL_NOT_SUPPORT)
              | Some send \<Rightarrow>
                  let ret = send io data in (if ret \<noteq> EN_ATBUS_ERR_SUCCESS then failed else c, ret)))"

subsection \<open>Endpoints\<close>

definition Endpoint_GetFlag :: "uint32 \<Rightarrow> Endpoint \<Rightarrow> bool" where
  "Endpoint_GetFlag f e = has_flag f (ep_flags e)"

definition Endpoint_setFlag :: "uint32 \<Rightarrow> bool \<Rightarrow> Endpoint \<Rightarrow> Endpoint" where
  "Endpoint_setFlag f v e = e\<lparr>ep_flags := put_flag f v (ep_flags e)\<rparr>"

definition Endpoint_SetFlag :: "uint32 \<Rightarrow> bool \<Rightarrow> Endpoint \<Rightarrow> Endpoint" where
  "Endpoint_SetFlag f v e = (if f < EndpointFlag_MutableFlags then e else Endpoint_setFlag f v e)"

definition CreateEndpoint :: "BusIdType \<Rightarrow> int \<Rightarrow> string \<Rightarrow> int \<Rightarrow> ('p, 'c) Node \<Rightarrow> ('p, 'c) Node \<times> nat" where
  "CreateEndpoint i pid hostname now n =
     (n\<lparr>nd_eps := nd_eps n @ [\<lparr>ep_id = i, ep_pid = (pid + 2 ^ 31) mod 2 ^ 32 - 2 ^ 31, ep_hostname = hostname, ep_hashCode = '''',
          ep_flags = 0, ep_ctrlConn = None, ep_dataConn = [], ep_listenAddress = [], ep_supportedSchemas = Some [],
          ep_stat = \<lparr>es_FaultCount = 0, es_UnfinishedPing = 0, es_PingDelay = 0, es_LastPongTime = 0, es_CreatedTime = now\<rparr>\<rparr>]\<rparr>,
      length (nd_eps n))"

definition UpdateHashCode :: "string \<Rightarrow> Endpoint \<Rightarrow> Endpoint" where
  "UpdateHashCode code e = (if code = '''' then e else e\<lparr>ep_hashCode := code\<rparr>)"

definition ClearPingTimer :: "'p ping_ops \<Rightarrow> nat \<Rightarrow> ('p, 'c) Node \<Rightarrow> ('p, 'c) Node" where
  "ClearPingTimer P e n =
     (if \<not> Endpoint_GetFlag EndpointFlag_HasPingTimer (nd_eps n ! e) then n
      else upd_ep e (Endpoint_SetFlag EndpointFlag_HasPingTimer False) (removePingTimer P e n))"

definition AddPingTimer :: "'p ping_ops \<Rightarrow> nat \<Rightarrow> ('p, 'c) Node \<Rightarrow> ('p, 'c) Node" where
  "AddPingTimer P e n =
     (if ep_id (nd_eps n ! e) = Node_GetId n then n
      else if PingInterval (nd_configure n) \<le> 0 then n
      else if Node_CheckFlag NodeFlag_ResettingGc n then n
      else
        let n = ClearPingTimer P e n in
        if Endpoint_GetFlag EndpointFlag_Resetting (nd_eps n ! e) then n
        else
          let nextPingTime = nd_tick n + PingInterval (nd_configure n);
              n = fst (addPingTimer P e nextPingTime n)
          in upd_ep e (Endpoint_SetFlag EndpointFlag_HasPingTimer True) n)"

definition AddConnection :: "nat \<Rightarrow> nat \<Rightarrow> bool \<Rightarrow> ('p, 'c) Node \<Rightarrow> ('p, 'c) Node \<times> bool" where
  "AddConnection e c forceData n =
     (let promote = (\<lambda>n. if cn_status (nd_conns n ! c) = ConnectionState_Handshaking
                         then upd_conn c (setStatus ConnectionState_Connected) n else n)
      in if Endpoint_GetFlag EndpointFlag_Resetting (nd_eps n ! e) then (n, False)
         else if cn_binding (nd_conns n ! c) = Some e then (promote n, True)
         else if cn_binding (nd_conns n ! c) \<noteq> None then (n, False)
         else
           let n = (if forceData \<or> ep_ctrlConn (nd_eps n ! e) \<noteq> None
                    then upd_ep e (\<lambda>ep. Endpoint_setFlag EndpointFlag_ConnectionSorted False (ep\<lparr>ep_dataConn := ep_dataConn ep @ [c]\<rparr>)) n
                    else upd_ep e (\<lambda>ep. ep\<lparr>ep_ctrlConn := Some c\<rparr>) n);
               n = upd_conn c (setBinding (Some e)) n
           in (promote n, True))"

text \<open>\<open>fold_reset\<close> is the loop over the data connections of an endpoint that is being reset.\<close>

fun fold_reset :: "(nat \<Rightarrow> ('p, 'c) Node \<Rightarrow> ('p, 'c) Node option) \<Rightarrow> nat list \<Rightarrow> ('p, 'c) Node \<Rightarrow> ('p, 'c) Node option" where
  "fold_reset reset [] n = Some n"
| "fold_reset reset (c # cs) n =
     (case reset c (upd_conn c (setBinding None) n) of None \<Rightarrow> None | Some n \<Rightarrow> fold_reset reset cs n)"

fun Connection_Reset :: "'p ping_ops \<Rightarrow> 'c connecting_ops \<Rightarrow> nat \<Rightarrow> nat \<Rightarrow> ('p, 'c) Node \<Rightarrow> ('p, 'c) Node option"
  and RemoveConnection :: "'p ping_ops \<Rightarrow> 'c connecting_ops \<Rightarrow> nat \<Rightarrow> nat \<Rightarrow> nat \<Rightarrow> ('p, 'c) Node \<Rightarrow> (('p, 'c) Node \<times> bool) option"
  and Endpoint_Reset :: "'p ping_ops \<Rightarrow> 'c connecting_ops \<Rightarrow> nat \<Rightarrow> nat \<Rightarrow> ('p, 'c) Node \<Rightarrow> ('p, 'c) Node option" where
  "Connection_Reset P C 0 c n = None"
| "Connection_Reset P C (Suc d) c n =
     (if CheckFlag ConnectionFlag_Resetting (nd_conns n ! c) then Some n
      else
        let n = upd_conn c (Connection_setFlag ConnectionFlag_Resetting True) n;
            bindEp = cn_binding (nd_conns n ! c);
            n = removeConnectionTimer C c n
        in case (case cn_binding (nd_conns n ! c) of
                   None \<Rightarrow> Some n
                 | Some e \<Rightarrow> map_option fst (RemoveConnection P C d e c n)) of
             None \<Rightarrow> None
           | Some n \<Rightarrow>
               let n = AddConnectionGcList c n;
                   n = upd_conn c (\<lambda>cn. cn\<lparr>cn_flags := 0, cn_statistic := zero_ConnectionStatistic\<rparr>) n
               in Some (OnDisconnect bindEp c n))"
| "RemoveConnection P C 0 e c n = None"
| "RemoveConnection P C (Suc d) e c n =
     (if cn_binding (nd_conns n ! c) \<noteq> Some e then Some (n, False)
      else if Endpoint_GetFlag EndpointFlag_Resetting (nd_eps n ! e) then Some (upd_conn c (setBinding None) n, True)
      else if ep_ctrlConn (nd_eps n ! e) = Some c then map_option (\<lambda>n. (n, True)) (Endpoint_Reset P C d e n)
      else if c \<in> set (ep_dataConn (nd_eps n ! e)) then
        let n = upd_conn c (setBinding None) n;
            n = upd_ep e (\<lambda>ep. ep\<lparr>ep_dataConn := remove1 c (ep_dataConn ep)\<rparr>) n
        in if ep_dataConn (nd_eps n ! e) = [] then map_option (\<lambda>n. (n, True)) (Endpoint_Reset P C d e n) else Some (n, True)
      else Some (n, False))"
| "Endpoint_Reset P C 0 e n = None"
| "Endpoint_Reset P C (Suc d) e n =
     (if Endpoint_GetFlag EndpointFlag_Resetting (nd_eps n ! e) then Some n
      else
        let n = upd_ep e (Endpoint_setFlag EndpointFlag_Resetting True) n;
            ctrl = ep_ctrlConn (nd_eps n ! e);
            data = ep_dataConn (nd_eps n ! e);
            n = upd_ep e (\<lambda>ep. ep\<lparr>ep_ctrlConn := None, ep_dataConn := [], ep_listenAddress := []\<rparr>) n
        in case (case ctrl of None \<Rightarrow> Some n | Some c \<Rightarrow> Connection_Reset P C d c (upd_conn c (setBinding None) n)) of
             None \<Rightarrow> None
           | Some n \<Rightarrow>
               (case fold_reset (Connection_Reset P C d) data n of
                  None \<Rightarrow> None
                | Some n \<Rightarrow>
                    let n = ClearPingTimer P e n;
                        n = AddEndpointGcList e n
                    in Some (upd_ep e (\<lambda>ep. ep\<lparr>ep_flags := 0\<rparr>) n)))"

declare Connection_Reset.simps [simp del] RemoveConnection.simps [simp del] Endpoint_Reset.simps [simp del]

definition IsAvailable :: "('p, 'c) Node \<Rightarrow> nat \<Rightarrow> bool" where
  "IsAvailable n e \<longleftrightarrow> ep_ctrlConn (nd_eps n ! e) \<noteq> None \<and> list_ex (\<lambda>c. IsRunning (nd_conns n ! c)) (ep_dataConn (nd_eps n ! e))"

definition ClearListenAddress :: "Endpoint \<Rightarrow> Endpoint" where
  "ClearListenAddress e = Endpoint_setFlag EndpointFlag_HasListenFd False (Endpoint_setFlag EndpointFlag_HasListenPorc False (e\<lparr>ep_listenAddress := []\<rparr>))"

definition AddListenAddress :: "(string \<Rightarrow> string) \<Rightarrow> string \<Rightarrow> Endpoint \<Rightarrow> Endpoint" where
  "AddListenAddress unicodeLower addr e =
     (if addr = '''' then e
      else
        let lowerAddr = ToLower unicodeLower addr;
            e = (if HasPrefix lowerAddr ''mem:'' \<or> HasPrefix lowerAddr ''shm:'' then Endpoint_setFlag EndpointFlag_HasListenPorc True e
                 else Endpoint_setFlag EndpointFlag_HasListenFd True e)
        in case MakeAddress unicodeLower addr of
             None \<Rightarrow> e
           | Some parsed \<Rightarrow> e\<lparr>ep_listenAddress := ep_listenAddress e @ [parsed]\<rparr>)"

definition UpdateSupportSchemes :: "string list \<Rightarrow> Endpoint \<Rightarrow> Endpoint" where
  "UpdateSupportSchemes schemes e =
     (if schemes = [] then e\<lparr>ep_supportedSchemas := None\<rparr>
      else e\<lparr>ep_supportedSchemas := Some (filter (\<lambda>s. s \<noteq> '''') schemes)\<rparr>)"

definition IsSchemeSupported :: "string \<Rightarrow> Endpoint \<Rightarrow> bool" where
  "IsSchemeSupported scheme e \<longleftrightarrow> scheme \<noteq> '''' \<and> (case ep_supportedSchemas e of None \<Rightarrow> False | Some s \<Rightarrow> scheme \<in> set s)"

subsection \<open>Choosing a connection\<close>

definition scoreConnection :: "Connection \<Rightarrow> nat" where
  "scoreConnection c = (if CheckFlag ConnectionFlag_AccessShareAddr c then 0 else 8)
     + (if CheckFlag ConnectionFlag_AccessShareHost c then 0 else 4)"

definition GetCtrlConnection :: "('p, 'c) Node \<Rightarrow> nat \<Rightarrow> nat \<Rightarrow> nat option" where
  "GetCtrlConnection n e peer =
     (if e = peer then None
      else case ep_ctrlConn (nd_eps n ! peer) of
        None \<Rightarrow> None
      | Some ctrl \<Rightarrow> if cn_status (nd_conns n ! ctrl) = ConnectionState_Connected then Some ctrl else None)"

definition sort_data :: "nat \<Rightarrow> ('p, 'c) Node \<Rightarrow> ('p, 'c) Node" where
  "sort_data peer n =
     (if Endpoint_GetFlag EndpointFlag_ConnectionSorted (nd_eps n ! peer) then n
      else upd_ep peer (\<lambda>ep. Endpoint_setFlag EndpointFlag_ConnectionSorted True
             (ep\<lparr>ep_dataConn := sort_key (\<lambda>c. scoreConnection (nd_conns n ! c)) (ep_dataConn ep)\<rparr>)) n)"

definition usable :: "('p, 'c) Node \<Rightarrow> nat \<Rightarrow> nat \<Rightarrow> nat \<Rightarrow> bool" where
  "usable n e peer c \<longleftrightarrow>
     (let shareHost = (ep_hostname (nd_eps n ! peer) = ep_hostname (nd_eps n ! e));
          sharePid = (shareHost \<and> ep_pid (nd_eps n ! peer) = ep_pid (nd_eps n ! e))
      in cn_status (nd_conns n ! c) = ConnectionState_Connected
         \<and> (sharePid \<and> CheckFlag ConnectionFlag_AccessShareAddr (nd_conns n ! c)
            \<or> shareHost \<and> CheckFlag ConnectionFlag_AccessShareHost (nd_conns n ! c)
            \<or> \<not> CheckFlag ConnectionFlag_AccessShareHost (nd_conns n ! c)))"

definition GetDataConnection :: "nat \<Rightarrow> nat \<Rightarrow> bool \<Rightarrow> ('p, 'c) Node \<Rightarrow> ('p, 'c) Node \<times> nat option" where
  "GetDataConnection e peer enableFallbackCtrl n =
     (if e = peer then (n, None)
      else
        let n = sort_data peer n in
        (n, case List.find (usable n e peer) (ep_dataConn (nd_eps n ! peer)) of
              Some c \<Rightarrow> Some c
            | None \<Rightarrow> if enableFallbackCtrl then GetCtrlConnection n e peer else None))"

definition closing :: "Connection \<Rightarrow> bool" where
  "closing c \<longleftrightarrow> cn_status c = ConnectionState_Disconnecting \<or> cn_status c = ConnectionState_Disconnected"

definition GetDataConnectionCount :: "('p, 'c) Node \<Rightarrow> nat \<Rightarrow> bool \<Rightarrow> nat" where
  "GetDataConnectionCount n e enableFallbackCtrl =
     (let count = length (filter (\<lambda>c. \<not> closing (nd_conns n ! c)) (ep_dataConn (nd_eps n ! e)))
      in if count = 0 \<and> enableFallbackCtrl then
           (case ep_ctrlConn (nd_eps n ! e) of
              None \<Rightarrow> count
            | Some c \<Rightarrow> if \<not> closing (nd_conns n ! c) then count + 1 else count)
         else count)"

text \<open>The sums of the connections' counters, on 64-bit words.\<close>

definition sum_statistic :: "(ConnectionStatistic \<Rightarrow> uint64) \<Rightarrow> ('p, 'c) Node \<Rightarrow> nat \<Rightarrow> uint64" where
  "sum_statistic f n e =
     sum_list (map (\<lambda>c. f (cn_statistic (nd_conns n ! c))) (ep_dataConn (nd_eps n ! e)))
     + (case ep_ctrlConn (nd_eps n ! e) of None \<Rightarrow> 0 | Some c \<Rightarrow> f (cn_statistic (nd_conns n ! c)))"

definition GetStatisticPushStartTimes :: "('p, 'c) Node \<Rightarrow> nat \<Rightarrow> uint64" where
  "GetStatisticPushStartTimes = sum_statistic PushStartTimes"

definition GetStatisticPushStartSize :: "('p, 'c) Node \<Rightarrow> nat \<Rightarrow> uint64" where
  "GetStatisticPushStartSize = sum_statistic PushStartSize"

definition GetStatisticPushSuccessTimes :: "('p, 'c) Node \<Rightarrow> nat \<Rightarrow> uint64" where
  "GetStatisticPushSuccessTimes = sum_statistic PushSuccessTimes"

definition GetStatisticPushSuccessSize :: "('p, 'c) Node \<Rightarrow> nat \<Rightarrow> uint64" where
  "GetStatisticPushSuccessSize = sum_statistic PushSuccessSize"

definition GetStatisticPushFailedTimes :: "('p, 'c) Node \<Rightarrow> nat \<Rightarrow> uint64" where
  "GetStatisticPushFailedTimes = sum_statistic PushFailedTimes"

definition GetStatisticPushFailedSize :: "('p, 'c) Node \<Rightarrow> nat \<Rightarrow> uint64" where
  "GetStatisticPushFailedSize = sum_statistic PushFailedSize"

definition GetStatisticPullTimes :: "('p, 'c) Node \<Rightarrow> nat \<Rightarrow> uint64" where
  "GetStatisticPullTimes = sum_statistic PullStartTimes"

definition GetStatisticPullSize :: "('p, 'c) Node \<Rightarrow> nat \<Rightarrow> uint64" where
  "GetStatisticPullSize = sum_statistic PullStartSize"

definition Endpoint_AddStatisticFault :: "Endpoint \<Rightarrow> Endpoint \<times> uint64" where
  "Endpoint_AddStatisticFault e =
     (let f = es_FaultCount (ep_stat e) + 1 in (e\<lparr>ep_stat := (ep_stat e)\<lparr>es_FaultCount := f\<rparr>\<rparr>, f))"

definition Endpoint_ClearStatisticFault :: "Endpoint \<Rightarrow> Endpoint" where
  "Endpoint_ClearStatisticFault e = e\<lparr>ep_stat := (ep_stat e)\<lparr>es_FaultCount := 0\<rparr>\<rparr>"

definition SetStatisticPingDelay :: "int \<Rightarrow> int \<Rightarrow> Endpoint \<Rightarrow> Endpoint" where
  "SetStatisticPingDelay pd pong e = e\<lparr>ep_stat := (ep_stat e)\<lparr>es_PingDelay := pd, es_LastPongTime := pong\<rparr>\<rparr>"

definition SetStatisticUnfinishedPing :: "uint64 \<Rightarrow> Endpoint \<Rightarrow> Endpoint" where
  "SetStatisticUnfinishedPing p e = e\<lparr>ep_stat := (ep_stat e)\<lparr>es_UnfinishedPing := p\<rparr>\<rparr>"

subsection \<open>What the operations leave alone\<close>

lemma upd_views [simp]:
  "nd_conns (upd_conn c f n) = (nd_conns n)[c := f (nd_conns n ! c)]" "nd_eps (upd_conn c f n) = nd_eps n"
  "nd_eps (upd_ep e g n) = (nd_eps n)[e := g (nd_eps n ! e)]" "nd_conns (upd_ep e g n) = nd_conns n"
  "nd_pingList (upd_conn c f n) = nd_pingList n" "nd_pingList (upd_ep e g n) = nd_pingList n"
  by (simp_all add: upd_conn_def upd_ep_def)

lemma log_event_views [simp]:
  "nd_conns (log_event ev n) = nd_conns n" "nd_eps (log_event ev n) = nd_eps n" "nd_pingList (log_event ev n) = nd_pingList n"
  by (simp_all add: log_event_def)

lemma gc_views [simp]:
  "nd_conns (AddEndpointGcList e n) = nd_conns n" "nd_eps (AddEndpointGcList e n) = nd_eps n"
  "nd_pingList (AddEndpointGcList e n) = nd_pingList n"
  "nd_conns (AddConnectionGcList c n) = nd_conns n" "nd_eps (AddConnectionGcList c n) = nd_eps n"
  "nd_pingList (AddConnectionGcList c n) = nd_pingList n"
  by (simp_all add: AddEndpointGcList_def AddConnectionGcList_def)

lemma shutdown_views [simp]:
  "nd_conns (fst (Shutdown h r n)) = nd_conns n" "nd_eps (fst (Shutdown h r n)) = nd_eps n"
  "nd_pingList (fst (Shutdown h r n)) = nd_pingList n"
  "nd_conns (fst (FatalShutdown r n)) = nd_conns n" "nd_eps (fst (FatalShutdown r n)) = nd_eps n"
  "nd_pingList (fst (FatalShutdown r n)) = nd_pingList n"
  by (simp_all add: FatalShutdown_def Shutdown_def OnShutdown_def)

lemma OnDisconnect_views [simp]:
  "nd_conns (OnDisconnect e c n) = nd_conns n" "nd_eps (OnDisconnect e c n) = nd_eps n" "nd_pingList (OnDisconnect e c n) = nd_pingList n"
  by (simp_all add: OnDisconnect_def Let_def setState_def)

lemma removeConnectionTimer_views [simp]:
  "nd_conns (removeConnectionTimer C c n) = nd_conns n" "nd_eps (removeConnectionTimer C c n) = nd_eps n"
  "nd_pingList (removeConnectionTimer C c n) = nd_pingList n"
  by (simp_all add: removeConnectionTimer_def Let_def split: option.split)

lemma ping_timer_views [simp]:
  "nd_conns (ClearPingTimer P e n) = nd_conns n" "length (nd_eps (ClearPingTimer P e n)) = length (nd_eps n)"
  "nd_conns (AddPingTimer P e n) = nd_conns n" "length (nd_eps (AddPingTimer P e n)) = length (nd_eps n)"
  by (simp_all add: ClearPingTimer_def AddPingTimer_def addPingTimer_def removePingTimer_def Let_def)

subsection \<open>Resetting\<close>

text \<open>
  \<open>detached\<close> is a connection after its endpoint let go of it: unbound, and reset unless it is already
  being reset. \<open>attached\<close> are the connections of an endpoint.
\<close>

definition cleared :: "Connection \<Rightarrow> Connection" where
  "cleared c = c\<lparr>cn_binding := None, cn_flags := 0, cn_statistic := zero_ConnectionStatistic\<rparr>"

definition detached :: "Connection \<Rightarrow> Connection" where
  "detached c = (if CheckFlag ConnectionFlag_Resetting c then setBinding None c else cleared c)"

definition attached :: "Endpoint \<Rightarrow> nat list" where
  "attached e = (case ep_ctrlConn e of None \<Rightarrow> [] | Some c \<Rightarrow> [c]) @ ep_dataConn e"

definition empty_ep :: "Endpoint \<Rightarrow> Endpoint" where
  "empty_ep e = e\<lparr>ep_ctrlConn := None, ep_dataConn := [], ep_listenAddress := [], ep_flags := 0\<rparr>"

lemma flag_lemmas [simp]:
  "CheckFlag ConnectionFlag_Resetting (Connection_setFlag ConnectionFlag_Resetting v c) = v"
  "Endpoint_GetFlag EndpointFlag_Resetting (Endpoint_setFlag EndpointFlag_Resetting v e) = v"
  "Endpoint_GetFlag EndpointFlag_HasPingTimer (Endpoint_setFlag EndpointFlag_Resetting v e) = Endpoint_GetFlag EndpointFlag_HasPingTimer e"
  "CheckFlag f (setBinding b c) = CheckFlag f c"
  "Endpoint_GetFlag f (e\<lparr>ep_ctrlConn := x, ep_dataConn := y, ep_listenAddress := z\<rparr>) = Endpoint_GetFlag f e"
  "Endpoint_GetFlag f (e\<lparr>ep_dataConn := y\<rparr>) = Endpoint_GetFlag f e" "Endpoint_GetFlag f (e\<lparr>ep_ctrlConn := x\<rparr>) = Endpoint_GetFlag f e"
  "\<not> CheckFlag f (cleared c)" "\<not> Endpoint_GetFlag f (empty_ep e)"
  by (simp_all add: CheckFlag_def Connection_setFlag_def Endpoint_GetFlag_def Endpoint_setFlag_def setBinding_def cleared_def
      empty_ep_def ConnectionFlag_Resetting_def EndpointFlag_Resetting_def EndpointFlag_HasPingTimer_def has_flag_put_other)

lemma detached_idem [simp]: "detached (detached c) = detached c"
  by (simp add: detached_def) (simp add: setBinding_def cleared_def)

lemma lru_Get_Put: "lru_laws L \<Longrightarrow> lru_Get L k' (lru_Put L k v m) = (if k' = k then Some v else lru_Get L k' m)"
  unfolding lru_laws_def by blast

lemma lru_Get_Delete: "lru_laws L \<Longrightarrow> lru_Get L k' (lru_Delete L k m) = (if k' = k then None else lru_Get L k' m)"
  unfolding lru_laws_def by blast

lemma Connection_Reset_unbound:
  assumes "c < length (nd_conns n)" and "cn_binding (nd_conns n ! c) = None"
  obtains n' where "Connection_Reset P C (Suc d) c n = Some n'" and "nd_eps n' = nd_eps n" and "nd_pingList n' = nd_pingList n"
    and "nd_conns n' = (nd_conns n)[c := detached (nd_conns n ! c)]"
proof (cases "CheckFlag ConnectionFlag_Resetting (nd_conns n ! c)")
  case True
  with assms have "detached (nd_conns n ! c) = nd_conns n ! c" by (simp add: detached_def setBinding_def)
  with True that [of n] show ?thesis by (simp add: Connection_Reset.simps)
next
  case False
  let ?n = "AddConnectionGcList c (removeConnectionTimer C c (upd_conn c (Connection_setFlag ConnectionFlag_Resetting True) n))"
  let ?n' = "OnDisconnect None c (upd_conn c (\<lambda>cn. cn\<lparr>cn_flags := 0, cn_statistic := zero_ConnectionStatistic\<rparr>) ?n)"
  have "nd_conns ?n' = (nd_conns n)[c := detached (nd_conns n ! c)]"
    using False assms by (cases "nd_conns n ! c") (simp add: detached_def cleared_def Connection_setFlag_def)
  moreover have "Connection_Reset P C (Suc d) c n = Some ?n'"
    using False assms by (simp add: Connection_Reset.simps Let_def Connection_setFlag_def)
  ultimately show ?thesis by (intro that [of ?n']) simp_all
qed

lemma list_update_detached:
  "c < length xs \<Longrightarrow> (map (\<lambda>i. if i \<in> A then detached (xs ! i) else xs ! i) [0..<length xs])[c := detached (xs ! c)]
     = map (\<lambda>i. if i \<in> insert c A then detached (xs ! i) else xs ! i) [0..<length xs]"
  by (rule nth_equalityI) (auto simp: nth_list_update)

lemma fold_reset_detaches:
  assumes "set cs \<subseteq> {..<length (nd_conns n)}"
  obtains n' where "fold_reset (Connection_Reset P C (Suc d)) cs n = Some n'" and "nd_eps n' = nd_eps n" and "nd_pingList n' = nd_pingList n"
    and "nd_conns n' = map (\<lambda>i. if i \<in> set cs then detached (nd_conns n ! i) else nd_conns n ! i) [0..<length (nd_conns n)]"
proof -
  have "\<exists>n'. fold_reset (Connection_Reset P C (Suc d)) cs n = Some n' \<and> nd_eps n' = nd_eps n \<and> nd_pingList n' = nd_pingList n
    \<and> nd_conns n' = map (\<lambda>i. if i \<in> set cs then detached (nd_conns n ! i) else nd_conns n ! i) [0..<length (nd_conns n)]"
    using assms
  proof (induction cs arbitrary: n)
    case Nil
    then show ?case by (simp add: map_nth)
  next
    case (Cons c cs)
    let ?n = "upd_conn c (setBinding None) n"
    have c: "c < length (nd_conns n)" using Cons.prems by simp
    have "c < length (nd_conns ?n)" "cn_binding (nd_conns ?n ! c) = None" using c by (simp_all add: setBinding_def)
    then obtain n1 where n1: "Connection_Reset P C (Suc d) c ?n = Some n1" "nd_eps n1 = nd_eps ?n" "nd_pingList n1 = nd_pingList ?n"
      "nd_conns n1 = (nd_conns ?n)[c := detached (nd_conns ?n ! c)]" by (rule Connection_Reset_unbound)
    have "detached (setBinding None (nd_conns n ! c)) = detached (nd_conns n ! c)"
      by (simp add: detached_def) (simp add: setBinding_def cleared_def)
    then have conns: "nd_conns n1 = (nd_conns n)[c := detached (nd_conns n ! c)]" using n1(4) c by simp
    from Cons.IH [of n1] Cons.prems conns obtain n' where
      "fold_reset (Connection_Reset P C (Suc d)) cs n1 = Some n'" "nd_eps n' = nd_eps n1" "nd_pingList n' = nd_pingList n1"
      "nd_conns n' = map (\<lambda>i. if i \<in> set cs then detached (nd_conns n1 ! i) else nd_conns n1 ! i) [0..<length (nd_conns n1)]" by auto
    moreover from this(4) have "nd_conns n' = map (\<lambda>i. if i \<in> set (c # cs) then detached (nd_conns n ! i) else nd_conns n ! i) [0..<length (nd_conns n)]"
      using c conns by (auto intro!: nth_equalityI simp: nth_list_update)
    ultimately show ?case using n1 by (simp add: Let_def)
  qed
  then show ?thesis using that by blast
qed

text \<open>What \<open>Endpoint.Reset\<close> does, whatever recursion depth above two is left.\<close>

definition ping_cleared :: "'p ping_ops \<Rightarrow> nat \<Rightarrow> ('p, 'c) Node \<Rightarrow> 'p" where
  "ping_cleared P e n =
     (if Endpoint_GetFlag EndpointFlag_HasPingTimer (nd_eps n ! e) then lru_Delete P e (nd_pingList n) else nd_pingList n)"

lemma Endpoint_Reset_effect:
  assumes "e < length (nd_eps n)" and "set (attached (nd_eps n ! e)) \<subseteq> {..<length (nd_conns n)}"
    and "\<not> Endpoint_GetFlag EndpointFlag_Resetting (nd_eps n ! e)"
  obtains n' where "Endpoint_Reset P C (Suc (Suc d)) e n = Some n'" and "nd_eps n' = (nd_eps n)[e := empty_ep (nd_eps n ! e)]"
    and "nd_conns n' = map (\<lambda>i. if i \<in> set (attached (nd_eps n ! e)) then detached (nd_conns n ! i) else nd_conns n ! i) [0..<length (nd_conns n)]"
    and "nd_pingList n' = ping_cleared P e n"
proof -
  let ?ep = "nd_eps n ! e" let ?ctrl = "ep_ctrlConn ?ep" let ?data = "ep_dataConn ?ep"
  let ?n1 = "upd_ep e (\<lambda>ep. ep\<lparr>ep_ctrlConn := None, ep_dataConn := [], ep_listenAddress := []\<rparr>) (upd_ep e (Endpoint_setFlag EndpointFlag_Resetting True) n)"
  let ?cs = "attached ?ep"
  have "(case ?ctrl of None \<Rightarrow> Some ?n1 | Some c \<Rightarrow> Connection_Reset P C (Suc d) c (upd_conn c (setBinding None) ?n1))
      = fold_reset (Connection_Reset P C (Suc d)) (case ?ctrl of None \<Rightarrow> [] | Some c \<Rightarrow> [c]) ?n1"
    by (simp split: option.split)
  then have run: "(case (case ?ctrl of None \<Rightarrow> Some ?n1 | Some c \<Rightarrow> Connection_Reset P C (Suc d) c (upd_conn c (setBinding None) ?n1)) of
      None \<Rightarrow> None | Some n \<Rightarrow> fold_reset (Connection_Reset P C (Suc d)) ?data n) = fold_reset (Connection_Reset P C (Suc d)) ?cs ?n1"
    by (cases ?ctrl) (simp_all add: attached_def)
  have "set ?cs \<subseteq> {..<length (nd_conns ?n1)}" using assms(2) by simp
  then obtain n2 where n2: "fold_reset (Connection_Reset P C (Suc d)) ?cs ?n1 = Some n2" "nd_eps n2 = nd_eps ?n1"
    "nd_pingList n2 = nd_pingList ?n1"
    "nd_conns n2 = map (\<lambda>i. if i \<in> set ?cs then detached (nd_conns ?n1 ! i) else nd_conns ?n1 ! i) [0..<length (nd_conns ?n1)]"
    by (rule fold_reset_detaches)
  let ?n' = "upd_ep e (\<lambda>ep. ep\<lparr>ep_flags := 0\<rparr>) (AddEndpointGcList e (ClearPingTimer P e n2))"
  show ?thesis
  proof (rule that [of ?n'])
    show "Endpoint_Reset P C (Suc (Suc d)) e n = Some ?n'"
      using assms(1,3) run n2(1) unfolding Endpoint_Reset.simps Let_def
      by (cases ?ctrl) (auto simp: Endpoint_setFlag_def split: option.splits)
    show "nd_eps ?n' = (nd_eps n)[e := empty_ep (nd_eps n ! e)]"
      using assms(1) n2(2) by (simp add: ClearPingTimer_def removePingTimer_def empty_ep_def Endpoint_SetFlag_def Endpoint_setFlag_def)
    show "nd_conns ?n' = map (\<lambda>i. if i \<in> set ?cs then detached (nd_conns n ! i) else nd_conns n ! i) [0..<length (nd_conns n)]"
      using n2(4) by simp
    show "nd_pingList ?n' = ping_cleared P e n"
      using assms(1) n2(2,3) by (simp add: ClearPingTimer_def removePingTimer_def ping_cleared_def)
  qed
qed

subsection \<open>Bindings\<close>

text \<open>
  Which endpoint each connection is bound to, and which connections each endpoint has, agree: \<open>bs\<close> are
  the bindings of the connections, \<open>as\<close> the connections of the endpoints.
\<close>

definition bindings_agree :: "nat option list \<Rightarrow> nat list list \<Rightarrow> bool" where
  "bindings_agree bs as \<longleftrightarrow>
     (\<forall>e<length as. distinct (as ! e) \<and> set (as ! e) \<subseteq> {..<length bs})
   \<and> (\<forall>c<length bs. case bs ! c of None \<Rightarrow> True | Some e \<Rightarrow> e < length as)
   \<and> (\<forall>e<length as. \<forall>c<length bs. c \<in> set (as ! e) \<longleftrightarrow> bs ! c = Some e)"

definition bind_inv :: "('p, 'c) Node \<Rightarrow> bool" where
  "bind_inv n = bindings_agree (map cn_binding (nd_conns n)) (map attached (nd_eps n))"

definition quiet :: "('p, 'c) Node \<Rightarrow> bool" where
  "quiet n \<longleftrightarrow> list_all (\<lambda>c. \<not> CheckFlag ConnectionFlag_Resetting c) (nd_conns n)
     \<and> list_all (\<lambda>e. \<not> Endpoint_GetFlag EndpointFlag_Resetting e) (nd_eps n)"

lemma bindings_agree_release:
  assumes "bindings_agree bs as" and "e < length as"
  shows "bindings_agree (map (\<lambda>i. if i \<in> set (as ! e) then None else bs ! i) [0..<length bs]) (as[e := []])"
  using assms by (auto simp: bindings_agree_def nth_list_update split: option.splits)

lemma bindings_agree_drop:
  assumes "bindings_agree bs as" and "c < length bs" and "bs ! c = Some e"
  shows "bindings_agree (bs[c := None]) (as[e := remove1 c (as ! e)])"
  using assms by (auto simp: bindings_agree_def nth_list_update dest: set_remove1_subset [THEN subsetD] split: option.splits)

lemma bindings_agree_add:
  assumes "bindings_agree bs as" and "c < length bs" and "e < length as" and "bs ! c = None"
    and "set xs = insert c (set (as ! e))" and "distinct xs"
  shows "bindings_agree (bs[c := Some e]) (as[e := xs])"
  using assms by (auto simp: bindings_agree_def nth_list_update split: option.splits)

lemma bind_inv_attached:
  assumes "bind_inv n" and "e < length (nd_eps n)"
  shows "distinct (attached (nd_eps n ! e))" "set (attached (nd_eps n ! e)) \<subseteq> {..<length (nd_conns n)}"
    "c < length (nd_conns n) \<Longrightarrow> c \<in> set (attached (nd_eps n ! e)) \<longleftrightarrow> cn_binding (nd_conns n ! c) = Some e"
  using assms by (auto simp: bind_inv_def bindings_agree_def split: option.splits)

lemma bind_inv_bound: "bind_inv n \<Longrightarrow> c < length (nd_conns n) \<Longrightarrow> cn_binding (nd_conns n ! c) = Some e \<Longrightarrow> e < length (nd_eps n)"
  unfolding bind_inv_def bindings_agree_def by (auto dest!: spec [of _ c])

lemma attached_empty [simp]: "attached (empty_ep ep) = []"
  by (simp add: attached_def empty_ep_def)

lemma detached_unbound [simp]: "cn_binding (detached c) = None" "cn_binding (cleared c) = None" "cn_binding (setBinding b c) = b"
  by (simp_all add: detached_def cleared_def setBinding_def)

lemma bind_inv_released:
  assumes "bind_inv n" and "e < length (nd_eps n)" and "nd_eps n' = (nd_eps n)[e := ep]" and "attached ep = []"
    and "map cn_binding (nd_conns n') = map (\<lambda>i. if i \<in> set (attached (nd_eps n ! e)) then None else cn_binding (nd_conns n ! i)) [0..<length (nd_conns n)]"
  shows "bind_inv n'"
proof -
  have "map (\<lambda>i. if i \<in> set (map attached (nd_eps n) ! e) then None else map cn_binding (nd_conns n) ! i) [0..<length (map cn_binding (nd_conns n))]
      = map cn_binding (nd_conns n')"
    using assms(2) by (simp add: assms(5))
  then have "bindings_agree (map cn_binding (nd_conns n')) ((map attached (nd_eps n))[e := []])"
    using bindings_agree_release [OF assms(1) [unfolded bind_inv_def], of e] assms(2) by simp
  then show ?thesis using assms(3,4) by (simp add: bind_inv_def map_update)
qed

text \<open>An endpoint is given up together with a connection that is its control connection or its last data connection.\<close>

definition gives_up :: "('p, 'c) Node \<Rightarrow> nat \<Rightarrow> nat \<Rightarrow> bool" where
  "gives_up n e c \<longleftrightarrow> ep_ctrlConn (nd_eps n ! e) = Some c \<or> ep_dataConn (nd_eps n ! e) = [c]"

lemma remove1_last: "distinct xs \<Longrightarrow> c \<in> set xs \<Longrightarrow> remove1 c xs = [] \<longleftrightarrow> xs = [c]"
  by (cases xs) (auto split: if_splits)

lemma RemoveConnection_effect:
  assumes "bind_inv n" and "c < length (nd_conns n)" and "cn_binding (nd_conns n ! c) = Some e"
    and "\<not> Endpoint_GetFlag EndpointFlag_Resetting (nd_eps n ! e)"
    and "CheckFlag ConnectionFlag_Resetting (nd_conns n ! c)"
  obtains n' where "RemoveConnection P C (Suc (Suc (Suc d))) e c n = Some (n', True)"
    and "nd_eps n' = (if gives_up n e c then (nd_eps n)[e := empty_ep (nd_eps n ! e)]
           else (nd_eps n)[e := (nd_eps n ! e)\<lparr>ep_dataConn := remove1 c (ep_dataConn (nd_eps n ! e))\<rparr>])"
    and "nd_conns n' = (if gives_up n e c
           then map (\<lambda>i. if i \<in> set (attached (nd_eps n ! e)) then detached (nd_conns n ! i) else nd_conns n ! i) [0..<length (nd_conns n)]
           else (nd_conns n)[c := setBinding None (nd_conns n ! c)])"
    and "nd_pingList n' = (if gives_up n e c then ping_cleared P e n else nd_pingList n)"
proof -
  let ?ep = "nd_eps n ! e"
  have e: "e < length (nd_eps n)" using assms(1-3) by (rule bind_inv_bound)
  note att = bind_inv_attached [OF assms(1) e]
  have here: "c \<in> set (attached ?ep)" using att(3) assms(2,3) by simp
  show ?thesis
  proof (cases "ep_ctrlConn ?ep = Some c")
    case True
    from Endpoint_Reset_effect [OF e att(2) assms(4), of P C d] obtain n' where
      "Endpoint_Reset P C (Suc (Suc d)) e n = Some n'" "nd_eps n' = (nd_eps n)[e := empty_ep ?ep]"
      "nd_conns n' = map (\<lambda>i. if i \<in> set (attached ?ep) then detached (nd_conns n ! i) else nd_conns n ! i) [0..<length (nd_conns n)]"
      "nd_pingList n' = ping_cleared P e n" .
    with True assms(3,4) show ?thesis by (intro that [of n']) (simp_all add: RemoveConnection.simps gives_up_def)
  next
    case False
    then have data: "c \<in> set (ep_dataConn ?ep)" "distinct (ep_dataConn ?ep)"
      using here att(1) by (auto simp: attached_def split: option.splits)
    let ?n1 = "upd_ep e (\<lambda>ep. ep\<lparr>ep_dataConn := remove1 c (ep_dataConn ep)\<rparr>) (upd_conn c (setBinding None) n)"
    show ?thesis
    proof (cases "ep_dataConn ?ep = [c]")
      case False2: False
      then have "remove1 c (ep_dataConn ?ep) \<noteq> []" using data by (simp add: remove1_last)
      with False False2 data assms(3,4) e show ?thesis
        by (intro that [of ?n1]) (simp_all add: RemoveConnection.simps gives_up_def Let_def)
    next
      case True
      let ?ep1 = "nd_eps ?n1 ! e"
      have ep1: "?ep1 = ?ep\<lparr>ep_dataConn := []\<rparr>" using e True by simp
      have sub: "set (attached ?ep1) \<subseteq> {..<length (nd_conns ?n1)}" "\<not> Endpoint_GetFlag EndpointFlag_Resetting ?ep1"
        using att(2) assms(4) unfolding ep1 by (auto simp: attached_def Endpoint_GetFlag_def)
      from Endpoint_Reset_effect [of e ?n1, OF _ sub, of P C d] e obtain n' where n':
        "Endpoint_Reset P C (Suc (Suc d)) e ?n1 = Some n'" "nd_eps n' = (nd_eps ?n1)[e := empty_ep ?ep1]"
        "nd_conns n' = map (\<lambda>i. if i \<in> set (attached ?ep1) then detached (nd_conns ?n1 ! i) else nd_conns ?n1 ! i) [0..<length (nd_conns ?n1)]"
        "nd_pingList n' = ping_cleared P e ?n1" by auto
      have keep: "detached (nd_conns n ! c) = setBinding None (nd_conns n ! c)" using assms(5) by (simp add: detached_def)
      have set1: "set (attached ?ep1) = set (attached ?ep) - {c}"
        using False True att(1) unfolding ep1 by (auto simp: attached_def split: option.splits)
      show ?thesis
      proof (rule that [of n'])
        show "RemoveConnection P C (Suc (Suc (Suc d))) e c n = Some (n', True)"
          using n'(1) False True data assms(3,4) e by (simp add: RemoveConnection.simps Let_def)
        show "nd_eps n' = (if gives_up n e c then (nd_eps n)[e := empty_ep ?ep] else (nd_eps n)[e := ?ep\<lparr>ep_dataConn := remove1 c (ep_dataConn ?ep)\<rparr>])"
          using n'(2) True ep1 e by (simp add: gives_up_def empty_ep_def)
        show "nd_pingList n' = (if gives_up n e c then ping_cleared P e n else nd_pingList n)"
          using n'(4) True e by (simp add: gives_up_def ping_cleared_def Endpoint_GetFlag_def)
        have "nd_conns n' = map (\<lambda>i. if i \<in> set (attached ?ep) then detached (nd_conns n ! i) else nd_conns n ! i) [0..<length (nd_conns n)]"
          using n'(3) [unfolded set1] here keep assms(2) by (auto intro!: nth_equalityI simp: nth_list_update)
        then show "nd_conns n' = (if gives_up n e c
            then map (\<lambda>i. if i \<in> set (attached ?ep) then detached (nd_conns n ! i) else nd_conns n ! i) [0..<length (nd_conns n)]
            else (nd_conns n)[c := setBinding None (nd_conns n ! c)])" using True by (simp add: gives_up_def)
      qed
    qed
  qed
qed

lemma quietD:
  "quiet n \<Longrightarrow> c < length (nd_conns n) \<Longrightarrow> \<not> CheckFlag ConnectionFlag_Resetting (nd_conns n ! c)"
  "quiet n \<Longrightarrow> e < length (nd_eps n) \<Longrightarrow> \<not> Endpoint_GetFlag EndpointFlag_Resetting (nd_eps n ! e)"
  by (auto simp: quiet_def list_all_length)

text \<open>What a complete reset of a connection leaves of the stores of a quiet node.\<close>

definition reset_conns :: "('p, 'c) Node \<Rightarrow> nat \<Rightarrow> Connection list" where
  "reset_conns n c = (case cn_binding (nd_conns n ! c) of
     Some e \<Rightarrow> if gives_up n e c
       then map (\<lambda>i. if i \<in> set (attached (nd_eps n ! e)) then cleared (nd_conns n ! i) else nd_conns n ! i) [0..<length (nd_conns n)]
       else (nd_conns n)[c := cleared (nd_conns n ! c)]
   | None \<Rightarrow> (nd_conns n)[c := cleared (nd_conns n ! c)])"

definition reset_eps :: "('p, 'c) Node \<Rightarrow> nat \<Rightarrow> Endpoint list" where
  "reset_eps n c = (case cn_binding (nd_conns n ! c) of
     Some e \<Rightarrow> if gives_up n e c then (nd_eps n)[e := empty_ep (nd_eps n ! e)]
       else (nd_eps n)[e := (nd_eps n ! e)\<lparr>ep_dataConn := remove1 c (ep_dataConn (nd_eps n ! e))\<rparr>]
   | None \<Rightarrow> nd_eps n)"

lemma reset_conns_eq:
  assumes "c < length xs" and "c \<in> A" and "setBinding None y\<lparr>cn_flags := 0, cn_statistic := zero_ConnectionStatistic\<rparr> = cleared (xs ! c)"
    and "detached y = setBinding None y" and "\<And>i. i < length xs \<Longrightarrow> detached (xs ! i) = cleared (xs ! i)"
  shows "(map (\<lambda>i. if i \<in> A then detached (xs[c := y] ! i) else xs[c := y] ! i) [0..<length xs])[c := (detached y)\<lparr>cn_flags := 0, cn_statistic := zero_ConnectionStatistic\<rparr>]
    = map (\<lambda>i. if i \<in> A then cleared (xs ! i) else xs ! i) [0..<length xs]"
  using assms by (auto intro!: nth_equalityI simp: nth_list_update)

lemma Connection_Reset_effect:
  assumes "bind_inv n" and "quiet n" and "c < length (nd_conns n)"
  obtains n' where "Connection_Reset P C (Suc (Suc (Suc (Suc d)))) c n = Some n'" and "nd_conns n' = reset_conns n c" and "nd_eps n' = reset_eps n c"
proof (cases "cn_binding (nd_conns n ! c)")
  case None
  obtain n' where n': "Connection_Reset P C (Suc (Suc (Suc (Suc d)))) c n = Some n'" "nd_eps n' = nd_eps n"
    "nd_pingList n' = nd_pingList n" "nd_conns n' = (nd_conns n)[c := detached (nd_conns n ! c)]"
    by (rule Connection_Reset_unbound [OF assms(3) None])
  have "detached (nd_conns n ! c) = cleared (nd_conns n ! c)" using quietD(1) [OF assms(2,3)] by (simp add: detached_def)
  with n' None show ?thesis by (intro that [of n']) (simp_all add: reset_conns_def reset_eps_def)
next
  case (Some e)
  let ?n1 = "removeConnectionTimer C c (upd_conn c (Connection_setFlag ConnectionFlag_Resetting True) n)"
  let ?c1 = "Connection_setFlag ConnectionFlag_Resetting True (nd_conns n ! c)"
  have conns1: "nd_conns ?n1 = (nd_conns n)[c := ?c1]" and eps1: "nd_eps ?n1 = nd_eps n" by simp_all
  have bindings: "map cn_binding (nd_conns ?n1) = map cn_binding (nd_conns n)"
    using assms(3) by (auto intro!: nth_equalityI simp: Connection_setFlag_def nth_list_update)
  have inv: "bind_inv ?n1" using assms(1) unfolding bind_inv_def bindings eps1 .
  have e: "e < length (nd_eps n)" using bind_inv_bound [OF assms(1,3) Some] .
  have bound: "cn_binding (nd_conns ?n1 ! c) = Some e" using Some assms(3) by (simp add: Connection_setFlag_def)
  have pre: "c < length (nd_conns ?n1)" "\<not> Endpoint_GetFlag EndpointFlag_Resetting (nd_eps ?n1 ! e)"
    "CheckFlag ConnectionFlag_Resetting (nd_conns ?n1 ! c)" using quietD(2) [OF assms(2) e] assms(3) by simp_all
  have gu: "gives_up ?n1 e c = gives_up n e c" by (simp add: gives_up_def)
  obtain n2 where n2: "RemoveConnection P C (Suc (Suc (Suc d))) e c ?n1 = Some (n2, True)"
    "nd_eps n2 = (if gives_up n e c then (nd_eps n)[e := empty_ep (nd_eps n ! e)]
       else (nd_eps n)[e := (nd_eps n ! e)\<lparr>ep_dataConn := remove1 c (ep_dataConn (nd_eps n ! e))\<rparr>])"
    "nd_conns n2 = (if gives_up n e c
       then map (\<lambda>i. if i \<in> set (attached (nd_eps n ! e)) then detached ((nd_conns n)[c := ?c1] ! i) else (nd_conns n)[c := ?c1] ! i) [0..<length (nd_conns n)]
       else (nd_conns n)[c := setBinding None ?c1])"
    using RemoveConnection_effect [OF inv pre(1) bound pre(2,3), of P C d thesis] assms(3)
    unfolding gu conns1 eps1 by simp
  let ?n' = "OnDisconnect (Some e) c (upd_conn c (\<lambda>cn. cn\<lparr>cn_flags := 0, cn_statistic := zero_ConnectionStatistic\<rparr>) (AddConnectionGcList c n2))"
  have clr: "setBinding None ?c1\<lparr>cn_flags := 0, cn_statistic := zero_ConnectionStatistic\<rparr> = cleared (nd_conns n ! c)"
    by (simp add: setBinding_def cleared_def Connection_setFlag_def)
  have det: "detached ?c1 = setBinding None ?c1" by (simp add: detached_def)
  have other: "detached (nd_conns n ! i) = cleared (nd_conns n ! i)" if "i < length (nd_conns n)" for i
    using quietD(1) [OF assms(2) that] by (simp add: detached_def)
  have here: "c \<in> set (attached (nd_eps n ! e))" using bind_inv_attached(3) [OF assms(1) e assms(3)] Some by simp
  have cs: "nd_conns ?n' = reset_conns n c"
  proof (cases "gives_up n e c")
    case True
    then show ?thesis using n2(3) reset_conns_eq [OF assms(3) here clr det other] Some here assms(3) by (simp add: reset_conns_def)
  next
    case False
    then show ?thesis using n2(3) clr Some assms(3) by (simp add: reset_conns_def)
  qed
  show ?thesis
  proof (rule that [of ?n'])
    show "Connection_Reset P C (Suc (Suc (Suc (Suc d)))) c n = Some ?n'"
      using quietD(1) [OF assms(2,3)] assms(3) Some n2(1) by (simp add: Connection_Reset.simps Let_def Connection_setFlag_def)
    show "nd_eps ?n' = reset_eps n c" using n2(2) Some by (simp add: reset_eps_def)
  qed (rule cs)
qed

lemma bind_inv_dropped:
  assumes "bind_inv n" and "c < length (nd_conns n)" and "cn_binding (nd_conns n ! c) = Some e" and "\<not> gives_up n e c"
    and "nd_conns n' = (nd_conns n)[c := cleared (nd_conns n ! c)]"
    and "nd_eps n' = (nd_eps n)[e := (nd_eps n ! e)\<lparr>ep_dataConn := remove1 c (ep_dataConn (nd_eps n ! e))\<rparr>]"
  shows "bind_inv n'"
proof -
  have e: "e < length (nd_eps n)" using bind_inv_bound [OF assms(1-3)] .
  have "c \<in> set (attached (nd_eps n ! e))" using bind_inv_attached(3) [OF assms(1) e assms(2)] assms(3) by simp
  then have "attached ((nd_eps n ! e)\<lparr>ep_dataConn := remove1 c (ep_dataConn (nd_eps n ! e))\<rparr>) = remove1 c (attached (nd_eps n ! e))"
    using assms(4) by (auto simp: attached_def gives_up_def remove1_append split: option.splits)
  then show ?thesis
    using bindings_agree_drop [OF assms(1) [unfolded bind_inv_def], of c e] assms(2,3) e
    by (simp add: bind_inv_def assms(5,6) map_update)
qed

lemma list_all_update: "list_all P xs \<Longrightarrow> P x \<Longrightarrow> list_all P (xs[i := x])"
  by (auto simp: list_all_iff dest: set_update_subset_insert [THEN subsetD])

lemma reset_keeps:
  assumes "bind_inv n" and "quiet n" and "c < length (nd_conns n)" and "nd_conns n' = reset_conns n c" and "nd_eps n' = reset_eps n c"
  shows "bind_inv n'" "quiet n'"
proof -
  show "bind_inv n'"
  proof (cases "cn_binding (nd_conns n ! c)")
    case None
    then have "map cn_binding (nd_conns n') = map cn_binding (nd_conns n)"
      using assms(3,4) by (auto intro!: nth_equalityI simp: reset_conns_def nth_list_update)
    with assms(1,5) None show ?thesis by (simp add: bind_inv_def reset_eps_def)
  next
    case (Some e)
    have e: "e < length (nd_eps n)" using bind_inv_bound [OF assms(1,3) Some] .
    show ?thesis
    proof (cases "gives_up n e c")
      case True
      with assms(4,5) Some show ?thesis
        by (intro bind_inv_released [OF assms(1) e, of n' "empty_ep (nd_eps n ! e)"]) (simp_all add: reset_conns_def reset_eps_def)
    next
      case False
      with bind_inv_dropped [OF assms(1,3) Some False] assms(4,5) Some show ?thesis by (simp add: reset_conns_def reset_eps_def)
    qed
  qed
  show "quiet n'"
  proof -
    have conns: "list_all (\<lambda>c. \<not> CheckFlag ConnectionFlag_Resetting c) (reset_conns n c)"
      using assms(2) unfolding quiet_def reset_conns_def
      by (simp split: option.split add: list_all_update) (simp add: list_all_length)
    have "list_all (\<lambda>e. \<not> Endpoint_GetFlag EndpointFlag_Resetting e) (reset_eps n c)"
      using assms(2) bind_inv_bound [OF assms(1,3)] quietD(2) [OF assms(2)] unfolding quiet_def reset_eps_def
      by (auto intro!: list_all_update split: option.split)
    with conns show ?thesis unfolding quiet_def assms(4,5) by blast
  qed
qed

lemma AddConnection_status [simp]:
  "cn_binding (setStatus s c) = cn_binding c" "CheckFlag f (setStatus s c) = CheckFlag f c"
  "setStatus s (setBinding b c) = setBinding b (setStatus s c)" "cn_status (setBinding b c) = cn_status c"
  by (cases c, simp_all add: setStatus_def setBinding_def CheckFlag_def)

lemma map_binding_update:
  "cn_binding x = cn_binding (xs ! c) \<Longrightarrow> map cn_binding (xs[c := x]) = map cn_binding xs"
  by (simp add: map_update list_update_same_conv) (metis list_update_beyond list_update_id map_update not_le)

lemma AddConnection_keeps:
  assumes "bind_inv n" and "quiet n" and "e < length (nd_eps n)" and "c < length (nd_conns n)"
  shows "bind_inv (fst (AddConnection e c forceData n))" "quiet (fst (AddConnection e c forceData n))"
proof -
  let ?ep = "nd_eps n ! e" let ?cn = "nd_conns n ! c" let ?n' = "fst (AddConnection e c forceData n)"
  have nr: "\<not> Endpoint_GetFlag EndpointFlag_Resetting ?ep" using quietD(2) [OF assms(2,3)] .
  let ?cn' = "if cn_status ?cn = ConnectionState_Handshaking then setStatus ConnectionState_Connected ?cn else ?cn"
  let ?ep' = "if forceData \<or> ep_ctrlConn ?ep \<noteq> None
    then Endpoint_setFlag EndpointFlag_ConnectionSorted False (?ep\<lparr>ep_dataConn := ep_dataConn ?ep @ [c]\<rparr>) else ?ep\<lparr>ep_ctrlConn := Some c\<rparr>"
  consider (same) "cn_binding ?cn = Some e" | (other) "cn_binding ?cn \<noteq> None" "cn_binding ?cn \<noteq> Some e" | (free) "cn_binding ?cn = None" by blast
  then have "bind_inv ?n' \<and> quiet ?n'"
  proof cases
    case same
    then have "nd_conns ?n' = (nd_conns n)[c := ?cn']" "nd_eps ?n' = nd_eps n"
      using nr assms(4) by (simp_all add: AddConnection_def)
    with assms quietD(1) [OF assms(2,4)] show ?thesis
      by (auto simp: bind_inv_def quiet_def map_binding_update intro!: list_all_update)
  next
    case other
    then show ?thesis using nr assms by (simp add: AddConnection_def)
  next
    case free
    have eps: "nd_eps ?n' = (nd_eps n)[e := ?ep']" using nr free assms(3,4) by (simp add: AddConnection_def Let_def setBinding_def)
    have conns: "nd_conns ?n' = (nd_conns n)[c := setBinding (Some e) ?cn']"
      using nr free assms(4) by (simp add: AddConnection_def Let_def)
    have new: "c \<notin> set (attached ?ep)" using bind_inv_attached(3) [OF assms(1,3,4)] free by simp
    have att: "set (attached ?ep') = insert c (set (attached ?ep))" "distinct (attached ?ep')"
      using new bind_inv_attached(1) [OF assms(1,3)] by (auto simp: attached_def Endpoint_setFlag_def split: option.splits)
    have "bind_inv ?n'"
      using bindings_agree_add [OF assms(1) [unfolded bind_inv_def], of c e "attached ?ep'"] att free assms(3,4)
      unfolding bind_inv_def eps conns by (simp add: map_update)
    moreover have "Endpoint_GetFlag EndpointFlag_Resetting ?ep' = Endpoint_GetFlag EndpointFlag_Resetting ?ep"
      by (simp add: Endpoint_GetFlag_def Endpoint_setFlag_def has_flag_put_other EndpointFlag_Resetting_def EndpointFlag_ConnectionSorted_def)
    then have "quiet ?n'"
      using assms(2) nr quietD(1) [OF assms(2,4)] unfolding quiet_def eps conns by (intro conjI list_all_update) auto
    ultimately show ?thesis by blast
  qed
  then show "bind_inv ?n'" "quiet ?n'" by blast+
qed

subsection \<open>Properties\<close>

lemma depth_four: "4 \<le> d \<Longrightarrow> \<exists>d'. d = Suc (Suc (Suc (Suc d')))"
  by (rule exI [of _ "d - 4"]) arith

lemma depth_two: "2 \<le> d \<Longrightarrow> \<exists>d'. d = Suc (Suc d')"
  by (rule exI [of _ "d - 2"]) arith

lemma Connection_Reset_keeps:
  assumes "bind_inv n" and "quiet n" and "c < length (nd_conns n)" and "4 \<le> d"
  obtains n' where "Connection_Reset P C d c n = Some n'" and "nd_conns n' = reset_conns n c" and "nd_eps n' = reset_eps n c"
    and "bind_inv n'" and "quiet n'"
proof -
  from depth_four [OF assms(4)] obtain d' where d: "d = Suc (Suc (Suc (Suc d')))" by blast
  obtain n' where n': "Connection_Reset P C d c n = Some n'" "nd_conns n' = reset_conns n c" "nd_eps n' = reset_eps n c"
    unfolding d using assms(1-3) by (rule Connection_Reset_effect)
  with reset_keeps [OF assms(1-3) n'(2,3)] show ?thesis using that by blast
qed

text \<open>C19: resetting a connection always returns, although it may reset its endpoint, which resets its connections, and
  so on: a recursion depth of four is enough. Afterwards the connection is unbound, without flags and
  statistics; its endpoint has been given up, with all its connections reset, exactly when it lost its
  control connection or its last data connection; otherwise only this connection is gone. All other
  connections and endpoints are as before, and bindings agree again.\<close>

theorem Connection_Reset_releases:
  assumes "bind_inv n" and "quiet n" and "c < length (nd_conns n)" and "4 \<le> d"
  shows "\<exists>n'. Connection_Reset P C d c n = Some n' \<and> bind_inv n' \<and> quiet n'
    \<and> nd_conns n' ! c = cleared (nd_conns n ! c)
    \<and> (\<forall>i<length (nd_conns n). i \<noteq> c \<longrightarrow> nd_conns n' ! i =
         (if \<exists>e. cn_binding (nd_conns n ! c) = Some e \<and> gives_up n e c \<and> cn_binding (nd_conns n ! i) = Some e
          then cleared (nd_conns n ! i) else nd_conns n ! i))
    \<and> (\<forall>e<length (nd_eps n). nd_eps n' ! e =
         (if cn_binding (nd_conns n ! c) \<noteq> Some e then nd_eps n ! e
          else if gives_up n e c then empty_ep (nd_eps n ! e)
          else (nd_eps n ! e)\<lparr>ep_dataConn := remove1 c (ep_dataConn (nd_eps n ! e))\<rparr>))"
proof -
  obtain n' where n': "Connection_Reset P C d c n = Some n'" "nd_conns n' = reset_conns n c" "nd_eps n' = reset_eps n c"
    "bind_inv n'" "quiet n'" using assms by (rule Connection_Reset_keeps)
  have att: "i \<in> set (attached (nd_eps n ! e)) \<longleftrightarrow> cn_binding (nd_conns n ! i) = Some e"
    if "cn_binding (nd_conns n ! c) = Some e" "i < length (nd_conns n)" for e i
    using bind_inv_attached(3) [OF assms(1) bind_inv_bound [OF assms(1,3) that(1)] that(2)] .
  have "nd_conns n' ! c = cleared (nd_conns n ! c)"
    using assms(3) att unfolding n'(2) reset_conns_def by (auto split: option.split)
  moreover have "\<forall>i<length (nd_conns n). i \<noteq> c \<longrightarrow> nd_conns n' ! i =
      (if \<exists>e. cn_binding (nd_conns n ! c) = Some e \<and> gives_up n e c \<and> cn_binding (nd_conns n ! i) = Some e
       then cleared (nd_conns n ! i) else nd_conns n ! i)"
    using assms(3) att unfolding n'(2) reset_conns_def by (auto split: option.split)
  moreover have "\<forall>e<length (nd_eps n). nd_eps n' ! e =
      (if cn_binding (nd_conns n ! c) \<noteq> Some e then nd_eps n ! e
       else if gives_up n e c then empty_ep (nd_eps n ! e)
       else (nd_eps n ! e)\<lparr>ep_dataConn := remove1 c (ep_dataConn (nd_eps n ! e))\<rparr>)"
    unfolding n'(3) reset_eps_def by (auto simp: nth_list_update split: option.split)
  ultimately show ?thesis using n' by blast
qed

lemma Endpoint_Reset_keeps:
  assumes "bind_inv n" and "quiet n" and "e < length (nd_eps n)" and "2 \<le> d"
  obtains n' where "Endpoint_Reset P C d e n = Some n'" and "bind_inv n'" and "quiet n'"
    and "nd_eps n' = (nd_eps n)[e := empty_ep (nd_eps n ! e)]"
    and "nd_conns n' = map (\<lambda>i. if i \<in> set (attached (nd_eps n ! e)) then cleared (nd_conns n ! i) else nd_conns n ! i) [0..<length (nd_conns n)]"
    and "nd_pingList n' = ping_cleared P e n"
proof -
  from depth_two [OF assms(4)] obtain d' where d: "d = Suc (Suc d')" by blast
  obtain n' where n': "Endpoint_Reset P C d e n = Some n'" "nd_eps n' = (nd_eps n)[e := empty_ep (nd_eps n ! e)]"
    "nd_conns n' = map (\<lambda>i. if i \<in> set (attached (nd_eps n ! e)) then detached (nd_conns n ! i) else nd_conns n ! i) [0..<length (nd_conns n)]"
    "nd_pingList n' = ping_cleared P e n"
    unfolding d by (rule Endpoint_Reset_effect [OF assms(3) bind_inv_attached(2) [OF assms(1,3)] quietD(2) [OF assms(2,3)]])
  have conns: "nd_conns n' = map (\<lambda>i. if i \<in> set (attached (nd_eps n ! e)) then cleared (nd_conns n ! i) else nd_conns n ! i) [0..<length (nd_conns n)]"
    using quietD(1) [OF assms(2)] by (auto simp: n'(3) detached_def)
  have "bind_inv n'" by (rule bind_inv_released [OF assms(1,3) n'(2)]) (simp_all add: n'(3))
  moreover have "list_all (\<lambda>c. \<not> CheckFlag ConnectionFlag_Resetting c) (nd_conns n')"
    using assms(2) unfolding conns quiet_def by (simp add: list_all_length)
  then have "quiet n'" using assms(2) unfolding quiet_def n'(2) by (auto intro!: list_all_update)
  ultimately show ?thesis using that n' conns by blast
qed

text \<open>C23: resetting an endpoint always returns, takes the endpoint's connections from it and resets each of them, clears its
  flags and listen addresses, cancels its ping timer, and touches no other endpoint and no connection
  that was bound elsewhere; bindings agree again.\<close>

theorem Endpoint_Reset_releases:
  assumes "bind_inv n" and "quiet n" and "e < length (nd_eps n)" and "2 \<le> d" and "lru_laws P"
  shows "\<exists>n'. Endpoint_Reset P C d e n = Some n' \<and> bind_inv n' \<and> quiet n'
    \<and> nd_eps n' = (nd_eps n)[e := empty_ep (nd_eps n ! e)]
    \<and> (\<forall>i<length (nd_conns n). nd_conns n' ! i =
         (if cn_binding (nd_conns n ! i) = Some e then cleared (nd_conns n ! i) else nd_conns n ! i))
    \<and> (\<forall>i. lru_Get P i (nd_pingList n') =
         (if i = e \<and> Endpoint_GetFlag EndpointFlag_HasPingTimer (nd_eps n ! e) then None else lru_Get P i (nd_pingList n)))"
proof -
  obtain n' where n': "Endpoint_Reset P C d e n = Some n'" "bind_inv n'" "quiet n'"
    "nd_eps n' = (nd_eps n)[e := empty_ep (nd_eps n ! e)]"
    "nd_conns n' = map (\<lambda>i. if i \<in> set (attached (nd_eps n ! e)) then cleared (nd_conns n ! i) else nd_conns n ! i) [0..<length (nd_conns n)]"
    "nd_pingList n' = ping_cleared P e n" using assms(1-4) by (rule Endpoint_Reset_keeps)
  have "\<forall>i<length (nd_conns n). nd_conns n' ! i =
      (if cn_binding (nd_conns n ! i) = Some e then cleared (nd_conns n ! i) else nd_conns n ! i)"
    using bind_inv_attached(3) [OF assms(1,3)] by (simp add: n'(5))
  moreover have "\<forall>i. lru_Get P i (nd_pingList n') =
      (if i = e \<and> Endpoint_GetFlag EndpointFlag_HasPingTimer (nd_eps n ! e) then None else lru_Get P i (nd_pingList n))"
    by (simp add: n'(6) ping_cleared_def lru_Get_Delete [OF assms(5)])
  ultimately show ?thesis using n'(1-4) by blast
qed

text \<open>\<open>AddConnection\<close> accepts a connection exactly when it is free or already bound to this endpoint, refuses one of another
  endpoint without any change, and otherwise binds it: as the control connection if there is none and
  the caller does not ask for a data connection, else as the last data connection. A handshaking
  connection becomes connected. Bindings still agree.\<close>

theorem AddConnection_binds:
  assumes "bind_inv n" and "quiet n" and "e < length (nd_eps n)" and "c < length (nd_conns n)"
    and "AddConnection e c forceData n = (n', ok)"
  shows "bind_inv n' \<and> quiet n' \<and> (ok \<longleftrightarrow> cn_binding (nd_conns n ! c) = None \<or> cn_binding (nd_conns n ! c) = Some e)
    \<and> (\<not> ok \<longrightarrow> n' = n)
    \<and> (ok \<longrightarrow> cn_binding (nd_conns n' ! c) = Some e \<and> cn_status (nd_conns n' ! c) \<noteq> ConnectionState_Handshaking)
    \<and> (cn_binding (nd_conns n ! c) = None \<longrightarrow>
         (if forceData \<or> ep_ctrlConn (nd_eps n ! e) \<noteq> None
          then ep_dataConn (nd_eps n' ! e) = ep_dataConn (nd_eps n ! e) @ [c] \<and> ep_ctrlConn (nd_eps n' ! e) = ep_ctrlConn (nd_eps n ! e)
             \<and> \<not> Endpoint_GetFlag EndpointFlag_ConnectionSorted (nd_eps n' ! e)
          else ep_ctrlConn (nd_eps n' ! e) = Some c \<and> ep_dataConn (nd_eps n' ! e) = ep_dataConn (nd_eps n ! e)))"
proof -
  have keep: "bind_inv n'" "quiet n'" using AddConnection_keeps [OF assms(1-4), of forceData] assms(5) by simp_all
  have sorted: "\<not> Endpoint_GetFlag EndpointFlag_ConnectionSorted (Endpoint_setFlag EndpointFlag_ConnectionSorted False x)" for x
    by (simp add: Endpoint_GetFlag_def Endpoint_setFlag_def EndpointFlag_ConnectionSorted_def)
  have conv: "ep_dataConn (Endpoint_setFlag f v x) = ep_dataConn x" "ep_ctrlConn (Endpoint_setFlag f v x) = ep_ctrlConn x" for f v x
    by (simp_all add: Endpoint_setFlag_def)
  have nr: "\<not> Endpoint_GetFlag EndpointFlag_Resetting (nd_eps n ! e)" using quietD(2) [OF assms(2,3)] .
  have st: "cn_status (setStatus s x) = s" for s x by (simp add: setStatus_def)
  let ?data = "forceData \<or> ep_ctrlConn (nd_eps n ! e) \<noteq> None"
  show ?thesis
  proof (cases "cn_binding (nd_conns n ! c)")
    case None
    have "ok" "nd_conns n' ! c = setBinding (Some e) (if cn_status (nd_conns n ! c) = ConnectionState_Handshaking
        then setStatus ConnectionState_Connected (nd_conns n ! c) else nd_conns n ! c)"
      "nd_eps n' ! e = (if ?data then Endpoint_setFlag EndpointFlag_ConnectionSorted False ((nd_eps n ! e)\<lparr>ep_dataConn := ep_dataConn (nd_eps n ! e) @ [c]\<rparr>)
        else (nd_eps n ! e)\<lparr>ep_ctrlConn := Some c\<rparr>)"
      using None assms(3-5) nr by (auto simp: AddConnection_def Let_def)
    with None keep show ?thesis by (simp add: sorted conv st)
  next
    case (Some e')
    have "ok = (e' = e)" "n' = (if e' = e \<and> cn_status (nd_conns n ! c) = ConnectionState_Handshaking
        then upd_conn c (setStatus ConnectionState_Connected) n else n)"
      using Some assms(5) nr by (auto simp: AddConnection_def split: if_splits)
    with Some keep assms(4) show ?thesis by (auto simp: st)
  qed
qed

text \<open>The data connections of an endpoint whose flag says so are in the order of their scores.\<close>

definition scores_sorted :: "('p, 'c) Node \<Rightarrow> nat \<Rightarrow> bool" where
  "scores_sorted n e \<longleftrightarrow> (Endpoint_GetFlag EndpointFlag_ConnectionSorted (nd_eps n ! e) \<longrightarrow>
     sorted (map (\<lambda>c. scoreConnection (nd_conns n ! c)) (ep_dataConn (nd_eps n ! e))))"

lemma find_first_least:
  assumes "sorted (map f xs)" and "List.find P xs = Some x"
  shows "x \<in> set xs \<and> P x \<and> (\<forall>y \<in> set xs. P y \<longrightarrow> f x \<le> f y)"
  using assms
proof (induction xs)
  case (Cons a xs)
  then show ?case by (cases "P a") auto
qed simp

lemma sort_data_ep:
  assumes "peer < length (nd_eps n)"
  shows "nd_eps (sort_data peer n) ! peer =
    (if Endpoint_GetFlag EndpointFlag_ConnectionSorted (nd_eps n ! peer) then nd_eps n ! peer
     else Endpoint_setFlag EndpointFlag_ConnectionSorted True
       ((nd_eps n ! peer)\<lparr>ep_dataConn := sort_key (\<lambda>c. scoreConnection (nd_conns n ! c)) (ep_dataConn (nd_eps n ! peer))\<rparr>))"
  using assms by (simp add: sort_data_def)

lemma sort_data_views [simp]:
  "nd_conns (sort_data peer n) = nd_conns n" "i \<noteq> peer \<Longrightarrow> nd_eps (sort_data peer n) ! i = nd_eps n ! i"
  by (simp_all add: sort_data_def)

lemma sort_data_sorted:
  assumes "peer < length (nd_eps n)" and "scores_sorted n peer"
  shows "sorted (map (\<lambda>c. scoreConnection (nd_conns n ! c)) (ep_dataConn (nd_eps (sort_data peer n) ! peer)))"
    "mset (ep_dataConn (nd_eps (sort_data peer n) ! peer)) = mset (ep_dataConn (nd_eps n ! peer))"
    "ep_ctrlConn (nd_eps (sort_data peer n) ! peer) = ep_ctrlConn (nd_eps n ! peer)"
    "ep_hostname (nd_eps (sort_data peer n) ! peer) = ep_hostname (nd_eps n ! peer)"
    "ep_pid (nd_eps (sort_data peer n) ! peer) = ep_pid (nd_eps n ! peer)"
  using assms by (auto simp: sort_data_ep scores_sorted_def Endpoint_setFlag_def)

text \<open>C24: \<open>GetDataConnection\<close> returns a usable data connection of the peer with the least score if there is any usable one; else the
  peer's control connection if the caller allows it and it is connected; else nothing. It only
  reorders the peer's data connections, which are sorted afterwards.\<close>

theorem GetDataConnection_best:
  assumes "e \<noteq> peer" and "peer < length (nd_eps n)" and "scores_sorted n peer"
    and "GetDataConnection e peer fallback n = (n', r)"
  shows "mset (ep_dataConn (nd_eps n' ! peer)) = mset (ep_dataConn (nd_eps n ! peer)) \<and> nd_conns n' = nd_conns n \<and> scores_sorted n' peer
    \<and> (case r of
         Some c \<Rightarrow>
           (c \<in> set (ep_dataConn (nd_eps n ! peer)) \<and> usable n e peer c
             \<and> (\<forall>c' \<in> set (ep_dataConn (nd_eps n ! peer)). usable n e peer c' \<longrightarrow> scoreConnection (nd_conns n ! c) \<le> scoreConnection (nd_conns n ! c')))
         \<or> ((\<nexists>c'. c' \<in> set (ep_dataConn (nd_eps n ! peer)) \<and> usable n e peer c')
             \<and> fallback \<and> ep_ctrlConn (nd_eps n ! peer) = Some c \<and> IsConnected (nd_conns n ! c))
       | None \<Rightarrow> (\<nexists>c'. c' \<in> set (ep_dataConn (nd_eps n ! peer)) \<and> usable n e peer c')
           \<and> (fallback \<longrightarrow> (\<nexists>c. ep_ctrlConn (nd_eps n ! peer) = Some c \<and> IsConnected (nd_conns n ! c))))"
proof -
  let ?n = "sort_data peer n" let ?data = "ep_dataConn (nd_eps ?n ! peer)"
  note s = sort_data_sorted [OF assms(2,3)]
  have use: "usable ?n e peer = usable n e peer" using assms(1) s(4,5) by (simp add: usable_def fun_eq_iff)
  have set: "set ?data = set (ep_dataConn (nd_eps n ! peer))" using s(2) by (metis set_mset_mset)
  have res: "n' = ?n" "r = (case List.find (usable n e peer) ?data of Some c \<Rightarrow> Some c
      | None \<Rightarrow> if fallback then GetCtrlConnection ?n e peer else None)"
    using assms(1,4) by (auto simp: GetDataConnection_def Let_def use)
  have ctrl: "GetCtrlConnection ?n e peer = (case ep_ctrlConn (nd_eps n ! peer) of
      None \<Rightarrow> None | Some c \<Rightarrow> if IsConnected (nd_conns n ! c) then Some c else None)"
    using assms(1) s(3) by (simp add: GetCtrlConnection_def IsConnected_def split: option.split)
  have "scores_sorted n' peer" using s(1) by (simp add: scores_sorted_def res(1))
  show ?thesis
  proof (cases "List.find (usable n e peer) ?data")
    case (Some c)
    with find_first_least [OF s(1) Some] set show ?thesis using \<open>scores_sorted n' peer\<close> s(2) by (simp add: res)
  next
    case None
    then have no: "\<nexists>c'. c' \<in> set (ep_dataConn (nd_eps n ! peer)) \<and> usable n e peer c'" by (auto simp: find_None_iff set)
    with None \<open>scores_sorted n' peer\<close> s(2) show ?thesis
      by (cases fallback; cases "ep_ctrlConn (nd_eps n ! peer)") (auto simp: res ctrl)
  qed
qed

text \<open>The ping list holds exactly the endpoints whose flag says that they have a ping timer.\<close>

definition ping_inv :: "'p ping_ops \<Rightarrow> ('p, 'c) Node \<Rightarrow> bool" where
  "ping_inv P n \<longleftrightarrow> (\<forall>e<length (nd_eps n). Endpoint_GetFlag EndpointFlag_HasPingTimer (nd_eps n ! e) \<longleftrightarrow> lru_Get P e (nd_pingList n) \<noteq> None)"

lemma ping_flag [simp]:
  "Endpoint_GetFlag EndpointFlag_HasPingTimer (Endpoint_SetFlag EndpointFlag_HasPingTimer v e) = v"
  "Endpoint_GetFlag EndpointFlag_Resetting (Endpoint_SetFlag EndpointFlag_HasPingTimer v e) = Endpoint_GetFlag EndpointFlag_Resetting e"
  by (simp_all add: Endpoint_GetFlag_def Endpoint_SetFlag_def Endpoint_setFlag_def EndpointFlag_HasPingTimer_def EndpointFlag_MutableFlags_def
      EndpointFlag_Resetting_def has_flag_put_other)

lemma ClearPingTimer_effect:
  assumes "lru_laws P" and "e < length (nd_eps n)" and "ping_inv P n"
  shows "ping_inv P (ClearPingTimer P e n)" "lru_Get P e (nd_pingList (ClearPingTimer P e n)) = None"
    "\<not> Endpoint_GetFlag EndpointFlag_HasPingTimer (nd_eps (ClearPingTimer P e n) ! e)"
  using assms(2,3) by (auto simp: ClearPingTimer_def ping_inv_def removePingTimer_def lru_Get_Delete [OF assms(1)] nth_list_update
      simp del: not_None_eq split_paired_Ex split_paired_All)

lemma ClearPingTimer_same:
  "Node_CheckFlag f (ClearPingTimer P e n) = Node_CheckFlag f n" "nd_tick (ClearPingTimer P e n) = nd_tick n"
  "nd_configure (ClearPingTimer P e n) = nd_configure n"
  "Endpoint_GetFlag EndpointFlag_Resetting (nd_eps (ClearPingTimer P e n) ! i) = Endpoint_GetFlag EndpointFlag_Resetting (nd_eps n ! i)"
  "ep_id (nd_eps (ClearPingTimer P e n) ! i) = ep_id (nd_eps n ! i)" "Node_GetId (ClearPingTimer P e n) = Node_GetId n"
proof -
  have upd: "f ((xs[e := g (xs ! e)]) ! i) = f (xs ! i)" if "\<And>x. f (g x) = f x" for f :: "Endpoint \<Rightarrow> 'z" and g xs i
    using that by (cases "e < length xs"; cases "i = e") (auto simp: list_update_beyond)
  have id: "ep_id (Endpoint_SetFlag f v x) = ep_id x" for f v x by (simp add: Endpoint_SetFlag_def Endpoint_setFlag_def)
  show "Node_CheckFlag f (ClearPingTimer P e n) = Node_CheckFlag f n" "nd_tick (ClearPingTimer P e n) = nd_tick n"
    "nd_configure (ClearPingTimer P e n) = nd_configure n"
    by (simp_all add: ClearPingTimer_def Node_CheckFlag_def removePingTimer_def upd_ep_def)
  show "Endpoint_GetFlag EndpointFlag_Resetting (nd_eps (ClearPingTimer P e n) ! i) = Endpoint_GetFlag EndpointFlag_Resetting (nd_eps n ! i)"
    by (simp add: ClearPingTimer_def removePingTimer_def upd)
  show i: "ep_id (nd_eps (ClearPingTimer P e n) ! i) = ep_id (nd_eps n ! i)" for i
    by (simp add: ClearPingTimer_def removePingTimer_def upd id)
  have "nd_self (ClearPingTimer P e n) = nd_self n" by (simp add: ClearPingTimer_def removePingTimer_def upd_ep_def)
  then show "Node_GetId (ClearPingTimer P e n) = Node_GetId n" by (simp add: Node_GetId_def i split: option.split)
qed

text \<open>An endpoint's ping timer is in the node's ping list exactly when its flag says so: adding, clearing and resetting keep this.
  \<open>AddPingTimer\<close> sets the timer to one ping interval after the current tick, replacing an older one, unless the
  endpoint is the node itself, pings are disabled, or the endpoint or the node is being reset.\<close>

theorem ping_timer_consistent:
  assumes "lru_laws P" and "ping_inv P n" and "e < length (nd_eps n)"
  shows "ping_inv P (AddPingTimer P e n) \<and> ping_inv P (ClearPingTimer P e n)
    \<and> (bind_inv n \<and> quiet n \<longrightarrow> (\<exists>n'. Endpoint_Reset P C 2 e n = Some n' \<and> ping_inv P n' \<and> lru_Get P e (nd_pingList n') = None))
    \<and> lru_Get P e (nd_pingList (ClearPingTimer P e n)) = None
    \<and> lru_Get P e (nd_pingList (AddPingTimer P e n)) =
        (if ep_id (nd_eps n ! e) = Node_GetId n \<or> PingInterval (nd_configure n) \<le> 0 \<or> Node_CheckFlag NodeFlag_ResettingGc n
         then lru_Get P e (nd_pingList n)
         else if Endpoint_GetFlag EndpointFlag_Resetting (nd_eps n ! e) then None
         else Some (nd_tick n + PingInterval (nd_configure n), e))"
proof -
  let ?off = "ep_id (nd_eps n ! e) = Node_GetId n \<or> PingInterval (nd_configure n) \<le> 0 \<or> Node_CheckFlag NodeFlag_ResettingGc n"
  let ?n = "ClearPingTimer P e n"
  note clr = ClearPingTimer_effect [OF assms(1,3,2)]
  have len: "e < length (nd_eps ?n)" using assms(3) by simp
  have add: "AddPingTimer P e n = (if ?off then n else if Endpoint_GetFlag EndpointFlag_Resetting (nd_eps n ! e) then ?n
      else upd_ep e (Endpoint_SetFlag EndpointFlag_HasPingTimer True)
        (?n\<lparr>nd_pingList := lru_Put P e (nd_tick n + PingInterval (nd_configure n), e) (nd_pingList ?n)\<rparr>))"
    by (simp add: AddPingTimer_def Let_def ClearPingTimer_same addPingTimer_def)
  have put: "lru_Get P i (lru_Put P e v m) = (if i = e then Some v else lru_Get P i m)" for i v m by (rule lru_Get_Put [OF assms(1)])
  have "ping_inv P (AddPingTimer P e n)"
    unfolding add using assms(2) clr(1) len by (auto simp: ping_inv_def put nth_list_update)
  moreover have "lru_Get P e (nd_pingList (AddPingTimer P e n)) = (if ?off then lru_Get P e (nd_pingList n)
      else if Endpoint_GetFlag EndpointFlag_Resetting (nd_eps n ! e) then None else Some (nd_tick n + PingInterval (nd_configure n), e))"
    unfolding add using clr(2) by (simp add: put)
  moreover have "\<exists>n'. Endpoint_Reset P C 2 e n = Some n' \<and> ping_inv P n' \<and> lru_Get P e (nd_pingList n') = None" if inv: "bind_inv n" "quiet n"
  proof -
    obtain n' where n': "Endpoint_Reset P C 2 e n = Some n'" "nd_eps n' = (nd_eps n)[e := empty_ep (nd_eps n ! e)]"
      "nd_pingList n' = ping_cleared P e n" using Endpoint_Reset_keeps [OF inv assms(3) order.refl, of P C] by metis
    have get: "lru_Get P i (ping_cleared P e n) = (if i = e then None else lru_Get P i (nd_pingList n))" for i
      using assms(2,3) by (auto simp: ping_cleared_def lru_Get_Delete [OF assms(1)] ping_inv_def simp del: not_None_eq split_paired_Ex split_paired_All)
    have "ping_inv P n'" using assms(2,3) by (auto simp: ping_inv_def n'(2,3) get nth_list_update)
    then show ?thesis using n' get by simp
  qed
  ultimately show ?thesis using clr by simp
qed

text \<open>Every \<open>Push\<close> is counted once as started, with its size, and counted as failed exactly when it returns an error; data reaches the
  channel only on a connection that is connected or handshaking and has a stream connection. Nothing
  else of the connection changes.\<close>

theorem Push_counts:
  assumes "Push channel data c = (c', ret)"
  shows "PushStartTimes (cn_statistic c') = PushStartTimes (cn_statistic c) + 1
    \<and> PushStartSize (cn_statistic c') = PushStartSize (cn_statistic c) + of_nat (length data)
    \<and> PushFailedTimes (cn_statistic c') = PushFailedTimes (cn_statistic c) + (if ret = EN_ATBUS_ERR_SUCCESS then 0 else 1)
    \<and> PushFailedSize (cn_statistic c') = PushFailedSize (cn_statistic c) + (if ret = EN_ATBUS_ERR_SUCCESS then 0 else of_nat (length data))
    \<and> c'\<lparr>cn_statistic := cn_statistic c\<rparr> = c
    \<and> (ret = EN_ATBUS_ERR_SUCCESS \<longleftrightarrow>
        (cn_status c = ConnectionState_Connected \<or> cn_status c = ConnectionState_Handshaking)
        \<and> (\<exists>io send. cn_ioStreamConnection c = Some io \<and> channel = Some send \<and> send io data = EN_ATBUS_ERR_SUCCESS))"
proof -
  have err: "EN_ATBUS_ERR_CLOSING \<noteq> EN_ATBUS_ERR_SUCCESS" "EN_ATBUS_ERR_NO_DATA \<noteq> EN_ATBUS_ERR_SUCCESS"
    "EN_ATBUS_ERR_CHANNEL_NOT_SUPPORT \<noteq> EN_ATBUS_ERR_SUCCESS"
    by (simp_all add: EN_ATBUS_ERR_CLOSING_def EN_ATBUS_ERR_NO_DATA_def EN_ATBUS_ERR_CHANNEL_NOT_SUPPORT_def EN_ATBUS_ERR_SUCCESS_def)
  show ?thesis
    using assms err by (auto simp: Push_def Let_def push_failed_def split: if_splits option.splits)
qed

subsection \<open>An example\<close>

text \<open>
  A node with itself as endpoint 0 and a peer, endpoint 1, which has a control connection 0 and the data
  connections 1 and 2. The timer lists are partial functions.
\<close>

definition map_lru :: "('k \<Rightarrow> 'v option, 'k, 'v) LRUMap" where
  "map_lru = \<lparr>lru_Put = \<lambda>k v m. m(k := Some v), lru_Get = \<lambda>k m. m k, lru_Delete = \<lambda>k m. m(k := None)\<rparr>"

lemma map_lru_laws: "lru_laws map_lru"
  by (simp add: lru_laws_def map_lru_def)

definition sample_conn :: "nat option \<Rightarrow> uint32 \<Rightarrow> Connection" where
  "sample_conn b f = \<lparr>cn_binding = b, cn_status = ConnectionState_Connected,
     cn_address = \<lparr>ca_Address = ''ipv4://10.0.0.1:80'', ca_Scheme = ''ipv4'', ca_Host = ''10.0.0.1'', ca_Port = 80\<rparr>,
     cn_flags = f, cn_statistic = zero_ConnectionStatistic, cn_ioStreamConnection = Some 7\<rparr>"

definition sample_ep :: "BusIdType \<Rightarrow> nat option \<Rightarrow> nat list \<Rightarrow> Endpoint" where
  "sample_ep i ctrl data = \<lparr>ep_id = i, ep_pid = 1, ep_hostname = ''h'', ep_hashCode = '''', ep_flags = 0, ep_ctrlConn = ctrl, ep_dataConn = data,
     ep_listenAddress = [], ep_supportedSchemas = None,
     ep_stat = \<lparr>es_FaultCount = 0, es_UnfinishedPing = 0, es_PingDelay = 0, es_LastPongTime = 0, es_CreatedTime = 0\<rparr>\<rparr>"

definition sample_node :: "(nat \<Rightarrow> (int \<times> nat) option, string \<Rightarrow> (int \<times> nat) option) Node" where
  "sample_node = \<lparr>nd_conns = [sample_conn (Some 1) 2, sample_conn (Some 1) 2, sample_conn (Some 1) 0x0C, sample_conn None 0],
     nd_eps = [sample_ep 0x100 None [], sample_ep 0x101 (Some 0) [1, 2]], nd_flags = NodeFlag_Actived, nd_state = NodeState_Running,
     nd_configure = SetDefaultNodeConfigure zero_NodeConfigure, nd_self = Some 0, nd_upstream = None, nd_route = [(0x101, 1)],
     nd_topology = CreateTopologyRegistry, nd_tick = 5, nd_upstreamOpTimepoint = 0, nd_pingList = (\<lambda>_. None), nd_connectingList = (\<lambda>_. None),
     nd_pendingEndpointGc = [], nd_pendingConnectionGc = [], nd_sequence = 0, nd_events = []\<rparr>"

lemma sample_node_inv: "bind_inv sample_node" "quiet sample_node" "ping_inv map_lru sample_node" "scores_sorted sample_node 1"
    "length (nd_conns sample_node) = 4" "length (nd_eps sample_node) = 2"
  by code_simp+

theorem Connection_Reset_releases_witness:
  "\<exists>n'. Connection_Reset map_lru map_lru 4 1 sample_node = Some n' \<and> bind_inv n'
     \<and> nd_conns n' ! 1 = cleared (sample_conn (Some 1) 2) \<and> nd_conns n' ! 0 = sample_conn (Some 1) 2"
proof -
  have g: "\<not> gives_up sample_node 1 1" "cn_binding (nd_conns sample_node ! 1) = Some 1"
    "nd_conns sample_node ! 1 = sample_conn (Some 1) 2" "nd_conns sample_node ! 0 = sample_conn (Some 1) 2" by code_simp+
  from Connection_Reset_releases [OF sample_node_inv(1,2), of 1 4 map_lru map_lru] g show ?thesis
    by (auto simp: sample_node_inv(5))
qed

theorem Endpoint_Reset_releases_witness:
  "\<exists>n'. Endpoint_Reset map_lru map_lru 2 1 sample_node = Some n' \<and> bind_inv n' \<and> nd_conns n' ! 2 = cleared (sample_conn (Some 1) 0x0C)"
proof -
  have "nd_conns sample_node ! 2 = sample_conn (Some 1) 0x0C" "cn_binding (nd_conns sample_node ! 2) = Some 1" by code_simp+
  with Endpoint_Reset_releases [OF sample_node_inv(1,2) _ _ map_lru_laws, of 1 2 map_lru] show ?thesis
    by (auto simp: sample_node_inv(5,6))
qed

theorem AddConnection_binds_witness:
  "cn_binding (nd_conns (fst (AddConnection 0 3 False sample_node)) ! 3) = Some 0
   \<and> ep_ctrlConn (nd_eps (fst (AddConnection 0 3 False sample_node)) ! 0) = Some 3"
proof -
  have "cn_binding (nd_conns sample_node ! 3) = None" "ep_ctrlConn (nd_eps sample_node ! 0) = None" by code_simp+
  with AddConnection_binds [OF sample_node_inv(1,2), of 0 3 False "fst (AddConnection 0 3 False sample_node)" "snd (AddConnection 0 3 False sample_node)"]
  show ?thesis by (simp add: sample_node_inv(5,6))
qed

theorem GetDataConnection_best_witness:
  "snd (GetDataConnection 0 1 True sample_node) = Some 2 \<and> usable sample_node 0 1 2"
proof -
  have "snd (GetDataConnection 0 1 True sample_node) = Some 2" by code_simp
  moreover have "2 \<in> set (ep_dataConn (nd_eps sample_node ! 1))" "usable sample_node 0 1 2" by code_simp+
  ultimately show ?thesis
    using GetDataConnection_best [of 0 1 sample_node True "fst (GetDataConnection 0 1 True sample_node)" "snd (GetDataConnection 0 1 True sample_node)"]
      sample_node_inv(4,6) by auto
qed

theorem ping_timer_consistent_witness:
  "lru_Get map_lru 1 (nd_pingList (AddPingTimer map_lru 1 sample_node)) = Some (8000000005, 1)"
proof -
  have "ep_id (nd_eps sample_node ! 1) \<noteq> Node_GetId sample_node" "\<not> PingInterval (nd_configure sample_node) \<le> 0"
    "\<not> Node_CheckFlag NodeFlag_ResettingGc sample_node" "\<not> Endpoint_GetFlag EndpointFlag_Resetting (nd_eps sample_node ! 1)"
    "nd_tick sample_node + PingInterval (nd_configure sample_node) = 8000000005" by code_simp+
  with ping_timer_consistent [OF map_lru_laws sample_node_inv(3), of 1 map_lru] show ?thesis by (simp add: sample_node_inv(6))
qed

theorem Push_counts_witness:
  "PushFailedSize (cn_statistic (fst (Push None [1, 2] (sample_conn None 0)))) = 2"
proof -
  have "Push None [1, 2] (sample_conn None 0) = (fst (Push None [1, 2] (sample_conn None 0)), EN_ATBUS_ERR_CHANNEL_NOT_SUPPORT)"
    by (simp add: Push_def Let_def sample_conn_def)
  from Push_counts [OF this] show ?thesis
    by (simp add: EN_ATBUS_ERR_CHANNEL_NOT_SUPPORT_def EN_ATBUS_ERR_SUCCESS_def sample_conn_def zero_ConnectionStatistic_def)
qed

end
