(* ===== verification/Node_Route.thy ===== *)
theory Node_Route
  imports Endpoint
begin

unbundle bit_operations_syntax

section \<open>Endpoints of a node and routing (impl/atbus\_node.go)\<close>

text \<open>
  The route table of a node, adding and removing endpoints, the upstream endpoint and its place in the
  topology, and the choice of the next hop for a bus id. A function that climbs the upstream links of
  the topology returns an option: \<open>None\<close> means that it does not return. An index that the
  code holds as a pointer is never nil here unless it is an option. The route table is an association list with one
  entry per id. The topology registry exists from \<open>Init\<close> on.
\<close>

subsection \<open>Options\<close>

definition NodeGetPeerOptionFlag_NoUpstream :: "16 word" where "NodeGetPeerOptionFlag_NoUpstream = 0x0001"
definition NodeSendDataOptionFlag_RequiredResponse :: uint32 where "NodeSendDataOptionFlag_RequiredResponse = 0x0001"
definition NodeSendDataOptionFlag_NoUpstream :: uint32 where "NodeSendDataOptionFlag_NoUpstream = 0x0002"

record NodeSendDataOptions =
  so_flags :: uint32
  so_sequence :: uint64

record NodeGetPeerOptions =
  go_flags :: "16 word"
  go_blacklist :: "BusIdType list"

definition CreateNodeSendDataOptions :: NodeSendDataOptions where
  "CreateNodeSendDataOptions = \<lparr>so_flags = 0, so_sequence = 0\<rparr>"

definition CreateNodeGetPeerOptions :: NodeGetPeerOptions where
  "CreateNodeGetPeerOptions = \<lparr>go_flags = 0, go_blacklist = []\<rparr>"

definition SendDataOptions_GetFlag :: "uint32 \<Rightarrow> NodeSendDataOptions option \<Rightarrow> bool" where
  "SendDataOptions_GetFlag f opt = (case opt of None \<Rightarrow> False | Some v \<Rightarrow> has_flag f (so_flags v))"

definition SendDataOptions_SetFlag :: "uint32 \<Rightarrow> bool \<Rightarrow> NodeSendDataOptions \<Rightarrow> NodeSendDataOptions" where
  "SendDataOptions_SetFlag f v opt = opt\<lparr>so_flags := put_flag f v (so_flags opt)\<rparr>"

definition GetSequence :: "NodeSendDataOptions option \<Rightarrow> uint64" where
  "GetSequence opt = (case opt of None \<Rightarrow> 0 | Some v \<Rightarrow> so_sequence v)"

definition SetSequence :: "uint64 \<Rightarrow> NodeSendDataOptions \<Rightarrow> NodeSendDataOptions" where
  "SetSequence s opt = opt\<lparr>so_sequence := s\<rparr>"

definition GetPeerOptions_GetFlag :: "16 word \<Rightarrow> NodeGetPeerOptions option \<Rightarrow> bool" where
  "GetPeerOptions_GetFlag f opt = (case opt of None \<Rightarrow> False | Some v \<Rightarrow> has_flag f (go_flags v))"

definition GetPeerOptions_SetFlag :: "16 word \<Rightarrow> bool \<Rightarrow> NodeGetPeerOptions \<Rightarrow> NodeGetPeerOptions" where
  "GetPeerOptions_SetFlag f v opt = opt\<lparr>go_flags := put_flag f v (go_flags opt)\<rparr>"

definition SetBlacklist :: "BusIdType list \<Rightarrow> NodeGetPeerOptions \<Rightarrow> NodeGetPeerOptions" where
  "SetBlacklist ids opt = opt\<lparr>go_blacklist := ids\<rparr>"

definition GetBlacklist :: "NodeGetPeerOptions option \<Rightarrow> BusIdType list" where
  "GetBlacklist opt = (case opt of None \<Rightarrow> [] | Some v \<Rightarrow> go_blacklist v)"

definition isInGetPeerBlacklist :: "BusIdType \<Rightarrow> NodeGetPeerOptions option \<Rightarrow> bool" where
  "isInGetPeerBlacklist i opt = (case opt of None \<Rightarrow> False | Some _ \<Rightarrow> list_ex (\<lambda>b. b = i) (GetBlacklist opt))"

subsection \<open>Flag guards\<close>

text \<open>
  A guard remembers whether it has opened a flag (its owner is set), and which. \<open>openFlag\<close> answers true
  only when this very guard has already opened the flag.
\<close>

record nodeFlagGuard =
  fg_owner :: bool
  fg_flag :: "16 word"

definition new_guard :: nodeFlagGuard where
  "new_guard = \<lparr>fg_owner = False, fg_flag = 0\<rparr>"

definition closeFlag :: "nodeFlagGuard \<Rightarrow> 16 word \<Rightarrow> nodeFlagGuard \<times> 16 word" where
  "closeFlag fg flags = (if \<not> fg_owner fg then (fg, flags) else (fg\<lparr>fg_owner := False\<rparr>, flags AND NOT (fg_flag fg)))"

definition openFlag :: "nodeFlagGuard \<Rightarrow> 16 word \<Rightarrow> 16 word \<Rightarrow> nodeFlagGuard \<times> 16 word \<times> bool" where
  "openFlag fg flag flags =
     (if fg_owner fg \<and> flag = fg_flag fg then (fg, flags, True)
      else if flags AND flag \<noteq> 0 then (fg, flags, False)
      else
        let (fg, flags) = (if fg_owner fg then closeFlag fg flags else (fg, flags))
        in (\<lparr>fg_owner = True, fg_flag = flag\<rparr>, flags OR flag, False))"

subsection \<open>The route table\<close>

definition findRouteEndpoint :: "BusIdType \<Rightarrow> ('p, 'c) Node \<Rightarrow> nat option" where
  "findRouteEndpoint tid n = map_of (nd_route n) tid"

definition insertChild :: "nat \<Rightarrow> bool \<Rightarrow> ('p, 'c) Node \<Rightarrow> ('p, 'c) Node" where
  "insertChild e ignoreEvent n =
     (let i = ep_id (nd_eps n ! e) in
      if map_of (nd_route n) i = Some e then n
      else
        let n = n\<lparr>nd_route := (i, e) # filter (\<lambda>kv. fst kv \<noteq> i) (nd_route n)\<rparr>
        in if ignoreEvent then n else log_event (OnEndpointAdded e) n)"

definition removeChild :: "BusIdType \<Rightarrow> nat option \<Rightarrow> bool \<Rightarrow> ('p, 'c) Node \<Rightarrow> ('p, 'c) Node \<times> bool" where
  "removeChild tid expected ignoreEvent n =
     (case map_of (nd_route n) tid of
        None \<Rightarrow> (n, False)
      | Some e \<Rightarrow>
          if expected \<noteq> None \<and> expected \<noteq> Some e then (n, False)
          else
            let n = n\<lparr>nd_route := filter (\<lambda>kv. fst kv \<noteq> tid) (nd_route n)\<rparr>
            in (if ignoreEvent then n else log_event (OnEndpointRemoved e) n, True))"

definition removeRouteCollection :: "('p, 'c) Node \<Rightarrow> ('p, 'c) Node" where
  "removeRouteCollection n = fold (\<lambda>i n. fst (removeChild i None False n)) (map fst (nd_route n)) n"

definition GetEndpoint :: "BusIdType \<Rightarrow> ('p, 'c) Node \<Rightarrow> nat option" where
  "GetEndpoint tid n =
     (case nd_upstream n of
        Some u \<Rightarrow> if ep_id (nd_eps n ! u) = tid then Some u else findRouteEndpoint tid n
      | None \<Rightarrow> findRouteEndpoint tid n)"

definition AllocateMessageSequence :: "('p, 'c) Node \<Rightarrow> ('p, 'c) Node \<times> uint64" where
  "AllocateMessageSequence n =
     (let ret = nd_sequence n + 1;
          ret = (if ret = 0 then ret + 1 else ret)
      in (n\<lparr>nd_sequence := ret\<rparr>, ret))"

definition OnActived :: "('p, 'c) Node \<Rightarrow> ('p, 'c) Node" where
  "OnActived n =
     (let n = setState NodeState_Running n in
      if Node_CheckFlag NodeFlag_Actived n then n
      else log_event OnNodeUp (n\<lparr>nd_flags := nd_flags n OR NodeFlag_Actived\<rparr>))"

definition OnUpstreamRegisterDone :: "('p, 'c) Node \<Rightarrow> ('p, 'c) Node" where
  "OnUpstreamRegisterDone n =
     (let n = n\<lparr>nd_flags := nd_flags n OR NodeFlag_UpstreamRegDone\<rparr>;
          pingTimepoint = nd_tick n + PingInterval (nd_configure n)
      in if pingTimepoint < nd_upstreamOpTimepoint n then n\<lparr>nd_upstreamOpTimepoint := pingTimepoint\<rparr> else n)"

subsection \<open>Adding and removing endpoints\<close>

definition is_upstream_id :: "BusIdType \<Rightarrow> ('p, 'c) Node \<Rightarrow> bool" where
  "is_upstream_id i n \<longleftrightarrow>
     (case nd_upstream n of Some u \<Rightarrow> ep_id (nd_eps n ! u) = i | None \<Rightarrow> False)
   \<or> Node_GetId n \<noteq> 0
     \<and> (case GetPeerInstance (nd_topology n) (Node_GetId n) of
          None \<Rightarrow> False
        | Some self \<Rightarrow> (case GetUpstream (nd_topology n) self of None \<Rightarrow> False | Some up \<Rightarrow> GetBusId (nd_topology n) up = i))"

definition AddEndpoint :: "'p ping_ops \<Rightarrow> nat \<Rightarrow> ('p, 'c) Node \<Rightarrow> ('p, 'c) Node \<times> ErrorType" where
  "AddEndpoint P e n =
     (if Node_CheckFlag NodeFlag_Resetting n then (n, EN_ATBUS_ERR_CLOSING)
      else if nd_self n = None then (n, EN_ATBUS_ERR_NOT_INITED)
      else if nd_upstream n = Some e then (n, EN_ATBUS_ERR_SUCCESS)
      else if is_upstream_id (ep_id (nd_eps n ! e)) n then
        let n = n\<lparr>nd_upstream := Some e\<rparr>;
            n = (if \<not> Endpoint_GetFlag EndpointFlag_HasPingTimer (nd_eps n ! e) then AddPingTimer P e n else n);
            n = (if (nd_state n = NodeState_LostUpstream \<or> nd_state n = NodeState_ConnectingUpstream) \<and> Node_CheckFlag NodeFlag_UpstreamRegDone n
                 then OnActived n else n)
        in (log_event (OnEndpointAdded e) n, EN_ATBUS_ERR_SUCCESS)
      else (AddPingTimer P e (insertChild e False n), EN_ATBUS_ERR_SUCCESS))"

definition RemoveEndpoint :: "nat \<Rightarrow> ('p, 'c) Node \<Rightarrow> ('p, 'c) Node \<times> ErrorType" where
  "RemoveEndpoint e n =
     (case nd_upstream n of
        Some u \<Rightarrow>
          if ep_id (nd_eps n ! u) = ep_id (nd_eps n ! e) then
            if u \<noteq> e then (n, EN_ATBUS_ERR_ATNODE_NOT_FOUND)
            else
              let n = n\<lparr>nd_upstream := None\<rparr>;
                  n = (if nd_state n = NodeState_Running \<or> nd_state n = NodeState_ConnectingUpstream
                       then (setState NodeState_LostUpstream n)\<lparr>nd_upstreamOpTimepoint := nd_tick n\<rparr>
                       else n\<lparr>nd_upstreamOpTimepoint := nd_tick n + RetryInterval (nd_configure n)\<rparr>);
                  n = log_event (OnEndpointRemoved u) n;
                  n = (if \<not> Node_CheckFlag NodeFlag_Actived n then fst (FatalShutdown EN_ATBUS_ERR_ATNODE_MASK_CONFLICT n) else n)
              in (n, EN_ATBUS_ERR_SUCCESS)
          else if ep_id (nd_eps n ! e) = Node_GetId n then (n, EN_ATBUS_ERR_ATNODE_INVALID_ID)
          else let (n, found) = removeChild (ep_id (nd_eps n ! e)) (Some e) False n
               in (n, if found then EN_ATBUS_ERR_SUCCESS else EN_ATBUS_ERR_ATNODE_NOT_FOUND)
      | None \<Rightarrow>
          if ep_id (nd_eps n ! e) = Node_GetId n then (n, EN_ATBUS_ERR_ATNODE_INVALID_ID)
          else let (n, found) = removeChild (ep_id (nd_eps n ! e)) (Some e) False n
               in (n, if found then EN_ATBUS_ERR_SUCCESS else EN_ATBUS_ERR_ATNODE_NOT_FOUND))"

definition RemoveEndpointByID :: "BusIdType \<Rightarrow> ('p, 'c) Node \<Rightarrow> ('p, 'c) Node \<times> ErrorType" where
  "RemoveEndpointByID tid n =
     (if tid = Node_GetId n then (n, EN_ATBUS_ERR_ATNODE_INVALID_ID)
      else case GetEndpoint tid n of
        None \<Rightarrow> (n, EN_ATBUS_ERR_ATNODE_NOT_FOUND)
      | Some e \<Rightarrow> RemoveEndpoint e n)"

definition IsEndpointAvailable :: "BusIdType \<Rightarrow> ('p, 'c) Node \<Rightarrow> ('p, 'c) Node \<times> bool" where
  "IsEndpointAvailable tid n =
     (if \<not> Node_CheckFlag NodeFlag_Actived n then (n, False)
      else case nd_self n of
        None \<Rightarrow> (n, False)
      | Some self \<Rightarrow>
          (case GetEndpoint tid n of
             None \<Rightarrow> (n, False)
           | Some e \<Rightarrow>
               if Node_GetId n = 0 then (n, True)
               else let (n, c) = GetDataConnection self e False n in (n, c \<noteq> None)))"

definition Node_Disconnect :: "'p ping_ops \<Rightarrow> 'c connecting_ops \<Rightarrow> nat \<Rightarrow> BusIdType \<Rightarrow> ('p, 'c) Node \<Rightarrow> (('p, 'c) Node \<times> ErrorType) option" where
  "Node_Disconnect P C d i n =
     (let up = (case nd_upstream n of Some u \<Rightarrow> if ep_id (nd_eps n ! u) = i then Some u else None | None \<Rightarrow> None) in
      case up of
        Some u \<Rightarrow> map_option (\<lambda>n. (n, EN_ATBUS_ERR_SUCCESS)) (Endpoint_Reset P C d u (log_event (OnEndpointRemoved u) n))
      | None \<Rightarrow>
          (case findRouteEndpoint i n of
             None \<Rightarrow> Some (n, EN_ATBUS_ERR_SUCCESS)
           | Some e \<Rightarrow> map_option (\<lambda>n. (n, EN_ATBUS_ERR_SUCCESS)) (Endpoint_Reset P C d e (fst (removeChild i None False n)))))"

subsection \<open>The upstream in the topology\<close>

definition upstream_unchanged :: "BusIdType \<Rightarrow> TopologyRegistry \<Rightarrow> nat option \<Rightarrow> bool" where
  "upstream_unchanged tid r self = (case self of
     None \<Rightarrow> False
   | Some s \<Rightarrow>
       (case GetUpstream r s of
          None \<Rightarrow> tid = 0
        | Some up \<Rightarrow> tid \<noteq> 0 \<and> GetBusId r up = tid))"

definition SetTopologyUpstream :: "BusIdType \<Rightarrow> ('p, 'c) Node \<Rightarrow> ('p, 'c) Node option" where
  "SetTopologyUpstream tid n =
     (let selfId = Node_GetId n in
      if (case nd_upstream n of Some u \<Rightarrow> ep_id (nd_eps n ! u) = tid | None \<Rightarrow> False) then Some n
      else if selfId = 0 then Some n
      else if upstream_unchanged tid (nd_topology n) (GetPeerInstance (nd_topology n) selfId) then Some n
      else case UpdatePeer selfId tid None (nd_topology n) of
        None \<Rightarrow> None
      | Some (r, False) \<Rightarrow> Some (n\<lparr>nd_topology := r\<rparr>)
      | Some (r, True) \<Rightarrow>
          let n = n\<lparr>nd_topology := r\<rparr>;
              n = (case nd_upstream n of None \<Rightarrow> n | Some u \<Rightarrow> insertChild u True n);
              n = (if tid = 0 then n\<lparr>nd_upstream := None\<rparr>
                   else
                     let n = n\<lparr>nd_upstream := findRouteEndpoint tid n\<rparr>
                     in if nd_upstream n \<noteq> None then fst (removeChild tid None True n) else n)
          in Some (log_event (OnTopologyUpdateUpstream tid) n))"

definition GetTopologyRelation :: "BusIdType \<Rightarrow> ('p, 'c) Node \<Rightarrow> (TopologyRelationType \<times> nat option) option" where
  "GetTopologyRelation tid n =
     (if Node_GetId n = 0 \<or> nd_self n = None then Some (OtherUpstreamPeer, None)
      else if tid = Node_GetId n then Some (Relation_Self, GetPeer (nd_topology n) tid)
      else case GetRelation (nd_topology n) (Node_GetId n) tid of
        None \<Rightarrow> None
      | Some (ret, nextHopPeer) \<Rightarrow>
          Some (if ret = Relation_Invalid then
                  (if (case nd_upstream n of Some u \<Rightarrow> ep_id (nd_eps n ! u) = tid | None \<Rightarrow> False) then ImmediateUpstream
                   else if GetEndpoint tid n \<noteq> None then OtherUpstreamPeer
                   else ret)
                else ret, nextHopPeer))"

subsection \<open>The next hop\<close>

text \<open>The search for the nearest directly connected node above the target.\<close>

partial_function (option) nearest_neighbour :: "NodeGetPeerOptions option \<Rightarrow> ('p, 'c) Node \<Rightarrow> nat option \<Rightarrow> nat option option" where
  "nearest_neighbour options n peer =
     (case peer of
        None \<Rightarrow> Some None
      | Some p \<Rightarrow>
          if isInGetPeerBlacklist (GetBusId (nd_topology n) p) options then nearest_neighbour options n (GetUpstream (nd_topology n) p)
          else case findRouteEndpoint (GetBusId (nd_topology n) p) n of
            Some target \<Rightarrow> Some (Some target)
          | None \<Rightarrow> nearest_neighbour options n (GetUpstream (nd_topology n) p))"

declare nearest_neighbour.simps [code]

type_synonym ('p, 'c) choose_connection = "nat \<Rightarrow> nat \<Rightarrow> ('p, 'c) Node \<Rightarrow> ('p, 'c) Node \<times> nat option"

definition via :: "('p, 'c) choose_connection \<Rightarrow> nat \<Rightarrow> nat \<Rightarrow> ('p, 'c) Node \<Rightarrow> ('p, 'c) Node \<times> ErrorType \<times> nat option \<times> nat option" where
  "via fn self target n = (let (n, connection) = fn self target n in (n, EN_ATBUS_ERR_SUCCESS, Some target, connection))"

definition fallback_upstream ::
  "('p, 'c) choose_connection \<Rightarrow> NodeGetPeerOptions option \<Rightarrow> nat \<Rightarrow> ('p, 'c) Node
    \<Rightarrow> ('p, 'c) Node \<times> ErrorType \<times> nat option \<times> nat option" where
  "fallback_upstream fn options self n =
     (case nd_upstream n of
        Some u \<Rightarrow>
          if GetPeerOptions_GetFlag NodeGetPeerOptionFlag_NoUpstream options then (n, EN_ATBUS_ERR_SUCCESS, None, None)
          else if isInGetPeerBlacklist (ep_id (nd_eps n ! u)) options then (n, EN_ATBUS_ERR_ATNODE_INVALID_ID, None, None)
          else via fn self u n
      | None \<Rightarrow> (n, EN_ATBUS_ERR_SUCCESS, None, None))"

definition choose_hop ::
  "('p, 'c) choose_connection \<Rightarrow> NodeGetPeerOptions option \<Rightarrow> BusIdType \<Rightarrow> nat \<Rightarrow> ('p, 'c) Node
    \<Rightarrow> (('p, 'c) Node \<times> ErrorType \<times> nat option \<times> nat option) option" where
  "choose_hop fn options tid self n =
     (let blocked = (n, EN_ATBUS_ERR_SUCCESS, None, None);
          invalid = (n, EN_ATBUS_ERR_ATNODE_INVALID_ID, None, None);
          direct = (\<lambda>target. Some (if isInGetPeerBlacklist tid options then blocked else via fn self target n))
      in case (case nd_upstream n of Some u \<Rightarrow> if tid = ep_id (nd_eps n ! u) then Some u else None | None \<Rightarrow> None) of
        Some u \<Rightarrow> direct u
      | None \<Rightarrow>
          (case findRouteEndpoint tid n of
             Some target \<Rightarrow> direct target
           | None \<Rightarrow>
               (case GetTopologyRelation tid n of
                  None \<Rightarrow> None
                | Some (relation, nextHopPeer) \<Rightarrow>
                    if relation = ImmediateDownstream \<or> relation = TransitiveDownstream then
                      (case nextHopPeer of
                         None \<Rightarrow> Some invalid
                       | Some hop \<Rightarrow>
                           (case findRouteEndpoint (GetBusId (nd_topology n) hop) n of
                              Some target \<Rightarrow>
                                Some (if isInGetPeerBlacklist (GetBusId (nd_topology n) hop) options then blocked else via fn self target n)
                            | None \<Rightarrow> Some invalid))
                    else if relation = Relation_Self then Some invalid
                    else
                      (case (if relation = OtherUpstreamPeer
                             then nearest_neighbour options n
                                    (case GetPeer (nd_topology n) tid of None \<Rightarrow> None | Some p \<Rightarrow> GetUpstream (nd_topology n) p)
                             else Some None) of
                         None \<Rightarrow> None
                       | Some (Some target) \<Rightarrow> Some (via fn self target n)
                       | Some None \<Rightarrow> Some (fallback_upstream fn options self n)))))"

definition GetPeerChannel ::
  "('p, 'c) choose_connection \<Rightarrow> NodeGetPeerOptions option \<Rightarrow> BusIdType \<Rightarrow> ('p, 'c) Node
    \<Rightarrow> (('p, 'c) Node \<times> ErrorType \<times> nat option \<times> nat option \<times> nat option) option" where
  "GetPeerChannel fn options tid n =
     (case nd_self n of
        None \<Rightarrow> Some (n, EN_ATBUS_ERR_NOT_INITED, None, None, None)
      | Some self \<Rightarrow>
          if nd_state n = NodeState_Created then Some (n, EN_ATBUS_ERR_NOT_INITED, None, None, None)
          else if tid = Node_GetId n then Some (n, EN_ATBUS_ERR_ATNODE_INVALID_ID, None, None, None)
          else case choose_hop fn options tid self n of
            None \<Rightarrow> None
          | Some (n, ret, ep, conn) \<Rightarrow>
              let peer = (case ep of None \<Rightarrow> None | Some e \<Rightarrow> GetPeer (nd_topology n) (ep_id (nd_eps n ! e))) in
              Some (if ret \<noteq> EN_ATBUS_ERR_SUCCESS then (n, ret, ep, conn, peer)
                    else if ep = None then (n, EN_ATBUS_ERR_ATNODE_INVALID_ID, ep, conn, None)
                    else if conn = None then (n, EN_ATBUS_ERR_ATNODE_NO_CONNECTION, ep, conn, peer)
                    else (n, ret, ep, conn, peer)))"

subsection \<open>Faults\<close>

definition addEndpointFault :: "nat option \<Rightarrow> ('p, 'c) Node \<Rightarrow> ('p, 'c) Node \<times> bool" where
  "addEndpointFault ep n =
     (case ep of
        None \<Rightarrow> (n, False)
      | Some e \<Rightarrow>
          let faultCount = es_FaultCount (ep_stat (nd_eps n ! e)) + 1;
              n = upd_ep e (\<lambda>x. fst (Endpoint_AddStatisticFault x)) n
          in if ucast (FaultTolerant (nd_configure n)) \<le> faultCount then (fst (RemoveEndpoint e n), True) else (n, False))"

text \<open>The log message of \<open>addConnectionFault\<close> asks the binding for its id: a connection without endpoint panics.\<close>

definition addConnectionFault ::
  "'p ping_ops \<Rightarrow> 'c connecting_ops \<Rightarrow> nat \<Rightarrow> nat \<Rightarrow> ('p, 'c) Node \<Rightarrow> (('p, 'c) Node \<times> bool) outcome option" where
  "addConnectionFault P C d c n =
     (let faultCount = ConnFaultCount (cn_statistic (nd_conns n ! c)) + 1;
          n = upd_conn c (\<lambda>x. fst (Connection_AddStatisticFault x)) n
      in if ucast (FaultTolerant (nd_configure n)) \<le> faultCount then
           (case cn_binding (nd_conns n ! c) of
              None \<Rightarrow> Some Panics
            | Some _ \<Rightarrow> map_option (\<lambda>n. Returns (n, True)) (Connection_Reset P C d c n))
         else Some (Returns (n, False)))"

subsection \<open>Lemmas on the route table\<close>

definition ids :: "('p, 'c) Node \<Rightarrow> BusIdType list" where
  "ids n = map ep_id (nd_eps n)"

lemma ids_nth: "e < length (nd_eps n) \<Longrightarrow> ep_id (nd_eps n ! e) = ids n ! e"
  by (simp add: ids_def)

lemma map_ep_id_update: "ep_id (f (xs ! e)) = ep_id (xs ! e) \<Longrightarrow> map ep_id (xs[e := f (xs ! e)]) = map ep_id xs"
  by (metis list_update_id map_update)

lemma route_views [simp]:
  "nd_route (log_event ev n) = nd_route n" "nd_upstream (log_event ev n) = nd_upstream n" "nd_topology (log_event ev n) = nd_topology n"
  "nd_self (log_event ev n) = nd_self n" "nd_state (log_event ev n) = nd_state n" "nd_flags (log_event ev n) = nd_flags n"
  "nd_route (setState s n) = nd_route n" "nd_upstream (setState s n) = nd_upstream n" "nd_topology (setState s n) = nd_topology n"
  "nd_self (setState s n) = nd_self n" "nd_eps (setState s n) = nd_eps n" "nd_state (setState s n) = s"
  "nd_route (upd_ep e f n) = nd_route n" "nd_upstream (upd_ep e f n) = nd_upstream n" "nd_topology (upd_ep e f n) = nd_topology n"
  "nd_self (upd_ep e f n) = nd_self n" "nd_state (upd_ep e f n) = nd_state n" "nd_flags (upd_ep e f n) = nd_flags n"
  by (simp_all add: log_event_def setState_def upd_ep_def)

lemma ping_route_views [simp]:
  "nd_route (AddPingTimer P e n) = nd_route n" "nd_upstream (AddPingTimer P e n) = nd_upstream n" "nd_topology (AddPingTimer P e n) = nd_topology n"
  "nd_self (AddPingTimer P e n) = nd_self n" "nd_state (AddPingTimer P e n) = nd_state n" "nd_flags (AddPingTimer P e n) = nd_flags n"
  by (simp_all add: AddPingTimer_def ClearPingTimer_def addPingTimer_def removePingTimer_def Let_def)

lemma ids_views [simp]:
  "ids (log_event ev n) = ids n" "ids (setState s n) = ids n" "ids (AddPingTimer P e n) = ids n"
proof -
  have f: "ep_id (Endpoint_SetFlag f v x) = ep_id x" for f v x by (simp add: Endpoint_SetFlag_def Endpoint_setFlag_def)
  show "ids (AddPingTimer P e n) = ids n"
    by (simp add: ids_def AddPingTimer_def ClearPingTimer_def addPingTimer_def removePingTimer_def Let_def map_ep_id_update f)
qed (simp_all add: ids_def)

lemma shutdown_route_views [simp]:
  "nd_route (fst (FatalShutdown r n)) = nd_route n" "nd_upstream (fst (FatalShutdown r n)) = nd_upstream n"
  "nd_topology (fst (FatalShutdown r n)) = nd_topology n" "nd_self (fst (FatalShutdown r n)) = nd_self n" "ids (fst (FatalShutdown r n)) = ids n"
  "nd_state (fst (FatalShutdown r n)) = nd_state n"
  by (simp_all add: FatalShutdown_def Shutdown_def OnShutdown_def ids_def)

lemma OnActived_views [simp]:
  "nd_route (OnActived n) = nd_route n" "nd_upstream (OnActived n) = nd_upstream n" "nd_topology (OnActived n) = nd_topology n"
  "nd_self (OnActived n) = nd_self n" "ids (OnActived n) = ids n" "nd_eps (OnActived n) = nd_eps n" "nd_state (OnActived n) = NodeState_Running"
  by (simp_all add: OnActived_def Let_def ids_def)

definition self_id :: "nat option \<Rightarrow> BusIdType list \<Rightarrow> BusIdType" where
  "self_id self is = (case self of None \<Rightarrow> 0 | Some e \<Rightarrow> is ! e)"

text \<open>The endpoint found under an id, as a function of the ids, the upstream and the route table.\<close>

definition lookup :: "BusIdType list \<Rightarrow> nat option \<Rightarrow> (BusIdType \<rightharpoonup> nat) \<Rightarrow> BusIdType \<Rightarrow> nat option" where
  "lookup is up R i = (case up of Some u \<Rightarrow> if is ! u = i then Some u else R i | None \<Rightarrow> R i)"

definition topo_upstream :: "BusIdType \<Rightarrow> TopologyRegistry \<Rightarrow> BusIdType option" where
  "topo_upstream self r = (if self = 0 then None else
     case GetPeerInstance r self of
       None \<Rightarrow> None
     | Some s \<Rightarrow> map_option (GetBusId r) (GetUpstream r s))"

definition in_range :: "('p, 'c) Node \<Rightarrow> bool" where
  "in_range n \<longleftrightarrow> (case nd_self n of None \<Rightarrow> True | Some s \<Rightarrow> s < length (ids n)) \<and> (case nd_upstream n of None \<Rightarrow> True | Some u \<Rightarrow> u < length (ids n))
     \<and> list_all (\<lambda>(i, e). e < length (ids n) \<and> ids n ! e = i) (nd_route n)"

text \<open>
  The invariant: the route table has one entry per id, under the id of the endpoint; neither the upstream
  endpoint nor an endpoint with the id of the upstream in the topology is in it.
\<close>

definition route_wf :: "('p, 'c) Node \<Rightarrow> bool" where
  "route_wf n \<longleftrightarrow> in_range n \<and> distinct (map fst (nd_route n))
     \<and> (case nd_upstream n of None \<Rightarrow> True | Some u \<Rightarrow> map_of (nd_route n) (ids n ! u) = None)
     \<and> (case topo_upstream (self_id (nd_self n) (ids n)) (nd_topology n) of None \<Rightarrow> True | Some i \<Rightarrow> map_of (nd_route n) i = None)"

lemma Node_GetId_ids: "in_range n \<Longrightarrow> Node_GetId n = self_id (nd_self n) (ids n)"
  by (auto simp: Node_GetId_def self_id_def in_range_def ids_def split: option.splits)

lemma GetEndpoint_lookup: "in_range n \<Longrightarrow> GetEndpoint i n = lookup (ids n) (nd_upstream n) (map_of (nd_route n)) i"
  by (auto simp: GetEndpoint_def lookup_def findRouteEndpoint_def in_range_def ids_def split: option.splits)

lemma is_upstream_id_iff:
  "in_range n \<Longrightarrow> is_upstream_id i n \<longleftrightarrow>
     (\<exists>u. nd_upstream n = Some u \<and> ids n ! u = i) \<or> topo_upstream (self_id (nd_self n) (ids n)) (nd_topology n) = Some i"
  by (auto simp: is_upstream_id_def topo_upstream_def Node_GetId_ids in_range_def ids_def split: option.splits)

lemma map_of_filter_ne: "map_of (filter (\<lambda>kv. fst kv \<noteq> i) xs) = (map_of xs)(i := None)"
  by (induction xs) (auto simp: fun_eq_iff)

lemma distinct_filter_keys: "distinct (map fst xs) \<Longrightarrow> distinct (map fst (filter P xs))"
  by (simp add: distinct_map_filter)

lemma insertChild_route:
  assumes "in_range n" and "e < length (ids n)"
  shows "map_of (nd_route (insertChild e b n)) = (map_of (nd_route n))(ids n ! e \<mapsto> e)"
    "distinct (map fst (nd_route n)) \<Longrightarrow> distinct (map fst (nd_route (insertChild e b n)))"
    "in_range (insertChild e b n)"
  using assms by (auto simp: insertChild_def Let_def map_of_filter_ne distinct_filter_keys fun_eq_iff in_range_def ids_def list_all_iff split: option.splits)

lemma insertChild_views [simp]:
  "nd_upstream (insertChild e b n) = nd_upstream n" "nd_topology (insertChild e b n) = nd_topology n" "nd_self (insertChild e b n) = nd_self n"
  "ids (insertChild e b n) = ids n" "nd_eps (insertChild e b n) = nd_eps n" "nd_state (insertChild e b n) = nd_state n" "nd_flags (insertChild e b n) = nd_flags n"
  by (simp_all add: insertChild_def Let_def ids_def)

lemma removeChild_views [simp]:
  "nd_upstream (fst (removeChild i x b n)) = nd_upstream n" "nd_topology (fst (removeChild i x b n)) = nd_topology n"
  "nd_self (fst (removeChild i x b n)) = nd_self n" "ids (fst (removeChild i x b n)) = ids n" "nd_eps (fst (removeChild i x b n)) = nd_eps n"
  by (simp_all add: removeChild_def Let_def ids_def split: option.split)

lemma removeChild_route:
  "snd (removeChild i x b n) \<longleftrightarrow> (case map_of (nd_route n) i of None \<Rightarrow> False | Some e \<Rightarrow> x = None \<or> x = Some e)"
  "map_of (nd_route (fst (removeChild i x b n))) = (if snd (removeChild i x b n) then (map_of (nd_route n))(i := None) else map_of (nd_route n))"
  "\<not> snd (removeChild i x b n) \<Longrightarrow> fst (removeChild i x b n) = n"
  "distinct (map fst (nd_route n)) \<Longrightarrow> distinct (map fst (nd_route (fst (removeChild i x b n))))"
  "in_range n \<Longrightarrow> in_range (fst (removeChild i x b n))"
  by (auto simp: removeChild_def Let_def map_of_filter_ne distinct_filter_keys in_range_def ids_def list_all_iff split: option.splits)

lemma in_range_cong:
  "ids n' = ids n \<Longrightarrow> nd_self n' = nd_self n \<Longrightarrow> nd_upstream n' = nd_upstream n \<Longrightarrow> nd_route n' = nd_route n \<Longrightarrow> in_range n' = in_range n"
  by (simp add: in_range_def split: option.split)

lemma route_wf_cong:
  "ids n' = ids n \<Longrightarrow> nd_self n' = nd_self n \<Longrightarrow> nd_upstream n' = nd_upstream n \<Longrightarrow> nd_route n' = nd_route n \<Longrightarrow> nd_topology n' = nd_topology n
    \<Longrightarrow> route_wf n' = route_wf n"
  by (simp add: route_wf_def in_range_def split: option.split)

lemma route_wfD:
  assumes "route_wf n"
  shows "in_range n" "distinct (map fst (nd_route n))" "nd_upstream n = Some u \<Longrightarrow> u < length (ids n)"
    "nd_upstream n = Some u \<Longrightarrow> map_of (nd_route n) (ids n ! u) = None"
    "topo_upstream (self_id (nd_self n) (ids n)) (nd_topology n) = Some i \<Longrightarrow> map_of (nd_route n) i = None"
    "map_of (nd_route n) i = Some e \<Longrightarrow> e < length (ids n) \<and> ids n ! e = i"
  using assms by (auto simp: route_wf_def in_range_def list_all_iff dest!: map_of_SomeD split: option.splits)

lemma AddEndpoint_effect:
  assumes "in_range n" and "\<not> Node_CheckFlag NodeFlag_Resetting n" and "nd_self n \<noteq> None" and "e < length (nd_eps n)"
    and "AddEndpoint P e n = (n', ret)"
  shows "ret = EN_ATBUS_ERR_SUCCESS" "ids n' = ids n" "nd_self n' = nd_self n" "nd_topology n' = nd_topology n"
    "nd_upstream n' = (if nd_upstream n = Some e \<or> is_upstream_id (ids n ! e) n then Some e else nd_upstream n)"
    "nd_route n' = (if nd_upstream n = Some e \<or> is_upstream_id (ids n ! e) n then nd_route n else nd_route (insertChild e False n))"
proof -
  have id: "ep_id (nd_eps n ! e) = ids n ! e" using assms(4) by (simp add: ids_def)
  have ids: "ids (n\<lparr>nd_upstream := x\<rparr>) = ids n" for x by (simp add: ids_def)
  let ?n1 = "n\<lparr>nd_upstream := Some e\<rparr>"
  let ?n2 = "if \<not> Endpoint_GetFlag EndpointFlag_HasPingTimer (nd_eps ?n1 ! e) then AddPingTimer P e ?n1 else ?n1"
  let ?n3 = "if (nd_state ?n2 = NodeState_LostUpstream \<or> nd_state ?n2 = NodeState_ConnectingUpstream) \<and> Node_CheckFlag NodeFlag_UpstreamRegDone ?n2
    then OnActived ?n2 else ?n2"
  have R: "(n', ret) = (if nd_upstream n = Some e then (n, EN_ATBUS_ERR_SUCCESS)
      else if is_upstream_id (ids n ! e) n then (log_event (OnEndpointAdded e) ?n3, EN_ATBUS_ERR_SUCCESS)
      else (AddPingTimer P e (insertChild e False n), EN_ATBUS_ERR_SUCCESS))"
  proof -
    obtain y where "nd_self n = Some y" using assms(3) by blast
    with assms(2) assms(5) [unfolded AddEndpoint_def Let_def id] show ?thesis by (simp only: if_False option.distinct simp_thms)
  qed
  have V: "ids ?n3 = ids n" "nd_self ?n3 = nd_self n" "nd_topology ?n3 = nd_topology n" "nd_upstream ?n3 = Some e" "nd_route ?n3 = nd_route n"
    by (simp_all add: ids)
  consider "nd_upstream n = Some e" | "nd_upstream n \<noteq> Some e" "is_upstream_id (ids n ! e) n" | "nd_upstream n \<noteq> Some e" "\<not> is_upstream_id (ids n ! e) n" by blast
  then have "ret = EN_ATBUS_ERR_SUCCESS \<and> ids n' = ids n \<and> nd_self n' = nd_self n \<and> nd_topology n' = nd_topology n
    \<and> nd_upstream n' = (if nd_upstream n = Some e \<or> is_upstream_id (ids n ! e) n then Some e else nd_upstream n)
    \<and> nd_route n' = (if nd_upstream n = Some e \<or> is_upstream_id (ids n ! e) n then nd_route n else nd_route (insertChild e False n))"
  proof cases
    case 2
    then have "n' = log_event (OnEndpointAdded e) ?n3" "ret = EN_ATBUS_ERR_SUCCESS" using R by simp_all
    with 2 V show ?thesis by simp
  qed (use R in simp_all)
  then show "ret = EN_ATBUS_ERR_SUCCESS" "ids n' = ids n" "nd_self n' = nd_self n" "nd_topology n' = nd_topology n"
    "nd_upstream n' = (if nd_upstream n = Some e \<or> is_upstream_id (ids n ! e) n then Some e else nd_upstream n)"
    "nd_route n' = (if nd_upstream n = Some e \<or> is_upstream_id (ids n ! e) n then nd_route n else nd_route (insertChild e False n))"
    by blast+
qed

lemma AddEndpoint_keeps:
  assumes "route_wf n" and "e < length (nd_eps n)" and "AddEndpoint P e n = (n', ret)"
  shows "route_wf n'"
proof (cases "Node_CheckFlag NodeFlag_Resetting n \<or> nd_self n = None")
  case True
  with assms show ?thesis by (auto simp: AddEndpoint_def split: if_splits)
next
  case False
  note D = route_wfD [OF assms(1)]
  have e: "e < length (ids n)" using assms(2) by (simp add: ids_def)
  let ?up = "nd_upstream n = Some e \<or> is_upstream_id (ids n ! e) n"
  have E: "ids n' = ids n" "nd_self n' = nd_self n" "nd_topology n' = nd_topology n"
    "nd_upstream n' = (if ?up then Some e else nd_upstream n)" "nd_route n' = (if ?up then nd_route n else nd_route (insertChild e False n))"
    using AddEndpoint_effect [OF D(1) _ _ assms(2,3)] False by blast+
  note I = insertChild_route [OF D(1) e, of False]
  have none: "map_of (nd_route n) (ids n ! e) = None" if "?up"
    using that D(4) [of e] D(4) D(5) [of "ids n ! e"] is_upstream_id_iff [OF D(1), of "ids n ! e"] by auto
  have range: "in_range n'"
    using D(1) I(3) e E unfolding in_range_def by (cases ?up) (auto split: option.splits)
  show ?thesis
    using assms(1) range E I(1,2) none D(2,4,5) is_upstream_id_iff [OF D(1), of "ids n ! e"]
    unfolding route_wf_def by (cases ?up) (auto split: option.splits)
qed

text \<open>C20: adding an endpoint succeeds whenever the node is initialised and not being reset, and then the endpoint is the one found
  under its id. It becomes the upstream endpoint exactly when its id is the upstream's, now or in the
  topology; no endpoint under another id is lost, except an older upstream with another id that it
  replaces. The route table stays well-formed.\<close>

theorem AddEndpoint_registers:
  assumes "route_wf n" and "e < length (nd_eps n)" and "AddEndpoint P e n = (n', ret)"
  shows "route_wf n'
    \<and> (if Node_CheckFlag NodeFlag_Resetting n then ret = EN_ATBUS_ERR_CLOSING \<and> n' = n
       else if nd_self n = None then ret = EN_ATBUS_ERR_NOT_INITED \<and> n' = n
       else ret = EN_ATBUS_ERR_SUCCESS \<and> GetEndpoint (ep_id (nd_eps n ! e)) n' = Some e
         \<and> (nd_upstream n' = Some e \<longleftrightarrow> nd_upstream n = Some e \<or> is_upstream_id (ep_id (nd_eps n ! e)) n)
         \<and> (\<forall>i. i \<noteq> ep_id (nd_eps n ! e) \<longrightarrow> GetEndpoint i n' = GetEndpoint i n
              \<or> (nd_upstream n' = Some e \<and> (\<exists>u. nd_upstream n = Some u \<and> ep_id (nd_eps n ! u) = i \<and> GetEndpoint i n' = None))))"
proof (cases "Node_CheckFlag NodeFlag_Resetting n \<or> nd_self n = None")
  case True
  with assms show ?thesis by (auto simp: AddEndpoint_def)
next
  case False
  note D = route_wfD [OF assms(1)]
  have e: "e < length (ids n)" using assms(2) by (simp add: ids_def)
  let ?up = "nd_upstream n = Some e \<or> is_upstream_id (ids n ! e) n"
  have E: "ret = EN_ATBUS_ERR_SUCCESS" "ids n' = ids n" "nd_self n' = nd_self n" "nd_topology n' = nd_topology n"
    "nd_upstream n' = (if ?up then Some e else nd_upstream n)" "nd_route n' = (if ?up then nd_route n else nd_route (insertChild e False n))"
    using AddEndpoint_effect [OF D(1) _ _ assms(2,3)] False by blast+
  note I = insertChild_route [OF D(1) e, of False]
  have wf: "route_wf n'" by (rule AddEndpoint_keeps [OF assms])
  note range = route_wfD(1) [OF wf]
  have L: "GetEndpoint i n' = lookup (ids n) (nd_upstream n') (map_of (nd_route n')) i" "GetEndpoint i n = lookup (ids n) (nd_upstream n) (map_of (nd_route n)) i" for i
    using GetEndpoint_lookup [OF range] GetEndpoint_lookup [OF D(1)] E(2) by simp_all
  have idu: "ep_id (nd_eps n ! u) = ids n ! u" if "nd_upstream n = Some u" for u using D(3) [OF that] by (simp add: ids_def)
  have ide: "ep_id (nd_eps n ! e) = ids n ! e" using e by (simp add: ids_def)
  have sel: "GetEndpoint (ids n ! e) n' = Some e"
    using E(5,6) I(1) is_upstream_id_iff [OF D(1), of "ids n ! e"] unfolding L lookup_def by (cases ?up) (auto split: option.splits)
  have other: "GetEndpoint i n' = GetEndpoint i n \<or> (nd_upstream n' = Some e \<and> (\<exists>u. nd_upstream n = Some u \<and> ids n ! u = i \<and> GetEndpoint i n' = None))"
    if "i \<noteq> ids n ! e" for i
    using that E(5,6) I(1) D(4) unfolding L lookup_def by (cases ?up) (auto split: option.splits)
  have "nd_upstream n' = Some e \<longleftrightarrow> ?up" using E(5) by auto
  moreover have "GetEndpoint i n' = GetEndpoint i n \<or> (nd_upstream n' = Some e \<and> (\<exists>u. nd_upstream n = Some u \<and> ep_id (nd_eps n ! u) = i \<and> GetEndpoint i n' = None))"
    if "i \<noteq> ids n ! e" for i using other [OF that] idu by metis
  moreover obtain y where "nd_self n = Some y" "\<not> Node_CheckFlag NodeFlag_Resetting n" using False by auto
  ultimately show ?thesis using wf E(1) sel ide by simp
qed

lemma GetEndpoint_views:
  "ids n' = ids n \<Longrightarrow> in_range n \<Longrightarrow> in_range n' \<Longrightarrow> nd_upstream n' = nd_upstream n \<Longrightarrow> nd_route n' = nd_route n \<Longrightarrow> GetEndpoint i n' = GetEndpoint i n"
  by (simp add: GetEndpoint_lookup)

lemma RemoveEndpoint_child:
  assumes "route_wf n" and "e < length (nd_eps n)" and "\<not> (\<exists>u. nd_upstream n = Some u \<and> ids n ! u = ids n ! e)"
  shows "RemoveEndpoint e n = (if ids n ! e = Node_GetId n then (n, EN_ATBUS_ERR_ATNODE_INVALID_ID)
     else (fst (removeChild (ids n ! e) (Some e) False n),
           if map_of (nd_route n) (ids n ! e) = Some e then EN_ATBUS_ERR_SUCCESS else EN_ATBUS_ERR_ATNODE_NOT_FOUND))"
proof -
  have e: "ep_id (nd_eps n ! e) = ids n ! e" using assms(2) by (simp add: ids_def)
  have u: "ep_id (nd_eps n ! u) \<noteq> ids n ! e" if "nd_upstream n = Some u" for u
    using assms(3) that route_wfD(3) [OF assms(1) that] by (auto simp: ids_def)
  have "snd (removeChild (ids n ! e) (Some e) False n) \<longleftrightarrow> map_of (nd_route n) (ids n ! e) = Some e"
    by (auto simp: removeChild_route(1) split: option.splits)
  then show ?thesis using u by (auto simp: RemoveEndpoint_def e split: option.split prod.split)
qed

lemma route_wf_removed:
  assumes "route_wf n"
  shows "route_wf (fst (removeChild i x b n))" "j \<noteq> i \<Longrightarrow> GetEndpoint j (fst (removeChild i x b n)) = GetEndpoint j n"
proof -
  note D = route_wfD [OF assms] and R = removeChild_route [where i = i and x = x and b = b and n = n]
  have none: "map_of (nd_route (fst (removeChild i x b n))) k = None" if "map_of (nd_route n) k = None" for k
    using that unfolding R(2) by simp
  show "route_wf (fst (removeChild i x b n))"
    using assms R(4) [OF D(2)] R(5) [OF D(1)] none unfolding route_wf_def by (auto split: option.splits)
  show "GetEndpoint j (fst (removeChild i x b n)) = GetEndpoint j n" if "j \<noteq> i"
    using that R(2) by (simp add: GetEndpoint_lookup [OF D(1)] GetEndpoint_lookup [OF R(5) [OF D(1)]] lookup_def split: option.split)
qed

text \<open>What is left of a node whose upstream endpoint was removed.\<close>

lemma RemoveEndpoint_upstream:
  assumes "nd_upstream n = Some e" and "RemoveEndpoint e n = (n', ret)"
  shows "ret = EN_ATBUS_ERR_SUCCESS" "ids n' = ids n" "nd_self n' = nd_self n" "nd_topology n' = nd_topology n" "nd_route n' = nd_route n" "nd_upstream n' = None"
    "nd_state n = NodeState_Running \<or> nd_state n = NodeState_ConnectingUpstream \<Longrightarrow> nd_state n' = NodeState_LostUpstream \<and> nd_upstreamOpTimepoint n' = nd_tick n"
    "\<not> Node_CheckFlag NodeFlag_Actived n \<Longrightarrow> Node_CheckFlag NodeFlag_Shutdown n'"
proof -
  let ?n1 = "n\<lparr>nd_upstream := None\<rparr>"
  let ?n2 = "if nd_state ?n1 = NodeState_Running \<or> nd_state ?n1 = NodeState_ConnectingUpstream
    then (setState NodeState_LostUpstream ?n1)\<lparr>nd_upstreamOpTimepoint := nd_tick ?n1\<rparr>
    else ?n1\<lparr>nd_upstreamOpTimepoint := nd_tick ?n1 + RetryInterval (nd_configure ?n1)\<rparr>"
  let ?n3 = "log_event (OnEndpointRemoved e) ?n2"
  have n': "n' = (if \<not> Node_CheckFlag NodeFlag_Actived ?n3 then fst (FatalShutdown EN_ATBUS_ERR_ATNODE_MASK_CONFLICT ?n3) else ?n3)" "ret = EN_ATBUS_ERR_SUCCESS"
    using assms(2,1) unfolding RemoveEndpoint_def Let_def by (simp_all only: option.case if_True if_False simp_thms prod.inject)
  have flags: "Node_CheckFlag f ?n3 = Node_CheckFlag f n" for f by (simp add: Node_CheckFlag_def setState_def)
  have v2: "ids ?n3 = ids n" "nd_self ?n3 = nd_self n" "nd_topology ?n3 = nd_topology n" "nd_route ?n3 = nd_route n" "nd_upstream ?n3 = None"
    by (simp_all add: ids_def)
  show "ret = EN_ATBUS_ERR_SUCCESS" by (fact n'(2))
  show "ids n' = ids n" "nd_self n' = nd_self n" "nd_topology n' = nd_topology n" "nd_route n' = nd_route n" "nd_upstream n' = None"
    unfolding n'(1) using v2 by simp_all
  have op: "nd_upstreamOpTimepoint (fst (FatalShutdown r x)) = nd_upstreamOpTimepoint x" for r and x :: "('a, 'b) Node"
    by (simp add: FatalShutdown_def Shutdown_def OnShutdown_def log_event_def)
  have op2: "nd_upstreamOpTimepoint (log_event ev x) = nd_upstreamOpTimepoint x" for ev and x :: "('a, 'b) Node" by (simp add: log_event_def)
  have st: "nd_state n' = nd_state ?n3 \<and> nd_upstreamOpTimepoint n' = nd_upstreamOpTimepoint ?n3" unfolding n'(1) by (simp add: op op2)
  show "nd_state n' = NodeState_LostUpstream \<and> nd_upstreamOpTimepoint n' = nd_tick n" if "nd_state n = NodeState_Running \<or> nd_state n = NodeState_ConnectingUpstream"
    using st that by (auto simp: op2)
  have down: "Node_CheckFlag NodeFlag_Shutdown (fst (FatalShutdown r x))" for r and x :: "('a, 'b) Node"
  proof -
    have "has_flag NodeFlag_Shutdown (w OR NodeFlag_Shutdown)" for w
      using has_flag_put_same [of NodeFlag_Shutdown True w] by (simp add: put_flag_def NodeFlag_Shutdown_def)
    then show ?thesis by (simp add: FatalShutdown_def Shutdown_def OnShutdown_def Node_CheckFlag_def)
  qed
  show "Node_CheckFlag NodeFlag_Shutdown n'" if "\<not> Node_CheckFlag NodeFlag_Actived n"
    using that unfolding n'(1) flags by (simp add: down)
qed

lemma RemoveEndpoint_keeps:
  assumes "route_wf n" and "e < length (nd_eps n)" and "RemoveEndpoint e n = (n', ret)"
  shows "route_wf n'"
proof (cases "nd_upstream n = Some e")
  case True
  note v = RemoveEndpoint_upstream [OF True assms(3)]
  have "in_range n'" using route_wfD(1) [OF assms(1)] v(2-6) by (simp add: in_range_def split: option.splits)
  then show ?thesis using assms(1) v(2-6) by (simp add: route_wf_def split: option.splits)
next
  case False
  have id: "ep_id (nd_eps n ! e) = ids n ! e" using assms(2) by (simp add: ids_def)
  show ?thesis
  proof (cases "\<exists>u. nd_upstream n = Some u \<and> ids n ! u = ids n ! e")
    case True
    then obtain u where u: "nd_upstream n = Some u" "ids n ! u = ids n ! e" "u \<noteq> e" using False by auto
    have "ep_id (nd_eps n ! u) = ids n ! u" using route_wfD(3) [OF assms(1) u(1)] by (simp add: ids_def)
    then show ?thesis using assms u by (simp add: RemoveEndpoint_def id)
  next
    case no: False
    show ?thesis
      using assms(1,3) route_wf_removed(1) [OF assms(1)] unfolding RemoveEndpoint_child [OF assms(1,2) no] by (auto split: if_splits)
  qed
qed

text \<open>C21: removing an endpoint succeeds exactly when it is the one found under its id (and not the node itself), and then nothing is
  found there any more; a failing removal changes nothing, and no other endpoint is affected. Removing
  the upstream endpoint makes a running node look for its upstream again at once, and shuts down a node
  that was never active.\<close>

theorem RemoveEndpoint_unregisters:
  assumes "route_wf n" and "e < length (nd_eps n)" and "RemoveEndpoint e n = (n', ret)"
  shows "route_wf n'
    \<and> (ret = EN_ATBUS_ERR_SUCCESS \<longleftrightarrow> GetEndpoint (ep_id (nd_eps n ! e)) n = Some e \<and> (nd_upstream n = Some e \<or> ep_id (nd_eps n ! e) \<noteq> Node_GetId n))
    \<and> (ret \<noteq> EN_ATBUS_ERR_SUCCESS \<longrightarrow> n' = n)
    \<and> (ret = EN_ATBUS_ERR_SUCCESS \<longrightarrow> GetEndpoint (ep_id (nd_eps n ! e)) n' = None)
    \<and> (\<forall>i. i \<noteq> ep_id (nd_eps n ! e) \<longrightarrow> GetEndpoint i n' = GetEndpoint i n)
    \<and> (nd_upstream n = Some e \<longrightarrow> nd_upstream n' = None
        \<and> (nd_state n = NodeState_Running \<or> nd_state n = NodeState_ConnectingUpstream \<longrightarrow>
             nd_state n' = NodeState_LostUpstream \<and> nd_upstreamOpTimepoint n' = nd_tick n)
        \<and> (\<not> Node_CheckFlag NodeFlag_Actived n \<longrightarrow> Node_CheckFlag NodeFlag_Shutdown n'))"
proof -
  note D = route_wfD [OF assms(1)]
  have id: "ep_id (nd_eps n ! e) = ids n ! e" and e: "e < length (ids n)" using assms(2) by (simp_all add: ids_def)
  have err: "EN_ATBUS_ERR_ATNODE_NOT_FOUND \<noteq> EN_ATBUS_ERR_SUCCESS" "EN_ATBUS_ERR_ATNODE_INVALID_ID \<noteq> EN_ATBUS_ERR_SUCCESS"
    by (simp_all add: EN_ATBUS_ERR_ATNODE_NOT_FOUND_def EN_ATBUS_ERR_ATNODE_INVALID_ID_def EN_ATBUS_ERR_SUCCESS_def)
  have L: "GetEndpoint i n = lookup (ids n) (nd_upstream n) (map_of (nd_route n)) i" for i by (rule GetEndpoint_lookup [OF D(1)])
  show ?thesis
  proof (cases "nd_upstream n = Some e")
    case True
    note v = RemoveEndpoint_upstream [OF True assms(3)]
    have wf: "route_wf n'" by (rule RemoveEndpoint_keeps [OF assms])
    note range = route_wfD(1) [OF wf]
    have L': "GetEndpoint i n' = map_of (nd_route n) i" for i
      using v(5,6) by (simp add: GetEndpoint_lookup [OF range] lookup_def)
    have "\<not> Node_CheckFlag NodeFlag_Actived n \<longrightarrow> Node_CheckFlag NodeFlag_Shutdown n'" using v(8) by blast
    moreover have "GetEndpoint (ids n ! e) n = Some e" "GetEndpoint (ids n ! e) n' = None" using True D(4) [OF True] by (simp_all add: L L' lookup_def)
    moreover have "\<forall>i. i \<noteq> ids n ! e \<longrightarrow> GetEndpoint i n' = GetEndpoint i n" using True by (simp add: L L' lookup_def)
    ultimately show ?thesis using True wf v(1,6,7) by (simp add: id)
  next
    case False
    show ?thesis
    proof (cases "\<exists>u. nd_upstream n = Some u \<and> ids n ! u = ids n ! e")
      case True
      then obtain u where u: "nd_upstream n = Some u" "ids n ! u = ids n ! e" "u \<noteq> e" using False by auto
      have "ep_id (nd_eps n ! u) = ids n ! u" using D(3) [OF u(1)] by (simp add: ids_def)
      then have "n' = n" "ret = EN_ATBUS_ERR_ATNODE_NOT_FOUND" using assms(3) u by (simp_all add: RemoveEndpoint_def id)
      moreover have "GetEndpoint (ids n ! e) n = Some u" using u by (simp add: L lookup_def)
      ultimately show ?thesis using False err assms(1) u by (simp add: id)
    next
      case no: False
      note RE = RemoveEndpoint_child [OF assms(1,2) no]
      have g: "GetEndpoint (ids n ! e) n = map_of (nd_route n) (ids n ! e)" using no by (auto simp: L lookup_def split: option.split)
      let ?m = "fst (removeChild (ids n ! e) (Some e) False n)"
      note R = removeChild_route [where i = "ids n ! e" and x = "Some e" and b = False and n = n]
        and W = route_wf_removed [OF assms(1), where i = "ids n ! e" and x = "Some e" and b = False]
      have found: "snd (removeChild (ids n ! e) (Some e) False n) \<longleftrightarrow> map_of (nd_route n) (ids n ! e) = Some e"
        by (auto simp: R(1) split: option.splits)
      have gone: "GetEndpoint (ids n ! e) ?m = None" if "map_of (nd_route n) (ids n ! e) = Some e"
        using that found no D(1) by (auto simp: GetEndpoint_lookup [OF R(5) [OF D(1)]] lookup_def R(2) split: option.split)
      show ?thesis
        using assms(1,3) False W R(3) found gone g err unfolding RE by (auto simp: id split: if_splits)
    qed
  qed
qed

lemma topo_upstream_linked:
  assumes "linked s u d r r'" and "topo_inv r'" and "s \<noteq> 0"
  shows "topo_upstream s r' = (if u = 0 then None else Some u)"
proof -
  obtain p where p: "peers r' s = Some p" "GetUpstream r' p = (if u = 0 then None else peers r' u)" using assms(1) by (auto simp: linked_def)
  show ?thesis
  proof (cases "u = 0")
    case False
    with assms(1) obtain q where q: "peers r' u = Some q" by (auto simp: linked_def)
    then have "GetBusId r' q = u" using wf_viewsD(2) [OF assms(2) [unfolded topo_inv_def]] by blast
    with p q False assms(3) show ?thesis by (simp add: topo_upstream_def GetPeerInstance_def)
  qed (use p assms(3) in \<open>simp add: topo_upstream_def GetPeerInstance_def\<close>)
qed

lemma topo_upstream_same: "same_links r r' \<Longrightarrow> topo_upstream s r' = topo_upstream s r"
  by (simp add: topo_upstream_def same_links_def GetPeerInstance_def split: option.split)

lemma upstream_unchanged_iff:
  "s \<noteq> 0 \<Longrightarrow> upstream_unchanged u r (GetPeerInstance r s) \<Longrightarrow> topo_upstream s r = (if u = 0 then None else Some u)"
  by (auto simp: upstream_unchanged_def topo_upstream_def split: option.splits)

lemma lookup_moved:
  assumes "\<And>u. up = Some u \<Longrightarrow> is ! u \<noteq> tid \<and> R (is ! u) = None" and "\<And>u. R tid = Some u \<Longrightarrow> is ! u = tid"
    and "R2 = (case up of None \<Rightarrow> R | Some u \<Rightarrow> R(is ! u \<mapsto> u))"
  shows "lookup is (if tid = 0 then None else R2 tid) (if tid = 0 then R2 else R2(tid := None)) i = lookup is up R i" "R2 tid = lookup is up R tid"
proof -
  show t: "R2 tid = lookup is up R tid" using assms by (cases up) (auto simp: lookup_def)
  show "lookup is (if tid = 0 then None else R2 tid) (if tid = 0 then R2 else R2(tid := None)) i = lookup is up R i"
  proof (cases up)
    case None
    then show ?thesis using assms by (cases "R tid") (auto simp: lookup_def)
  next
    case (Some u)
    then show ?thesis using assms by (cases "R tid") (auto simp: lookup_def)
  qed
qed

text \<open>The route table after the registry accepted a new upstream.\<close>

lemma SetTopologyUpstream_accepted:
  assumes "route_wf n" and "topo_inv r" and "Node_GetId n \<noteq> 0" and "\<not> (\<exists>u. nd_upstream n = Some u \<and> ids n ! u = tid)"
    and "\<not> upstream_unchanged tid (nd_topology n) (GetPeerInstance (nd_topology n) (Node_GetId n))"
    and "UpdatePeer (Node_GetId n) tid None (nd_topology n) = Some (r, True)" and "linked (Node_GetId n) tid None (nd_topology n) r"
  obtains n' where "SetTopologyUpstream tid n = Some n'" and "route_wf n'" and "nd_topology n' = r" and "\<And>i. GetEndpoint i n' = GetEndpoint i n"
    and "nd_upstream n' = (if tid = 0 then None else GetEndpoint tid n)"
    and "topo_upstream (Node_GetId n) r = (if tid = 0 then None else Some tid)"
proof -
  note D = route_wfD [OF assms(1)]
  let ?s = "Node_GetId n"
  have s: "?s = self_id (nd_self n) (ids n)" using Node_GetId_ids [OF D(1)] .
  have L: "GetEndpoint i n = lookup (ids n) (nd_upstream n) (map_of (nd_route n)) i" for i by (rule GetEndpoint_lookup [OF D(1)])
  have idu: "ep_id (nd_eps n ! u) = ids n ! u" if "nd_upstream n = Some u" for u using D(3) [OF that] by (simp add: ids_def)
  have early: "\<not> (case nd_upstream n of Some u \<Rightarrow> ep_id (nd_eps n ! u) = tid | None \<Rightarrow> False)" using assms(4) idu by (auto split: option.splits)
  let ?n1 = "n\<lparr>nd_topology := r\<rparr>"
  define n2 where "n2 = (case nd_upstream ?n1 of None \<Rightarrow> ?n1 | Some u \<Rightarrow> insertChild u True ?n1)"
  define n3 where "n3 = (if tid = 0 then n2\<lparr>nd_upstream := None\<rparr> else
    if findRouteEndpoint tid n2 \<noteq> None then fst (removeChild tid None True (n2\<lparr>nd_upstream := findRouteEndpoint tid n2\<rparr>))
    else n2\<lparr>nd_upstream := findRouteEndpoint tid n2\<rparr>)"
  let ?n' = "log_event (OnTopologyUpdateUpstream tid) n3"
  have run: "SetTopologyUpstream tid n = Some ?n'"
    using early assms(3-6) unfolding SetTopologyUpstream_def Let_def n3_def n2_def by simp
  have ids1: "ids ?n1 = ids n" by (simp add: ids_def)
  have range1: "in_range ?n1" using D(1) in_range_cong [of ?n1 n] ids1 by simp
  let ?R = "map_of (nd_route n)"
  have map2: "map_of (nd_route n2) = (case nd_upstream n of None \<Rightarrow> ?R | Some u \<Rightarrow> ?R(ids n ! u \<mapsto> u))"
    using insertChild_route(1) [OF range1] D(3) ids1 by (simp add: n2_def split: option.split)
  have n2: "in_range n2" "distinct (map fst (nd_route n2))" "ids n2 = ids n" "nd_self n2 = nd_self n" "nd_topology n2 = r"
    using insertChild_route(2,3) [OF range1] D(2,3) range1 ids1 by (simp_all add: n2_def split: option.split)
  let ?up = "if tid = 0 then None else map_of (nd_route n2) tid"
  define m where "m = n2\<lparr>nd_upstream := ?up\<rparr>"
  have n3_eq: "n3 = (if ?up = None then m else fst (removeChild tid None True m))" by (simp add: n3_def m_def findRouteEndpoint_def)
  have m: "ids m = ids n" "nd_self m = nd_self n" "nd_topology m = r" "nd_route m = nd_route n2" "nd_upstream m = ?up"
    using n2(3-5) by (simp_all add: ids_def m_def)
  have n3: "ids n3 = ids n" "nd_self n3 = nd_self n" "nd_topology n3 = r" "nd_upstream n3 = ?up"
    unfolding n3_eq using m by simp_all
  have rem: "snd (removeChild tid None True m) \<longleftrightarrow> map_of (nd_route n2) tid \<noteq> None"
    unfolding removeChild_route(1) m(4) by (simp split: option.split)
  have map3: "map_of (nd_route n3) = (if tid = 0 then map_of (nd_route n2) else (map_of (nd_route n2))(tid := None))"
    unfolding n3_eq using rem m(4) by (auto simp: removeChild_route(2))
  have upr: "u < length (ids n) \<and> ids n ! u = tid" if "?up = Some u" for u
    using that n2(1,3) by (auto simp: in_range_def list_all_iff dest!: map_of_SomeD split: if_splits)
  have range2: "in_range m" using n2(1,3,4) m(1,2,4,5) upr unfolding in_range_def by (auto split: option.splits)
  have range3: "in_range n3" unfolding n3_eq using range2 removeChild_route(5) [OF range2] by simp
  have dist3: "distinct (map fst (nd_route n3))"
    unfolding n3_eq using n2(2) m(4) removeChild_route(4) [where n = m] by simp
  have topo3: "topo_upstream ?s r = (if tid = 0 then None else Some tid)" using topo_upstream_linked [of ?s tid None "nd_topology n" r] assms(2,3,7) by simp
  have wf: "route_wf n3"
    unfolding route_wf_def n3 using range3 dist3 upr topo3 s map3 by (auto split: option.splits if_splits)
  have LM: "lookup (ids n) ?up (map_of (nd_route n3)) i = lookup (ids n) (nd_upstream n) ?R i" "map_of (nd_route n2) tid = lookup (ids n) (nd_upstream n) ?R tid" for i
    using lookup_moved [of "nd_upstream n" "ids n" tid ?R, OF _ _ map2] assms(4) D(4,6) unfolding map3 by blast+
  have all: "GetEndpoint i n3 = GetEndpoint i n" for i
    using GetEndpoint_lookup [OF range3, of i] LM(1) [of i] unfolding n3 L by simp
  have "nd_upstream n3 = (if tid = 0 then None else GetEndpoint tid n)" unfolding n3 L LM(2) ..
  moreover have "route_wf ?n'" using wf route_wf_cong [of ?n' n3] by simp
  moreover have "GetEndpoint i ?n' = GetEndpoint i n3" for i by (simp add: GetEndpoint_def findRouteEndpoint_def split: option.split)
  moreover have "nd_upstream ?n' = nd_upstream n3" "nd_topology ?n' = r" using n3(3) by simp_all
  ultimately show ?thesis using that [OF run] all topo3 by simp
qed

lemma SetTopologyUpstream_cases:
  assumes "route_wf n" and "topo_inv (nd_topology n)"
  obtains (same) "SetTopologyUpstream tid n = Some n"
      and "Node_GetId n = 0 \<or> (\<exists>u. nd_upstream n = Some u \<and> ep_id (nd_eps n ! u) = tid)
         \<or> topo_upstream (Node_GetId n) (nd_topology n) = (if tid = 0 then None else Some tid)"
  | (refused) r where "SetTopologyUpstream tid n = Some (n\<lparr>nd_topology := r\<rparr>)" and "topo_inv r" and "same_links (nd_topology n) r"
      and "tid = Node_GetId n \<or> refused (Node_GetId n) tid (nd_topology n)"
  | (moved) n' where "SetTopologyUpstream tid n = Some n'" and "route_wf n'" and "topo_inv (nd_topology n')" and "\<And>i. GetEndpoint i n' = GetEndpoint i n"
      and "nd_upstream n' = (if tid = 0 then None else GetEndpoint tid n)"
      and "topo_upstream (Node_GetId n) (nd_topology n') = (if tid = 0 then None else Some tid)"
proof -
  let ?s = "Node_GetId n"
  have idu: "ep_id (nd_eps n ! u) = ids n ! u" if "nd_upstream n = Some u" for u using route_wfD(3) [OF assms(1) that] by (simp add: ids_def)
  consider (skip) "(\<exists>u. nd_upstream n = Some u \<and> ids n ! u = tid) \<or> ?s = 0"
    | (unchanged) "\<not> (\<exists>u. nd_upstream n = Some u \<and> ids n ! u = tid)" "?s \<noteq> 0" "upstream_unchanged tid (nd_topology n) (GetPeerInstance (nd_topology n) ?s)"
    | (upd) "\<not> (\<exists>u. nd_upstream n = Some u \<and> ids n ! u = tid)" "?s \<noteq> 0" "\<not> upstream_unchanged tid (nd_topology n) (GetPeerInstance (nd_topology n) ?s)"
    by blast
  then show ?thesis
  proof cases
    case skip
    then have "SetTopologyUpstream tid n = Some n" using idu by (auto simp: SetTopologyUpstream_def Let_def split: option.split)
    with skip idu same show ?thesis by auto
  next
    case unchanged
    then have "SetTopologyUpstream tid n = Some n" by (simp add: SetTopologyUpstream_def Let_def)
    with upstream_unchanged_iff [OF unchanged(2,3)] same show ?thesis by auto
  next
    case upd
    have early: "\<not> (case nd_upstream n of Some u \<Rightarrow> ep_id (nd_eps n ! u) = tid | None \<Rightarrow> False)" using upd(1) idu by (auto split: option.splits)
    obtain r ok where r: "UpdatePeer ?s tid None (nd_topology n) = Some (r, ok)" "topo_inv r"
      "ok \<longleftrightarrow> ?s \<noteq> 0 \<and> ?s \<noteq> tid \<and> \<not> refused ?s tid (nd_topology n)"
      "if ok then linked ?s tid None (nd_topology n) r else same_links (nd_topology n) r"
      using UpdatePeer_total [OF assms(2), of ?s tid None] by blast
    show ?thesis
    proof (cases ok)
      case False
      have "SetTopologyUpstream tid n = Some (n\<lparr>nd_topology := r\<rparr>)" using early upd r(1) False by (simp add: SetTopologyUpstream_def Let_def)
      with refused r False upd(2) show ?thesis by auto
    next
      case True
      with r have u: "UpdatePeer ?s tid None (nd_topology n) = Some (r, True)" "linked ?s tid None (nd_topology n) r" by simp_all
      show ?thesis using SetTopologyUpstream_accepted [OF assms(1) r(2) upd(2,1,3) u] moved r(2) by metis
    qed
  qed
qed

lemma same_links_keeps:
  assumes "route_wf n" and "same_links (nd_topology n) r"
  shows "route_wf (n\<lparr>nd_topology := r\<rparr>)"
proof -
  have "ids (n\<lparr>nd_topology := r\<rparr>) = ids n" by (simp add: ids_def)
  then show ?thesis using assms topo_upstream_same [of "nd_topology n" r] by (simp add: route_wf_def in_range_def split: option.splits)
qed
text \<open>C22: changing the upstream in the topology always returns and loses no endpoint: the same endpoint is found under every id as
  before; only its place changes, the former upstream endpoint moving into the route table and the
  endpoint with the new upstream's id, if there is one, out of it. The change happens exactly when the
  node has an id and the registry accepts the link, so that the tree stays a tree.\<close>

theorem SetTopologyUpstream_moves:
  assumes "route_wf n" and "topo_inv (nd_topology n)"
  shows "\<exists>n'. SetTopologyUpstream tid n = Some n' \<and> route_wf n' \<and> topo_inv (nd_topology n')
    \<and> (\<forall>i. GetEndpoint i n' = GetEndpoint i n)
    \<and> (nd_upstream n' \<noteq> nd_upstream n \<longrightarrow> nd_upstream n' = (if tid = 0 then None else GetEndpoint tid n))
    \<and> (Node_GetId n \<noteq> 0 \<and> (\<forall>u. nd_upstream n = Some u \<longrightarrow> ep_id (nd_eps n ! u) \<noteq> tid) \<longrightarrow>
        (topo_upstream (Node_GetId n) (nd_topology n') = (if tid = 0 then None else Some tid)
         \<or> tid = Node_GetId n \<or> refused (Node_GetId n) tid (nd_topology n)))"
  using assms
proof (cases rule: SetTopologyUpstream_cases [where tid = tid])
  case same
  with assms show ?thesis by auto
next
  case (refused r)
  moreover have "GetEndpoint i (n\<lparr>nd_topology := r\<rparr>) = GetEndpoint i n" for i by (simp add: GetEndpoint_def findRouteEndpoint_def split: option.split)
  ultimately show ?thesis using same_links_keeps [OF assms(1)] by auto
next
  case (moved n')
  then show ?thesis by simp
qed

subsection \<open>The next hop\<close>

lemma on_chain_trans: "on_chain U a b \<Longrightarrow> on_chain U b c \<Longrightarrow> on_chain U a c"
  by (induction rule: on_chain.induct) (auto intro: on_chain.intros)

lemma ancestor_hop: "ancestor U b a \<longleftrightarrow> (\<exists>h. U h = Some a \<and> on_chain U b h)"
proof
  have "\<exists>h. U h = Some a \<and> on_chain U b h" if "on_chain U c a" "U b = Some c" for b c
    using that by (induction arbitrary: b rule: on_chain.induct) (auto intro: on_chain.intros)
  then show "ancestor U b a \<Longrightarrow> \<exists>h. U h = Some a \<and> on_chain U b h" by (auto simp: ancestor_def)
  show "\<exists>h. U h = Some a \<and> on_chain U b h \<Longrightarrow> ancestor U b a"
    by (metis ancestor_def on_chain.cases on_chain_snoc on_chain.here)
qed

lemma relation_downstream:
  assumes "rooted U a" and "a \<noteq> b"
  shows "relation_of U a b = ImmediateDownstream \<or> relation_of U a b = TransitiveDownstream \<longleftrightarrow> ancestor U b a"
    "relation_of U a b \<noteq> Relation_Self" "relation_of U a b \<noteq> Relation_Invalid"
proof -
  have no: "\<not> on_chain U c a" if "U a = Some c" for c using rooted_acyclic [OF assms(1) that] .
  have *: "\<not> ancestor U a b" if "ancestor U b a"
    using that no on_chain_trans [of U _ b a] on_chain_ancestor by (fastforce simp: ancestor_def [of _ a])
  have "U a \<noteq> Some b" if "ancestor U b a" using that no [of b] on_chain_ancestor by auto
  moreover have "U a \<noteq> U b" if "ancestor U b a" using that no by (auto simp: ancestor_def)
  moreover have "ancestor U b a" if "U b = Some a" using that by (auto simp: ancestor_def intro: on_chain.here)
  ultimately show "relation_of U a b = ImmediateDownstream \<or> relation_of U a b = TransitiveDownstream \<longleftrightarrow> ancestor U b a"
    using * assms(2) by (auto simp: relation_of_def)
  show "relation_of U a b \<noteq> Relation_Self" "relation_of U a b \<noteq> Relation_Invalid" using assms(2) by (auto simp: relation_of_def)
qed

text \<open>\<open>hop\<close> is a direct downstream of the node and on the way down to the target.\<close>

definition way_down :: "('p, 'c) Node \<Rightarrow> BusIdType \<Rightarrow> nat \<Rightarrow> bool" where
  "way_down n tid hop \<longleftrightarrow> Node_GetId n \<noteq> 0 \<and> tid \<noteq> 0 \<and>
     (\<exists>a b. peers (nd_topology n) (Node_GetId n) = Some a \<and> peers (nd_topology n) tid = Some b
        \<and> GetUpstream (nd_topology n) hop = Some a \<and> on_chain (GetUpstream (nd_topology n)) b hop)"

lemma GetTopologyRelation_returns:
  assumes "topo_inv (nd_topology n)" and "tid \<noteq> Node_GetId n" and "nd_self n \<noteq> None"
  obtains rel hop where "GetTopologyRelation tid n = Some (rel, hop)" and "rel \<noteq> Relation_Self"
    and "rel = ImmediateDownstream \<or> rel = TransitiveDownstream \<longleftrightarrow> (\<exists>h. way_down n tid h)"
    and "(\<exists>h. way_down n tid h) \<Longrightarrow> \<exists>h. hop = Some h \<and> way_down n tid h"
proof -
  let ?r = "nd_topology n" let ?s = "Node_GetId n"
  show ?thesis
  proof (cases "?s \<noteq> 0 \<and> tid \<noteq> 0 \<and> peers ?r ?s \<noteq> None \<and> peers ?r tid \<noteq> None")
    case True
    then obtain a b where ab: "peers ?r ?s = Some a" "peers ?r tid = Some b" by auto
    note D = wf_viewsD [OF assms(1) [unfolded topo_inv_def]]
    have ne: "a \<noteq> b" using D(2) ab assms(2) by auto
    note rel = relation_downstream [OF D(4) [OF D(1) [OF ab(1)]] ne]
    obtain h where h: "GetRelation ?r ?s tid = Some (relation_of (GetUpstream ?r) a b, Some h)" "next_hop (GetUpstream ?r) a b h"
      using GetRelation_returns [OF assms(1) ab] True by blast
    have way: "(\<exists>h. way_down n tid h) \<longleftrightarrow> ancestor (GetUpstream ?r) b a" using True ab by (auto simp: way_down_def ancestor_hop)
    have hop: "way_down n tid h" if "\<exists>h. way_down n tid h"
    proof -
      from that way rel(1) have "relation_of (GetUpstream ?r) a b = ImmediateDownstream \<or> relation_of (GetUpstream ?r) a b = TransitiveDownstream" by blast
      then have "GetUpstream ?r h = Some a" "on_chain (GetUpstream ?r) b h"
        using h(2) by (auto simp: next_hop_def on_chain_ancestor relation_of_def split: if_splits)
      with True ab show ?thesis by (simp add: way_down_def)
    qed
    show ?thesis
      using that [of "relation_of (GetUpstream ?r) a b" "Some h"] h(1) rel way hop True assms(2,3)
      by (simp add: GetTopologyRelation_def)
  next
    case False
    then have inv: "GetRelation ?r ?s tid = Some (Relation_Invalid, None)"
      by (auto simp: GetRelation_def GetPeerInstance_def split: option.split)
    have no: "\<not> way_down n tid h" for h using False by (auto simp: way_down_def)
    define rel where "rel = (if ?s = 0 then OtherUpstreamPeer
      else if (case nd_upstream n of Some u \<Rightarrow> ep_id (nd_eps n ! u) = tid | None \<Rightarrow> False) then ImmediateUpstream
      else if GetEndpoint tid n \<noteq> None then OtherUpstreamPeer else Relation_Invalid)"
    have "GetTopologyRelation tid n = Some (rel, None)" using inv assms(2,3) by (simp add: GetTopologyRelation_def rel_def)
    moreover have "rel \<noteq> Relation_Self" "rel \<noteq> ImmediateDownstream" "rel \<noteq> TransitiveDownstream" by (simp_all add: rel_def split: option.split)
    ultimately show ?thesis using that no by blast
  qed
qed

lemma nearest_neighbour_rooted:
  assumes "rooted (GetUpstream (nd_topology n)) p"
  shows "\<exists>t. nearest_neighbour options n (Some p) = Some t \<and> (\<forall>e. t = Some e \<longrightarrow>
     (\<exists>c. on_chain (GetUpstream (nd_topology n)) p c \<and> findRouteEndpoint (GetBusId (nd_topology n) c) n = Some e
        \<and> \<not> isInGetPeerBlacklist (GetBusId (nd_topology n) c) options))"
  using assms
proof (induction rule: rooted.induct)
  case (root a)
  then show ?case
    by (auto simp: nearest_neighbour.simps [of options n "Some a"] nearest_neighbour.simps [of options n None] intro: on_chain.here split: option.split)
next
  case (child a b)
  then show ?case
    by (auto simp: nearest_neighbour.simps [of options n "Some a"] intro: on_chain.intros split: option.split)
qed

lemma blacklist_iff: "isInGetPeerBlacklist i options \<longleftrightarrow> i \<in> set (GetBlacklist options)"
  by (auto simp: isInGetPeerBlacklist_def GetBlacklist_def list_ex_iff split: option.split)

text \<open>Where a message for \<open>tid\<close> may go when the endpoint \<open>e\<close> is chosen.\<close>

definition hop_ok :: "NodeGetPeerOptions option \<Rightarrow> BusIdType \<Rightarrow> ('p, 'c) Node \<Rightarrow> nat \<Rightarrow> bool" where
  "hop_ok options tid n e \<longleftrightarrow> ids n ! e \<notin> set (GetBlacklist options) \<and>
     (if GetEndpoint tid n \<noteq> None then GetEndpoint tid n = Some e
      else if \<exists>hop. way_down n tid hop
        then \<exists>hop. way_down n tid hop \<and> findRouteEndpoint (GetBusId (nd_topology n) hop) n = Some e
      else (\<exists>b c. peers (nd_topology n) tid = Some b \<and> ancestor (GetUpstream (nd_topology n)) b c
              \<and> findRouteEndpoint (GetBusId (nd_topology n) c) n = Some e)
         \<or> nd_upstream n = Some e \<and> \<not> GetPeerOptions_GetFlag NodeGetPeerOptionFlag_NoUpstream options)"

lemma choose_hop_ok:
  assumes "route_wf n" and "topo_inv (nd_topology n)" and "nd_self n \<noteq> None" and "tid \<noteq> Node_GetId n"
  obtains n' ret ep conn where "choose_hop fn options tid self n = Some (n', ret, ep, conn)"
    and "ret = EN_ATBUS_ERR_SUCCESS \<or> ret = EN_ATBUS_ERR_ATNODE_INVALID_ID \<and> ep = None"
    and "case ep of None \<Rightarrow> conn = None | Some e \<Rightarrow> hop_ok options tid n e \<and> fn self e n = (n', conn)"
    and "\<forall>e. GetEndpoint tid n = Some e \<longrightarrow> tid \<notin> set (GetBlacklist options) \<longrightarrow> ep = Some e"
proof -
  note D = route_wfD [OF assms(1)]
  let ?r = "nd_topology n"
  have L: "GetEndpoint tid n = lookup (ids n) (nd_upstream n) (map_of (nd_route n)) tid" by (rule GetEndpoint_lookup [OF D(1)])
  have idu: "ep_id (nd_eps n ! u) = ids n ! u" if "nd_upstream n = Some u" for u using D(3) [OF that] by (simp add: ids_def)
  have idr: "ids n ! e = i" if "findRouteEndpoint i n = Some e" for i e using that D(6) by (simp add: findRouteEndpoint_def)
  let ?good = "\<lambda>n' ret ep conn. (ret = EN_ATBUS_ERR_SUCCESS \<or> ret = EN_ATBUS_ERR_ATNODE_INVALID_ID \<and> ep = None)
    \<and> (case ep of None \<Rightarrow> conn = None | Some e \<Rightarrow> hop_ok options tid n e \<and> fn self e n = (n', conn))
    \<and> (\<forall>e. GetEndpoint tid n = Some e \<longrightarrow> tid \<notin> set (GetBlacklist options) \<longrightarrow> ep = Some e)"
  have via: "\<exists>n' conn. via fn self e n = (n', EN_ATBUS_ERR_SUCCESS, Some e, conn) \<and> fn self e n = (n', conn)" for e
    by (simp add: via_def split: prod.split)
  have vg: "\<exists>n' ret ep conn. via fn self e n = (n', ret, ep, conn) \<and> ?good n' ret ep conn"
    if "hop_ok options tid n e" "GetEndpoint tid n = None \<or> GetEndpoint tid n = Some e" for e
  proof -
    from via [of e] obtain n' conn where "via fn self e n = (n', EN_ATBUS_ERR_SUCCESS, Some e, conn)" "fn self e n = (n', conn)" by blast
    with that show ?thesis by (intro exI [of _ n'] exI [of _ EN_ATBUS_ERR_SUCCESS] exI [of _ "Some e"] exI [of _ conn]) auto
  qed
  have "\<exists>n' ret ep conn. choose_hop fn options tid self n = Some (n', ret, ep, conn) \<and> ?good n' ret ep conn"
  proof (cases "GetEndpoint tid n")
    case (Some e)
    then have run: "choose_hop fn options tid self n = Some (if isInGetPeerBlacklist tid options then (n, EN_ATBUS_ERR_SUCCESS, None, None) else via fn self e n)"
      using idu by (auto simp: choose_hop_def Let_def GetEndpoint_def findRouteEndpoint_def split: option.splits if_splits)
    have "ids n ! e = tid" using Some D(6) unfolding L lookup_def by (auto split: option.splits if_splits)
    then have "\<not> isInGetPeerBlacklist tid options \<Longrightarrow> hop_ok options tid n e" using Some by (simp add: hop_ok_def blacklist_iff)
    with run vg [of e] Some show ?thesis by (cases "isInGetPeerBlacklist tid options") (simp_all add: blacklist_iff)
  next
    case None
    then have nodirect: "(case nd_upstream n of Some u \<Rightarrow> if tid = ep_id (nd_eps n ! u) then Some u else None | None \<Rightarrow> None) = None"
      "findRouteEndpoint tid n = None"
      using idu by (auto simp: GetEndpoint_def split: option.splits if_splits)
    obtain rel hop where rel: "GetTopologyRelation tid n = Some (rel, hop)" "rel \<noteq> Relation_Self"
      "rel = ImmediateDownstream \<or> rel = TransitiveDownstream \<longleftrightarrow> (\<exists>h. way_down n tid h)"
      "(\<exists>h. way_down n tid h) \<Longrightarrow> \<exists>h. hop = Some h \<and> way_down n tid h"
      using GetTopologyRelation_returns [OF assms(2,4,3)] by metis
    show ?thesis
    proof (cases "\<exists>h. way_down n tid h")
      case True
      with rel(4) obtain h where h: "hop = Some h" "way_down n tid h" by blast
      have "choose_hop fn options tid self n = Some (case findRouteEndpoint (GetBusId ?r h) n of
          Some target \<Rightarrow> if isInGetPeerBlacklist (GetBusId ?r h) options then (n, EN_ATBUS_ERR_SUCCESS, None, None) else via fn self target n
        | None \<Rightarrow> (n, EN_ATBUS_ERR_ATNODE_INVALID_ID, None, None))"
        using nodirect rel(1,3) True h(1) by (simp add: choose_hop_def Let_def split: option.split)
      moreover have "hop_ok options tid n e" if "findRouteEndpoint (GetBusId ?r h) n = Some e" "\<not> isInGetPeerBlacklist (GetBusId ?r h) options" for e
        using that None True h(2) idr [OF that(1)] by (auto simp: hop_ok_def blacklist_iff)
      ultimately show ?thesis using vg None by (cases "findRouteEndpoint (GetBusId ?r h) n"; cases "isInGetPeerBlacklist (GetBusId ?r h) options") simp_all
    next
      case False
      let ?start = "case GetPeer ?r tid of None \<Rightarrow> None | Some p \<Rightarrow> GetUpstream ?r p"
      have near: "\<exists>t. (if rel = OtherUpstreamPeer then nearest_neighbour options n ?start else Some None) = Some t
        \<and> (\<forall>e. t = Some e \<longrightarrow> hop_ok options tid n e)"
      proof (cases "rel = OtherUpstreamPeer \<and> ?start \<noteq> None")
        case True
        then obtain p b where pb: "peers ?r tid = Some b" "GetUpstream ?r b = Some p" "?start = Some p"
          by (auto simp: GetPeer_def GetPeerInstance_def split: option.splits)
        note V = wf_viewsD [OF assms(2) [unfolded topo_inv_def]]
        have "rooted (GetUpstream ?r) p" using V(4) [OF V(3) [OF V(1) [OF pb(1)] pb(2)]] .
        from nearest_neighbour_rooted [OF this, of options] obtain t where t: "nearest_neighbour options n (Some p) = Some t"
          "\<And>e. t = Some e \<Longrightarrow> \<exists>c. on_chain (GetUpstream ?r) p c \<and> findRouteEndpoint (GetBusId ?r c) n = Some e \<and> \<not> isInGetPeerBlacklist (GetBusId ?r c) options" by blast
        have "hop_ok options tid n e" if "t = Some e" for e
        proof -
          from t(2) [OF that] obtain c where c: "on_chain (GetUpstream ?r) p c" "findRouteEndpoint (GetBusId ?r c) n = Some e"
            "\<not> isInGetPeerBlacklist (GetBusId ?r c) options" by blast
          from pb c(1) have "ancestor (GetUpstream ?r) b c" by (auto simp: ancestor_def)
          with c(2,3) idr [OF c(2)] None False pb(1) show ?thesis by (auto simp: hop_ok_def blacklist_iff)
        qed
        with t(1) pb(3) True show ?thesis by auto
      qed (auto simp: nearest_neighbour.simps [of options n None])
      then obtain t where t: "(if rel = OtherUpstreamPeer then nearest_neighbour options n ?start else Some None) = Some t"
        "\<And>e. t = Some e \<Longrightarrow> hop_ok options tid n e" by blast
      have run: "choose_hop fn options tid self n = Some (case t of Some target \<Rightarrow> via fn self target n | None \<Rightarrow> fallback_upstream fn options self n)"
        using nodirect rel(1-3) False t(1) by (cases t) (simp_all add: choose_hop_def Let_def)
      show ?thesis
      proof (cases t)
        case (Some e)
        with run t(2) vg [of e] None show ?thesis by simp
      next
        case t_none: None
        have "hop_ok options tid n u" if "nd_upstream n = Some u" "\<not> GetPeerOptions_GetFlag NodeGetPeerOptionFlag_NoUpstream options"
          "\<not> isInGetPeerBlacklist (ep_id (nd_eps n ! u)) options" for u
          using that None False idu [OF that(1)] by (auto simp: hop_ok_def blacklist_iff)
        with run t_none vg None show ?thesis
          by (cases "nd_upstream n"; cases "GetPeerOptions_GetFlag NodeGetPeerOptionFlag_NoUpstream options") (auto simp: fallback_upstream_def)
      qed
    qed
  qed
  then show ?thesis using that by blast
qed

text \<open>C18: choosing the next hop for a bus id always returns. When it succeeds there is an endpoint and a connection to it, the one the
  caller's choice gives; the endpoint is not black-listed; a directly connected node is reached
  directly; a node below is reached only through the direct downstream on the way to it, never through
  the upstream; any other node through a connected node above it, or through the upstream unless the
  caller forbids it.\<close>

theorem GetPeerChannel_routes:
  assumes "route_wf n" and "topo_inv (nd_topology n)"
  shows "\<exists>n' ret ep conn peer. GetPeerChannel fn options tid n = Some (n', ret, ep, conn, peer)
    \<and> (ret = EN_ATBUS_ERR_SUCCESS \<longrightarrow> (\<exists>self e c. nd_self n = Some self \<and> ep = Some e \<and> conn = Some c \<and> hop_ok options tid n e \<and> fn self e n = (n', Some c)))
    \<and> (\<forall>self e. nd_self n = Some self \<and> nd_state n \<noteq> NodeState_Created \<and> tid \<noteq> Node_GetId n
         \<and> GetEndpoint tid n = Some e \<and> tid \<notin> set (GetBlacklist options) \<longrightarrow>
         ep = Some e \<and> (ret = EN_ATBUS_ERR_SUCCESS \<longleftrightarrow> snd (fn self e n) \<noteq> None))"
proof (cases "nd_self n = None \<or> nd_state n = NodeState_Created \<or> tid = Node_GetId n")
  case True
  have "EN_ATBUS_ERR_NOT_INITED \<noteq> EN_ATBUS_ERR_SUCCESS" "EN_ATBUS_ERR_ATNODE_INVALID_ID \<noteq> EN_ATBUS_ERR_SUCCESS"
    by (simp_all add: EN_ATBUS_ERR_NOT_INITED_def EN_ATBUS_ERR_ATNODE_INVALID_ID_def EN_ATBUS_ERR_SUCCESS_def)
  with True show ?thesis by (cases "nd_self n") (auto simp: GetPeerChannel_def)
next
  case False
  then obtain self where self: "nd_self n = Some self" by auto
  have pre: "nd_self n \<noteq> None" "tid \<noteq> Node_GetId n" using False by auto
  obtain n' ret ep conn where h: "choose_hop fn options tid self n = Some (n', ret, ep, conn)"
    "ret = EN_ATBUS_ERR_SUCCESS \<or> ret = EN_ATBUS_ERR_ATNODE_INVALID_ID \<and> ep = None"
    "case ep of None \<Rightarrow> conn = None | Some e \<Rightarrow> hop_ok options tid n e \<and> fn self e n = (n', conn)"
    "\<forall>e. GetEndpoint tid n = Some e \<longrightarrow> tid \<notin> set (GetBlacklist options) \<longrightarrow> ep = Some e"
    by (rule choose_hop_ok [OF assms pre, where fn = fn and options = options and self = self])
  have err: "EN_ATBUS_ERR_ATNODE_NO_CONNECTION \<noteq> EN_ATBUS_ERR_SUCCESS" "EN_ATBUS_ERR_ATNODE_INVALID_ID \<noteq> EN_ATBUS_ERR_SUCCESS"
    by (simp_all add: EN_ATBUS_ERR_ATNODE_NO_CONNECTION_def EN_ATBUS_ERR_ATNODE_INVALID_ID_def EN_ATBUS_ERR_SUCCESS_def)
  define peer where "peer = (case ep of None \<Rightarrow> None | Some e \<Rightarrow> GetPeer (nd_topology n') (ep_id (nd_eps n' ! e)))"
  have run: "GetPeerChannel fn options tid n = Some (if ret \<noteq> EN_ATBUS_ERR_SUCCESS then (n', ret, ep, conn, peer)
      else if ep = None then (n', EN_ATBUS_ERR_ATNODE_INVALID_ID, ep, conn, None)
      else if conn = None then (n', EN_ATBUS_ERR_ATNODE_NO_CONNECTION, ep, conn, peer) else (n', ret, ep, conn, peer))"
    using self False h(1) by (simp add: GetPeerChannel_def Let_def peer_def)
  show ?thesis
  proof (cases ep)
    case None
    with run h(2,4) err show ?thesis by (cases "ret = EN_ATBUS_ERR_SUCCESS") auto
  next
    case (Some e)
    with h(2) have "ret = EN_ATBUS_ERR_SUCCESS" by simp
    with Some run h(3,4) err self show ?thesis by (cases conn) auto
  qed
qed

text \<open>A guard never reports that a flag was already set when the guard is new, whether or not the flag is: so the re-entrance
  checks that open a new guard never take their early exit. Closing restores the flag, unless it was set before.\<close>

theorem openFlag_never_refuses:
  "\<exists>fg flags'. openFlag new_guard flag flags = (fg, flags', False) \<and> flags' = flags OR (if flags AND flag \<noteq> 0 then 0 else flag)
    \<and> snd (closeFlag fg flags') = (if flags AND flag \<noteq> 0 then flags else flags AND NOT flag)"
proof -
  have "(flags OR flag) AND NOT flag = flags AND NOT flag" by (rule bit_word_eqI) (auto simp: bit_simps)
  then show ?thesis by (simp add: openFlag_def new_guard_def closeFlag_def Let_def)
qed

text \<open>C25: a connection without endpoint that reaches the tolerated number of faults makes the node panic, because the log message
  asks its missing endpoint for an id; a bound connection is reset, and below the limit only the count changes.\<close>

theorem addConnectionFault_panics:
  assumes "bind_inv n" and "quiet n" and "c < length (nd_conns n)" and "4 \<le> d"
  shows "let limit = ucast (FaultTolerant (nd_configure n)) \<le> ConnFaultCount (cn_statistic (nd_conns n ! c)) + 1 in
    (addConnectionFault P C d c n = Some Panics \<longleftrightarrow> limit \<and> cn_binding (nd_conns n ! c) = None)
  \<and> (limit \<and> cn_binding (nd_conns n ! c) \<noteq> None \<longrightarrow>
      (\<exists>n'. addConnectionFault P C d c n = Some (Returns (n', True)) \<and> bind_inv n' \<and> cn_binding (nd_conns n' ! c) = None))
  \<and> (\<not> limit \<longrightarrow> (\<exists>n'. addConnectionFault P C d c n = Some (Returns (n', False)) \<and> nd_eps n' = nd_eps n
      \<and> ConnFaultCount (cn_statistic (nd_conns n' ! c)) = ConnFaultCount (cn_statistic (nd_conns n ! c)) + 1))"
proof -
  let ?n = "upd_conn c (\<lambda>x. fst (Connection_AddStatisticFault x)) n"
  let ?limit = "ucast (FaultTolerant (nd_configure n)) \<le> ConnFaultCount (cn_statistic (nd_conns n ! c)) + 1"
  let ?x = "fst (Connection_AddStatisticFault (nd_conns n ! c))"
  have x: "cn_binding ?x = cn_binding (nd_conns n ! c)" "CheckFlag f ?x = CheckFlag f (nd_conns n ! c)" for f
    by (simp_all add: Connection_AddStatisticFault_def Let_def CheckFlag_def)
  have conf: "nd_configure ?n = nd_configure n" by (simp add: upd_conn_def)
  have inv: "bind_inv ?n" "quiet ?n" "c < length (nd_conns ?n)"
    using assms(1-3) x quietD(1) [OF assms(2,3)] by (auto simp: bind_inv_def quiet_def map_binding_update intro!: list_all_update)
  have b: "cn_binding (nd_conns ?n ! c) = cn_binding (nd_conns n ! c)" using assms(3) x by simp
  obtain n' where n': "Connection_Reset P C d c ?n = Some n'" "nd_conns n' = reset_conns ?n c" "nd_eps n' = reset_eps ?n c" "bind_inv n'" "quiet n'"
    using inv assms(4) by (rule Connection_Reset_keeps)
  have free: "cn_binding (nd_conns n' ! c) = None"
    using n'(2) inv(3) bind_inv_attached(3) [OF inv(1) _ inv(3)] bind_inv_bound [OF inv(1,3)]
    unfolding reset_conns_def by (auto split: option.splits)
  have run: "addConnectionFault P C d c n = (if ?limit then
      (case cn_binding (nd_conns n ! c) of None \<Rightarrow> Some Panics | Some _ \<Rightarrow> Some (Returns (n', True))) else Some (Returns (?n, False)))"
    unfolding addConnectionFault_def Let_def conf b using n'(1) by (simp split: option.split)
  have cnt: "ConnFaultCount (cn_statistic (nd_conns ?n ! c)) = ConnFaultCount (cn_statistic (nd_conns n ! c)) + 1" "nd_eps ?n = nd_eps n"
    using assms(3) by (simp_all add: Connection_AddStatisticFault_def Let_def)
  show ?thesis
    unfolding Let_def run using n'(4) free cnt by (cases "cn_binding (nd_conns n ! c)") auto
qed

subsection \<open>An example\<close>

text \<open>The node of the previous example in the topology 0x102 below 0x101 below 0x100, the node itself.\<close>

definition sample_tree :: TopologyRegistry where
  "sample_tree = fst (the (UpdatePeer 0x102 0x101 None (fst (the (UpdatePeer 0x101 0x100 None (fst (the (UpdatePeer 0x100 0 None CreateTopologyRegistry))))))))"

definition route_node :: "(nat \<Rightarrow> (int \<times> nat) option, string \<Rightarrow> (int \<times> nat) option) Node" where
  "route_node = sample_node\<lparr>nd_topology := sample_tree\<rparr>"

lemma route_node_inv: "route_wf route_node" "topo_inv (nd_topology route_node)" "length (nd_eps route_node) = 2" "bind_inv route_node" "quiet route_node"
proof -
  have "topo_reachable sample_tree" unfolding sample_tree_def by (intro reachable_update topo_reachable.intros)
  then show "topo_inv (nd_topology route_node)" by (simp add: route_node_def topo_reachable_inv)
  show "route_wf route_node" "length (nd_eps route_node) = 2" "bind_inv route_node" "quiet route_node" by code_simp+
qed

theorem GetPeerChannel_routes_witness:
  "\<exists>n' peer. GetPeerChannel (\<lambda>s e n. GetDataConnection s e False n) None 0x101 route_node = Some (n', EN_ATBUS_ERR_SUCCESS, Some 1, Some 2, peer)"
proof -
  have "nd_self route_node = Some 0" "nd_state route_node \<noteq> NodeState_Created" "0x101 \<noteq> Node_GetId route_node"
    "GetEndpoint 0x101 route_node = Some 1" "0x101 \<notin> set (GetBlacklist None)" "snd (GetDataConnection 0 1 False route_node) = Some 2" by code_simp+
  with GetPeerChannel_routes [OF route_node_inv(1,2), of "\<lambda>s e n. GetDataConnection s e False n" None "0x101"] show ?thesis by auto
qed

theorem AddEndpoint_registers_witness:
  "GetEndpoint 0x101 (fst (AddEndpoint map_lru 1 route_node)) = Some 1 \<and> snd (AddEndpoint map_lru 1 route_node) = EN_ATBUS_ERR_SUCCESS"
proof -
  have "\<not> Node_CheckFlag NodeFlag_Resetting route_node" "nd_self route_node \<noteq> None" "ep_id (nd_eps route_node ! 1) = 0x101" by code_simp+
  with AddEndpoint_registers [OF route_node_inv(1), of 1 map_lru "fst (AddEndpoint map_lru 1 route_node)" "snd (AddEndpoint map_lru 1 route_node)"]
  show ?thesis by (simp add: route_node_inv(3))
qed

theorem RemoveEndpoint_unregisters_witness: "GetEndpoint 0x101 (fst (RemoveEndpoint 1 route_node)) = None"
proof -
  have "ep_id (nd_eps route_node ! 1) = 0x101" "GetEndpoint 0x101 route_node = Some 1" "0x101 \<noteq> Node_GetId route_node" by code_simp+
  with RemoveEndpoint_unregisters [OF route_node_inv(1), of 1 "fst (RemoveEndpoint 1 route_node)" "snd (RemoveEndpoint 1 route_node)"]
  show ?thesis by (simp add: route_node_inv(3))
qed

theorem SetTopologyUpstream_moves_witness:
  "\<exists>n'. SetTopologyUpstream 0x101 route_node = Some n' \<and> GetEndpoint 0x101 n' = Some 1"
proof -
  have "GetEndpoint 0x101 route_node = Some 1" by code_simp
  with SetTopologyUpstream_moves [OF route_node_inv(1,2), of "0x101"] show ?thesis by auto
qed

theorem addConnectionFault_panics_witness:
  "addConnectionFault map_lru map_lru 4 3 (route_node\<lparr>nd_configure := (nd_configure route_node)\<lparr>FaultTolerant := 1\<rparr>\<rparr>) = Some Panics"
proof -
  let ?n = "route_node\<lparr>nd_configure := (nd_configure route_node)\<lparr>FaultTolerant := 1\<rparr>\<rparr>"
  have "bind_inv ?n" "quiet ?n" using route_node_inv(4,5) by (simp_all add: bind_inv_def quiet_def)
  moreover have "ucast (FaultTolerant (nd_configure ?n)) \<le> ConnFaultCount (cn_statistic (nd_conns ?n ! 3)) + 1" "cn_binding (nd_conns ?n ! 3) = None"
    "3 < length (nd_conns ?n)" by code_simp+
  ultimately show ?thesis using addConnectionFault_panics [of ?n 3 4 map_lru map_lru] by simp
qed

end
