(* ===== verification/Access_Data.thy ===== *)
theory Access_Data
  imports Node_State
begin

section \<open>Signed access data (message\_handle/atbus\_message\_handler.go, CheckAccessHash of impl/atbus\_node.go)\<close>

text \<open>
  A node that registers or sends a command signs a text with every access token it has; the receiver accepts when one of the
  signatures is the one of a token of its own. SHA-256 and HMAC are parameters: nothing is assumed about HMAC, and of SHA-256
  only the equality of digests matters. The connection argument of \<open>CheckAccessHash\<close> is used for logging only.
\<close>

subsection \<open>Texts\<close>

definition hex_digit :: "nat \<Rightarrow> char" where
  "hex_digit n = ''0123456789abcdef'' ! n"

definition EncodeToString :: "bytes \<Rightarrow> string" where
  "EncodeToString bs = concat (map (\<lambda>b. [hex_digit (unat b div 16), hex_digit (unat b mod 16)]) bs)"

definition string_bytes :: "string \<Rightarrow> bytes" where
  "string_bytes s = map of_char s"

definition show_uint64 :: "uint64 \<Rightarrow> string" where
  "show_uint64 w = show_nat (unat w)"

text \<open>The common beginning of the three forms: \<open>\%d:\%d-\%d:\%d\<close> of the time, the two nonces and the bus id.\<close>

definition plaintext_prefix :: "uint64 \<Rightarrow> access_data \<Rightarrow> string" where
  "plaintext_prefix busID ad =
     show_int (ad_timestamp ad) @ '':'' @ show_uint64 (ad_nonce1 ad) @ ''-'' @ show_uint64 (ad_nonce2 ad) @ '':'' @ show_uint64 busID"

definition MakeAccessDataPlaintextFromHandshake ::
  "(bytes \<Rightarrow> bytes) \<Rightarrow> uint64 \<Rightarrow> access_data \<Rightarrow> crypto_handshake_data option \<Rightarrow> string" where
  "MakeAccessDataPlaintextFromHandshake sha256 busID ad hs =
     (case hs of
        None \<Rightarrow> plaintext_prefix busID ad
      | Some h \<Rightarrow>
          if hd_public_key h = [] then plaintext_prefix busID ad
          else let tailHash = EncodeToString (sha256 (hd_public_key h)) in
            plaintext_prefix busID ad @ '':'' @ show_int (key_exchange_number (hd_type h)) @ '':'' @ tailHash)"

definition MakeAccessDataPlaintextFromCustomCommand ::
  "(bytes \<Rightarrow> bytes) \<Rightarrow> uint64 \<Rightarrow> access_data \<Rightarrow> custom_command_data \<Rightarrow> string" where
  "MakeAccessDataPlaintextFromCustomCommand sha256 busID ad cs =
     (let buf = foldl (\<lambda>buf arg. buf @ arg) [] (cc_commands cs) in
      plaintext_prefix busID ad @ '':'' @ EncodeToString (sha256 buf))"

subsection \<open>Signatures\<close>

definition CalculateAccessDataSignature :: "(bytes \<Rightarrow> bytes \<Rightarrow> bytes) \<Rightarrow> bytes \<Rightarrow> string \<Rightarrow> bytes" where
  "CalculateAccessDataSignature hmac accessToken plaintext =
     (let token = (if 32868 < length accessToken then take 32868 accessToken else accessToken)
      in hmac token (string_bytes plaintext))"

definition sign_all :: "(bytes \<Rightarrow> bytes \<Rightarrow> bytes) \<Rightarrow> bytes list \<Rightarrow> string \<Rightarrow> access_data \<Rightarrow> access_data" where
  "sign_all hmac accessTokens plaintext ad =
     foldl (\<lambda>ad token. ad\<lparr>ad_signature := ad_signature ad @ [CalculateAccessDataSignature hmac token plaintext]\<rparr>)
       (ad\<lparr>ad_signature := []\<rparr>) accessTokens"

definition GenerateAccessDataWithTimestamp ::
  "(bytes \<Rightarrow> bytes) \<Rightarrow> (bytes \<Rightarrow> bytes \<Rightarrow> bytes) \<Rightarrow> access_data option \<Rightarrow> uint64 \<Rightarrow> uint64 \<Rightarrow> uint64 \<Rightarrow> bytes list
    \<Rightarrow> crypto_handshake_data option \<Rightarrow> int \<Rightarrow> access_data option" where
  "GenerateAccessDataWithTimestamp sha256 hmac oad busID nonce1 nonce2 accessTokens hs timestamp =
     (case oad of None \<Rightarrow> None
      | Some ad \<Rightarrow>
          let ad = ad\<lparr>ad_algorithm := HMAC_SHA256, ad_timestamp := timestamp, ad_nonce1 := nonce1, ad_nonce2 := nonce2\<rparr>;
              plaintext = MakeAccessDataPlaintextFromHandshake sha256 busID ad hs
          in Some (sign_all hmac accessTokens plaintext ad))"

text \<open>\<open>time.Now().Unix()\<close> is the argument \<open>now\<close>.\<close>

definition GenerateAccessData ::
  "(bytes \<Rightarrow> bytes) \<Rightarrow> (bytes \<Rightarrow> bytes \<Rightarrow> bytes) \<Rightarrow> int \<Rightarrow> access_data option \<Rightarrow> uint64 \<Rightarrow> uint64 \<Rightarrow> uint64 \<Rightarrow> bytes list
    \<Rightarrow> crypto_handshake_data option \<Rightarrow> access_data option" where
  "GenerateAccessData sha256 hmac now oad busID nonce1 nonce2 accessTokens hs =
     GenerateAccessDataWithTimestamp sha256 hmac oad busID nonce1 nonce2 accessTokens hs now"

definition GenerateAccessDataForCustomCommand ::
  "(bytes \<Rightarrow> bytes) \<Rightarrow> (bytes \<Rightarrow> bytes \<Rightarrow> bytes) \<Rightarrow> int \<Rightarrow> access_data option \<Rightarrow> uint64 \<Rightarrow> uint64 \<Rightarrow> uint64 \<Rightarrow> bytes list
    \<Rightarrow> custom_command_data \<Rightarrow> access_data option" where
  "GenerateAccessDataForCustomCommand sha256 hmac now oad busID nonce1 nonce2 accessTokens cs =
     (case oad of None \<Rightarrow> None
      | Some ad \<Rightarrow>
          let ad = ad\<lparr>ad_algorithm := HMAC_SHA256, ad_timestamp := now, ad_nonce1 := nonce1, ad_nonce2 := nonce2\<rparr>;
              plaintext = MakeAccessDataPlaintextFromCustomCommand sha256 busID ad cs
          in Some (sign_all hmac accessTokens plaintext ad))"

definition CheckAccessHash ::
  "(bytes \<Rightarrow> bytes \<Rightarrow> bytes) \<Rightarrow> NodeConfigure option \<Rightarrow> access_data option \<Rightarrow> string \<Rightarrow> bool" where
  "CheckAccessHash hmac n accessKey plainText =
     (case n of None \<Rightarrow> False | Some conf \<Rightarrow>
      case accessKey of None \<Rightarrow> False | Some ad \<Rightarrow>
        if ad_algorithm ad \<noteq> HMAC_SHA256 then False
        else if length (AccessTokens conf) = 0 \<and> length (ad_signature ad) = 0 then True
        else if length (AccessTokens conf) = 0 then False
        else if length (ad_signature ad) = 0 then False
        else list_ex (\<lambda>token.
               let realSignature = CalculateAccessDataSignature hmac token plainText in
               list_ex (\<lambda>expectSignature. length expectSignature = length realSignature \<and> expectSignature = realSignature)
                 (ad_signature ad))
             (AccessTokens conf))"

subsection \<open>Signing and checking\<close>

lemma sign_all_foldl:
  "foldl (\<lambda>ad token. ad\<lparr>ad_signature := ad_signature ad @ [f token]\<rparr>) ad ts = ad\<lparr>ad_signature := ad_signature ad @ map f ts\<rparr>"
  by (induction ts arbitrary: ad) simp_all

lemma sign_all_eq:
  "sign_all hmac ts p ad = ad\<lparr>ad_signature := map (\<lambda>t. CalculateAccessDataSignature hmac t p) ts\<rparr>"
  by (simp add: sign_all_def sign_all_foldl)

lemma foldl_append_concat: "foldl (\<lambda>buf arg. buf @ arg) buf args = buf @ concat args"
  by (induction args arbitrary: buf) simp_all

lemma plaintext_ignores_signature:
  "plaintext_prefix b (ad\<lparr>ad_signature := s\<rparr>) = plaintext_prefix b ad"
  "MakeAccessDataPlaintextFromHandshake sha256 b (ad\<lparr>ad_signature := s\<rparr>) hs = MakeAccessDataPlaintextFromHandshake sha256 b ad hs"
  "MakeAccessDataPlaintextFromCustomCommand sha256 b (ad\<lparr>ad_signature := s\<rparr>) cs = MakeAccessDataPlaintextFromCustomCommand sha256 b ad cs"
  by (simp_all add: plaintext_prefix_def MakeAccessDataPlaintextFromHandshake_def MakeAccessDataPlaintextFromCustomCommand_def
      split: option.split)

definition shared_signature :: "(bytes \<Rightarrow> bytes \<Rightarrow> bytes) \<Rightarrow> bytes list \<Rightarrow> bytes list \<Rightarrow> string \<Rightarrow> bool" where
  "shared_signature hmac ts ts' p \<longleftrightarrow> (ts = [] \<and> ts' = [])
     \<or> list_ex (\<lambda>t. list_ex (\<lambda>t'. hmac (take 32868 t) (string_bytes p) = hmac (take 32868 t') (string_bytes p)) ts') ts"

lemma CalculateAccessDataSignature_take: "CalculateAccessDataSignature hmac t p = hmac (take 32868 t) (string_bytes p)"
  by (simp add: CalculateAccessDataSignature_def)

lemma CheckAccessHash_signed:
  assumes "ad_algorithm ad = HMAC_SHA256"
  shows "CheckAccessHash hmac (Some conf) (Some (sign_all hmac ts p ad)) q \<longleftrightarrow>
    (ts = [] \<and> AccessTokens conf = [])
    \<or> (\<exists>t \<in> set ts. \<exists>t' \<in> set (AccessTokens conf). hmac (take 32868 t) (string_bytes p) = hmac (take 32868 t') (string_bytes q))"
  proof -
  have "(\<exists>t' \<in> set (AccessTokens conf). \<exists>t \<in> set ts. length (hmac (take 32868 t) (string_bytes p)) = length (hmac (take 32868 t') (string_bytes q))
      \<and> hmac (take 32868 t) (string_bytes p) = hmac (take 32868 t') (string_bytes q))
    \<longleftrightarrow> (\<exists>t \<in> set ts. \<exists>t' \<in> set (AccessTokens conf). hmac (take 32868 t) (string_bytes p) = hmac (take 32868 t') (string_bytes q))"
    by metis
  then show ?thesis
    using assms by (auto simp: CheckAccessHash_def sign_all_eq list_ex_iff CalculateAccessDataSignature_take Let_def)
qed

text \<open>C16: What one node signs, for a registration or for a command, another node accepts exactly when neither has an access token or
  when a token of the one and a token of the other, both cut to 32868 bytes, give the same HMAC of the signed text; so a token
  both have is always enough, and a node without tokens never accepts a signed request, nor a node with tokens an
  unsigned one. The receiver recomputes the text from the access data it received. The time is part of the text and of nothing
  else: the check never compares it with a clock, although the protocol documents a tolerance of 300 seconds.\<close>

theorem CheckAccessHash_accepts_shared_token:
  "(\<exists>ad. GenerateAccessDataWithTimestamp sha256 hmac (Some ad0) busID nonce1 nonce2 ts hs timestamp = Some ad
     \<and> (let p = MakeAccessDataPlaintextFromHandshake sha256 busID ad hs in
        CheckAccessHash hmac (Some conf) (Some ad) p = shared_signature hmac ts (AccessTokens conf) p))
   \<and> (\<exists>ad. GenerateAccessDataForCustomCommand sha256 hmac timestamp (Some ad0) busID nonce1 nonce2 ts cs = Some ad
     \<and> (let p = MakeAccessDataPlaintextFromCustomCommand sha256 busID ad cs in
        CheckAccessHash hmac (Some conf) (Some ad) p = shared_signature hmac ts (AccessTokens conf) p))"
proof -
  define ad where "ad = ad0\<lparr>ad_algorithm := HMAC_SHA256, ad_timestamp := timestamp, ad_nonce1 := nonce1, ad_nonce2 := nonce2\<rparr>"
  have alg: "ad_algorithm ad = HMAC_SHA256" by (simp add: ad_def)
  have eq: "CheckAccessHash hmac (Some conf) (Some (sign_all hmac ts p ad)) p = shared_signature hmac ts (AccessTokens conf) p" for p
    unfolding CheckAccessHash_signed [OF alg] shared_signature_def by (simp add: list_ex_iff)
  have "GenerateAccessDataWithTimestamp sha256 hmac (Some ad0) busID nonce1 nonce2 ts hs timestamp
      = Some (sign_all hmac ts (MakeAccessDataPlaintextFromHandshake sha256 busID ad hs) ad)"
    "GenerateAccessDataForCustomCommand sha256 hmac timestamp (Some ad0) busID nonce1 nonce2 ts cs
      = Some (sign_all hmac ts (MakeAccessDataPlaintextFromCustomCommand sha256 busID ad cs) ad)"
    by (simp_all add: GenerateAccessDataWithTimestamp_def GenerateAccessDataForCustomCommand_def ad_def Let_def)
  then show ?thesis
    using eq plaintext_ignores_signature by (simp add: sign_all_eq Let_def)
qed

theorem CheckAccessHash_accepts_shared_token_witness:
  "\<exists>ad. GenerateAccessDataWithTimestamp (\<lambda>x. x) (\<lambda>k x. k @ x) (Some zero_access_data) 2 3 4 [[1], [9]] None 5 = Some ad
     \<and> CheckAccessHash (\<lambda>k x. k @ x) (Some (zero_NodeConfigure\<lparr>AccessTokens := [[9]]\<rparr>)) (Some ad)
         (MakeAccessDataPlaintextFromHandshake (\<lambda>x. x) 2 ad None)"
proof -
  have "shared_signature (\<lambda>k x. k @ x) [[1], [9]] [[9]] p" for p by (simp add: shared_signature_def)
  then show ?thesis
    using conjunct1 [OF CheckAccessHash_accepts_shared_token [of "\<lambda>x. x" "\<lambda>k x. k @ x" zero_access_data 2 3 4 "[[1], [9]]" None 5
        "zero_NodeConfigure\<lparr>AccessTokens := [[9]]\<rparr>" undefined]] by (simp add: Let_def)
qed

subsection \<open>The signed texts\<close>

lemma split_at_char:
  assumes "c \<notin> set a" and "c \<notin> set a'" and "a @ c # b = a' @ c # b'"
  shows "a = a' \<and> b = b'"
  using assms by (induction a arbitrary: a') (auto simp: Cons_eq_append_conv)

declare show_nat.simps [simp del]

lemma show_nat_inj: "show_nat m = show_nat n \<Longrightarrow> m = n"
  by (metis of_nat_eq_iff show_nat_digits)

lemma show_nat_chars: "CHR '':'' \<notin> set (show_nat n) \<and> CHR ''-'' \<notin> set (show_nat n)"
  using show_nat_digits [of n] is_digit_not by (auto simp: list_all_iff)

lemma show_int_chars: "CHR '':'' \<notin> set (show_int i)"
  using show_nat_chars by (simp add: show_int_def)

lemma show_int_inj: "show_int i = show_int j \<Longrightarrow> i = j"
proof -
  have neg: "CHR ''-'' # show_nat m \<noteq> show_nat n" for m n
    using show_nat_chars [of n] by (metis list.set_intros(1))
  assume eq: "show_int i = show_int j"
  have sign: "i < 0 \<longleftrightarrow> j < 0"
    using eq neg [of "nat (- i)" "nat j"] neg [of "nat (- j)" "nat i"]
    unfolding show_int_def by (metis (full_types))
  show "i = j"
  proof (cases "i < 0")
    case True
    with eq sign have "show_nat (nat (- i)) = show_nat (nat (- j))" by (simp only: show_int_def if_True list.inject)
    then have "nat (- i) = nat (- j)" by (rule show_nat_inj)
    with True sign show ?thesis by arith
  next
    case False
    with eq sign have "show_nat (nat i) = show_nat (nat j)" by (simp only: show_int_def if_False)
    then have "nat i = nat j" by (rule show_nat_inj)
    with False sign show ?thesis by arith
  qed
qed

lemma show_uint64_inj: "show_uint64 v = show_uint64 w \<Longrightarrow> v = w"
  by (simp add: show_uint64_def) (metis show_nat_inj word_unat_eq_iff)

lemma hex_digit_inj: "m < 16 \<Longrightarrow> n < 16 \<Longrightarrow> hex_digit m = hex_digit n \<Longrightarrow> m = n"
proof -
  have "distinct ''0123456789abcdef''" "length ''0123456789abcdef'' = 16" by code_simp+
  then show "m < 16 \<Longrightarrow> n < 16 \<Longrightarrow> hex_digit m = hex_digit n \<Longrightarrow> m = n"
    unfolding hex_digit_def by (metis nth_eq_iff_index_eq)
qed

lemma hex_digit_not_colon: "n < 16 \<Longrightarrow> hex_digit n \<noteq> CHR '':''"
proof -
  have "CHR '':'' \<notin> set ''0123456789abcdef''" "length ''0123456789abcdef'' = 16" by code_simp+
  then show "n < 16 \<Longrightarrow> hex_digit n \<noteq> CHR '':''" unfolding hex_digit_def by (metis nth_mem)
qed

lemma nibbles: "unat b div 16 < 16 \<and> unat b mod 16 < 16" for b :: byte
  using unsigned_less [of b, where 'a = nat] by simp

lemma EncodeToString_inj: "EncodeToString xs = EncodeToString ys \<Longrightarrow> xs = ys"
proof (induction xs arbitrary: ys)
  case Nil
  then show ?case by (cases ys) (simp_all add: EncodeToString_def)
next
  case (Cons x xs)
  then obtain y ys' where ys: "ys = y # ys'" by (cases ys) (auto simp: EncodeToString_def)
  with Cons.prems have "hex_digit (unat x div 16) = hex_digit (unat y div 16)" "hex_digit (unat x mod 16) = hex_digit (unat y mod 16)"
    and rest: "EncodeToString xs = EncodeToString ys'"
    by (simp_all add: EncodeToString_def)
  then have "unat x div 16 = unat y div 16" "unat x mod 16 = unat y mod 16"
    using hex_digit_inj nibbles by blast+
  then have "unat x = unat y" by (metis div_mult_mod_eq)
  with Cons.IH [OF rest] ys show ?case by (simp add: word_unat_eq_iff)
qed

lemma EncodeToString_chars: "CHR '':'' \<notin> set (EncodeToString xs)"
proof -
  have "CHR '':'' \<noteq> hex_digit (unat b div 16)" "CHR '':'' \<noteq> hex_digit (unat b mod 16)" for b :: byte
    using nibbles [of b] hex_digit_not_colon by metis+
  then show ?thesis by (auto simp: EncodeToString_def)
qed

fun join_colon :: "string list \<Rightarrow> string" where
  "join_colon [] = []"
| "join_colon [x] = x"
| "join_colon (x # xs) = x @ CHR '':'' # join_colon xs"

lemma join_colon_Cons: "xs \<noteq> [] \<Longrightarrow> join_colon (x # xs) = x @ CHR '':'' # join_colon xs"
  by (cases xs) simp_all

definition colon_free :: "string list \<Rightarrow> bool" where
  "colon_free xs = list_all (\<lambda>x. CHR '':'' \<notin> set x) xs"

lemma colon_free_simps [simp]:
  "colon_free []" "colon_free (x # xs) \<longleftrightarrow> CHR '':'' \<notin> set x \<and> colon_free xs" "colon_free (xs @ ys) \<longleftrightarrow> colon_free xs \<and> colon_free ys"
  by (simp_all add: colon_free_def)

lemma join_colon_inj: "colon_free xs \<Longrightarrow> colon_free ys \<Longrightarrow> xs \<noteq> [] \<Longrightarrow> ys \<noteq> [] \<Longrightarrow> join_colon xs = join_colon ys \<Longrightarrow> xs = ys"
proof (induction xs arbitrary: ys)
  case (Cons x xs)
  then obtain y ys' where ys: "ys = y # ys'" by (cases ys) auto
  have free: "CHR '':'' \<notin> set x" "CHR '':'' \<notin> set y" using Cons.prems(1,2) unfolding ys by simp_all
  have eq: "join_colon (x # xs) = join_colon (y # ys')" using Cons.prems(5) unfolding ys .
  consider (both) "xs \<noteq> []" "ys' \<noteq> []" | (left) "xs \<noteq> []" "ys' = []" | (right) "xs = []" "ys' \<noteq> []" | (none) "xs = []" "ys' = []"
    by blast
  then show ?case
  proof cases
    case both
    with eq have "x @ CHR '':'' # join_colon xs = y @ CHR '':'' # join_colon ys'" by (simp add: join_colon_Cons)
    from split_at_char [OF free this] have "x = y" "join_colon xs = join_colon ys'" by simp_all
    with Cons.IH [of ys'] Cons.prems(1,2) both show ?thesis unfolding ys by simp
  next
    case left
    with eq have "y = x @ CHR '':'' # join_colon xs" by (simp add: join_colon_Cons)
    with free(2) show ?thesis by simp
  next
    case right
    with eq have "x = y @ CHR '':'' # join_colon ys'" by (simp add: join_colon_Cons)
    with free(1) show ?thesis by simp
  next
    case none
    with eq show ?thesis unfolding ys by simp
  qed
qed simp

definition prefix_fields :: "uint64 \<Rightarrow> access_data \<Rightarrow> string list" where
  "prefix_fields busID ad =
     [show_int (ad_timestamp ad), show_uint64 (ad_nonce1 ad) @ ''-'' @ show_uint64 (ad_nonce2 ad), show_uint64 busID]"

text \<open>What a text is about: the time, the nonces and the bus id, and the public key with the type of its exchange.\<close>

definition signed_ids :: "uint64 \<Rightarrow> access_data \<Rightarrow> int \<times> uint64 \<times> uint64 \<times> uint64" where
  "signed_ids busID ad = (ad_timestamp ad, ad_nonce1 ad, ad_nonce2 ad, busID)"

definition signed_key :: "(bytes \<Rightarrow> bytes) \<Rightarrow> crypto_handshake_data option \<Rightarrow> (int \<times> bytes) option" where
  "signed_key sha256 hs = (case hs of None \<Rightarrow> None
     | Some h \<Rightarrow> if hd_public_key h = [] then None else Some (key_exchange_number (hd_type h), sha256 (hd_public_key h)))"

definition key_fields :: "(int \<times> bytes) option \<Rightarrow> string list" where
  "key_fields k = (case k of None \<Rightarrow> [] | Some (t, h) \<Rightarrow> [show_int t, EncodeToString h])"

lemma plaintext_fields:
  "MakeAccessDataPlaintextFromHandshake sha256 b ad hs = join_colon (prefix_fields b ad @ key_fields (signed_key sha256 hs))"
  "MakeAccessDataPlaintextFromCustomCommand sha256 b ad cs
    = join_colon (prefix_fields b ad @ [EncodeToString (sha256 (concat (cc_commands cs)))])"
  by (simp_all add: MakeAccessDataPlaintextFromHandshake_def MakeAccessDataPlaintextFromCustomCommand_def plaintext_prefix_def
      prefix_fields_def key_fields_def signed_key_def foldl_append_concat Let_def split: option.split)

lemma fields_colon_free:
  "colon_free (prefix_fields b ad)" "colon_free (key_fields k)"
  using show_nat_chars show_int_chars EncodeToString_chars
  by (simp_all add: prefix_fields_def key_fields_def show_uint64_def split: option.split prod.split)

lemma prefix_fields_inj: "prefix_fields b ad = prefix_fields b' ad' \<longleftrightarrow> signed_ids b ad = signed_ids b' ad'"
proof -
  have "v = v' \<and> w = w'" if "show_uint64 v @ CHR ''-'' # show_uint64 w = show_uint64 v' @ CHR ''-'' # show_uint64 w'" for v v' w w'
    using split_at_char [OF _ _ that] show_nat_chars show_uint64_inj by (simp add: show_uint64_def)
  then show ?thesis
    using show_int_inj show_uint64_inj by (auto simp: prefix_fields_def signed_ids_def)
qed

lemma key_fields_inj: "key_fields k = key_fields k' \<longleftrightarrow> k = k'"
  using show_int_inj EncodeToString_inj by (auto simp: key_fields_def split: option.split prod.split)

lemma append_same_prefix_length: "length a = length b \<Longrightarrow> a @ x = b @ y \<longleftrightarrow> a = b \<and> x = y"
  by simp

text \<open>C17: The signed texts are unambiguous: two registrations are signed with the same text exactly when the time, both nonces and
  the bus id are the same and both have no public key, or the same type of exchange and keys with the same digest; two commands
  exactly when the ids are the same and the digests of their concatenated arguments; and no text of a registration is ever
  the text of a command, so a signature cannot be moved from the one to the other. How a command splits into
  arguments is not signed.\<close>

theorem signed_texts_unambiguous:
  "(MakeAccessDataPlaintextFromHandshake sha256 b ad hs = MakeAccessDataPlaintextFromHandshake sha256 b' ad' hs'
      \<longleftrightarrow> signed_ids b ad = signed_ids b' ad' \<and> signed_key sha256 hs = signed_key sha256 hs')
   \<and> (MakeAccessDataPlaintextFromCustomCommand sha256 b ad cs = MakeAccessDataPlaintextFromCustomCommand sha256 b' ad' cs'
      \<longleftrightarrow> signed_ids b ad = signed_ids b' ad' \<and> sha256 (concat (cc_commands cs)) = sha256 (concat (cc_commands cs')))
   \<and> MakeAccessDataPlaintextFromHandshake sha256 b ad hs \<noteq> MakeAccessDataPlaintextFromCustomCommand sha256 b' ad' cs'"
proof -
  have ne: "prefix_fields b ad @ xs \<noteq> []" for b ad xs by (simp add: prefix_fields_def)
  have len: "length (prefix_fields b ad) = length (prefix_fields b' ad')" by (simp add: prefix_fields_def)
  have inj: "join_colon (prefix_fields b ad @ xs) = join_colon (prefix_fields b' ad' @ ys) \<longleftrightarrow> signed_ids b ad = signed_ids b' ad' \<and> xs = ys"
    if "colon_free xs" "colon_free ys" for xs ys
  proof -
    have "join_colon (prefix_fields b ad @ xs) = join_colon (prefix_fields b' ad' @ ys) \<longleftrightarrow> prefix_fields b ad @ xs = prefix_fields b' ad' @ ys"
      using join_colon_inj [OF _ _ ne [of b ad xs] ne [of b' ad' ys]] that fields_colon_free(1) by auto
    then show ?thesis by (simp only: append_same_prefix_length [OF len] prefix_fields_inj)
  qed
  have digest: "colon_free [EncodeToString d]" for d
    using EncodeToString_chars by simp
  have "key_fields k \<noteq> [EncodeToString d]" for k d by (auto simp: key_fields_def split: option.split)
  then show ?thesis
    unfolding plaintext_fields inj [OF fields_colon_free(2) fields_colon_free(2)] inj [OF fields_colon_free(2) digest] inj [OF digest digest]
    using EncodeToString_inj by (auto simp: key_fields_inj)
qed

end
