(* ===== verification/Crypto_Session.thy ===== *)
theory Crypto_Session
  imports Protocol Error_Code
begin

section \<open>Crypto sessions (impl/atbus\_connection\_context.go)\<close>

text \<open>
  The tables of algorithms, the key pair, key derivation and the encryption and decryption of one direction of a connection.
  Ciphers, key exchange and key derivation themselves are the functions of a record \<open>crypto_lib\<close>, a parameter; what is assumed of
  them is \<open>crypto_lib_ok\<close> (decryption inverts encryption, sizes, and that both sides of an exchange get the same secret). The CBC mode
  and the padding are modelled here. Errors keep the sentinel they wrap and drop its text. The locks make every method
  atomic. Random bytes come from the argument \<open>rnd\<close>, the result of the reads of \<open>crypto/rand\<close> by size, \<^term>\<open>None\<close> for a failing
  read.
\<close>

subsection \<open>Algorithms\<close>

definition unknown_name :: "int \<Rightarrow> string" where
  "unknown_name n = ''UNKNOWN('' @ show_int n @ '')''"

fun cryptoAlgorithmString :: "ATBUS_CRYPTO_ALGORITHM_TYPE \<Rightarrow> string" where
  "cryptoAlgorithmString CRYPTO_NONE = ''NONE''"
| "cryptoAlgorithmString XXTEA = ''XXTEA''"
| "cryptoAlgorithmString AES_128_CBC = ''AES-128-CBC''"
| "cryptoAlgorithmString AES_192_CBC = ''AES-192-CBC''"
| "cryptoAlgorithmString AES_256_CBC = ''AES-256-CBC''"
| "cryptoAlgorithmString AES_128_GCM = ''AES-128-GCM''"
| "cryptoAlgorithmString AES_192_GCM = ''AES-192-GCM''"
| "cryptoAlgorithmString AES_256_GCM = ''AES-256-GCM''"
| "cryptoAlgorithmString CHACHA20 = ''CHACHA20''"
| "cryptoAlgorithmString CHACHA20_POLY1305_IETF = ''CHACHA20-POLY1305''"
| "cryptoAlgorithmString XCHACHA20_POLY1305_IETF = ''XCHACHA20-POLY1305''"
| "cryptoAlgorithmString (CRYPTO_OTHER n) = unknown_name n"

fun cryptoAlgorithmKeySize :: "ATBUS_CRYPTO_ALGORITHM_TYPE \<Rightarrow> nat" where
  "cryptoAlgorithmKeySize CRYPTO_NONE = 0"
| "cryptoAlgorithmKeySize XXTEA = 16"
| "cryptoAlgorithmKeySize AES_128_CBC = 16"
| "cryptoAlgorithmKeySize AES_128_GCM = 16"
| "cryptoAlgorithmKeySize AES_192_CBC = 24"
| "cryptoAlgorithmKeySize AES_192_GCM = 24"
| "cryptoAlgorithmKeySize AES_256_CBC = 32"
| "cryptoAlgorithmKeySize AES_256_GCM = 32"
| "cryptoAlgorithmKeySize CHACHA20 = 32"
| "cryptoAlgorithmKeySize CHACHA20_POLY1305_IETF = 32"
| "cryptoAlgorithmKeySize XCHACHA20_POLY1305_IETF = 32"
| "cryptoAlgorithmKeySize (CRYPTO_OTHER _) = 0"

fun cryptoAlgorithmIVSize :: "ATBUS_CRYPTO_ALGORITHM_TYPE \<Rightarrow> nat" where
  "cryptoAlgorithmIVSize CRYPTO_NONE = 0"
| "cryptoAlgorithmIVSize XXTEA = 0"
| "cryptoAlgorithmIVSize AES_128_CBC = 16"
| "cryptoAlgorithmIVSize AES_192_CBC = 16"
| "cryptoAlgorithmIVSize AES_256_CBC = 16"
| "cryptoAlgorithmIVSize AES_128_GCM = 12"
| "cryptoAlgorithmIVSize AES_192_GCM = 12"
| "cryptoAlgorithmIVSize AES_256_GCM = 12"
| "cryptoAlgorithmIVSize CHACHA20 = 16"
| "cryptoAlgorithmIVSize CHACHA20_POLY1305_IETF = 12"
| "cryptoAlgorithmIVSize XCHACHA20_POLY1305_IETF = 24"
| "cryptoAlgorithmIVSize (CRYPTO_OTHER _) = 0"

definition cryptoAlgorithmIsAEAD :: "ATBUS_CRYPTO_ALGORITHM_TYPE \<Rightarrow> bool" where
  "cryptoAlgorithmIsAEAD c \<longleftrightarrow>
     c \<in> {AES_128_GCM, AES_192_GCM, AES_256_GCM, CHACHA20_POLY1305_IETF, XCHACHA20_POLY1305_IETF}"

definition cryptoAlgorithmTagSize :: "ATBUS_CRYPTO_ALGORITHM_TYPE \<Rightarrow> nat" where
  "cryptoAlgorithmTagSize c =
     (if c \<in> {AES_128_GCM, AES_192_GCM, AES_256_GCM} then 16
      else if c \<in> {CHACHA20_POLY1305_IETF, XCHACHA20_POLY1305_IETF} then 16 else 0)"

fun keyExchangeString :: "ATBUS_CRYPTO_KEY_EXCHANGE_TYPE \<Rightarrow> string" where
  "keyExchangeString KEY_EXCHANGE_NONE = ''NONE''"
| "keyExchangeString X25519 = ''X25519''"
| "keyExchangeString SECP256R1 = ''SECP256R1''"
| "keyExchangeString SECP384R1 = ''SECP384R1''"
| "keyExchangeString SECP521R1 = ''SECP521R1''"
| "keyExchangeString (KEY_EXCHANGE_OTHER n) = unknown_name n"

datatype Curve = Curve_X25519 | Curve_P256 | Curve_P384 | Curve_P521

fun keyExchangeCurve :: "ATBUS_CRYPTO_KEY_EXCHANGE_TYPE \<Rightarrow> Curve option" where
  "keyExchangeCurve X25519 = Some Curve_X25519"
| "keyExchangeCurve SECP256R1 = Some Curve_P256"
| "keyExchangeCurve SECP384R1 = Some Curve_P384"
| "keyExchangeCurve SECP521R1 = Some Curve_P521"
| "keyExchangeCurve _ = None"

fun kdfTypeString :: "ATBUS_CRYPTO_KDF_TYPE \<Rightarrow> string" where
  "kdfTypeString HKDF_SHA256 = ''HKDF-SHA256''"
| "kdfTypeString (KDF_OTHER n) = unknown_name n"

datatype context_error =
    ErrCryptoNotInitialized | ErrCryptoAlgorithmNotSupported | ErrCryptoInvalidKeySize | ErrCryptoInvalidIVSize
  | ErrCryptoEncryptFailed | ErrCryptoDecryptFailed | ErrCryptoHandshakeFailed | ErrCryptoKeyExchangeFailed
  | ErrCryptoKDFFailed | ErrCompressionNotSupported | ErrCompressionFailed | ErrDecompressionFailed | ErrPackFailed
  | ErrUnpackFailed | ErrInvalidData | ErrConnectionClosing

subsection \<open>Ciphers\<close>

text \<open>
  The cached cipher objects of a session: an AEAD is its construction and its key, a block cipher is AES with a key of 16, 24 or
  32 bytes. Private keys are opaque byte strings.
\<close>

datatype AEAD = GCM bytes | ChaCha20Poly1305 bytes | XChaCha20Poly1305 bytes

fun NonceSize :: "AEAD \<Rightarrow> nat" where
  "NonceSize (GCM _) = 12"
| "NonceSize (ChaCha20Poly1305 _) = 12"
| "NonceSize (XChaCha20Poly1305 _) = 24"

record crypto_lib =
  aes_encrypt :: "bytes \<Rightarrow> bytes \<Rightarrow> bytes"
  aes_decrypt :: "bytes \<Rightarrow> bytes \<Rightarrow> bytes"
  aead_Seal :: "AEAD \<Rightarrow> bytes \<Rightarrow> bytes \<Rightarrow> bytes \<Rightarrow> bytes"
  aead_Open :: "AEAD \<Rightarrow> bytes \<Rightarrow> bytes \<Rightarrow> bytes \<Rightarrow> bytes option"
  chacha20_XORKeyStream :: "bytes \<Rightarrow> bytes \<Rightarrow> bytes \<Rightarrow> bytes option"
  xxtea_Setup :: "bytes \<Rightarrow> bytes option"
  xxtea_Encrypt :: "bytes \<Rightarrow> bytes \<Rightarrow> bytes option"
  xxtea_Decrypt :: "bytes \<Rightarrow> bytes \<Rightarrow> bytes option"
  hkdf_sha256 :: "bytes \<Rightarrow> nat \<Rightarrow> bytes option"
  ecdh_GenerateKey :: "Curve \<Rightarrow> bytes \<Rightarrow> bytes option"
  ecdh_PublicKey :: "Curve \<Rightarrow> bytes \<Rightarrow> bytes"
  ecdh_ValidKey :: "Curve \<Rightarrow> bytes \<Rightarrow> bool"
  ecdh_ECDH :: "Curve \<Rightarrow> bytes \<Rightarrow> bytes \<Rightarrow> bytes option"

definition aes_BlockSize :: nat where "aes_BlockSize = 16"

definition chacha20_IVSize :: nat where "chacha20_IVSize = 16"

definition chacha20_KeySize :: nat where "chacha20_KeySize = 32"

definition aes_key_ok :: "bytes \<Rightarrow> bool" where
  "aes_key_ok k \<longleftrightarrow> length k \<in> {16, 24, 32}"

definition rand_read :: "(nat \<Rightarrow> bytes option) \<Rightarrow> nat \<Rightarrow> bytes option" where
  "rand_read rnd n = map_option (\<lambda>r. copy_at 0 r (make_bytes n)) (rnd n)"

definition xor_bytes :: "bytes \<Rightarrow> bytes \<Rightarrow> bytes" where
  "xor_bytes a b = map2 (XOR) a b"

text \<open>
  \<open>CryptBlocks\<close> of the CBC modes, block by block. Its callers make sure that the length is a multiple of the block size and that
  the initial vector has the block size, outside of which it panics.
\<close>

function cbc_encrypt :: "(bytes \<Rightarrow> bytes) \<Rightarrow> bytes \<Rightarrow> bytes \<Rightarrow> bytes" where
  "cbc_encrypt E iv data =
     (if data = [] then []
      else let c = E (xor_bytes (take aes_BlockSize data) iv) in c @ cbc_encrypt E c (drop aes_BlockSize data))"
  by pat_completeness auto
termination
  by (relation "measure (\<lambda>(E, iv, data). length data)") (simp_all add: aes_BlockSize_def)

function cbc_decrypt :: "(bytes \<Rightarrow> bytes) \<Rightarrow> bytes \<Rightarrow> bytes \<Rightarrow> bytes" where
  "cbc_decrypt D iv data =
     (if data = [] then []
      else let c = take aes_BlockSize data in xor_bytes (D c) iv @ cbc_decrypt D c (drop aes_BlockSize data))"
  by pat_completeness auto
termination
  by (relation "measure (\<lambda>(D, iv, data). length data)") (simp_all add: aes_BlockSize_def)

declare cbc_encrypt.simps [simp del] cbc_decrypt.simps [simp del]

text \<open>PKCS\#7 padding, the loops of the encrypting and decrypting methods.\<close>

definition pkcs7_pad :: "nat \<Rightarrow> bytes \<Rightarrow> bytes" where
  "pkcs7_pad blockSize plaintext =
     (let padding = blockSize - length plaintext mod blockSize in plaintext @ replicate padding (word_of_nat padding))"

text \<open>The loop over the padding and the last slice expression panic where the index is negative.\<close>

definition pkcs7_unpad :: "nat \<Rightarrow> bytes \<Rightarrow> (context_error + bytes) outcome" where
  "pkcs7_unpad blockSize plaintext =
     (if length plaintext = 0 then Returns (Inl ErrCryptoDecryptFailed)
      else let padding = unat (plaintext ! (length plaintext - 1)); start = int (length plaintext) - int padding in
        if padding \<le> 0 \<or> blockSize < padding then Returns (Inl ErrCryptoDecryptFailed)
        else if start < 0 then Panics
        else if list_ex (\<lambda>i. plaintext ! i \<noteq> word_of_nat padding) [nat start ..< length plaintext]
        then Returns (Inl ErrCryptoDecryptFailed)
        else bind_outcome (slice plaintext 0 start) (\<lambda>text. Returns (Inr text)))"

subsection \<open>Sessions\<close>

record CryptoSession =
  cs_Algorithm :: ATBUS_CRYPTO_ALGORITHM_TYPE
  cs_KeyExchange :: ATBUS_CRYPTO_KEY_EXCHANGE_TYPE
  cs_KDFType :: ATBUS_CRYPTO_KDF_TYPE
  cs_Key :: bytes
  cs_IV :: bytes
  cs_TagSize :: uint32
  cs_IVSize :: uint32
  cs_privateKey :: "(Curve \<times> bytes) option"
  cs_publicKey :: "bytes option"
  cs_aeadCipher :: "AEAD option"
  cs_blockCipher :: "bytes option"
  cs_xxteaKey :: "bytes option"
  cs_nonceCounter :: uint64
  cs_initialized :: bool

definition NewCryptoSession :: CryptoSession where
  "NewCryptoSession = \<lparr>cs_Algorithm = CRYPTO_NONE, cs_KeyExchange = KEY_EXCHANGE_NONE, cs_KDFType = HKDF_SHA256, cs_Key = [],
     cs_IV = [], cs_TagSize = 0, cs_IVSize = 0, cs_privateKey = None, cs_publicKey = None, cs_aeadCipher = None,
     cs_blockCipher = None, cs_xxteaKey = None, cs_nonceCounter = 0, cs_initialized = False\<rparr>"

definition IsInitialized :: "CryptoSession \<Rightarrow> bool" where
  "IsInitialized cs = cs_initialized cs"

text \<open>The entropy that \<open>GenerateKey\<close> reads is the argument \<open>entropy\<close>.\<close>

definition GenerateKeyPair ::
  "crypto_lib \<Rightarrow> bytes \<Rightarrow> ATBUS_CRYPTO_KEY_EXCHANGE_TYPE \<Rightarrow> CryptoSession \<Rightarrow> CryptoSession \<times> context_error option" where
  "GenerateKeyPair L entropy keyExchange cs =
     (case keyExchangeCurve keyExchange of
        None \<Rightarrow> (cs, Some ErrCryptoAlgorithmNotSupported)
      | Some curve \<Rightarrow>
          case ecdh_GenerateKey L curve entropy of
            None \<Rightarrow> (cs, Some ErrCryptoHandshakeFailed)
          | Some k \<Rightarrow>
              (cs\<lparr>cs_privateKey := Some (curve, k), cs_publicKey := Some (ecdh_PublicKey L curve k), cs_KeyExchange := keyExchange\<rparr>, None))"

definition GetPublicKey :: "CryptoSession \<Rightarrow> bytes option" where
  "GetPublicKey cs = cs_publicKey cs"

definition ComputeSharedSecret :: "crypto_lib \<Rightarrow> bytes \<Rightarrow> CryptoSession \<Rightarrow> context_error + bytes" where
  "ComputeSharedSecret L peerPublicKeyBytes cs =
     (case cs_privateKey cs of
        None \<Rightarrow> Inl ErrCryptoNotInitialized
      | Some (c, k) \<Rightarrow>
          case keyExchangeCurve (cs_KeyExchange cs) of
            None \<Rightarrow> Inl ErrCryptoAlgorithmNotSupported
          | Some curve \<Rightarrow>
              if \<not> ecdh_ValidKey L curve peerPublicKeyBytes then Inl ErrCryptoKeyExchangeFailed
              else if c \<noteq> curve then Inl ErrCryptoKeyExchangeFailed
              else case ecdh_ECDH L curve k peerPublicKeyBytes of
                None \<Rightarrow> Inl ErrCryptoKeyExchangeFailed
              | Some sharedSecret \<Rightarrow> Inr sharedSecret)"

definition initCipher :: "crypto_lib \<Rightarrow> CryptoSession \<Rightarrow> CryptoSession \<times> context_error option" where
  "initCipher L cs =
     (let cs = cs\<lparr>cs_aeadCipher := None, cs_blockCipher := None, cs_xxteaKey := None\<rparr>;
          fail = (cs, Some ErrCryptoAlgorithmNotSupported);
          gcm = (if aes_key_ok (cs_Key cs)
                 then (cs\<lparr>cs_aeadCipher := Some (GCM (cs_Key cs)), cs_blockCipher := Some (cs_Key cs)\<rparr>, None) else fail);
          cbc = (if aes_key_ok (cs_Key cs) then (cs\<lparr>cs_blockCipher := Some (cs_Key cs)\<rparr>, None) else fail)
      in case cs_Algorithm cs of
           CRYPTO_NONE \<Rightarrow> (cs, None)
         | AES_128_GCM \<Rightarrow> gcm | AES_192_GCM \<Rightarrow> gcm | AES_256_GCM \<Rightarrow> gcm
         | AES_128_CBC \<Rightarrow> cbc | AES_192_CBC \<Rightarrow> cbc | AES_256_CBC \<Rightarrow> cbc
         | CHACHA20_POLY1305_IETF \<Rightarrow>
             if length (cs_Key cs) = 32 then (cs\<lparr>cs_aeadCipher := Some (ChaCha20Poly1305 (cs_Key cs))\<rparr>, None) else fail
         | CHACHA20 \<Rightarrow> if length (cs_Key cs) \<noteq> chacha20_KeySize then fail else (cs, None)
         | XCHACHA20_POLY1305_IETF \<Rightarrow>
             if length (cs_Key cs) = 32 then (cs\<lparr>cs_aeadCipher := Some (XChaCha20Poly1305 (cs_Key cs))\<rparr>, None) else fail
         | XXTEA \<Rightarrow> (case xxtea_Setup L (cs_Key cs) of
               None \<Rightarrow> fail
             | Some k \<Rightarrow> (cs\<lparr>cs_xxteaKey := Some k\<rparr>, None))
         | CRYPTO_OTHER _ \<Rightarrow> fail)"

definition DeriveKey ::
  "crypto_lib \<Rightarrow> bytes \<Rightarrow> ATBUS_CRYPTO_ALGORITHM_TYPE \<Rightarrow> ATBUS_CRYPTO_KDF_TYPE \<Rightarrow> CryptoSession
    \<Rightarrow> CryptoSession \<times> context_error option" where
  "DeriveKey L sharedSecret algorithm kdfType cs =
     (if kdfType \<noteq> HKDF_SHA256 then (cs, Some ErrCryptoKDFFailed)
      else let keySize = cryptoAlgorithmKeySize algorithm; ivSize = cryptoAlgorithmIVSize algorithm in
        if keySize = 0 \<and> algorithm \<noteq> CRYPTO_NONE then (cs, Some ErrCryptoAlgorithmNotSupported)
        else let totalSize = keySize + ivSize in
          if totalSize = 0 then (cs\<lparr>cs_Algorithm := algorithm, cs_KDFType := kdfType, cs_initialized := True\<rparr>, None)
          else case hkdf_sha256 L sharedSecret totalSize of
            None \<Rightarrow> (cs, Some ErrCryptoKDFFailed)
          | Some keyMaterial \<Rightarrow>
              let cs = cs\<lparr>cs_Key := take keySize keyMaterial,
                         cs_IV := (if 0 < ivSize then drop keySize keyMaterial else cs_IV cs),
                         cs_Algorithm := algorithm, cs_KDFType := kdfType, cs_IVSize := word_of_nat ivSize,
                         cs_TagSize := word_of_nat (cryptoAlgorithmTagSize algorithm)\<rparr>;
                  (cs, err) = initCipher L cs
              in case err of Some e \<Rightarrow> (cs, Some e) | None \<Rightarrow> (cs\<lparr>cs_initialized := True\<rparr>, None))"

definition SetKey ::
  "crypto_lib \<Rightarrow> bytes \<Rightarrow> bytes \<Rightarrow> ATBUS_CRYPTO_ALGORITHM_TYPE \<Rightarrow> CryptoSession \<Rightarrow> CryptoSession \<times> context_error option" where
  "SetKey L key iv algorithm cs =
     (let expectedKeySize = cryptoAlgorithmKeySize algorithm; expectedIVSize = cryptoAlgorithmIVSize algorithm in
      if algorithm = CRYPTO_NONE then (cs\<lparr>cs_Algorithm := algorithm, cs_initialized := True\<rparr>, None)
      else if length key \<noteq> expectedKeySize then (cs, Some ErrCryptoInvalidKeySize)
      else if length iv \<noteq> expectedIVSize \<and> 0 < expectedIVSize then (cs, Some ErrCryptoInvalidIVSize)
      else let cs = cs\<lparr>cs_Key := key, cs_IV := (if 0 < length iv then iv else cs_IV cs), cs_Algorithm := algorithm,
                      cs_IVSize := word_of_nat expectedIVSize, cs_TagSize := word_of_nat (cryptoAlgorithmTagSize algorithm)\<rparr>;
               (cs, err) = initCipher L cs
           in case err of Some e \<Rightarrow> (cs, Some e) | None \<Rightarrow> (cs\<lparr>cs_initialized := True\<rparr>, None))"

subsection \<open>Encryption\<close>

definition PutUint64_le :: "uint64 \<Rightarrow> bytes" where
  "PutUint64_le v = map (\<lambda>i. ucast (drop_bit (8 * i) v)) [0 ..< 8]"

definition encryptAEAD ::
  "crypto_lib \<Rightarrow> (nat \<Rightarrow> bytes option) \<Rightarrow> bytes \<Rightarrow> CryptoSession \<Rightarrow> CryptoSession \<times> (context_error + bytes)" where
  "encryptAEAD L rnd plaintext cs =
     (case cs_aeadCipher cs of
        None \<Rightarrow> (cs, Inl ErrCryptoNotInitialized)
      | Some a \<Rightarrow>
          let nonceSize = NonceSize a;
              counter = cs_nonceCounter cs + 1;
              cs = cs\<lparr>cs_nonceCounter := counter\<rparr>;
              nonce = copy_at 0 (PutUint64_le counter) (make_bytes nonceSize);
              ononce = (if 8 < nonceSize then map_option (\<lambda>r. copy_at 8 r nonce) (rand_read rnd (nonceSize - 8)) else Some nonce)
          in case ononce of
               None \<Rightarrow> (cs, Inl ErrCryptoEncryptFailed)
             | Some nonce \<Rightarrow>
                 let ciphertext = aead_Seal L a nonce plaintext [];
                     result = make_bytes (nonceSize + length ciphertext);
                     result = copy_at 0 nonce result;
                     result = copy_at nonceSize ciphertext result
                 in (cs, Inr result))"

definition encryptCBCWithIV :: "crypto_lib \<Rightarrow> bytes \<Rightarrow> bytes \<Rightarrow> CryptoSession \<Rightarrow> context_error + bytes" where
  "encryptCBCWithIV L plaintext iv cs =
     (case cs_blockCipher cs of
        None \<Rightarrow> Inl ErrCryptoNotInitialized
      | Some k \<Rightarrow>
          if length iv \<noteq> aes_BlockSize then Inl ErrCryptoInvalidIVSize
          else Inr (cbc_encrypt (aes_encrypt L k) iv (pkcs7_pad aes_BlockSize plaintext)))"

definition encryptCBC :: "crypto_lib \<Rightarrow> (nat \<Rightarrow> bytes option) \<Rightarrow> bytes \<Rightarrow> CryptoSession \<Rightarrow> context_error + bytes" where
  "encryptCBC L rnd plaintext cs =
     (case cs_blockCipher cs of
        None \<Rightarrow> Inl ErrCryptoNotInitialized
      | Some k \<Rightarrow>
          let padded = pkcs7_pad aes_BlockSize plaintext in
          case rand_read rnd aes_BlockSize of
            None \<Rightarrow> Inl ErrCryptoEncryptFailed
          | Some iv \<Rightarrow>
              let ciphertext = cbc_encrypt (aes_encrypt L k) iv padded;
                  result = make_bytes (aes_BlockSize + length ciphertext);
                  result = copy_at 0 iv result;
                  result = copy_at aes_BlockSize ciphertext result
              in Inr result)"

definition encryptChaCha20WithIV :: "crypto_lib \<Rightarrow> bytes \<Rightarrow> bytes \<Rightarrow> CryptoSession \<Rightarrow> context_error + bytes" where
  "encryptChaCha20WithIV L plaintext iv cs =
     (if length iv \<noteq> chacha20_IVSize then Inl ErrCryptoInvalidIVSize
      else case chacha20_XORKeyStream L plaintext (cs_Key cs) iv of
        None \<Rightarrow> Inl ErrCryptoEncryptFailed
      | Some ciphertext \<Rightarrow> Inr ciphertext)"

definition encryptChaCha20 :: "crypto_lib \<Rightarrow> (nat \<Rightarrow> bytes option) \<Rightarrow> bytes \<Rightarrow> CryptoSession \<Rightarrow> context_error + bytes" where
  "encryptChaCha20 L rnd plaintext cs =
     (let nonceSize = cryptoAlgorithmIVSize (cs_Algorithm cs) in
      case rand_read rnd nonceSize of
        None \<Rightarrow> Inl ErrCryptoEncryptFailed
      | Some nonce \<Rightarrow>
          case encryptChaCha20WithIV L plaintext nonce cs of
            Inl e \<Rightarrow> Inl e
          | Inr ciphertext \<Rightarrow>
              let result = make_bytes (nonceSize + length ciphertext);
                  result = copy_at 0 nonce result;
                  result = copy_at nonceSize ciphertext result
              in Inr result)"

definition encryptXXTEA :: "crypto_lib \<Rightarrow> bytes \<Rightarrow> CryptoSession \<Rightarrow> context_error + bytes" where
  "encryptXXTEA L plaintext cs =
     (case cs_xxteaKey cs of
        None \<Rightarrow> Inl ErrCryptoNotInitialized
      | Some k \<Rightarrow>
          let padding = 4 - length plaintext mod 4;
              paddedLen = length plaintext + padding;
              paddedLen = (if paddedLen < 8 then 8 else paddedLen);
              padded = copy_at 0 plaintext (make_bytes paddedLen);
              padded = copy_at (length plaintext) (replicate padding (word_of_nat padding)) padded
          in case xxtea_Encrypt L k padded of
               None \<Rightarrow> Inl ErrCryptoEncryptFailed
             | Some c \<Rightarrow> Inr c)"

definition Encrypt ::
  "crypto_lib \<Rightarrow> (nat \<Rightarrow> bytes option) \<Rightarrow> bytes \<Rightarrow> CryptoSession \<Rightarrow> CryptoSession \<times> (context_error + bytes)" where
  "Encrypt L rnd plaintext cs =
     (if \<not> cs_initialized cs then (cs, Inl ErrCryptoNotInitialized)
      else if cs_Algorithm cs = CRYPTO_NONE then (cs, Inr plaintext)
      else if length plaintext = 0 then (cs, Inr [])
      else case cs_Algorithm cs of
        AES_128_GCM \<Rightarrow> encryptAEAD L rnd plaintext cs
      | AES_192_GCM \<Rightarrow> encryptAEAD L rnd plaintext cs
      | AES_256_GCM \<Rightarrow> encryptAEAD L rnd plaintext cs
      | CHACHA20_POLY1305_IETF \<Rightarrow> encryptAEAD L rnd plaintext cs
      | XCHACHA20_POLY1305_IETF \<Rightarrow> encryptAEAD L rnd plaintext cs
      | AES_128_CBC \<Rightarrow> (cs, encryptCBC L rnd plaintext cs)
      | AES_192_CBC \<Rightarrow> (cs, encryptCBC L rnd plaintext cs)
      | AES_256_CBC \<Rightarrow> (cs, encryptCBC L rnd plaintext cs)
      | CHACHA20 \<Rightarrow> (cs, encryptChaCha20 L rnd plaintext cs)
      | XXTEA \<Rightarrow> (cs, encryptXXTEA L plaintext cs)
      | _ \<Rightarrow> (cs, Inl ErrCryptoAlgorithmNotSupported))"

definition EncryptWithIVAndAAD :: "crypto_lib \<Rightarrow> bytes \<Rightarrow> bytes \<Rightarrow> bytes \<Rightarrow> CryptoSession \<Rightarrow> context_error + bytes" where
  "EncryptWithIVAndAAD L plaintext iv aad cs =
     (if \<not> cs_initialized cs then Inl ErrCryptoNotInitialized
      else if \<not> cryptoAlgorithmIsAEAD (cs_Algorithm cs) then Inl ErrCryptoAlgorithmNotSupported
      else case cs_aeadCipher cs of
        None \<Rightarrow> Inl ErrCryptoNotInitialized
      | Some a \<Rightarrow>
          if length iv \<noteq> NonceSize a then Inl ErrCryptoInvalidIVSize
          else Inr (aead_Seal L a iv plaintext aad))"

definition EncryptWithIV :: "crypto_lib \<Rightarrow> bytes \<Rightarrow> bytes \<Rightarrow> CryptoSession \<Rightarrow> context_error + bytes" where
  "EncryptWithIV L plaintext iv cs =
     (if \<not> cs_initialized cs then Inl ErrCryptoNotInitialized
      else if cryptoAlgorithmIsAEAD (cs_Algorithm cs) then Inl ErrCryptoAlgorithmNotSupported
      else if cs_Algorithm cs = CRYPTO_NONE then Inr plaintext
      else case cs_Algorithm cs of
        AES_128_CBC \<Rightarrow> encryptCBCWithIV L plaintext iv cs
      | AES_192_CBC \<Rightarrow> encryptCBCWithIV L plaintext iv cs
      | AES_256_CBC \<Rightarrow> encryptCBCWithIV L plaintext iv cs
      | CHACHA20 \<Rightarrow> encryptChaCha20WithIV L plaintext iv cs
      | XXTEA \<Rightarrow> encryptXXTEA L plaintext cs
      | _ \<Rightarrow> Inl ErrCryptoAlgorithmNotSupported)"

subsection \<open>Decryption\<close>

definition decryptAEAD :: "crypto_lib \<Rightarrow> bytes \<Rightarrow> CryptoSession \<Rightarrow> context_error + bytes" where
  "decryptAEAD L ciphertext cs =
     (case cs_aeadCipher cs of
        None \<Rightarrow> Inl ErrCryptoNotInitialized
      | Some a \<Rightarrow>
          let nonceSize = NonceSize a in
          if length ciphertext < nonceSize then Inl ErrCryptoDecryptFailed
          else let nonce = take nonceSize ciphertext; encryptedData = drop nonceSize ciphertext in
            case aead_Open L a nonce encryptedData [] of
              None \<Rightarrow> Inl ErrCryptoDecryptFailed
            | Some plaintext \<Rightarrow> Inr plaintext)"

definition decryptCBC :: "crypto_lib \<Rightarrow> bytes \<Rightarrow> CryptoSession \<Rightarrow> (context_error + bytes) outcome" where
  "decryptCBC L ciphertext cs =
     (case cs_blockCipher cs of
        None \<Rightarrow> Returns (Inl ErrCryptoNotInitialized)
      | Some k \<Rightarrow>
          if length ciphertext < aes_BlockSize * 2 then Returns (Inl ErrCryptoDecryptFailed)
          else if length ciphertext mod aes_BlockSize \<noteq> 0 then Returns (Inl ErrCryptoDecryptFailed)
          else let iv = take aes_BlockSize ciphertext; encryptedData = drop aes_BlockSize ciphertext;
                   plaintext = copy_at 0 (cbc_decrypt (aes_decrypt L k) iv encryptedData) (make_bytes (length encryptedData))
            in pkcs7_unpad aes_BlockSize plaintext)"

definition decryptCBCWithIV :: "crypto_lib \<Rightarrow> bytes \<Rightarrow> bytes \<Rightarrow> CryptoSession \<Rightarrow> (context_error + bytes) outcome" where
  "decryptCBCWithIV L ciphertext iv cs =
     (case cs_blockCipher cs of
        None \<Rightarrow> Returns (Inl ErrCryptoNotInitialized)
      | Some k \<Rightarrow>
          if length iv \<noteq> aes_BlockSize then Returns (Inl ErrCryptoInvalidIVSize)
          else if length ciphertext < aes_BlockSize then Returns (Inl ErrCryptoDecryptFailed)
          else if length ciphertext mod aes_BlockSize \<noteq> 0 then Returns (Inl ErrCryptoDecryptFailed)
          else let plaintext = copy_at 0 (cbc_decrypt (aes_decrypt L k) iv ciphertext) (make_bytes (length ciphertext))
            in pkcs7_unpad aes_BlockSize plaintext)"

definition decryptChaCha20WithIV :: "crypto_lib \<Rightarrow> bytes \<Rightarrow> bytes \<Rightarrow> CryptoSession \<Rightarrow> context_error + bytes" where
  "decryptChaCha20WithIV L ciphertext iv cs =
     (if length iv \<noteq> chacha20_IVSize then Inl ErrCryptoInvalidIVSize
      else case chacha20_XORKeyStream L ciphertext (cs_Key cs) iv of
        None \<Rightarrow> Inl ErrCryptoDecryptFailed
      | Some plaintext \<Rightarrow> Inr plaintext)"

definition decryptChaCha20 :: "crypto_lib \<Rightarrow> bytes \<Rightarrow> CryptoSession \<Rightarrow> context_error + bytes" where
  "decryptChaCha20 L ciphertext cs =
     (let nonceSize = cryptoAlgorithmIVSize (cs_Algorithm cs) in
      if length ciphertext < nonceSize then Inl ErrCryptoDecryptFailed
      else decryptChaCha20WithIV L (drop nonceSize ciphertext) (take nonceSize ciphertext) cs)"

definition decryptXXTEA :: "crypto_lib \<Rightarrow> bytes \<Rightarrow> CryptoSession \<Rightarrow> context_error + bytes" where
  "decryptXXTEA L ciphertext cs =
     (case cs_xxteaKey cs of
        None \<Rightarrow> Inl ErrCryptoNotInitialized
      | Some k \<Rightarrow> (case xxtea_Decrypt L k ciphertext of None \<Rightarrow> Inl ErrCryptoDecryptFailed | Some p \<Rightarrow> Inr p))"

definition Decrypt :: "crypto_lib \<Rightarrow> bytes \<Rightarrow> CryptoSession \<Rightarrow> (context_error + bytes) outcome" where
  "Decrypt L ciphertext cs =
     (if \<not> cs_initialized cs then Returns (Inl ErrCryptoNotInitialized)
      else if cs_Algorithm cs = CRYPTO_NONE then Returns (Inr ciphertext)
      else if length ciphertext = 0 then Returns (Inr [])
      else case cs_Algorithm cs of
        AES_128_GCM \<Rightarrow> Returns (decryptAEAD L ciphertext cs)
      | AES_192_GCM \<Rightarrow> Returns (decryptAEAD L ciphertext cs)
      | AES_256_GCM \<Rightarrow> Returns (decryptAEAD L ciphertext cs)
      | CHACHA20_POLY1305_IETF \<Rightarrow> Returns (decryptAEAD L ciphertext cs)
      | XCHACHA20_POLY1305_IETF \<Rightarrow> Returns (decryptAEAD L ciphertext cs)
      | AES_128_CBC \<Rightarrow> decryptCBC L ciphertext cs
      | AES_192_CBC \<Rightarrow> decryptCBC L ciphertext cs
      | AES_256_CBC \<Rightarrow> decryptCBC L ciphertext cs
      | CHACHA20 \<Rightarrow> Returns (decryptChaCha20 L ciphertext cs)
      | XXTEA \<Rightarrow> Returns (decryptXXTEA L ciphertext cs)
      | _ \<Rightarrow> Returns (Inl ErrCryptoAlgorithmNotSupported))"

definition DecryptWithIVAndAAD :: "crypto_lib \<Rightarrow> bytes \<Rightarrow> bytes \<Rightarrow> bytes \<Rightarrow> CryptoSession \<Rightarrow> context_error + bytes" where
  "DecryptWithIVAndAAD L ciphertext iv aad cs =
     (if \<not> cs_initialized cs then Inl ErrCryptoNotInitialized
      else if \<not> cryptoAlgorithmIsAEAD (cs_Algorithm cs) then Inl ErrCryptoAlgorithmNotSupported
      else case cs_aeadCipher cs of
        None \<Rightarrow> Inl ErrCryptoNotInitialized
      | Some a \<Rightarrow>
          if length iv \<noteq> NonceSize a then Inl ErrCryptoInvalidIVSize
          else case aead_Open L a iv ciphertext aad of
            None \<Rightarrow> Inl ErrCryptoDecryptFailed
          | Some plaintext \<Rightarrow> Inr plaintext)"

definition DecryptWithIV :: "crypto_lib \<Rightarrow> bytes \<Rightarrow> bytes \<Rightarrow> CryptoSession \<Rightarrow> (context_error + bytes) outcome" where
  "DecryptWithIV L ciphertext iv cs =
     (if \<not> cs_initialized cs then Returns (Inl ErrCryptoNotInitialized)
      else if cryptoAlgorithmIsAEAD (cs_Algorithm cs) then Returns (Inl ErrCryptoAlgorithmNotSupported)
      else if cs_Algorithm cs = CRYPTO_NONE then Returns (Inr ciphertext)
      else case cs_Algorithm cs of
        AES_128_CBC \<Rightarrow> decryptCBCWithIV L ciphertext iv cs
      | AES_192_CBC \<Rightarrow> decryptCBCWithIV L ciphertext iv cs
      | AES_256_CBC \<Rightarrow> decryptCBCWithIV L ciphertext iv cs
      | CHACHA20 \<Rightarrow> Returns (decryptChaCha20WithIV L ciphertext iv cs)
      | XXTEA \<Rightarrow> Returns (decryptXXTEA L ciphertext cs)
      | _ \<Rightarrow> Returns (Inl ErrCryptoAlgorithmNotSupported))"

subsection \<open>What is assumed of the cryptographic functions\<close>

definition aes_ok :: "crypto_lib \<Rightarrow> bool" where
  "aes_ok L \<longleftrightarrow> (\<forall>k b. aes_key_ok k \<longrightarrow> length b = 16 \<longrightarrow>
     length (aes_encrypt L k b) = 16 \<and> length (aes_decrypt L k b) = 16 \<and> aes_decrypt L k (aes_encrypt L k b) = b)"

definition aead_ok :: "crypto_lib \<Rightarrow> bool" where
  "aead_ok L \<longleftrightarrow> (\<forall>a n p d. aead_Open L a n (aead_Seal L a n p d) d = Some p \<and> length (aead_Seal L a n p d) \<le> length p + 16)"

definition chacha20_ok :: "crypto_lib \<Rightarrow> bool" where
  "chacha20_ok L \<longleftrightarrow> (\<forall>p k iv. length k = 32 \<longrightarrow> length iv = 16 \<longrightarrow>
     (\<exists>c. chacha20_XORKeyStream L p k iv = Some c \<and> length c = length p \<and> chacha20_XORKeyStream L c k iv = Some p))"

definition xxtea_ok :: "crypto_lib \<Rightarrow> bool" where
  "xxtea_ok L \<longleftrightarrow> (\<forall>k. length k = 16 \<longrightarrow> (\<exists>k'. xxtea_Setup L k = Some k' \<and>
     (\<forall>p. 8 \<le> length p \<longrightarrow> length p mod 4 = 0 \<longrightarrow>
        (\<exists>c. xxtea_Encrypt L k' p = Some c \<and> length c = length p \<and> xxtea_Decrypt L k' c = Some p))))"

definition hkdf_ok :: "crypto_lib \<Rightarrow> bool" where
  "hkdf_ok L \<longleftrightarrow> (\<forall>s n. n \<le> 8160 \<longrightarrow> (\<exists>m. hkdf_sha256 L s n = Some m \<and> length m = n))"

definition ecdh_ok :: "crypto_lib \<Rightarrow> bool" where
  "ecdh_ok L \<longleftrightarrow> (\<forall>c e e' a b. ecdh_GenerateKey L c e = Some a \<longrightarrow> ecdh_GenerateKey L c e' = Some b \<longrightarrow>
     ecdh_ValidKey L c (ecdh_PublicKey L c a) \<and>
     (\<exists>s. ecdh_ECDH L c a (ecdh_PublicKey L c b) = Some s \<and> ecdh_ECDH L c b (ecdh_PublicKey L c a) = Some s))"

definition crypto_lib_ok :: "crypto_lib \<Rightarrow> bool" where
  "crypto_lib_ok L \<longleftrightarrow> aes_ok L \<and> aead_ok L \<and> chacha20_ok L \<and> xxtea_ok L \<and> hkdf_ok L \<and> ecdh_ok L"

subsection \<open>The block mode and the padding\<close>

lemma length_xor_bytes [simp]: "length (xor_bytes a b) = min (length a) (length b)"
  by (simp add: xor_bytes_def)

lemma xor_bytes_cancel: "length a = length b \<Longrightarrow> xor_bytes (xor_bytes a b) b = a"
  by (induction a b rule: list_induct2) (simp_all add: xor_bytes_def xor.assoc)

lemma cbc_roundtrip:
  assumes E: "\<And>b. length b = 16 \<Longrightarrow> length (E b) = 16 \<and> D (E b) = b"
  shows "length iv = 16 \<Longrightarrow> length data = 16 * n \<Longrightarrow>
    length (cbc_encrypt E iv data) = length data \<and> cbc_decrypt D iv (cbc_encrypt E iv data) = data"
proof (induction n arbitrary: iv data)
  case 0
  then show ?case by (simp add: cbc_encrypt.simps cbc_decrypt.simps)
next
  case (Suc n)
  define c where "c = E (xor_bytes (take 16 data) iv)"
  have c: "length c = 16" "xor_bytes (D c) iv = take 16 data"
    using E [of "xor_bytes (take 16 data) iv"] Suc.prems by (simp_all add: c_def xor_bytes_cancel)
  have ih: "length (cbc_encrypt E c (drop 16 data)) = length (drop 16 data)" "cbc_decrypt D c (cbc_encrypt E c (drop 16 data)) = drop 16 data"
    using Suc.IH [OF c(1), of "drop 16 data"] Suc.prems(2) by simp_all
  have "data \<noteq> []" using Suc.prems(2) by auto
  then have enc: "cbc_encrypt E iv data = c @ cbc_encrypt E c (drop 16 data)"
    by (subst cbc_encrypt.simps) (simp add: c_def Let_def aes_BlockSize_def)
  have "c \<noteq> []" using c(1) by auto
  then have "cbc_decrypt D iv (c @ r) = take 16 data @ cbc_decrypt D c r" for r
    by (subst cbc_decrypt.simps) (simp add: c Let_def aes_BlockSize_def)
  with enc ih show ?case using c(1) Suc.prems(2) by simp
qed

lemma cbc_decrypt_length:
  assumes D: "\<And>b. length b = 16 \<Longrightarrow> length (D b) = 16"
  shows "length iv = 16 \<Longrightarrow> length data = 16 * n \<Longrightarrow> length (cbc_decrypt D iv data) = length data"
proof (induction n arbitrary: iv data)
  case (Suc n)
  have "data \<noteq> []" using Suc.prems(2) by auto
  moreover have "length (take 16 data) = 16" using Suc.prems(2) by simp
  moreover have "length (cbc_decrypt D (take 16 data) (drop 16 data)) = length data - 16"
    using Suc.IH [of "take 16 data" "drop 16 data"] Suc.prems(2) by simp
  ultimately show ?case
    using Suc.prems D by (subst cbc_decrypt.simps) (simp add: Let_def aes_BlockSize_def)
qed (simp add: cbc_decrypt.simps)

lemma pkcs7_pad_length:
  assumes "0 < bs"
  shows "length (pkcs7_pad bs p) mod bs = 0 \<and> length p < length (pkcs7_pad bs p) \<and> bs \<le> length (pkcs7_pad bs p)"
proof -
  have lt: "length p mod bs < bs" using assms by simp
  have "length p + (bs - length p mod bs) = bs * (length p div bs + 1)"
    using lt mult_div_mod_eq [of bs "length p"] unfolding distrib_left mult_1_right by linarith
  then have "length (pkcs7_pad bs p) = bs * (length p div bs + 1)"
    by (simp add: pkcs7_pad_def Let_def)
  moreover have "length p < length (pkcs7_pad bs p)"
    using lt by (simp add: pkcs7_pad_def Let_def)
  ultimately show ?thesis by simp
qed

text \<open>The padding check, in words: the last byte says how many bytes end the text, all of that value.\<close>

lemma pkcs7_unpad_suffix:
  assumes "n \<le> length d"
  shows "\<not> list_ex (\<lambda>i. d ! i \<noteq> v) [length d - n ..< length d] \<longleftrightarrow> d = take (length d - n) d @ replicate n v"
proof -
  have "drop (length d - n) d = replicate n v \<longleftrightarrow> (\<forall>i < n. d ! (length d - n + i) = v)"
    using assms by (auto simp: list_eq_iff_nth_eq)
  also have "\<dots> \<longleftrightarrow> (\<forall>i. length d - n \<le> i \<longrightarrow> i < length d \<longrightarrow> d ! i = v)"
  proof (intro iffI allI impI)
    fix i assume a: "\<forall>i < n. d ! (length d - n + i) = v" "length d - n \<le> i" "i < length d"
    then have "i - (length d - n) < n" using assms by linarith
    with a(1) have "d ! (length d - n + (i - (length d - n))) = v" by blast
    with a(2) show "d ! i = v" by simp
  next
    fix i assume "\<forall>i. length d - n \<le> i \<longrightarrow> i < length d \<longrightarrow> d ! i = v" and "i < n"
    with assms show "d ! (length d - n + i) = v" by simp
  qed
  also have "\<dots> \<longleftrightarrow> \<not> list_ex (\<lambda>i. d ! i \<noteq> v) [length d - n ..< length d]"
    by (auto simp: list_ex_iff)
  finally show ?thesis
    by (metis append_take_drop_id same_append_eq)
qed

text \<open>A text of at least one block never makes the check panic; what it answers, in natural numbers.\<close>

definition unpadded :: "nat \<Rightarrow> bytes \<Rightarrow> context_error + bytes" where
  "unpadded blockSize d =
     (let n = unat (d ! (length d - 1)) in
      if d = [] \<or> n = 0 \<or> blockSize < n \<or> list_ex (\<lambda>i. d ! i \<noteq> word_of_nat n) [length d - n ..< length d]
      then Inl ErrCryptoDecryptFailed else Inr (take (length d - n) d))"

lemma pkcs7_unpad_returns:
  assumes "bs \<le> length d"
  shows "pkcs7_unpad bs d = Returns (unpadded bs d)"
proof -
  define n where "n = unat (d ! (length d - 1))"
  show ?thesis
    unfolding pkcs7_unpad_def unpadded_def Let_def n_def [symmetric] using assms by (auto simp: slice_def nat_diff_distrib)
qed

lemma pkcs7_unpad_pad:
  assumes "0 < bs" and "bs < 256"
  shows "unpadded bs (pkcs7_pad bs p) = Inr p"
proof -
  define n where "n = bs - length p mod bs"
  have n: "0 < n" "n \<le> bs" using assms(1) by (simp_all add: n_def)
  then have un: "unat (word_of_nat n :: byte) = n" using assms(2) by (simp add: unat_of_nat)
  define d where "d = p @ replicate n (word_of_nat n :: byte)"
  have d: "pkcs7_pad bs p = d" by (simp add: pkcs7_pad_def n_def d_def Let_def)
  have ne: "d \<noteq> []" using n by (simp add: d_def)
  moreover have "d ! (length d - 1) = word_of_nat n"
    using n last_conv_nth [OF ne] by (simp add: d_def last_append)
  moreover have "\<not> list_ex (\<lambda>i. d ! i \<noteq> word_of_nat n) [length d - n ..< length d]"
    by (subst pkcs7_unpad_suffix) (simp_all add: d_def)
  ultimately show ?thesis
    using n un unfolding d by (simp add: unpadded_def) (simp add: d_def)
qed

lemma pkcs7_unpad_only_padded:
  assumes "bs < 256" and "bs \<le> length d" and "length d mod bs = 0" and "unpadded bs d = Inr p"
  shows "d = pkcs7_pad bs p"
proof -
  define n where "n = unat (d ! (length d - 1))"
  have n: "0 < n" "n \<le> bs" and suffix: "\<not> list_ex (\<lambda>i. d ! i \<noteq> word_of_nat n) [length d - n ..< length d]"
    and p: "p = take (length d - n) d"
    using assms(4) by (auto simp: unpadded_def n_def Let_def split: if_splits)
  have eq: "d = p @ replicate n (word_of_nat n)"
    using suffix pkcs7_unpad_suffix [of n d] n(2) assms(2) p by simp
  obtain q where q: "length d = bs * q" using assms(3) by (metis dvdE dvd_eq_mod_eq_0)
  have "q \<noteq> 0" using q assms(2) n by (cases q) auto
  then obtain q' where q': "q = Suc q'" by (cases q) auto
  have len: "length p = (bs - n) + bs * q'" using p q q' n assms(2) by simp
  have "bs - length p mod bs = n"
  proof (cases "n = bs")
    case True
    then show ?thesis using len by simp
  next
    case False
    with n have "bs - n < bs" by simp
    then have "length p mod bs = bs - n" unfolding len by (simp only: mod_mult_self2 mod_less)
    with n show ?thesis by simp
  qed
  with eq show ?thesis by (simp add: pkcs7_pad_def Let_def)
qed

subsection \<open>Sessions with a key\<close>

definition cipher_parts ::
  "crypto_lib \<Rightarrow> ATBUS_CRYPTO_ALGORITHM_TYPE \<Rightarrow> bytes \<Rightarrow> (AEAD option \<times> bytes option \<times> bytes option) option" where
  "cipher_parts L alg key =
     (case alg of
        CRYPTO_NONE \<Rightarrow> Some (None, None, None)
      | CHACHA20 \<Rightarrow> if length key = 32 then Some (None, None, None) else None
      | CHACHA20_POLY1305_IETF \<Rightarrow> if length key = 32 then Some (Some (ChaCha20Poly1305 key), None, None) else None
      | XCHACHA20_POLY1305_IETF \<Rightarrow> if length key = 32 then Some (Some (XChaCha20Poly1305 key), None, None) else None
      | XXTEA \<Rightarrow> map_option (\<lambda>k. (None, None, Some k)) (xxtea_Setup L key)
      | CRYPTO_OTHER _ \<Rightarrow> None
      | _ \<Rightarrow> if aes_key_ok key then Some (if cryptoAlgorithmIsAEAD alg then Some (GCM key) else None, Some key, None) else None)"

lemma initCipher_eq:
  "initCipher L cs =
     (case cipher_parts L (cs_Algorithm cs) (cs_Key cs) of
        None \<Rightarrow> (cs\<lparr>cs_aeadCipher := None, cs_blockCipher := None, cs_xxteaKey := None\<rparr>, Some ErrCryptoAlgorithmNotSupported)
      | Some (a, b, x) \<Rightarrow> (cs\<lparr>cs_aeadCipher := a, cs_blockCipher := b, cs_xxteaKey := x\<rparr>, None))"
proof (cases "cs_Algorithm cs")
  case XXTEA
  then show ?thesis by (simp add: initCipher_def cipher_parts_def Let_def split: option.split)
qed (simp_all add: initCipher_def cipher_parts_def Let_def cryptoAlgorithmIsAEAD_def chacha20_KeySize_def)

text \<open>
  A session is ready when it is initialised and, unless it encrypts nothing, holds a key of the size of its algorithm and the
  cipher objects \<open>initCipher\<close> makes from it.
\<close>

definition session_ready :: "crypto_lib \<Rightarrow> CryptoSession \<Rightarrow> bool" where
  "session_ready L cs \<longleftrightarrow> cs_initialized cs \<and>
     (cs_Algorithm cs \<noteq> CRYPTO_NONE \<longrightarrow>
        length (cs_Key cs) = cryptoAlgorithmKeySize (cs_Algorithm cs) \<and>
        cipher_parts L (cs_Algorithm cs) (cs_Key cs) = Some (cs_aeadCipher cs, cs_blockCipher cs, cs_xxteaKey cs))"

definition same_key :: "CryptoSession \<Rightarrow> CryptoSession \<Rightarrow> bool" where
  "same_key s r \<longleftrightarrow> cs_Algorithm s = cs_Algorithm r \<and> (cs_Algorithm s \<noteq> CRYPTO_NONE \<longrightarrow> cs_Key s = cs_Key r)"

definition recovered :: "ATBUS_CRYPTO_ALGORITHM_TYPE \<Rightarrow> bytes \<Rightarrow> bytes \<Rightarrow> bool" where
  "recovered alg p d \<longleftrightarrow> (if alg = XXTEA then take (length p) d = p else d = p)"

lemma key_sizes: "cryptoAlgorithmKeySize a = 0 \<longleftrightarrow> a = CRYPTO_NONE \<or> (\<exists>n. a = CRYPTO_OTHER n)"
  by (cases a) simp_all

lemma cipher_parts_exist:
  assumes "xxtea_ok L" and "length key = cryptoAlgorithmKeySize alg" and "0 < cryptoAlgorithmKeySize alg"
  shows "cipher_parts L alg key \<noteq> None"
proof (cases "alg = XXTEA")
  case True
  with assms obtain k where "xxtea_Setup L key = Some k" by (auto simp: xxtea_ok_def)
  with True show ?thesis by (simp add: cipher_parts_def)
next
  case False
  with assms(2,3) show ?thesis by (cases alg) (simp_all add: cipher_parts_def aes_key_ok_def)
qed

text \<open>Exactly which keys \<open>SetKey\<close> accepts, and what it leaves behind when it does.\<close>

lemma SetKey_eq:
  "SetKey L key iv alg cs =
     (if alg = CRYPTO_NONE then (cs\<lparr>cs_Algorithm := alg, cs_initialized := True\<rparr>, None)
      else if length key \<noteq> cryptoAlgorithmKeySize alg then (cs, Some ErrCryptoInvalidKeySize)
      else if length iv \<noteq> cryptoAlgorithmIVSize alg \<and> 0 < cryptoAlgorithmIVSize alg then (cs, Some ErrCryptoInvalidIVSize)
      else
        let cs' = cs\<lparr>cs_Key := key, cs_IV := (if 0 < length iv then iv else cs_IV cs), cs_Algorithm := alg,
                    cs_IVSize := word_of_nat (cryptoAlgorithmIVSize alg), cs_TagSize := word_of_nat (cryptoAlgorithmTagSize alg)\<rparr>
        in case cipher_parts L alg key of
             None \<Rightarrow> (cs'\<lparr>cs_aeadCipher := None, cs_blockCipher := None, cs_xxteaKey := None\<rparr>, Some ErrCryptoAlgorithmNotSupported)
           | Some (a, b, x) \<Rightarrow> (cs'\<lparr>cs_aeadCipher := a, cs_blockCipher := b, cs_xxteaKey := x, cs_initialized := True\<rparr>, None))"
  unfolding SetKey_def initCipher_eq Let_def by (simp split: option.split prod.split)

lemma SetKey_iff:
  assumes "xxtea_ok L"
  shows "snd (SetKey L key iv alg cs) = None \<longleftrightarrow>
    alg = CRYPTO_NONE \<or> (0 < cryptoAlgorithmKeySize alg \<and> length key = cryptoAlgorithmKeySize alg
      \<and> (cryptoAlgorithmIVSize alg = 0 \<or> length iv = cryptoAlgorithmIVSize alg))"
proof -
  have "cipher_parts L alg key \<noteq> None \<longleftrightarrow> 0 < cryptoAlgorithmKeySize alg"
    if "alg \<noteq> CRYPTO_NONE" "length key = cryptoAlgorithmKeySize alg"
    using that cipher_parts_exist [OF assms, of key alg] by (cases alg) (simp_all add: cipher_parts_def)
  then show ?thesis
    unfolding SetKey_eq Let_def by (auto split: option.split)
qed

lemma SetKey_ready:
  assumes "SetKey L key iv alg cs = (cs', None)"
  shows "session_ready L cs' \<and> cs_Algorithm cs' = alg \<and> (alg \<noteq> CRYPTO_NONE \<longrightarrow> cs_Key cs' = key)"
  using assms unfolding SetKey_eq Let_def
  by (auto simp: session_ready_def split: if_split_asm option.split_asm)

lemma DeriveKey_eq:
  "DeriveKey L secret alg kdf cs =
     (if kdf \<noteq> HKDF_SHA256 then (cs, Some ErrCryptoKDFFailed)
      else if cryptoAlgorithmKeySize alg = 0 \<and> alg \<noteq> CRYPTO_NONE then (cs, Some ErrCryptoAlgorithmNotSupported)
      else if alg = CRYPTO_NONE then (cs\<lparr>cs_Algorithm := alg, cs_KDFType := kdf, cs_initialized := True\<rparr>, None)
      else case hkdf_sha256 L secret (cryptoAlgorithmKeySize alg + cryptoAlgorithmIVSize alg) of
        None \<Rightarrow> (cs, Some ErrCryptoKDFFailed)
      | Some m \<Rightarrow>
          let cs' = cs\<lparr>cs_Key := take (cryptoAlgorithmKeySize alg) m,
                      cs_IV := (if 0 < cryptoAlgorithmIVSize alg then drop (cryptoAlgorithmKeySize alg) m else cs_IV cs),
                      cs_Algorithm := alg, cs_KDFType := kdf, cs_IVSize := word_of_nat (cryptoAlgorithmIVSize alg),
                      cs_TagSize := word_of_nat (cryptoAlgorithmTagSize alg)\<rparr>
          in case cipher_parts L alg (take (cryptoAlgorithmKeySize alg) m) of
               None \<Rightarrow> (cs'\<lparr>cs_aeadCipher := None, cs_blockCipher := None, cs_xxteaKey := None\<rparr>, Some ErrCryptoAlgorithmNotSupported)
             | Some (a, b, x) \<Rightarrow> (cs'\<lparr>cs_aeadCipher := a, cs_blockCipher := b, cs_xxteaKey := x, cs_initialized := True\<rparr>, None))"
proof (cases "alg = CRYPTO_NONE")
  case True
  then show ?thesis by (simp add: DeriveKey_def)
next
  case False
  then show ?thesis
    unfolding DeriveKey_def initCipher_eq Let_def by (simp split: option.split prod.split)
qed

text \<open>Both derived keys depend on the secret and the algorithm only.\<close>

lemma DeriveKey_ready:
  assumes "xxtea_ok L" and "hkdf_ok L" and "alg = CRYPTO_NONE \<or> 0 < cryptoAlgorithmKeySize alg"
  shows "\<exists>cs' m. DeriveKey L secret alg HKDF_SHA256 cs = (cs', None) \<and> session_ready L cs' \<and> cs_Algorithm cs' = alg
    \<and> length m = cryptoAlgorithmKeySize alg + cryptoAlgorithmIVSize alg
    \<and> cs_privateKey cs' = cs_privateKey cs \<and> cs_publicKey cs' = cs_publicKey cs \<and> cs_KeyExchange cs' = cs_KeyExchange cs
    \<and> (alg \<noteq> CRYPTO_NONE \<longrightarrow> hkdf_sha256 L secret (cryptoAlgorithmKeySize alg + cryptoAlgorithmIVSize alg) = Some m
        \<and> cs_Key cs' = take (cryptoAlgorithmKeySize alg) m
        \<and> (0 < cryptoAlgorithmIVSize alg \<longrightarrow> cs_IV cs' = drop (cryptoAlgorithmKeySize alg) m))"
proof (cases "alg = CRYPTO_NONE")
  case True
  then show ?thesis unfolding DeriveKey_eq by (simp add: session_ready_def)
next
  case False
  let ?k = "cryptoAlgorithmKeySize alg" and ?v = "cryptoAlgorithmIVSize alg"
  have "?k + ?v \<le> 8160" by (cases alg) simp_all
  then obtain m where m: "hkdf_sha256 L secret (?k + ?v) = Some m" "length m = ?k + ?v"
    using assms(2) unfolding hkdf_ok_def by blast
  have "0 < ?k" using assms(3) False by simp
  moreover obtain a b x where "cipher_parts L alg (take ?k m) = Some (a, b, x)"
    using cipher_parts_exist [OF assms(1), of "take ?k m" alg] m(2) \<open>0 < ?k\<close> by auto
  ultimately show ?thesis
    using False m unfolding DeriveKey_eq Let_def by (simp add: session_ready_def)
qed

subsection \<open>Round trips\<close>

lemma rand_read_length: "rand_read rnd n = Some r \<Longrightarrow> length r = n"
  by (auto simp: rand_read_def)

lemma rand_read_total: "(\<forall>n. rnd n \<noteq> None) \<Longrightarrow> \<exists>r. rand_read rnd n = Some r \<and> length r = n"
proof -
  assume "\<forall>n. rnd n \<noteq> None"
  then obtain z where "rnd n = Some z" by blast
  then show ?thesis by (simp add: rand_read_def)
qed

lemma prepended: "length nonce = n \<Longrightarrow> copy_at n c (copy_at 0 nonce (make_bytes (n + length c))) = nonce @ c"
  by (simp add: copy_at_def make_bytes_def)

text \<open>What a ready session holds, by the kind of its algorithm.\<close>

lemma ready_aead:
  assumes "session_ready L cs" and "cryptoAlgorithmIsAEAD (cs_Algorithm cs)"
  shows "\<exists>a. cs_aeadCipher cs = Some a \<and> NonceSize a = cryptoAlgorithmIVSize (cs_Algorithm cs) \<and> 8 < NonceSize a
    \<and> (\<forall>r. session_ready L r \<longrightarrow> same_key cs r \<longrightarrow> cs_aeadCipher r = Some a)"
proof -
  have ne: "cs_Algorithm cs \<noteq> CRYPTO_NONE" using assms(2) by (auto simp: cryptoAlgorithmIsAEAD_def)
  then have parts: "cipher_parts L (cs_Algorithm cs) (cs_Key cs) = Some (cs_aeadCipher cs, cs_blockCipher cs, cs_xxteaKey cs)"
    using assms(1) by (simp add: session_ready_def)
  then have "\<exists>a. cs_aeadCipher cs = Some a \<and> NonceSize a = cryptoAlgorithmIVSize (cs_Algorithm cs) \<and> 8 < NonceSize a"
    using assms(2) by (cases "cs_Algorithm cs") (auto simp: cipher_parts_def cryptoAlgorithmIsAEAD_def
        eq_commute [of "Some _" "cs_aeadCipher cs"] split: if_splits)
  moreover have "cs_aeadCipher r = cs_aeadCipher cs" if "session_ready L r" "same_key cs r" for r
    using that ne parts by (auto simp: session_ready_def same_key_def)
  ultimately show ?thesis by auto
qed

definition is_cbc :: "ATBUS_CRYPTO_ALGORITHM_TYPE \<Rightarrow> bool" where
  "is_cbc a \<longleftrightarrow> a \<in> {AES_128_CBC, AES_192_CBC, AES_256_CBC}"

lemma ready_cbc:
  assumes "session_ready L cs" and "is_cbc (cs_Algorithm cs)"
  shows "cs_blockCipher cs = Some (cs_Key cs) \<and> aes_key_ok (cs_Key cs)"
  using assms by (cases "cs_Algorithm cs") (auto simp: session_ready_def is_cbc_def cipher_parts_def split: if_splits)

lemma cbc_recovers:
  assumes "aes_ok L" and "aes_key_ok k" and "length iv = 16"
  shows "pkcs7_unpad 16 (copy_at 0 (cbc_decrypt (aes_decrypt L k) iv (cbc_encrypt (aes_encrypt L k) iv (pkcs7_pad 16 p)))
      (make_bytes (length (cbc_encrypt (aes_encrypt L k) iv (pkcs7_pad 16 p))))) = Returns (Inr p)"
    and "length (cbc_encrypt (aes_encrypt L k) iv (pkcs7_pad 16 p)) mod 16 = 0"
    and "16 \<le> length (cbc_encrypt (aes_encrypt L k) iv (pkcs7_pad 16 p))"
    and "length (cbc_encrypt (aes_encrypt L k) iv (pkcs7_pad 16 p)) \<le> length p + 16"
proof -
  have E: "length (aes_encrypt L k b) = 16 \<and> aes_decrypt L k (aes_encrypt L k b) = b" if "length b = 16" for b
    using assms(1,2) that unfolding aes_ok_def by blast
  have pad: "length (pkcs7_pad 16 p) mod 16 = 0" "16 \<le> length (pkcs7_pad 16 p)" using pkcs7_pad_length [of 16 p] by simp_all
  then obtain n where "length (pkcs7_pad 16 p) = 16 * n" by (metis dvdE dvd_eq_mod_eq_0)
  note rt = cbc_roundtrip [OF E assms(3) this]
  show "pkcs7_unpad 16 (copy_at 0 (cbc_decrypt (aes_decrypt L k) iv (cbc_encrypt (aes_encrypt L k) iv (pkcs7_pad 16 p)))
      (make_bytes (length (cbc_encrypt (aes_encrypt L k) iv (pkcs7_pad 16 p))))) = Returns (Inr p)"
    using rt pad pkcs7_unpad_pad [of 16 p] pkcs7_unpad_returns [of 16 "pkcs7_pad 16 p"] by (simp add: copy_at_0_whole make_bytes_def)
  show "length (cbc_encrypt (aes_encrypt L k) iv (pkcs7_pad 16 p)) mod 16 = 0"
    "16 \<le> length (cbc_encrypt (aes_encrypt L k) iv (pkcs7_pad 16 p))"
    using rt pad by simp_all
  have "length (pkcs7_pad 16 p) \<le> length p + 16" by (simp add: pkcs7_pad_def Let_def)
  with rt show "length (cbc_encrypt (aes_encrypt L k) iv (pkcs7_pad 16 p)) \<le> length p + 16" by simp
qed

lemma xxtea_padded:
  fixes p :: bytes
  defines "padding \<equiv> 4 - length p mod 4"
  defines "paddedLen \<equiv> (if length p + padding < 8 then 8 else length p + padding)"
  defines "padded \<equiv> copy_at (length p) (replicate padding (word_of_nat padding)) (copy_at 0 p (make_bytes paddedLen))"
  shows "length padded mod 4 = 0 \<and> 8 \<le> length padded \<and> length padded \<le> length p + 8 \<and> take (length p) padded = p"
proof -
  have "(length p + padding) mod 4 = 0"
    using mult_div_mod_eq [of 4 "length p"] unfolding padding_def by presburger
  then have "paddedLen mod 4 = 0" "8 \<le> paddedLen" "paddedLen \<le> length p + 8" by (auto simp: paddedLen_def padding_def)
  moreover have "length p + padding \<le> paddedLen" by (simp add: paddedLen_def)
  ultimately show ?thesis by (simp add: padded_def copy_at_def make_bytes_def)
qed

lemma xxtea_recovers:
  assumes "xxtea_ok L" and "session_ready L s" and "session_ready L r" and "same_key s r" and "cs_Algorithm s = XXTEA"
  shows "\<exists>c d. encryptXXTEA L p s = Inr c \<and> c \<noteq> [] \<and> length c \<le> length p + 8 \<and> decryptXXTEA L c r = Inr d \<and> take (length p) d = p"
proof -
  have "length (cs_Key s) = 16" using assms(2,5) by (simp add: session_ready_def)
  with assms(1) obtain k where k: "xxtea_Setup L (cs_Key s) = Some k"
    "\<And>p. 8 \<le> length p \<Longrightarrow> length p mod 4 = 0 \<Longrightarrow> \<exists>c. xxtea_Encrypt L k p = Some c \<and> length c = length p \<and> xxtea_Decrypt L k c = Some p"
    unfolding xxtea_ok_def by blast
  have keys: "cs_xxteaKey s = Some k" "cs_xxteaKey r = Some k"
    using assms(2-5) k(1) by (auto simp: session_ready_def cipher_parts_def same_key_def)
  define padded where "padded = copy_at (length p) (replicate (4 - length p mod 4) (word_of_nat (4 - length p mod 4)))
      (copy_at 0 p (make_bytes (if length p + (4 - length p mod 4) < 8 then 8 else length p + (4 - length p mod 4))))"
  note pad = xxtea_padded [of p, folded padded_def]
  from k(2) [of padded] pad obtain c where c: "xxtea_Encrypt L k padded = Some c" "length c = length padded" "xxtea_Decrypt L k c = Some padded"
    by auto
  have "encryptXXTEA L p s = Inr c" using keys(1) c(1) by (simp add: encryptXXTEA_def Let_def padded_def)
  moreover have "decryptXXTEA L c r = Inr padded" using keys(2) c(3) by (simp add: decryptXXTEA_def)
  ultimately show ?thesis using pad c(2) by auto
qed

lemma chacha20_recovers:
  assumes "chacha20_ok L" and "session_ready L s" and "session_ready L r" and "same_key s r" and "cs_Algorithm s = CHACHA20"
    and "length iv = 16"
  shows "\<exists>c. encryptChaCha20WithIV L p iv s = Inr c \<and> length c = length p \<and> decryptChaCha20WithIV L c iv r = Inr p"
proof -
  have "length (cs_Key s) = 32" "cs_Key r = cs_Key s" using assms(2-5) by (simp_all add: session_ready_def same_key_def)
  moreover from this(1) obtain c where "chacha20_XORKeyStream L p (cs_Key s) iv = Some c" "length c = length p" "chacha20_XORKeyStream L c (cs_Key s) iv = Some p"
    using assms(1,6) unfolding chacha20_ok_def by blast
  ultimately show ?thesis
    using assms(6) by (simp add: encryptChaCha20WithIV_def decryptChaCha20WithIV_def chacha20_IVSize_def)
qed

lemma algorithm_kinds:
  "0 < cryptoAlgorithmKeySize a \<longleftrightarrow> cryptoAlgorithmIsAEAD a \<or> is_cbc a \<or> a = CHACHA20 \<or> a = XXTEA"
  by (cases a) (simp_all add: cryptoAlgorithmIsAEAD_def is_cbc_def)

lemma Encrypt_kind:
  assumes "cs_initialized cs" and "p \<noteq> []"
  shows "cryptoAlgorithmIsAEAD (cs_Algorithm cs) \<Longrightarrow> Encrypt L rnd p cs = encryptAEAD L rnd p cs"
    "is_cbc (cs_Algorithm cs) \<Longrightarrow> Encrypt L rnd p cs = (cs, encryptCBC L rnd p cs)"
    "cs_Algorithm cs = CHACHA20 \<Longrightarrow> Encrypt L rnd p cs = (cs, encryptChaCha20 L rnd p cs)"
    "cs_Algorithm cs = XXTEA \<Longrightarrow> Encrypt L rnd p cs = (cs, encryptXXTEA L p cs)"
    "cryptoAlgorithmIsAEAD (cs_Algorithm cs) \<Longrightarrow> Decrypt L p cs = Returns (decryptAEAD L p cs)"
    "is_cbc (cs_Algorithm cs) \<Longrightarrow> Decrypt L p cs = decryptCBC L p cs"
    "cs_Algorithm cs = CHACHA20 \<Longrightarrow> Decrypt L p cs = Returns (decryptChaCha20 L p cs)"
    "cs_Algorithm cs = XXTEA \<Longrightarrow> Decrypt L p cs = Returns (decryptXXTEA L p cs)"
  using assms by (auto simp: Encrypt_def Decrypt_def cryptoAlgorithmIsAEAD_def is_cbc_def)

lemma aead_recovers:
  assumes "aead_ok L" and "session_ready L s" and "session_ready L r" and "same_key s r" and "cryptoAlgorithmIsAEAD (cs_Algorithm s)"
    and "\<forall>n. rnd n \<noteq> None"
  shows "\<exists>s' c. encryptAEAD L rnd p s = (s', Inr c) \<and> c \<noteq> [] \<and> decryptAEAD L c r = Inr p"
proof -
  obtain a where a: "cs_aeadCipher s = Some a" "cs_aeadCipher r = Some a" "8 < NonceSize a"
    using ready_aead [OF assms(2,5)] assms(3,4) by blast
  define counter where "counter = cs_nonceCounter s + 1"
  obtain z where z: "rand_read rnd (NonceSize a - 8) = Some z" "length z = NonceSize a - 8" using rand_read_total [OF assms(6)] by blast
  define nonce where "nonce = copy_at 8 z (copy_at 0 (PutUint64_le counter) (make_bytes (NonceSize a)))"
  have nonce: "length nonce = NonceSize a" by (simp add: nonce_def)
  define c where "c = nonce @ aead_Seal L a nonce p []"
  have "encryptAEAD L rnd p s = (s\<lparr>cs_nonceCounter := counter\<rparr>, Inr c)"
    using a(1,3) z(1) prepended [OF nonce, of "aead_Seal L a nonce p []"]
    unfolding encryptAEAD_def Let_def c_def nonce_def counter_def by simp
  moreover have "aead_Open L a nonce (aead_Seal L a nonce p []) [] = Some p" using assms(1) unfolding aead_ok_def by blast
  then have "decryptAEAD L c r = Inr p" using a(2) nonce by (simp add: decryptAEAD_def c_def Let_def)
  moreover have "c \<noteq> []" using nonce a(3) unfolding c_def by (cases nonce) auto
  ultimately show ?thesis by blast
qed

lemma cbc_session_recovers:
  assumes "aes_ok L" and "session_ready L s" and "session_ready L r" and "same_key s r" and "is_cbc (cs_Algorithm s)"
    and "\<forall>n. rnd n \<noteq> None"
  shows "\<exists>c. encryptCBC L rnd p s = Inr c \<and> c \<noteq> [] \<and> decryptCBC L c r = Returns (Inr p)"
proof -
  have alg: "cs_Algorithm r = cs_Algorithm s" "cs_Key r = cs_Key s" using assms(4,5) by (auto simp: same_key_def is_cbc_def)
  have k: "cs_blockCipher s = Some (cs_Key s)" "aes_key_ok (cs_Key s)" "cs_blockCipher r = Some (cs_Key s)"
    using ready_cbc [OF assms(2,5)] ready_cbc [OF assms(3)] assms(5) alg by simp_all
  obtain iv where iv: "rand_read rnd 16 = Some iv" "length iv = 16" using rand_read_total [OF assms(6)] by blast
  define c where "c = cbc_encrypt (aes_encrypt L (cs_Key s)) iv (pkcs7_pad 16 p)"
  note rec = cbc_recovers [OF assms(1) k(2) iv(2), of p, folded c_def]
  have "encryptCBC L rnd p s = Inr (iv @ c)"
    using k(1) iv(1) prepended [OF iv(2), of c] unfolding encryptCBC_def Let_def aes_BlockSize_def c_def by simp
  moreover have "decryptCBC L (iv @ c) r = Returns (Inr p)"
    using k(3) iv(2) rec by (simp add: decryptCBC_def Let_def aes_BlockSize_def)
  moreover have "iv @ c \<noteq> []" using iv(2) by auto
  ultimately show ?thesis by blast
qed

lemma chacha20_session_recovers:
  assumes "chacha20_ok L" and "session_ready L s" and "session_ready L r" and "same_key s r" and "cs_Algorithm s = CHACHA20"
    and "\<forall>n. rnd n \<noteq> None"
  shows "\<exists>c. encryptChaCha20 L rnd p s = Inr c \<and> c \<noteq> [] \<and> decryptChaCha20 L c r = Inr p"
proof -
  obtain iv where iv: "rand_read rnd 16 = Some iv" "length iv = 16" using rand_read_total [OF assms(6)] by blast
  obtain c where c: "encryptChaCha20WithIV L p iv s = Inr c" "decryptChaCha20WithIV L c iv r = Inr p"
    using chacha20_recovers [OF assms(1-5) iv(2)] by blast
  have alg: "cs_Algorithm r = CHACHA20" using assms(4,5) by (simp add: same_key_def)
  have "encryptChaCha20 L rnd p s = Inr (iv @ c)" "decryptChaCha20 L (iv @ c) r = Inr p"
    using assms(5) alg iv c prepended [OF iv(2), of c] by (simp_all add: encryptChaCha20_def decryptChaCha20_def Let_def)
  moreover have "iv @ c \<noteq> []" using iv(2) by auto
  ultimately show ?thesis by blast
qed

lemma ready_kinds:
  assumes "session_ready L s" and "cs_Algorithm s \<noteq> CRYPTO_NONE"
  shows "cryptoAlgorithmIsAEAD (cs_Algorithm s) \<or> is_cbc (cs_Algorithm s) \<or> cs_Algorithm s = CHACHA20 \<or> cs_Algorithm s = XXTEA"
proof -
  have "\<not> (\<exists>n. cs_Algorithm s = CRYPTO_OTHER n)" using assms by (auto simp: session_ready_def cipher_parts_def)
  then show ?thesis using key_sizes [of "cs_Algorithm s"] assms(2) algorithm_kinds by auto
qed

lemma session_roundtrip:
  assumes "crypto_lib_ok L" and "session_ready L s" and "session_ready L r" and "same_key s r" and "\<forall>n. rnd n \<noteq> None"
  shows "\<exists>s' c d. Encrypt L rnd p s = (s', Inr c) \<and> Decrypt L c r = Returns (Inr d) \<and> recovered (cs_Algorithm s) p d"
proof -
  note ok = assms(1) [unfolded crypto_lib_ok_def]
  have init: "cs_initialized s" "cs_initialized r" and alg: "cs_Algorithm r = cs_Algorithm s"
    using assms(2-4) by (simp_all add: session_ready_def same_key_def)
  consider (plain) "cs_Algorithm s = CRYPTO_NONE" | (empty) "cs_Algorithm s \<noteq> CRYPTO_NONE" "p = []"
    | (enc) "cs_Algorithm s \<noteq> CRYPTO_NONE" "p \<noteq> []" by blast
  then show ?thesis
  proof cases
    case plain
    with init alg show ?thesis by (simp add: Encrypt_def Decrypt_def recovered_def)
  next
    case empty
    with init alg show ?thesis by (simp add: Encrypt_def Decrypt_def recovered_def)
  next
    case enc
    from ready_kinds [OF assms(2) enc(1)] show ?thesis
    proof (elim disjE)
      assume a: "cryptoAlgorithmIsAEAD (cs_Algorithm s)"
      then have "cs_Algorithm s \<noteq> XXTEA" by (auto simp: cryptoAlgorithmIsAEAD_def)
      then show ?thesis using aead_recovers [OF _ assms(2-4) a assms(5), of p] ok a alg enc(2) init
        by (auto simp: Encrypt_kind recovered_def)
    next
      assume a: "is_cbc (cs_Algorithm s)"
      then have "cs_Algorithm s \<noteq> XXTEA" by (auto simp: is_cbc_def)
      then show ?thesis using cbc_session_recovers [OF _ assms(2-4) a assms(5), of p] ok a alg enc(2) init
        by (auto simp: Encrypt_kind recovered_def)
    next
      assume a: "cs_Algorithm s = CHACHA20"
      then show ?thesis using chacha20_session_recovers [OF _ assms(2-4) a assms(5), of p] ok alg enc(2) init
        by (auto simp: Encrypt_kind recovered_def)
    next
      assume a: "cs_Algorithm s = XXTEA"
      then show ?thesis using xxtea_recovers [OF _ assms(2-4) a, of p] ok alg enc(2) init
        by (auto simp: Encrypt_kind recovered_def)
    qed
  qed
qed

lemma session_roundtrip_iv:
  assumes "crypto_lib_ok L" and "session_ready L s" and "session_ready L r" and "same_key s r"
    and "\<not> cryptoAlgorithmIsAEAD (cs_Algorithm s)" and "length iv = cryptoAlgorithmIVSize (cs_Algorithm s)"
  shows "\<exists>c d. EncryptWithIV L p iv s = Inr c \<and> length c \<le> length p + 16 \<and> DecryptWithIV L c iv r = Returns (Inr d) \<and> recovered (cs_Algorithm s) p d"
proof -
  note ok = assms(1) [unfolded crypto_lib_ok_def]
  have init: "cs_initialized s" "cs_initialized r" and alg: "cs_Algorithm r = cs_Algorithm s"
    using assms(2-4) by (simp_all add: session_ready_def same_key_def)
  show ?thesis
  proof (cases "cs_Algorithm s = CRYPTO_NONE")
    case True
    with init alg show ?thesis by (simp add: EncryptWithIV_def DecryptWithIV_def recovered_def cryptoAlgorithmIsAEAD_def)
  next
    case False
    from ready_kinds [OF assms(2) False] assms(5) show ?thesis
    proof (elim disjE)
      assume a: "is_cbc (cs_Algorithm s)"
      have iv: "length iv = 16" using assms(6) a by (auto simp: is_cbc_def)
      have key: "cs_Key r = cs_Key s" using assms(4) a by (auto simp: same_key_def is_cbc_def)
      have k: "cs_blockCipher s = Some (cs_Key s)" "aes_key_ok (cs_Key s)" "cs_blockCipher r = Some (cs_Key s)"
        using ready_cbc [OF assms(2) a] ready_cbc [OF assms(3)] a alg key by simp_all
      define c where "c = cbc_encrypt (aes_encrypt L (cs_Key s)) iv (pkcs7_pad 16 p)"
      note rec = cbc_recovers [OF _ k(2) iv, of L p, folded c_def]
      have "encryptCBCWithIV L p iv s = Inr c" "decryptCBCWithIV L c iv r = Returns (Inr p)" "length c \<le> length p + 16"
        using k rec iv ok by (simp_all add: encryptCBCWithIV_def decryptCBCWithIV_def aes_BlockSize_def c_def)
      then show ?thesis using a init alg
        by (auto simp: EncryptWithIV_def DecryptWithIV_def recovered_def is_cbc_def cryptoAlgorithmIsAEAD_def)
    next
      assume a: "cs_Algorithm s = CHACHA20"
      with assms(6) have "length iv = 16" by simp
      from chacha20_recovers [OF _ assms(2-4) a this, of p] ok a init alg show ?thesis
        by (auto simp: EncryptWithIV_def DecryptWithIV_def recovered_def cryptoAlgorithmIsAEAD_def)
    next
      assume a: "cs_Algorithm s = XXTEA"
      from xxtea_recovers [OF _ assms(2-4) a, of p] ok a init alg show ?thesis
        by (auto simp: EncryptWithIV_def DecryptWithIV_def recovered_def cryptoAlgorithmIsAEAD_def)
    qed simp
  qed
qed

lemma session_roundtrip_aad:
  assumes "aead_ok L" and "session_ready L s" and "session_ready L r" and "same_key s r"
    and "cryptoAlgorithmIsAEAD (cs_Algorithm s)" and "length iv = cryptoAlgorithmIVSize (cs_Algorithm s)"
  shows "\<exists>c. EncryptWithIVAndAAD L p iv aad s = Inr c \<and> length c \<le> length p + 16 \<and> DecryptWithIVAndAAD L c iv aad r = Inr p"
proof -
  obtain a where a: "cs_aeadCipher s = Some a" "cs_aeadCipher r = Some a" "NonceSize a = length iv"
    using ready_aead [OF assms(2,5)] assms(3,4,6) by auto
  have "cs_initialized s" "cs_initialized r" "cs_Algorithm r = cs_Algorithm s"
    using assms(2-4) by (simp_all add: session_ready_def same_key_def)
  moreover have "aead_Open L a iv (aead_Seal L a iv p aad) aad = Some p" "length (aead_Seal L a iv p aad) \<le> length p + 16"
    using assms(1) unfolding aead_ok_def by blast+
  ultimately show ?thesis
    using a assms(5) by (simp add: EncryptWithIVAndAAD_def DecryptWithIVAndAAD_def)
qed

text \<open>C12: \<open>SetKey\<close> accepts a key exactly when the algorithm is none, or is one of the ten named ones and the key has its size and
  the initial vector, if the algorithm has one, its size; and then two sessions that got the same key understand each other, in
  each of the three ways to encrypt: what one encrypts the other decrypts to the same bytes, except that XXTEA leaves its
  padding at the end. No encryption of a session with a key fails, unless the system has no random bytes.\<close>

theorem SetKey_Encrypt_Decrypt:
  assumes "crypto_lib_ok L" and "\<forall>n. rnd n \<noteq> None"
  shows "(snd (SetKey L key iv0 alg s0) = None \<longleftrightarrow>
      alg = CRYPTO_NONE \<or> (0 < cryptoAlgorithmKeySize alg \<and> length key = cryptoAlgorithmKeySize alg
        \<and> (cryptoAlgorithmIVSize alg = 0 \<or> length iv0 = cryptoAlgorithmIVSize alg)))
    \<and> (snd (SetKey L key iv0 alg s0) = None \<longrightarrow>
        (let s = fst (SetKey L key iv0 alg s0); r = fst (SetKey L key iv0 alg r0) in
         (\<exists>s' c d. Encrypt L rnd p s = (s', Inr c) \<and> Decrypt L c r = Returns (Inr d) \<and> recovered alg p d)
         \<and> (length iv = cryptoAlgorithmIVSize alg \<longrightarrow>
             (if cryptoAlgorithmIsAEAD alg
              then \<exists>c. EncryptWithIVAndAAD L p iv aad s = Inr c \<and> DecryptWithIVAndAAD L c iv aad r = Inr p
              else \<exists>c d. EncryptWithIV L p iv s = Inr c \<and> DecryptWithIV L c iv r = Returns (Inr d) \<and> recovered alg p d))))"
proof -
  have xx: "xxtea_ok L" and ae: "aead_ok L" using assms(1) by (simp_all add: crypto_lib_ok_def)
  note iff = SetKey_iff [OF xx]
  show ?thesis
  proof (intro conjI impI)
    show "snd (SetKey L key iv0 alg s0) = None \<longleftrightarrow>
      alg = CRYPTO_NONE \<or> (0 < cryptoAlgorithmKeySize alg \<and> length key = cryptoAlgorithmKeySize alg
        \<and> (cryptoAlgorithmIVSize alg = 0 \<or> length iv0 = cryptoAlgorithmIVSize alg))" by (rule iff)
  next
    assume ok: "snd (SetKey L key iv0 alg s0) = None"
    then have ok': "snd (SetKey L key iv0 alg r0) = None" by (simp only: iff)
    define s where "s = fst (SetKey L key iv0 alg s0)"
    define r where "r = fst (SetKey L key iv0 alg r0)"
    have s: "session_ready L s" "cs_Algorithm s = alg" "alg \<noteq> CRYPTO_NONE \<longrightarrow> cs_Key s = key"
      using SetKey_ready [of L key iv0 alg s0 s] ok by (simp_all add: s_def prod_eq_iff)
    have r: "session_ready L r" "cs_Algorithm r = alg" "alg \<noteq> CRYPTO_NONE \<longrightarrow> cs_Key r = key"
      using SetKey_ready [of L key iv0 alg r0 r] ok' by (simp_all add: r_def prod_eq_iff)
    have same: "same_key s r" using s r by (simp add: same_key_def)
    show "let s = fst (SetKey L key iv0 alg s0); r = fst (SetKey L key iv0 alg r0) in
         (\<exists>s' c d. Encrypt L rnd p s = (s', Inr c) \<and> Decrypt L c r = Returns (Inr d) \<and> recovered alg p d)
         \<and> (length iv = cryptoAlgorithmIVSize alg \<longrightarrow>
             (if cryptoAlgorithmIsAEAD alg
              then \<exists>c. EncryptWithIVAndAAD L p iv aad s = Inr c \<and> DecryptWithIVAndAAD L c iv aad r = Inr p
              else \<exists>c d. EncryptWithIV L p iv s = Inr c \<and> DecryptWithIV L c iv r = Returns (Inr d) \<and> recovered alg p d))"
      unfolding Let_def s_def [symmetric] r_def [symmetric]
      using session_roundtrip [OF assms(1) s(1) r(1) same assms(2), of p]
        session_roundtrip_iv [OF assms(1) s(1) r(1) same, of iv p] session_roundtrip_aad [OF ae s(1) r(1) same, of iv p aad]
      unfolding s(2) by (auto split: if_split)
  qed
qed

text \<open>C15: The CBC decryption accepts a ciphertext exactly when it is a positive number of whole blocks and decrypts to a text with
  correct PKCS\#7 padding, and then returns the text without it; every other ciphertext is refused with the error of
  decryption: no index of the padding check is out of range.\<close>

theorem decryptCBCWithIV_accepts:
  assumes "crypto_lib_ok L" and "session_ready L cs" and "is_cbc (cs_Algorithm cs)" and "length iv = 16"
  shows "(decryptCBCWithIV L c iv cs = Returns (Inr p) \<longleftrightarrow>
      0 < length c \<and> length c mod 16 = 0 \<and> cbc_decrypt (aes_decrypt L (cs_Key cs)) iv c = pkcs7_pad 16 p)
    \<and> (decryptCBCWithIV L c iv cs = Returns (Inl ErrCryptoDecryptFailed) \<or> (\<exists>q. decryptCBCWithIV L c iv cs = Returns (Inr q)))"
proof -
  have k: "cs_blockCipher cs = Some (cs_Key cs)" "aes_key_ok (cs_Key cs)" using ready_cbc [OF assms(2,3)] by simp_all
  define d where "d = cbc_decrypt (aes_decrypt L (cs_Key cs)) iv c"
  have len: "length d = length c" if "length c mod 16 = 0"
  proof -
    from that obtain n where "length c = 16 * n" by (metis dvdE dvd_eq_mod_eq_0)
    with cbc_decrypt_length [of "aes_decrypt L (cs_Key cs)" iv c n] assms(1,4) k(2) show ?thesis
      by (simp add: d_def crypto_lib_ok_def aes_ok_def)
  qed
  show ?thesis
  proof (cases "0 < length c \<and> length c mod 16 = 0")
    case True
    then have big: "16 \<le> length c" by (metis mod_less not_le not_less_zero)
    have eq: "decryptCBCWithIV L c iv cs = Returns (unpadded 16 d)"
      using k(1) assms(4) True big len
      by (simp add: decryptCBCWithIV_def aes_BlockSize_def d_def [symmetric] copy_at_0_whole make_bytes_def pkcs7_unpad_returns)
    have "unpadded 16 d = Inr p \<longleftrightarrow> d = pkcs7_pad 16 p"
      using pkcs7_unpad_only_padded [of 16 d p] pkcs7_unpad_pad [of 16 p] len True big by auto
    moreover have "unpadded 16 d = Inl ErrCryptoDecryptFailed \<or> (\<exists>q. unpadded 16 d = Inr q)" by (simp add: unpadded_def Let_def)
    ultimately show ?thesis using True by (simp add: eq d_def)
  next
    case False
    then have "decryptCBCWithIV L c iv cs = Returns (Inl ErrCryptoDecryptFailed)"
      using k(1) assms(4) by (auto simp: decryptCBCWithIV_def aes_BlockSize_def)
    then show ?thesis using False by auto
  qed
qed

text \<open>No decryption of a session panics, whatever the ciphertext and the ciphers are.\<close>

lemma decryptCBC_returns: "decryptCBC L c cs \<noteq> Panics" "decryptCBCWithIV L c iv cs \<noteq> Panics"
  by (auto simp: decryptCBC_def decryptCBCWithIV_def aes_BlockSize_def Let_def pkcs7_unpad_returns make_bytes_def split: option.split)

lemma Decrypt_returns: "Decrypt L c cs \<noteq> Panics" "DecryptWithIV L c iv cs \<noteq> Panics"
  using decryptCBC_returns by (simp_all add: Decrypt_def DecryptWithIV_def split: ATBUS_CRYPTO_ALGORITHM_TYPE.split)

subsection \<open>A sample library\<close>

text \<open>Functions that satisfy what is assumed, simple enough to evaluate.\<close>

definition sample_lib :: crypto_lib where
  "sample_lib = \<lparr>aes_encrypt = \<lambda>k b. xor_bytes b (take 16 k), aes_decrypt = \<lambda>k b. xor_bytes b (take 16 k),
     aead_Seal = \<lambda>a n p d. p @ [0xAA], aead_Open = \<lambda>a n c d. if c = [] then None else Some (butlast c),
     chacha20_XORKeyStream = \<lambda>p k iv. Some (map (\<lambda>b. b XOR 0x55) p), xxtea_Setup = \<lambda>k. if length k = 16 then Some k else None,
     xxtea_Encrypt = \<lambda>k p. Some (rev p), xxtea_Decrypt = \<lambda>k c. Some (rev c),
     hkdf_sha256 = \<lambda>s n. if n \<le> 8160 then Some (take n (s @ replicate n 7)) else None,
     ecdh_GenerateKey = \<lambda>c e. Some e, ecdh_PublicKey = \<lambda>c k. k, ecdh_ValidKey = \<lambda>c p. True,
     ecdh_ECDH = \<lambda>c k p. Some (if length k = length p then xor_bytes k p else [])\<rparr>"

lemma xor_bytes_commute: "xor_bytes a b = xor_bytes b a"
  by (induction a arbitrary: b) (auto simp: xor_bytes_def xor.commute split: list.split intro!: nth_equalityI)

lemma sample_lib_ok: "crypto_lib_ok sample_lib"
proof -
  have "aes_ok sample_lib"
    by (auto simp: aes_ok_def sample_lib_def aes_key_ok_def xor_bytes_cancel)
  moreover have "aead_ok sample_lib" by (simp add: aead_ok_def sample_lib_def)
  moreover have "chacha20_ok sample_lib" by (simp add: chacha20_ok_def sample_lib_def o_def xor.assoc)
  moreover have "xxtea_ok sample_lib" by (auto simp: xxtea_ok_def sample_lib_def)
  moreover have "hkdf_ok sample_lib" by (auto simp: hkdf_ok_def sample_lib_def min_def)
  moreover have "ecdh_ok sample_lib" by (simp add: ecdh_ok_def sample_lib_def xor_bytes_commute)
  ultimately show ?thesis by (simp add: crypto_lib_ok_def)
qed

theorem SetKey_Encrypt_Decrypt_witness:
  "\<exists>s' c d. Encrypt sample_lib (\<lambda>n. Some [1, 2, 3]) [9, 9] (fst (SetKey sample_lib (replicate 32 5) (replicate 16 0) AES_256_CBC NewCryptoSession))
      = (s', Inr c) \<and> Decrypt sample_lib c (fst (SetKey sample_lib (replicate 32 5) (replicate 16 0) AES_256_CBC NewCryptoSession)) = Returns (Inr d)
      \<and> d = [9, 9]"
proof -
  have "snd (SetKey sample_lib (replicate 32 5) (replicate 16 0) AES_256_CBC NewCryptoSession) = None" by code_simp
  with SetKey_Encrypt_Decrypt [OF sample_lib_ok, of "\<lambda>n. Some [1, 2, 3]" "replicate 32 5" "replicate 16 0" AES_256_CBC
      NewCryptoSession NewCryptoSession "[9, 9]"]
  show ?thesis by (simp add: Let_def recovered_def)
qed

definition sample_session :: CryptoSession where
  "sample_session = fst (SetKey sample_lib (replicate 16 5) (replicate 16 0) AES_128_CBC NewCryptoSession)"

theorem decryptCBCWithIV_accepts_witness:
  "decryptCBCWithIV sample_lib (cbc_encrypt (aes_encrypt sample_lib (replicate 16 5)) (replicate 16 0) (pkcs7_pad 16 [7, 8])) (replicate 16 0) sample_session
     = Returns (Inr [7, 8])
   \<and> (\<forall>p. decryptCBCWithIV sample_lib (replicate 16 5) (replicate 16 0) sample_session \<noteq> Returns (Inr p))"
proof -
  have s: "SetKey sample_lib (replicate 16 5) (replicate 16 0) AES_128_CBC NewCryptoSession = (sample_session, None)"
    by (simp add: sample_session_def prod_eq_iff SetKey_eq Let_def cipher_parts_def aes_key_ok_def)
  from SetKey_ready [OF this] have r: "session_ready sample_lib sample_session" "is_cbc (cs_Algorithm sample_session)" "cs_Key sample_session = replicate 16 5"
    by (simp_all add: is_cbc_def)
  let ?c = "cbc_encrypt (aes_encrypt sample_lib (replicate 16 5)) (replicate 16 0) (pkcs7_pad 16 [7, 8])"
  have "0 < length ?c \<and> length ?c mod 16 = 0 \<and> cbc_decrypt (aes_decrypt sample_lib (replicate 16 5)) (replicate 16 0) ?c = pkcs7_pad 16 [7, 8]"
    by code_simp
  moreover have "cbc_decrypt (aes_decrypt sample_lib (replicate 16 5)) (replicate 16 0) (replicate 16 5) = replicate 16 0" by code_simp
  moreover have "replicate 16 0 \<noteq> pkcs7_pad 16 p" for p
  proof
    assume z: "replicate 16 0 = pkcs7_pad 16 p"
    define n where "n = 16 - length p mod 16"
    have n: "0 < n" "n \<le> 16" by (simp_all add: n_def)
    have "word_of_nat n \<in> set (pkcs7_pad 16 p)" using n(1) by (simp add: pkcs7_pad_def n_def Let_def)
    then have "word_of_nat n = (0 :: byte)" using z [symmetric] by simp
    moreover have "unat (word_of_nat n :: byte) = n" using n by (simp add: unat_of_nat)
    ultimately show False using n(1) by simp
  qed
  ultimately show ?thesis
    using decryptCBCWithIV_accepts [OF sample_lib_ok r(1,2), of "replicate 16 0" ?c "[7, 8]"]
      decryptCBCWithIV_accepts [OF sample_lib_ok r(1,2), of "replicate 16 0" "replicate 16 5"]
    unfolding r(3) by simp
qed

end
