(* ===== verification/Connection_Context.thy ===== *)
theory Connection_Context
  imports Crypto_Session
begin

section \<open>Connection contexts (impl/atbus\_connection\_context.go)\<close>

text \<open>
  Compression, negotiation of the algorithms and the handshake of a connection. Compression itself is a parameter
  (\<open>compression_lib\<close>). The read session is a pointer the code replaces, an option here: a method called on the nil pointer panics.
  Every method holds the lock of the context, so it is one step.
\<close>

subsection \<open>Compression\<close>

datatype compression_Algorithm = AlgorithmNone | AlgorithmZstd | AlgorithmLz4 | AlgorithmSnappy | AlgorithmZlib

datatype compression_ErrorCode = ErrorCodeOk | ErrorCodeNotSupport | ErrorCodeDisabled | ErrorCodeOther

record compression_lib =
  lib_Compress :: "compression_Algorithm \<Rightarrow> bytes \<Rightarrow> bytes \<times> compression_ErrorCode"
  lib_Decompress :: "compression_Algorithm \<Rightarrow> bytes \<Rightarrow> int \<Rightarrow> bytes \<times> compression_ErrorCode"
  lib_IsAlgorithmSupported :: "compression_Algorithm \<Rightarrow> bool"

fun compressionAlgorithmString :: "ATBUS_COMPRESSION_ALGORITHM_TYPE \<Rightarrow> string" where
  "compressionAlgorithmString COMPRESSION_NONE = ''NONE''"
| "compressionAlgorithmString ZSTD = ''ZSTD''"
| "compressionAlgorithmString LZ4 = ''LZ4''"
| "compressionAlgorithmString SNAPPY = ''SNAPPY''"
| "compressionAlgorithmString ZLIB = ''ZLIB''"
| "compressionAlgorithmString (COMPRESSION_OTHER n) = unknown_name n"

fun compressionAlgorithmToAdapter :: "ATBUS_COMPRESSION_ALGORITHM_TYPE \<Rightarrow> compression_Algorithm" where
  "compressionAlgorithmToAdapter ZSTD = AlgorithmZstd"
| "compressionAlgorithmToAdapter LZ4 = AlgorithmLz4"
| "compressionAlgorithmToAdapter SNAPPY = AlgorithmSnappy"
| "compressionAlgorithmToAdapter ZLIB = AlgorithmZlib"
| "compressionAlgorithmToAdapter COMPRESSION_NONE = AlgorithmNone"
| "compressionAlgorithmToAdapter (COMPRESSION_OTHER _) = AlgorithmNone"

definition compressionAlgorithmSupported :: "compression_lib \<Rightarrow> ATBUS_COMPRESSION_ALGORITHM_TYPE \<Rightarrow> bool" where
  "compressionAlgorithmSupported Z c =
     (if c = COMPRESSION_NONE then True else lib_IsAlgorithmSupported Z (compressionAlgorithmToAdapter c))"

record CompressionSession =
  zs_Algorithm :: ATBUS_COMPRESSION_ALGORITHM_TYPE

definition NewCompressionSession :: CompressionSession where
  "NewCompressionSession = \<lparr>zs_Algorithm = COMPRESSION_NONE\<rparr>"

definition CompressionSession_SetAlgorithm ::
  "compression_lib \<Rightarrow> ATBUS_COMPRESSION_ALGORITHM_TYPE \<Rightarrow> CompressionSession \<Rightarrow> CompressionSession \<times> context_error option" where
  "CompressionSession_SetAlgorithm Z algorithm cs =
     (if algorithm = COMPRESSION_NONE then (cs\<lparr>zs_Algorithm := algorithm\<rparr>, None)
      else if \<not> compressionAlgorithmSupported Z algorithm then (cs, Some ErrCompressionNotSupported)
      else (cs\<lparr>zs_Algorithm := algorithm\<rparr>, None))"

definition CompressionSession_GetAlgorithm :: "CompressionSession \<Rightarrow> ATBUS_COMPRESSION_ALGORITHM_TYPE" where
  "CompressionSession_GetAlgorithm cs = zs_Algorithm cs"

definition Compress :: "compression_lib \<Rightarrow> bytes \<Rightarrow> CompressionSession \<Rightarrow> context_error + bytes" where
  "Compress Z data cs =
     (if length data = 0 then Inr []
      else if zs_Algorithm cs = COMPRESSION_NONE then Inr data
      else let (compressed, code) = lib_Compress Z (compressionAlgorithmToAdapter (zs_Algorithm cs)) data in
        case code of
          ErrorCodeOk \<Rightarrow> Inr compressed
        | ErrorCodeNotSupport \<Rightarrow> Inl ErrCompressionNotSupported
        | ErrorCodeDisabled \<Rightarrow> Inl ErrCompressionNotSupported
        | ErrorCodeOther \<Rightarrow> Inl ErrCompressionFailed)"

definition Decompress :: "compression_lib \<Rightarrow> bytes \<Rightarrow> int \<Rightarrow> CompressionSession \<Rightarrow> context_error + bytes" where
  "Decompress Z data originalSize cs =
     (if length data = 0 then Inr []
      else if zs_Algorithm cs = COMPRESSION_NONE then Inr data
      else let (decompressed, code) = lib_Decompress Z (compressionAlgorithmToAdapter (zs_Algorithm cs)) data originalSize in
        case code of
          ErrorCodeOk \<Rightarrow> Inr decompressed
        | ErrorCodeNotSupport \<Rightarrow> Inl ErrCompressionNotSupported
        | ErrorCodeDisabled \<Rightarrow> Inl ErrCompressionNotSupported
        | ErrorCodeOther \<Rightarrow> Inl ErrDecompressionFailed)"

subsection \<open>Negotiation\<close>

text \<open>The sets are maps to booleans filled from the lists; the loop returns the first of the priority list that is in both.\<close>

fun first_common :: "'a list \<Rightarrow> ('a \<Rightarrow> bool) \<Rightarrow> ('a \<Rightarrow> bool) \<Rightarrow> 'a option" where
  "first_common [] localSet remoteSet = None"
| "first_common (alg # priority) localSet remoteSet =
     (if localSet alg \<and> remoteSet alg then Some alg else first_common priority localSet remoteSet)"

definition compression_priority :: "ATBUS_COMPRESSION_ALGORITHM_TYPE list" where
  "compression_priority = [ZSTD, LZ4, SNAPPY, ZLIB, COMPRESSION_NONE]"

definition crypto_priority :: "ATBUS_CRYPTO_ALGORITHM_TYPE list" where
  "crypto_priority = [XCHACHA20_POLY1305_IETF, CHACHA20_POLY1305_IETF, AES_256_GCM, AES_192_GCM, AES_128_GCM, AES_256_CBC,
     AES_192_CBC, AES_128_CBC, CHACHA20, XXTEA, CRYPTO_NONE]"

definition NegotiateCompression ::
  "ATBUS_COMPRESSION_ALGORITHM_TYPE list \<Rightarrow> ATBUS_COMPRESSION_ALGORITHM_TYPE list \<Rightarrow> ATBUS_COMPRESSION_ALGORITHM_TYPE" where
  "NegotiateCompression local remote =
     (case first_common compression_priority (\<lambda>a. a \<in> set local) (\<lambda>a. a \<in> set remote) of
        Some alg \<Rightarrow> alg | None \<Rightarrow> COMPRESSION_NONE)"

definition NegotiateCryptoAlgorithm ::
  "ATBUS_CRYPTO_ALGORITHM_TYPE list \<Rightarrow> ATBUS_CRYPTO_ALGORITHM_TYPE list \<Rightarrow> ATBUS_CRYPTO_ALGORITHM_TYPE" where
  "NegotiateCryptoAlgorithm local remote =
     (case first_common crypto_priority (\<lambda>a. a \<in> set local) (\<lambda>a. a \<in> set remote) of
        Some alg \<Rightarrow> alg | None \<Rightarrow> CRYPTO_NONE)"

definition NegotiateKeyExchange ::
  "ATBUS_CRYPTO_KEY_EXCHANGE_TYPE \<Rightarrow> ATBUS_CRYPTO_KEY_EXCHANGE_TYPE \<Rightarrow> ATBUS_CRYPTO_KEY_EXCHANGE_TYPE" where
  "NegotiateKeyExchange local remote = (if local = remote then local else KEY_EXCHANGE_NONE)"

fun find_kdf :: "ATBUS_CRYPTO_KDF_TYPE list \<Rightarrow> ATBUS_CRYPTO_KDF_TYPE list \<Rightarrow> ATBUS_CRYPTO_KDF_TYPE option" where
  "find_kdf local [] = None"
| "find_kdf local (kdf # remote) = (if kdf \<in> set local then Some kdf else find_kdf local remote)"

definition NegotiateKDF :: "ATBUS_CRYPTO_KDF_TYPE list \<Rightarrow> ATBUS_CRYPTO_KDF_TYPE list \<Rightarrow> ATBUS_CRYPTO_KDF_TYPE" where
  "NegotiateKDF local remote = (case find_kdf local remote of Some kdf \<Rightarrow> kdf | None \<Rightarrow> HKDF_SHA256)"

subsection \<open>The context\<close>

record CryptoHandshakeData =
  ch_Sequence :: uint64
  ch_KeyExchange :: ATBUS_CRYPTO_KEY_EXCHANGE_TYPE
  ch_KDFTypes :: "ATBUS_CRYPTO_KDF_TYPE list"
  ch_Algorithms :: "ATBUS_CRYPTO_ALGORITHM_TYPE list"
  ch_PublicKey :: "bytes option"
  ch_IVSize :: uint32
  ch_TagSize :: uint32

record ConnectionContext =
  cx_readCrypto :: "CryptoSession option"
  cx_writeCrypto :: CryptoSession
  cx_handshakeCrypto :: CryptoSession
  cx_handshakeReceiveCrypto :: "CryptoSession option"
  cx_compression :: CompressionSession
  cx_sequence :: uint64
  cx_closing :: bool
  cx_handshakeDone :: bool
  cx_handshakePendingConfirm :: bool
  cx_handshakeStartTime :: int
  cx_handshakeSequence :: uint64
  cx_supportedCryptoAlgorithms :: "ATBUS_CRYPTO_ALGORITHM_TYPE list"
  cx_supportedCompressionAlgorithms :: "ATBUS_COMPRESSION_ALGORITHM_TYPE list"
  cx_supportedKeyExchange :: ATBUS_CRYPTO_KEY_EXCHANGE_TYPE
  cx_supportedKDFTypes :: "ATBUS_CRYPTO_KDF_TYPE list"

definition GetSupportedCompressionAlgorithms :: "ConnectionContext \<Rightarrow> ATBUS_COMPRESSION_ALGORITHM_TYPE list" where
  "GetSupportedCompressionAlgorithms cc = cx_supportedCompressionAlgorithms cc"

definition NewConnectionContext :: "ATBUS_CRYPTO_KEY_EXCHANGE_TYPE \<Rightarrow> ConnectionContext" where
  "NewConnectionContext keyExchangeType =
     (let ret = \<lparr>cx_readCrypto = Some NewCryptoSession, cx_writeCrypto = NewCryptoSession, cx_handshakeCrypto = NewCryptoSession,
                cx_handshakeReceiveCrypto = None, cx_compression = NewCompressionSession, cx_sequence = 0, cx_closing = False,
                cx_handshakeDone = False, cx_handshakePendingConfirm = False, cx_handshakeStartTime = 0, cx_handshakeSequence = 0,
                cx_supportedCryptoAlgorithms = [AES_256_GCM, AES_128_GCM, CHACHA20_POLY1305_IETF, XCHACHA20_POLY1305_IETF,
                  AES_256_CBC, AES_128_CBC, CHACHA20, XXTEA, CRYPTO_NONE],
                cx_supportedCompressionAlgorithms = [], cx_supportedKeyExchange = keyExchangeType,
                cx_supportedKDFTypes = [HKDF_SHA256]\<rparr>
      in ret\<lparr>cx_supportedCompressionAlgorithms := GetSupportedCompressionAlgorithms ret\<rparr>)"

definition IsClosing :: "ConnectionContext \<Rightarrow> bool" where
  "IsClosing cc = cx_closing cc"

definition SetClosing :: "bool \<Rightarrow> ConnectionContext \<Rightarrow> ConnectionContext" where
  "SetClosing closing cc = cc\<lparr>cx_closing := closing\<rparr>"

definition IsHandshakeDone :: "ConnectionContext \<Rightarrow> bool" where
  "IsHandshakeDone cc = cx_handshakeDone cc"

definition GetHandshakeStartTime :: "ConnectionContext \<Rightarrow> int" where
  "GetHandshakeStartTime cc = cx_handshakeStartTime cc"

definition GetCryptoKeyExchangeAlgorithm :: "ConnectionContext \<Rightarrow> ATBUS_CRYPTO_KEY_EXCHANGE_TYPE" where
  "GetCryptoKeyExchangeAlgorithm cc = cs_KeyExchange (cx_handshakeCrypto cc)"

definition GetCryptoSelectKdfType :: "ConnectionContext \<Rightarrow> ATBUS_CRYPTO_KDF_TYPE" where
  "GetCryptoSelectKdfType cc = cs_KDFType (cx_handshakeCrypto cc)"

definition GetCryptoSelectAlgorithm :: "ConnectionContext \<Rightarrow> ATBUS_CRYPTO_ALGORITHM_TYPE" where
  "GetCryptoSelectAlgorithm cc = (if IsInitialized (cx_writeCrypto cc) then cs_Algorithm (cx_writeCrypto cc) else CRYPTO_NONE)"

definition GetCompressSelectAlgorithm :: "ConnectionContext \<Rightarrow> ATBUS_COMPRESSION_ALGORITHM_TYPE" where
  "GetCompressSelectAlgorithm cc = CompressionSession_GetAlgorithm (cx_compression cc)"

definition GetNextSequence :: "ConnectionContext \<Rightarrow> ConnectionContext \<times> uint64" where
  "GetNextSequence cc = (let s = cx_sequence cc + 1 in (cc\<lparr>cx_sequence := s\<rparr>, s))"

definition GetReadCrypto :: "ConnectionContext \<Rightarrow> CryptoSession option" where
  "GetReadCrypto cc = cx_readCrypto cc"

definition GetWriteCrypto :: "ConnectionContext \<Rightarrow> CryptoSession" where
  "GetWriteCrypto cc = cx_writeCrypto cc"

definition GetCompression :: "ConnectionContext \<Rightarrow> CompressionSession" where
  "GetCompression cc = cx_compression cc"

definition SetSupportedCryptoAlgorithms :: "ATBUS_CRYPTO_ALGORITHM_TYPE list \<Rightarrow> ConnectionContext \<Rightarrow> ConnectionContext" where
  "SetSupportedCryptoAlgorithms algorithms cc = cc\<lparr>cx_supportedCryptoAlgorithms := algorithms\<rparr>"

definition GetSupportedCryptoAlgorithms :: "ConnectionContext \<Rightarrow> ATBUS_CRYPTO_ALGORITHM_TYPE list" where
  "GetSupportedCryptoAlgorithms cc = cx_supportedCryptoAlgorithms cc"

definition SetSupportedCompressionAlgorithms :: "ATBUS_COMPRESSION_ALGORITHM_TYPE list \<Rightarrow> ConnectionContext \<Rightarrow> ConnectionContext" where
  "SetSupportedCompressionAlgorithms algorithms cc = cc\<lparr>cx_supportedCompressionAlgorithms := algorithms\<rparr>"

definition SetSupportedKeyExchange :: "ATBUS_CRYPTO_KEY_EXCHANGE_TYPE \<Rightarrow> ConnectionContext \<Rightarrow> ConnectionContext" where
  "SetSupportedKeyExchange keyExchange cc = cc\<lparr>cx_supportedKeyExchange := keyExchange\<rparr>"

definition GetSupportedKeyExchange :: "ConnectionContext \<Rightarrow> ATBUS_CRYPTO_KEY_EXCHANGE_TYPE" where
  "GetSupportedKeyExchange cc = cx_supportedKeyExchange cc"

subsection \<open>Handshakes\<close>

definition CreateHandshakeData ::
  "crypto_lib \<Rightarrow> bytes \<Rightarrow> ConnectionContext \<Rightarrow> ConnectionContext \<times> (context_error + CryptoHandshakeData)" where
  "CreateHandshakeData L entropy cc =
     (if cx_closing cc then (cc, Inl ErrConnectionClosing)
      else let (hs, err) = GenerateKeyPair L entropy (cx_supportedKeyExchange cc) (cx_handshakeCrypto cc);
               cc = cc\<lparr>cx_handshakeCrypto := hs\<rparr>
           in case err of Some e \<Rightarrow> (cc, Inl e)
              | None \<Rightarrow>
                  let sq = cx_sequence cc + 1; cc = cc\<lparr>cx_sequence := sq\<rparr> in
                  (cc, Inr \<lparr>ch_Sequence = sq, ch_KeyExchange = cx_supportedKeyExchange cc, ch_KDFTypes = cx_supportedKDFTypes cc,
                            ch_Algorithms = cx_supportedCryptoAlgorithms cc, ch_PublicKey = GetPublicKey (cx_handshakeCrypto cc),
                            ch_IVSize = 0, ch_TagSize = 0\<rparr>))"

text \<open>A method of the read session: it panics on the nil pointer.\<close>

definition with_read ::
  "ConnectionContext \<Rightarrow> (CryptoSession \<Rightarrow> 'a outcome) \<Rightarrow> 'a outcome" where
  "with_read cc f = (case cx_readCrypto cc of None \<Rightarrow> Panics | Some r \<Rightarrow> f r)"

definition ProcessHandshakeData ::
  "crypto_lib \<Rightarrow> bytes \<Rightarrow> CryptoHandshakeData \<Rightarrow> ConnectionContext \<Rightarrow> (ConnectionContext \<times> context_error option) outcome" where
  "ProcessHandshakeData L entropy peerData cc =
     (if cx_closing cc then Returns (cc, Some ErrConnectionClosing)
      else let keyExchange = NegotiateKeyExchange (cx_supportedKeyExchange cc) (ch_KeyExchange peerData) in
        if keyExchange = KEY_EXCHANGE_NONE \<and> cx_supportedKeyExchange cc \<noteq> KEY_EXCHANGE_NONE
        then Returns (cc, Some ErrCryptoHandshakeFailed)
        else
          let algorithm = NegotiateCryptoAlgorithm (cx_supportedCryptoAlgorithms cc) (ch_Algorithms peerData);
              kdf = NegotiateKDF (cx_supportedKDFTypes cc) (ch_KDFTypes peerData);
              (hs, err) = (if cs_privateKey (cx_handshakeCrypto cc) = None
                           then GenerateKeyPair L entropy keyExchange (cx_handshakeCrypto cc) else (cx_handshakeCrypto cc, None));
              cc = cc\<lparr>cx_handshakeCrypto := hs\<rparr>
          in case err of Some e \<Rightarrow> Returns (cc, Some e) | None \<Rightarrow>
             (case ComputeSharedSecret L (case ch_PublicKey peerData of None \<Rightarrow> [] | Some pk \<Rightarrow> pk) hs of
                Inl e \<Rightarrow> Returns (cc, Some e)
              | Inr sharedSecret \<Rightarrow>
                  let (hs, err) = DeriveKey L sharedSecret algorithm kdf hs; cc = cc\<lparr>cx_handshakeCrypto := hs\<rparr> in
                  case err of Some e \<Rightarrow> Returns (cc, Some e) | None \<Rightarrow>
                    with_read cc (\<lambda>r.
                      let (r, err) = SetKey L (cs_Key hs) (cs_IV hs) algorithm r; cc = cc\<lparr>cx_readCrypto := Some r\<rparr> in
                      case err of Some e \<Rightarrow> Returns (cc, Some e) | None \<Rightarrow>
                        let (w, err) = SetKey L (cs_Key hs) (cs_IV hs) algorithm (cx_writeCrypto cc); cc = cc\<lparr>cx_writeCrypto := w\<rparr> in
                        case err of Some e \<Rightarrow> Returns (cc, Some e)
                        | None \<Rightarrow> Returns (cc\<lparr>cx_handshakeDone := True\<rparr>, None))))"

definition NegotiateCompressionWithPeer ::
  "compression_lib \<Rightarrow> ATBUS_COMPRESSION_ALGORITHM_TYPE list \<Rightarrow> ConnectionContext \<Rightarrow> ConnectionContext \<times> context_error option" where
  "NegotiateCompressionWithPeer Z peerAlgorithms cc =
     (let algorithm = NegotiateCompression (cx_supportedCompressionAlgorithms cc) peerAlgorithms;
          (z, err) = CompressionSession_SetAlgorithm Z algorithm (cx_compression cc)
      in (cc\<lparr>cx_compression := z\<rparr>, err))"

definition HandshakeGenerateSelfKey ::
  "crypto_lib \<Rightarrow> int \<Rightarrow> bytes \<Rightarrow> uint64 \<Rightarrow> ConnectionContext \<Rightarrow> ConnectionContext \<times> ErrorType" where
  "HandshakeGenerateSelfKey L now entropy peerSequenceId cc =
     (if cx_closing cc then (cc, EN_ATBUS_ERR_CHANNEL_CLOSING)
      else
        let cc = cc\<lparr>cx_handshakeStartTime := now\<rparr>;
            cc = (if peerSequenceId = 0
                  then let sq = cx_sequence cc + 1 in cc\<lparr>cx_sequence := sq, cx_handshakeSequence := sq\<rparr>
                  else cc\<lparr>cx_handshakeSequence := peerSequenceId\<rparr>);
            (hs, err) = GenerateKeyPair L entropy (cx_supportedKeyExchange cc) (cx_handshakeCrypto cc);
            cc = cc\<lparr>cx_handshakeCrypto := hs\<rparr>
        in case err of Some _ \<Rightarrow> (cc, EN_ATBUS_ERR_CRYPTO_HANDSHAKE_MAKE_KEY_PAIR) | None \<Rightarrow> (cc, EN_ATBUS_ERR_SUCCESS))"

definition HandshakeReadPeerKey ::
  "crypto_lib \<Rightarrow> crypto_handshake_data option \<Rightarrow> ATBUS_CRYPTO_ALGORITHM_TYPE list \<Rightarrow> bool \<Rightarrow> ConnectionContext
    \<Rightarrow> (ConnectionContext \<times> ErrorType) outcome" where
  "HandshakeReadPeerKey L peerPubKey supportedCryptoAlgorithms needConfirm cc =
     (if cx_closing cc then Returns (cc, EN_ATBUS_ERR_CHANNEL_CLOSING)
      else case peerPubKey of None \<Rightarrow> Returns (cc, EN_ATBUS_ERR_PARAMS) | Some peer \<Rightarrow>
        if hd_type peer \<noteq> cx_supportedKeyExchange cc then Returns (cc, EN_ATBUS_ERR_CRYPTO_HANDSHAKE_READ_PEER_KEY)
        else case ComputeSharedSecret L (hd_public_key peer) (cx_handshakeCrypto cc) of
          Inl _ \<Rightarrow> Returns (cc, EN_ATBUS_ERR_CRYPTO_HANDSHAKE_MAKE_SECRET)
        | Inr sharedSecret \<Rightarrow>
            let algorithm = NegotiateCryptoAlgorithm supportedCryptoAlgorithms (hd_algorithms peer);
                kdf = NegotiateKDF (cx_supportedKDFTypes cc) (hd_kdf_type peer);
                (hs, err) = DeriveKey L sharedSecret algorithm kdf (cx_handshakeCrypto cc);
                cc = cc\<lparr>cx_handshakeCrypto := hs\<rparr>
            in case err of Some _ \<Rightarrow> Returns (cc, EN_ATBUS_ERR_CRYPTO_HANDSHAKE_KDF_ERROR) | None \<Rightarrow>
               let (w, err) = SetKey L (cs_Key hs) (cs_IV hs) algorithm (cx_writeCrypto cc); cc = cc\<lparr>cx_writeCrypto := w\<rparr> in
               case err of Some _ \<Rightarrow> Returns (cc, EN_ATBUS_ERR_CRYPTO_HANDSHAKE_MAKE_SECRET) | None \<Rightarrow>
                 if needConfirm then
                   let (r, err) = SetKey L (cs_Key hs) (cs_IV hs) algorithm NewCryptoSession in
                   case err of
                     Some _ \<Rightarrow> Returns (cc\<lparr>cx_handshakeReceiveCrypto := None\<rparr>, EN_ATBUS_ERR_CRYPTO_HANDSHAKE_MAKE_SECRET)
                   | None \<Rightarrow> Returns (cc\<lparr>cx_handshakeReceiveCrypto := Some r, cx_handshakePendingConfirm := True\<rparr>, EN_ATBUS_ERR_SUCCESS)
                 else
                   with_read cc (\<lambda>r.
                     let (r, err) = SetKey L (cs_Key hs) (cs_IV hs) algorithm r; cc = cc\<lparr>cx_readCrypto := Some r\<rparr> in
                     case err of
                       Some _ \<Rightarrow> Returns (cc, EN_ATBUS_ERR_CRYPTO_HANDSHAKE_MAKE_SECRET)
                     | None \<Rightarrow> Returns (cc\<lparr>cx_handshakeDone := True\<rparr>, EN_ATBUS_ERR_SUCCESS)))"

definition HandshakeWriteSelfPublicKey ::
  "crypto_handshake_data option \<Rightarrow> ATBUS_CRYPTO_ALGORITHM_TYPE list \<Rightarrow> ConnectionContext
    \<Rightarrow> crypto_handshake_data option \<times> ErrorType" where
  "HandshakeWriteSelfPublicKey selfPubKey supportedCryptoAlgorithms cc =
     (if cx_closing cc then (selfPubKey, EN_ATBUS_ERR_CHANNEL_CLOSING)
      else case selfPubKey of None \<Rightarrow> (None, EN_ATBUS_ERR_PARAMS) | Some hsd \<Rightarrow>
        case GetPublicKey (cx_handshakeCrypto cc) of
          None \<Rightarrow> (Some hsd, EN_ATBUS_ERR_CRYPTO_HANDSHAKE_MAKE_KEY_PAIR)
        | Some pubKey \<Rightarrow>
            (Some (hsd\<lparr>hd_sequence := cx_handshakeSequence cc, hd_type := cx_supportedKeyExchange cc,
                      hd_kdf_type := cx_supportedKDFTypes cc, hd_algorithms := supportedCryptoAlgorithms,
                      hd_public_key := pubKey\<rparr>), EN_ATBUS_ERR_SUCCESS))"

definition ConfirmHandshake :: "uint64 \<Rightarrow> ConnectionContext \<Rightarrow> ConnectionContext" where
  "ConfirmHandshake handshakeSequence cc =
     (if cx_handshakeSequence cc \<noteq> handshakeSequence \<or> \<not> cx_handshakePendingConfirm cc then cc
      else cc\<lparr>cx_readCrypto := cx_handshakeReceiveCrypto cc, cx_handshakeReceiveCrypto := None,
              cx_handshakePendingConfirm := False, cx_handshakeDone := True\<rparr>)"

definition GetHandshakePendingConfirm :: "ConnectionContext \<Rightarrow> bool" where
  "GetHandshakePendingConfirm cc = cx_handshakePendingConfirm cc"

definition GetHandshakeReceiveCrypto :: "ConnectionContext \<Rightarrow> CryptoSession option" where
  "GetHandshakeReceiveCrypto cc = cx_handshakeReceiveCrypto cc"

definition GetHandshakeSequence :: "ConnectionContext \<Rightarrow> uint64" where
  "GetHandshakeSequence cc = cx_handshakeSequence cc"

definition UpdateCompressionAlgorithm :: "ATBUS_COMPRESSION_ALGORITHM_TYPE list \<Rightarrow> ConnectionContext \<Rightarrow> ConnectionContext \<times> ErrorType" where
  "UpdateCompressionAlgorithm algorithms cc =
     (if cx_closing cc then (cc, EN_ATBUS_ERR_CHANNEL_CLOSING)
      else (cc\<lparr>cx_supportedCompressionAlgorithms := algorithms\<rparr>, EN_ATBUS_ERR_SUCCESS))"

definition IsCompressionAlgorithmSupported :: "compression_lib \<Rightarrow> ATBUS_COMPRESSION_ALGORITHM_TYPE \<Rightarrow> bool" where
  "IsCompressionAlgorithmSupported Z algorithm = compressionAlgorithmSupported Z algorithm"

definition SetupCryptoWithKey ::
  "crypto_lib \<Rightarrow> ATBUS_CRYPTO_ALGORITHM_TYPE \<Rightarrow> bytes \<Rightarrow> bytes \<Rightarrow> ConnectionContext \<Rightarrow> (ConnectionContext \<times> ErrorType) outcome" where
  "SetupCryptoWithKey L algorithm key iv cc =
     (if cx_closing cc then Returns (cc, EN_ATBUS_ERR_CHANNEL_CLOSING)
      else with_read cc (\<lambda>r.
        let (r, err) = SetKey L key iv algorithm r; cc = cc\<lparr>cx_readCrypto := Some r\<rparr> in
        case err of Some _ \<Rightarrow> Returns (cc, EN_ATBUS_ERR_CRYPTO_HANDSHAKE_MAKE_SECRET) | None \<Rightarrow>
          let (w, err) = SetKey L key iv algorithm (cx_writeCrypto cc); cc = cc\<lparr>cx_writeCrypto := w\<rparr> in
          case err of Some _ \<Rightarrow> Returns (cc, EN_ATBUS_ERR_CRYPTO_HANDSHAKE_MAKE_SECRET)
          | None \<Rightarrow> Returns (cc\<lparr>cx_handshakeDone := True\<rparr>, EN_ATBUS_ERR_SUCCESS)))"

subsection \<open>Negotiated algorithms\<close>

lemma first_common_Some:
  "first_common pr f g = Some a \<Longrightarrow> a \<in> set pr \<and> f a \<and> g a"
  by (induction pr) (auto split: if_splits)

lemma first_common_None: "first_common pr f g = None \<longleftrightarrow> (\<forall>a \<in> set pr. \<not> (f a \<and> g a))"
  by (induction pr) auto

lemma first_common_commute: "first_common pr f g = first_common pr g f"
  by (induction pr) auto

lemma first_common_first:
  "first_common pr f g = Some a \<Longrightarrow> \<exists>before after. pr = before @ a # after \<and> (\<forall>b \<in> set before. \<not> (f b \<and> g b))"
proof (induction pr)
  case (Cons x pr)
  show ?case
  proof (cases "f x \<and> g x")
    case True
    with Cons.prems show ?thesis by force
  next
    case False
    with Cons obtain before after where "pr = before @ a # after" "\<forall>b \<in> set before. \<not> (f b \<and> g b)" by auto
    with False have "x # pr = (x # before) @ a # after \<and> (\<forall>b \<in> set (x # before). \<not> (f b \<and> g b))" by simp
    then show ?thesis by blast
  qed
qed simp

definition known_algorithm :: "ATBUS_CRYPTO_ALGORITHM_TYPE \<Rightarrow> bool" where
  "known_algorithm a \<longleftrightarrow> a = CRYPTO_NONE \<or> 0 < cryptoAlgorithmKeySize a"

lemma crypto_priority_known: "a \<in> set crypto_priority \<longleftrightarrow> known_algorithm a"
  by (cases a) (simp_all add: crypto_priority_def known_algorithm_def)

lemma NegotiateCryptoAlgorithm_common:
  assumes "NegotiateCryptoAlgorithm local remote = a" and "a \<noteq> CRYPTO_NONE"
  shows "a \<in> set local \<and> a \<in> set remote \<and> known_algorithm a"
  using assms first_common_Some [of crypto_priority "\<lambda>a. a \<in> set local" "\<lambda>a. a \<in> set remote" a]
  by (auto simp: NegotiateCryptoAlgorithm_def crypto_priority_known split: option.splits)

lemma NegotiateCryptoAlgorithm_known: "known_algorithm (NegotiateCryptoAlgorithm local remote)"
  using NegotiateCryptoAlgorithm_common [of local remote] by (cases "NegotiateCryptoAlgorithm local remote = CRYPTO_NONE") (auto simp: known_algorithm_def)

lemma NegotiateCryptoAlgorithm_answer:
  "NegotiateCryptoAlgorithm remote [NegotiateCryptoAlgorithm local remote] = NegotiateCryptoAlgorithm local remote"
proof -
  define a where "a = NegotiateCryptoAlgorithm local remote"
  show ?thesis
  proof (cases "first_common crypto_priority (\<lambda>b. b \<in> set remote) (\<lambda>b. b \<in> set [a])")
    case None
    have "a = CRYPTO_NONE"
    proof (rule ccontr)
      assume "a \<noteq> CRYPTO_NONE"
      with NegotiateCryptoAlgorithm_common [OF a_def [symmetric]] None show False
        by (auto simp: first_common_None crypto_priority_known)
    qed
    with None show ?thesis unfolding a_def [symmetric] by (simp add: NegotiateCryptoAlgorithm_def)
  next
    case (Some b)
    then have "b = a" using first_common_Some [OF Some] by simp
    with Some show ?thesis unfolding a_def [symmetric] by (simp add: NegotiateCryptoAlgorithm_def)
  qed
qed

text \<open>The negotiation of the encryption gives both sides the same algorithm, whoever computes it: the best one, in the order AEAD, CBC,
  ChaCha20, XXTEA, of those both lists have, and none exactly when no encryption is common to both; an algorithm number
  nobody knows is never chosen; and a side that is offered only the chosen algorithm chooses it again.\<close>

theorem NegotiateCryptoAlgorithm_best:
  "NegotiateCryptoAlgorithm local remote = NegotiateCryptoAlgorithm remote local
   \<and> (\<exists>before after. crypto_priority = before @ NegotiateCryptoAlgorithm local remote # after
        \<and> (\<forall>b \<in> set before. b \<notin> set local \<or> b \<notin> set remote))
   \<and> (NegotiateCryptoAlgorithm local remote = CRYPTO_NONE \<longleftrightarrow>
        (\<forall>b \<in> set local. b \<in> set remote \<longrightarrow> cryptoAlgorithmKeySize b = 0))
   \<and> (NegotiateCryptoAlgorithm local remote \<noteq> CRYPTO_NONE \<longrightarrow>
        NegotiateCryptoAlgorithm local remote \<in> set local \<and> NegotiateCryptoAlgorithm local remote \<in> set remote)
   \<and> NegotiateCryptoAlgorithm remote [NegotiateCryptoAlgorithm local remote] = NegotiateCryptoAlgorithm local remote"
proof (intro conjI)
  define f where "f = (\<lambda>a. a \<in> set local)"
  define g where "g = (\<lambda>a. a \<in> set remote)"
  have eq: "NegotiateCryptoAlgorithm local remote = (case first_common crypto_priority f g of Some a \<Rightarrow> a | None \<Rightarrow> CRYPTO_NONE)"
    by (simp add: NegotiateCryptoAlgorithm_def f_def g_def)
  show "NegotiateCryptoAlgorithm local remote = NegotiateCryptoAlgorithm remote local"
    unfolding NegotiateCryptoAlgorithm_def
    by (subst first_common_commute) (rule refl)
  show first: "\<exists>before after. crypto_priority = before @ NegotiateCryptoAlgorithm local remote # after
        \<and> (\<forall>b \<in> set before. b \<notin> set local \<or> b \<notin> set remote)"
  proof (cases "first_common crypto_priority f g")
    case None
    have "crypto_priority = butlast crypto_priority @ CRYPTO_NONE # []" by (simp add: crypto_priority_def)
    moreover have "\<forall>b \<in> set (butlast crypto_priority). b \<notin> set local \<or> b \<notin> set remote"
      using None in_set_butlastD unfolding first_common_None f_def g_def by fast
    ultimately show ?thesis unfolding eq None by auto
  next
    case (Some a)
    obtain before after where "crypto_priority = before @ a # after" "\<forall>b \<in> set before. \<not> (f b \<and> g b)"
      using first_common_first [OF Some] by blast
    moreover have "NegotiateCryptoAlgorithm local remote = a" unfolding eq by (simp add: Some)
    ultimately show ?thesis unfolding f_def g_def by blast
  qed
  show "NegotiateCryptoAlgorithm local remote = CRYPTO_NONE \<longleftrightarrow>
        (\<forall>b \<in> set local. b \<in> set remote \<longrightarrow> cryptoAlgorithmKeySize b = 0)"
  proof
    assume none: "NegotiateCryptoAlgorithm local remote = CRYPTO_NONE"
    from first obtain before after where split: "crypto_priority = before @ CRYPTO_NONE # after"
      "\<forall>b \<in> set before. b \<notin> set local \<or> b \<notin> set remote" unfolding none by blast
    have last: "CRYPTO_NONE \<notin> set (butlast crypto_priority)" by (simp add: crypto_priority_def)
    have "after = []"
    proof (rule ccontr)
      assume "after \<noteq> []"
      then have "CRYPTO_NONE \<in> set (butlast crypto_priority)" unfolding split(1) by (simp add: butlast_append)
      with last show False by contradiction
    qed
    then have "b \<in> set before" if "0 < cryptoAlgorithmKeySize b" for b
      using that crypto_priority_known [of b] unfolding split(1) by (auto simp: known_algorithm_def)
    with split(2) show "\<forall>b \<in> set local. b \<in> set remote \<longrightarrow> cryptoAlgorithmKeySize b = 0" by auto
  next
    assume "\<forall>b \<in> set local. b \<in> set remote \<longrightarrow> cryptoAlgorithmKeySize b = 0"
    with NegotiateCryptoAlgorithm_common [of local remote "NegotiateCryptoAlgorithm local remote"]
    show "NegotiateCryptoAlgorithm local remote = CRYPTO_NONE" by (fastforce simp: known_algorithm_def)
  qed
  show "NegotiateCryptoAlgorithm local remote \<noteq> CRYPTO_NONE \<longrightarrow>
        NegotiateCryptoAlgorithm local remote \<in> set local \<and> NegotiateCryptoAlgorithm local remote \<in> set remote"
    using NegotiateCryptoAlgorithm_common by blast
  show "NegotiateCryptoAlgorithm remote [NegotiateCryptoAlgorithm local remote] = NegotiateCryptoAlgorithm local remote"
    by (rule NegotiateCryptoAlgorithm_answer)
qed

theorem NegotiateCryptoAlgorithm_best_witness:
  "NegotiateCryptoAlgorithm [XXTEA, AES_128_CBC, AES_256_GCM] [AES_256_GCM, CRYPTO_OTHER 99, XXTEA] = AES_256_GCM
    \<and> NegotiateCryptoAlgorithm [AES_256_GCM, CRYPTO_OTHER 99, XXTEA] [AES_256_GCM] = AES_256_GCM"
proof -
  have "NegotiateCryptoAlgorithm [XXTEA, AES_128_CBC, AES_256_GCM] [AES_256_GCM, CRYPTO_OTHER 99, XXTEA] = AES_256_GCM" by code_simp
  with NegotiateCryptoAlgorithm_best [of "[XXTEA, AES_128_CBC, AES_256_GCM]" "[AES_256_GCM, CRYPTO_OTHER 99, XXTEA]"]
  show ?thesis by simp
qed

subsection \<open>The handshake\<close>

text \<open>A session whose key is derived from a secret.\<close>

definition derived_key :: "crypto_lib \<Rightarrow> bytes \<Rightarrow> ATBUS_CRYPTO_ALGORITHM_TYPE \<Rightarrow> bytes" where
  "derived_key L secret alg =
     take (cryptoAlgorithmKeySize alg) (the (hkdf_sha256 L secret (cryptoAlgorithmKeySize alg + cryptoAlgorithmIVSize alg)))"

definition keyed :: "crypto_lib \<Rightarrow> ATBUS_CRYPTO_ALGORITHM_TYPE \<Rightarrow> bytes \<Rightarrow> CryptoSession \<Rightarrow> bool" where
  "keyed L alg secret cs \<longleftrightarrow> session_ready L cs \<and> cs_Algorithm cs = alg \<and> (alg \<noteq> CRYPTO_NONE \<longrightarrow> cs_Key cs = derived_key L secret alg)"

lemma keyed_same: "keyed L alg secret s \<Longrightarrow> keyed L alg secret r \<Longrightarrow> same_key s r"
  by (simp add: keyed_def same_key_def)

lemma SetKey_keyed:
  assumes "crypto_lib_ok L" and "known_algorithm alg" and "alg \<noteq> CRYPTO_NONE \<Longrightarrow> key = derived_key L secret alg"
    and "alg \<noteq> CRYPTO_NONE \<Longrightarrow> length key = cryptoAlgorithmKeySize alg"
    and "0 < cryptoAlgorithmIVSize alg \<Longrightarrow> length iv = cryptoAlgorithmIVSize alg"
  shows "\<exists>cs'. SetKey L key iv alg cs = (cs', None) \<and> keyed L alg secret cs'"
proof -
  have "snd (SetKey L key iv alg cs) = None"
    using assms SetKey_iff [of L key iv alg cs] by (auto simp: crypto_lib_ok_def known_algorithm_def)
  then obtain cs' where "SetKey L key iv alg cs = (cs', None)" by (metis prod.collapse)
  with SetKey_ready [OF this] assms(3) show ?thesis by (auto simp: keyed_def)
qed

text \<open>What reading the key of the peer does when the exchange succeeds.\<close>

lemma HandshakeReadPeerKey_success:
  assumes ok: "crypto_lib_ok L" and open_cc: "\<not> cx_closing cc" and type: "hd_type peer = cx_supportedKeyExchange cc"
    and secret: "ComputeSharedSecret L (hd_public_key peer) (cx_handshakeCrypto cc) = Inr secret"
    and kdf: "NegotiateKDF (cx_supportedKDFTypes cc) (hd_kdf_type peer) = HKDF_SHA256"
    and alg: "alg = NegotiateCryptoAlgorithm allowed (hd_algorithms peer)"
  shows "\<exists>hs w r. cs_publicKey hs = cs_publicKey (cx_handshakeCrypto cc) \<and> cs_privateKey hs = cs_privateKey (cx_handshakeCrypto cc)
      \<and> cs_KeyExchange hs = cs_KeyExchange (cx_handshakeCrypto cc)
      \<and> keyed L alg secret w \<and> keyed L alg secret r
      \<and> HandshakeReadPeerKey L (Some peer) allowed True cc
        = Returns (cc\<lparr>cx_handshakeCrypto := hs, cx_writeCrypto := w, cx_handshakeReceiveCrypto := Some r, cx_handshakePendingConfirm := True\<rparr>,
            EN_ATBUS_ERR_SUCCESS)"
    and "\<exists>hs w. \<forall>r0. cx_readCrypto cc = Some r0 \<longrightarrow> (\<exists>r. keyed L alg secret w \<and> keyed L alg secret r
      \<and> HandshakeReadPeerKey L (Some peer) allowed False cc
        = Returns (cc\<lparr>cx_handshakeCrypto := hs, cx_writeCrypto := w, cx_readCrypto := Some r, cx_handshakeDone := True\<rparr>, EN_ATBUS_ERR_SUCCESS))"
proof -
  have known: "known_algorithm alg" unfolding alg by (rule NegotiateCryptoAlgorithm_known)
  from DeriveKey_ready [of L alg secret "cx_handshakeCrypto cc"] ok known
  obtain hs m where hs: "DeriveKey L secret alg HKDF_SHA256 (cx_handshakeCrypto cc) = (hs, None)"
    "length m = cryptoAlgorithmKeySize alg + cryptoAlgorithmIVSize alg"
    "cs_privateKey hs = cs_privateKey (cx_handshakeCrypto cc)" "cs_publicKey hs = cs_publicKey (cx_handshakeCrypto cc)"
    "cs_KeyExchange hs = cs_KeyExchange (cx_handshakeCrypto cc)"
    "alg \<noteq> CRYPTO_NONE \<Longrightarrow> hkdf_sha256 L secret (cryptoAlgorithmKeySize alg + cryptoAlgorithmIVSize alg) = Some m
        \<and> cs_Key hs = take (cryptoAlgorithmKeySize alg) m"
    "alg \<noteq> CRYPTO_NONE \<Longrightarrow> 0 < cryptoAlgorithmIVSize alg \<Longrightarrow> cs_IV hs = drop (cryptoAlgorithmKeySize alg) m"
    by (auto simp: crypto_lib_ok_def known_algorithm_def)
  have iv0: "cryptoAlgorithmIVSize alg = 0" if "alg = CRYPTO_NONE" using that by simp
  have sets: "\<exists>cs'. SetKey L (cs_Key hs) (cs_IV hs) alg cs = (cs', None) \<and> keyed L alg secret cs'" for cs
  proof (intro SetKey_keyed ok known)
    show "cs_Key hs = derived_key L secret alg" "length (cs_Key hs) = cryptoAlgorithmKeySize alg" if "alg \<noteq> CRYPTO_NONE"
      using hs(2) hs(6) [OF that] by (simp_all add: derived_key_def)
    show "length (cs_IV hs) = cryptoAlgorithmIVSize alg" if "0 < cryptoAlgorithmIVSize alg"
    proof -
      have "alg \<noteq> CRYPTO_NONE" using that by auto
      with hs(2) hs(7) that show ?thesis by simp
    qed
  qed
  obtain w where w: "SetKey L (cs_Key hs) (cs_IV hs) alg (cx_writeCrypto cc) = (w, None)" "keyed L alg secret w" using sets by blast
  obtain n where n: "SetKey L (cs_Key hs) (cs_IV hs) alg NewCryptoSession = (n, None)" "keyed L alg secret n" using sets by blast
  note unf = HandshakeReadPeerKey_def Let_def
  have "HandshakeReadPeerKey L (Some peer) allowed True cc
      = Returns (cc\<lparr>cx_handshakeCrypto := hs, cx_writeCrypto := w, cx_handshakeReceiveCrypto := Some n, cx_handshakePendingConfirm := True\<rparr>,
          EN_ATBUS_ERR_SUCCESS)"
    unfolding unf using open_cc type secret hs(1) w(1) n(1) by (simp add: kdf alg [symmetric])
  with hs w n show "\<exists>hs w r. cs_publicKey hs = cs_publicKey (cx_handshakeCrypto cc) \<and> cs_privateKey hs = cs_privateKey (cx_handshakeCrypto cc)
      \<and> cs_KeyExchange hs = cs_KeyExchange (cx_handshakeCrypto cc)
      \<and> keyed L alg secret w \<and> keyed L alg secret r
      \<and> HandshakeReadPeerKey L (Some peer) allowed True cc
        = Returns (cc\<lparr>cx_handshakeCrypto := hs, cx_writeCrypto := w, cx_handshakeReceiveCrypto := Some r, cx_handshakePendingConfirm := True\<rparr>,
            EN_ATBUS_ERR_SUCCESS)" by blast
  have "\<exists>r. keyed L alg secret w \<and> keyed L alg secret r
      \<and> HandshakeReadPeerKey L (Some peer) allowed False cc
        = Returns (cc\<lparr>cx_handshakeCrypto := hs, cx_writeCrypto := w, cx_readCrypto := Some r, cx_handshakeDone := True\<rparr>, EN_ATBUS_ERR_SUCCESS)"
    if r0: "cx_readCrypto cc = Some r0" for r0
  proof -
    obtain r where r: "SetKey L (cs_Key hs) (cs_IV hs) alg r0 = (r, None)" "keyed L alg secret r" using sets by blast
    then have "HandshakeReadPeerKey L (Some peer) allowed False cc
        = Returns (cc\<lparr>cx_handshakeCrypto := hs, cx_writeCrypto := w, cx_readCrypto := Some r, cx_handshakeDone := True\<rparr>, EN_ATBUS_ERR_SUCCESS)"
      unfolding unf using open_cc type secret hs(1) w(1) r0 by (simp add: with_read_def kdf alg [symmetric])
    with w(2) r(2) show ?thesis by blast
  qed
  then show "\<exists>hs w. \<forall>r0. cx_readCrypto cc = Some r0 \<longrightarrow> (\<exists>r. keyed L alg secret w \<and> keyed L alg secret r
      \<and> HandshakeReadPeerKey L (Some peer) allowed False cc
        = Returns (cc\<lparr>cx_handshakeCrypto := hs, cx_writeCrypto := w, cx_readCrypto := Some r, cx_handshakeDone := True\<rparr>, EN_ATBUS_ERR_SUCCESS))"
    by blast
qed

definition can_exchange :: "crypto_lib \<Rightarrow> ATBUS_CRYPTO_KEY_EXCHANGE_TYPE \<Rightarrow> bytes \<Rightarrow> ConnectionContext \<Rightarrow> bool" where
  "can_exchange L kx entropy cc \<longleftrightarrow> \<not> cx_closing cc \<and> cx_supportedKeyExchange cc = kx \<and> cx_supportedKDFTypes cc = [HKDF_SHA256]
     \<and> cx_readCrypto cc \<noteq> None \<and> cx_sequence cc + 1 \<noteq> 0
     \<and> (case keyExchangeCurve kx of None \<Rightarrow> False | Some c \<Rightarrow> ecdh_GenerateKey L c entropy \<noteq> None)"

lemma GenerateSelfKey_eq:
  assumes "can_exchange L kx e cc" and "keyExchangeCurve kx = Some c" and "ecdh_GenerateKey L c e = Some k"
  shows "HandshakeGenerateSelfKey L now e sq cc =
    (cc\<lparr>cx_handshakeStartTime := now, cx_sequence := (if sq = 0 then cx_sequence cc + 1 else cx_sequence cc),
        cx_handshakeSequence := (if sq = 0 then cx_sequence cc + 1 else sq),
        cx_handshakeCrypto := (cx_handshakeCrypto cc)\<lparr>cs_privateKey := Some (c, k), cs_publicKey := Some (ecdh_PublicKey L c k), cs_KeyExchange := kx\<rparr>\<rparr>,
     EN_ATBUS_ERR_SUCCESS)"
  using assms by (simp add: can_exchange_def HandshakeGenerateSelfKey_def GenerateKeyPair_def Let_def)

lemma ComputeSharedSecret_eq:
  assumes "ecdh_ok L" and "ecdh_GenerateKey L c e = Some a" and "ecdh_GenerateKey L c e' = Some b"
    and "keyExchangeCurve kx = Some c" and "cs_privateKey hs = Some (c, a)" and "cs_KeyExchange hs = kx"
  shows "\<exists>s. ComputeSharedSecret L (ecdh_PublicKey L c b) hs = Inr s \<and> ecdh_ECDH L c a (ecdh_PublicKey L c b) = Some s
    \<and> ecdh_ECDH L c b (ecdh_PublicKey L c a) = Some s"
proof -
  from assms(1-3) obtain s where "ecdh_ValidKey L c (ecdh_PublicKey L c b)" "ecdh_ECDH L c a (ecdh_PublicKey L c b) = Some s"
    "ecdh_ECDH L c b (ecdh_PublicKey L c a) = Some s" unfolding ecdh_ok_def by blast
  with assms(4-6) show ?thesis by (simp add: ComputeSharedSecret_def)
qed

text \<open>C2: The methods of two connection contexts that support the same key exchange and can make key pairs, called in the order of a key
  exchange: the client makes a key pair and writes its public key, the server makes one for the sequence number it
  received, reads the key of the client and stages its new read session, and writes its public key with the algorithm it
  selected, and the client reads that. None of the six calls fails, and afterwards the two sides have sessions with the same
  key and the same algorithm in both directions, the one negotiated from their two lists; the client uses the new keys at
  once, the server writes with the new key but keeps reading with the session it had until the client confirms the sequence
  number, and from then on reads with the new one; the confirmation of any other number changes nothing. This is a contract of the
  contexts: \<open>SendRegister\<close> makes the first call only where \<open>GetCryptoKeyExchangeAlgorithm\<close> is not NONE, and for a new context it is NONE.\<close>

theorem handshake_agrees:
  assumes "crypto_lib_ok L" and "can_exchange L kx e1 client" and "can_exchange L kx e2 server"
  shows "\<exists>client1 req server1 server2 rsp client2.
      HandshakeGenerateSelfKey L now1 e1 0 client = (client1, EN_ATBUS_ERR_SUCCESS)
    \<and> HandshakeWriteSelfPublicKey (Some zero_crypto_handshake_data) allowC client1 = (Some req, EN_ATBUS_ERR_SUCCESS)
    \<and> HandshakeGenerateSelfKey L now2 e2 (hd_sequence req) server = (server1, EN_ATBUS_ERR_SUCCESS)
    \<and> HandshakeReadPeerKey L (Some req) allowS True server1 = Returns (server2, EN_ATBUS_ERR_SUCCESS)
    \<and> HandshakeWriteSelfPublicKey (Some zero_crypto_handshake_data) [GetCryptoSelectAlgorithm server2] server2 = (Some rsp, EN_ATBUS_ERR_SUCCESS)
    \<and> HandshakeReadPeerKey L (Some rsp) allowC False client1 = Returns (client2, EN_ATBUS_ERR_SUCCESS)
    \<and> (\<exists>secret cr sr.
        let alg = NegotiateCryptoAlgorithm allowS allowC; sq = hd_sequence rsp in
        keyed L alg secret (cx_writeCrypto client2) \<and> cx_readCrypto client2 = Some cr \<and> keyed L alg secret cr \<and> cx_handshakeDone client2
        \<and> keyed L alg secret (cx_writeCrypto server2) \<and> cx_readCrypto server2 = cx_readCrypto server
        \<and> cx_readCrypto (ConfirmHandshake sq server2) = Some sr \<and> keyed L alg secret sr \<and> cx_handshakeDone (ConfirmHandshake sq server2)
        \<and> cx_writeCrypto (ConfirmHandshake sq server2) = cx_writeCrypto server2)
    \<and> (\<forall>sq'. sq' \<noteq> hd_sequence rsp \<longrightarrow> ConfirmHandshake sq' server2 = server2)"
proof -
  obtain c a b where c: "keyExchangeCurve kx = Some c" and a: "ecdh_GenerateKey L c e1 = Some a" and b: "ecdh_GenerateKey L c e2 = Some b"
    using assms(2,3) by (auto simp: can_exchange_def split: option.splits)
  define sq where "sq = cx_sequence client + 1"
  have sq: "sq \<noteq> 0" using assms(2) by (simp add: sq_def can_exchange_def)
  define alg where "alg = NegotiateCryptoAlgorithm allowS allowC"
  define cl where "cl = client\<lparr>cx_handshakeStartTime := now1, cx_sequence := sq, cx_handshakeSequence := sq,
    cx_handshakeCrypto := (cx_handshakeCrypto client)\<lparr>cs_privateKey := Some (c, a), cs_publicKey := Some (ecdh_PublicKey L c a), cs_KeyExchange := kx\<rparr>\<rparr>"
  define sv where "sv = server\<lparr>cx_handshakeStartTime := now2, cx_handshakeSequence := sq,
    cx_handshakeCrypto := (cx_handshakeCrypto server)\<lparr>cs_privateKey := Some (c, b), cs_publicKey := Some (ecdh_PublicKey L c b), cs_KeyExchange := kx\<rparr>\<rparr>"
  define req where "req = zero_crypto_handshake_data\<lparr>hd_sequence := sq, hd_type := kx, hd_kdf_type := [HKDF_SHA256], hd_algorithms := allowC,
    hd_public_key := ecdh_PublicKey L c a\<rparr>"
  define rsp where "rsp = zero_crypto_handshake_data\<lparr>hd_sequence := sq, hd_type := kx, hd_kdf_type := [HKDF_SHA256], hd_algorithms := [alg],
    hd_public_key := ecdh_PublicKey L c b\<rparr>"
  have gen: "HandshakeGenerateSelfKey L now1 e1 0 client = (cl, EN_ATBUS_ERR_SUCCESS)"
    "HandshakeGenerateSelfKey L now2 e2 sq server = (sv, EN_ATBUS_ERR_SUCCESS)"
    unfolding GenerateSelfKey_eq [OF assms(2) c a] GenerateSelfKey_eq [OF assms(3) c b] using sq
    by (simp_all add: cl_def sv_def sq_def)
  have w1: "HandshakeWriteSelfPublicKey (Some zero_crypto_handshake_data) allowC cl = (Some req, EN_ATBUS_ERR_SUCCESS)"
    using assms(2) by (simp add: HandshakeWriteSelfPublicKey_def cl_def req_def GetPublicKey_def can_exchange_def)
  obtain secret where secret: "ecdh_ECDH L c a (ecdh_PublicKey L c b) = Some secret" "ecdh_ECDH L c b (ecdh_PublicKey L c a) = Some secret"
    using assms(1) a b unfolding crypto_lib_ok_def ecdh_ok_def by blast
  have "ComputeSharedSecret L (hd_public_key req) (cx_handshakeCrypto sv) = Inr secret"
    "ComputeSharedSecret L (hd_public_key rsp) (cx_handshakeCrypto cl) = Inr secret"
    using ComputeSharedSecret_eq [OF _ b a c, of "cx_handshakeCrypto sv"] ComputeSharedSecret_eq [OF _ a b c, of "cx_handshakeCrypto cl"] assms(1) secret
    by (auto simp: crypto_lib_ok_def req_def rsp_def sv_def cl_def)
  note sec = this
  have side: "\<not> cx_closing sv" "hd_type req = cx_supportedKeyExchange sv" "NegotiateKDF (cx_supportedKDFTypes sv) (hd_kdf_type req) = HKDF_SHA256"
    "alg = NegotiateCryptoAlgorithm allowS (hd_algorithms req)"
    "\<not> cx_closing cl" "hd_type rsp = cx_supportedKeyExchange cl" "NegotiateKDF (cx_supportedKDFTypes cl) (hd_kdf_type rsp) = HKDF_SHA256"
    "alg = NegotiateCryptoAlgorithm allowC (hd_algorithms rsp)"
    using assms(2,3) NegotiateCryptoAlgorithm_answer [of allowC allowS]
    by (simp_all add: can_exchange_def sv_def cl_def req_def rsp_def alg_def NegotiateKDF_def)
  obtain hs w r where s1: "cs_publicKey hs = Some (ecdh_PublicKey L c b)" "keyed L alg secret w" "keyed L alg secret r"
    "HandshakeReadPeerKey L (Some req) allowS True sv
      = Returns (sv\<lparr>cx_handshakeCrypto := hs, cx_writeCrypto := w, cx_handshakeReceiveCrypto := Some r, cx_handshakePendingConfirm := True\<rparr>, EN_ATBUS_ERR_SUCCESS)"
    using HandshakeReadPeerKey_success(1) [OF assms(1) side(1,2) sec(1) side(3,4)] by (auto simp: sv_def)
  define sv' where "sv' = sv\<lparr>cx_handshakeCrypto := hs, cx_writeCrypto := w, cx_handshakeReceiveCrypto := Some r, cx_handshakePendingConfirm := True\<rparr>"
  have "GetCryptoSelectAlgorithm sv' = alg"
    using s1(2) by (simp add: GetCryptoSelectAlgorithm_def sv'_def IsInitialized_def keyed_def session_ready_def)
  then have w2: "HandshakeWriteSelfPublicKey (Some zero_crypto_handshake_data) [GetCryptoSelectAlgorithm sv'] sv' = (Some rsp, EN_ATBUS_ERR_SUCCESS)"
    using assms(3) s1(1) by (simp add: HandshakeWriteSelfPublicKey_def sv'_def sv_def rsp_def GetPublicKey_def can_exchange_def)
  obtain r0 where r0: "cx_readCrypto cl = Some r0" using assms(2) by (auto simp: can_exchange_def cl_def)
  obtain hs' w' r' where c1: "keyed L alg secret w'" "keyed L alg secret r'"
    "HandshakeReadPeerKey L (Some rsp) allowC False cl
      = Returns (cl\<lparr>cx_handshakeCrypto := hs', cx_writeCrypto := w', cx_readCrypto := Some r', cx_handshakeDone := True\<rparr>, EN_ATBUS_ERR_SUCCESS)"
    using HandshakeReadPeerKey_success(2) [OF assms(1) side(5,6) sec(2) side(7,8)] r0 by blast
  define cl' where "cl' = cl\<lparr>cx_handshakeCrypto := hs', cx_writeCrypto := w', cx_readCrypto := Some r', cx_handshakeDone := True\<rparr>"
  have seqs: "hd_sequence req = sq" "hd_sequence rsp = sq" by (simp_all add: req_def rsp_def)
  have gen2: "HandshakeGenerateSelfKey L now2 e2 (hd_sequence req) server = (sv, EN_ATBUS_ERR_SUCCESS)" unfolding seqs by (rule gen(2))
  have reads: "HandshakeReadPeerKey L (Some req) allowS True sv = Returns (sv', EN_ATBUS_ERR_SUCCESS)"
    "HandshakeReadPeerKey L (Some rsp) allowC False cl = Returns (cl', EN_ATBUS_ERR_SUCCESS)"
    unfolding sv'_def cl'_def by (rule s1(4), rule c1(3))
  have sv'_fields: "cx_readCrypto sv' = cx_readCrypto server" "cx_writeCrypto sv' = w" "cx_handshakeSequence sv' = sq"
    "cx_handshakePendingConfirm sv'" "cx_handshakeReceiveCrypto sv' = Some r" by (simp_all add: sv'_def sv_def)
  have cl'_fields: "cx_writeCrypto cl' = w'" "cx_readCrypto cl' = Some r'" "cx_handshakeDone cl'" by (simp_all add: cl'_def)
  have confirm: "cx_readCrypto (ConfirmHandshake sq sv') = Some r" "cx_handshakeDone (ConfirmHandshake sq sv')"
    "cx_writeCrypto (ConfirmHandshake sq sv') = w" "\<forall>sq'. sq' \<noteq> sq \<longrightarrow> ConfirmHandshake sq' sv' = sv'"
    using sv'_fields by (auto simp: ConfirmHandshake_def)
  show ?thesis
    unfolding Let_def alg_def [symmetric]
    apply (rule exI [of _ cl], rule exI [of _ req], rule exI [of _ sv], rule exI [of _ sv'], rule exI [of _ rsp], rule exI [of _ cl'])
    apply (intro conjI, rule gen(1), rule w1, rule gen2, rule reads(1), rule w2, rule reads(2))
     apply (rule exI [of _ secret], rule exI [of _ r'], rule exI [of _ r])
     apply (simp only: seqs cl'_fields sv'_fields confirm(1-3) s1(2,3) c1(1,2) simp_thms)
    apply (unfold seqs, rule confirm(4))
    done
qed

theorem handshake_agrees_witness:
  "\<exists>client1 req server1 server2 rsp client2.
      HandshakeGenerateSelfKey sample_lib 7 [1, 2] 0 (NewConnectionContext X25519) = (client1, EN_ATBUS_ERR_SUCCESS)
    \<and> HandshakeWriteSelfPublicKey (Some zero_crypto_handshake_data) [AES_128_GCM, XXTEA] client1 = (Some req, EN_ATBUS_ERR_SUCCESS)
    \<and> HandshakeGenerateSelfKey sample_lib 8 [3, 4] (hd_sequence req) (NewConnectionContext X25519) = (server1, EN_ATBUS_ERR_SUCCESS)
    \<and> HandshakeReadPeerKey sample_lib (Some req) [XXTEA, AES_128_GCM] True server1 = Returns (server2, EN_ATBUS_ERR_SUCCESS)
    \<and> HandshakeReadPeerKey sample_lib (Some rsp) [AES_128_GCM, XXTEA] False client1 = Returns (client2, EN_ATBUS_ERR_SUCCESS)
    \<and> cs_Algorithm (cx_writeCrypto client2) = AES_128_GCM \<and> cx_handshakeDone (ConfirmHandshake (hd_sequence rsp) server2)"
proof -
  have can: "can_exchange sample_lib X25519 [1, 2] (NewConnectionContext X25519)" "can_exchange sample_lib X25519 [3, 4] (NewConnectionContext X25519)"
    by (simp_all add: can_exchange_def NewConnectionContext_def sample_lib_def Let_def)
  have "cs_Algorithm s = AES_128_GCM" if "keyed sample_lib (NegotiateCryptoAlgorithm [XXTEA, AES_128_GCM] [AES_128_GCM, XXTEA]) secret s" for secret s
  proof -
    have "NegotiateCryptoAlgorithm [XXTEA, AES_128_GCM] [AES_128_GCM, XXTEA] = AES_128_GCM" by code_simp
    with that show ?thesis by (simp add: keyed_def)
  qed
  with handshake_agrees [OF sample_lib_ok can, of 7 "[AES_128_GCM, XXTEA]" 8 "[XXTEA, AES_128_GCM]"] show ?thesis
    unfolding Let_def by blast
qed

end
