(* ===== verification/Message_Codec.thy ===== *)
theory Message_Codec
  imports Connection_Context Vint Buffer_Block Frame_Codec
begin

section \<open>Packing and unpacking messages (impl/atbus\_connection\_context.go)\<close>

text \<open>
  A message on the wire is the length of its head, its head and its body, the body compressed and encrypted as the context decides
  and the head says. The encoding of protobuf messages is a parameter (\<open>proto_lib\<close>); what is assumed of it and of the compression is
  that decoding inverts encoding (\<open>proto_ok\<close>, \<open>compression_ok\<close>).
\<close>

subsection \<open>Packing\<close>

record proto_lib =
  size_body :: "message_body \<Rightarrow> nat"
  marshal_head :: "message_head \<Rightarrow> bytes option"
  marshal_body :: "message_body \<Rightarrow> bytes option"
  unmarshal_head :: "bytes \<Rightarrow> message_head \<times> bool"
  unmarshal_body :: "bytes \<Rightarrow> message_body \<times> bool"

text \<open>
  \<open>proto.Unmarshal\<close> fills the message as far as it gets and reports whether it got to the end: a pair here. \<open>proto.Marshal\<close> fails
  for strings that are not UTF-8.
\<close>

definition allowCrypto :: "MessageBodyType \<Rightarrow> bool" where
  "allowCrypto bodyType \<longleftrightarrow>
     bodyType \<notin> {MessageBodyTypeNodeRegisterReq, MessageBodyTypeNodeRegisterRsp, MessageBodyTypeNodePingReq,
       MessageBodyTypeNodePongRsp, MessageBodyTypeHandshakeConfirm}"

definition allowCompress :: "MessageBodyType \<Rightarrow> int \<Rightarrow> bool" where
  "allowCompress messageType bodySize =
     (if bodySize \<le> 512 then False
      else if messageType \<in> {MessageBodyTypeDataTransformReq, MessageBodyTypeDataTransformRsp, MessageBodyTypeCustomCommandReq,
             MessageBodyTypeCustomCommandRsp} then 1024 \<le> bodySize
      else 2048 \<le> bodySize)"

text \<open>
  The block has at least \<open>totalSize\<close> bytes, so the offsets of the copies are inside it. The result is the block, nil (\<^term>\<open>None\<close>) with
  an error code.
\<close>

definition packMessageOrigin :: "proto_lib \<Rightarrow> Message \<Rightarrow> StaticBufferBlock option \<times> ErrorType" where
  "packMessageOrigin P m =
     (case msg_head m of None \<Rightarrow> (None, EN_ATBUS_ERR_PACK) | Some head \<Rightarrow>
      let body = msg_body m; bodySize = int_of_uint64 (mh_body_size head) in
      case marshal_head P head of None \<Rightarrow> (None, EN_ATBUS_ERR_PACK) | Some headBytes \<Rightarrow>
        let headSize = length headBytes;
            headVintSize = VintEncodedSize (word_of_nat headSize);
            totalSize = wrap64 (int headVintSize + int headSize + bodySize)
        in case AllocateTemporaryBufferBlock totalSize of None \<Rightarrow> (None, EN_ATBUS_ERR_MALLOC) | Some buf \<Rightarrow>
          let (vintWritten, data) = WriteVint (word_of_nat headSize) (sbb_data buf) in
          if vintWritten \<noteq> headVintSize then (None, EN_ATBUS_ERR_PACK)
          else
            let data = copy_at headVintSize headBytes data;
                odata = (case body of
                    Some b \<Rightarrow>
                      if 0 < bodySize
                      then map_option (\<lambda>bodyBytes. copy_at (headVintSize + headSize) bodyBytes data) (marshal_body P b)
                      else Some data
                  | None \<Rightarrow> Some data)
            in case odata of
                 None \<Rightarrow> (None, EN_ATBUS_ERR_PACK)
               | Some data \<Rightarrow> (StaticBufferBlock_SetUsed totalSize (Some (buf\<lparr>sbb_data := data\<rparr>)), EN_ATBUS_ERR_SUCCESS))"

text \<open>The first step of \<open>packMessageWith\<close>: compression, with the algorithm that was really used and the compressed size.\<close>

definition pack_compress ::
  "compression_lib \<Rightarrow> ATBUS_COMPRESSION_ALGORITHM_TYPE \<Rightarrow> bytes \<Rightarrow> ConnectionContext
    \<Rightarrow> ErrorType + (bytes \<times> ATBUS_COMPRESSION_ALGORITHM_TYPE \<times> nat)" where
  "pack_compress Z compressionAlg originBodyBytes cc =
     (if compressionAlg \<noteq> COMPRESSION_NONE \<and> 0 < length originBodyBytes then
        if \<not> compressionAlgorithmSupported Z compressionAlg then Inl EN_ATBUS_ERR_COMPRESSION_ALGORITHM_NOT_SUPPORT
        else case Compress Z originBodyBytes (cx_compression cc) of
          Inl err \<Rightarrow>
            if err = ErrCompressionNotSupported then Inl EN_ATBUS_ERR_COMPRESSION_ALGORITHM_NOT_SUPPORT else Inl EN_ATBUS_ERR_PACK
        | Inr compressed \<Rightarrow>
            if 0 < length compressed \<and> length compressed < length originBodyBytes
            then Inr (compressed, compressionAlg, length compressed)
            else Inr (originBodyBytes, COMPRESSION_NONE, 0)
      else Inr (originBodyBytes, compressionAlg, 0))"

text \<open>The second step: encryption, which records algorithm and initial vector in the head.\<close>

definition pack_encrypt ::
  "crypto_lib \<Rightarrow> (nat \<Rightarrow> bytes option) \<Rightarrow> ATBUS_CRYPTO_ALGORITHM_TYPE \<Rightarrow> bytes \<Rightarrow> message_head \<Rightarrow> ConnectionContext
    \<Rightarrow> ConnectionContext \<times> message_head \<times> (ErrorType + bytes)" where
  "pack_encrypt L rnd cryptoAlg processedBody head cc =
     (if cryptoAlg = CRYPTO_NONE then (cc, head, Inr processedBody)
      else if \<not> IsInitialized (cx_writeCrypto cc) \<or> cryptoAlg \<noteq> cs_Algorithm (cx_writeCrypto cc)
      then (cc, head, Inl EN_ATBUS_ERR_CRYPTO_ALGORITHM_NOT_MATCH)
      else
        let crypto = (case mh_crypto head of None \<Rightarrow> zero_message_head_crypto | Some c \<Rightarrow> c);
            crypto = crypto\<lparr>mc_algorithm := cryptoAlg\<rparr>;
            head = head\<lparr>mh_crypto := Some crypto\<rparr>;
            ivSize = cryptoAlgorithmIVSize cryptoAlg
        in if cryptoAlgorithmIsAEAD cryptoAlg then
             case rand_read rnd ivSize of None \<Rightarrow> (cc, head, Inl EN_ATBUS_ERR_CRYPTO_ENCRYPT) | Some iv \<Rightarrow>
               let head = head\<lparr>mh_crypto := Some (crypto\<lparr>mc_iv := iv\<rparr>)\<rparr> in
               (case EncryptWithIVAndAAD L processedBody iv (mc_aad crypto) (cx_writeCrypto cc) of
                  Inl _ \<Rightarrow> (cc, head, Inl EN_ATBUS_ERR_CRYPTO_ENCRYPT)
                | Inr encrypted \<Rightarrow> (cc, head, Inr encrypted))
           else if 0 < ivSize then
             case rand_read rnd ivSize of None \<Rightarrow> (cc, head, Inl EN_ATBUS_ERR_CRYPTO_ENCRYPT) | Some iv \<Rightarrow>
               let head = head\<lparr>mh_crypto := Some (crypto\<lparr>mc_iv := iv\<rparr>)\<rparr> in
               (case EncryptWithIV L processedBody iv (cx_writeCrypto cc) of
                  Inl _ \<Rightarrow> (cc, head, Inl EN_ATBUS_ERR_CRYPTO_ENCRYPT)
                | Inr encrypted \<Rightarrow> (cc, head, Inr encrypted))
           else
             let head = head\<lparr>mh_crypto := Some (crypto\<lparr>mc_iv := []\<rparr>)\<rparr>;
                 (w, r) = Encrypt L rnd processedBody (cx_writeCrypto cc);
                 cc = cc\<lparr>cx_writeCrypto := w\<rparr>
             in case r of Inl _ \<Rightarrow> (cc, head, Inl EN_ATBUS_ERR_CRYPTO_ENCRYPT) | Inr encrypted \<Rightarrow> (cc, head, Inr encrypted))"

text \<open>The last step: head and processed body behind the length of the head.\<close>

definition pack_frame :: "proto_lib \<Rightarrow> message_head \<Rightarrow> bytes \<Rightarrow> StaticBufferBlock option \<times> ErrorType" where
  "pack_frame P head processedBody =
     (case marshal_head P head of None \<Rightarrow> (None, EN_ATBUS_ERR_PACK) | Some headBytes \<Rightarrow>
      let headSize = length headBytes;
          headVintSize = VintEncodedSize (word_of_nat headSize);
          totalSize = wrap64 (int headVintSize + int headSize + int (length processedBody))
      in case AllocateTemporaryBufferBlock totalSize of None \<Rightarrow> (None, EN_ATBUS_ERR_MALLOC) | Some buf \<Rightarrow>
        let (_, data) = WriteVint (word_of_nat headSize) (sbb_data buf);
            data = copy_at headVintSize headBytes data;
            data = copy_at (headVintSize + headSize) processedBody data
        in (StaticBufferBlock_SetUsed totalSize (Some (buf\<lparr>sbb_data := data\<rparr>)), EN_ATBUS_ERR_SUCCESS))"

definition packMessageWith ::
  "crypto_lib \<Rightarrow> compression_lib \<Rightarrow> proto_lib \<Rightarrow> (nat \<Rightarrow> bytes option) \<Rightarrow> ATBUS_COMPRESSION_ALGORITHM_TYPE
    \<Rightarrow> ATBUS_CRYPTO_ALGORITHM_TYPE \<Rightarrow> Message \<Rightarrow> ConnectionContext
    \<Rightarrow> ConnectionContext \<times> Message \<times> StaticBufferBlock option \<times> ErrorType" where
  "packMessageWith L Z P rnd compressionAlg cryptoAlg m cc =
     (let (m, head) = MutableHead m;
          bodySize = int_of_uint64 (mh_body_size head);
          oorigin = (case msg_body m of
              Some b \<Rightarrow> if 0 < bodySize then marshal_body P b else Some []
            | None \<Rightarrow> Some [])
      in case oorigin of None \<Rightarrow> (cc, m, None, EN_ATBUS_ERR_PACK) | Some originBodyBytes \<Rightarrow>
         case pack_compress Z compressionAlg originBodyBytes cc of Inl e \<Rightarrow> (cc, m, None, e)
         | Inr (processedBody, compressionAlg, compressedSize) \<Rightarrow>
             let (cc, head, r) = pack_encrypt L rnd cryptoAlg processedBody head cc;
                 m = m\<lparr>msg_head := Some head\<rparr>
             in case r of Inl e \<Rightarrow> (cc, m, None, e)
                | Inr processedBody \<Rightarrow>
                    let head = (if compressionAlg \<noteq> COMPRESSION_NONE
                                then head\<lparr>mh_compression := Some \<lparr>mz_type = compressionAlg, mz_original_size = word_of_nat compressedSize\<rparr>\<rparr>
                                else head);
                        m = m\<lparr>msg_head := Some head\<rparr>
                    in (cc, m, pack_frame P head processedBody))"

definition PackMessage ::
  "crypto_lib \<Rightarrow> compression_lib \<Rightarrow> proto_lib \<Rightarrow> (nat \<Rightarrow> bytes option) \<Rightarrow> Message option \<Rightarrow> int \<Rightarrow> int \<Rightarrow> ConnectionContext
    \<Rightarrow> ConnectionContext \<times> Message option \<times> StaticBufferBlock option \<times> ErrorType" where
  "PackMessage L Z P rnd om protocolVersion maxBodySize cc =
     (if cx_closing cc then (cc, om, None, EN_ATBUS_ERR_CHANNEL_CLOSING)
      else case om of None \<Rightarrow> (cc, None, None, EN_ATBUS_ERR_PARAMS) | Some m \<Rightarrow>
        let bodySize = (case msg_body m of None \<Rightarrow> 0 | Some b \<Rightarrow> int (size_body P b));
            bodyType = GetBodyType (Some m);
            cryptoAlg = (if allowCrypto bodyType \<and> IsInitialized (cx_writeCrypto cc) then cs_Algorithm (cx_writeCrypto cc) else CRYPTO_NONE);
            compressionAlg = (if allowCompress bodyType bodySize then CompressionSession_GetAlgorithm (cx_compression cc) else COMPRESSION_NONE)
        in if 0 < maxBodySize \<and> maxBodySize < bodySize then (cc, Some m, None, EN_ATBUS_ERR_INVALID_SIZE)
           else
             let (m, head) = MutableHead m;
                 m = m\<lparr>msg_head := Some (head\<lparr>mh_version := protocolVersion, mh_body_size := word_of_int bodySize\<rparr>)\<rparr>
             in if compressionAlg = COMPRESSION_NONE \<and> cryptoAlg = CRYPTO_NONE then (cc, Some m, packMessageOrigin P m)
                else let (cc, m, r) = packMessageWith L Z P rnd compressionAlg cryptoAlg m cc in (cc, Some m, r))"

subsection \<open>Unpacking\<close>

definition unpack_decrypt :: "crypto_lib \<Rightarrow> message_head_crypto option \<Rightarrow> bytes \<Rightarrow> ConnectionContext \<Rightarrow> (ErrorType + bytes) outcome" where
  "unpack_decrypt L cryptoInfo nextBlock cc =
     (case cryptoInfo of None \<Rightarrow> Returns (Inr nextBlock) | Some info \<Rightarrow>
      if mc_algorithm info = CRYPTO_NONE then Returns (Inr nextBlock)
      else with_read cc (\<lambda>r.
        if \<not> IsInitialized r \<or> mc_algorithm info \<noteq> cs_Algorithm r then Returns (Inl EN_ATBUS_ERR_CRYPTO_ALGORITHM_NOT_MATCH)
        else
          let ivSize = cryptoAlgorithmIVSize (mc_algorithm info);
              decrypted =
                (if cryptoAlgorithmIsAEAD (mc_algorithm info) then
                   if length (mc_iv info) \<noteq> ivSize then Returns (Inl ErrCryptoInvalidIVSize)
                   else Returns (DecryptWithIVAndAAD L nextBlock (mc_iv info) (mc_aad info) r)
                 else if 0 < ivSize then
                   if length (mc_iv info) \<noteq> ivSize then Returns (Inl ErrCryptoInvalidIVSize)
                   else DecryptWithIV L nextBlock (mc_iv info) r
                 else Decrypt L nextBlock r)
          in bind_outcome decrypted (\<lambda>d.
               case d of Inl _ \<Rightarrow> Returns (Inl EN_ATBUS_ERR_CRYPTO_DECRYPT) | Inr b \<Rightarrow> Returns (Inr b))))"

definition unpack_decompress :: "compression_lib \<Rightarrow> message_head_compression option \<Rightarrow> uint64 \<Rightarrow> bytes \<Rightarrow> ErrorType + bytes" where
  "unpack_decompress Z compressionInfo bodySize nextBlock =
     (case compressionInfo of None \<Rightarrow> Inr nextBlock | Some info \<Rightarrow>
      if mz_type info = COMPRESSION_NONE then Inr nextBlock
      else if \<not> compressionAlgorithmSupported Z (mz_type info) then Inl EN_ATBUS_ERR_COMPRESSION_ALGORITHM_NOT_SUPPORT
      else let compressedSize = int_of_uint64 (mz_original_size info) in
        if compressedSize \<le> 0 \<or> int (length nextBlock) < compressedSize then Inl EN_ATBUS_ERR_INVALID_SIZE
        else let (decompressed, code) =
                   lib_Decompress Z (compressionAlgorithmToAdapter (mz_type info)) (take (nat compressedSize) nextBlock) (int_of_uint64 bodySize)
             in case code of
                  ErrorCodeOk \<Rightarrow> Inr decompressed
                | ErrorCodeNotSupport \<Rightarrow> Inl EN_ATBUS_ERR_COMPRESSION_ALGORITHM_NOT_SUPPORT
                | ErrorCodeDisabled \<Rightarrow> Inl EN_ATBUS_ERR_COMPRESSION_ALGORITHM_NOT_SUPPORT
                | ErrorCodeOther \<Rightarrow> Inl EN_ATBUS_ERR_UNPACK)"

definition unpack_body ::
  "crypto_lib \<Rightarrow> compression_lib \<Rightarrow> proto_lib \<Rightarrow> message_head \<Rightarrow> bytes \<Rightarrow> Message \<Rightarrow> ConnectionContext \<Rightarrow> (Message \<times> ErrorType) outcome" where
  "unpack_body L Z P head nextBlock m cc =
     bind_outcome (unpack_decrypt L (mh_crypto head) nextBlock cc) (\<lambda>r.
       case r of Inl e \<Rightarrow> Returns (m, e) | Inr nextBlock \<Rightarrow>
         case unpack_decompress Z (mh_compression head) (mh_body_size head) nextBlock of Inl e \<Rightarrow> Returns (m, e)
         | Inr nextBlock \<Rightarrow>
             if int (length nextBlock) < int_of_uint64 (mh_body_size head) then Returns (m, EN_ATBUS_ERR_INVALID_SIZE)
             else bind_outcome (slice nextBlock 0 (uint (mh_body_size head))) (\<lambda>bodyBytes.
               let (body, ok) = unmarshal_body P bodyBytes; m = m\<lparr>msg_body := Some body\<rparr> in
               if ok then Returns (m, EN_ATBUS_ERR_SUCCESS) else Returns (m, EN_ATBUS_ERR_UNPACK)))"

definition UnpackMessage ::
  "crypto_lib \<Rightarrow> compression_lib \<Rightarrow> proto_lib \<Rightarrow> Message option \<Rightarrow> bytes \<Rightarrow> int \<Rightarrow> ConnectionContext
    \<Rightarrow> (Message option \<times> ErrorType) outcome" where
  "UnpackMessage L Z P om input maxBodySize cc =
     (if cx_closing cc then Returns (om, EN_ATBUS_ERR_CHANNEL_CLOSING)
      else case om of None \<Rightarrow> Returns (None, EN_ATBUS_ERR_PARAMS) | Some m \<Rightarrow>
        if length input = 0 then Returns (Some m, EN_ATBUS_ERR_PARAMS)
        else if 0 < maxBodySize \<and> wrap64 (maxBodySize + 256) < int (length input) then Returns (Some m, EN_ATBUS_ERR_INVALID_SIZE)
        else let (headSize, headVintSize) = ReadVint input in
          if headVintSize = 0 then Returns (Some m, EN_ATBUS_ERR_INVALID_SIZE)
          else let headEnd = wrap64 (int_of_uint64 headSize + int headVintSize) in
            if int (length input) < headEnd then Returns (Some m, EN_ATBUS_ERR_INVALID_SIZE)
            else bind_outcome (slice input (int headVintSize) headEnd) (\<lambda>headBytes.
              let (head, ok) = unmarshal_head P headBytes; m = m\<lparr>msg_head := Some head\<rparr> in
              if \<not> ok then Returns (Some m, EN_ATBUS_ERR_UNPACK)
              else if mh_body_size head = 0 then Returns (Some m, EN_ATBUS_ERR_SUCCESS)
              else if 0 < maxBodySize \<and> wrap64 (maxBodySize + 256) < int_of_uint64 (mh_body_size head)
              then Returns (Some m, EN_ATBUS_ERR_INVALID_SIZE)
              else bind_outcome (slice input headEnd (int (length input))) (\<lambda>nextBlock.
                map_outcome_val (\<lambda>(m, e). (Some m, e)) (unpack_body L Z P head nextBlock m cc))))"

subsection \<open>The layout of a packed message\<close>

definition msg_bytes :: "bytes \<Rightarrow> bytes \<Rightarrow> bytes" where
  "msg_bytes headBytes body = vint_bytes (word_of_nat (length headBytes)) @ headBytes @ body"

lemma length_msg_bytes:
  "length (msg_bytes h b) = VintEncodedSize (word_of_nat (length h)) + length h + length b"
  by (simp add: msg_bytes_def VintEncodedSize_vint_bytes)

lemma copy_at_Nil: "copy_at i [] xs = xs"
  by (simp add: copy_at_def)

lemma pack_layout:
  assumes "int (length (msg_bytes h b)) < 2 ^ 63"
  defines "n \<equiv> VintEncodedSize (word_of_nat (length h))"
  defines "total_size \<equiv> wrap64 (int n + int (length h) + int (length b))"
  shows "\<exists>buf data. AllocateTemporaryBufferBlock total_size = Some buf \<and> WriteVint (word_of_nat (length h)) (sbb_data buf) = (n, data)
    \<and> StaticBufferBlock_UsedSpan (StaticBufferBlock_SetUsed total_size (Some (buf\<lparr>sbb_data := copy_at (n + length h) b (copy_at n h data)\<rparr>)))
        = Returns (msg_bytes h b)"
proof -
  let ?v = "vint_bytes (word_of_nat (length h))"
  have n: "n = length ?v" by (simp add: n_def VintEncodedSize_vint_bytes)
  have total_eq: "total_size = int (length (msg_bytes h b))"
    using assms(1) unfolding total_size_def length_msg_bytes n_def by simp
  have "msg_bytes h b \<noteq> []" by (simp add: msg_bytes_def vint_bytes_def)
  then have gt: "0 < total_size" unfolding total_eq by simp
  define real where "real = MimallocPaddingSize total_size"
  have real: "total_size \<le> real" using MimallocPaddingSize_covers [of total_size] by (simp add: real_def)
  define buf where "buf = \<lparr>sbb_data = make_bytes (nat real), sbb_size = real, sbb_used = total_size\<rparr>"
  have alloc: "AllocateTemporaryBufferBlock total_size = Some buf"
    using gt by (simp add: AllocateTemporaryBufferBlock_def buf_def real_def Let_def)
  have room: "length (msg_bytes h b) \<le> length (sbb_data buf)" using real total_eq by (simp add: buf_def)
  define d0 where "d0 = ?v @ drop (length ?v) (sbb_data buf)"
  have w: "WriteVint (word_of_nat (length h)) (sbb_data buf) = (n, d0)"
    unfolding d0_def n using room by (intro WriteVint_fits) (simp add: msg_bytes_def)
  define d1 where "d1 = copy_at n h d0"
  have d1: "d1 = ?v @ h @ drop (length ?v + length h) (sbb_data buf)"
    using room by (simp add: d1_def d0_def n copy_at_def msg_bytes_def add.commute)
  define d2 where "d2 = copy_at (n + length h) b d1"
  have d2: "d2 = msg_bytes h b @ drop (length (msg_bytes h b)) (sbb_data buf)"
    using room by (simp add: d2_def d1 n copy_at_def msg_bytes_def ac_simps)
  define blk where "blk = buf\<lparr>sbb_data := d2, sbb_used := total_size\<rparr>"
  have set_used: "StaticBufferBlock_SetUsed total_size (Some (buf\<lparr>sbb_data := d2\<rparr>)) = Some blk"
    using gt real by (simp add: StaticBufferBlock_SetUsed_def blk_def buf_def Let_def)
  have len2: "length d2 = nat real" unfolding d2_def d1_def d0_def using room by (simp add: buf_def msg_bytes_def)
  have "sbb_wf blk" using gt real len2 by (simp add: sbb_wf_def blk_def buf_def)
  moreover have "sbb_content blk = msg_bytes h b" by (simp add: sbb_content_def blk_def total_eq d2)
  ultimately have span: "StaticBufferBlock_UsedSpan (Some blk) = Returns (msg_bytes h b)" by (simp add: StaticBufferBlock_UsedSpan_content)
  from alloc w set_used span show ?thesis by (simp add: d1_def [symmetric] d2_def [symmetric])
qed

lemma pack_frame_ok:
  assumes "marshal_head P head = Some hb" and "int (length (msg_bytes hb enc)) < 2 ^ 63"
  shows "\<exists>blk. pack_frame P head enc = (blk, EN_ATBUS_ERR_SUCCESS) \<and> StaticBufferBlock_UsedSpan blk = Returns (msg_bytes hb enc)"
proof -
  obtain buf data where
    "AllocateTemporaryBufferBlock (wrap64 (int (VintEncodedSize (word_of_nat (length hb))) + int (length hb) + int (length enc))) = Some buf"
    "WriteVint (word_of_nat (length hb)) (sbb_data buf) = (VintEncodedSize (word_of_nat (length hb)), data)"
    "StaticBufferBlock_UsedSpan (StaticBufferBlock_SetUsed (wrap64 (int (VintEncodedSize (word_of_nat (length hb))) + int (length hb) + int (length enc)))
       (Some (buf\<lparr>sbb_data := copy_at (VintEncodedSize (word_of_nat (length hb)) + length hb) enc
          (copy_at (VintEncodedSize (word_of_nat (length hb))) hb data)\<rparr>))) = Returns (msg_bytes hb enc)"
    using pack_layout [OF assms(2)] by blast
  then show ?thesis unfolding pack_frame_def assms(1) option.case Let_def by simp
qed

lemma packMessageOrigin_ok:
  assumes "msg_head m = Some head" and "msg_body m = Some b" and "marshal_head P head = Some hb" and "marshal_body P b = Some body"
    and "int_of_uint64 (mh_body_size head) = int (length body)" and "int (length (msg_bytes hb body)) < 2 ^ 63"
  shows "\<exists>blk. packMessageOrigin P m = (blk, EN_ATBUS_ERR_SUCCESS) \<and> StaticBufferBlock_UsedSpan blk = Returns (msg_bytes hb body)"
proof -
  define n where "n = VintEncodedSize (word_of_nat (length hb))"
  define total_size where "total_size = wrap64 (int n + int (length hb) + int (length body))"
  obtain buf data where buf: "AllocateTemporaryBufferBlock total_size = Some buf" "WriteVint (word_of_nat (length hb)) (sbb_data buf) = (n, data)"
    "StaticBufferBlock_UsedSpan (StaticBufferBlock_SetUsed total_size
       (Some (buf\<lparr>sbb_data := copy_at (n + length hb) body (copy_at n hb data)\<rparr>))) = Returns (msg_bytes hb body)"
    using pack_layout [OF assms(6)] unfolding n_def [symmetric] total_size_def [symmetric] by blast
  define data' where "data' = copy_at (n + length hb) body (copy_at n hb data)"
  have body: "(if 0 < int (length body) then map_option (\<lambda>x. copy_at (n + length hb) x (copy_at n hb data)) (marshal_body P b)
      else Some (copy_at n hb data)) = Some data'"
    using assms(4) by (simp add: data'_def copy_at_Nil)
  have "packMessageOrigin P m = (StaticBufferBlock_SetUsed total_size (Some (buf\<lparr>sbb_data := data'\<rparr>)), EN_ATBUS_ERR_SUCCESS)"
    unfolding packMessageOrigin_def assms(1-3,5) option.case Let_def n_def [symmetric] total_size_def [symmetric] buf(1,2) prod.case body
    by simp
  with buf(3) show ?thesis unfolding data'_def by auto
qed

subsection \<open>What is assumed of the libraries\<close>

text \<open>A protobuf message has less than two gigabytes, so its encoding has; a compressor that is supported compresses.\<close>

definition proto_ok :: "proto_lib \<Rightarrow> bool" where
  "proto_ok P \<longleftrightarrow>
     (\<forall>b x. marshal_body P b = Some x \<longrightarrow> size_body P b = length x \<and> unmarshal_body P x = (b, True) \<and> length x < 2 ^ 31)
     \<and> (\<forall>h x. marshal_head P h = Some x \<longrightarrow> unmarshal_head P x = (h, True) \<and> length x < 2 ^ 31)
     \<and> marshal_body P BodyNone = Some []"

definition compression_ok :: "compression_lib \<Rightarrow> bool" where
  "compression_ok Z \<longleftrightarrow>
     (\<forall>a p. lib_IsAlgorithmSupported Z a \<longrightarrow> (\<exists>c. lib_Compress Z a p = (c, ErrorCodeOk) \<and> lib_Decompress Z a c (int (length p)) = (p, ErrorCodeOk)))"

subsection \<open>Round trip\<close>

text \<open>
  Two contexts are linked from a sender to a receiver when the sender does not encrypt, or its write session and the read session of the
  receiver are ready with the same key, and when the algorithm the sender compresses with is supported.
\<close>

definition linked :: "crypto_lib \<Rightarrow> compression_lib \<Rightarrow> ConnectionContext \<Rightarrow> ConnectionContext \<Rightarrow> bool" where
  "linked L Z cc cc' \<longleftrightarrow> \<not> cx_closing cc \<and> \<not> cx_closing cc'
     \<and> compressionAlgorithmSupported Z (zs_Algorithm (cx_compression cc))
     \<and> (cs_initialized (cx_writeCrypto cc) \<longrightarrow> session_ready L (cx_writeCrypto cc)
          \<and> (case cx_readCrypto cc' of None \<Rightarrow> False | Some r \<Rightarrow> session_ready L r \<and> same_key (cx_writeCrypto cc) r))"

text \<open>
  What the sender may note in a head: the algorithm of its write session with an initial vector, and the algorithm of its compression
  with a size. The heads of the messages it sends can be encoded with every such note.
\<close>

definition crypto_note :: "ConnectionContext \<Rightarrow> message_head_crypto option \<Rightarrow> bool" where
  "crypto_note cc c \<longleftrightarrow> c = None
     \<or> (cs_initialized (cx_writeCrypto cc)
        \<and> (\<exists>iv. length iv = cryptoAlgorithmIVSize (cs_Algorithm (cx_writeCrypto cc))
              \<and> c = Some \<lparr>mc_algorithm = cs_Algorithm (cx_writeCrypto cc), mc_iv = iv, mc_aad = []\<rparr>))"

definition compression_note :: "ConnectionContext \<Rightarrow> message_head_compression option \<Rightarrow> bool" where
  "compression_note cc z \<longleftrightarrow> z = None
     \<or> (zs_Algorithm (cx_compression cc) \<noteq> COMPRESSION_NONE \<and> (\<exists>n. z = Some \<lparr>mz_type = zs_Algorithm (cx_compression cc), mz_original_size = n\<rparr>))"

definition heads_encode :: "proto_lib \<Rightarrow> ConnectionContext \<Rightarrow> message_head \<Rightarrow> bool" where
  "heads_encode P cc head \<longleftrightarrow>
     (\<forall>c z. crypto_note cc c \<and> compression_note cc z \<longrightarrow> marshal_head P (head\<lparr>mh_crypto := c, mh_compression := z\<rparr>) \<noteq> None)"

lemma heads_encodeD:
  assumes "proto_ok P" and "heads_encode P cc head" and "crypto_note cc c" and "compression_note cc z"
  obtains hb where "marshal_head P (head\<lparr>mh_crypto := c, mh_compression := z\<rparr>) = Some hb" and "length hb < 2 ^ 31"
  using assms unfolding heads_encode_def proto_ok_def by blast

lemma int_of_uint64_nat: "n < 2 ^ 63 \<Longrightarrow> int_of_uint64 (word_of_nat n) = int n"
proof -
  assume n: "n < 2 ^ 63"
  then have "unat (word_of_nat n :: uint64) = n" by (simp add: unat_of_nat)
  with n int_of_uint64_small [of "word_of_nat n"] show ?thesis by simp
qed

text \<open>Compression: the packed bytes, and whatever padding follows them, are decompressed to the original ones.\<close>

lemma pack_compress_roundtrip:
  assumes "compression_ok Z" and "length body < 2 ^ 31" and "alg = COMPRESSION_NONE \<or> alg = zs_Algorithm (cx_compression cc)"
    and "compressionAlgorithmSupported Z (zs_Algorithm (cx_compression cc))" and "body = [] \<longrightarrow> alg = COMPRESSION_NONE"
  shows "\<exists>processed alg' sz. pack_compress Z alg body cc = Inr (processed, alg', sz) \<and> length processed \<le> length body
    \<and> (alg' = COMPRESSION_NONE \<or> alg' = zs_Algorithm (cx_compression cc))
    \<and> (\<forall>d. take (length processed) d = processed \<longrightarrow>
        (\<exists>d'. unpack_decompress Z (if alg' \<noteq> COMPRESSION_NONE then Some \<lparr>mz_type = alg', mz_original_size = word_of_nat sz\<rparr> else None)
                (word_of_nat (length body)) d = Inr d' \<and> take (length body) d' = body \<and> length body \<le> length d'))"
proof (cases "alg \<noteq> COMPRESSION_NONE \<and> body \<noteq> []")
  case False
  have "length b \<le> length d" if "take (length b) d = b" for b d :: bytes using that by (metis length_take min.cobounded1)
  moreover have "alg = COMPRESSION_NONE" using False assms(5) by blast
  ultimately show ?thesis by (auto simp: pack_compress_def unpack_decompress_def)
next
  case True
  then have alg: "zs_Algorithm (cx_compression cc) = alg" using assms(3) by auto
  let ?a = "compressionAlgorithmToAdapter alg"
  have sup: "compressionAlgorithmSupported Z alg" using assms(4) alg by simp
  then have "lib_IsAlgorithmSupported Z ?a" using True by (simp add: compressionAlgorithmSupported_def)
  with assms(1) obtain c where c: "lib_Compress Z ?a body = (c, ErrorCodeOk)" "lib_Decompress Z ?a c (int (length body)) = (body, ErrorCodeOk)"
    unfolding compression_ok_def by blast
  have comp: "Compress Z body (cx_compression cc) = Inr c" using True c(1) alg by (simp add: Compress_def)
  show ?thesis
  proof (cases "0 < length c \<and> length c < length body")
    case small: True
    then have eq: "pack_compress Z alg body cc = Inr (c, alg, length c)" using True sup comp by (simp add: pack_compress_def)
    have sizes: "int_of_uint64 (word_of_nat (length c)) = int (length c)" "int_of_uint64 (word_of_nat (length body)) = int (length body)"
      using small assms(2) by (simp_all add: int_of_uint64_nat)
    have "unpack_decompress Z (Some \<lparr>mz_type = alg, mz_original_size = word_of_nat (length c)\<rparr>) (word_of_nat (length body)) d = Inr body"
      if "take (length c) d = c" for d
    proof -
      have "length c \<le> length d" using that by (metis length_take min.cobounded1)
      then show ?thesis using True sup small that c(2) sizes by (simp add: unpack_decompress_def Let_def)
    qed
    with eq small True alg show ?thesis by simp
  next
    case big: False
    then have "pack_compress Z alg body cc = Inr (body, COMPRESSION_NONE, 0)" using True sup comp by (auto simp: pack_compress_def)
    moreover have "length body \<le> length d" if "take (length body) d = body" for d using that by (metis length_take min.cobounded1)
    ultimately show ?thesis by (auto simp: unpack_decompress_def)
  qed
qed

lemma recovered_take: "recovered alg p d \<Longrightarrow> take (length p) d = p"
  by (auto simp: recovered_def split: if_splits)

definition fresh_head :: "message_head \<Rightarrow> bool" where
  "fresh_head h \<longleftrightarrow> mh_crypto h = None \<and> mh_compression h = None"

text \<open>Encryption: what the sender encrypts is decrypted as the head says, up to the padding XXTEA leaves.\<close>

lemma pack_encrypt_roundtrip:
  assumes ok: "crypto_lib_ok L" and link: "linked L Z cc cc'" and rnd: "\<forall>n. rnd n \<noteq> None" and fresh: "mh_crypto head = None"
    and alg: "alg = CRYPTO_NONE \<or> (cs_initialized (cx_writeCrypto cc) \<and> alg = cs_Algorithm (cx_writeCrypto cc))"
  shows "\<exists>cc1 crypto enc d. pack_encrypt L rnd alg body head cc = (cc1, head\<lparr>mh_crypto := crypto\<rparr>, Inr enc)
    \<and> length enc \<le> length body + 16 \<and> unpack_decrypt L crypto enc cc' = Returns (Inr d) \<and> take (length body) d = body
    \<and> crypto_note cc crypto"
proof (cases "alg = CRYPTO_NONE")
  case True
  have "head\<lparr>mh_crypto := None\<rparr> = head" using fresh by (cases head) simp
  with True show ?thesis by (intro exI [of _ cc] exI [of _ None] exI [of _ body]) (simp add: pack_encrypt_def unpack_decrypt_def crypto_note_def)
next
  case False
  let ?w = "cx_writeCrypto cc"
  from alg False have init: "cs_initialized ?w" and alg_eq: "cs_Algorithm ?w = alg" by auto
  with link obtain r where r: "cx_readCrypto cc' = Some r" "session_ready L r" "same_key ?w r" and w: "session_ready L ?w"
    by (auto simp: linked_def split: option.splits)
  have r_alg: "cs_Algorithm r = alg" "cs_initialized r" using r alg_eq by (simp_all add: same_key_def session_ready_def)
  define crypto where "crypto = zero_message_head_crypto\<lparr>mc_algorithm := alg\<rparr>"
  have aad: "mc_aad crypto = []" by (simp add: crypto_def zero_message_head_crypto_def)
  have note_ok: "crypto_note cc (Some (crypto\<lparr>mc_iv := iv\<rparr>))" if "length iv = cryptoAlgorithmIVSize alg" for iv
    using that init alg_eq by (simp add: crypto_note_def crypto_def zero_message_head_crypto_def)
  note unf = pack_encrypt_def unpack_decrypt_def with_read_def IsInitialized_def Let_def
  consider (aead) "cryptoAlgorithmIsAEAD alg" | (iv) "\<not> cryptoAlgorithmIsAEAD alg" "0 < cryptoAlgorithmIVSize alg"
    | (xxtea) "\<not> cryptoAlgorithmIsAEAD alg" "cryptoAlgorithmIVSize alg = 0" by blast
  then show ?thesis
  proof cases
    case aead
    obtain iv where iv: "rand_read rnd (cryptoAlgorithmIVSize alg) = Some iv" "length iv = cryptoAlgorithmIVSize alg"
      using rand_read_total [OF rnd] by blast
    obtain c where c: "EncryptWithIVAndAAD L body iv [] ?w = Inr c" "length c \<le> length body + 16" "DecryptWithIVAndAAD L c iv [] r = Inr body"
      using session_roundtrip_aad [OF _ w r(2,3), of iv body "[]"] ok aead iv(2) alg_eq unfolding crypto_lib_ok_def by auto
    have "pack_encrypt L rnd alg body head cc = (cc, head\<lparr>mh_crypto := Some (crypto\<lparr>mc_iv := iv\<rparr>)\<rparr>, Inr c)"
      unfolding unf using False init alg_eq fresh aead iv(1) c(1) aad by (simp add: crypto_def)
    moreover have "unpack_decrypt L (Some (crypto\<lparr>mc_iv := iv\<rparr>)) c cc' = Returns (Inr body)"
      unfolding unf using False r_alg r(1) aead iv(2) c(3) aad by (simp add: crypto_def)
    ultimately show ?thesis using c(2) note_ok [OF iv(2)] by auto
  next
    case iv
    obtain v where v: "rand_read rnd (cryptoAlgorithmIVSize alg) = Some v" "length v = cryptoAlgorithmIVSize alg"
      using rand_read_total [OF rnd] by blast
    obtain c d where c: "EncryptWithIV L body v ?w = Inr c" "length c \<le> length body + 16" "DecryptWithIV L c v r = Returns (Inr d)" "recovered alg body d"
      using session_roundtrip_iv [OF ok w r(2,3), of v body] iv v(2) alg_eq by auto
    have "pack_encrypt L rnd alg body head cc = (cc, head\<lparr>mh_crypto := Some (crypto\<lparr>mc_iv := v\<rparr>)\<rparr>, Inr c)"
      unfolding unf using False init alg_eq fresh iv v(1) c(1) by (simp add: crypto_def)
    moreover have "unpack_decrypt L (Some (crypto\<lparr>mc_iv := v\<rparr>)) c cc' = Returns (Inr d)"
      unfolding unf using False r_alg r(1) iv v(2) c(3) by (simp add: crypto_def)
    ultimately show ?thesis using c(2) recovered_take [OF c(4)] note_ok [OF v(2)] by blast
  next
    case xxtea
    have x: "alg = XXTEA" using ready_kinds [OF w] alg_eq False xxtea by (auto simp: is_cbc_def)
    obtain w' c d where c: "Encrypt L rnd body ?w = (w', Inr c)" "length c \<le> length body + 16" "Decrypt L c r = Returns (Inr d)" "take (length body) d = body"
    proof (cases "body = []")
      case True
      then show ?thesis using that [of ?w "[]" "[]"] init r_alg alg_eq False by (simp add: Encrypt_def Decrypt_def)
    next
      case ne: False
      obtain c d where cd: "encryptXXTEA L body ?w = Inr c" "c \<noteq> []" "length c \<le> length body + 8" "decryptXXTEA L c r = Inr d" "take (length body) d = body"
        using xxtea_recovers [OF _ w r(2,3), of body] ok alg_eq x unfolding crypto_lib_ok_def by auto
      show ?thesis using that [of ?w c d] cd ne init r_alg alg_eq x by (simp add: Encrypt_kind)
    qed
    have "pack_encrypt L rnd alg body head cc = (cc\<lparr>cx_writeCrypto := w'\<rparr>, head\<lparr>mh_crypto := Some (crypto\<lparr>mc_iv := []\<rparr>)\<rparr>, Inr c)"
      unfolding unf using False init alg_eq fresh xxtea c(1) by (simp add: crypto_def)
    moreover have "unpack_decrypt L (Some (crypto\<lparr>mc_iv := []\<rparr>)) c cc' = Returns (Inr d)"
      unfolding unf using False r_alg r(1) xxtea c(3) by (simp add: crypto_def)
    moreover have "crypto_note cc (Some (crypto\<lparr>mc_iv := []\<rparr>))" using note_ok [of "[]"] xxtea(2) by simp
    ultimately show ?thesis using c(2,4) by blast
  qed
qed

text \<open>Reading a packed message back, up to its body.\<close>

lemma UnpackMessage_msg_bytes:
  assumes "\<not> cx_closing cc" and "length (msg_bytes hb body) < 2 ^ 62" and "unmarshal_head P hb = (h, True)"
    and "maxBodySize \<le> 0 \<or> (int (length (msg_bytes hb body)) \<le> maxBodySize + 256 \<and> int_of_uint64 (mh_body_size h) \<le> maxBodySize + 256 \<and> maxBodySize < 2 ^ 62)"
  shows "UnpackMessage L Z P (Some m) (msg_bytes hb body) maxBodySize cc =
    (if mh_body_size h = 0 then Returns (Some (m\<lparr>msg_head := Some h\<rparr>), EN_ATBUS_ERR_SUCCESS)
     else map_outcome_val (\<lambda>(m, e). (Some m, e)) (unpack_body L Z P h body (m\<lparr>msg_head := Some h\<rparr>) cc))"
proof -
  define input where "input = msg_bytes hb body"
  define v where "v = vint_bytes (word_of_nat (length hb))"
  have input: "input = v @ hb @ body" by (simp add: input_def msg_bytes_def v_def)
  have read: "ReadVint input = (word_of_nat (length hb), length v)"
    unfolding input v_def by (rule ReadVint_vint_bytes)
  have v_pos: "0 < length v" by (simp add: v_def vint_bytes_def)
  have len: "length v + length hb + length body < 2 ^ 62" using assms(2) by (simp add: input_def [symmetric] input)
  have hs: "int_of_uint64 (word_of_nat (length hb)) = int (length hb)" using len by (intro int_of_uint64_nat) simp
  have e: "wrap64 (int_of_uint64 (word_of_nat (length hb)) + int (length v)) = int (length v + length hb)"
    using len by (simp add: hs)
  have lim: "\<not> (0 < maxBodySize \<and> wrap64 (maxBodySize + 256) < int (length input))"
    "\<not> (0 < maxBodySize \<and> wrap64 (maxBodySize + 256) < int_of_uint64 (mh_body_size h))"
    using assms(4) by (auto simp: input_def)
  have s1: "slice input (int (length v)) (int (length v + length hb)) = Returns hb"
    using slice_nat [of "length v" "length v + length hb" input] by (simp add: input)
  have s2: "slice input (int (length v + length hb)) (int (length input)) = Returns body"
    using slice_nat [of "length v + length hb" "length input" input] by (simp add: input)
  have ne: "length input \<noteq> 0" using v_pos by (simp add: input)
  show ?thesis
    unfolding input_def [symmetric] UnpackMessage_def read Let_def prod.case e s1 s2 bind_outcome.simps assms(3)
    using assms(1) lim ne v_pos by (auto simp: input)
qed

text \<open>Packing, up to the frame.\<close>

lemma packMessageWith_roundtrip:
  assumes libs: "crypto_lib_ok L" "compression_ok Z" "proto_ok P" and link: "linked L Z cc cc'" and rnd: "\<forall>n. rnd n \<noteq> None"
    and m: "msg_head m = Some head" "msg_body m = Some b" "fresh_head head" "mh_body_size head = word_of_nat (length body)"
    and body: "marshal_body P b = Some body" and empty: "body = [] \<longrightarrow> calg = COMPRESSION_NONE"
    and calg: "calg = COMPRESSION_NONE \<or> calg = zs_Algorithm (cx_compression cc)"
    and alg: "alg = CRYPTO_NONE \<or> (cs_initialized (cx_writeCrypto cc) \<and> alg = cs_Algorithm (cx_writeCrypto cc))"
    and enc_heads: "heads_encode P cc head"
  shows "\<exists>cc1 head' blk hb enc. packMessageWith L Z P rnd calg alg m cc = (cc1, m\<lparr>msg_head := Some head'\<rparr>, blk, EN_ATBUS_ERR_SUCCESS)
    \<and> head' = head\<lparr>mh_crypto := mh_crypto head', mh_compression := mh_compression head'\<rparr>
    \<and> marshal_head P head' = Some hb \<and> length (msg_bytes hb enc) < 2 ^ 62 \<and> StaticBufferBlock_UsedSpan blk = Returns (msg_bytes hb enc)
    \<and> (\<forall>m0. unpack_body L Z P head' enc m0 cc' = Returns (m0\<lparr>msg_body := Some b\<rparr>, EN_ATBUS_ERR_SUCCESS))"
proof -
  have len: "length body < 2 ^ 31" "unmarshal_body P body = (b, True)" using libs(3) body unfolding proto_ok_def by blast+
  have sz: "int_of_uint64 (mh_body_size head) = int (length body)" using m(4) len(1) int_of_uint64_nat [of "length body"] by simp
  obtain processed calg' csz where comp: "pack_compress Z calg body cc = Inr (processed, calg', csz)" "length processed \<le> length body"
      "calg' = COMPRESSION_NONE \<or> calg' = zs_Algorithm (cx_compression cc)"
    and dec: "\<And>d. take (length processed) d = processed \<Longrightarrow>
        \<exists>d'. unpack_decompress Z (if calg' \<noteq> COMPRESSION_NONE then Some \<lparr>mz_type = calg', mz_original_size = word_of_nat csz\<rparr> else None)
                (word_of_nat (length body)) d = Inr d' \<and> take (length body) d' = body \<and> length body \<le> length d'"
    using pack_compress_roundtrip [OF libs(2) len(1) calg _ empty] link unfolding linked_def by blast
  have crypto_none: "mh_crypto head = None" using m(3) by (simp add: fresh_head_def)
  obtain cc1 crypto enc d where enc: "pack_encrypt L rnd alg processed head cc = (cc1, head\<lparr>mh_crypto := crypto\<rparr>, Inr enc)"
    "length enc \<le> length processed + 16" "unpack_decrypt L crypto enc cc' = Returns (Inr d)" "take (length processed) d = processed"
    "crypto_note cc crypto"
    using pack_encrypt_roundtrip [OF libs(1) link rnd crypto_none alg, of processed] by blast
  define zinfo where "zinfo = (if calg' \<noteq> COMPRESSION_NONE then Some \<lparr>mz_type = calg', mz_original_size = word_of_nat csz :: uint64\<rparr> else None)"
  define head' where "head' = head\<lparr>mh_crypto := crypto, mh_compression := zinfo\<rparr>"
  have head'_eq: "(if calg' \<noteq> COMPRESSION_NONE then head\<lparr>mh_crypto := crypto, mh_compression := Some \<lparr>mz_type = calg', mz_original_size = word_of_nat csz\<rparr>\<rparr>
      else head\<lparr>mh_crypto := crypto\<rparr>) = head'"
    using m(3) by (cases head) (auto simp: head'_def zinfo_def fresh_head_def)
  have "compression_note cc zinfo" using comp(3) by (auto simp: compression_note_def zinfo_def)
  from heads_encodeD [OF libs(3) enc_heads enc(5) this] obtain hb where hb: "marshal_head P head' = Some hb" "length hb < 2 ^ 31"
    unfolding head'_def by blast
  have vb: "VintEncodedSize (word_of_nat (length hb)) \<le> 10" using VintEncodedSize_bounds by blast
  have small: "length (msg_bytes hb enc) < 2 ^ 62"
    using hb(2) enc(2) comp(2) len(1) vb unfolding length_msg_bytes by simp
  then have "int (length (msg_bytes hb enc)) < 2 ^ 63" by simp
  from pack_frame_ok [OF hb(1) this] obtain blk where
    blk: "pack_frame P head' enc = (blk, EN_ATBUS_ERR_SUCCESS)" "StaticBufferBlock_UsedSpan blk = Returns (msg_bytes hb enc)"
    by blast
  have mh: "MutableHead m = (m, head)" using m(1) by (simp add: MutableHead_def)
  have origin: "(case msg_body m of None \<Rightarrow> Some [] | Some b \<Rightarrow> if 0 < int_of_uint64 (mh_body_size head) then marshal_body P b else Some []) = Some body"
    using m(2) sz body by simp
  have "packMessageWith L Z P rnd calg alg m cc = (cc1, m\<lparr>msg_head := Some head'\<rparr>, blk, EN_ATBUS_ERR_SUCCESS)"
    unfolding packMessageWith_def mh Let_def prod.case origin option.case comp(1) sum.case enc(1) head'_eq blk(1) by simp
  moreover have "unpack_body L Z P head' enc m0 cc' = Returns (m0\<lparr>msg_body := Some b\<rparr>, EN_ATBUS_ERR_SUCCESS)" for m0
  proof -
    obtain d' where d': "unpack_decompress Z zinfo (word_of_nat (length body)) d = Inr d'" "take (length body) d' = body" "length body \<le> length d'"
      using dec [OF enc(4)] unfolding zinfo_def by blast
    have "unat (word_of_nat (length body) :: uint64) = length body" using len(1) by (simp add: unat_of_nat)
    then have "uint (word_of_nat (length body) :: uint64) = int (length body)" by (metis uint_nat)
    then have sl: "slice d' 0 (uint (word_of_nat (length body) :: uint64)) = Returns body"
      using d'(2,3) slice_nat [of 0 "length body" d'] by simp
    show ?thesis
      unfolding unpack_body_def head'_def using enc(3) d' sl sz m(4) len(2) by simp
  qed
  moreover have "head' = head\<lparr>mh_crypto := mh_crypto head', mh_compression := mh_compression head'\<rparr>" by (simp add: head'_def)
  ultimately show ?thesis using hb(1) small blk(2) by blast
qed

lemma MutableHead_eq: "MutableHead m = (m\<lparr>msg_head := Some (case msg_head m of None \<Rightarrow> zero_message_head | Some h \<Rightarrow> h)\<rparr>,
    case msg_head m of None \<Rightarrow> zero_message_head | Some h \<Rightarrow> h)"
  by (cases m) (simp add: MutableHead_def split: option.split)

lemma plain_body:
  assumes "proto_ok P" and "marshal_body P b = Some body" and "fresh_head head" and "mh_body_size head = word_of_nat (length body)"
  shows "unpack_body L Z P head body m0 cc' = Returns (m0\<lparr>msg_body := Some b\<rparr>, EN_ATBUS_ERR_SUCCESS)"
proof -
  have len: "length body < 2 ^ 31" "unmarshal_body P body = (b, True)" using assms(1,2) unfolding proto_ok_def by blast+
  then have "unat (word_of_nat (length body) :: uint64) = length body" by (simp add: unat_of_nat)
  then have "uint (word_of_nat (length body) :: uint64) = int (length body)" by (metis uint_nat)
  moreover have "slice body 0 (int (length body)) = Returns body" using slice_nat [of 0 "length body" body] by simp
  moreover have "int_of_uint64 (word_of_nat (length body)) = int (length body)" using len(1) by (intro int_of_uint64_nat) simp
  ultimately show ?thesis
    using assms(3,4) len(2) by (simp add: unpack_body_def unpack_decrypt_def unpack_decompress_def fresh_head_def)
qed

lemma unpack_packed:
  assumes "proto_ok P" and "\<not> cx_closing cc'" and "length (msg_bytes hb enc) < 2 ^ 62" and "marshal_head P head = Some hb"
    and "mh_body_size head = word_of_nat (length body)" and "marshal_body P b = Some body"
    and "\<forall>m0. unpack_body L Z P head enc m0 cc' = Returns (m0\<lparr>msg_body := Some b\<rparr>, EN_ATBUS_ERR_SUCCESS)"
    and "max' \<le> 0 \<or> (int (length (msg_bytes hb enc)) \<le> max' + 256 \<and> int (length body) \<le> max' + 256 \<and> max' < 2 ^ 62)"
  shows "UnpackMessage L Z P (Some NewMessage) (msg_bytes hb enc) max' cc'
    = Returns (Some (NewMessage\<lparr>msg_head := Some head, msg_body := Some b\<rparr>), EN_ATBUS_ERR_SUCCESS)"
proof -
  have len: "length body < 2 ^ 31" "unmarshal_body P body = (b, True)" using assms(1,6) unfolding proto_ok_def by blast+
  have none: "unmarshal_body P [] = (BodyNone, True)" using assms(1) unfolding proto_ok_def by blast
  have sz: "int_of_uint64 (mh_body_size head) = int (length body)" using assms(5) len(1) int_of_uint64_nat [of "length body"] by simp
  have "unat (word_of_nat (length body) :: uint64) = length body" using len(1) by (simp add: unat_of_nat)
  then have empty: "mh_body_size head = 0 \<longleftrightarrow> body = []" unfolding assms(5) by (metis length_0_conv unat_eq_zero)
  have un: "unmarshal_head P hb = (head, True)"
    using assms(1,4) unfolding proto_ok_def by blast
  have "msg_body NewMessage = Some BodyNone" by (simp add: NewMessage_def)
  then have "NewMessage\<lparr>msg_head := Some head, msg_body := Some BodyNone\<rparr> = NewMessage\<lparr>msg_head := Some head\<rparr>" by (simp add: NewMessage_def)
  with UnpackMessage_msg_bytes [OF assms(2,3) un, of max' L Z NewMessage] assms(7,8) sz empty len(2) none show ?thesis by auto
qed

text \<open>C1: Packing and unpacking a message: over linked contexts, a message whose head does not yet carry any information on encryption or
  compression, with a head and a body that can be encoded and a body within the limit, is packed without an error, whatever the
  type of the message, the sizes that decide about compression and the algorithms negotiated; and the receiver unpacks exactly the
  head that was sent, with version and body size set by the sender, and the body.\<close>

theorem PackMessage_UnpackMessage_roundtrip:
  assumes libs: "crypto_lib_ok L" "compression_ok Z" "proto_ok P" and link: "linked L Z cc cc'" and rnd: "\<forall>n. rnd n \<noteq> None"
    and body: "msg_body m = Some b" "marshal_body P b = Some body" and limit: "maxBodySize \<le> 0 \<or> int (length body) \<le> maxBodySize"
    and fresh: "case msg_head m of None \<Rightarrow> True | Some h \<Rightarrow> fresh_head h"
    and heads: "heads_encode P cc ((case msg_head m of None \<Rightarrow> zero_message_head | Some h \<Rightarrow> h)
      \<lparr>mh_version := version, mh_body_size := word_of_nat (length body)\<rparr>)"
  shows "\<exists>cc1 m1 head blk packed. PackMessage L Z P rnd (Some m) version maxBodySize cc = (cc1, Some m1, blk, EN_ATBUS_ERR_SUCCESS)
    \<and> msg_head m1 = Some head \<and> msg_body m1 = Some b \<and> mh_version head = version \<and> mh_body_size head = word_of_nat (length body)
    \<and> StaticBufferBlock_UsedSpan blk = Returns packed
    \<and> (\<forall>max'. max' \<le> 0 \<or> (int (length packed) \<le> max' + 256 \<and> int (length body) \<le> max' + 256 \<and> max' < 2 ^ 62) \<longrightarrow>
        UnpackMessage L Z P (Some NewMessage) packed max' cc'
          = Returns (Some (NewMessage\<lparr>msg_head := Some head, msg_body := Some b\<rparr>), EN_ATBUS_ERR_SUCCESS))"
proof -
  have len: "length body < 2 ^ 31" "size_body P b = length body" using libs(3) body(2) unfolding proto_ok_def by blast+
  have open_ctx: "\<not> cx_closing cc" "\<not> cx_closing cc'" using link by (simp_all add: linked_def)
  define head where "head = (case msg_head m of None \<Rightarrow> zero_message_head | Some h \<Rightarrow> h)\<lparr>mh_version := version, mh_body_size := word_of_nat (length body)\<rparr>"
  have fresh_head: "fresh_head head"
    using fresh by (auto simp: head_def fresh_head_def zero_message_head_def split: option.splits)
  define m1 where "m1 = m\<lparr>msg_head := Some head\<rparr>"
  have m1: "msg_head m1 = Some head" "msg_body m1 = Some b" using body(1) by (simp_all add: m1_def)
  have head_sz: "mh_body_size head = word_of_nat (length body)" "mh_version head = version" by (simp_all add: head_def)
  have sz: "int_of_uint64 (mh_body_size head) = int (length body)" using head_sz len(1) int_of_uint64_nat [of "length body"] by simp
  define alg where "alg = (if allowCrypto (GetBodyType (Some m)) \<and> cs_initialized (cx_writeCrypto cc) then cs_Algorithm (cx_writeCrypto cc) else CRYPTO_NONE)"
  define calg where "calg = (if allowCompress (GetBodyType (Some m)) (int (length body)) then zs_Algorithm (cx_compression cc) else COMPRESSION_NONE)"
  have lim: "(0 < maxBodySize \<and> maxBodySize < int (length body)) = False" using limit by auto
  have pack: "PackMessage L Z P rnd (Some m) version maxBodySize cc =
     (if calg = COMPRESSION_NONE \<and> alg = CRYPTO_NONE then (cc, Some m1, packMessageOrigin P m1)
      else let (cc, m, r) = packMessageWith L Z P rnd calg alg m1 cc in (cc, Some m, r))"
    using open_ctx(1) unfolding PackMessage_def MutableHead_eq Let_def IsInitialized_def CompressionSession_GetAlgorithm_def
    by (simp add: body(1) len(2) lim m1_def head_def alg_def calg_def)
  have body_none: "unmarshal_body P [] = (BodyNone, True)" using libs(3) unfolding proto_ok_def by blast
  have alg: "alg = CRYPTO_NONE \<or> (cs_initialized (cx_writeCrypto cc) \<and> alg = cs_Algorithm (cx_writeCrypto cc))" by (simp add: alg_def)
  have calg: "calg = COMPRESSION_NONE \<or> calg = zs_Algorithm (cx_compression cc)" "body = [] \<longrightarrow> calg = COMPRESSION_NONE"
    by (simp_all add: calg_def allowCompress_def)
  have "\<exists>cc1 head' blk hb enc. PackMessage L Z P rnd (Some m) version maxBodySize cc = (cc1, Some (m1\<lparr>msg_head := Some head'\<rparr>), blk, EN_ATBUS_ERR_SUCCESS)
    \<and> mh_version head' = version \<and> mh_body_size head' = word_of_nat (length body)
    \<and> marshal_head P head' = Some hb \<and> length (msg_bytes hb enc) < 2 ^ 62 \<and> StaticBufferBlock_UsedSpan blk = Returns (msg_bytes hb enc)
    \<and> (\<forall>m0. unpack_body L Z P head' enc m0 cc' = Returns (m0\<lparr>msg_body := Some b\<rparr>, EN_ATBUS_ERR_SUCCESS))"
  proof (cases "calg = COMPRESSION_NONE \<and> alg = CRYPTO_NONE")
    case True
    have "head\<lparr>mh_crypto := None, mh_compression := None\<rparr> = head" using fresh_head by (cases head) (simp add: fresh_head_def)
    with heads_encodeD [OF libs(3) heads [folded head_def], of None None] obtain hb where
      hb: "marshal_head P head = Some hb" "length hb < 2 ^ 31" by (auto simp: crypto_note_def compression_note_def)
    have small: "length (msg_bytes hb body) < 2 ^ 62"
      using hb(2) len(1) VintEncodedSize_bounds [of "word_of_nat (length hb)"] unfolding length_msg_bytes by simp
    then have "int (length (msg_bytes hb body)) < 2 ^ 63" by simp
    from packMessageOrigin_ok [OF m1 hb(1) body(2) sz this] obtain blk where
      "packMessageOrigin P m1 = (blk, EN_ATBUS_ERR_SUCCESS)" "StaticBufferBlock_UsedSpan blk = Returns (msg_bytes hb body)" by blast
    moreover have "unpack_body L Z P head body m0 cc' = Returns (m0\<lparr>msg_body := Some b\<rparr>, EN_ATBUS_ERR_SUCCESS)" for m0
      using plain_body [OF libs(3) body(2) fresh_head head_sz(1)] by simp
    moreover have "m1\<lparr>msg_head := Some head\<rparr> = m1" by (simp add: m1_def)
    ultimately show ?thesis unfolding pack if_P [OF True] using hb(1) small head_sz by metis
  next
    case False
    from packMessageWith_roundtrip [OF libs link rnd m1 fresh_head head_sz(1) body(2) calg(2,1) alg heads [folded head_def]] obtain cc1 head' blk hb enc where
      w: "packMessageWith L Z P rnd calg alg m1 cc = (cc1, m1\<lparr>msg_head := Some head'\<rparr>, blk, EN_ATBUS_ERR_SUCCESS)"
      "head' = head\<lparr>mh_crypto := mh_crypto head', mh_compression := mh_compression head'\<rparr>"
      "marshal_head P head' = Some hb" "length (msg_bytes hb enc) < 2 ^ 62" "StaticBufferBlock_UsedSpan blk = Returns (msg_bytes hb enc)"
      "\<forall>m0. unpack_body L Z P head' enc m0 cc' = Returns (m0\<lparr>msg_body := Some b\<rparr>, EN_ATBUS_ERR_SUCCESS)" by blast
    have "mh_version head' = version" "mh_body_size head' = word_of_nat (length body)"
      using head_sz by (subst w(2), simp)+
    then show ?thesis unfolding pack if_not_P [OF False] Let_def w(1) prod.case using w(3-6) by blast
  qed
  then obtain cc1 head' blk hb enc where
    p: "PackMessage L Z P rnd (Some m) version maxBodySize cc = (cc1, Some (m1\<lparr>msg_head := Some head'\<rparr>), blk, EN_ATBUS_ERR_SUCCESS)"
    "mh_version head' = version" "mh_body_size head' = word_of_nat (length body)"
    "marshal_head P head' = Some hb" "length (msg_bytes hb enc) < 2 ^ 62" "StaticBufferBlock_UsedSpan blk = Returns (msg_bytes hb enc)"
    "\<forall>m0. unpack_body L Z P head' enc m0 cc' = Returns (m0\<lparr>msg_body := Some b\<rparr>, EN_ATBUS_ERR_SUCCESS)" by blast
  have un: "UnpackMessage L Z P (Some NewMessage) (msg_bytes hb enc) max' cc'
      = Returns (Some (NewMessage\<lparr>msg_head := Some head', msg_body := Some b\<rparr>), EN_ATBUS_ERR_SUCCESS)"
    if max': "max' \<le> 0 \<or> (int (length (msg_bytes hb enc)) \<le> max' + 256 \<and> int (length body) \<le> max' + 256 \<and> max' < 2 ^ 62)" for max'
    using unpack_packed [OF libs(3) open_ctx(2) p(5,4,3) body(2) p(7) max'] .
  show ?thesis
    using p m1(2) un by (intro exI [of _ cc1] exI [of _ "m1\<lparr>msg_head := Some head'\<rparr>"] exI [of _ head'] exI [of _ blk] exI [of _ "msg_bytes hb enc"]) simp
qed

subsection \<open>What unpacking accepts, refuses and does not survive\<close>

lemma int_below: "n < 2 ^ k \<longleftrightarrow> int n < 2 ^ k"
  by (metis of_nat_less_iff of_nat_numeral of_nat_power)

lemma pow62: "(2 :: int) ^ 63 = 2 * 2 ^ 62" "(2 :: int) ^ 64 = 4 * 2 ^ 62" "(0 :: int) < 2 ^ 62"
  by simp_all

lemma wrap64_above:
  assumes "2 ^ 63 \<le> x" and "x < 2 ^ 63 + 2 ^ 62"
  shows "wrap64 x = x - 2 ^ 64"
proof -
  have "(x + 2 ^ 63) mod 2 ^ 64 = (x + 2 ^ 63 - 2 ^ 64) mod 2 ^ 64" by (simp only: minus_mod_self2)
  also have "\<dots> = x + 2 ^ 63 - 2 ^ 64" using assms pow62 by (intro mod_pos_pos_trivial) linarith+
  finally show ?thesis unfolding wrap64_def by linarith
qed

lemma int_of_uint64_cases:
  "int_of_uint64 w = (if unat w < 2 ^ 63 then int (unat w) else int (unat w) - 2 ^ 64)"
proof (cases "unat w < 2 ^ 63")
  case True
  then show ?thesis by (simp only: int_of_uint64_small if_True)
next
  case False
  then have ge: "2 ^ 63 \<le> int (unat w)" unfolding int_below by linarith
  have neg: "int_of_uint64 w < 0"
  proof (rule ccontr)
    assume "\<not> int_of_uint64 w < 0"
    then have "int_of_uint64 w = int (unat w)" by (intro int_of_uint64_nonneg) simp
    with ge int_of_uint64_range [of w] show False by linarith
  qed
  have "word_of_int (int_of_uint64 w) = w" by (simp add: int_of_uint64_def)
  then have "uint w = int_of_uint64 w mod 2 ^ 64" using uint_word_of_int [where 'a = 64, of "int_of_uint64 w"] by simp
  also have "\<dots> = (int_of_uint64 w + 2 ^ 64) mod 2 ^ 64" by (simp only: mod_add_self2)
  also have "\<dots> = int_of_uint64 w + 2 ^ 64"
    using neg int_of_uint64_range [of w] pow62 by (intro mod_pos_pos_trivial) linarith+
  finally show ?thesis using False by (simp only: if_False uint_nat)
qed

text \<open>The end of the head as the code computes it: right while the sum fits, below the start otherwise.\<close>

lemma head_end:
  assumes "n < 2 ^ 62"
  shows "wrap64 (int_of_uint64 hs + int n) = (if unat hs + n < 2 ^ 63 then int (unat hs + n) else int (unat hs + n) - 2 ^ 64)"
    and "\<not> unat hs + n < 2 ^ 63 \<Longrightarrow> int (unat hs + n) - 2 ^ 64 < int n"
proof -
  have "uint hs < 2 ^ 64" using uint_bounded [of hs] by simp
  then have lt: "int (unat hs) < 2 ^ 64" unfolding uint_nat .
  then show "int (unat hs + n) - 2 ^ 64 < int n" by linarith
  have nn: "int n < 2 ^ 62" using assms unfolding int_below .
  show "wrap64 (int_of_uint64 hs + int n) = (if unat hs + n < 2 ^ 63 then int (unat hs + n) else int (unat hs + n) - 2 ^ 64)"
  proof (cases "unat hs < 2 ^ 63")
    case True
    then have eq: "int_of_uint64 hs + int n = int (unat hs + n)" by (simp only: int_of_uint64_cases if_True of_nat_add)
    have hs: "int (unat hs) < 2 ^ 63" using True unfolding int_below .
    show ?thesis
    proof (cases "unat hs + n < 2 ^ 63")
      case True
      then have "int (unat hs + n) < 2 ^ 63" unfolding int_below .
      then have "wrap64 (int (unat hs + n)) = int (unat hs + n)" using pow62 by (intro wrap64_id) linarith+
      with True eq show ?thesis by (simp only: if_True)
    next
      case False
      then have "2 ^ 63 \<le> int (unat hs + n)" unfolding int_below by linarith
      then have "wrap64 (int (unat hs + n)) = int (unat hs + n) - 2 ^ 64" using hs nn pow62 by (intro wrap64_above) linarith+
      with False eq show ?thesis by (simp only: if_False)
    qed
  next
    case False
    then have ge: "2 ^ 63 \<le> int (unat hs)" unfolding int_below by linarith
    have eq: "int_of_uint64 hs + int n = int (unat hs + n) - 2 ^ 64" using False by (simp only: int_of_uint64_cases if_False of_nat_add)
    have "\<not> unat hs + n < 2 ^ 63" using False by linarith
    moreover have "wrap64 (int (unat hs + n) - 2 ^ 64) = int (unat hs + n) - 2 ^ 64" using ge lt nn pow62 by (intro wrap64_id) linarith+
    ultimately show ?thesis unfolding eq by (simp only: if_False)
  qed
qed

lemma slice_nat_full:
  assumes "\<not> int (length xs) < hi"
  shows "slice xs (int lo) hi = (if int lo \<le> hi then Returns (take (nat hi - lo) (drop lo xs)) else Panics)"
  using assms by (auto simp: slice_def)

lemma bind_sum_returns: "x \<noteq> Panics \<Longrightarrow> bind_outcome x (\<lambda>d. case d of Inl _ \<Rightarrow> Returns a | Inr b \<Rightarrow> Returns (f b)) \<noteq> Panics"
  by (cases x) (auto split: sum.split)

lemma unpack_decrypt_returns: "cx_readCrypto cc \<noteq> None \<Longrightarrow> unpack_decrypt L info block cc \<noteq> Panics"
  unfolding unpack_decrypt_def with_read_def Let_def
  by (auto simp: Decrypt_returns bind_sum_returns split: option.split simp del: bind_outcome.simps)

lemma uint_unat: "uint w = int (unat w)"
  by (rule uint_nat)

lemma int_of_uint64_neg:
  assumes "\<not> unat w < 2 ^ 63"
  shows "int_of_uint64 w < 0"
proof -
  have "uint w < 2 ^ 64" using uint_bounded [of w] by simp
  with assms show ?thesis unfolding int_of_uint64_cases if_not_P [OF assms] uint_unat by simp
qed

text \<open>The body: the size of the head, read as a signed number, passes the check when it is negative, and then it is out of bounds.\<close>

definition body_size_overflows :: "crypto_lib \<Rightarrow> compression_lib \<Rightarrow> message_head \<Rightarrow> bytes \<Rightarrow> ConnectionContext \<Rightarrow> bool" where
  "body_size_overflows L Z head block cc \<longleftrightarrow>
     2 ^ 63 \<le> unat (mh_body_size head)
     \<and> (case unpack_decrypt L (mh_crypto head) block cc of
          Returns (Inr d) \<Rightarrow>
            (case unpack_decompress Z (mh_compression head) (mh_body_size head) d of
               Inr d' \<Rightarrow> length d' < unat (mh_body_size head) | Inl _ \<Rightarrow> False)
        | _ \<Rightarrow> False)"

lemma unpack_body_panics_iff:
  assumes "cx_readCrypto cc \<noteq> None"
  shows "unpack_body L Z P head block m cc = Panics \<longleftrightarrow> body_size_overflows L Z head block cc"
proof (cases "unpack_decrypt L (mh_crypto head) block cc")
  case Panics
  with unpack_decrypt_returns [OF assms] show ?thesis by blast
next
  case (Returns r)
  show ?thesis
  proof (cases r)
    case (Inl e)
    with Returns show ?thesis by (simp add: unpack_body_def body_size_overflows_def)
  next
    case (Inr d)
    show ?thesis
    proof (cases "unpack_decompress Z (mh_compression head) (mh_body_size head) d")
      case (Inl e)
      with Returns \<open>r = Inr d\<close> show ?thesis by (simp add: unpack_body_def body_size_overflows_def)
    next
      case (Inr d')
      define w where "w = mh_body_size head"
      have body: "unpack_body L Z P head block m cc = Panics \<longleftrightarrow> \<not> int (length d') < int_of_uint64 w \<and> slice d' 0 (uint w) = Panics"
        using Returns \<open>r = Inr d\<close> Inr by (cases "slice d' 0 (uint w)") (auto simp: unpack_body_def w_def Let_def split: prod.split)
      have slice: "slice d' 0 (uint w) = Panics \<longleftrightarrow> length d' < unat w"
        unfolding slice_def uint_unat by (simp only: of_nat_le_iff of_nat_0_le_iff if_splits) auto
      have "\<not> int (length d') < int_of_uint64 w \<and> length d' < unat w \<longleftrightarrow> 2 ^ 63 \<le> unat w \<and> length d' < unat w"
      proof (cases "unat w < 2 ^ 63")
        case True
        then have "int_of_uint64 w = int (unat w)" by (simp only: int_of_uint64_cases if_True)
        with True show ?thesis by linarith
      next
        case False
        with int_of_uint64_neg [OF this] show ?thesis by linarith
      qed
      with body slice Returns \<open>r = Inr d\<close> Inr show ?thesis by (simp add: body_size_overflows_def w_def)
    qed
  qed
qed

text \<open>C13: Which received bytes crash the receiver: for an open context with a read session, an input below \<open>2\<^sup>6\<^sup>2\<close> bytes and within the
  limit, unpacking panics exactly when the length of the head plus its own size does not fit into the signed 64 bits it is
  computed in, or when a well-formed head carries a body size of \<open>2\<^sup>6\<^sup>3\<close> or more, which reads as a negative number and so passes both
  size checks, and decryption and decompression, if the head asks for them, succeed.\<close>

theorem UnpackMessage_panics_iff:
  assumes "\<not> cx_closing cc" and "cx_readCrypto cc \<noteq> None" and "input \<noteq> []" and "length input < 2 ^ 62"
    and limit: "max' \<le> 0 \<or> (int (length input) \<le> max' + 256 \<and> max' < 2 ^ 62)"
    and vint: "ReadVint input = (hs, n)" "n \<noteq> 0"
  shows "UnpackMessage L Z P (Some m) input max' cc = Panics \<longleftrightarrow>
    2 ^ 63 \<le> unat hs + n
    \<or> (unat hs + n \<le> length input
       \<and> (case unmarshal_head P (take (unat hs) (drop n input)) of (head, ok) \<Rightarrow>
            ok \<and> body_size_overflows L Z head (drop (unat hs + n) input) cc))"
proof -
  have n: "n \<le> length input" using ReadVint_consumed_le [OF vint(1)] .
  then have "n < 2 ^ 62" using assms(4) by linarith
  note ends = head_end [OF this, of hs]
  define headEnd where "headEnd = wrap64 (int_of_uint64 hs + int n)"
  have lim: "(0 < max' \<and> wrap64 (max' + 256) < int (length input)) = False"
  proof (cases "0 < max'")
    case True
    with limit have "wrap64 (max' + 256) = max' + 256" by (intro wrap64_id) auto
    with limit True show ?thesis by auto
  qed simp
  have neg: "0 < max' \<and> wrap64 (max' + 256) < int_of_uint64 w \<Longrightarrow> unat w < 2 ^ 63" for w
  proof (rule ccontr)
    assume a: "0 < max' \<and> wrap64 (max' + 256) < int_of_uint64 w" and b: "\<not> unat w < 2 ^ 63"
    from b have "int_of_uint64 w < 0" by (rule int_of_uint64_neg)
    moreover from a limit have "wrap64 (max' + 256) = max' + 256" by (intro wrap64_id) auto
    ultimately show False using a by linarith
  qed
  show ?thesis
  proof (cases "unat hs + n < 2 ^ 63")
    case False
    then have "headEnd < int n" unfolding headEnd_def ends(1) if_not_P [OF False] by (rule ends(2))
    moreover have "\<not> int (length input) < headEnd" using calculation n by linarith
    ultimately have "UnpackMessage L Z P (Some m) input max' cc = Panics"
      using assms(1,3) lim vint(2) by (simp add: UnpackMessage_def vint(1) headEnd_def [symmetric] slice_nat_full)
    with False show ?thesis by linarith
  next
    case True
    then have he: "headEnd = int (unat hs + n)" using ends unfolding headEnd_def by (simp only: if_True)
    show ?thesis
    proof (cases "unat hs + n \<le> length input")
      case False
      then have "int (length input) < headEnd" unfolding he by linarith
      then have "UnpackMessage L Z P (Some m) input max' cc \<noteq> Panics"
        using assms(1,3) lim vint(2) by (simp add: UnpackMessage_def vint(1) headEnd_def [symmetric])
      with False True show ?thesis by linarith
    next
      case inside: True
      obtain head ok where h: "unmarshal_head P (take (unat hs) (drop n input)) = (head, ok)" by (cases "unmarshal_head P (take (unat hs) (drop n input))")
      have s1: "slice input (int n) headEnd = Returns (take (unat hs) (drop n input))"
        unfolding he using slice_nat [of n "unat hs + n" input] inside by simp
      have s2: "slice input headEnd (int (length input)) = Returns (drop (unat hs + n) input)"
        unfolding he using slice_nat [of "unat hs + n" "length input" input] inside by simp
      have nl: "\<not> int (length input) < headEnd" using inside unfolding he by linarith
      have mo: "map_outcome_val f x = Panics \<longleftrightarrow> x = Panics" for f :: "Message \<times> ErrorType \<Rightarrow> Message option \<times> ErrorType" and x
        by (cases x) simp_all
      have zero: "mh_body_size head = 0 \<Longrightarrow> \<not> body_size_overflows L Z head (drop (unat hs + n) input) cc"
        by (simp add: body_size_overflows_def)
      have big: "0 < max' \<and> wrap64 (max' + 256) < int_of_uint64 (mh_body_size head) \<Longrightarrow> \<not> body_size_overflows L Z head (drop (unat hs + n) input) cc"
        using neg [of "mh_body_size head"] unfolding body_size_overflows_def by linarith
      have "UnpackMessage L Z P (Some m) input max' cc = Panics \<longleftrightarrow> ok \<and> body_size_overflows L Z head (drop (unat hs + n) input) cc"
        using assms(1,3) lim vint(2) nl zero big
        by (auto simp: UnpackMessage_def vint(1) headEnd_def [symmetric] s1 s2 h mo unpack_body_panics_iff [OF assms(2)] Let_def)
      with True inside show ?thesis unfolding h prod.case by linarith
    qed
  qed
qed

text \<open>C14: Packing keeps what a head says about encryption, also when this context does not encrypt: a message whose head carries the
  note of an encryption, as every message does that was received encrypted and is forwarded, is packed in the clear with that
  note by a context without a key and without compression; the packing succeeds, and a receiver that has no key of that
  algorithm refuses the message it could read.\<close>

theorem forwarded_head_refused:
  assumes "proto_ok P" and "\<not> cx_closing cc" and "\<not> cx_closing cc'" and "\<not> cs_initialized (cx_writeCrypto cc)"
    and "zs_Algorithm (cx_compression cc) = COMPRESSION_NONE"
    and m: "msg_head m = Some h" "mh_crypto h = Some info" "mc_algorithm info \<noteq> CRYPTO_NONE" "msg_body m = Some b"
    and enc: "marshal_body P b = Some body" "body \<noteq> []" "maxBodySize \<le> 0 \<or> int (length body) \<le> maxBodySize"
      "marshal_head P (h\<lparr>mh_version := version, mh_body_size := word_of_nat (length body)\<rparr>) \<noteq> None"
    and read: "cx_readCrypto cc' = Some r" "\<not> cs_initialized r \<or> cs_Algorithm r \<noteq> mc_algorithm info"
  shows "\<exists>m1 blk packed m2. PackMessage L Z P rnd (Some m) version maxBodySize cc = (cc, Some m1, blk, EN_ATBUS_ERR_SUCCESS)
    \<and> StaticBufferBlock_UsedSpan blk = Returns packed
    \<and> UnpackMessage L Z P (Some NewMessage) packed 0 cc' = Returns (m2, EN_ATBUS_ERR_CRYPTO_ALGORITHM_NOT_MATCH)"
proof -
  have len: "length body < 2 ^ 31" "size_body P b = length body" using assms(1) enc(1) unfolding proto_ok_def by blast+
  define head where "head = h\<lparr>mh_version := version, mh_body_size := word_of_nat (length body)\<rparr>"
  define m1 where "m1 = m\<lparr>msg_head := Some head\<rparr>"
  obtain hb where hb: "marshal_head P head = Some hb" using enc(4) by (auto simp: head_def)
  then have un: "unmarshal_head P hb = (head, True)" "length hb < 2 ^ 31" using assms(1) unfolding proto_ok_def by blast+
  have small: "length (msg_bytes hb body) < 2 ^ 62"
    using un(2) len(1) VintEncodedSize_bounds [of "word_of_nat (length hb)"] unfolding length_msg_bytes by simp
  then have lt: "int (length (msg_bytes hb body)) < 2 ^ 63" by simp
  have m1: "msg_head m1 = Some head" "msg_body m1 = Some b" using m(4) by (simp_all add: m1_def)
  have sz: "int_of_uint64 (mh_body_size head) = int (length body)" using len(1) int_of_uint64_nat [of "length body"] by (simp add: head_def)
  obtain blk where blk: "packMessageOrigin P m1 = (blk, EN_ATBUS_ERR_SUCCESS)" "StaticBufferBlock_UsedSpan blk = Returns (msg_bytes hb body)"
    using packMessageOrigin_ok [OF m1 hb enc(1) sz lt] by blast
  have lim: "(0 < maxBodySize \<and> maxBodySize < int (length body)) = False" using enc(3) by auto
  have "PackMessage L Z P rnd (Some m) version maxBodySize cc = (cc, Some m1, packMessageOrigin P m1)"
    using assms(2,4,5) unfolding PackMessage_def MutableHead_eq Let_def IsInitialized_def CompressionSession_GetAlgorithm_def
    by (simp add: m len(2) lim m1_def head_def)
  moreover have "unat (word_of_nat (length body) :: uint64) \<noteq> 0" using len(1) enc(2) by (simp add: unat_of_nat)
  then have "mh_body_size head \<noteq> 0" by (auto simp: head_def)
  then have "UnpackMessage L Z P (Some NewMessage) (msg_bytes hb body) 0 cc'
      = map_outcome_val (\<lambda>(m, e). (Some m, e)) (unpack_body L Z P head body (NewMessage\<lparr>msg_head := Some head\<rparr>) cc')"
    using UnpackMessage_msg_bytes [OF assms(3) small un(1), of 0 L Z NewMessage] by simp
  moreover have "unpack_decrypt L (mh_crypto head) body cc' = Returns (Inl EN_ATBUS_ERR_CRYPTO_ALGORITHM_NOT_MATCH)"
    using m(2,3) read by (auto simp: unpack_decrypt_def head_def with_read_def IsInitialized_def)
  ultimately show ?thesis using blk by (simp add: unpack_body_def)
qed

text \<open>A library that can encode one body, and its heads with and without the note of an encryption.\<close>

definition sample_body :: message_body where
  "sample_body = BodyDataTransformReq \<lparr>fd_from = 1, fd_to = 2, fd_router = [], fd_content = [42], fd_flags = 0\<rparr>"

definition sample_head :: message_head where
  "sample_head = zero_message_head\<lparr>mh_version := 3, mh_body_size := 1\<rparr>"

definition sample_note :: "bytes \<Rightarrow> message_head_crypto" where
  "sample_note iv = \<lparr>mc_algorithm = AES_128_CBC, mc_iv = iv, mc_aad = []\<rparr>"

definition sample_proto :: proto_lib where
  "sample_proto = \<lparr>size_body = \<lambda>b. if b = sample_body then 1 else 0,
     marshal_head = \<lambda>h. if h = sample_head then Some [0]
       else (case mh_crypto h of None \<Rightarrow> None
             | Some c \<Rightarrow> if h = sample_head\<lparr>mh_crypto := Some (sample_note (mc_iv c))\<rparr> \<and> length (mc_iv c) = 16 then Some (1 # mc_iv c) else None),
     marshal_body = \<lambda>b. if b = sample_body then Some [42] else if b = BodyNone then Some [] else None,
     unmarshal_head = \<lambda>x. if x = [0] then (sample_head, True) else (sample_head\<lparr>mh_crypto := Some (sample_note (tl x))\<rparr>, True),
     unmarshal_body = \<lambda>x. if x = [42] then (sample_body, True) else (BodyNone, x = [])\<rparr>"

definition sample_compression :: compression_lib where
  "sample_compression = \<lparr>lib_Compress = \<lambda>_ p. (p, ErrorCodeOk), lib_Decompress = \<lambda>_ c _. (c, ErrorCodeOk), lib_IsAlgorithmSupported = \<lambda>_. True\<rparr>"

lemma sample_proto_ok: "proto_ok sample_proto"
  unfolding proto_ok_def
proof (intro conjI allI impI)
  fix h x assume "marshal_head sample_proto h = Some x"
  then have "(h = sample_head \<and> x = [0]) \<or> (\<exists>iv. h = sample_head\<lparr>mh_crypto := Some (sample_note iv)\<rparr> \<and> length iv = 16 \<and> x = 1 # iv)"
    by (auto simp: sample_proto_def split: if_splits option.splits)
  then show "unmarshal_head sample_proto x = (h, True)" "length x < 2 ^ 31" by (auto simp: sample_proto_def)
qed (auto simp: sample_proto_def sample_body_def split: if_splits)

text \<open>The bytes of a head that claims to be almost \<open>2\<^sup>6\<^sup>3\<close> long: eight bytes \<open>0xFF\<close> and one \<open>0x7F\<close>.\<close>

theorem UnpackMessage_panics_iff_witness:
  "UnpackMessage sample_lib sample_compression sample_proto (Some NewMessage) (replicate 8 0xFF @ [0x7F]) 65536 (NewConnectionContext X25519) = Panics"
proof -
  have v: "ReadVint (replicate 8 0xFF @ [0x7F]) = (0x7FFFFFFFFFFFFFFF, 9)" by code_simp
  have open_ctx: "\<not> cx_closing (NewConnectionContext X25519)" "cx_readCrypto (NewConnectionContext X25519) \<noteq> None"
    by (simp_all add: NewConnectionContext_def Let_def)
  have "unat (0x7FFFFFFFFFFFFFFF :: uint64) = 2 ^ 63 - 1" by simp
  then have "2 ^ 63 \<le> unat (0x7FFFFFFFFFFFFFFF :: uint64) + 9" by simp
  moreover have "(replicate 8 0xFF @ [0x7F] :: bytes) \<noteq> []" "length (replicate 8 0xFF @ [0x7F] :: bytes) < 2 ^ 62"
    "(65536 :: int) \<le> 0 \<or> (int (length (replicate 8 0xFF @ [0x7F] :: bytes)) \<le> 65536 + 256 \<and> (65536 :: int) < 2 ^ 62)" "(9 :: nat) \<noteq> 0" by simp_all
  ultimately show ?thesis using UnpackMessage_panics_iff [OF open_ctx _ _ _ v, of 65536 sample_lib sample_compression sample_proto NewMessage] by blast
qed

theorem PackMessage_UnpackMessage_roundtrip_witness:
  "\<exists>cc1 m1 head blk packed.
    PackMessage sample_lib sample_compression sample_proto (\<lambda>n. Some [1]) (Some (NewMessage\<lparr>msg_body := Some sample_body\<rparr>)) 3 65536
      ((NewConnectionContext X25519)\<lparr>cx_writeCrypto := sample_session\<rparr>) = (cc1, Some m1, blk, EN_ATBUS_ERR_SUCCESS)
    \<and> StaticBufferBlock_UsedSpan blk = Returns packed
    \<and> UnpackMessage sample_lib sample_compression sample_proto (Some NewMessage) packed 0
        ((NewConnectionContext X25519)\<lparr>cx_readCrypto := Some sample_session\<rparr>)
        = Returns (Some (NewMessage\<lparr>msg_head := Some head, msg_body := Some sample_body\<rparr>), EN_ATBUS_ERR_SUCCESS)"
proof -
  define cc cc' where "cc = (NewConnectionContext X25519)\<lparr>cx_writeCrypto := sample_session\<rparr>"
    and "cc' = (NewConnectionContext X25519)\<lparr>cx_readCrypto := Some sample_session\<rparr>"
  define m where "m = NewMessage\<lparr>msg_body := Some sample_body\<rparr>"
  have "SetKey sample_lib (replicate 16 5) (replicate 16 0) AES_128_CBC NewCryptoSession = (sample_session, None)"
    by (simp add: sample_session_def prod_eq_iff SetKey_eq Let_def cipher_parts_def aes_key_ok_def)
  from SetKey_ready [OF this] have session: "session_ready sample_lib sample_session" "cs_Algorithm sample_session = AES_128_CBC" by simp_all
  have "compression_ok sample_compression" by (simp add: compression_ok_def sample_compression_def)
  moreover have "linked sample_lib sample_compression cc cc'"
    using session by (simp add: linked_def cc_def cc'_def NewConnectionContext_def Let_def same_key_def NewCompressionSession_def
        compressionAlgorithmSupported_def)
  moreover have "\<forall>n. (\<lambda>n. Some [1 :: 8 word]) n \<noteq> None" by simp
  moreover have "msg_body m = Some sample_body" "case msg_head m of None \<Rightarrow> True | Some h \<Rightarrow> fresh_head h"
    by (simp_all add: m_def NewMessage_def fresh_head_def zero_message_head_def)
  moreover have "marshal_body sample_proto sample_body = Some [42]" by (simp add: sample_proto_def)
  moreover have "(65536 :: int) \<le> 0 \<or> int (length [42 :: 8 word]) \<le> 65536" by simp
  moreover have "heads_encode sample_proto cc ((case msg_head m of None \<Rightarrow> zero_message_head | Some h \<Rightarrow> h)
      \<lparr>mh_version := 3, mh_body_size := word_of_nat (length [42 :: 8 word])\<rparr>)"
    unfolding heads_encode_def crypto_note_def compression_note_def
    using session(2) by (auto simp: m_def NewMessage_def cc_def NewConnectionContext_def Let_def NewCompressionSession_def
        sample_proto_def sample_head_def zero_message_head_def sample_note_def)
  ultimately obtain cc1 m1 head blk packed where
    "PackMessage sample_lib sample_compression sample_proto (\<lambda>n. Some [1]) (Some m) 3 65536 cc = (cc1, Some m1, blk, EN_ATBUS_ERR_SUCCESS)"
    "StaticBufferBlock_UsedSpan blk = Returns packed"
    "\<forall>max'. max' \<le> 0 \<or> (int (length packed) \<le> max' + 256 \<and> int (length [42 :: 8 word]) \<le> max' + 256 \<and> max' < 2 ^ 62) \<longrightarrow>
      UnpackMessage sample_lib sample_compression sample_proto (Some NewMessage) packed max' cc'
        = Returns (Some (NewMessage\<lparr>msg_head := Some head, msg_body := Some sample_body\<rparr>), EN_ATBUS_ERR_SUCCESS)"
    using PackMessage_UnpackMessage_roundtrip [OF sample_lib_ok _ sample_proto_ok, of sample_compression cc cc' "\<lambda>n. Some [1]" m sample_body "[42]" 65536 3]
    by blast
  then show ?thesis unfolding cc_def cc'_def m_def by blast
qed


text \<open>The note of an encryption, forwarded by a context that has none.\<close>

theorem forwarded_head_refused_witness:
  "\<exists>m1 blk packed m2. PackMessage sample_lib sample_compression sample_proto (\<lambda>n. None)
      (Some (NewMessage\<lparr>msg_head := Some (sample_head\<lparr>mh_crypto := Some (sample_note (replicate 16 7))\<rparr>), msg_body := Some sample_body\<rparr>)) 3 0
      (NewConnectionContext X25519) = (NewConnectionContext X25519, Some m1, blk, EN_ATBUS_ERR_SUCCESS)
    \<and> StaticBufferBlock_UsedSpan blk = Returns packed
    \<and> UnpackMessage sample_lib sample_compression sample_proto (Some NewMessage) packed 0 (NewConnectionContext X25519)
        = Returns (m2, EN_ATBUS_ERR_CRYPTO_ALGORITHM_NOT_MATCH)"
proof -
  define cc where "cc = NewConnectionContext X25519"
  define h where "h = sample_head\<lparr>mh_crypto := Some (sample_note (replicate 16 7))\<rparr>"
  define m where "m = NewMessage\<lparr>msg_head := Some h, msg_body := Some sample_body\<rparr>"
  have cc: "\<not> cx_closing cc" "\<not> cs_initialized (cx_writeCrypto cc)" "zs_Algorithm (cx_compression cc) = COMPRESSION_NONE"
    "cx_readCrypto cc = Some NewCryptoSession" "\<not> cs_initialized NewCryptoSession"
    by (simp_all add: cc_def NewConnectionContext_def Let_def NewCryptoSession_def NewCompressionSession_def)
  have head: "h\<lparr>mh_version := 3, mh_body_size := word_of_nat (length [42 :: 8 word])\<rparr> = h" by (simp add: h_def sample_head_def)
  have "msg_head m = Some h" "mh_crypto h = Some (sample_note (replicate 16 7))" "mc_algorithm (sample_note (replicate 16 7)) \<noteq> CRYPTO_NONE"
    "msg_body m = Some sample_body" by (simp_all add: m_def h_def sample_note_def)
  moreover have "marshal_body sample_proto sample_body = Some [42]" "marshal_head sample_proto h \<noteq> None"
    by (simp_all add: sample_proto_def h_def sample_note_def)
  ultimately show ?thesis
    using forwarded_head_refused [OF sample_proto_ok cc(1,1,2,3), of m h "sample_note (replicate 16 7)" sample_body "[42]" 0 3 NewCryptoSession
        sample_lib sample_compression "\<lambda>n. None"] cc(4,5) head
    unfolding cc_def [symmetric] m_def [symmetric] h_def [symmetric] by auto
qed

end
