(* ===== verification/Bus.thy ===== *)
theory Bus
  imports Io_Stream Node_Route Access_Data Message_Codec
begin

unbundle bit_operations_syntax

section \<open>Nodes that send and receive\<close>

text \<open>
  A node with everything its message handlers touch: the objects of \<open>Node_State\<close>, the context of every connection, the queues of
  messages a node sends to itself, and what reached the channel. The surroundings are an environment: the libraries, the
  application's handlers and the answers of channel, clock and random source, which may be different at every call, so they
  get a counter of the calls that grows with each of them.

  An operation maps a state to nothing when it does not return, to a panic, or to a result and a new state. \<open>bind_op\<close> is the sequence
  of two statements.
\<close>

subsection \<open>States, environments, operations\<close>

record ('p, 'c) Bus =
  bs_node :: "('p, 'c) Node"
  bs_ctx :: "ConnectionContext list"
  bs_keyExchange :: ATBUS_CRYPTO_KEY_EXCHANGE_TYPE
  bs_channel :: bool
  bs_private :: "nat \<Rightarrow> nat option"
  bs_selfData :: "Message list"
  bs_selfCommand :: "Message list"
  bs_dispatchTimes :: uint64
  bs_hashCode :: string
  bs_ioConf :: "IoStreamConfigure option"
  bs_calls :: nat
  bs_sent :: "(nat \<times> bytes) list"

text \<open>
  \<open>bs_private\<close> are the private data of the stream connections: the connection each belongs to. \<open>bs_sent\<close> records the bytes the channel
  accepted, with the connection they were pushed to.
\<close>

text \<open>
  The timer lists are also queues: the entry at the front is the one that was put first.
\<close>

record ('m, 'k, 'v) LRUQueue =
  lru_New :: 'm
  lru_Front :: "'m \<Rightarrow> ('k \<times> 'v) option"
  lru_PopFront :: "'m \<Rightarrow> 'm"

record ('p, 'c) env =
  en_ping :: "'p ping_ops"
  en_connecting :: "'c connecting_ops"
  en_pingQueue :: "('p, nat, int \<times> nat) LRUQueue"
  en_connectingQueue :: "('c, string, int \<times> nat) LRUQueue"
  en_crypto :: crypto_lib
  en_compression :: compression_lib
  en_proto :: proto_lib
  en_sha256 :: "bytes \<Rightarrow> bytes"
  en_hmac :: "bytes \<Rightarrow> bytes \<Rightarrow> bytes"
  en_lower :: "string \<Rightarrow> string"
  en_pid :: int
  en_hostname :: string
  en_osHostname :: string
  en_interfaces :: "(bool \<times> bytes) list"
  en_nodeAddress :: uint64
  en_scheme_order :: "string list \<Rightarrow> string list"
  en_time :: "nat \<Rightarrow> int"
  en_random :: "nat \<Rightarrow> nat \<Rightarrow> bytes option"
  en_entropy :: "nat \<Rightarrow> bytes"
  en_uint64 :: "nat \<Rightarrow> uint64"
  en_send :: "nat \<Rightarrow> nat \<Rightarrow> bytes \<Rightarrow> ErrorType"
  en_connect :: "nat \<Rightarrow> string \<Rightarrow> nat \<times> ErrorType"
  en_listen :: "nat \<Rightarrow> string \<Rightarrow> ErrorType"
  en_open :: "nat \<Rightarrow> nat list"
  en_ioAddress :: "nat \<Rightarrow> string"
  en_onNodeDown :: "ErrorType \<Rightarrow> ErrorType"
  en_onNewConnection :: "nat \<Rightarrow> ErrorType"
  en_onCommand :: "nat \<Rightarrow> BusIdType \<Rightarrow> bytes list \<Rightarrow> ErrorType \<times> bytes list"
  en_onCommandResponse :: "nat \<Rightarrow> BusIdType \<Rightarrow> bytes list \<Rightarrow> uint64 \<Rightarrow> ErrorType"

text \<open>
  \<open>en_time\<close> is the clock in nanoseconds, \<open>en_random\<close> the system's random bytes, \<open>en_entropy\<close> those of a new key pair, \<open>en_uint64\<close> the
  numbers of \<open>rand.Uint64\<close>; \<open>en_scheme_order\<close> the order in which Go happens to iterate over the set of schemes.
  \<open>en_interfaces\<close> are the network interfaces of the host (whether each is a loopback, and its hardware address), \<open>en_open\<close> the stream
  connections a channel still has when it is closed, \<open>en_ioAddress\<close> the address of a stream connection, and \<open>en_nodeAddress\<close> where the
  node lies in memory.
\<close>

type_synonym ('p, 'c, 'a) op = "('p, 'c) Bus \<Rightarrow> ('a \<times> ('p, 'c) Bus) outcome option"

definition ret_op :: "'a \<Rightarrow> ('p, 'c, 'a) op" where
  "ret_op x b = Some (Returns (x, b))"

definition bind_op :: "('p, 'c, 'a) op \<Rightarrow> ('a \<Rightarrow> ('p, 'c, 'b) op) \<Rightarrow> ('p, 'c, 'b) op" where
  "bind_op m f b = (case m b of None \<Rightarrow> None | Some Panics \<Rightarrow> Some Panics | Some (Returns (x, b)) \<Rightarrow> f x b)"

definition panic_op :: "('p, 'c, 'a) op" where
  "panic_op b = Some Panics"

definition get_op :: "(('p, 'c) Bus \<Rightarrow> 'a) \<Rightarrow> ('p, 'c, 'a) op" where
  "get_op f b = Some (Returns (f b, b))"

definition modify_op :: "(('p, 'c) Bus \<Rightarrow> ('p, 'c) Bus) \<Rightarrow> ('p, 'c, unit) op" where
  "modify_op f b = Some (Returns ((), f b))"

definition when_op :: "bool \<Rightarrow> ('p, 'c, unit) op \<Rightarrow> ('p, 'c, unit) op" where
  "when_op c m = (if c then m else ret_op ())"

definition run_op :: "(('p, 'c) Bus \<Rightarrow> ('p, 'c, 'a) op) \<Rightarrow> ('p, 'c, 'a) op" where
  "run_op f b = f b b"

text \<open>Operations of the parts.\<close>

definition node_op :: "(('p, 'c) Node \<Rightarrow> ('p, 'c) Node) \<Rightarrow> ('p, 'c, unit) op" where
  "node_op f = modify_op (\<lambda>b. b\<lparr>bs_node := f (bs_node b)\<rparr>)"

definition node_run :: "(('p, 'c) Node \<Rightarrow> ('p, 'c) Node \<times> 'a) \<Rightarrow> ('p, 'c, 'a) op" where
  "node_run f b = (let (n, x) = f (bs_node b) in Some (Returns (x, b\<lparr>bs_node := n\<rparr>)))"

definition node_opt :: "(('p, 'c) Node \<Rightarrow> ('p, 'c) Node option) \<Rightarrow> ('p, 'c, unit) op" where
  "node_opt f b = map_option (\<lambda>n. Returns ((), b\<lparr>bs_node := n\<rparr>)) (f (bs_node b))"

definition ctx_op :: "nat \<Rightarrow> (ConnectionContext \<Rightarrow> ConnectionContext) \<Rightarrow> ('p, 'c, unit) op" where
  "ctx_op c f = modify_op (\<lambda>b. b\<lparr>bs_ctx := (bs_ctx b)[c := f (bs_ctx b ! c)]\<rparr>)"

definition ctx_run :: "nat \<Rightarrow> (ConnectionContext \<Rightarrow> ConnectionContext \<times> 'a) \<Rightarrow> ('p, 'c, 'a) op" where
  "ctx_run c f b = (let (cc, x) = f (bs_ctx b ! c) in Some (Returns (x, b\<lparr>bs_ctx := (bs_ctx b)[c := cc]\<rparr>)))"

definition ctx_out :: "nat \<Rightarrow> (ConnectionContext \<Rightarrow> (ConnectionContext \<times> 'a) outcome) \<Rightarrow> ('p, 'c, 'a) op" where
  "ctx_out c f b = (case f (bs_ctx b ! c) of Panics \<Rightarrow> Some Panics | Returns (cc, x) \<Rightarrow> Some (Returns (x, b\<lparr>bs_ctx := (bs_ctx b)[c := cc]\<rparr>)))"

definition event_op :: "node_event \<Rightarrow> ('p, 'c, unit) op" where
  "event_op ev = node_op (log_event ev)"

text \<open>A call of the surroundings: its number, and the counter moves on.\<close>

definition call_op :: "('p, 'c, nat) op" where
  "call_op b = Some (Returns (bs_calls b, b\<lparr>bs_calls := bs_calls b + 1\<rparr>))"

definition conn_of :: "('p, 'c) Bus \<Rightarrow> nat \<Rightarrow> Connection" where
  "conn_of b c = nd_conns (bs_node b) ! c"

definition ctx_of :: "('p, 'c) Bus \<Rightarrow> nat \<Rightarrow> ConnectionContext" where
  "ctx_of b c = bs_ctx b ! c"

definition conf_of :: "('p, 'c) Bus \<Rightarrow> NodeConfigure" where
  "conf_of b = nd_configure (bs_node b)"

definition getConnectionBinding :: "('p, 'c) Bus \<Rightarrow> nat option \<Rightarrow> nat option" where
  "getConnectionBinding b conn = (case conn of None \<Rightarrow> None | Some c \<Rightarrow> cn_binding (conn_of b c))"

text \<open>The connection resets of \<open>Endpoint\<close> need a recursion depth, which is always enough at four.\<close>

definition reset_conn :: "('p, 'c) env \<Rightarrow> nat \<Rightarrow> ('p, 'c, unit) op" where
  "reset_conn E c = node_opt (Connection_Reset (en_ping E) (en_connecting E) 4 c)"

definition reset_ep :: "('p, 'c) env \<Rightarrow> nat \<Rightarrow> ('p, 'c, unit) op" where
  "reset_ep E e = node_opt (Endpoint_Reset (en_ping E) (en_connecting E) 4 e)"

end
