(* ===== verification/Message_Send.thy ===== *)
theory Message_Send
  imports Bus
begin

unbundle bit_operations_syntax

section \<open>Sending and connecting (message\_handle/, impl/atbus\_connection.go, impl/atbus\_node.go)\<close>

text \<open>
  How a node packs and pushes messages, the messages it writes itself (ping, registration, confirmation of a handshake), and how it
  opens connections. A message is handed on by value: an operation that changes the message of its caller returns it.
\<close>

subsection \<open>Sending a message\<close>

definition push_op :: "('p, 'c) env \<Rightarrow> nat \<Rightarrow> bytes \<Rightarrow> ('p, 'c, ErrorType) op" where
  "push_op E c data = bind_op call_op (\<lambda>t b.
     let (cn, r) = Push (if bs_channel b then Some (en_send E t) else None) data (conn_of b c);
         b = b\<lparr>bs_node := upd_conn c (\<lambda>_. cn) (bs_node b)\<rparr>
     in Some (Returns (r, if r = EN_ATBUS_ERR_SUCCESS then b\<lparr>bs_sent := bs_sent b @ [(c, data)]\<rparr> else b)))"

definition SendMessage :: "('p, 'c) env \<Rightarrow> nat option \<Rightarrow> Message option \<Rightarrow> ('p, 'c, Message option \<times> ErrorType) op" where
  "SendMessage E conn om =
     (case conn of None \<Rightarrow> ret_op (om, EN_ATBUS_ERR_PARAMS) | Some c \<Rightarrow>
      case om of None \<Rightarrow> ret_op (om, EN_ATBUS_ERR_PARAMS) | Some m \<Rightarrow>
        bind_op call_op (\<lambda>t. run_op (\<lambda>b.
          bind_op (ctx_run c (PackMessage (en_crypto E) (en_compression E) (en_proto E) (en_random E t) (Some (fst (MutableHead m)))
                     (ProtocolVersion (conf_of b)) (int_of_uint64 (MessageSize (conf_of b)))))
            (\<lambda>(om, buf, errCode).
              if errCode \<noteq> EN_ATBUS_ERR_SUCCESS then ret_op (om, errCode)
              else if buf = None then ret_op (om, EN_ATBUS_ERR_INNER)
              else case StaticBufferBlock_UsedSpan buf of
                Panics \<Rightarrow> panic_op
              | Returns data \<Rightarrow> bind_op (push_op E c data) (\<lambda>r. ret_op (om, r))))))"

subsection \<open>Messages of the node itself\<close>

definition SendHandshakeConfirm :: "('p, 'c) env \<Rightarrow> nat option \<Rightarrow> uint64 \<Rightarrow> ('p, 'c, ErrorType) op" where
  "SendHandshakeConfirm E conn sq =
     (case conn of None \<Rightarrow> ret_op EN_ATBUS_ERR_PARAMS | Some c \<Rightarrow>
      bind_op (ctx_run c GetNextSequence) (\<lambda>next_sq. run_op (\<lambda>b.
        let m = NewMessage\<lparr>msg_head := Some (zero_message_head\<lparr>mh_version := ProtocolVersion (conf_of b), mh_sequence := next_sq,
                     mh_source_bus_id := Node_GetId (bs_node b)\<rparr>), msg_body := Some (BodyHandshakeConfirm \<lparr>hc_sequence = sq\<rparr>)\<rparr>
        in bind_op (SendMessage E (Some c) (Some m)) (\<lambda>(_, r). ret_op r))))"

text \<open>The refresh of the keys that a ping of the client carries: due when the interval has passed, or when the clock went back.\<close>

definition refresh_due :: "('p, 'c) Bus \<Rightarrow> nat \<Rightarrow> bool" where
  "refresh_due b c \<longleftrightarrow>
     (let interval = CryptoKeyRefreshInterval (conf_of b); start = GetHandshakeStartTime (ctx_of b c); now = nd_tick (bs_node b)
      in 0 < interval \<and> (start + interval < now \<or> now + interval < start))"

definition SendPing :: "('p, 'c) env \<Rightarrow> nat option \<Rightarrow> uint64 \<Rightarrow> ('p, 'c, ErrorType) op" where
  "SendPing E conn messageSequence =
     (case conn of None \<Rightarrow> ret_op EN_ATBUS_ERR_PARAMS | Some c \<Rightarrow> run_op (\<lambda>b.
        let head = zero_message_head\<lparr>mh_version := ProtocolVersion (conf_of b), mh_sequence := messageSequence,
                     mh_source_bus_id := Node_GetId (bs_node b)\<rparr>;
            body = \<lparr>pd_time_point = nd_tick (bs_node b) div 1000, pd_crypto_handshake = None\<rparr>
        in bind_op
             (if CheckFlag ConnectionFlag_ClientMode (conn_of b c) \<and> GetCryptoSelectAlgorithm (ctx_of b c) \<noteq> CRYPTO_NONE \<and> refresh_due b c
              then bind_op call_op (\<lambda>t.
                bind_op (ctx_run c (HandshakeGenerateSelfKey (en_crypto E) (en_time E t) (en_entropy E t) 0)) (\<lambda>resultCode.
                  if resultCode \<noteq> EN_ATBUS_ERR_SUCCESS then ret_op body
                  else run_op (\<lambda>b. ret_op (body\<lparr>pd_crypto_handshake :=
                         fst (HandshakeWriteSelfPublicKey (Some zero_crypto_handshake_data) (CryptoAllowAlgorithms (conf_of b)) (ctx_of b c))\<rparr>))))
              else ret_op body)
             (\<lambda>body. bind_op (SendMessage E (Some c) (Some (NewMessage\<lparr>msg_head := Some head, msg_body := Some (BodyNodePingReq body)\<rparr>)))
                (\<lambda>(_, r). ret_op r))))"

definition supported_channel_schemes :: "string list" where
  "supported_channel_schemes = [''dns'', ''ipv4'', ''ipv6'', ''atcp'', ''unix'', ''pipe'']"

definition wrap32 :: "int \<Rightarrow> int" where
  "wrap32 x = (x + 2 ^ 31) mod 2 ^ 32 - 2 ^ 31"

definition GetListenList :: "('p, 'c) Node \<Rightarrow> ChannelAddress list" where
  "GetListenList n = (case nd_self n of None \<Rightarrow> [] | Some e \<Rightarrow> ep_listenAddress (nd_eps n ! e))"

definition GetPid :: "('p, 'c) env \<Rightarrow> int" where
  "GetPid E = en_pid E"

definition GetHostname :: "('p, 'c) env \<Rightarrow> string" where
  "GetHostname E = en_hostname E"

text \<open>The registration without its key exchange and signature, with the data of the node's own endpoint.\<close>

definition register_body :: "('p, 'c) env \<Rightarrow> Endpoint \<Rightarrow> ('p, 'c) Bus \<Rightarrow> register_data" where
  "register_body E self b =
     \<lparr>rd_bus_id = Node_GetId (bs_node b), rd_pid = wrap32 (GetPid E), rd_hostname = GetHostname E,
      rd_channels = map ca_Address (GetListenList (bs_node b)), rd_supported_channel_schema = en_scheme_order E supported_channel_schemes,
      rd_supported_compression_algorithm =
        filter (IsCompressionAlgorithmSupported (en_compression E)) (CompressionAllowAlgorithms (conf_of b)),
      rd_flags = ep_flags self, rd_access_key = None, rd_hash_code = ep_hashCode self, rd_crypto_handshake = None\<rparr>"

text \<open>A client makes its key pair; then the public key is written into the message.\<close>

definition register_key :: "('p, 'c) env \<Rightarrow> MessageBodyType \<Rightarrow> nat \<Rightarrow> ('p, 'c, ErrorType) op" where
  "register_key E bodyType c = run_op (\<lambda>b.
     if bodyType = MessageBodyTypeNodeRegisterReq \<and> CheckFlag ConnectionFlag_ClientMode (conn_of b c)
        \<and> GetCryptoKeyExchangeAlgorithm (ctx_of b c) \<noteq> KEY_EXCHANGE_NONE
     then bind_op call_op (\<lambda>t. ctx_run c (HandshakeGenerateSelfKey (en_crypto E) (en_time E t) (en_entropy E t) 0))
     else ret_op EN_ATBUS_ERR_SUCCESS)"

definition register_handshake :: "ErrorType \<Rightarrow> nat \<Rightarrow> ('p, 'c) Bus \<Rightarrow> crypto_handshake_data option" where
  "register_handshake errcode c b =
     (if errcode = EN_ATBUS_ERR_SUCCESS \<and> GetCryptoKeyExchangeAlgorithm (ctx_of b c) \<noteq> KEY_EXCHANGE_NONE then
        let allowedAlgorithms = (if CheckFlag ConnectionFlag_ServerMode (conn_of b c) then [GetCryptoSelectAlgorithm (ctx_of b c)]
                                 else CryptoAllowAlgorithms (conf_of b))
        in fst (HandshakeWriteSelfPublicKey (Some zero_crypto_handshake_data) allowedAlgorithms (ctx_of b c))
      else None)"

definition sign_op ::
  "('p, 'c) env \<Rightarrow> (int \<Rightarrow> uint64 \<Rightarrow> uint64 \<Rightarrow> access_data option) \<Rightarrow> ('p, 'c, access_data option) op" where
  "sign_op E f = bind_op call_op (\<lambda>t1. bind_op call_op (\<lambda>t2. bind_op call_op (\<lambda>t3.
     ret_op (f (en_time E t3 div 1000000000) (en_uint64 E t1) (en_uint64 E t2)))))"

definition SendRegister :: "('p, 'c) env \<Rightarrow> MessageBodyType \<Rightarrow> nat option \<Rightarrow> ErrorType \<Rightarrow> uint64 \<Rightarrow> ('p, 'c, ErrorType) op" where
  "SendRegister E bodyType conn errcode messageSequence =
     (if bodyType \<noteq> MessageBodyTypeNodeRegisterReq \<and> bodyType \<noteq> MessageBodyTypeNodeRegisterRsp then ret_op EN_ATBUS_ERR_PARAMS
      else case conn of None \<Rightarrow> ret_op EN_ATBUS_ERR_PARAMS | Some c \<Rightarrow> run_op (\<lambda>b.
        case nd_self (bs_node b) of None \<Rightarrow> ret_op EN_ATBUS_ERR_NOT_INITED | Some e \<Rightarrow>
          let head = zero_message_head\<lparr>mh_version := ProtocolVersion (conf_of b), mh_sequence := messageSequence,
                       mh_source_bus_id := Node_GetId (bs_node b), mh_result_code := errcode\<rparr>;
              body = register_body E (nd_eps (bs_node b) ! e) b
          in bind_op (register_key E bodyType c) (\<lambda>resultCode.
               if resultCode \<noteq> EN_ATBUS_ERR_SUCCESS then ret_op resultCode
               else run_op (\<lambda>b.
                 let body = body\<lparr>rd_crypto_handshake := register_handshake errcode c b\<rparr> in
                 bind_op (sign_op E (\<lambda>now nonce1 nonce2. GenerateAccessData (en_sha256 E) (en_hmac E) now (Some zero_access_data)
                            (Node_GetId (bs_node b)) nonce1 nonce2 (AccessTokens (conf_of b)) (rd_crypto_handshake body)))
                   (\<lambda>ad.
                     let body = body\<lparr>rd_access_key := ad\<rparr>;
                         m = NewMessage\<lparr>msg_head := Some head, msg_body :=
                               Some (if bodyType = MessageBodyTypeNodeRegisterReq then BodyNodeRegisterReq body else BodyNodeRegisterRsp body)\<rparr>
                     in bind_op (SendMessage E (Some c) (Some m)) (\<lambda>(_, r). ret_op r))))))"

subsection \<open>Connections\<close>

definition create_connection :: "('p, 'c) env \<Rightarrow> string \<Rightarrow> ('p, 'c, nat option) op" where
  "create_connection E addr b =
     (case CreateConnection (en_lower E) addr (bs_node b) of
        None \<Rightarrow> Some (Returns (None, b))
      | Some (n, c) \<Rightarrow>
          Some (Returns (Some c, b\<lparr>bs_node := n,
            bs_ctx := bs_ctx b @ [SetSupportedKeyExchange (bs_keyExchange b) (NewConnectionContext (bs_keyExchange b))]\<rparr>)))"

definition conn_op :: "nat \<Rightarrow> (Connection \<Rightarrow> Connection) \<Rightarrow> ('p, 'c, unit) op" where
  "conn_op c f = node_op (upd_conn c f)"

definition Node_OnNewConnection :: "('p, 'c) env \<Rightarrow> nat \<Rightarrow> ('p, 'c, ErrorType) op" where
  "Node_OnNewConnection E c =
     bind_op (event_op (OnNewConnection c)) (\<lambda>_. bind_op call_op (\<lambda>t. run_op (\<lambda>b.
       if CheckFlag ConnectionFlag_RegFd (conn_of b c) \<and> \<not> CheckFlag ConnectionFlag_ListenFd (conn_of b c)
          \<and> CheckFlag ConnectionFlag_ClientMode (conn_of b c)
       then
         bind_op (node_run AllocateMessageSequence) (\<lambda>sq.
           bind_op (SendRegister E MessageBodyTypeNodeRegisterReq (Some c) EN_ATBUS_ERR_SUCCESS sq) (\<lambda>r.
             bind_op (when_op (r \<noteq> EN_ATBUS_ERR_SUCCESS) (reset_conn E c)) (\<lambda>_. ret_op r)))
       else ret_op (en_onNewConnection E t))))"

text \<open>\<open>Connection.Connect\<close>: the entry in the list of connections being opened, the channel's answer, and the registration.\<close>

definition Connection_Connect :: "('p, 'c) env \<Rightarrow> nat \<Rightarrow> ('p, 'c, ErrorType) op" where
  "Connection_Connect E c = run_op (\<lambda>b.
     if \<not> bs_channel b then ret_op EN_ATBUS_ERR_CHANNEL_NOT_SUPPORT
     else
       let addr = ca_Address (cn_address (conn_of b c)) in
       bind_op (conn_op c (\<lambda>cn. Connection_setFlag ConnectionFlag_ClientMode True
                  (Connection_setFlag ConnectionFlag_RegFd True (setStatus ConnectionState_Connecting cn)))) (\<lambda>_.
       bind_op (node_op (\<lambda>n. n\<lparr>nd_connectingList := lru_Put (en_connecting E) addr
                  (nd_tick n + FirstIdleTimeout (nd_configure n), c) (nd_connectingList n)\<rparr>)) (\<lambda>_.
       bind_op call_op (\<lambda>t.
         let (io, r) = en_connect E t addr in
         if r \<noteq> EN_ATBUS_ERR_SUCCESS then
           bind_op (conn_op c (\<lambda>cn. Connection_setFlag ConnectionFlag_ClientMode False (setStatus ConnectionState_Disconnected cn))) (\<lambda>_.
           bind_op (node_op (\<lambda>n. n\<lparr>nd_connectingList := lru_Delete (en_connecting E) addr (nd_connectingList n)\<rparr>)) (\<lambda>_. ret_op r))
         else
           bind_op (conn_op c (\<lambda>cn. cn\<lparr>cn_ioStreamConnection := Some io\<rparr>)) (\<lambda>_.
           bind_op (modify_op (\<lambda>b. b\<lparr>bs_private := (bs_private b)(io := Some c)\<rparr>)) (\<lambda>_.
           bind_op (conn_op c (setStatus ConnectionState_Handshaking)) (\<lambda>_.
           bind_op (Node_OnNewConnection E c) (\<lambda>r.
             if r \<noteq> EN_ATBUS_ERR_SUCCESS then bind_op (reset_conn E c) (\<lambda>_. ret_op r)
             else ret_op EN_ATBUS_ERR_SUCCESS))))))))"

definition is_connecting :: "('p, 'c) env \<Rightarrow> string \<Rightarrow> ('p, 'c) Bus \<Rightarrow> bool" where
  "is_connecting E address b \<longleftrightarrow>
     (case lru_Get (en_connecting E) address (nd_connectingList (bs_node b)) of
        None \<Rightarrow> False
      | Some (_, c) \<Rightarrow> \<not> IsConnected (conn_of b c))"

definition Connect :: "('p, 'c) env \<Rightarrow> string \<Rightarrow> ('p, 'c, ErrorType) op" where
  "Connect E address = run_op (\<lambda>b.
     if nd_state (bs_node b) = NodeState_Created then ret_op EN_ATBUS_ERR_NOT_INITED
     else if is_connecting E address b then ret_op EN_ATBUS_ERR_SUCCESS
     else bind_op (create_connection E address) (\<lambda>conn.
       case conn of None \<Rightarrow> ret_op EN_ATBUS_ERR_MALLOC
       | Some c \<Rightarrow> bind_op (Connection_Connect E c) (\<lambda>r.
           if r \<noteq> EN_ATBUS_ERR_SUCCESS then ret_op r else ret_op EN_ATBUS_ERR_SUCCESS)))"

definition ConnectWithEndpoint :: "('p, 'c) env \<Rightarrow> string \<Rightarrow> nat option \<Rightarrow> ('p, 'c, ErrorType) op" where
  "ConnectWithEndpoint E address ep = run_op (\<lambda>b.
     if nd_state (bs_node b) = NodeState_Created then ret_op EN_ATBUS_ERR_NOT_INITED
     else case ep of None \<Rightarrow> ret_op EN_ATBUS_ERR_PARAMS | Some e \<Rightarrow>
       if is_connecting E address b then ret_op EN_ATBUS_ERR_SUCCESS
       else bind_op (create_connection E address) (\<lambda>conn.
         case conn of None \<Rightarrow> ret_op EN_ATBUS_ERR_MALLOC
         | Some c \<Rightarrow> bind_op (Connection_Connect E c) (\<lambda>r.
             if r \<noteq> EN_ATBUS_ERR_SUCCESS then ret_op r
             else bind_op (node_run (AddConnection e c False)) (\<lambda>added.
               ret_op (if added then EN_ATBUS_ERR_SUCCESS else EN_ATBUS_ERR_BAD_DATA)))))"

definition Listen :: "('p, 'c) env \<Rightarrow> string \<Rightarrow> ('p, 'c, ErrorType) op" where
  "Listen E address = run_op (\<lambda>b.
     if nd_state (bs_node b) = NodeState_Created then ret_op EN_ATBUS_ERR_NOT_INITED
     else case nd_self (bs_node b) of None \<Rightarrow> ret_op EN_ATBUS_ERR_NOT_INITED | Some self \<Rightarrow>
       bind_op (create_connection E address) (\<lambda>conn.
         case conn of None \<Rightarrow> ret_op EN_ATBUS_ERR_MALLOC
         | Some c \<Rightarrow> bind_op call_op (\<lambda>t.
             bind_op (node_run (\<lambda>n.
                 let (cn, r) = Connection_Listen (if bs_channel b then Some (en_listen E t) else None) (nd_conns n ! c)
                 in (upd_conn c (\<lambda>_. cn) n, r))) (\<lambda>r.
               if r \<noteq> EN_ATBUS_ERR_SUCCESS then ret_op r
               else bind_op (node_run (AddConnection self c False)) (\<lambda>added.
                 if \<not> added then ret_op EN_ATBUS_ERR_NOT_INITED
                 else run_op (\<lambda>b.
                   bind_op (node_op (upd_ep self (AddListenAddress (en_lower E) (ca_Address (cn_address (conn_of b c)))))) (\<lambda>_.
                     ret_op EN_ATBUS_ERR_SUCCESS)))))))"

end
