(* ===== verification/Message_Handler.thy ===== *)
theory Message_Handler
  imports Message_Send "HOL-Library.List_Lexorder" "HOL-Library.Char_ord" "HOL-Library.Product_Lexorder"
begin

unbundle bit_operations_syntax

section \<open>Handling messages (message\_handle/atbus\_message\_handler.go, impl/atbus\_node.go)\<close>

text \<open>
  What a node does with a message: transfers and their responses, custom commands, registration, ping and pong, the confirmation of
  a handshake; and the messages a node sends to itself, which it queues and dispatches. Handling a message may send one to the node
  itself, and that may dispatch again: every operation that sends takes the dispatcher as an argument \<open>D\<close>, and
  \<open>dispatchAllSelfMessages\<close> closes the circle with a recursion depth.
\<close>

subsection \<open>Sending to a bus id\<close>

definition is_data_body :: "MessageBodyType \<Rightarrow> bool" where
  "is_data_body t \<longleftrightarrow> t = MessageBodyTypeDataTransformReq \<or> t = MessageBodyTypeDataTransformRsp"

definition is_command_body :: "MessageBodyType \<Rightarrow> bool" where
  "is_command_body t \<longleftrightarrow> t = MessageBodyTypeCustomCommandReq \<or> t = MessageBodyTypeCustomCommandRsp"

text \<open>The head gets a sequence number if it has none.\<close>

definition ensure_sequence :: "Message \<Rightarrow> message_head \<Rightarrow> ('p, 'c, Message) op" where
  "ensure_sequence m head =
     (if mh_sequence head = 0
      then bind_op (node_run AllocateMessageSequence) (\<lambda>sq. ret_op (m\<lparr>msg_head := Some (head\<lparr>mh_sequence := sq\<rparr>)\<rparr>))
      else ret_op m)"

definition send_self :: "('p, 'c, int) op \<Rightarrow> Message \<Rightarrow> ('p, 'c, ErrorType \<times> nat option \<times> nat option) op" where
  "send_self D m =
     (case msg_head m of None \<Rightarrow> ret_op (EN_ATBUS_ERR_UNPACK, None, None) | Some head \<Rightarrow>
      if GetBodyType (Some m) = MessageBodyTypeUnknown then ret_op (EN_ATBUS_ERR_UNPACK, None, None)
      else bind_op (ensure_sequence m head) (\<lambda>m.
        let bodyType = GetBodyType (Some m) in
        if \<not> is_data_body bodyType \<and> \<not> is_command_body bodyType then ret_op (EN_ATBUS_ERR_ATNODE_INVALID_MSG, None, None)
        else
          bind_op (modify_op (\<lambda>b. if is_data_body bodyType then b\<lparr>bs_selfData := bs_selfData b @ [m]\<rparr>
                                  else b\<lparr>bs_selfCommand := bs_selfCommand b @ [m]\<rparr>)) (\<lambda>_.
          bind_op D (\<lambda>_. ret_op (EN_ATBUS_ERR_SUCCESS, None, None)))))"

definition get_peer_channel ::
  "('p, 'c) choose_connection \<Rightarrow> NodeGetPeerOptions option \<Rightarrow> BusIdType \<Rightarrow> ('p, 'c, ErrorType \<times> nat option \<times> nat option) op" where
  "get_peer_channel fn options tid b =
     (case GetPeerChannel fn options tid (bs_node b) of
        None \<Rightarrow> None
      | Some (n, r, ep, conn, _) \<Rightarrow> Some (Returns ((r, ep, conn), b\<lparr>bs_node := n\<rparr>)))"

definition Node_sendMessage ::
  "('p, 'c) env \<Rightarrow> ('p, 'c, int) op \<Rightarrow> BusIdType \<Rightarrow> Message \<Rightarrow> ('p, 'c) choose_connection \<Rightarrow> NodeSendDataOptions option
    \<Rightarrow> ('p, 'c, ErrorType \<times> nat option \<times> nat option) op" where
  "Node_sendMessage E D tid m fn options = run_op (\<lambda>b.
     if nd_state (bs_node b) = NodeState_Created then ret_op (EN_ATBUS_ERR_NOT_INITED, None, None)
     else if tid = Node_GetId (bs_node b) then send_self D m
     else
       let opts = (if SendDataOptions_GetFlag NodeSendDataOptionFlag_NoUpstream options
                   then GetPeerOptions_SetFlag NodeGetPeerOptionFlag_NoUpstream True CreateNodeGetPeerOptions
                   else CreateNodeGetPeerOptions)
       in bind_op (get_peer_channel fn (Some opts) tid) (\<lambda>(res, ep, conn).
            if res \<noteq> EN_ATBUS_ERR_SUCCESS then ret_op (res, ep, conn)
            else if conn = None then ret_op (EN_ATBUS_ERR_ATNODE_NO_CONNECTION, ep, conn)
            else case msg_head m of None \<Rightarrow> ret_op (EN_ATBUS_ERR_UNPACK, ep, conn) | Some head \<Rightarrow>
              if GetBodyType (Some m) = MessageBodyTypeUnknown then ret_op (EN_ATBUS_ERR_UNPACK, ep, conn)
              else bind_op (ensure_sequence m head) (\<lambda>m.
                bind_op (SendMessage E conn (Some m)) (\<lambda>(_, r). ret_op (r, ep, conn)))))"

definition SendDataMessage ::
  "('p, 'c) env \<Rightarrow> ('p, 'c, int) op \<Rightarrow> BusIdType \<Rightarrow> Message \<Rightarrow> NodeSendDataOptions option \<Rightarrow> ('p, 'c, ErrorType \<times> nat option \<times> nat option) op" where
  "SendDataMessage E D tid m options = Node_sendMessage E D tid m (\<lambda>from peer n. GetDataConnection from peer False n) options"

definition SendCtrlMessage ::
  "('p, 'c) env \<Rightarrow> ('p, 'c, int) op \<Rightarrow> BusIdType \<Rightarrow> Message \<Rightarrow> NodeSendDataOptions option \<Rightarrow> ('p, 'c, ErrorType \<times> nat option \<times> nat option) op" where
  "SendCtrlMessage E D tid m options = Node_sendMessage E D tid m (\<lambda>from peer n. (n, GetCtrlConnection n from peer)) options"

subsection \<open>What the node tells the application\<close>

definition OnReceiveData :: "nat option \<Rightarrow> nat option \<Rightarrow> Message \<Rightarrow> bytes \<Rightarrow> ('p, 'c, unit) op" where
  "OnReceiveData ep conn m data = run_op (\<lambda>b.
     let ep = (if ep = None then getConnectionBinding b conn else ep) in event_op (OnForwardRequest ep conn m data))"

definition OnReceiveForwardResponse :: "nat option \<Rightarrow> nat option \<Rightarrow> Message \<Rightarrow> ('p, 'c, unit) op" where
  "OnReceiveForwardResponse ep conn m = event_op (OnForwardResponse ep conn m)"

definition Node_OnRegister :: "nat option \<Rightarrow> nat option \<Rightarrow> ErrorType \<Rightarrow> ('p, 'c, unit) op" where
  "Node_OnRegister ep conn code = event_op (OnRegister ep conn code)"

definition Node_OnCustomCommandRequest ::
  "('p, 'c) env \<Rightarrow> nat option \<Rightarrow> nat option \<Rightarrow> BusIdType \<Rightarrow> bytes list \<Rightarrow> ('p, 'c, ErrorType \<times> bytes list) op" where
  "Node_OnCustomCommandRequest E ep conn from argv =
     bind_op (event_op (OnCustomCommandRequest ep conn from argv)) (\<lambda>_. bind_op call_op (\<lambda>t. ret_op (en_onCommand E t from argv)))"

definition Node_OnCustomCommandResponse ::
  "('p, 'c) env \<Rightarrow> nat option \<Rightarrow> nat option \<Rightarrow> BusIdType \<Rightarrow> bytes list \<Rightarrow> uint64 \<Rightarrow> ('p, 'c, ErrorType) op" where
  "Node_OnCustomCommandResponse E ep conn from argv sq =
     bind_op (event_op (OnCustomCommandResponse ep conn from argv sq)) (\<lambda>_. bind_op call_op (\<lambda>t. ret_op (en_onCommandResponse E t from argv sq)))"

definition OnPing :: "nat option \<Rightarrow> Message \<Rightarrow> ping_data \<Rightarrow> ('p, 'c, unit) op" where
  "OnPing ep m body = event_op (OnEndpointPing ep (Some (m, body)))"

definition OnPong :: "nat option \<Rightarrow> Message \<Rightarrow> ping_data \<Rightarrow> ('p, 'c, unit) op" where
  "OnPong ep m body = event_op (OnEndpointPong ep m body)"

subsection \<open>Responses\<close>

fun forward_of :: "message_body \<Rightarrow> forward_data option" where
  "forward_of (BodyDataTransformReq d) = Some d"
| "forward_of (BodyDataTransformRsp d) = Some d"
| "forward_of _ = None"

fun command_of :: "message_body \<Rightarrow> custom_command_data option" where
  "command_of (BodyCustomCommandReq d) = Some d"
| "command_of (BodyCustomCommandRsp d) = Some d"
| "command_of _ = None"

fun register_of :: "message_body \<Rightarrow> register_data option" where
  "register_of (BodyNodeRegisterReq d) = Some d"
| "register_of (BodyNodeRegisterRsp d) = Some d"
| "register_of _ = None"

definition AppendRouter :: "uint64 \<Rightarrow> forward_data \<Rightarrow> forward_data" where
  "AppendRouter i d = d\<lparr>fd_router := fd_router d @ [i]\<rparr>"

definition FORWARD_DATA_FLAG_REQUIRE_RSP :: uint32 where "FORWARD_DATA_FLAG_REQUIRE_RSP = 1"

definition requires_response :: "forward_data \<Rightarrow> bool" where
  "requires_response d \<longleftrightarrow> fd_flags d AND FORWARD_DATA_FLAG_REQUIRE_RSP \<noteq> 0"

text \<open>A transfer turns into its own response: source and target change places and the request becomes a response.\<close>

definition transfer_response :: "BusIdType \<Rightarrow> ErrorType \<Rightarrow> forward_data \<Rightarrow> message_head \<Rightarrow> Message \<Rightarrow> Message" where
  "transfer_response selfId errcode d head m =
     (let head = head\<lparr>mh_result_code := errcode, mh_source_bus_id := selfId\<rparr>;
          d' = d\<lparr>fd_from := fd_to d, fd_to := fd_from d\<rparr>;
          d' = (if fd_router d' = [] \<or> last (fd_router d') \<noteq> selfId then AppendRouter selfId d' else d')
      in m\<lparr>msg_head := Some head, msg_body := Some (BodyDataTransformRsp d')\<rparr>)"

definition SendTransferResponse :: "('p, 'c) env \<Rightarrow> ('p, 'c, int) op \<Rightarrow> Message \<Rightarrow> ErrorType \<Rightarrow> ('p, 'c, ErrorType) op" where
  "SendTransferResponse E D m errcode =
     (case GetBody (Some m) of None \<Rightarrow> ret_op EN_ATBUS_ERR_PARAMS | Some body \<Rightarrow>
      case forward_of body of None \<Rightarrow> ret_op EN_ATBUS_ERR_PARAMS | Some d \<Rightarrow> run_op (\<lambda>b.
        bind_op (SendCtrlMessage E D (fd_from d) (transfer_response (Node_GetId (bs_node b)) errcode d (snd (MutableHead m)) m) None)
          (\<lambda>(r, _, _). ret_op r)))"

definition SendCustomCommandResponse ::
  "('p, 'c) env \<Rightarrow> ('p, 'c, int) op \<Rightarrow> nat option \<Rightarrow> bytes list \<Rightarrow> int \<Rightarrow> ErrorType \<Rightarrow> uint64 \<Rightarrow> BusIdType \<Rightarrow> ('p, 'c, ErrorType) op" where
  "SendCustomCommandResponse E D conn rspData t errcode messageSequence fromBusId = run_op (\<lambda>b.
     let selfId = Node_GetId (bs_node b);
         head = zero_message_head\<lparr>mh_version := ProtocolVersion (conf_of b), mh_sequence := messageSequence, mh_source_bus_id := selfId,
                  mh_result_code := errcode, mh_type := t\<rparr>;
         body = \<lparr>cc_from = selfId, cc_commands = rspData, cc_access_key = None\<rparr>
     in bind_op (sign_op E (\<lambda>now nonce1 nonce2. GenerateAccessDataForCustomCommand (en_sha256 E) (en_hmac E) now (Some zero_access_data)
                   selfId nonce1 nonce2 (AccessTokens (conf_of b)) body))
          (\<lambda>ad.
            let m = NewMessage\<lparr>msg_head := Some head, msg_body := Some (BodyCustomCommandRsp (body\<lparr>cc_access_key := ad\<rparr>))\<rparr> in
            case conn of
              None \<Rightarrow> bind_op (SendCtrlMessage E D fromBusId m None) (\<lambda>(r, _, _). ret_op r)
            | Some c \<Rightarrow> bind_op (SendMessage E (Some c) (Some m)) (\<lambda>(_, r). ret_op r)))"

subsection \<open>Transfers\<close>

definition forwardDataMessage ::
  "('p, 'c) env \<Rightarrow> Message option \<Rightarrow> BusIdType \<Rightarrow> BusIdType \<Rightarrow> ('p, 'c, Message option \<times> ErrorType \<times> nat option) op" where
  "forwardDataMessage E om fromServerId toServerId = run_op (\<lambda>b.
     if om = None \<or> toServerId = 0 \<or> Node_GetId (bs_node b) = toServerId then ret_op (om, EN_ATBUS_ERR_PARAMS, None)
     else
       let opts = SetBlacklist [fromServerId] CreateNodeGetPeerOptions in
       bind_op (get_peer_channel (\<lambda>from peer n. GetDataConnection from peer True n) (Some opts) toServerId) (\<lambda>(r, targetEp, targetConn).
         if r \<noteq> EN_ATBUS_ERR_SUCCESS then ret_op (om, r, targetEp)
         else if targetConn = None \<or> targetEp = None then ret_op (om, EN_ATBUS_ERR_CONNECTION_NOT_FOUND, targetEp)
         else run_op (\<lambda>b.
           if fromServerId = 0 \<and> ep_id (nd_eps (bs_node b) ! the targetEp) = fromServerId
           then ret_op (om, EN_ATBUS_ERR_ATNODE_SRC_DST_IS_SAME, targetEp)
           else
             let m = (let (m, head) = MutableHead (the om) in m\<lparr>msg_head := Some (head\<lparr>mh_source_bus_id := Node_GetId (bs_node b)\<rparr>)\<rparr>) in
             bind_op (SendMessage E targetConn (Some m)) (\<lambda>(om, r). ret_op (om, r, targetEp)))))"

definition fault_op :: "nat option \<Rightarrow> ('p, 'c, unit) op" where
  "fault_op conn = (case conn of None \<Rightarrow> ret_op () | Some c \<Rightarrow> node_op (upd_conn c (\<lambda>cn. fst (Connection_AddStatisticFault cn))))"

text \<open>Who may send a transfer: the node itself, without a connection, or a connection that is connected.\<close>

definition transfer_source :: "nat option \<Rightarrow> message_head \<Rightarrow> ('p, 'c) Bus \<Rightarrow> ErrorType" where
  "transfer_source conn head b =
     (case conn of
        None \<Rightarrow> if mh_source_bus_id head \<noteq> Node_GetId (bs_node b) then EN_ATBUS_ERR_BAD_DATA else EN_ATBUS_ERR_SUCCESS
      | Some c \<Rightarrow> if cn_status (conn_of b c) \<noteq> ConnectionState_Connected then EN_ATBUS_ERR_NOT_READY else EN_ATBUS_ERR_SUCCESS)"

text \<open>The second try of a forward that failed: through the upstream, unless it is the one that was tried or the one it came from.\<close>

definition retry_upstream ::
  "('p, 'c) env \<Rightarrow> Message option \<Rightarrow> BusIdType \<Rightarrow> ErrorType \<Rightarrow> nat option \<Rightarrow> ('p, 'c, Message option \<times> ErrorType) op" where
  "retry_upstream E om directFromBusId res toEp =
     (if res = EN_ATBUS_ERR_SUCCESS then ret_op (om, res)
      else
        let via_upstream = run_op (\<lambda>b.
              case nd_upstream (bs_node b) of
                None \<Rightarrow> ret_op (om, res)
              | Some u \<Rightarrow>
                  if (case toEp of None \<Rightarrow> False | Some e \<Rightarrow> ep_id (nd_eps (bs_node b) ! u) = ep_id (nd_eps (bs_node b) ! e))
                     \<or> directFromBusId = ep_id (nd_eps (bs_node b) ! u)
                  then ret_op (om, res)
                  else bind_op (forwardDataMessage E om directFromBusId (ep_id (nd_eps (bs_node b) ! u))) (\<lambda>(om, r, _). ret_op (om, r)))
        in case toEp of
             None \<Rightarrow> via_upstream
           | Some e \<Rightarrow> (\<lambda>b.
               case GetTopologyRelation (ep_id (nd_eps (bs_node b) ! e)) (bs_node b) of
                 None \<Rightarrow> None
               | Some (relation, _) \<Rightarrow>
                   (if relation \<noteq> OtherUpstreamPeer \<and> relation \<noteq> SameUpstreamPeer then ret_op (om, res) else via_upstream) b))"

definition onRecvDataTransferReq ::
  "('p, 'c) env \<Rightarrow> ('p, 'c, int) op \<Rightarrow> nat option \<Rightarrow> Message \<Rightarrow> ('p, 'c, ErrorType) op" where
  "onRecvDataTransferReq E D conn m = run_op (\<lambda>b.
     if \<not> is_data_body (GetBodyType (Some m)) then ret_op EN_ATBUS_ERR_BAD_DATA
     else case (msg_head m, case GetBody (Some m) of None \<Rightarrow> None | Some body \<Rightarrow> forward_of body) of
       (Some head, Some fwdData) \<Rightarrow>
         if mh_version head < ProtocolMinimalVersion (conf_of b)
         then bind_op (fault_op conn) (\<lambda>_. SendTransferResponse E D m EN_ATBUS_ERR_UNSUPPORTED_VERSION)
         else if transfer_source conn head b \<noteq> EN_ATBUS_ERR_SUCCESS then ret_op (transfer_source conn head b)
         else if fd_to fwdData = Node_GetId (bs_node b) then
           bind_op (OnReceiveData (getConnectionBinding b conn) conn m (fd_content fwdData)) (\<lambda>_.
             if requires_response fwdData then SendTransferResponse E D m EN_ATBUS_ERR_SUCCESS else ret_op EN_ATBUS_ERR_SUCCESS)
         else if TTL (conf_of b) \<le> int (length (fd_router fwdData)) then SendTransferResponse E D m EN_ATBUS_ERR_ATNODE_TTL
         else
           let directFromBusId = mh_source_bus_id head;
               fwdData = AppendRouter (Node_GetId (bs_node b)) fwdData;
               body = (if GetBodyType (Some m) = MessageBodyTypeDataTransformReq then BodyDataTransformReq fwdData else BodyDataTransformRsp fwdData);
               m = m\<lparr>msg_body := Some body\<rparr>
           in bind_op (forwardDataMessage E (Some m) directFromBusId (fd_to fwdData)) (\<lambda>(om, r, toEp).
              bind_op (retry_upstream E om directFromBusId r toEp) (\<lambda>(om, r).
                if r \<noteq> EN_ATBUS_ERR_SUCCESS \<or> requires_response fwdData then SendTransferResponse E D (the om) r
                else ret_op r))
     | _ \<Rightarrow> bind_op (fault_op conn) (\<lambda>_. ret_op EN_ATBUS_ERR_BAD_DATA))"

definition onRecvDataTransferRsp :: "('p, 'c) env \<Rightarrow> nat option \<Rightarrow> Message \<Rightarrow> ('p, 'c, ErrorType) op" where
  "onRecvDataTransferRsp E conn m = run_op (\<lambda>b.
     if \<not> is_data_body (GetBodyType (Some m)) then ret_op EN_ATBUS_ERR_BAD_DATA
     else case (msg_head m, case GetBody (Some m) of None \<Rightarrow> None | Some body \<Rightarrow> forward_of body) of
       (Some head, Some fwdData) \<Rightarrow>
         if transfer_source conn head b \<noteq> EN_ATBUS_ERR_SUCCESS then ret_op (transfer_source conn head b)
         else if fd_to fwdData = Node_GetId (bs_node b) then
           bind_op (OnReceiveForwardResponse (getConnectionBinding b conn) conn m) (\<lambda>_. ret_op EN_ATBUS_ERR_SUCCESS)
         else bind_op (forwardDataMessage E (Some m) (mh_source_bus_id head) (fd_to fwdData)) (\<lambda>(_, r, _). ret_op r)
     | _ \<Rightarrow> bind_op (fault_op conn) (\<lambda>_. ret_op EN_ATBUS_ERR_BAD_DATA))"

subsection \<open>Custom commands\<close>

definition access_of :: "access_data option \<Rightarrow> access_data" where
  "access_of a = (case a of None \<Rightarrow> zero_access_data | Some ad \<Rightarrow> ad)"

definition command_accepted :: "('p, 'c) env \<Rightarrow> custom_command_data \<Rightarrow> ('p, 'c) Bus \<Rightarrow> bool" where
  "command_accepted E d b = CheckAccessHash (en_hmac E) (Some (conf_of b)) (cc_access_key d)
     (MakeAccessDataPlaintextFromCustomCommand (en_sha256 E) (cc_from d) (access_of (cc_access_key d)) d)"

definition onRecvCustomCommandReq ::
  "('p, 'c) env \<Rightarrow> ('p, 'c, int) op \<Rightarrow> nat option \<Rightarrow> Message \<Rightarrow> ('p, 'c, ErrorType) op" where
  "onRecvCustomCommandReq E D conn m = run_op (\<lambda>b.
     if \<not> is_command_body (GetBodyType (Some m)) then ret_op EN_ATBUS_ERR_BAD_DATA
     else case (msg_head m, case GetBody (Some m) of None \<Rightarrow> None | Some body \<Rightarrow> command_of body) of
       (Some head, Some cmdData) \<Rightarrow>
         if mh_version head < ProtocolMinimalVersion (conf_of b)
         then bind_op (fault_op conn) (\<lambda>_. SendCustomCommandResponse E D conn [string_bytes ''Access Deny - Unsupported Version'']
                (mh_type head) EN_ATBUS_ERR_UNSUPPORTED_VERSION (mh_sequence head) (mh_source_bus_id head))
         else if conn = None \<and> cc_from cmdData \<noteq> Node_GetId (bs_node b) then ret_op EN_ATBUS_ERR_BAD_DATA
         else if \<not> command_accepted E cmdData b
         then SendCustomCommandResponse E D conn [string_bytes ''Access Deny - Invalid Token''] (mh_type head) EN_ATBUS_ERR_ACCESS_DENY
                (mh_sequence head) (cc_from cmdData)
         else
           bind_op (Node_OnCustomCommandRequest E (getConnectionBinding b conn) conn (cc_from cmdData) (cc_commands cmdData)) (\<lambda>(r, rspData).
             run_op (\<lambda>b.
               if (case conn of None \<Rightarrow> False | Some c \<Rightarrow> IsRunning (conn_of b c) \<and> CheckFlag ConnectionFlag_RegFd (conn_of b c))
                  \<or> Node_GetId (bs_node b) = cc_from cmdData
               then SendCustomCommandResponse E D conn rspData (mh_type head) EN_ATBUS_ERR_SUCCESS (mh_sequence head) (cc_from cmdData)
               else ret_op r))
     | _ \<Rightarrow> bind_op (fault_op conn) (\<lambda>_. ret_op EN_ATBUS_ERR_BAD_DATA))"

definition onRecvCustomCommandRsp :: "('p, 'c) env \<Rightarrow> nat option \<Rightarrow> Message \<Rightarrow> ('p, 'c, ErrorType) op" where
  "onRecvCustomCommandRsp E conn m = run_op (\<lambda>b.
     if \<not> is_command_body (GetBodyType (Some m)) then ret_op EN_ATBUS_ERR_BAD_DATA
     else case (msg_head m, case GetBody (Some m) of None \<Rightarrow> None | Some body \<Rightarrow> command_of body) of
       (Some head, Some cmdData) \<Rightarrow>
         if conn = None \<and> cc_from cmdData \<noteq> Node_GetId (bs_node b) then ret_op EN_ATBUS_ERR_BAD_DATA
         else Node_OnCustomCommandResponse E (getConnectionBinding b conn) conn (cc_from cmdData) (cc_commands cmdData) (mh_sequence head)
     | _ \<Rightarrow> bind_op (fault_op conn) (\<lambda>_. ret_op EN_ATBUS_ERR_BAD_DATA))"

subsection \<open>Registration\<close>

definition ep_op :: "nat \<Rightarrow> (Endpoint \<Rightarrow> Endpoint) \<Rightarrow> ('p, 'c, unit) op" where
  "ep_op e f = node_op (upd_ep e f)"

definition refuse_conn :: "('p, 'c) env \<Rightarrow> nat \<Rightarrow> ErrorType \<Rightarrow> nat option \<Rightarrow> ('p, 'c, ErrorType \<times> nat option) op" where
  "refuse_conn E c r ep = bind_op (reset_conn E c) (\<lambda>_. ret_op (r, ep))"

definition acceptNodeRegistrationStepMakeEndpoint :: "('p, 'c) env \<Rightarrow> nat \<Rightarrow> register_data \<Rightarrow> ('p, 'c, ErrorType \<times> nat option) op" where
  "acceptNodeRegistrationStepMakeEndpoint E c regData = run_op (\<lambda>b.
     if IsConnected (conn_of b c) then
       case cn_binding (conn_of b c) of
         None \<Rightarrow> refuse_conn E c EN_ATBUS_ERR_ATNODE_BUS_ID_NOT_MATCH None
       | Some e \<Rightarrow>
           if ep_id (nd_eps (bs_node b) ! e) \<noteq> rd_bus_id regData then refuse_conn E c EN_ATBUS_ERR_ATNODE_BUS_ID_NOT_MATCH (Some e)
           else bind_op (ep_op e (UpdateHashCode (rd_hash_code regData))) (\<lambda>_. ret_op (EN_ATBUS_ERR_SUCCESS, Some e))
     else if rd_bus_id regData = 0 then bind_op (conn_op c SetTemporary) (\<lambda>_. ret_op (EN_ATBUS_ERR_SUCCESS, None))
     else case GetEndpoint (rd_bus_id regData) (bs_node b) of
       Some e \<Rightarrow>
         if Node_GetId (bs_node b) \<noteq> 0
            \<and> (ep_pid (nd_eps (bs_node b) ! e) \<noteq> rd_pid regData \<or> ep_hostname (nd_eps (bs_node b) ! e) \<noteq> rd_hostname regData)
         then refuse_conn E c EN_ATBUS_ERR_ATNODE_ID_CONFLICT (Some e)
         else bind_op (node_run (AddConnection e c (CheckFlag ConnectionFlag_AccessShareHost (conn_of b c)))) (\<lambda>added.
           if \<not> added then refuse_conn E c EN_ATBUS_ERR_ATNODE_NO_CONNECTION (Some e)
           else bind_op (ep_op e (UpdateHashCode (rd_hash_code regData))) (\<lambda>_. ret_op (EN_ATBUS_ERR_SUCCESS, Some e)))
     | None \<Rightarrow>
         bind_op call_op (\<lambda>t.
         bind_op (node_run (CreateEndpoint (rd_bus_id regData) (rd_pid regData) (rd_hostname regData) (en_time E t))) (\<lambda>e.
         bind_op (ep_op e (UpdateHashCode (rd_hash_code regData))) (\<lambda>_.
         bind_op (node_run (AddEndpoint (en_ping E) e)) (\<lambda>r.
           if r \<noteq> EN_ATBUS_ERR_SUCCESS then refuse_conn E c r (Some e)
           else bind_op (node_run (AddConnection e c False)) (\<lambda>_. ret_op (r, Some e)))))))"

definition acceptNodeRegistrationStepUpdateEndpoint :: "('p, 'c) env \<Rightarrow> nat \<Rightarrow> register_data \<Rightarrow> ('p, 'c, unit) op" where
  "acceptNodeRegistrationStepUpdateEndpoint E e regData =
     (let supportedSchemes = map (ToLower (en_lower E)) (filter (\<lambda>s. s \<in> set supported_channel_schemes) (rd_supported_channel_schema regData))
      in ep_op e (\<lambda>ep. foldl (\<lambda>ep ch. if ch = '''' then ep else AddListenAddress (en_lower E) ch ep)
           (ClearListenAddress (UpdateSupportSchemes supportedSchemes ep)) (rd_channels regData)))"

definition calculateChannelAddressPriority :: "(string \<Rightarrow> string) \<Rightarrow> string \<Rightarrow> bool \<Rightarrow> bool \<Rightarrow> int" where
  "calculateChannelAddressPriority unicodeLower addr isSameHost isSameProcess =
     (let addrLower = ToLower unicodeLower addr in
      (if isSameProcess \<and> IsLocalProcessAddress unicodeLower addr then 32 else 0)
      + (if isSameHost \<and> IsLocalHostAddress unicodeLower addr
         then 16 + (if HasPrefix addrLower ''mem:'' \<or> HasPrefix addrLower ''shm:'' then 8 else 0) else 0)
      + (if IsDuplexAddress unicodeLower addr
         then 2 + (if HasPrefix addrLower ''unix:'' \<or> HasPrefix addrLower ''pipe:'' then 4 else 0) else 0)
      + (if addr \<noteq> '''' then 1 else 0))"

text \<open>The address of this node the peer would choose to connect to: the first of highest priority.\<close>

definition select_listen_address :: "(string \<Rightarrow> string) \<Rightarrow> Endpoint \<Rightarrow> bool \<Rightarrow> bool \<Rightarrow> ChannelAddress list \<Rightarrow> int \<times> string" where
  "select_listen_address unicodeLower ep isSameHost isSameProcess addrs =
     foldl (\<lambda>(best, sel) addr.
       if \<not> IsSchemeSupported (ca_Scheme addr) ep \<or> ca_Scheme addr \<notin> set supported_channel_schemes then (best, sel)
       else let checkPriority = calculateChannelAddressPriority unicodeLower (ca_Address addr) isSameHost isSameProcess in
         if best < checkPriority then (checkPriority, ca_Address addr) else (best, sel)) (0, '''') addrs"

text \<open>The addresses of the peer to try. An address without a scheme is not an address, and asking it for its scheme panics.\<close>

fun channel_candidates :: "(string \<Rightarrow> string) \<Rightarrow> bool \<Rightarrow> bool \<Rightarrow> string list \<Rightarrow> (int \<times> string) list outcome" where
  "channel_candidates unicodeLower isSameHost isSameProcess [] = Returns []"
| "channel_candidates unicodeLower isSameHost isSameProcess (ch # chs) =
     (if ch = '''' \<or> (\<not> isSameProcess \<and> IsLocalProcessAddress unicodeLower ch) \<or> (\<not> isSameHost \<and> IsLocalHostAddress unicodeLower ch)
      then channel_candidates unicodeLower isSameHost isSameProcess chs
      else case MakeAddress unicodeLower ch of
        None \<Rightarrow> Panics
      | Some addr \<Rightarrow>
          if ca_Scheme addr \<notin> set supported_channel_schemes then channel_candidates unicodeLower isSameHost isSameProcess chs
          else map_outcome_val (\<lambda>l. (calculateChannelAddressPriority unicodeLower ch isSameHost isSameProcess, ch) # l)
                 (channel_candidates unicodeLower isSameHost isSameProcess chs))"

text \<open>Highest priority first, then the smaller address.\<close>

definition sort_candidates :: "(int \<times> string) list \<Rightarrow> (int \<times> string) list" where
  "sort_candidates l = sort_key (\<lambda>(priority, address). (- priority, address)) l"

fun connect_first :: "('p, 'c) env \<Rightarrow> nat \<Rightarrow> ErrorType \<Rightarrow> string list \<Rightarrow> ('p, 'c, ErrorType \<times> bool) op" where
  "connect_first E e r [] = ret_op (r, False)"
| "connect_first E e r (addr # addrs) =
     bind_op (ConnectWithEndpoint E addr (Some e)) (\<lambda>res.
       if res \<noteq> EN_ATBUS_ERR_SUCCESS then connect_first E e res addrs else ret_op (r, True))"

definition acceptNodeRegistrationStepDataChannel :: "('p, 'c) env \<Rightarrow> nat \<Rightarrow> nat \<Rightarrow> register_data \<Rightarrow> ('p, 'c, ErrorType) op" where
  "acceptNodeRegistrationStepDataChannel E e c regData = run_op (\<lambda>b.
     let ep = nd_eps (bs_node b) ! e;
         isSameHost = (ep_hostname ep = GetHostname E);
         isSameProcess = (isSameHost \<and> ep_pid ep = GetPid E);
         selected = snd (select_listen_address (en_lower E) ep isSameHost isSameProcess (GetListenList (bs_node b)))
     in if CheckFlag ConnectionFlag_ServerMode (conn_of b c) \<and> selected \<noteq> '''' \<and> IsDuplexAddress (en_lower E) selected
        then ret_op EN_ATBUS_ERR_SUCCESS
        else case channel_candidates (en_lower E) isSameHost isSameProcess (rd_channels regData) of
          Panics \<Rightarrow> panic_op
        | Returns l \<Rightarrow>
            bind_op (connect_first E e EN_ATBUS_ERR_SUCCESS (map snd (sort_candidates l))) (\<lambda>(r, connected).
              if \<not> connected then bind_op (node_op (AddEndpointGcList e)) (\<lambda>_. ret_op r) else ret_op EN_ATBUS_ERR_SUCCESS))"

definition acceptNodeRegistration :: "('p, 'c) env \<Rightarrow> nat option \<Rightarrow> register_data option \<Rightarrow> ('p, 'c, ErrorType \<times> nat option) op" where
  "acceptNodeRegistration E conn oreg =
     (case conn of None \<Rightarrow> ret_op (EN_ATBUS_ERR_PARAMS, None) | Some c \<Rightarrow>
      case oreg of None \<Rightarrow> ret_op (EN_ATBUS_ERR_PARAMS, None) | Some regData \<Rightarrow>
        bind_op (acceptNodeRegistrationStepMakeEndpoint E c regData) (\<lambda>(r, ep). run_op (\<lambda>b.
          case ep of None \<Rightarrow> ret_op (r, None) | Some e \<Rightarrow>
            if r \<noteq> EN_ATBUS_ERR_SUCCESS \<or> CheckFlag ConnectionFlag_Temporary (conn_of b c) then ret_op (r, ep)
            else if Node_GetId (bs_node b) = 0 \<or> ep_id (nd_eps (bs_node b) ! e) = 0 then ret_op (r, ep)
            else bind_op (acceptNodeRegistrationStepUpdateEndpoint E e regData) (\<lambda>_. run_op (\<lambda>b.
              if 0 < GetDataConnectionCount (bs_node b) e False then ret_op (r, ep)
              else bind_op (acceptNodeRegistrationStepDataChannel E e c regData) (\<lambda>r. ret_op (r, ep)))))))"

text \<open>Getters of a handshake that may be missing.\<close>

definition handshake_sequence :: "crypto_handshake_data option \<Rightarrow> uint64" where
  "handshake_sequence h = (case h of None \<Rightarrow> 0 | Some d \<Rightarrow> hd_sequence d)"

definition handshake_type :: "crypto_handshake_data option \<Rightarrow> ATBUS_CRYPTO_KEY_EXCHANGE_TYPE" where
  "handshake_type h = (case h of None \<Rightarrow> KEY_EXCHANGE_NONE | Some d \<Rightarrow> hd_type d)"

definition has_handshake :: "crypto_handshake_data option \<Rightarrow> bool" where
  "has_handshake h \<longleftrightarrow> handshake_sequence h \<noteq> 0 \<and> handshake_type h \<noteq> KEY_EXCHANGE_NONE"

definition register_accepted :: "('p, 'c) env \<Rightarrow> register_data \<Rightarrow> ('p, 'c) Bus \<Rightarrow> bool" where
  "register_accepted E d b = CheckAccessHash (en_hmac E) (Some (conf_of b)) (rd_access_key d)
     (MakeAccessDataPlaintextFromHandshake (en_sha256 E) (rd_bus_id d) (access_of (rd_access_key d)) (rd_crypto_handshake d))"

text \<open>The server's half of a handshake: its own key pair, and the key of the client, to be confirmed.\<close>

definition server_handshake :: "('p, 'c) env \<Rightarrow> nat \<Rightarrow> crypto_handshake_data option \<Rightarrow> ('p, 'c, ErrorType) op" where
  "server_handshake E c h =
     bind_op call_op (\<lambda>t.
     bind_op (ctx_run c (HandshakeGenerateSelfKey (en_crypto E) (en_time E t) (en_entropy E t) (handshake_sequence h))) (\<lambda>r.
       if r \<noteq> EN_ATBUS_ERR_SUCCESS then ret_op r
       else run_op (\<lambda>b. ctx_out c (HandshakeReadPeerKey (en_crypto E) h (CryptoAllowAlgorithms (conf_of b)) True))))"

definition register_request :: "('p, 'c) env \<Rightarrow> nat \<Rightarrow> register_data \<Rightarrow> ('p, 'c, ErrorType \<times> nat option) op" where
  "register_request E c regData = run_op (\<lambda>b.
     if \<not> register_accepted E regData b then ret_op (EN_ATBUS_ERR_ACCESS_DENY, None)
     else
       bind_op (if CheckFlag ConnectionFlag_ServerMode (conn_of b c) \<and> has_handshake (rd_crypto_handshake regData)
                then server_handshake E c (rd_crypto_handshake regData) else ret_op EN_ATBUS_ERR_SUCCESS) (\<lambda>r.
         if r \<noteq> EN_ATBUS_ERR_SUCCESS then ret_op (r, None)
         else bind_op (ctx_run c (UpdateCompressionAlgorithm (rd_supported_compression_algorithm regData))) (\<lambda>r.
           if r \<noteq> EN_ATBUS_ERR_SUCCESS then ret_op (r, None)
           else acceptNodeRegistration E (Some c) (Some regData))))"

definition onRecvNodeRegisterReq :: "('p, 'c) env \<Rightarrow> nat option \<Rightarrow> Message \<Rightarrow> ('p, 'c, ErrorType) op" where
  "onRecvNodeRegisterReq E conn m = run_op (\<lambda>b.
     let bodyType = GetBodyType (Some m) in
     if bodyType \<noteq> MessageBodyTypeNodeRegisterReq \<and> bodyType \<noteq> MessageBodyTypeNodeRegisterRsp then ret_op EN_ATBUS_ERR_BAD_DATA
     else case (conn, msg_head m, case GetBody (Some m) of None \<Rightarrow> None | Some body \<Rightarrow> register_of body) of
       (Some c, Some head, Some regData) \<Rightarrow>
         if mh_version head < ProtocolMinimalVersion (conf_of b) then
           bind_op (fault_op conn) (\<lambda>_.
           bind_op (SendRegister E MessageBodyTypeNodeRegisterRsp conn EN_ATBUS_ERR_UNSUPPORTED_VERSION (mh_sequence head)) (\<lambda>_.
           bind_op (reset_conn E c) (\<lambda>_. ret_op EN_ATBUS_ERR_UNSUPPORTED_VERSION)))
         else
           bind_op (register_request E c regData) (\<lambda>(responseCode, ep).
           bind_op (if responseCode \<noteq> EN_ATBUS_ERR_SUCCESS
                    then SendRegister E MessageBodyTypeNodeRegisterRsp conn responseCode (mh_sequence head)
                    else ret_op EN_ATBUS_ERR_SUCCESS) (\<lambda>r.
             if r \<noteq> EN_ATBUS_ERR_SUCCESS then bind_op (reset_conn E c) (\<lambda>_. ret_op r)
             else run_op (\<lambda>b.
               if CheckFlag ConnectionFlag_RegFd (conn_of b c) then
                 bind_op (SendRegister E MessageBodyTypeNodeRegisterRsp conn responseCode (mh_sequence head)) (\<lambda>r.
                   if r \<noteq> EN_ATBUS_ERR_SUCCESS then bind_op (reset_conn E c) (\<lambda>_. ret_op r)
                   else bind_op (Node_OnRegister ep conn EN_ATBUS_ERR_SUCCESS) (\<lambda>_. ret_op r))
               else ret_op EN_ATBUS_ERR_SUCCESS)))
     | _ \<Rightarrow> bind_op (fault_op conn) (\<lambda>_. ret_op EN_ATBUS_ERR_BAD_DATA))"

text \<open>The client's half: the key of the server, then the confirmation.\<close>

definition client_handshake :: "('p, 'c) env \<Rightarrow> nat \<Rightarrow> crypto_handshake_data option \<Rightarrow> ('p, 'c, ErrorType) op" where
  "client_handshake E c h = run_op (\<lambda>b.
     bind_op (ctx_out c (HandshakeReadPeerKey (en_crypto E) h (CryptoAllowAlgorithms (conf_of b)) False)) (\<lambda>r.
       if r \<noteq> EN_ATBUS_ERR_SUCCESS then ret_op r
       else bind_op (SendHandshakeConfirm E (Some c) (handshake_sequence h)) (\<lambda>_. ret_op EN_ATBUS_ERR_SUCCESS)))"

definition is_upstream_conn :: "('p, 'c) Bus \<Rightarrow> nat \<Rightarrow> bool" where
  "is_upstream_conn b c \<longleftrightarrow> ca_Address (cn_address (conn_of b c)) = UpstreamAddress (conf_of b)"

definition register_answer :: "('p, 'c) env \<Rightarrow> nat \<Rightarrow> register_data \<Rightarrow> ErrorType \<Rightarrow> ('p, 'c, ErrorType \<times> nat option) op" where
  "register_answer E c regData resultCode = run_op (\<lambda>b.
     if \<not> register_accepted E regData b then ret_op (EN_ATBUS_ERR_ACCESS_DENY, None)
     else if resultCode \<noteq> EN_ATBUS_ERR_SUCCESS then ret_op (resultCode, None)
     else
       bind_op (if CheckFlag ConnectionFlag_ClientMode (conn_of b c) \<and> has_handshake (rd_crypto_handshake regData)
                then client_handshake E c (rd_crypto_handshake regData) else ret_op EN_ATBUS_ERR_SUCCESS) (\<lambda>r.
         if r \<noteq> EN_ATBUS_ERR_SUCCESS then ret_op (r, None)
         else bind_op (ctx_run c (UpdateCompressionAlgorithm (rd_supported_compression_algorithm regData))) (\<lambda>r.
           if r \<noteq> EN_ATBUS_ERR_SUCCESS then ret_op (r, None)
           else run_op (\<lambda>b.
             bind_op (if Node_GetId (bs_node b) \<noteq> 0 \<and> rd_bus_id regData \<noteq> 0 \<and> is_upstream_conn b c
                      then node_opt (SetTopologyUpstream (rd_bus_id regData)) else ret_op ()) (\<lambda>_.
               acceptNodeRegistration E (Some c) (Some regData))))))"

definition onRecvNodeRegisterRsp :: "('p, 'c) env \<Rightarrow> nat option \<Rightarrow> Message \<Rightarrow> ('p, 'c, ErrorType) op" where
  "onRecvNodeRegisterRsp E conn m =
     (let bodyType = GetBodyType (Some m) in
      if bodyType \<noteq> MessageBodyTypeNodeRegisterReq \<and> bodyType \<noteq> MessageBodyTypeNodeRegisterRsp then ret_op EN_ATBUS_ERR_BAD_DATA
      else case (conn, msg_head m, case GetBody (Some m) of None \<Rightarrow> None | Some body \<Rightarrow> register_of body) of
        (Some c, Some head, Some regData) \<Rightarrow>
          bind_op (register_answer E c regData (mh_result_code head)) (\<lambda>(r, ep). run_op (\<lambda>b.
            if r \<noteq> EN_ATBUS_ERR_SUCCESS then
              let ep = (case ep of None \<Rightarrow> cn_binding (conn_of b c) | Some e \<Rightarrow> Some e) in
              bind_op (case ep of None \<Rightarrow> ret_op () | Some e \<Rightarrow> node_op (AddEndpointGcList e)) (\<lambda>_.
              bind_op (when_op (is_upstream_conn b c \<and> \<not> Node_CheckFlag NodeFlag_Actived (bs_node b)) (node_op (\<lambda>n. fst (FatalShutdown r n)))) (\<lambda>_.
              bind_op (Node_OnRegister ep conn r) (\<lambda>_.
              bind_op (reset_conn E c) (\<lambda>_. ret_op r))))
            else
              bind_op (Node_OnRegister ep conn r) (\<lambda>_. run_op (\<lambda>b.
                if nd_state (bs_node b) = NodeState_ConnectingUpstream
                   \<and> (case nd_upstream (bs_node b) of None \<Rightarrow> False | Some u \<Rightarrow> ep_id (nd_eps (bs_node b) ! u) = rd_bus_id regData)
                then bind_op (node_op OnUpstreamRegisterDone) (\<lambda>_. bind_op (node_op OnActived) (\<lambda>_. ret_op r))
                else ret_op r))))
      | _ \<Rightarrow> bind_op (fault_op conn) (\<lambda>_. ret_op EN_ATBUS_ERR_BAD_DATA))"

subsection \<open>Ping and pong\<close>

fun ping_of :: "message_body \<Rightarrow> ping_data option" where
  "ping_of (BodyNodePingReq d) = Some d"
| "ping_of _ = None"

fun pong_of :: "message_body \<Rightarrow> ping_data option" where
  "pong_of (BodyNodePongRsp d) = Some d"
| "pong_of _ = None"

fun confirm_of :: "message_body \<Rightarrow> handshake_confirm_data option" where
  "confirm_of (BodyHandshakeConfirm d) = Some d"
| "confirm_of _ = None"

text \<open>
  The answer to a ping. In the block that builds it \<open>head\<close> is the head of the response, not that of the ping: the sequence number and
  the type it assigns from \<open>head\<close> are its own, zero.
\<close>

definition pong_head :: "('p, 'c) Bus \<Rightarrow> ErrorType \<Rightarrow> message_head" where
  "pong_head b retCode =
     (let head = zero_message_head\<lparr>mh_version := ProtocolVersion (conf_of b)\<rparr>;
          head = head\<lparr>mh_sequence := mh_sequence head\<rparr>;
          head = head\<lparr>mh_source_bus_id := Node_GetId (bs_node b)\<rparr>;
          head = head\<lparr>mh_type := mh_type head\<rparr>
      in head\<lparr>mh_result_code := retCode\<rparr>)"

definition onRecvNodePing :: "('p, 'c) env \<Rightarrow> nat option \<Rightarrow> Message \<Rightarrow> ('p, 'c, ErrorType) op" where
  "onRecvNodePing E conn m = run_op (\<lambda>b.
     case (case GetBody (Some m) of None \<Rightarrow> None | Some body \<Rightarrow> ping_of body) of
       None \<Rightarrow> bind_op (fault_op conn) (\<lambda>_. ret_op EN_ATBUS_ERR_BAD_DATA)
     | Some body \<Rightarrow>
         let version = (case msg_head m of None \<Rightarrow> 0 | Some h \<Rightarrow> mh_version h);
             retCode = (if version < ProtocolMinimalVersion (conf_of b) then EN_ATBUS_ERR_UNSUPPORTED_VERSION else EN_ATBUS_ERR_SUCCESS)
         in case conn of None \<Rightarrow> ret_op EN_ATBUS_ERR_SUCCESS | Some c \<Rightarrow>
           let ep = getConnectionBinding b conn;
               withHandshake = (CheckFlag ConnectionFlag_ServerMode (conn_of b c) \<and> ep \<noteq> None \<and> has_handshake (pd_crypto_handshake body))
           in bind_op (if withHandshake
                       then bind_op (server_handshake E c (pd_crypto_handshake body)) (\<lambda>r. ret_op (r, r = EN_ATBUS_ERR_SUCCESS))
                       else ret_op (retCode, False)) (\<lambda>(retCode, withHandshake).
              bind_op (OnPing ep m body) (\<lambda>_. run_op (\<lambda>b.
                let pongBody = \<lparr>pd_time_point = pd_time_point body, pd_crypto_handshake =
                      (if withHandshake
                       then fst (HandshakeWriteSelfPublicKey (Some zero_crypto_handshake_data) [GetCryptoSelectAlgorithm (ctx_of b c)] (ctx_of b c))
                       else None)\<rparr>;
                    responseM = NewMessage\<lparr>msg_head := Some (pong_head b retCode), msg_body := Some (BodyNodePongRsp pongBody)\<rparr>
                in bind_op (SendMessage E conn (Some responseM)) (\<lambda>(_, r). ret_op r)))))"

definition onRecvNodePong :: "('p, 'c) env \<Rightarrow> nat option \<Rightarrow> Message \<Rightarrow> ('p, 'c, ErrorType) op" where
  "onRecvNodePong E conn m = run_op (\<lambda>b.
     case (case GetBody (Some m) of None \<Rightarrow> None | Some body \<Rightarrow> pong_of body) of
       None \<Rightarrow> bind_op (fault_op conn) (\<lambda>_. ret_op EN_ATBUS_ERR_BAD_DATA)
     | Some body \<Rightarrow>
         (case conn of None \<Rightarrow> ret_op EN_ATBUS_ERR_SUCCESS | Some c \<Rightarrow>
           bind_op (if CheckFlag ConnectionFlag_ClientMode (conn_of b c) \<and> GetCryptoSelectAlgorithm (ctx_of b c) \<noteq> CRYPTO_NONE
                       \<and> has_handshake (pd_crypto_handshake body)
                    then bind_op (client_handshake E c (pd_crypto_handshake body)) (\<lambda>_. ret_op ()) else ret_op ()) (\<lambda>_. run_op (\<lambda>b.
             let ep = getConnectionBinding b conn; sq = (case msg_head m of None \<Rightarrow> 0 | Some h \<Rightarrow> mh_sequence h) in
             bind_op (OnPong ep m body) (\<lambda>_.
               case ep of None \<Rightarrow> ret_op EN_ATBUS_ERR_SUCCESS | Some e \<Rightarrow> run_op (\<lambda>b.
                 if sq = es_UnfinishedPing (ep_stat (nd_eps (bs_node b) ! e)) then
                   let offset = wrap64 (nd_tick (bs_node b) div 1000 - pd_time_point body) in
                   bind_op (ep_op e (\<lambda>ep. SetStatisticPingDelay (wrap64 (1000 * offset)) (nd_tick (bs_node b)) (SetStatisticUnfinishedPing 0 ep))) (\<lambda>_.
                     ret_op EN_ATBUS_ERR_SUCCESS)
                 else ret_op EN_ATBUS_ERR_SUCCESS))))))"

definition onRecvHandshakeConfirm :: "('p, 'c) env \<Rightarrow> nat option \<Rightarrow> Message \<Rightarrow> ('p, 'c, ErrorType) op" where
  "onRecvHandshakeConfirm E conn m = run_op (\<lambda>b.
     case (case GetBody (Some m) of None \<Rightarrow> None | Some body \<Rightarrow> confirm_of body) of
       None \<Rightarrow> bind_op (fault_op conn) (\<lambda>_. ret_op EN_ATBUS_ERR_BAD_DATA)
     | Some body \<Rightarrow>
         (case conn of None \<Rightarrow> ret_op EN_ATBUS_ERR_SUCCESS | Some c \<Rightarrow>
           if \<not> CheckFlag ConnectionFlag_Temporary (conn_of b c) \<and> cn_binding (conn_of b c) = None
           then bind_op (reset_conn E c) (\<lambda>_. ret_op EN_ATBUS_ERR_BAD_DATA)
           else bind_op (ctx_op c (ConfirmHandshake (hc_sequence body))) (\<lambda>_. ret_op EN_ATBUS_ERR_SUCCESS)))"

subsection \<open>Dispatching\<close>

fun handler_of :: "('p, 'c) env \<Rightarrow> ('p, 'c, int) op \<Rightarrow> MessageBodyType \<Rightarrow> (nat option \<Rightarrow> Message \<Rightarrow> ('p, 'c, ErrorType) op) option" where
  "handler_of E D MessageBodyTypeUnknown = None"
| "handler_of E D MessageBodyTypeDataTransformReq = Some (onRecvDataTransferReq E D)"
| "handler_of E D MessageBodyTypeDataTransformRsp = Some (onRecvDataTransferRsp E)"
| "handler_of E D MessageBodyTypeCustomCommandReq = Some (onRecvCustomCommandReq E D)"
| "handler_of E D MessageBodyTypeCustomCommandRsp = Some (onRecvCustomCommandRsp E)"
| "handler_of E D MessageBodyTypeNodeRegisterReq = Some (onRecvNodeRegisterReq E)"
| "handler_of E D MessageBodyTypeNodeRegisterRsp = Some (onRecvNodeRegisterRsp E)"
| "handler_of E D MessageBodyTypeNodePingReq = Some (onRecvNodePing E)"
| "handler_of E D MessageBodyTypeNodePongRsp = Some (onRecvNodePong E)"
| "handler_of E D MessageBodyTypeHandshakeConfirm = Some (onRecvHandshakeConfirm E)"

definition DispatchMessage :: "('p, 'c) env \<Rightarrow> ('p, 'c, int) op \<Rightarrow> nat option \<Rightarrow> Message \<Rightarrow> ('p, 'c, ErrorType) op" where
  "DispatchMessage E D conn m =
     (case msg_head m of None \<Rightarrow> ret_op EN_ATBUS_ERR_BAD_DATA | Some _ \<Rightarrow>
      case handler_of E D (GetBodyType (Some m)) of None \<Rightarrow> ret_op EN_ATBUS_ERR_ATNODE_INVALID_MSG | Some fn \<Rightarrow>
        bind_op (modify_op (\<lambda>b. b\<lparr>bs_dispatchTimes := bs_dispatchTimes b + 1\<rparr>)) (\<lambda>_. fn conn m))"

text \<open>A fault asks the connection for its endpoint, and panics when there is no connection.\<close>

definition receive_fault :: "('p, 'c) env \<Rightarrow> nat option \<Rightarrow> ('p, 'c, unit) op" where
  "receive_fault E conn =
     (case conn of None \<Rightarrow> panic_op | Some c \<Rightarrow> run_op (\<lambda>b.
        bind_op (node_run (addEndpointFault (cn_binding (conn_of b c)))) (\<lambda>_. (\<lambda>b.
          case addConnectionFault (en_ping E) (en_connecting E) 4 c (bs_node b) of
            None \<Rightarrow> None
          | Some Panics \<Rightarrow> Some Panics
          | Some (Returns (n, _)) \<Rightarrow> Some (Returns ((), b\<lparr>bs_node := n\<rparr>))))))"

definition onReceiveMessage :: "('p, 'c) env \<Rightarrow> ('p, 'c, int) op \<Rightarrow> nat option \<Rightarrow> Message \<Rightarrow> int \<Rightarrow> ErrorType \<Rightarrow> ('p, 'c, unit) op" where
  "onReceiveMessage E D conn m status errcode =
     (if status < 0 \<or> errcode < 0 then receive_fault E conn
      else bind_op (DispatchMessage E D conn m) (\<lambda>res.
        if res < 0 then receive_fault E conn
        else case conn of None \<Rightarrow> ret_op () | Some c \<Rightarrow> run_op (\<lambda>b.
          bind_op (case cn_binding (conn_of b c) of None \<Rightarrow> ret_op () | Some e \<Rightarrow> ep_op e Endpoint_ClearStatisticFault) (\<lambda>_.
            conn_op c Connection_ClearStatisticFault))))"

text \<open>One message of each queue. A transfer to the node itself is delivered, and its response invented, without a handler.\<close>

definition dispatch_data :: "('p, 'c, int) op" where
  "dispatch_data = run_op (\<lambda>b.
     let m = hd (bs_selfData b); self = nd_self (bs_node b) in
     bind_op (modify_op (\<lambda>b. b\<lparr>bs_selfData := tl (bs_selfData b)\<rparr>)) (\<lambda>_.
       if msg_head m = None \<or> GetBodyType (Some m) = MessageBodyTypeUnknown then ret_op 0
       else case msg_body m of
         Some (BodyDataTransformReq fwdData) \<Rightarrow>
           bind_op (OnReceiveData self None m (fd_content fwdData)) (\<lambda>_.
             if requires_response fwdData then
               let (m, head) = MutableHead m;
                   m = m\<lparr>msg_head := Some (head\<lparr>mh_result_code := 0\<rparr>), msg_body := Some (BodyDataTransformRsp fwdData)\<rparr>
               in bind_op (OnReceiveForwardResponse self None m) (\<lambda>_. ret_op 1)
             else ret_op 1)
       | _ \<Rightarrow> ret_op 0))"

definition dispatch_command :: "('p, 'c) env \<Rightarrow> ('p, 'c, int) op \<Rightarrow> ('p, 'c, int) op" where
  "dispatch_command E D = run_op (\<lambda>b.
     let m = hd (bs_selfCommand b) in
     bind_op (modify_op (\<lambda>b. b\<lparr>bs_selfCommand := tl (bs_selfCommand b)\<rparr>)) (\<lambda>_.
       if msg_head m = None \<or> GetBodyType (Some m) = MessageBodyTypeUnknown then ret_op 0
       else bind_op (onReceiveMessage E D None m 0 EN_ATBUS_ERR_SUCCESS) (\<lambda>_. ret_op 1)))"

text \<open>The two loops, with the number of rounds that are left.\<close>

fun dispatch_loop :: "(('p, 'c) Bus \<Rightarrow> bool) \<Rightarrow> ('p, 'c, int) op \<Rightarrow> nat \<Rightarrow> int \<Rightarrow> ('p, 'c, nat \<times> int) op" where
  "dispatch_loop pending one 0 r = ret_op (0, r)"
| "dispatch_loop pending one (Suc k) r = run_op (\<lambda>b.
     if pending b then bind_op one (\<lambda>d. dispatch_loop pending one k (r + d)) else ret_op (Suc k, r))"

fun dispatchAllSelfMessages :: "('p, 'c) env \<Rightarrow> nat \<Rightarrow> ('p, 'c, int) op" where
  "dispatchAllSelfMessages E 0 = (\<lambda>b. None)"
| "dispatchAllSelfMessages E (Suc d) = run_op (\<lambda>b.
     if Node_CheckFlag NodeFlag_RecvSelfMsg (bs_node b) \<or> Node_CheckFlag NodeFlag_InCallback (bs_node b) then ret_op 0
     else
       let loopLeft = (if LoopTimes (conf_of b) \<le> 0 then 10240 else nat (LoopTimes (conf_of b))) in
       bind_op (node_op (\<lambda>n. n\<lparr>nd_flags := nd_flags n OR NodeFlag_RecvSelfMsg\<rparr>)) (\<lambda>_.
       bind_op (dispatch_loop (\<lambda>b. bs_selfData b \<noteq> []) dispatch_data loopLeft 0) (\<lambda>(loopLeft, r).
       bind_op (dispatch_loop (\<lambda>b. bs_selfCommand b \<noteq> []) (dispatch_command E (dispatchAllSelfMessages E d)) loopLeft r) (\<lambda>(_, r).
       bind_op (node_op (\<lambda>n. n\<lparr>nd_flags := nd_flags n AND NOT NodeFlag_RecvSelfMsg\<rparr>)) (\<lambda>_. ret_op r)))))"

end
