(* ===== verification/Node_Frame.thy ===== *)
theory Node_Frame
  imports Node_Route
begin

unbundle bit_operations_syntax

section \<open>What the operations of a node keep\<close>

text \<open>
  The invariant of a node: the bindings agree, nothing is being reset, the route table is well-formed, the topology is a forest, and
  every connection and endpoint that some list or timer of the node refers to exists. Every operation a message handler calls
  keeps it; connections and endpoints are never destroyed, so references held by the callers stay valid.
\<close>

subsection \<open>References\<close>

definition below :: "nat \<Rightarrow> nat option \<Rightarrow> bool" where
  "below k b \<longleftrightarrow> (case b of None \<Rightarrow> True | Some e \<Rightarrow> e < k)"

lemma below_simps [simp]: "below k None" "below k (Some e) \<longleftrightarrow> e < k"
  by (simp_all add: below_def)

definition refs_ok :: "'p ping_ops \<Rightarrow> 'c connecting_ops \<Rightarrow> ('p, 'c) Node \<Rightarrow> bool" where
  "refs_ok P C n \<longleftrightarrow> lru_laws P \<and> lru_laws C
     \<and> (\<forall>a t c. lru_Get C a (nd_connectingList n) = Some (t, c) \<longrightarrow> c < length (nd_conns n))
     \<and> (\<forall>k t e. lru_Get P k (nd_pingList n) = Some (t, e) \<longrightarrow> e < length (ids n))
     \<and> set (nd_pendingConnectionGc n) \<subseteq> {..<length (nd_conns n)} \<and> set (nd_pendingEndpointGc n) \<subseteq> {..<length (ids n)}
     \<and> list_all (below (length (ids n))) (map cn_binding (nd_conns n))
     \<and> list_all (\<lambda>l. set l \<subseteq> {..<length (nd_conns n)}) (map attached (nd_eps n))"

definition receiving :: "('p, 'c) Node \<Rightarrow> bool" where
  "receiving n = Node_CheckFlag NodeFlag_RecvSelfMsg n"

definition keeps :: "('p, 'c) Node \<Rightarrow> ('p, 'c) Node \<Rightarrow> bool" where
  "keeps n n' \<longleftrightarrow> ids n' = ids n \<and> nd_self n' = nd_self n \<and> nd_upstream n' = nd_upstream n \<and> nd_route n' = nd_route n
     \<and> nd_topology n' = nd_topology n \<and> length (nd_conns n') = length (nd_conns n) \<and> nd_configure n' = nd_configure n
     \<and> receiving n' = receiving n"

definition goes :: "'p ping_ops \<Rightarrow> 'c connecting_ops \<Rightarrow> ('p, 'c) Node \<Rightarrow> ('p, 'c) Node \<Rightarrow> bool" where
  "goes P C n n' \<longleftrightarrow> keeps n n' \<and> refs_ok P C n'"

named_theorems goes_intros

lemma keeps_refl [simp]: "keeps n n"
  by (simp add: keeps_def)

lemma keeps_trans: "keeps a b \<Longrightarrow> keeps b c \<Longrightarrow> keeps a c"
  by (simp add: keeps_def)

lemma goes_refl: "refs_ok P C n \<Longrightarrow> goes P C n n"
  by (simp add: goes_def)

lemma goes_trans: "goes P C a b \<Longrightarrow> goes P C b c \<Longrightarrow> goes P C a c"
  by (auto simp: goes_def intro: keeps_trans)

lemma goesD: "goes P C a b \<Longrightarrow> refs_ok P C b" "goes P C a b \<Longrightarrow> keeps a b"
  "goes P C a b \<Longrightarrow> length (nd_conns b) = length (nd_conns a)" "goes P C a b \<Longrightarrow> length (nd_eps b) = length (nd_eps a)"
  by (auto simp: goes_def keeps_def ids_def dest: map_eq_imp_length_eq)

lemma goes_step: "goes P C n0 n \<Longrightarrow> (refs_ok P C n \<Longrightarrow> goes P C n n') \<Longrightarrow> goes P C n0 n'"
  using goes_trans goesD(1) by blast

lemma flag_or: "f AND g = 0 \<Longrightarrow> has_flag f (w OR g) = has_flag f w"
  using has_flag_put_other [of f g True w] by (simp add: put_flag_def)

lemma receiving_or [simp]:
  "has_flag NodeFlag_RecvSelfMsg (w OR NodeFlag_Shutdown) = has_flag NodeFlag_RecvSelfMsg w"
  "has_flag NodeFlag_RecvSelfMsg (w OR NodeFlag_Actived) = has_flag NodeFlag_RecvSelfMsg w"
  "has_flag NodeFlag_RecvSelfMsg (w OR NodeFlag_UpstreamRegDone) = has_flag NodeFlag_RecvSelfMsg w"
  by (rule flag_or, simp add: NodeFlag_RecvSelfMsg_def NodeFlag_Shutdown_def NodeFlag_Actived_def NodeFlag_UpstreamRegDone_def)+

lemma list_all_list_update: "list_all P xs \<Longrightarrow> P y \<Longrightarrow> list_all P (xs[i := y])"
  by (rule list_all_update)

lemma goes_upd_conn [goes_intros]:
  assumes "goes P C n0 n" and "cn_binding (f (nd_conns n ! c)) = cn_binding (nd_conns n ! c) \<or> cn_binding (f (nd_conns n ! c)) = None"
  shows "goes P C n0 (upd_conn c f n)"
proof (cases "c < length (nd_conns n)", rule goes_step [OF assms(1)])
  case True
  have "ids (upd_conn c f n) = ids n" "nd_self (upd_conn c f n) = nd_self n" "nd_upstream (upd_conn c f n) = nd_upstream n"
    "nd_route (upd_conn c f n) = nd_route n" "nd_topology (upd_conn c f n) = nd_topology n" "nd_configure (upd_conn c f n) = nd_configure n"
    "receiving (upd_conn c f n) = receiving n" "nd_connectingList (upd_conn c f n) = nd_connectingList n"
    "nd_pendingConnectionGc (upd_conn c f n) = nd_pendingConnectionGc n" "nd_pendingEndpointGc (upd_conn c f n) = nd_pendingEndpointGc n"
    by (simp_all add: ids_def upd_conn_def receiving_def Node_CheckFlag_def)
  moreover have "list_all (below (length (ids n))) (map cn_binding (nd_conns n))"
    using assms(1) by (simp add: goes_def refs_ok_def)
  then have "list_all (below (length (ids n))) (map cn_binding (nd_conns (upd_conn c f n)))"
    using assms(2) True by (auto simp: list_all_length nth_list_update)
  moreover assume "refs_ok P C n"
  ultimately show "goes P C n (upd_conn c f n)" by (simp add: goes_def keeps_def refs_ok_def)
next
  case False
  then have "upd_conn c f n = n" by (simp add: upd_conn_def list_update_beyond)
  with assms(1) show ?thesis by simp
qed

lemma goes_upd_ep [goes_intros]:
  assumes "goes P C n0 n" and "ep_id (f (nd_eps n ! e)) = ep_id (nd_eps n ! e)" and "set (attached (f (nd_eps n ! e))) \<subseteq> set (attached (nd_eps n ! e))"
  shows "goes P C n0 (upd_ep e f n)"
proof (cases "e < length (nd_eps n)", rule goes_step [OF assms(1)])
  case True
  have "ids (upd_ep e f n) = ids n" using assms(2) by (simp add: ids_def map_ep_id_update)
  moreover have "nd_configure (upd_ep e f n) = nd_configure n" "receiving (upd_ep e f n) = receiving n" "nd_connectingList (upd_ep e f n) = nd_connectingList n"
    "nd_pendingConnectionGc (upd_ep e f n) = nd_pendingConnectionGc n" "nd_pendingEndpointGc (upd_ep e f n) = nd_pendingEndpointGc n"
    by (simp_all add: upd_ep_def receiving_def Node_CheckFlag_def)
  moreover have "list_all (\<lambda>l. set l \<subseteq> {..<length (nd_conns n)}) (map attached (nd_eps n))"
    using assms(1) by (simp add: goes_def refs_ok_def)
  then have "list_all (\<lambda>l. set l \<subseteq> {..<length (nd_conns n)}) (map attached (nd_eps (upd_ep e f n)))"
    using assms(3) True by (auto simp: list_all_length nth_list_update dest!: subsetD)
  moreover assume "refs_ok P C n"
  ultimately show "goes P C n (upd_ep e f n)" by (simp add: goes_def keeps_def refs_ok_def)
next
  case False
  then have "upd_ep e f n = n" by (simp add: upd_ep_def list_update_beyond)
  with assms(1) show ?thesis by simp
qed

text \<open>Steps that change neither stores nor lists.\<close>

lemma goes_cong:
  assumes "refs_ok P C n" and "nd_conns n' = nd_conns n" and "nd_eps n' = nd_eps n" and "nd_self n' = nd_self n" and "nd_upstream n' = nd_upstream n"
    and "nd_route n' = nd_route n" and "nd_topology n' = nd_topology n" and "nd_configure n' = nd_configure n" and "receiving n' = receiving n"
    and "\<And>a x. lru_Get C a (nd_connectingList n') = Some x \<Longrightarrow> lru_Get C a (nd_connectingList n) = Some x \<or> snd x < length (nd_conns n)"
    and "\<And>k x. lru_Get P k (nd_pingList n') = Some x \<Longrightarrow> lru_Get P k (nd_pingList n) = Some x \<or> snd x < length (nd_eps n)"
    and "set (nd_pendingConnectionGc n') \<subseteq> set (nd_pendingConnectionGc n) \<union> {..<length (nd_conns n)}"
    and "set (nd_pendingEndpointGc n') \<subseteq> set (nd_pendingEndpointGc n) \<union> {..<length (nd_eps n)}"
  shows "goes P C n n'"
proof -
  have ids: "ids n' = ids n" "length (ids n) = length (nd_eps n)" using assms(3) by (simp_all add: ids_def)
  have "c < length (nd_conns n)" if "lru_Get C a (nd_connectingList n') = Some (t, c)" for a t c
    using assms(1) assms(10) [of a "(t, c)"] that by (auto simp: refs_ok_def)
  moreover have "e < length (nd_eps n)" if "lru_Get P k (nd_pingList n') = Some (t, e)" for k t e
    using assms(1) assms(11) [of k "(t, e)"] that ids(2) by (auto simp: refs_ok_def)
  moreover have "set (nd_pendingConnectionGc n') \<subseteq> {..<length (nd_conns n)}" "set (nd_pendingEndpointGc n') \<subseteq> {..<length (nd_eps n)}"
    using assms(1,12,13) ids(2) by (auto simp: refs_ok_def)
  ultimately show ?thesis using assms(1-9) ids by (simp add: goes_def keeps_def refs_ok_def)
qed

lemma goes_log_event [goes_intros]: "goes P C n0 n \<Longrightarrow> goes P C n0 (log_event ev n)"
  by (erule goes_step, rule goes_cong) (simp_all add: log_event_def receiving_def Node_CheckFlag_def)

lemma goes_setState [goes_intros]: "goes P C n0 n \<Longrightarrow> goes P C n0 (setState s n)"
  by (erule goes_step, rule goes_cong) (simp_all add: setState_def receiving_def Node_CheckFlag_def)

lemma goes_timepoint [goes_intros]: "goes P C n0 n \<Longrightarrow> goes P C n0 (n\<lparr>nd_upstreamOpTimepoint := t\<rparr>)"
  by (erule goes_step, rule goes_cong) (simp_all add: receiving_def Node_CheckFlag_def)

lemma goes_sequence [goes_intros]: "goes P C n0 n \<Longrightarrow> goes P C n0 (fst (AllocateMessageSequence n))"
  by (erule goes_step, rule goes_cong) (simp_all add: receiving_def Node_CheckFlag_def AllocateMessageSequence_def Let_def)

lemma goes_FatalShutdown [goes_intros]: "goes P C n0 n \<Longrightarrow> goes P C n0 (fst (FatalShutdown r n))"
  by (erule goes_step, rule goes_cong)
    (simp_all add: receiving_def Node_CheckFlag_def FatalShutdown_def Shutdown_def OnShutdown_def log_event_def split: if_splits)

lemma goes_OnActived [goes_intros]: "goes P C n0 n \<Longrightarrow> goes P C n0 (OnActived n)"
  by (erule goes_step, rule goes_cong) (simp_all add: receiving_def Node_CheckFlag_def OnActived_def log_event_def setState_def Let_def split: if_splits)

lemma goes_OnUpstreamRegisterDone [goes_intros]: "goes P C n0 n \<Longrightarrow> goes P C n0 (OnUpstreamRegisterDone n)"
  by (erule goes_step, rule goes_cong) (simp_all add: receiving_def Node_CheckFlag_def OnUpstreamRegisterDone_def Let_def split: if_splits)

lemma goes_OnDisconnect [goes_intros]: "goes P C n0 n \<Longrightarrow> goes P C n0 (OnDisconnect e c n)"
  unfolding OnDisconnect_def Let_def by (simp add: goes_intros)

lemma goes_EndpointGc [goes_intros]: "goes P C n0 n \<Longrightarrow> e < length (nd_eps n) \<Longrightarrow> goes P C n0 (AddEndpointGcList e n)"
  by (erule goes_step, rule goes_cong) (auto simp: receiving_def Node_CheckFlag_def AddEndpointGcList_def split: if_splits)

lemma goes_ConnectionGc [goes_intros]: "goes P C n0 n \<Longrightarrow> c < length (nd_conns n) \<Longrightarrow> goes P C n0 (AddConnectionGcList c n)"
  by (erule goes_step, rule goes_cong) (auto simp: receiving_def Node_CheckFlag_def AddConnectionGcList_def split: if_splits)

lemma goes_connecting_Put [goes_intros]:
  "goes P C n0 n \<Longrightarrow> c < length (nd_conns n) \<Longrightarrow> goes P C n0 (n\<lparr>nd_connectingList := lru_Put C a (t, c) (nd_connectingList n)\<rparr>)"
  by (erule goes_step, rule goes_cong) (auto simp: receiving_def Node_CheckFlag_def refs_ok_def lru_Get_Put split: if_splits)

lemma goes_connecting_Delete [goes_intros]:
  "goes P C n0 n \<Longrightarrow> goes P C n0 (n\<lparr>nd_connectingList := lru_Delete C a (nd_connectingList n)\<rparr>)"
  by (erule goes_step, rule goes_cong) (auto simp: receiving_def Node_CheckFlag_def refs_ok_def lru_Get_Delete split: if_splits)

lemma goes_removeConnectionTimer [goes_intros]: "goes P C n0 n \<Longrightarrow> goes P C n0 (removeConnectionTimer C c n)"
proof -
  assume n: "goes P C n0 n"
  have l: "nd_connectingList (log_event ev m) = nd_connectingList m" for ev and m :: "('a, 'b) Node" by (simp add: log_event_def)
  from n show ?thesis
    unfolding removeConnectionTimer_def Let_def
    by (auto simp del: log_event_views simp: goes_intros goes_connecting_Delete [OF goes_log_event [OF n], unfolded l] l split: option.split)
qed

lemma goes_ping_Put [goes_intros]:
  "goes P C n0 n \<Longrightarrow> e < length (nd_eps n) \<Longrightarrow> goes P C n0 (n\<lparr>nd_pingList := lru_Put P k (t, e) (nd_pingList n)\<rparr>)"
  by (erule goes_step, rule goes_cong) (auto simp: receiving_def Node_CheckFlag_def refs_ok_def lru_Get_Put split: if_splits)

lemma goes_ping_Delete [goes_intros]: "goes P C n0 n \<Longrightarrow> goes P C n0 (n\<lparr>nd_pingList := lru_Delete P k (nd_pingList n)\<rparr>)"
  by (erule goes_step, rule goes_cong) (auto simp: receiving_def Node_CheckFlag_def refs_ok_def lru_Get_Delete split: if_splits)

lemma attached_flags [simp]:
  "attached (Endpoint_SetFlag f v x) = attached x" "attached (Endpoint_setFlag f v x) = attached x" "attached (x\<lparr>ep_flags := w\<rparr>) = attached x"
  "ep_id (Endpoint_SetFlag f v x) = ep_id x" "ep_id (Endpoint_setFlag f v x) = ep_id x"
  by (simp_all add: attached_def Endpoint_SetFlag_def Endpoint_setFlag_def)

lemma goes_ClearPingTimer [goes_intros]: "goes P C n0 n \<Longrightarrow> goes P C n0 (ClearPingTimer P e n)"
  unfolding ClearPingTimer_def removePingTimer_def by (simp add: goes_intros)

lemma goes_AddPingTimer [goes_intros]:
  assumes "goes P C n0 n" and "e < length (nd_eps n)"
  shows "goes P C n0 (AddPingTimer P e n)"
proof -
  have "e < length (nd_eps (ClearPingTimer P e n))" using assms(2) by simp
  with goes_ClearPingTimer [OF assms(1)] assms show ?thesis
    unfolding AddPingTimer_def addPingTimer_def Let_def by (simp add: goes_intros)
qed

subsection \<open>Resets\<close>

lemma refs_okD:
  assumes "refs_ok P C n"
  shows "c < length (nd_conns n) \<Longrightarrow> cn_binding (nd_conns n ! c) = Some e \<Longrightarrow> e < length (nd_eps n)"
    "e < length (nd_eps n) \<Longrightarrow> set (attached (nd_eps n ! e)) \<subseteq> {..<length (nd_conns n)}"
    "lru_Get C a (nd_connectingList n) = Some (t, c) \<Longrightarrow> c < length (nd_conns n)"
    "lru_Get P k (nd_pingList n) = Some (t, e) \<Longrightarrow> e < length (nd_eps n)"
    "c \<in> set (nd_pendingConnectionGc n) \<Longrightarrow> c < length (nd_conns n)" "e \<in> set (nd_pendingEndpointGc n) \<Longrightarrow> e < length (nd_eps n)"
  using assms by (fastforce simp: refs_ok_def list_all_length ids_def)+

lemma goes_fold_reset:
  assumes "\<And>c n n'. c \<in> set cs \<Longrightarrow> refs_ok P C n \<Longrightarrow> c < length (nd_conns n) \<Longrightarrow> reset c n = Some n' \<Longrightarrow> goes P C n n'"
    and "goes P C n0 n" and "set cs \<subseteq> {..<length (nd_conns n)}" and "fold_reset reset cs n = Some n'"
  shows "goes P C n0 n'"
  using assms
proof (induction cs arbitrary: n)
  case (Cons c cs)
  let ?n1 = "upd_conn c (setBinding None) n"
  have g1: "goes P C n0 ?n1" using Cons.prems(2) by (rule goes_upd_conn) (simp add: setBinding_def)
  from Cons.prems(4) obtain n2 where n2: "reset c ?n1 = Some n2" "fold_reset reset cs n2 = Some n'" by (auto split: option.splits)
  have g2: "goes P C n0 n2" using Cons.prems(1) [OF _ goesD(1) [OF g1] _ n2(1)] Cons.prems(3) goes_trans [OF g1] by simp
  show ?case
  proof (rule Cons.IH [OF _ g2 _ n2(2)])
    show "goes P C m m'" if "d \<in> set cs" "refs_ok P C m" "d < length (nd_conns m)" "reset d m = Some m'" for d m m'
      using Cons.prems(1) [OF _ that(2-4)] that(1) by simp
    show "set cs \<subseteq> {..<length (nd_conns n2)}" using Cons.prems(3) goesD(3) [OF g2] goesD(3) [OF Cons.prems(2)] by auto
  qed
qed simp

lemma goes_some: "goes P C n0 n \<Longrightarrow> (\<And>n'. refs_ok P C n \<Longrightarrow> r = Some n' \<Longrightarrow> goes P C n n') \<Longrightarrow> r = Some n' \<Longrightarrow> goes P C n0 n'"
  using goes_trans goesD(1) by blast

lemmas reset_simps = Connection_Reset.simps RemoveConnection.simps Endpoint_Reset.simps

text \<open>The three mutually recursive operations keep what a node keeps, whatever the state.\<close>

lemma Connection_Reset_step:
  assumes "\<And>e c n n' b. refs_ok P C n \<Longrightarrow> e < length (nd_eps n) \<Longrightarrow> c < length (nd_conns n) \<Longrightarrow> RemoveConnection P C d e c n = Some (n', b) \<Longrightarrow> goes P C n n'"
    and "refs_ok P C n" and "c < length (nd_conns n)" and "Connection_Reset P C (Suc d) c n = Some n'"
  shows "goes P C n n'"
proof (cases "CheckFlag ConnectionFlag_Resetting (nd_conns n ! c)")
  case True
  with assms(2,4) show ?thesis by (simp add: goes_refl reset_simps)
next
  case False
  define n1 where "n1 = removeConnectionTimer C c (upd_conn c (Connection_setFlag ConnectionFlag_Resetting True) n)"
  have g1: "goes P C n n1" unfolding n1_def
    by (intro goes_intros goes_refl assms(2)) (simp add: Connection_setFlag_def)
  have c1: "c < length (nd_conns n1)" using goesD(3) [OF g1] assms(3) by simp
  from False assms(4) obtain n2 where n2: "(case cn_binding (nd_conns n1 ! c) of None \<Rightarrow> Some n1 | Some e \<Rightarrow> map_option fst (RemoveConnection P C d e c n1)) = Some n2"
    and n': "n' = OnDisconnect (cn_binding (nd_conns n1 ! c)) c (upd_conn c (\<lambda>cn. cn\<lparr>cn_flags := 0, cn_statistic := zero_ConnectionStatistic\<rparr>) (AddConnectionGcList c n2))"
    by (auto simp: n1_def Let_def reset_simps split: option.splits)
  have g2: "goes P C n n2"
  proof (cases "cn_binding (nd_conns n1 ! c)")
    case None
    with n2 g1 show ?thesis by simp
  next
    case (Some e)
    with n2 obtain b where "RemoveConnection P C d e c n1 = Some (n2, b)" by auto
    then show ?thesis using assms(1) [OF goesD(1) [OF g1] refs_okD(1) [OF goesD(1) [OF g1] c1 Some] c1] goes_trans [OF g1] by blast
  qed
  have "c < length (nd_conns n2)" using goesD(3) [OF g2] assms(3) by simp
  then show ?thesis unfolding n' by (intro goes_intros g2) simp_all
qed

lemma RemoveConnection_step:
  assumes "\<And>e n n'. refs_ok P C n \<Longrightarrow> e < length (nd_eps n) \<Longrightarrow> Endpoint_Reset P C d e n = Some n' \<Longrightarrow> goes P C n n'"
    and "refs_ok P C n" and "e < length (nd_eps n)" and "RemoveConnection P C (Suc d) e c n = Some (n', b)"
  shows "goes P C n n'"
proof -
  let ?n1 = "upd_conn c (setBinding None) n"
  let ?n2 = "upd_ep e (\<lambda>ep. ep\<lparr>ep_dataConn := remove1 c (ep_dataConn ep)\<rparr>) ?n1"
  have g1: "goes P C n ?n1" by (rule goes_upd_conn [OF goes_refl [OF assms(2)]]) (simp add: setBinding_def)
  have g2: "goes P C n ?n2"
    by (rule goes_upd_ep [OF g1]) (auto simp: attached_def dest: notin_set_remove1 split: option.split)
  have "goes P C n n'" if "Endpoint_Reset P C d e ?n2 = Some n'"
    using goes_trans [OF g2] assms(1) [OF goesD(1) [OF g2] _ that] assms(3) by simp
  then show ?thesis
    using assms g1 g2 goes_refl [OF assms(2)] by (auto simp: Let_def reset_simps split: if_splits)
qed

lemma Endpoint_Reset_step:
  assumes "\<And>c n n'. refs_ok P C n \<Longrightarrow> c < length (nd_conns n) \<Longrightarrow> Connection_Reset P C d c n = Some n' \<Longrightarrow> goes P C n n'"
    and "refs_ok P C n" and "e < length (nd_eps n)" and "Endpoint_Reset P C (Suc d) e n = Some n'"
  shows "goes P C n n'"
proof (cases "Endpoint_GetFlag EndpointFlag_Resetting (nd_eps n ! e)")
  case True
  with assms(2,4) show ?thesis by (simp add: goes_refl reset_simps)
next
  case False
  define n1 where "n1 = upd_ep e (\<lambda>ep. ep\<lparr>ep_ctrlConn := None, ep_dataConn := [], ep_listenAddress := []\<rparr>) (upd_ep e (Endpoint_setFlag EndpointFlag_Resetting True) n)"
  let ?ep = "Endpoint_setFlag EndpointFlag_Resetting True (nd_eps n ! e)"
  have att: "ep_ctrlConn ?ep = ep_ctrlConn (nd_eps n ! e)" "ep_dataConn ?ep = ep_dataConn (nd_eps n ! e)" by (simp_all add: Endpoint_setFlag_def)
  have g1: "goes P C n n1" unfolding n1_def by (intro goes_intros goes_refl assms(2)) (auto simp: attached_def att)
  have rng: "set (attached (nd_eps n ! e)) \<subseteq> {..<length (nd_conns n)}" by (rule refs_okD(2) [OF assms(2,3)])
  from False assms(4) obtain n2 n3 where
    n2: "(case ep_ctrlConn (nd_eps n ! e) of None \<Rightarrow> Some n1 | Some c \<Rightarrow> Connection_Reset P C d c (upd_conn c (setBinding None) n1)) = Some n2"
    and n3: "fold_reset (Connection_Reset P C d) (ep_dataConn (nd_eps n ! e)) n2 = Some n3"
    and n': "n' = upd_ep e (\<lambda>ep. ep\<lparr>ep_flags := 0\<rparr>) (AddEndpointGcList e (ClearPingTimer P e n3))"
    using assms(3) by (auto simp: n1_def Let_def att reset_simps split: option.splits)
  have g2: "goes P C n n2"
  proof (cases "ep_ctrlConn (nd_eps n ! e)")
    case None
    with n2 g1 show ?thesis by simp
  next
    case (Some c)
    have u: "goes P C n (upd_conn c (setBinding None) n1)" by (rule goes_upd_conn [OF g1]) (simp add: setBinding_def)
    have "c < length (nd_conns n1)" using rng Some goesD(3) [OF g1] by (auto simp: attached_def)
    then show ?thesis using n2 Some assms(1) [OF goesD(1) [OF u]] goes_trans [OF u] by simp
  qed
  have g3: "goes P C n n3"
    by (rule goes_fold_reset [OF _ g2 _ n3]) (use assms(1) rng goesD(3) [OF g2] in \<open>auto simp: attached_def\<close>)
  have "e < length (nd_eps (ClearPingTimer P e n3))" using goesD(4) [OF g3] assms(3) by simp
  then show ?thesis unfolding n' by (intro goes_intros g3) simp_all
qed

lemma reset_goes:
  "refs_ok P C n \<Longrightarrow> c < length (nd_conns n) \<Longrightarrow> Connection_Reset P C d c n = Some n' \<Longrightarrow> goes P C n n'"
  "refs_ok P C n \<Longrightarrow> e < length (nd_eps n) \<Longrightarrow> c < length (nd_conns n) \<Longrightarrow> RemoveConnection P C d e c n = Some (n', b) \<Longrightarrow> goes P C n n'"
  "refs_ok P C n \<Longrightarrow> e < length (nd_eps n) \<Longrightarrow> Endpoint_Reset P C d e n = Some n' \<Longrightarrow> goes P C n n'"
proof (induction d arbitrary: n n' c e b)
  case (Suc d)
  { case 1 then show ?case by (rule Connection_Reset_step [rotated]) (rule Suc.IH(2)) }
  { case 2 then show ?case by (rule_tac RemoveConnection_step) (auto intro: Suc.IH(3)) }
  { case 3 then show ?case by (rule Endpoint_Reset_step [rotated]) (rule Suc.IH(1)) }
qed (simp_all add: reset_simps)

subsection \<open>The invariant of a node\<close>

definition node_inv :: "'p ping_ops \<Rightarrow> 'c connecting_ops \<Rightarrow> ('p, 'c) Node \<Rightarrow> bool" where
  "node_inv P C n \<longleftrightarrow> bind_inv n \<and> quiet n \<and> route_wf n \<and> topo_inv (nd_topology n) \<and> refs_ok P C n"

text \<open>A later state: no endpoint disappears, and the node is still, or still not, handling the messages it sent to itself.\<close>

definition steps :: "('p, 'c) Node \<Rightarrow> ('p, 'c) Node \<Rightarrow> bool" where
  "steps n n' \<longleftrightarrow> length (nd_conns n') = length (nd_conns n) \<and> length (nd_eps n) \<le> length (nd_eps n') \<and> receiving n' = receiving n"

lemma steps_refl [simp]: "steps n n"
  by (simp add: steps_def)

lemma steps_trans: "steps a b \<Longrightarrow> steps b c \<Longrightarrow> steps a c"
  by (simp add: steps_def)

lemma keeps_steps: "keeps n n' \<Longrightarrow> steps n n'"
  by (auto simp: keeps_def steps_def ids_def dest: map_eq_imp_length_eq)

lemma node_inv_goes:
  assumes "node_inv P C n" and "goes P C n n'" and "bind_inv n'" and "quiet n'"
  shows "node_inv P C n'" "steps n n'"
  using assms route_wf_cong [of n' n] keeps_steps [of n n'] by (auto simp: node_inv_def goes_def keeps_def)

lemma node_inv_same_stores:
  assumes "node_inv P C n" and "goes P C n n'" and "nd_conns n' = nd_conns n" and "nd_eps n' = nd_eps n"
  shows "node_inv P C n'" "steps n n'"
proof -
  have "bind_inv n'" "quiet n'" using assms(1,3,4) by (simp_all add: node_inv_def bind_inv_def quiet_def)
  with node_inv_goes [OF assms(1,2)] show "node_inv P C n'" "steps n n'" by blast+
qed

lemma node_inv_upd_conn:
  assumes "node_inv P C n" and "cn_binding (f (nd_conns n ! c)) = cn_binding (nd_conns n ! c)"
    and "CheckFlag ConnectionFlag_Resetting (f (nd_conns n ! c)) = CheckFlag ConnectionFlag_Resetting (nd_conns n ! c)"
  shows "node_inv P C (upd_conn c f n)" "steps n (upd_conn c f n)"
proof -
  have "goes P C n (upd_conn c f n)" using assms(1,2) by (intro goes_upd_conn goes_refl) (simp_all add: node_inv_def)
  moreover have "bind_inv (upd_conn c f n)" using assms(1,2) by (simp add: node_inv_def bind_inv_def map_binding_update)
  moreover have "quiet (upd_conn c f n)"
    using assms(1,3) by (cases "c < length (nd_conns n)") (auto simp: node_inv_def quiet_def list_all_length nth_list_update list_update_beyond)
  ultimately show "node_inv P C (upd_conn c f n)" "steps n (upd_conn c f n)" using node_inv_goes [OF assms(1)] by blast+
qed

lemma node_inv_upd_ep:
  assumes "node_inv P C n" and "ep_id (f (nd_eps n ! e)) = ep_id (nd_eps n ! e)" and "attached (f (nd_eps n ! e)) = attached (nd_eps n ! e)"
    and "Endpoint_GetFlag EndpointFlag_Resetting (f (nd_eps n ! e)) = Endpoint_GetFlag EndpointFlag_Resetting (nd_eps n ! e)"
  shows "node_inv P C (upd_ep e f n)" "steps n (upd_ep e f n)"
proof -
  have "goes P C n (upd_ep e f n)" using assms(1-3) by (intro goes_upd_ep goes_refl) (simp_all add: node_inv_def)
  moreover have "map attached ((nd_eps n)[e := f (nd_eps n ! e)]) = map attached (nd_eps n)" using assms(3) by (metis list_update_id map_update)
  then have "bind_inv (upd_ep e f n)" using assms(1) by (simp add: node_inv_def bind_inv_def)
  moreover have "quiet (upd_ep e f n)"
    using assms(1,4) by (cases "e < length (nd_eps n)") (auto simp: node_inv_def quiet_def list_all_length nth_list_update list_update_beyond)
  ultimately show "node_inv P C (upd_ep e f n)" "steps n (upd_ep e f n)" using node_inv_goes [OF assms(1)] by blast+
qed

lemma node_inv_Connection_Reset:
  assumes "node_inv P C n" and "c < length (nd_conns n)" and "4 \<le> d"
  obtains n' where "Connection_Reset P C d c n = Some n'" and "node_inv P C n'" and "steps n n'" and "keeps n n'"
    and "nd_conns n' = reset_conns n c" and "nd_eps n' = reset_eps n c"
proof -
  have bq: "bind_inv n" "quiet n" and r: "refs_ok P C n" using assms(1) by (simp_all add: node_inv_def)
  obtain n' where n': "Connection_Reset P C d c n = Some n'" "nd_conns n' = reset_conns n c" "nd_eps n' = reset_eps n c" "bind_inv n'" "quiet n'"
    using bq assms(2,3) by (rule Connection_Reset_keeps)
  moreover have "goes P C n n'" by (rule reset_goes(1) [OF r assms(2) n'(1)])
  ultimately show ?thesis using that node_inv_goes [OF assms(1)] by (meson goesD(2))
qed

lemma node_inv_Endpoint_Reset:
  assumes "node_inv P C n" and "e < length (nd_eps n)" and "2 \<le> d"
  obtains n' where "Endpoint_Reset P C d e n = Some n'" and "node_inv P C n'" and "steps n n'" and "keeps n n'"
proof -
  have bq: "bind_inv n" "quiet n" and r: "refs_ok P C n" using assms(1) by (simp_all add: node_inv_def)
  obtain n' where n': "Endpoint_Reset P C d e n = Some n'" "bind_inv n'" "quiet n'"
    using Endpoint_Reset_keeps [OF bq assms(2,3), where P = P and C = C] by blast
  moreover have "goes P C n n'" by (rule reset_goes(3) [OF r assms(2) n'(1)])
  ultimately show ?thesis using that node_inv_goes [OF assms(1)] by (meson goesD(2))
qed

lemma map_ep_id_same: "ep_id y = ep_id (xs ! e) \<Longrightarrow> map ep_id (xs[e := y]) = map ep_id xs"
  by (metis list_update_id map_update)

lemma node_inv_AddConnection:
  assumes "node_inv P C n" and "e < length (nd_eps n)" and "c < length (nd_conns n)"
  shows "node_inv P C (fst (AddConnection e c forceData n))" "steps n (fst (AddConnection e c forceData n))"
proof -
  let ?n = "fst (AddConnection e c forceData n)"
  have bq: "bind_inv n" "quiet n" and r: "refs_ok P C n" and wf: "route_wf n" and topo: "topo_inv (nd_topology n)"
    using assms(1) by (simp_all add: node_inv_def)
  have inv: "bind_inv ?n" "quiet ?n" using AddConnection_keeps [OF bq assms(2,3)] by blast+
  have ids: "ids ?n = ids n" by (simp add: AddConnection_def Let_def ids_def map_ep_id_same)
  have len: "length (nd_conns ?n) = length (nd_conns n)" by (simp add: AddConnection_def Let_def)
  have v: "nd_self ?n = nd_self n" "nd_upstream ?n = nd_upstream n" "nd_route ?n = nd_route n" "nd_topology ?n = nd_topology n" "receiving ?n = receiving n"
    "nd_connectingList ?n = nd_connectingList n" "nd_pingList ?n = nd_pingList n" "nd_pendingConnectionGc ?n = nd_pendingConnectionGc n"
    "nd_pendingEndpointGc ?n = nd_pendingEndpointGc n"
    by (simp_all add: AddConnection_def Let_def upd_conn_def upd_ep_def receiving_def Node_CheckFlag_def)
  have "list_all (below (length (ids n))) (map cn_binding (nd_conns ?n))"
    using bind_inv_bound [OF inv(1)] ids len by (auto simp: list_all_length below_def ids_def dest: map_eq_imp_length_eq split: option.split)
  moreover have "list_all (\<lambda>l. set l \<subseteq> {..<length (nd_conns n)}) (map attached (nd_eps ?n))"
    using bind_inv_attached(2) [OF inv(1)] len by (auto simp: list_all_length)
  ultimately have "refs_ok P C ?n" using r by (simp add: refs_ok_def v ids len)
  moreover have "route_wf ?n" using wf route_wf_cong [of ?n n] ids v by simp
  ultimately show "node_inv P C ?n" using inv topo by (simp add: node_inv_def v)
  show "steps n ?n" using ids len v by (auto simp: steps_def ids_def dest: map_eq_imp_length_eq)
qed

lemma bindings_agree_new_conn: "bindings_agree bs as \<Longrightarrow> bindings_agree (bs @ [None]) as"
  by (fastforce simp: bindings_agree_def nth_append less_Suc_eq split: option.splits)

lemma bindings_agree_new_ep: "bindings_agree bs as \<Longrightarrow> bindings_agree bs (as @ [[]])"
  by (fastforce simp: bindings_agree_def nth_append less_Suc_eq split: option.splits)

lemma node_inv_new_conn:
  assumes "node_inv P C n" and "cn_binding x = None" and "\<not> CheckFlag ConnectionFlag_Resetting x"
  shows "node_inv P C (n\<lparr>nd_conns := nd_conns n @ [x]\<rparr>)"
proof -
  let ?n = "n\<lparr>nd_conns := nd_conns n @ [x]\<rparr>"
  have ids: "ids ?n = ids n" by (simp add: ids_def)
  have "bind_inv ?n" "quiet ?n" using assms bindings_agree_new_conn by (auto simp: node_inv_def bind_inv_def quiet_def)
  moreover have "refs_ok P C ?n" using assms(1,2) by (force simp: node_inv_def refs_ok_def ids list_all_iff)
  moreover have "route_wf ?n" using assms(1) route_wf_cong [of ?n n] ids by (simp add: node_inv_def)
  ultimately show "node_inv P C ?n" using assms(1) by (simp add: node_inv_def)
qed

lemma node_inv_new_ep:
  assumes "node_inv P C n" and "attached x = []" and "\<not> Endpoint_GetFlag EndpointFlag_Resetting x"
  shows "node_inv P C (n\<lparr>nd_eps := nd_eps n @ [x]\<rparr>)" "steps n (n\<lparr>nd_eps := nd_eps n @ [x]\<rparr>)"
proof -
  let ?n = "n\<lparr>nd_eps := nd_eps n @ [x]\<rparr>"
  have ids: "ids ?n = ids n @ [ep_id x]" by (simp add: ids_def)
  note D = route_wfD [of n]
  have "bind_inv ?n" "quiet ?n" using assms bindings_agree_new_ep by (auto simp: node_inv_def bind_inv_def quiet_def)
  moreover have "refs_ok P C ?n" using assms(1,2) by (force simp: node_inv_def refs_ok_def ids list_all_iff below_def split: option.splits)
  moreover have wf: "route_wf n" using assms(1) by (simp add: node_inv_def)
  have "in_range ?n" using D(1) [OF wf] by (auto simp: in_range_def ids nth_append list_all_iff split: option.splits)
  moreover have "self_id (nd_self n) (ids n @ [ep_id x]) = self_id (nd_self n) (ids n)"
    using D(1) [OF wf] by (auto simp: self_id_def in_range_def nth_append split: option.splits)
  ultimately have "route_wf ?n"
    using wf by (auto simp: route_wf_def in_range_def ids nth_append split: option.splits)
  with \<open>bind_inv ?n\<close> \<open>quiet ?n\<close> \<open>refs_ok P C ?n\<close> show "node_inv P C ?n" using assms(1) by (simp add: node_inv_def)
  show "steps n ?n" by (simp add: steps_def receiving_def Node_CheckFlag_def)
qed

lemma node_inv_CreateConnection:
  assumes "node_inv P C n" and "CreateConnection l addr n = Some (n', c)"
  shows "node_inv P C n'" "c = length (nd_conns n)" "length (nd_conns n') = Suc (length (nd_conns n))" "nd_eps n' = nd_eps n" "receiving n' = receiving n"
  using assms node_inv_new_conn [OF assms(1)] by (auto simp: CreateConnection_def CheckFlag_def receiving_def Node_CheckFlag_def split: option.splits)

lemma node_inv_CreateEndpoint:
  assumes "node_inv P C n"
  shows "node_inv P C (fst (CreateEndpoint i p h t n))" "steps n (fst (CreateEndpoint i p h t n))"
    "snd (CreateEndpoint i p h t n) < length (nd_eps (fst (CreateEndpoint i p h t n)))" "nd_conns (fst (CreateEndpoint i p h t n)) = nd_conns n"
  using node_inv_new_ep [OF assms] by (simp_all add: CreateEndpoint_def attached_def Endpoint_GetFlag_def)

lemma bindings_agree_perm:
  assumes "bindings_agree bs as" and "mset l = mset (as ! e)"
  shows "bindings_agree bs (as[e := l])"
proof -
  have "set l = set (as ! e)" "distinct l = distinct (as ! e)" using assms(2) by (metis set_mset_mset, metis mset_eq_imp_distinct_iff)
  with assms(1) show ?thesis by (cases "e < length as") (auto simp: bindings_agree_def nth_list_update list_update_beyond split: option.splits)
qed

lemma node_inv_sort_data:
  assumes "node_inv P C n"
  shows "node_inv P C (sort_data e n)" "goes P C n (sort_data e n)"
proof -
  define f where "f = (\<lambda>ep. Endpoint_setFlag EndpointFlag_ConnectionSorted True
     (ep\<lparr>ep_dataConn := sort_key (\<lambda>c. scoreConnection (nd_conns n ! c)) (ep_dataConn ep)\<rparr>))"
  have f: "ep_id (f x) = ep_id x" "mset (attached (f x)) = mset (attached x)" "set (attached (f x)) = set (attached x)"
    "Endpoint_GetFlag EndpointFlag_Resetting (f x) = Endpoint_GetFlag EndpointFlag_Resetting x" for x
    by (simp_all add: f_def attached_def Endpoint_setFlag_def Endpoint_GetFlag_def has_flag_put_other EndpointFlag_Resetting_def
        EndpointFlag_ConnectionSorted_def split: option.split)
  have g: "goes P C n (upd_ep e f n)" using assms by (intro goes_upd_ep goes_refl) (simp_all add: node_inv_def f)
  have "bind_inv (upd_ep e f n)"
  proof (cases "e < length (nd_eps n)")
    case True
    then show ?thesis using assms bindings_agree_perm [of _ "map attached (nd_eps n)" "attached (f (nd_eps n ! e))" e] f(2)
      by (simp add: node_inv_def bind_inv_def map_update)
  qed (use assms in \<open>simp add: node_inv_def upd_ep_def list_update_beyond\<close>)
  moreover have "quiet (upd_ep e f n)"
    using assms f(4) by (cases "e < length (nd_eps n)") (auto simp: node_inv_def quiet_def list_all_length nth_list_update list_update_beyond)
  ultimately have "node_inv P C (upd_ep e f n)" using node_inv_goes [OF assms g] by blast
  with g assms show "node_inv P C (sort_data e n)" "goes P C n (sort_data e n)"
    by (simp_all add: sort_data_def f_def goes_refl node_inv_def)
qed

subsection \<open>Choosing the next hop\<close>

text \<open>What is expected of a choice of a connection to an endpoint, and that the choices of the node fulfil it.\<close>

definition chooses :: "'p ping_ops \<Rightarrow> 'c connecting_ops \<Rightarrow> ('p, 'c) choose_connection \<Rightarrow> bool" where
  "chooses P C fn \<longleftrightarrow> (\<forall>self e n. node_inv P C n \<longrightarrow> e < length (nd_eps n) \<longrightarrow>
     node_inv P C (fst (fn self e n)) \<and> keeps n (fst (fn self e n)) \<and> below (length (nd_conns n)) (snd (fn self e n)))"

lemma GetCtrlConnection_below: "node_inv P C n \<Longrightarrow> e < length (nd_eps n) \<Longrightarrow> below (length (nd_conns n)) (GetCtrlConnection n self e)"
  using refs_okD(2) [of P C n e] by (auto simp: GetCtrlConnection_def node_inv_def attached_def split: option.splits)

lemma chooses_ctrl: "chooses P C (\<lambda>from peer n. (n, GetCtrlConnection n from peer))"
  by (simp add: chooses_def GetCtrlConnection_below)

lemma chooses_data: "chooses P C (\<lambda>from peer n. GetDataConnection from peer b n)"
proof (unfold chooses_def, intro allI impI)
  fix self e and n :: "('a, 'b) Node"
  assume n: "node_inv P C n" "e < length (nd_eps n)"
  let ?n = "sort_data e n"
  note s = node_inv_sort_data [OF n(1), of e]
  have e: "e < length (nd_eps ?n)" using n(2) goesD(4) [OF s(2)] by simp
  have "c < length (nd_conns n)" if "List.find (usable ?n self e) (ep_dataConn (nd_eps ?n ! e)) = Some c" for c
    using that refs_okD(2) [OF goesD(1) [OF s(2)] e] by (auto simp: attached_def find_Some_iff dest!: nth_mem)
  then show "node_inv P C (fst (GetDataConnection self e b n)) \<and> keeps n (fst (GetDataConnection self e b n))
      \<and> below (length (nd_conns n)) (snd (GetDataConnection self e b n))"
    using n s(1) goesD(2) [OF s(2)] GetCtrlConnection_below [OF s(1) e, of self]
    by (auto simp: GetDataConnection_def Let_def split: option.split)
qed

lemma choose_hop_unchanged: "choose_hop fn options tid self n = Some (n', r, None, conn) \<Longrightarrow> n' = n"
  by (auto simp: choose_hop_def Let_def via_def fallback_upstream_def split: option.splits prod.splits if_splits)

lemma hop_ok_below:
  assumes "route_wf n" and "hop_ok options tid n e"
  shows "e < length (nd_eps n)"
proof -
  note D = route_wfD [OF assms(1)]
  have "length (ids n) = length (nd_eps n)" by (simp add: ids_def)
  then show ?thesis
    using assms(2) D(3,6) GetEndpoint_lookup [OF D(1), of tid]
    by (auto simp: hop_ok_def lookup_def findRouteEndpoint_def split: if_splits option.splits)
qed

lemma node_inv_GetPeerChannel:
  assumes "node_inv P C n" and "chooses P C fn"
  obtains n' r ep conn peer where "GetPeerChannel fn options tid n = Some (n', r, ep, conn, peer)"
    and "node_inv P C n'" and "keeps n n'" and "below (length (nd_eps n)) ep" and "below (length (nd_conns n)) conn"
proof (cases "nd_self n = None \<or> nd_state n = NodeState_Created \<or> tid = Node_GetId n")
  case True
  then have "GetPeerChannel fn options tid n = Some (n, if nd_self n = None \<or> nd_state n = NodeState_Created then EN_ATBUS_ERR_NOT_INITED
      else EN_ATBUS_ERR_ATNODE_INVALID_ID, None, None, None)"
    by (cases "nd_self n"; cases "nd_state n = NodeState_Created"; cases "tid = Node_GetId n") (simp_all add: GetPeerChannel_def)
  then show ?thesis using assms(1) by (rule that) simp_all
next
  case False
  then obtain self where self: "nd_self n = Some self" by auto
  have pre: "route_wf n" "topo_inv (nd_topology n)" "nd_self n \<noteq> None" "tid \<noteq> Node_GetId n" using False assms(1) by (auto simp: node_inv_def)
  obtain n' ret ep conn where h: "choose_hop fn options tid self n = Some (n', ret, ep, conn)"
    "ret = EN_ATBUS_ERR_SUCCESS \<or> ret = EN_ATBUS_ERR_ATNODE_INVALID_ID \<and> ep = None"
    "case ep of None \<Rightarrow> conn = None | Some e \<Rightarrow> hop_ok options tid n e \<and> fn self e n = (n', conn)"
    "\<forall>e. GetEndpoint tid n = Some e \<longrightarrow> tid \<notin> set (GetBlacklist options) \<longrightarrow> ep = Some e"
    by (rule choose_hop_ok [OF pre, where fn = fn and options = options and self = self])
  have "node_inv P C n' \<and> keeps n n' \<and> below (length (nd_eps n)) ep \<and> below (length (nd_conns n)) conn"
  proof (cases ep)
    case None
    have "n' = n" by (rule choose_hop_unchanged [OF h(1) [unfolded None]])
    with h(3) None assms(1) show ?thesis by simp
  next
    case (Some e)
    with h(3) have e: "e < length (nd_eps n)" "fn self e n = (n', conn)" using hop_ok_below [OF pre(1)] by auto
    from assms(2) [unfolded chooses_def, rule_format, OF assms(1) e(1), of self] e Some show ?thesis by simp
  qed
  moreover define peer where "peer = (case ep of None \<Rightarrow> None | Some e \<Rightarrow> GetPeer (nd_topology n') (ep_id (nd_eps n' ! e)))"
  have "\<exists>r p. GetPeerChannel fn options tid n = Some (n', r, ep, conn, p)"
    using self False h(1) by (simp add: GetPeerChannel_def Let_def peer_def [symmetric])
  ultimately show ?thesis using that by blast
qed

subsection \<open>Registering endpoints\<close>

lemma refs_ok_cong:
  "refs_ok P C n \<Longrightarrow> nd_conns n' = nd_conns n \<Longrightarrow> nd_eps n' = nd_eps n \<Longrightarrow> nd_connectingList n' = nd_connectingList n
    \<Longrightarrow> nd_pingList n' = nd_pingList n \<Longrightarrow> nd_pendingConnectionGc n' = nd_pendingConnectionGc n \<Longrightarrow> nd_pendingEndpointGc n' = nd_pendingEndpointGc n
    \<Longrightarrow> refs_ok P C n'"
  by (simp add: refs_ok_def ids_def)

lemma AddPingTimer_stores:
  "bind_inv (AddPingTimer P e n) = bind_inv n" "quiet (AddPingTimer P e n) = quiet n"
proof -
  have f: "Endpoint_GetFlag EndpointFlag_Resetting (Endpoint_SetFlag EndpointFlag_HasPingTimer v x) = Endpoint_GetFlag EndpointFlag_Resetting x" for v x
    by (simp add: Endpoint_GetFlag_def Endpoint_SetFlag_def Endpoint_setFlag_def has_flag_put_other EndpointFlag_Resetting_def EndpointFlag_HasPingTimer_def)
  have a: "map attached (xs[e := Endpoint_SetFlag f v (xs ! e)]) = map attached xs" for xs f v
    by (metis attached_flags(1) list_update_id map_update)
  have q: "list_all (\<lambda>e. \<not> Endpoint_GetFlag EndpointFlag_Resetting e) (xs[e := Endpoint_SetFlag EndpointFlag_HasPingTimer v (xs ! e)])
      = list_all (\<lambda>e. \<not> Endpoint_GetFlag EndpointFlag_Resetting e) xs" for xs v
    using f by (cases "e < length xs") (auto simp: list_all_length nth_list_update list_update_beyond)
  show "bind_inv (AddPingTimer P e n) = bind_inv n"
    by (simp add: AddPingTimer_def ClearPingTimer_def addPingTimer_def removePingTimer_def Let_def bind_inv_def a)
  show "quiet (AddPingTimer P e n) = quiet n"
    by (simp add: AddPingTimer_def ClearPingTimer_def addPingTimer_def removePingTimer_def Let_def quiet_def q)
qed

lemma node_inv_AddEndpoint:
  assumes "node_inv P C n" and "e < length (nd_eps n)"
  shows "node_inv P C (fst (AddEndpoint P e n))" "steps n (fst (AddEndpoint P e n))" "nd_conns (fst (AddEndpoint P e n)) = nd_conns n"
    "length (nd_eps (fst (AddEndpoint P e n))) = length (nd_eps n)"
proof -
  have bq: "bind_inv n" "quiet n" and r: "refs_ok P C n" and wf: "route_wf n" and topo: "topo_inv (nd_topology n)" using assms(1) by (simp_all add: node_inv_def)
  obtain n' ret where run: "AddEndpoint P e n = (n', ret)" by (cases "AddEndpoint P e n")
  have wf': "route_wf n'" by (rule AddEndpoint_keeps [OF wf assms(2) run])
  let ?n1 = "n\<lparr>nd_upstream := Some e\<rparr>"
  have r1: "refs_ok P C ?n1" using r by (rule refs_ok_cong) simp_all
  have e1: "e < length (nd_eps ?n1)" using assms(2) by simp
  define n2 where "n2 = (if \<not> Endpoint_GetFlag EndpointFlag_HasPingTimer (nd_eps ?n1 ! e) then AddPingTimer P e ?n1 else ?n1)"
  define n3 where "n3 = (if (nd_state n2 = NodeState_LostUpstream \<or> nd_state n2 = NodeState_ConnectingUpstream) \<and> Node_CheckFlag NodeFlag_UpstreamRegDone n2 then OnActived n2 else n2)"
  let ?m = "insertChild e False n"
  have rm: "refs_ok P C ?m" using r by (rule refs_ok_cong) (simp_all add: insertChild_def Let_def log_event_def)
  have em: "e < length (nd_eps ?m)" using assms(2) by simp
  have st1: "bind_inv ?n1" "quiet ?n1" "bind_inv ?m" "quiet ?m"
    using bq by (simp_all add: bind_inv_def quiet_def insertChild_def Let_def)
  have st3: "bind_inv (log_event ev n3)" "quiet (log_event ev n3)" for ev
    using st1(1,2) AddPingTimer_stores [of P e ?n1] by (simp_all add: n3_def n2_def bind_inv_def quiet_def OnActived_def Let_def setState_def)
  have g2: "goes P C ?n1 n2" unfolding n2_def using goes_AddPingTimer [OF goes_refl [OF r1] e1] goes_refl [OF r1] by simp
  have g3: "goes P C ?n1 (log_event ev n3)" for ev
    unfolding n3_def using g2 goes_OnActived [OF g2] by (simp add: goes_log_event)
  have gm: "goes P C ?m (AddPingTimer P e ?m)" by (rule goes_AddPingTimer [OF goes_refl [OF rm] em])
  have c1: "nd_conns (log_event ev n3) = nd_conns n" for ev by (simp add: n3_def n2_def OnActived_def Let_def setState_def)
  have "n' = n \<or> n' = log_event (OnEndpointAdded e) n3 \<or> n' = AddPingTimer P e ?m"
    using run unfolding AddEndpoint_def Let_def n2_def [symmetric] n3_def [symmetric] by (auto split: if_splits)
  then have "bind_inv n' \<and> quiet n' \<and> refs_ok P C n' \<and> nd_topology n' = nd_topology n \<and> nd_conns n' = nd_conns n
      \<and> length (nd_eps n') = length (nd_eps n) \<and> receiving n' = receiving n"
  proof (elim disjE)
    assume n': "n' = log_event (OnEndpointAdded e) n3"
    have "keeps ?n1 n'" "refs_ok P C n'" using g3 unfolding n' by (auto simp: goes_def)
    then show ?thesis using st3 c1 goesD(4) [OF g3] unfolding n' by (simp add: keeps_def receiving_def Node_CheckFlag_def)
  next
    assume n': "n' = AddPingTimer P e ?m"
    have "keeps ?m n'" "refs_ok P C n'" using gm unfolding n' by (auto simp: goes_def)
    then show ?thesis using st1 unfolding n'
      by (simp add: keeps_def AddPingTimer_stores receiving_def Node_CheckFlag_def) (simp add: insertChild_def Let_def)
  qed (use bq r in simp)
  then show "node_inv P C (fst (AddEndpoint P e n))" "steps n (fst (AddEndpoint P e n))" "nd_conns (fst (AddEndpoint P e n)) = nd_conns n"
    "length (nd_eps (fst (AddEndpoint P e n))) = length (nd_eps n)"
    using wf' topo by (simp_all add: run node_inv_def steps_def)
qed

lemma part_views:
  "nd_connectingList (log_event ev n) = nd_connectingList n" "nd_pendingConnectionGc (log_event ev n) = nd_pendingConnectionGc n"
  "nd_pendingEndpointGc (log_event ev n) = nd_pendingEndpointGc n" "receiving (log_event ev n) = receiving n"
  "nd_connectingList (setState s n) = nd_connectingList n" "nd_pendingConnectionGc (setState s n) = nd_pendingConnectionGc n"
  "nd_pendingEndpointGc (setState s n) = nd_pendingEndpointGc n" "receiving (setState s n) = receiving n" "nd_conns (setState s n) = nd_conns n"
  "nd_pingList (setState s n) = nd_pingList n" "receiving (n\<lparr>nd_upstream := u\<rparr>) = receiving n" "receiving (n\<lparr>nd_upstreamOpTimepoint := t\<rparr>) = receiving n"
  "receiving (n\<lparr>nd_topology := r\<rparr>) = receiving n"
  by (simp_all add: log_event_def setState_def receiving_def Node_CheckFlag_def)

lemma shutdown_part_views:
  "nd_connectingList (fst (FatalShutdown r n)) = nd_connectingList n" "nd_pendingConnectionGc (fst (FatalShutdown r n)) = nd_pendingConnectionGc n"
  "nd_pendingEndpointGc (fst (FatalShutdown r n)) = nd_pendingEndpointGc n" "receiving (fst (FatalShutdown r n)) = receiving n"
  by (simp_all add: FatalShutdown_def Shutdown_def OnShutdown_def part_views) (simp add: receiving_def Node_CheckFlag_def)

lemma removeChild_part_views:
  "nd_conns (fst (removeChild i x b n)) = nd_conns n" "nd_pingList (fst (removeChild i x b n)) = nd_pingList n"
  "nd_connectingList (fst (removeChild i x b n)) = nd_connectingList n" "nd_pendingConnectionGc (fst (removeChild i x b n)) = nd_pendingConnectionGc n"
  "nd_pendingEndpointGc (fst (removeChild i x b n)) = nd_pendingEndpointGc n" "receiving (fst (removeChild i x b n)) = receiving n"
  by (simp_all add: removeChild_def Let_def log_event_def receiving_def Node_CheckFlag_def split: option.split)

lemma insertChild_part_views:
  "nd_conns (insertChild e b n) = nd_conns n" "nd_pingList (insertChild e b n) = nd_pingList n"
  "nd_connectingList (insertChild e b n) = nd_connectingList n" "nd_pendingConnectionGc (insertChild e b n) = nd_pendingConnectionGc n"
  "nd_pendingEndpointGc (insertChild e b n) = nd_pendingEndpointGc n" "receiving (insertChild e b n) = receiving n"
  by (simp_all add: insertChild_def Let_def log_event_def receiving_def Node_CheckFlag_def)

lemmas child_views = part_views shutdown_part_views removeChild_part_views insertChild_part_views

lemma RemoveEndpoint_views:
  "nd_conns (fst (RemoveEndpoint e n)) = nd_conns n" "nd_eps (fst (RemoveEndpoint e n)) = nd_eps n" "nd_topology (fst (RemoveEndpoint e n)) = nd_topology n"
  "nd_connectingList (fst (RemoveEndpoint e n)) = nd_connectingList n" "nd_pingList (fst (RemoveEndpoint e n)) = nd_pingList n"
  "nd_pendingConnectionGc (fst (RemoveEndpoint e n)) = nd_pendingConnectionGc n" "nd_pendingEndpointGc (fst (RemoveEndpoint e n)) = nd_pendingEndpointGc n"
  "receiving (fst (RemoveEndpoint e n)) = receiving n"
  by (simp_all add: RemoveEndpoint_def Let_def child_views split_beta split: option.split)

lemma node_inv_RemoveEndpoint:
  assumes "node_inv P C n" and "e < length (nd_eps n)"
  shows "node_inv P C (fst (RemoveEndpoint e n))" "steps n (fst (RemoveEndpoint e n))"
proof -
  obtain n' ret where run: "RemoveEndpoint e n = (n', ret)" by (cases "RemoveEndpoint e n")
  note v = RemoveEndpoint_views [of e n, unfolded run fst_conv]
  have "route_wf n'" using RemoveEndpoint_keeps [OF _ assms(2) run] assms(1) by (simp add: node_inv_def)
  moreover have "refs_ok P C n'" using assms(1) v by (auto simp: node_inv_def intro: refs_ok_cong)
  ultimately show "node_inv P C (fst (RemoveEndpoint e n))" "steps n (fst (RemoveEndpoint e n))"
    using assms(1) v by (simp_all add: run node_inv_def bind_inv_def quiet_def steps_def)
qed

lemma SetTopologyUpstream_views:
  assumes "SetTopologyUpstream tid n = Some n'"
  shows "nd_conns n' = nd_conns n" "nd_eps n' = nd_eps n" "nd_connectingList n' = nd_connectingList n" "nd_pingList n' = nd_pingList n"
    "nd_pendingConnectionGc n' = nd_pendingConnectionGc n" "nd_pendingEndpointGc n' = nd_pendingEndpointGc n" "receiving n' = receiving n"
  using assms by (auto simp: SetTopologyUpstream_def Let_def child_views split: option.splits if_splits bool.splits)

lemma node_inv_SetTopologyUpstream:
  assumes "node_inv P C n"
  obtains n' where "SetTopologyUpstream tid n = Some n'" and "node_inv P C n'" and "steps n n'"
proof -
  have wf: "route_wf n" "topo_inv (nd_topology n)" using assms by (simp_all add: node_inv_def)
  then have "\<exists>n'. SetTopologyUpstream tid n = Some n' \<and> route_wf n' \<and> topo_inv (nd_topology n')"
    by (cases rule: SetTopologyUpstream_cases [where tid = tid]) (auto simp: wf intro: same_links_keeps [OF wf(1)])
  then obtain n' where n': "SetTopologyUpstream tid n = Some n'" "route_wf n'" "topo_inv (nd_topology n')" by blast
  note v = SetTopologyUpstream_views [OF n'(1)]
  have "refs_ok P C n'" using assms v by (auto simp: node_inv_def intro: refs_ok_cong)
  with n' v assms show ?thesis by (intro that [OF n'(1)]) (simp_all add: node_inv_def bind_inv_def quiet_def steps_def)
qed

subsection \<open>Faults\<close>

lemma node_inv_addEndpointFault:
  assumes "node_inv P C n" and "below (length (nd_eps n)) ep"
  shows "node_inv P C (fst (addEndpointFault ep n))" "steps n (fst (addEndpointFault ep n))"
proof -
  have "node_inv P C (fst (addEndpointFault ep n)) \<and> steps n (fst (addEndpointFault ep n))"
  proof (cases ep)
    case (Some e)
    let ?n = "upd_ep e (\<lambda>x. fst (Endpoint_AddStatisticFault x)) n"
    have i: "node_inv P C ?n" "steps n ?n"
      using node_inv_upd_ep [OF assms(1), where e = e and f = "\<lambda>x. fst (Endpoint_AddStatisticFault x)"]
      by (simp_all add: Endpoint_AddStatisticFault_def Let_def attached_def Endpoint_GetFlag_def)
    have "e < length (nd_eps ?n)" using assms(2) Some by simp
    with i node_inv_RemoveEndpoint [OF i(1)] Some show ?thesis by (auto simp: addEndpointFault_def Let_def intro: steps_trans)
  qed (use assms in \<open>simp add: addEndpointFault_def\<close>)
  then show "node_inv P C (fst (addEndpointFault ep n))" "steps n (fst (addEndpointFault ep n))" by blast+
qed

lemma node_inv_addConnectionFault:
  assumes "node_inv P C n" and "c < length (nd_conns n)" and "4 \<le> d"
  shows "addConnectionFault P C d c n = Some Panics
    \<or> (\<exists>n' b. addConnectionFault P C d c n = Some (Returns (n', b)) \<and> node_inv P C n' \<and> steps n n')"
proof -
  let ?n = "upd_conn c (\<lambda>x. fst (Connection_AddStatisticFault x)) n"
  have i: "node_inv P C ?n" "steps n ?n"
    using node_inv_upd_conn [OF assms(1), where c = c and f = "\<lambda>x. fst (Connection_AddStatisticFault x)"]
    by (simp_all add: Connection_AddStatisticFault_def Let_def CheckFlag_def)
  have "c < length (nd_conns ?n)" using assms(2) by simp
  then obtain n' where n': "Connection_Reset P C d c ?n = Some n'" "node_inv P C n'" "steps ?n n'"
    using node_inv_Connection_Reset [OF i(1) _ assms(3)] by blast
  show ?thesis
    unfolding addConnectionFault_def Let_def using i n' steps_trans [OF i(2) n'(3)] by (auto split: option.split)
qed

end
