(* ===== verification/Bus_Invariant.thy ===== *)
theory Bus_Invariant
  imports Message_Handler Node_Frame
begin

unbundle bit_operations_syntax

section \<open>No message breaks a node\<close>

text \<open>
  The invariant of a node with its connection contexts, and that every operation of sending, connecting and handling returns, with
  the invariant, or panics. An operation is \<open>safe\<close> when that holds of it; the rules for the statements of the operations compose
  the proofs. What the handlers need of the dispatcher of the node's own messages is the locale \<open>dispatcher\<close>, which
  \<open>dispatchAllSelfMessages\<close> implements.
\<close>

subsection \<open>Safe operations\<close>

definition bus_inv :: "('p, 'c) env \<Rightarrow> ('p, 'c) Bus \<Rightarrow> bool" where
  "bus_inv E b \<longleftrightarrow> node_inv (en_ping E) (en_connecting E) (bs_node b) \<and> length (bs_ctx b) = length (nd_conns (bs_node b))
     \<and> (\<forall>io. below (length (nd_conns (bs_node b))) (bs_private b io))"

text \<open>A later state: connections and endpoints are never destroyed, and the flag that the node handles its own messages is as it was.\<close>

definition later :: "('p, 'c) env \<Rightarrow> ('p, 'c) Bus \<Rightarrow> ('p, 'c) Bus \<Rightarrow> bool" where
  "later E b0 b \<longleftrightarrow> bus_inv E b \<and> length (nd_conns (bs_node b0)) \<le> length (nd_conns (bs_node b))
     \<and> length (nd_eps (bs_node b0)) \<le> length (nd_eps (bs_node b)) \<and> receiving (bs_node b) = receiving (bs_node b0)"

definition safe :: "('p, 'c) env \<Rightarrow> ('p, 'c) Bus \<Rightarrow> ('a \<Rightarrow> ('p, 'c) Bus \<Rightarrow> bool) \<Rightarrow> ('p, 'c, 'a) op \<Rightarrow> ('p, 'c) Bus \<Rightarrow> bool" where
  "safe E b0 Q m b \<longleftrightarrow> m b = Some Panics \<or> (\<exists>x b'. m b = Some (Returns (x, b')) \<and> later E b0 b' \<and> Q x b')"

abbreviation anything :: "'a \<Rightarrow> ('p, 'c) Bus \<Rightarrow> bool" where
  "anything \<equiv> \<lambda>_ _. True"

definition conn_ref :: "('p, 'c) Bus \<Rightarrow> nat option \<Rightarrow> bool" where
  "conn_ref b conn = below (length (nd_conns (bs_node b))) conn"

definition ep_ref :: "('p, 'c) Bus \<Rightarrow> nat option \<Rightarrow> bool" where
  "ep_ref b ep = below (length (nd_eps (bs_node b))) ep"

named_theorems safe_intros

lemma ref_simps [simp]: "conn_ref b None" "ep_ref b None"
  "conn_ref b (Some c) \<longleftrightarrow> c < length (nd_conns (bs_node b))" "ep_ref b (Some e) \<longleftrightarrow> e < length (nd_eps (bs_node b))"
  by (simp_all add: conn_ref_def ep_ref_def)

lemma later_refl: "bus_inv E b \<Longrightarrow> later E b b"
  by (simp add: later_def)

lemma later_trans: "later E a b \<Longrightarrow> later E b c \<Longrightarrow> later E a c"
  by (simp add: later_def)

lemma laterD: "later E a b \<Longrightarrow> bus_inv E b" "later E a b \<Longrightarrow> node_inv (en_ping E) (en_connecting E) (bs_node b)"
  "later E a b \<Longrightarrow> conn_ref a conn \<Longrightarrow> conn_ref b conn" "later E a b \<Longrightarrow> ep_ref a ep \<Longrightarrow> ep_ref b ep"
  by (auto simp: later_def bus_inv_def conn_ref_def ep_ref_def below_def split: option.splits)

lemma later_less: "later E a b \<Longrightarrow> c < length (nd_conns (bs_node a)) \<Longrightarrow> c < length (nd_conns (bs_node b))"
  "later E a b \<Longrightarrow> e < length (nd_eps (bs_node a)) \<Longrightarrow> e < length (nd_eps (bs_node b))"
  by (auto simp: later_def)

lemma safe_mono: "safe E b0 R m b \<Longrightarrow> (\<And>x b'. later E b0 b' \<Longrightarrow> R x b' \<Longrightarrow> Q x b') \<Longrightarrow> safe E b0 Q m b"
  by (auto simp: safe_def)

lemma safe_rebase: "later E b0 b \<Longrightarrow> safe E b Q m b \<Longrightarrow> safe E b0 Q m b"
  by (auto simp: safe_def dest: later_trans)

lemma safe_ret [safe_intros]: "later E b0 b \<Longrightarrow> Q x b \<Longrightarrow> safe E b0 Q (ret_op x) b"
  by (simp add: safe_def ret_op_def)

lemma safe_panic [safe_intros]: "safe E b0 Q panic_op b"
  by (simp add: safe_def panic_op_def)

lemma safe_bind:
  "safe E b1 R m b \<Longrightarrow> (\<And>x b'. later E b1 b' \<Longrightarrow> R x b' \<Longrightarrow> safe E b0 Q (f x) b') \<Longrightarrow> safe E b0 Q (bind_op m f) b"
  by (fastforce simp: safe_def bind_op_def)

lemma safe_seq [safe_intros]:
  "safe E b0 anything m b \<Longrightarrow> (\<And>x b'. later E b0 b' \<Longrightarrow> safe E b0 Q (f x) b') \<Longrightarrow> safe E b0 Q (bind_op m f) b"
  by (rule safe_bind [where ?b1.0 = b0 and R = anything]) simp_all

lemma safe_run [safe_intros]: "safe E b0 Q (f b) b \<Longrightarrow> safe E b0 Q (run_op f) b"
  by (simp add: safe_def run_op_def)

lemma safe_if [safe_intros]: "(c \<Longrightarrow> safe E b0 Q m b) \<Longrightarrow> (\<not> c \<Longrightarrow> safe E b0 Q m' b) \<Longrightarrow> safe E b0 Q (if c then m else m') b"
  by simp

lemma safe_let [safe_intros]: "safe E b0 Q (f x) b \<Longrightarrow> safe E b0 Q (Let x f) b"
  by simp

lemma safe_option [safe_intros]:
  "(v = None \<Longrightarrow> safe E b0 Q m b) \<Longrightarrow> (\<And>x. v = Some x \<Longrightarrow> safe E b0 Q (f x) b) \<Longrightarrow> safe E b0 Q (case v of None \<Rightarrow> m | Some x \<Rightarrow> f x) b"
  by (cases v) simp_all

lemma safe_prod [safe_intros]: "(\<And>x y. p = (x, y) \<Longrightarrow> safe E b0 Q (f x y) b) \<Longrightarrow> safe E b0 Q (case p of (x, y) \<Rightarrow> f x y) b"
  by (cases p) simp

lemma safe_when [safe_intros]: "(c \<Longrightarrow> safe E b0 anything m b) \<Longrightarrow> later E b0 b \<Longrightarrow> safe E b0 anything (when_op c m) b"
  by (auto simp: when_op_def intro: safe_ret)

lemma safe_modify: "later E b0 (f b) \<Longrightarrow> safe E b0 anything (modify_op f) b"
  by (simp add: safe_def modify_op_def)

text \<open>Steps of the node and of a context.\<close>

lemma later_node:
  assumes "later E b0 b" and "node_inv (en_ping E) (en_connecting E) n" and "steps (bs_node b) n"
  shows "later E b0 (b\<lparr>bs_node := n\<rparr>)"
  using assms by (auto simp: later_def bus_inv_def steps_def)

lemma later_view:
  assumes "later E b0 b" and "bs_node b' = bs_node b" and "length (bs_ctx b') = length (bs_ctx b)" and "bs_private b' = bs_private b"
  shows "later E b0 b'"
  using assms by (simp add: later_def bus_inv_def)

lemma safe_node_op:
  assumes "later E b0 b" and "node_inv (en_ping E) (en_connecting E) (f (bs_node b))" and "steps (bs_node b) (f (bs_node b))"
  shows "safe E b0 anything (node_op f) b"
  using later_node [OF assms] by (simp add: node_op_def safe_modify)

lemma safe_node_run:
  assumes "later E b0 b" and "node_inv (en_ping E) (en_connecting E) (fst (f (bs_node b)))" and "steps (bs_node b) (fst (f (bs_node b)))"
    and "Q (snd (f (bs_node b))) (b\<lparr>bs_node := fst (f (bs_node b))\<rparr>)"
  shows "safe E b0 Q (node_run f) b"
  using later_node [OF assms(1-3)] assms(4) by (cases "f (bs_node b)") (simp add: node_run_def safe_def)

lemma later_refs: "later E b0 b \<Longrightarrow> goes (en_ping E) (en_connecting E) (bs_node b) (bs_node b)"
  by (rule goes_refl) (drule laterD(2), simp add: node_inv_def)

lemma safe_node_goes:
  assumes "later E b0 b" and "goes (en_ping E) (en_connecting E) (bs_node b) (f (bs_node b))"
    and "nd_conns (f (bs_node b)) = nd_conns (bs_node b)" and "nd_eps (f (bs_node b)) = nd_eps (bs_node b)"
  shows "safe E b0 anything (node_op f) b"
  using safe_node_op [OF assms(1)] node_inv_same_stores [OF laterD(2) [OF assms(1)] assms(2-4)] by blast

lemma safe_ctx_op [safe_intros]: "later E b0 b \<Longrightarrow> safe E b0 anything (ctx_op c f) b"
  unfolding ctx_op_def by (rule safe_modify, erule later_view) simp_all

lemma safe_ctx_run [safe_intros]: "later E b0 b \<Longrightarrow> safe E b0 anything (ctx_run c f) b"
  by (auto simp: safe_def ctx_run_def split: prod.split intro: later_view)

lemma safe_ctx_out [safe_intros]: "later E b0 b \<Longrightarrow> safe E b0 anything (ctx_out c f) b"
  by (auto simp: safe_def ctx_out_def split: prod.split outcome.split intro: later_view)

lemma safe_call [safe_intros]: "later E b0 b \<Longrightarrow> safe E b0 anything call_op b"
  by (auto simp: safe_def call_op_def intro: later_view)

lemma safe_event [safe_intros]: "later E b0 b \<Longrightarrow> safe E b0 anything (event_op ev) b"
  unfolding event_op_def
  by (rule safe_node_goes) (simp_all add: goes_log_event later_refs)

lemma safe_sequence [safe_intros]: "later E b0 b \<Longrightarrow> safe E b0 anything (node_run AllocateMessageSequence) b"
proof -
  assume b: "later E b0 b"
  note n = node_inv_same_stores [OF laterD(2) [OF b] goes_sequence [OF later_refs [OF b]]]
  show ?thesis by (rule safe_node_run [OF b]) (use n in \<open>simp_all add: AllocateMessageSequence_def Let_def\<close>)
qed

lemma safe_conn_op:
  assumes "later E b0 b" and "\<And>x. cn_binding (f x) = cn_binding x" and "\<And>x. CheckFlag ConnectionFlag_Resetting (f x) = CheckFlag ConnectionFlag_Resetting x"
  shows "safe E b0 anything (conn_op c f) b"
  unfolding conn_op_def using node_inv_upd_conn [OF laterD(2) [OF assms(1)], of f c] assms by (auto intro: safe_node_op)

lemma safe_ep_op:
  assumes "later E b0 b" and "\<And>x. ep_id (f x) = ep_id x" and "\<And>x. attached (f x) = attached x"
    and "\<And>x. Endpoint_GetFlag EndpointFlag_Resetting (f x) = Endpoint_GetFlag EndpointFlag_Resetting x"
  shows "safe E b0 anything (ep_op e f) b"
  unfolding ep_op_def using node_inv_upd_ep [OF laterD(2) [OF assms(1)], of f e] assms by (auto intro: safe_node_op)

lemma safe_reset_conn [safe_intros]:
  assumes "later E b0 b" and "c < length (nd_conns (bs_node b0))"
  shows "safe E b0 anything (reset_conn E c) b"
proof -
  have c: "c < length (nd_conns (bs_node b))" using later_less(1) assms by blast
  obtain n' where "Connection_Reset (en_ping E) (en_connecting E) 4 c (bs_node b) = Some n'" "node_inv (en_ping E) (en_connecting E) n'" "steps (bs_node b) n'"
    using node_inv_Connection_Reset [OF laterD(2) [OF assms(1)] c, of 4] by auto
  then show ?thesis using later_node [OF assms(1)] by (simp add: safe_def reset_conn_def node_opt_def)
qed

lemma safe_fault [safe_intros]:
  assumes "later E b0 b"
  shows "safe E b0 anything (fault_op conn) b"
proof -
  have "safe E b0 anything (node_op (upd_conn c (\<lambda>cn. fst (Connection_AddStatisticFault cn)))) b" for c
    using safe_conn_op [OF assms, of "\<lambda>cn. fst (Connection_AddStatisticFault cn)" c]
    by (simp add: conn_op_def Connection_AddStatisticFault_def Let_def CheckFlag_def)
  then show ?thesis unfolding fault_op_def by (auto intro!: safe_intros assms)
qed

subsection \<open>Sending\<close>

lemma Push_frame [simp]:
  "cn_binding (fst (Push ch data x)) = cn_binding x" "CheckFlag f (fst (Push ch data x)) = CheckFlag f x"
  by (simp_all add: Push_def Let_def CheckFlag_def split: option.split)

lemma safe_push [safe_intros]:
  assumes "later E b0 b"
  shows "safe E b0 anything (push_op E c data) b"
proof -
  have node: "node_inv (en_ping E) (en_connecting E) (upd_conn c (\<lambda>_. fst (Push ch data (conn_of b' c))) (bs_node b'))"
    "steps (bs_node b') (upd_conn c (\<lambda>_. fst (Push ch data (conn_of b' c))) (bs_node b'))" if "later E b0 b'" for ch b'
    using node_inv_upd_conn [OF laterD(2) [OF that], of "\<lambda>_. fst (Push ch data (conn_of b' c))" c] by (simp_all add: conn_of_def)
  show ?thesis
    unfolding push_op_def
  proof (rule safe_bind [OF safe_call [OF assms]])
    fix t b' assume b': "later E b0 b'"
    define ch where "ch = (if bs_channel b' then Some (en_send E t) else None)"
    show "safe E b0 anything (\<lambda>b. let (cn, r) = Push (if bs_channel b then Some (en_send E t) else None) data (conn_of b c);
         b = b\<lparr>bs_node := upd_conn c (\<lambda>_. cn) (bs_node b)\<rparr>
       in Some (Returns (r, if r = EN_ATBUS_ERR_SUCCESS then b\<lparr>bs_sent := bs_sent b @ [(c, data)]\<rparr> else b))) b'"
      using later_node [OF b' node [OF b', of ch]]
      by (auto simp: safe_def Let_def ch_def [symmetric] split: prod.split intro: later_view)
  qed
qed

lemma safe_SendMessage [safe_intros]: "later E b0 b \<Longrightarrow> safe E b0 anything (SendMessage E conn om) b"
  unfolding SendMessage_def by (intro safe_intros) (auto split: outcome.split intro!: safe_intros)

lemma safe_SendHandshakeConfirm [safe_intros]: "later E b0 b \<Longrightarrow> safe E b0 anything (SendHandshakeConfirm E conn sq) b"
  unfolding SendHandshakeConfirm_def by (intro safe_intros) simp_all

lemma safe_SendPing [safe_intros]: "later E b0 b \<Longrightarrow> safe E b0 anything (SendPing E conn sq) b"
  unfolding SendPing_def by (intro safe_intros) simp_all

lemma safe_sign [safe_intros]: "later E b0 b \<Longrightarrow> safe E b0 anything (sign_op E f) b"
  unfolding sign_op_def by (intro safe_intros) simp_all

lemma safe_SendRegister [safe_intros]: "later E b0 b \<Longrightarrow> safe E b0 anything (SendRegister E t conn code sq) b"
  unfolding SendRegister_def register_key_def by (intro safe_intros) simp_all

subsection \<open>Connecting\<close>

lemma safe_create_connection:
  assumes "later E b0 b"
  shows "safe E b0 (\<lambda>conn b'. conn_ref b' conn) (create_connection E addr) b"
proof (cases "CreateConnection (en_lower E) addr (bs_node b)")
  case None
  with assms show ?thesis by (simp add: safe_def create_connection_def)
next
  case (Some x)
  then obtain n c where nc: "CreateConnection (en_lower E) addr (bs_node b) = Some (n, c)" by (cases x) simp
  note I = node_inv_CreateConnection [OF laterD(2) [OF assms] nc]
  have "below (length (nd_conns n)) (bs_private b io)" for io
    using assms I(3) by (auto simp: later_def bus_inv_def below_def less_Suc_eq split: option.splits)
  then show ?thesis using assms I nc by (simp add: safe_def create_connection_def later_def bus_inv_def)
qed

lemma safe_connecting_Put:
  assumes "later E b0 b" and "c < length (nd_conns (bs_node b0))"
  shows "safe E b0 anything (node_op (\<lambda>n. n\<lparr>nd_connectingList := lru_Put (en_connecting E) a (t n, c) (nd_connectingList n)\<rparr>)) b"
  using goes_connecting_Put [OF later_refs [OF assms(1)], of c] later_less(1) [OF assms] by (intro safe_node_goes assms(1)) simp_all

lemma safe_connecting_Delete:
  "later E b0 b \<Longrightarrow> safe E b0 anything (node_op (\<lambda>n. n\<lparr>nd_connectingList := lru_Delete (en_connecting E) a (nd_connectingList n)\<rparr>)) b"
  by (rule safe_node_goes) (simp_all add: goes_connecting_Delete later_refs)

lemma safe_private:
  assumes "later E b0 b" and "c < length (nd_conns (bs_node b0))"
  shows "safe E b0 anything (modify_op (\<lambda>b. b\<lparr>bs_private := (bs_private b)(io := Some c)\<rparr>)) b"
  using later_less(1) [OF assms] assms(1) by (intro safe_modify) (simp add: later_def bus_inv_def)

lemma reset_flag_other [simp]:
  "CheckFlag ConnectionFlag_Resetting (Connection_setFlag ConnectionFlag_ClientMode v x) = CheckFlag ConnectionFlag_Resetting x"
  "CheckFlag ConnectionFlag_Resetting (Connection_setFlag ConnectionFlag_RegFd v x) = CheckFlag ConnectionFlag_Resetting x"
  "CheckFlag ConnectionFlag_Resetting (Connection_setFlag ConnectionFlag_ListenFd v x) = CheckFlag ConnectionFlag_Resetting x"
  "CheckFlag ConnectionFlag_Resetting (Connection_setFlag ConnectionFlag_ServerMode v x) = CheckFlag ConnectionFlag_Resetting x"
  "CheckFlag ConnectionFlag_Resetting (Connection_setFlag ConnectionFlag_Temporary v x) = CheckFlag ConnectionFlag_Resetting x"
  "cn_binding (Connection_setFlag f v x) = cn_binding x"
  by (simp_all add: CheckFlag_def Connection_setFlag_def has_flag_put_other ConnectionFlag_Resetting_def ConnectionFlag_ClientMode_def
      ConnectionFlag_RegFd_def ConnectionFlag_ListenFd_def ConnectionFlag_ServerMode_def ConnectionFlag_Temporary_def)

lemma safe_conn_ops [safe_intros]:
  assumes "later E b0 b"
  shows "safe E b0 anything (conn_op c (\<lambda>cn. Connection_setFlag ConnectionFlag_ClientMode True
           (Connection_setFlag ConnectionFlag_RegFd True (setStatus ConnectionState_Connecting cn)))) b"
    "safe E b0 anything (conn_op c (\<lambda>cn. Connection_setFlag ConnectionFlag_ClientMode False (setStatus ConnectionState_Disconnected cn))) b"
    "safe E b0 anything (conn_op c (\<lambda>cn. cn\<lparr>cn_ioStreamConnection := io\<rparr>)) b"
    "safe E b0 anything (conn_op c (setStatus s)) b"
    "safe E b0 anything (conn_op c SetTemporary) b"
    "safe E b0 anything (conn_op c Connection_ClearStatisticFault) b"
proof -
  have "CheckFlag f (x\<lparr>cn_ioStreamConnection := io\<rparr>) = CheckFlag f x" "CheckFlag f (Connection_ClearStatisticFault x) = CheckFlag f x"
    "cn_binding (Connection_ClearStatisticFault x) = cn_binding x" for f x
    by (simp_all add: CheckFlag_def Connection_ClearStatisticFault_def)
  then show "safe E b0 anything (conn_op c (\<lambda>cn. cn\<lparr>cn_ioStreamConnection := io\<rparr>)) b" "safe E b0 anything (conn_op c Connection_ClearStatisticFault) b"
    by (auto intro: safe_conn_op [OF assms])
  have "CheckFlag ConnectionFlag_Resetting (SetTemporary x) = CheckFlag ConnectionFlag_Resetting x" "cn_binding (SetTemporary x) = cn_binding x" for x
    by (simp_all add: SetTemporary_def CheckFlag_def flag_or ConnectionFlag_Resetting_def ConnectionFlag_Temporary_def)
  then show "safe E b0 anything (conn_op c SetTemporary) b" by (intro safe_conn_op [OF assms])
qed (rule safe_conn_op [OF assms]; simp)+

lemma safe_OnNewConnection [safe_intros]:
  assumes "later E b0 b" and "c < length (nd_conns (bs_node b0))"
  shows "safe E b0 anything (Node_OnNewConnection E c) b"
  unfolding Node_OnNewConnection_def by (intro safe_intros assms) simp_all

lemma safe_Connection_Connect [safe_intros]:
  assumes "later E b0 b" and "c < length (nd_conns (bs_node b0))"
  shows "safe E b0 anything (Connection_Connect E c) b"
  unfolding Connection_Connect_def
  by (intro safe_intros safe_connecting_Put safe_connecting_Delete safe_private assms) simp_all

lemma safe_AddConnection [safe_intros]:
  assumes "later E b0 b" and "e < length (nd_eps (bs_node b0))" and "c < length (nd_conns (bs_node b0))"
  shows "safe E b0 anything (node_run (AddConnection e c forceData)) b"
  using node_inv_AddConnection [OF laterD(2) [OF assms(1)] later_less(2) [OF assms(1,2)] later_less(1) [OF assms(1,3)]]
  by (intro safe_node_run assms(1)) simp_all

text \<open>The part of an operation that works with a new connection starts from the state with it.\<close>

lemma safe_new_connection:
  assumes "later E b0 b" and "\<And>b'. later E b0 b' \<Longrightarrow> safe E b0 Q (f None) b'"
    and "\<And>c b'. later E b0 b' \<Longrightarrow> later E b' b' \<Longrightarrow> c < length (nd_conns (bs_node b')) \<Longrightarrow> length (nd_eps (bs_node b0)) \<le> length (nd_eps (bs_node b')) \<Longrightarrow> safe E b' Q (f (Some c)) b'"
  shows "safe E b0 Q (bind_op (create_connection E addr) f) b"
proof (rule safe_bind [OF safe_create_connection [OF assms(1)]])
  fix conn b' assume b': "later E b0 b'" and conn: "conn_ref b' conn"
  show "safe E b0 Q (f conn) b'"
  proof (cases conn)
    case (Some c)
    have "later E b' b'" by (rule later_refl [OF laterD(1) [OF b']])
    moreover have "length (nd_eps (bs_node b0)) \<le> length (nd_eps (bs_node b'))" using b' by (simp add: later_def)
    ultimately show ?thesis using Some conn assms(3) [OF b'] by (intro safe_rebase [OF b']) simp
  qed (use assms(2) [OF b'] in simp)
qed

lemma safe_Connect [safe_intros]: "later E b0 b \<Longrightarrow> safe E b0 anything (Connect E address) b"
  unfolding Connect_def by (intro safe_intros(4-) safe_new_connection) (auto intro!: safe_intros)

lemma safe_ConnectWithEndpoint [safe_intros]:
  assumes "later E b0 b" and "ep_ref b0 ep"
  shows "safe E b0 anything (ConnectWithEndpoint E address ep) b"
  unfolding ConnectWithEndpoint_def
  by (intro safe_intros(4-) safe_new_connection assms(1)) (use assms(2) in \<open>auto intro!: safe_intros simp: assms(1)\<close>)

lemma Listen_frame [simp]:
  "cn_binding (fst (Connection_Listen ch x)) = cn_binding x"
  "CheckFlag ConnectionFlag_Resetting (fst (Connection_Listen ch x)) = CheckFlag ConnectionFlag_Resetting x"
  by (simp_all add: Connection_Listen_def Let_def split: option.split)

lemma AddListenAddress_frame [simp]:
  "ep_id (AddListenAddress l a x) = ep_id x" "attached (AddListenAddress l a x) = attached x"
  "Endpoint_GetFlag EndpointFlag_Resetting (AddListenAddress l a x) = Endpoint_GetFlag EndpointFlag_Resetting x"
proof -
  have "attached (x\<lparr>ep_listenAddress := y\<rparr>) = attached x" "Endpoint_GetFlag f (x\<lparr>ep_listenAddress := y\<rparr>) = Endpoint_GetFlag f x" for x y f
    by (simp_all add: attached_def Endpoint_GetFlag_def)
  moreover have "Endpoint_GetFlag EndpointFlag_Resetting (Endpoint_setFlag EndpointFlag_HasListenPorc v x) = Endpoint_GetFlag EndpointFlag_Resetting x"
    "Endpoint_GetFlag EndpointFlag_Resetting (Endpoint_setFlag EndpointFlag_HasListenFd v x) = Endpoint_GetFlag EndpointFlag_Resetting x" for v x
    by (simp_all add: Endpoint_GetFlag_def Endpoint_setFlag_def has_flag_put_other EndpointFlag_Resetting_def EndpointFlag_HasListenPorc_def
        EndpointFlag_HasListenFd_def)
  ultimately show "ep_id (AddListenAddress l a x) = ep_id x" "attached (AddListenAddress l a x) = attached x"
    "Endpoint_GetFlag EndpointFlag_Resetting (AddListenAddress l a x) = Endpoint_GetFlag EndpointFlag_Resetting x"
    by (simp_all add: AddListenAddress_def Let_def split: option.split)
qed

lemma later_here: "later E b0 b \<Longrightarrow> later E b b"
  by (simp add: later_def)

text \<open>References a node holds itself.\<close>

lemma node_refs:
  assumes "later E b0 b"
  shows "ep_ref b (nd_self (bs_node b))" "ep_ref b (nd_upstream (bs_node b))" "ep_ref b (GetEndpoint i (bs_node b))"
    "conn_ref b conn \<Longrightarrow> ep_ref b (getConnectionBinding b conn)" "c < length (nd_conns (bs_node b)) \<Longrightarrow> ep_ref b (cn_binding (conn_of b c))"
proof -
  have wf: "route_wf (bs_node b)" and bi: "bind_inv (bs_node b)" using laterD(2) [OF assms] by (simp_all add: node_inv_def)
  note D = route_wfD [OF wf]
  have len: "length (ids (bs_node b)) = length (nd_eps (bs_node b))" by (simp add: ids_def)
  show "ep_ref b (nd_self (bs_node b))" "ep_ref b (nd_upstream (bs_node b))"
    using D(1) len by (auto simp: in_range_def ep_ref_def below_def split: option.splits)
  show "ep_ref b (GetEndpoint i (bs_node b))"
    using D(3,6) len by (auto simp: GetEndpoint_lookup [OF D(1)] lookup_def ep_ref_def below_def split: option.splits)
  show "ep_ref b (cn_binding (conn_of b c))" if "c < length (nd_conns (bs_node b))" for c
    using bind_inv_bound [OF bi that] by (auto simp: ep_ref_def below_def conn_of_def split: option.split)
  then show "ep_ref b (getConnectionBinding b conn)" if "conn_ref b conn"
    using that by (auto simp: getConnectionBinding_def split: option.split)
qed

lemma safe_Connection_Listen:
  assumes "later E b0 b"
  shows "safe E b0 anything (node_run (\<lambda>n. case Connection_Listen ch (nd_conns n ! c) of (cn, r) \<Rightarrow> (upd_conn c (\<lambda>_. cn) n, r))) b"
  using node_inv_upd_conn [OF laterD(2) [OF assms], of "\<lambda>_. fst (Connection_Listen ch (nd_conns (bs_node b) ! c))" c]
  by (intro safe_node_run assms) (simp_all add: split_beta)

lemma safe_Listen [safe_intros]:
  assumes "later E b0 b"
  shows "safe E b0 anything (Listen E address) b"
proof (rule safe_rebase [OF assms])
  have b: "later E b b" by (rule later_here [OF assms])
  show "safe E b anything (Listen E address) b"
    unfolding Listen_def ep_op_def [symmetric]
    by (intro safe_intros(4-) safe_new_connection b)
      (use node_refs(1) [OF b] in \<open>auto intro!: safe_intros safe_Connection_Listen safe_ep_op simp: b\<close>)
qed

subsection \<open>Messages to a bus id\<close>

lemma safe_get_peer_channel [safe_intros]:
  assumes "later E b0 b" and "chooses (en_ping E) (en_connecting E) fn"
  shows "safe E b0 anything (get_peer_channel fn options tid) b"
proof -
  obtain n' r ep conn peer where run: "GetPeerChannel fn options tid (bs_node b) = Some (n', r, ep, conn, peer)"
    and n': "node_inv (en_ping E) (en_connecting E) n'" "keeps (bs_node b) n'"
      "below (length (nd_eps (bs_node b))) ep" "below (length (nd_conns (bs_node b))) conn"
    by (rule node_inv_GetPeerChannel [OF laterD(2) [OF assms(1)] assms(2)])
  then show ?thesis using later_node [OF assms(1) n'(1) keeps_steps [OF n'(2)]] by (simp add: safe_def get_peer_channel_def)
qed

lemma safe_ensure_sequence [safe_intros]: "later E b0 b \<Longrightarrow> safe E b0 anything (ensure_sequence m head) b"
  unfolding ensure_sequence_def by (intro safe_intros) simp_all

lemma safe_forwardDataMessage [safe_intros]: "later E b0 b \<Longrightarrow> safe E b0 anything (forwardDataMessage E om f t) b"
  unfolding forwardDataMessage_def by (intro safe_intros chooses_data) simp_all

lemma GetTopologyRelation_total:
  assumes "topo_inv (nd_topology n)"
  shows "GetTopologyRelation tid n \<noteq> None"
proof (cases "tid = Node_GetId n \<or> nd_self n = None")
  case True
  then show ?thesis by (auto simp: GetTopologyRelation_def)
next
  case False
  then have "tid \<noteq> Node_GetId n" "nd_self n \<noteq> None" by simp_all
  with assms show ?thesis by (rule GetTopologyRelation_returns) simp
qed

lemma safe_retry_upstream [safe_intros]:
  assumes "later E b0 b"
  shows "safe E b0 anything (retry_upstream E om f res toEp) b"
proof -
  let ?up = "run_op (\<lambda>b. case nd_upstream (bs_node b) of
                None \<Rightarrow> ret_op (om, res)
              | Some u \<Rightarrow>
                  if (case toEp of None \<Rightarrow> False | Some e \<Rightarrow> ep_id (nd_eps (bs_node b) ! u) = ep_id (nd_eps (bs_node b) ! e))
                     \<or> f = ep_id (nd_eps (bs_node b) ! u)
                  then ret_op (om, res)
                  else bind_op (forwardDataMessage E om f (ep_id (nd_eps (bs_node b) ! u))) (\<lambda>(om, r, _). ret_op (om, r)))"
  have up: "safe E b0 anything ?up b" by (intro safe_intros assms) simp_all
  have "topo_inv (nd_topology (bs_node b))" using laterD(2) [OF assms] by (simp add: node_inv_def)
  then have rel: "GetTopologyRelation i (bs_node b) \<noteq> None" for i by (rule GetTopologyRelation_total)
  have "safe E b0 anything (\<lambda>b. case GetTopologyRelation (ep_id (nd_eps (bs_node b) ! e)) (bs_node b) of None \<Rightarrow> None
      | Some (relation, _) \<Rightarrow> (if relation \<noteq> OtherUpstreamPeer \<and> relation \<noteq> SameUpstreamPeer then ret_op (om, res) else ?up) b) b" for e
  proof (cases "GetTopologyRelation (ep_id (nd_eps (bs_node b) ! e)) (bs_node b)")
    case (Some x)
    with up safe_ret [OF assms, of anything "(om, res)"] show ?thesis by (cases x) (simp add: safe_def)
  qed (use rel in simp)
  with up show ?thesis
    unfolding retry_upstream_def Let_def by (intro safe_intros assms) simp_all
qed

locale dispatcher =
  fixes E :: "('p, 'c) env" and D :: "('p, 'c, int) op" and ready :: "('p, 'c) Bus \<Rightarrow> bool"
  assumes D_safe: "later E b0 b \<Longrightarrow> ready b0 \<Longrightarrow> safe E b0 anything D b"
begin

lemma safe_send_self: "later E b0 b \<Longrightarrow> ready b0 \<Longrightarrow> safe E b0 anything (send_self D m) b"
  unfolding send_self_def by (intro safe_intros D_safe safe_modify) (auto intro: later_view)

lemma safe_sendMessage:
  "later E b0 b \<Longrightarrow> ready b0 \<Longrightarrow> chooses (en_ping E) (en_connecting E) fn \<Longrightarrow> safe E b0 anything (Node_sendMessage E D tid m fn options) b"
  unfolding Node_sendMessage_def by (intro safe_intros safe_send_self) simp_all

lemma safe_SendDataMessage: "later E b0 b \<Longrightarrow> ready b0 \<Longrightarrow> safe E b0 anything (SendDataMessage E D tid m options) b"
  unfolding SendDataMessage_def by (intro safe_sendMessage chooses_data)

lemma safe_SendCtrlMessage: "later E b0 b \<Longrightarrow> ready b0 \<Longrightarrow> safe E b0 anything (SendCtrlMessage E D tid m options) b"
  unfolding SendCtrlMessage_def by (intro safe_sendMessage chooses_ctrl)

lemma safe_SendTransferResponse: "later E b0 b \<Longrightarrow> ready b0 \<Longrightarrow> safe E b0 anything (SendTransferResponse E D m code) b"
  unfolding SendTransferResponse_def by (intro safe_intros safe_SendCtrlMessage) simp_all

lemma safe_SendCustomCommandResponse:
  "later E b0 b \<Longrightarrow> ready b0 \<Longrightarrow> safe E b0 anything (SendCustomCommandResponse E D conn d t code sq from) b"
  unfolding SendCustomCommandResponse_def by (intro safe_intros safe_SendCtrlMessage) simp_all

lemma safe_onRecvDataTransferReq: "later E b0 b \<Longrightarrow> ready b0 \<Longrightarrow> safe E b0 anything (onRecvDataTransferReq E D conn m) b"
  unfolding onRecvDataTransferReq_def OnReceiveData_def by (intro safe_intros safe_SendTransferResponse) simp_all

lemma safe_onRecvCustomCommandReq: "later E b0 b \<Longrightarrow> ready b0 \<Longrightarrow> safe E b0 anything (onRecvCustomCommandReq E D conn m) b"
  unfolding onRecvCustomCommandReq_def Node_OnCustomCommandRequest_def by (intro safe_intros safe_SendCustomCommandResponse) simp_all

end

subsection \<open>Registration\<close>

lemma UpdateHashCode_frame [simp]:
  "ep_id (UpdateHashCode h x) = ep_id x" "attached (UpdateHashCode h x) = attached x" "Endpoint_GetFlag f (UpdateHashCode h x) = Endpoint_GetFlag f x"
  by (simp_all add: UpdateHashCode_def attached_def Endpoint_GetFlag_def)

lemma safe_UpdateHashCode [safe_intros]: "later E b0 b \<Longrightarrow> safe E b0 anything (ep_op e (UpdateHashCode h)) b"
  by (rule safe_ep_op) simp_all

lemma safe_AddEndpoint:
  assumes "later E b0 b" and "e < length (nd_eps (bs_node b0))"
  shows "safe E b0 anything (node_run (AddEndpoint (en_ping E) e)) b"
  using node_inv_AddEndpoint [OF laterD(2) [OF assms(1)] later_less(2) [OF assms]] by (intro safe_node_run assms(1)) simp_all

lemma safe_CreateEndpoint:
  assumes "later E b0 b"
  shows "safe E b0 (\<lambda>e b'. e < length (nd_eps (bs_node b'))) (node_run (CreateEndpoint i p h t)) b"
  using node_inv_CreateEndpoint [OF laterD(2) [OF assms]] by (intro safe_node_run assms) simp_all

lemma safe_EndpointGc:
  assumes "later E b0 b" and "e < length (nd_eps (bs_node b0))"
  shows "safe E b0 anything (node_op (AddEndpointGcList e)) b"
  using goes_EndpointGc [OF later_refs [OF assms(1)] later_less(2) [OF assms]] by (intro safe_node_goes assms(1)) simp_all

lemma safe_refuse_conn:
  assumes "later E b0 b" and "c < length (nd_conns (bs_node b0))" and "ep_ref b0 ep"
  shows "safe E b0 (\<lambda>(r, ep) b'. ep_ref b' ep) (refuse_conn E c r ep) b"
  unfolding refuse_conn_def by (intro safe_intros assms) (auto intro: laterD(4) assms)

lemma safe_MakeEndpoint:
  assumes "later E b0 b" and "c < length (nd_conns (bs_node b0))"
  shows "safe E b0 (\<lambda>(r, ep) b'. ep_ref b' ep) (acceptNodeRegistrationStepMakeEndpoint E c reg) b"
proof (rule safe_rebase [OF assms(1)])
  have b: "later E b b" and c: "c < length (nd_conns (bs_node b))" using later_here later_less(1) assms by blast+
  have bound: "e < length (nd_eps (bs_node b))" if "cn_binding (conn_of b c) = Some e" for e using node_refs(5) [OF b c] that by simp
  have known: "e < length (nd_eps (bs_node b))" if "GetEndpoint i (bs_node b) = Some e" for e i using node_refs(3) [OF b, of i] that by simp
  let ?Q = "\<lambda>(r, ep) b'. ep_ref b' ep"
  have create: "safe E b' ?Q
      (bind_op (ep_op e (UpdateHashCode (rd_hash_code reg))) (\<lambda>_.
         bind_op (node_run (AddEndpoint (en_ping E) e)) (\<lambda>r.
           if r \<noteq> EN_ATBUS_ERR_SUCCESS then refuse_conn E c r (Some e)
           else bind_op (node_run (AddConnection e c False)) (\<lambda>_. ret_op (r, Some e))))) b'"
    if b': "later E b b'" "e < length (nd_eps (bs_node b'))" for e b'
    by (intro safe_intros safe_AddEndpoint safe_refuse_conn later_here [OF b'(1)] later_less(1) [OF b'(1) c] b'(2)) (use b'(2) in \<open>auto dest: later_less(2)\<close>)
  have new: "safe E b ?Q
      (bind_op (node_run (CreateEndpoint (rd_bus_id reg) (rd_pid reg) (rd_hostname reg) t)) (\<lambda>e.
         bind_op (ep_op e (UpdateHashCode (rd_hash_code reg))) (\<lambda>_.
         bind_op (node_run (AddEndpoint (en_ping E) e)) (\<lambda>r.
           if r \<noteq> EN_ATBUS_ERR_SUCCESS then refuse_conn E c r (Some e)
           else bind_op (node_run (AddConnection e c False)) (\<lambda>_. ret_op (r, Some e)))))) b'" if "later E b b'" for t b'
    by (rule safe_bind [OF safe_CreateEndpoint [OF that]], rule safe_rebase, assumption, rule create)
  show "safe E b ?Q (acceptNodeRegistrationStepMakeEndpoint E c reg) b"
    unfolding acceptNodeRegistrationStepMakeEndpoint_def
    by (intro safe_intros new safe_refuse_conn b c) (auto dest: bound known later_less(2))
qed

lemma UpdateEndpoint_frame:
  defines "f \<equiv> \<lambda>l chs ep. foldl (\<lambda>ep ch. if ch = '''' then ep else AddListenAddress l ch ep) ep chs"
  shows "ep_id (f l chs x) = ep_id x" "attached (f l chs x) = attached x"
    "Endpoint_GetFlag EndpointFlag_Resetting (f l chs x) = Endpoint_GetFlag EndpointFlag_Resetting x"
  by (induction chs arbitrary: x) (simp_all add: f_def)

lemma Schemes_frame:
  "ep_id (ClearListenAddress (UpdateSupportSchemes s x)) = ep_id x" "attached (ClearListenAddress (UpdateSupportSchemes s x)) = attached x"
  "Endpoint_GetFlag EndpointFlag_Resetting (ClearListenAddress (UpdateSupportSchemes s x)) = Endpoint_GetFlag EndpointFlag_Resetting x"
  by (simp_all add: ClearListenAddress_def UpdateSupportSchemes_def Endpoint_setFlag_def Endpoint_GetFlag_def attached_def has_flag_put_other
      EndpointFlag_Resetting_def EndpointFlag_HasListenFd_def EndpointFlag_HasListenPorc_def)

lemma safe_UpdateEndpoint [safe_intros]: "later E b0 b \<Longrightarrow> safe E b0 anything (acceptNodeRegistrationStepUpdateEndpoint E e reg) b"
  unfolding acceptNodeRegistrationStepUpdateEndpoint_def Let_def
  by (rule safe_ep_op) (simp_all add: UpdateEndpoint_frame Schemes_frame)

lemma safe_connect_first [safe_intros]: "later E b0 b \<Longrightarrow> e < length (nd_eps (bs_node b0)) \<Longrightarrow> safe E b0 anything (connect_first E e r addrs) b"
  by (induction addrs arbitrary: r b) (auto intro!: safe_intros)

lemma safe_DataChannel [safe_intros]:
  assumes "later E b0 b" and "e < length (nd_eps (bs_node b0))"
  shows "safe E b0 anything (acceptNodeRegistrationStepDataChannel E e c reg) b"
proof -
  have "safe E b0 anything (case v of Panics \<Rightarrow> panic_op | Returns l \<Rightarrow>
            bind_op (connect_first E e EN_ATBUS_ERR_SUCCESS (map snd (sort_candidates l))) (\<lambda>(r, connected).
              if \<not> connected then bind_op (node_op (AddEndpointGcList e)) (\<lambda>_. ret_op r) else ret_op EN_ATBUS_ERR_SUCCESS)) b" for v
    by (cases v) (auto intro!: safe_intros safe_EndpointGc assms)
  then show ?thesis unfolding acceptNodeRegistrationStepDataChannel_def by (intro safe_intros assms) simp_all
qed

lemma safe_acceptNodeRegistration:
  assumes "later E b0 b" and "conn_ref b0 conn"
  shows "safe E b0 (\<lambda>(r, ep) b'. ep_ref b' ep) (acceptNodeRegistration E conn oreg) b"
proof (cases "conn = None \<or> oreg = None")
  case True
  moreover have "safe E b0 (\<lambda>(r, ep) b'. ep_ref b' ep) (ret_op (EN_ATBUS_ERR_PARAMS, None)) b" by (rule safe_ret [OF assms(1)]) simp
  ultimately show ?thesis by (auto simp: acceptNodeRegistration_def split: option.split)
next
  case False
  then obtain c reg where cr: "conn = Some c" "oreg = Some reg" by auto
  have c: "c < length (nd_conns (bs_node b0))" using assms(2) cr by simp
  show ?thesis unfolding acceptNodeRegistration_def cr option.case
  proof (rule safe_bind [OF safe_MakeEndpoint [OF assms(1) c]])
    fix x :: "ErrorType \<times> nat option" and b' assume b': "later E b0 b'" and "(\<lambda>(r, ep) b'. ep_ref b' ep) x b'"
    then obtain r ep where x: "x = (r, ep)" "ep_ref b' ep" by (cases x) simp
    show "safe E b0 (\<lambda>(r, ep) b'. ep_ref b' ep) (case x of (r, ep) \<Rightarrow> run_op (\<lambda>b.
          case ep of None \<Rightarrow> ret_op (r, None) | Some e \<Rightarrow>
            if r \<noteq> EN_ATBUS_ERR_SUCCESS \<or> CheckFlag ConnectionFlag_Temporary (conn_of b c) then ret_op (r, ep)
            else if Node_GetId (bs_node b) = 0 \<or> ep_id (nd_eps (bs_node b) ! e) = 0 then ret_op (r, ep)
            else bind_op (acceptNodeRegistrationStepUpdateEndpoint E e reg) (\<lambda>_. run_op (\<lambda>b.
              if 0 < GetDataConnectionCount (bs_node b) e False then ret_op (r, ep)
              else bind_op (acceptNodeRegistrationStepDataChannel E e c reg) (\<lambda>r. ret_op (r, ep)))))) b'"
      unfolding x(1) prod.case
      by (rule safe_rebase [OF b'], intro safe_intros later_here [OF b']) (use x(2) in \<open>auto dest: later_less(2) laterD(4)\<close>)
  qed
qed

lemma safe_server_handshake [safe_intros]: "later E b0 b \<Longrightarrow> safe E b0 anything (server_handshake E c h) b"
  unfolding server_handshake_def by (intro safe_intros) simp_all

lemma safe_client_handshake [safe_intros]: "later E b0 b \<Longrightarrow> safe E b0 anything (client_handshake E c h) b"
  unfolding client_handshake_def by (intro safe_intros) simp_all

lemma safe_register_request:
  assumes "later E b0 b" and "c < length (nd_conns (bs_node b0))"
  shows "safe E b0 (\<lambda>(r, ep) b'. ep_ref b' ep) (register_request E c reg) b"
  unfolding register_request_def by (intro safe_intros safe_acceptNodeRegistration assms) (use assms(2) in simp_all)

lemma safe_SetTopologyUpstream:
  assumes "later E b0 b"
  shows "safe E b0 anything (node_opt (SetTopologyUpstream i)) b"
proof -
  obtain n' where "SetTopologyUpstream i (bs_node b) = Some n'" "node_inv (en_ping E) (en_connecting E) n'" "steps (bs_node b) n'"
    using node_inv_SetTopologyUpstream [OF laterD(2) [OF assms], of i] by blast
  then show ?thesis using later_node [OF assms] by (simp add: safe_def node_opt_def)
qed

lemma safe_register_answer:
  assumes "later E b0 b" and "c < length (nd_conns (bs_node b0))"
  shows "safe E b0 (\<lambda>(r, ep) b'. ep_ref b' ep) (register_answer E c reg code) b"
  unfolding register_answer_def
  by (intro safe_intros safe_acceptNodeRegistration safe_SetTopologyUpstream assms) (use assms(2) in simp_all)

lemma safe_onRecvNodeRegisterReq [safe_intros]:
  assumes "later E b0 b" and "conn_ref b0 conn"
  shows "safe E b0 anything (onRecvNodeRegisterReq E conn m) b"
proof (cases conn)
  case (Some c)
  then have c: "c < length (nd_conns (bs_node b0))" using assms(2) by simp
  show ?thesis
    unfolding onRecvNodeRegisterReq_def Node_OnRegister_def Some
    by (intro safe_intros safe_mono [OF safe_register_request] assms(1)) (use c in simp_all)
qed (auto simp: onRecvNodeRegisterReq_def intro!: safe_intros assms(1))

text \<open>What follows the answer of a registration: the events, the collection of an endpoint that failed, the reset of the connection.\<close>

lemma safe_FatalShutdown: "later E b0 b \<Longrightarrow> safe E b0 anything (node_op (\<lambda>n. fst (FatalShutdown r n))) b"
  by (rule safe_node_goes) (simp_all add: goes_FatalShutdown later_refs)

lemma safe_actived:
  assumes "later E b0 b"
  shows "safe E b0 anything (node_op OnUpstreamRegisterDone) b" "safe E b0 anything (node_op OnActived) b"
proof -
  have v: "nd_conns (OnUpstreamRegisterDone n) = nd_conns n" "nd_eps (OnUpstreamRegisterDone n) = nd_eps n" "nd_conns (OnActived n) = nd_conns n"
    for n :: "('a, 'b) Node" by (simp_all add: OnUpstreamRegisterDone_def OnActived_def setState_def Let_def)
  show "safe E b0 anything (node_op OnUpstreamRegisterDone) b"
    by (rule safe_node_goes [OF assms]) (simp_all add: v goes_OnUpstreamRegisterDone later_refs [OF assms])
  show "safe E b0 anything (node_op OnActived) b"
    by (rule safe_node_goes [OF assms]) (simp_all add: v goes_OnActived later_refs [OF assms])
qed

lemma safe_onRecvNodeRegisterRsp [safe_intros]:
  assumes "later E b0 b" and "conn_ref b0 conn"
  shows "safe E b0 anything (onRecvNodeRegisterRsp E conn m) b"
proof (cases conn)
  case (Some c)
  then have c: "c < length (nd_conns (bs_node b0))" using assms(2) by simp
  have gc: "safe E b0 anything (node_op (AddEndpointGcList e)) b'"
    if "later E b0 b'" "ep_ref b' ep" "(case ep of None \<Rightarrow> cn_binding (conn_of b' c) | Some e \<Rightarrow> Some e) = Some e" for b' ep e
  proof -
    have "e < length (nd_eps (bs_node b'))" using that node_refs(5) [OF that(1) later_less(1) [OF that(1) c]] by (auto split: option.splits)
    then show ?thesis by (intro safe_rebase [OF that(1)] safe_EndpointGc later_here [OF that(1)])
  qed
  have answer: "safe E b0 anything (bind_op (register_answer E c reg code) F) b"
    if "\<And>r ep b'. later E b0 b' \<Longrightarrow> ep_ref b' ep \<Longrightarrow> safe E b0 anything (F (r, ep)) b'" for reg code and F :: "ErrorType \<times> nat option \<Rightarrow> ('a, 'b, ErrorType) op"
    by (rule safe_bind [OF safe_register_answer [OF assms(1) c]]) (use that in auto)
  show ?thesis
    unfolding onRecvNodeRegisterRsp_def Node_OnRegister_def Some
    by (auto intro!: answer safe_intros safe_FatalShutdown safe_actived assms(1) c intro: gc split: option.split)
qed (auto simp: onRecvNodeRegisterRsp_def intro!: safe_intros assms(1))

subsection \<open>Ping, pong and the other handlers\<close>

lemma safe_onRecvNodePing [safe_intros]: "later E b0 b \<Longrightarrow> safe E b0 anything (onRecvNodePing E conn m) b"
  unfolding onRecvNodePing_def OnPing_def by (intro safe_intros) simp_all

lemma safe_onRecvNodePong [safe_intros]: "later E b0 b \<Longrightarrow> safe E b0 anything (onRecvNodePong E conn m) b"
  unfolding onRecvNodePong_def OnPong_def
  by (intro safe_intros safe_ep_op)
    (simp_all add: SetStatisticPingDelay_def SetStatisticUnfinishedPing_def attached_def Endpoint_GetFlag_def)

lemma safe_onRecvHandshakeConfirm [safe_intros]:
  "later E b0 b \<Longrightarrow> conn_ref b0 conn \<Longrightarrow> safe E b0 anything (onRecvHandshakeConfirm E conn m) b"
  unfolding onRecvHandshakeConfirm_def by (intro safe_intros) simp_all

lemma safe_onRecvDataTransferRsp [safe_intros]: "later E b0 b \<Longrightarrow> safe E b0 anything (onRecvDataTransferRsp E conn m) b"
  unfolding onRecvDataTransferRsp_def OnReceiveForwardResponse_def by (intro safe_intros) simp_all

lemma safe_onRecvCustomCommandRsp [safe_intros]: "later E b0 b \<Longrightarrow> safe E b0 anything (onRecvCustomCommandRsp E conn m) b"
  unfolding onRecvCustomCommandRsp_def Node_OnCustomCommandResponse_def by (intro safe_intros) simp_all

lemma safe_receive_fault [safe_intros]:
  assumes "later E b0 b" and "conn_ref b0 conn"
  shows "safe E b0 anything (receive_fault E conn) b"
proof (cases conn)
  case (Some c)
  then have c: "c < length (nd_conns (bs_node b0))" using assms(2) by simp
  have ep: "safe E b0 anything (node_run (addEndpointFault (cn_binding (conn_of b c)))) b"
    using node_inv_addEndpointFault [OF laterD(2) [OF assms(1)]] node_refs(5) [OF assms(1) later_less(1) [OF assms(1) c]]
    by (intro safe_node_run assms(1)) (simp_all add: ep_ref_def)
  have cn: "safe E b0 anything (\<lambda>b. case addConnectionFault (en_ping E) (en_connecting E) 4 c (bs_node b) of
            None \<Rightarrow> None
          | Some Panics \<Rightarrow> Some Panics
          | Some (Returns (n, _)) \<Rightarrow> Some (Returns ((), b\<lparr>bs_node := n\<rparr>))) b'" if "later E b0 b'" for b'
    using node_inv_addConnectionFault [OF laterD(2) [OF that] later_less(1) [OF that c], of 4] later_node [OF that]
    by (auto simp: safe_def)
  show ?thesis unfolding receive_fault_def Some by (auto intro!: safe_intros ep cn)
qed (simp add: receive_fault_def safe_panic)

context dispatcher
begin

lemma safe_DispatchMessage:
  assumes "later E b0 b" and "ready b0" and "conn_ref b0 conn"
  shows "safe E b0 anything (DispatchMessage E D conn m) b"
proof -
  have "safe E b0 anything (f conn m) b'" if "handler_of E D t = Some f" "later E b0 b'" for f t b'
    using that assms(2,3) safe_onRecvDataTransferReq safe_onRecvCustomCommandReq by (cases t) (auto intro!: safe_intros)
  then show ?thesis
    unfolding DispatchMessage_def by (intro safe_intros safe_modify assms) (auto intro: later_view [OF assms(1)])
qed

lemma safe_onReceiveMessage:
  assumes "later E b0 b" and "ready b0" and "conn_ref b0 conn"
  shows "safe E b0 anything (onReceiveMessage E D conn m status code) b"
  unfolding onReceiveMessage_def
  by (intro safe_intros safe_DispatchMessage safe_ep_op assms) (simp_all add: Endpoint_ClearStatisticFault_def attached_def Endpoint_GetFlag_def)

lemma safe_dispatch_command: "later E b0 b \<Longrightarrow> ready b0 \<Longrightarrow> safe E b0 anything (dispatch_command E D) b"
  unfolding dispatch_command_def by (intro safe_intros safe_modify safe_onReceiveMessage) (auto intro: later_view)

end

lemma safe_dispatch_data: "later E b0 b \<Longrightarrow> safe E b0 anything dispatch_data b"
proof -
  assume b: "later E b0 b"
  have body: "safe E b0 anything (case msg_body m of
         Some (BodyDataTransformReq fwdData) \<Rightarrow>
           bind_op (OnReceiveData self None m (fd_content fwdData)) (\<lambda>_.
             if requires_response fwdData then
               let (m, head) = MutableHead m;
                   m = m\<lparr>msg_head := Some (head\<lparr>mh_result_code := 0\<rparr>), msg_body := Some (BodyDataTransformRsp fwdData)\<rparr>
               in bind_op (OnReceiveForwardResponse self None m) (\<lambda>_. ret_op 1)
             else ret_op 1)
       | _ \<Rightarrow> ret_op 0) b'" if "later E b0 b'" for b' m self
    unfolding OnReceiveData_def OnReceiveForwardResponse_def
    using that by (auto intro!: safe_intros split: option.split message_body.split)
  show ?thesis unfolding dispatch_data_def by (intro safe_intros safe_modify body b) (auto intro: later_view [OF b])
qed

lemma safe_dispatch_loop:
  assumes "\<And>b. later E b0 b \<Longrightarrow> safe E b0 anything one b" and "later E b0 b"
  shows "safe E b0 anything (dispatch_loop pending one k r) b"
  using assms(2) by (induction k arbitrary: r b) (auto intro!: safe_intros assms(1))

text \<open>While the node handles its own messages a further dispatch returns at once.\<close>

interpretation inner: dispatcher E "dispatchAllSelfMessages E (Suc d)" "\<lambda>b. receiving (bs_node b)" for E d
proof
  fix b0 b assume "later E b0 b" and "receiving (bs_node b0)"
  then show "safe E b0 anything (dispatchAllSelfMessages E (Suc d)) b"
    by (auto simp: later_def receiving_def safe_def run_op_def ret_op_def)
qed

text \<open>The state while the node handles its own messages, and the state after it.\<close>

lemma node_inv_flags:
  assumes "node_inv P C n"
  shows "node_inv P C (n\<lparr>nd_flags := w\<rparr>)"
proof -
  let ?n = "n\<lparr>nd_flags := w\<rparr>"
  have "ids ?n = ids n" by (simp add: ids_def)
  then have "route_wf ?n" using assms route_wf_cong [of ?n n] by (simp add: node_inv_def)
  moreover have "refs_ok P C ?n" using assms by (auto simp: node_inv_def intro: refs_ok_cong)
  ultimately show ?thesis using assms by (simp add: node_inv_def bind_inv_def quiet_def)
qed

lemma receiving_set: "receiving (n\<lparr>nd_flags := nd_flags n OR NodeFlag_RecvSelfMsg\<rparr>)" "\<not> receiving (n\<lparr>nd_flags := nd_flags n AND NOT NodeFlag_RecvSelfMsg\<rparr>)"
  using has_flag_put_same [of NodeFlag_RecvSelfMsg True "nd_flags n"] has_flag_put_same [of NodeFlag_RecvSelfMsg False "nd_flags n"]
  by (simp_all add: receiving_def Node_CheckFlag_def put_flag_def NodeFlag_RecvSelfMsg_def)

lemma safe_set_receiving:
  assumes "later E b0 b"
  defines "b1 \<equiv> b\<lparr>bs_node := (bs_node b)\<lparr>nd_flags := nd_flags (bs_node b) OR NodeFlag_RecvSelfMsg\<rparr>\<rparr>"
  shows "safe E b1 anything (node_op (\<lambda>n. n\<lparr>nd_flags := nd_flags n OR NodeFlag_RecvSelfMsg\<rparr>)) b" "receiving (bs_node b1)"
    "length (nd_conns (bs_node b)) = length (nd_conns (bs_node b1))" "length (nd_eps (bs_node b)) = length (nd_eps (bs_node b1))"
proof -
  show "receiving (bs_node b1)" by (simp add: b1_def receiving_set)
  have "bus_inv E b1" using laterD(1) [OF assms(1)] by (simp add: bus_inv_def b1_def node_inv_flags)
  then show "safe E b1 anything (node_op (\<lambda>n. n\<lparr>nd_flags := nd_flags n OR NodeFlag_RecvSelfMsg\<rparr>)) b"
    by (simp add: node_op_def modify_op_def safe_def b1_def [symmetric] later_refl)
qed (simp_all add: b1_def)

lemma safe_clear_receiving:
  assumes "later E b0 b" and "\<not> receiving (bs_node b)" and "later E b1 b2"
    and "length (nd_conns (bs_node b)) = length (nd_conns (bs_node b1))" and "length (nd_eps (bs_node b)) = length (nd_eps (bs_node b1))"
  shows "safe E b0 anything (node_op (\<lambda>n. n\<lparr>nd_flags := nd_flags n AND NOT NodeFlag_RecvSelfMsg\<rparr>)) b2"
  using assms receiving_set(2) [of "bs_node b2"]
  by (simp add: node_op_def modify_op_def safe_def later_def bus_inv_def node_inv_flags)

lemma safe_dispatchAllSelfMessages:
  assumes "later E b0 b"
  shows "safe E b0 anything (dispatchAllSelfMessages E (Suc (Suc d))) b"
proof (cases "Node_CheckFlag NodeFlag_RecvSelfMsg (bs_node b) \<or> Node_CheckFlag NodeFlag_InCallback (bs_node b)")
  case True
  with assms show ?thesis by (auto simp: safe_def run_op_def ret_op_def)
next
  case False
  then have idle: "\<not> receiving (bs_node b)" by (simp add: receiving_def)
  define b1 where "b1 = b\<lparr>bs_node := (bs_node b)\<lparr>nd_flags := nd_flags (bs_node b) OR NodeFlag_RecvSelfMsg\<rparr>\<rparr>"
  note S = safe_set_receiving [OF assms, folded b1_def]
  have one: "safe E b1 anything dispatch_data b'" "safe E b1 anything (dispatch_command E (dispatchAllSelfMessages E (Suc d))) b'" if "later E b1 b'" for b'
    using that safe_dispatch_data inner.safe_dispatch_command S(2) by blast+
  note loops = safe_dispatch_loop [OF one(1)] safe_dispatch_loop [OF one(2)]
  show ?thesis
    unfolding dispatchAllSelfMessages.simps(2) [of E "Suc d"]
    using False
    by (intro safe_run safe_if safe_let safe_prod safe_seq [OF safe_clear_receiving [OF assms idle _ S(3,4)]]
        safe_bind [OF S(1)] safe_bind [OF loops(1)] safe_bind [OF loops(2)] safe_ret) simp_all
qed

interpretation outer: dispatcher E "dispatchAllSelfMessages E (Suc (Suc d))" "\<lambda>_. True" for E d
  by unfold_locales (rule safe_dispatchAllSelfMessages)

end
