(* ===== verification/Node_Run.thy ===== *)
theory Node_Run
  imports Message_Handler
begin

unbundle bit_operations_syntax

section \<open>The life of a node (impl/atbus\_node.go)\<close>

text \<open>
  What the application and the channel call: setting a node up, starting it, sending data and commands, the periodic work of \<open>Proc\<close>
  and \<open>Poll\<close>, taking it down, and the events of the stream channel. The loops over the timer lists are partial functions: an
  execution that did not end would have no value. The zero of Go's time is the number 0, and topology data are held by value.
\<close>

text \<open>What the operations rely on in a timer list as a queue. A map holds finitely many entries at any time.\<close>

definition queue_laws :: "('m, 'k, 'v) LRUMap \<Rightarrow> ('m, 'k, 'v) LRUQueue \<Rightarrow> bool" where
  "queue_laws L Q \<longleftrightarrow>
     (\<forall>k. lru_Get L k (lru_New Q) = None)
   \<and> (\<forall>m k. lru_Front Q m = None \<longrightarrow> lru_Get L k m = None \<and> lru_Get L k (lru_PopFront Q m) = None)
   \<and> (\<forall>m k v. lru_Front Q m = Some (k, v) \<longrightarrow> lru_Get L k m = Some v)
   \<and> (\<forall>m k v k'. lru_Front Q m = Some (k, v) \<longrightarrow> lru_Get L k' (lru_PopFront Q m) = (if k' = k then None else lru_Get L k' m))
   \<and> (\<forall>m k v k'. lru_Front Q m = Some (k, v) \<longrightarrow> k' \<noteq> k \<longrightarrow> lru_Front Q (lru_Delete L k' m) = Some (k, v))
   \<and> (\<forall>m. finite {k. lru_Get L k m \<noteq> None})"

definition dispatchSelf :: "('p, 'c) env \<Rightarrow> ('p, 'c, int) op" where
  "dispatchSelf E = dispatchAllSelfMessages E 2"

text \<open>A statement block under a flag guard, with the answer it gives where the guard reports that it is open already.\<close>

definition guarded :: "16 word \<Rightarrow> 'a \<Rightarrow> ('p, 'c, 'a) op \<Rightarrow> ('p, 'c, 'a) op" where
  "guarded flag reentered m = run_op (\<lambda>b.
     let (fg, flags, opened) = openFlag new_guard flag (nd_flags (bs_node b)) in
     if opened then ret_op reentered
     else
       bind_op (node_op (\<lambda>n. n\<lparr>nd_flags := flags\<rparr>)) (\<lambda>_.
       bind_op m (\<lambda>x.
       bind_op (node_op (\<lambda>n. n\<lparr>nd_flags := snd (closeFlag fg (nd_flags n))\<rparr>)) (\<lambda>_. ret_op x))))"

subsection \<open>Sending\<close>

definition sequence_of :: "NodeSendDataOptions option \<Rightarrow> ('p, 'c, uint64 \<times> NodeSendDataOptions option) op" where
  "sequence_of options =
     (if GetSequence options = 0
      then bind_op (node_run AllocateMessageSequence) (\<lambda>sq. ret_op (sq, map_option (SetSequence sq) options))
      else ret_op (GetSequence options, options))"

definition SendDataWithOptions ::
  "('p, 'c) env \<Rightarrow> BusIdType \<Rightarrow> int \<Rightarrow> bytes \<Rightarrow> NodeSendDataOptions option \<Rightarrow> ('p, 'c, ErrorType \<times> NodeSendDataOptions option) op" where
  "SendDataWithOptions E tid t data options = run_op (\<lambda>b.
     if nd_state (bs_node b) = NodeState_Created then ret_op (EN_ATBUS_ERR_NOT_INITED, options)
     else if MessageSize (conf_of b) < word_of_nat (length data) then ret_op (EN_ATBUS_ERR_INVALID_SIZE, options)
     else
       let selfId = Node_GetId (bs_node b);
           flags = (if SendDataOptions_GetFlag NodeSendDataOptionFlag_RequiredResponse options then FORWARD_DATA_FLAG_REQUIRE_RSP else 0);
           head = zero_message_head\<lparr>mh_version := ProtocolVersion (conf_of b), mh_type := t, mh_source_bus_id := selfId\<rparr>
       in bind_op (sequence_of options) (\<lambda>(sq, options).
          let m = NewMessage\<lparr>msg_head := Some (head\<lparr>mh_sequence := sq\<rparr>), msg_body := Some (BodyDataTransformReq
                    (AppendRouter selfId \<lparr>fd_from = selfId, fd_to = tid, fd_router = [], fd_content = data, fd_flags = flags\<rparr>))\<rparr>
          in bind_op (SendDataMessage E (dispatchSelf E) tid m options) (\<lambda>(r, _, _). ret_op (r, options))))"

definition SendData :: "('p, 'c) env \<Rightarrow> BusIdType \<Rightarrow> int \<Rightarrow> bytes \<Rightarrow> ('p, 'c, ErrorType) op" where
  "SendData E tid t data = bind_op (SendDataWithOptions E tid t data (Some CreateNodeSendDataOptions)) (\<lambda>(r, _). ret_op r)"

definition SendCustomCommandWithOptions ::
  "('p, 'c) env \<Rightarrow> BusIdType \<Rightarrow> bytes list \<Rightarrow> NodeSendDataOptions option \<Rightarrow> ('p, 'c, ErrorType \<times> NodeSendDataOptions option) op" where
  "SendCustomCommandWithOptions E tid args options = run_op (\<lambda>b.
     if nd_state (bs_node b) = NodeState_Created then ret_op (EN_ATBUS_ERR_NOT_INITED, options)
     else if MessageSize (conf_of b) < sum_list (map (\<lambda>a. word_of_nat (length a)) args) then ret_op (EN_ATBUS_ERR_INVALID_SIZE, options)
     else
       let selfId = Node_GetId (bs_node b);
           head = zero_message_head\<lparr>mh_version := ProtocolVersion (conf_of b), mh_source_bus_id := selfId\<rparr>;
           body = \<lparr>cc_from = selfId, cc_commands = args, cc_access_key = None\<rparr>
       in bind_op (sequence_of options) (\<lambda>(sq, options).
          bind_op (sign_op E (\<lambda>now nonce1 nonce2. GenerateAccessDataForCustomCommand (en_sha256 E) (en_hmac E) now (Some zero_access_data)
                     selfId nonce1 nonce2 (AccessTokens (conf_of b)) body)) (\<lambda>ad.
            let m = NewMessage\<lparr>msg_head := Some (head\<lparr>mh_sequence := sq\<rparr>),
                      msg_body := Some (BodyCustomCommandReq (body\<lparr>cc_access_key := ad\<rparr>))\<rparr>
            in bind_op (SendDataMessage E (dispatchSelf E) tid m options) (\<lambda>(r, _, _). ret_op (r, options)))))"

definition SendCustomCommand :: "('p, 'c) env \<Rightarrow> BusIdType \<Rightarrow> bytes list \<Rightarrow> ('p, 'c, ErrorType) op" where
  "SendCustomCommand E tid args = bind_op (SendCustomCommandWithOptions E tid args (Some CreateNodeSendDataOptions)) (\<lambda>(r, _). ret_op r)"

subsection \<open>Events of the channel\<close>

definition onIoStreamAccepted :: "('p, 'c) env \<Rightarrow> nat \<Rightarrow> ('p, 'c, unit) op" where
  "onIoStreamAccepted E io = run_op (\<lambda>b.
     if bs_private b io \<noteq> None then ret_op ()
     else bind_op (create_connection E (en_ioAddress E io)) (\<lambda>conn.
       case conn of None \<Rightarrow> ret_op ()
       | Some c \<Rightarrow>
           bind_op (conn_op c (\<lambda>cn. (setStatus ConnectionState_Handshaking (Connection_setFlag ConnectionFlag_ServerMode True
                      (Connection_setFlag ConnectionFlag_RegFd True cn)))\<lparr>cn_ioStreamConnection := Some io\<rparr>)) (\<lambda>_.
           bind_op (modify_op (\<lambda>b. b\<lparr>bs_private := (bs_private b)(io := Some c)\<rparr>)) (\<lambda>_.
           bind_op (Node_OnNewConnection E c) (\<lambda>_. ret_op ())))))"

definition pulled :: "bytes \<Rightarrow> Connection \<Rightarrow> Connection" where
  "pulled payload cn =
     (let s = cn_statistic cn in
      cn\<lparr>cn_statistic := s\<lparr>PullStartTimes := PullStartTimes s + 1, PullStartSize := PullStartSize s + word_of_nat (length payload)\<rparr>\<rparr>)"

definition onIoStreamReceived :: "('p, 'c) env \<Rightarrow> nat \<Rightarrow> int \<Rightarrow> bytes \<Rightarrow> ('p, 'c, unit) op" where
  "onIoStreamReceived E io status payload = run_op (\<lambda>b.
     case bs_private b io of None \<Rightarrow> ret_op ()
     | Some c \<Rightarrow>
         if payload = [] then ret_op ()
         else bind_op (conn_op c (pulled payload)) (\<lambda>_. run_op (\<lambda>b.
           case UnpackMessage (en_crypto E) (en_compression E) (en_proto E) (Some NewMessage) payload
                  (int_of_uint64 (MessageSize (conf_of b))) (ctx_of b c) of
             Panics \<Rightarrow> panic_op
           | Returns (om, errCode) \<Rightarrow> onReceiveMessage E (dispatchSelf E) (Some c) (the om) status errCode)))"

definition onIoStreamDisconnected :: "('p, 'c) env \<Rightarrow> nat \<Rightarrow> ('p, 'c, unit) op" where
  "onIoStreamDisconnected E io = run_op (\<lambda>b.
     case bs_private b io of None \<Rightarrow> ret_op ()
     | Some c \<Rightarrow>
         bind_op (conn_op c (\<lambda>cn. setStatus ConnectionState_Disconnected (cn\<lparr>cn_ioStreamConnection := None\<rparr>))) (\<lambda>_. reset_conn E c))"

definition written :: "int \<Rightarrow> uint64 \<Rightarrow> Connection \<Rightarrow> Connection" where
  "written status payloadSize cn =
     (let s = cn_statistic cn in
      cn\<lparr>cn_statistic :=
        (if status \<noteq> 0 then s\<lparr>PushFailedTimes := PushFailedTimes s + 1, PushFailedSize := PushFailedSize s + payloadSize\<rparr>
         else s\<lparr>PushSuccessTimes := PushSuccessTimes s + 1, PushSuccessSize := PushSuccessSize s + payloadSize\<rparr>)\<rparr>)"

definition onIoStreamWritten :: "nat \<Rightarrow> int \<Rightarrow> bytes \<Rightarrow> ('p, 'c, unit) op" where
  "onIoStreamWritten io status payload = run_op (\<lambda>b.
     case bs_private b io of None \<Rightarrow> ret_op ()
     | Some c \<Rightarrow> conn_op c (written status (word_of_nat (length payload))))"

subsection \<open>Periodic work\<close>

definition pop_connecting :: "('p, 'c) env \<Rightarrow> ('p, 'c) Bus \<Rightarrow> ('p, 'c) Bus" where
  "pop_connecting E b = b\<lparr>bs_node := (bs_node b)\<lparr>nd_connectingList := lru_PopFront (en_connectingQueue E) (nd_connectingList (bs_node b))\<rparr>\<rparr>"

definition front_connecting :: "('p, 'c) env \<Rightarrow> ('p, 'c) Bus \<Rightarrow> (string \<times> int \<times> nat) option" where
  "front_connecting E b = lru_Front (en_connectingQueue E) (nd_connectingList (bs_node b))"

text \<open>What a round does with a connection that has timed out and was reset: it may have left the list already.\<close>

definition timed_out :: "('p, 'c) env \<Rightarrow> string \<Rightarrow> nat \<Rightarrow> ('p, 'c) Bus \<Rightarrow> ('p, 'c) Bus" where
  "timed_out E addr c b =
     (case front_connecting E b of
        Some (addr', _, c') \<Rightarrow>
          if addr' = addr \<and> c' = c
          then pop_connecting E (b\<lparr>bs_node := log_event (OnInvalidConnection c EN_ATBUS_ERR_NODE_TIMEOUT) (bs_node b)\<rparr>)
          else b
      | None \<Rightarrow> b)"

partial_function (option) processConnectingTimeout :: "('p, 'c) env \<Rightarrow> int \<Rightarrow> ('p, 'c, unit) op" where
  "processConnectingTimeout E now b =
     (case front_connecting E b of
        None \<Rightarrow> Some (Returns ((), b))
      | Some (addr, timeout, c) \<Rightarrow>
          if IsConnected (conn_of b c)
          then processConnectingTimeout E now (pop_connecting E (b\<lparr>bs_node := removeConnectionTimer (en_connecting E) c (bs_node b)\<rparr>))
          else if \<not> timeout < now then Some (Returns ((), b))
          else (case reset_conn E c b of
              None \<Rightarrow> None
            | Some Panics \<Rightarrow> Some Panics
            | Some (Returns (_, b)) \<Rightarrow> processConnectingTimeout E now (timed_out E addr c b)))"

definition pingEndpoint :: "('p, 'c) env \<Rightarrow> nat \<Rightarrow> ('p, 'c, ErrorType) op" where
  "pingEndpoint E e = run_op (\<lambda>b.
     case nd_self (bs_node b) of None \<Rightarrow> ret_op EN_ATBUS_ERR_NOT_INITED
     | Some self \<Rightarrow>
         (case GetCtrlConnection (bs_node b) self e of None \<Rightarrow> ret_op EN_ATBUS_ERR_ATNODE_NO_CONNECTION
          | Some c \<Rightarrow>
              bind_op (node_run AllocateMessageSequence) (\<lambda>sq.
              bind_op (SendPing E (Some c) sq) (\<lambda>ret.
              bind_op (event_op (OnEndpointPing (Some e) None)) (\<lambda>_.
              bind_op (node_op (AddPingTimer (en_ping E) e)) (\<lambda>_. ret_op ret))))))"

definition processUpstreamOperations :: "('p, 'c) env \<Rightarrow> int \<Rightarrow> ('p, 'c, unit) op" where
  "processUpstreamOperations E now = run_op (\<lambda>b.
     let n = bs_node b; conf = conf_of b in
     if Node_GetId n = 0 \<or> UpstreamAddress conf = '''' then ret_op ()
     else if nd_upstreamOpTimepoint n = 0 \<or> \<not> nd_upstreamOpTimepoint n < now then ret_op ()
     else
       case (case (nd_upstream n, nd_self n) of (Some u, Some self) \<Rightarrow> GetCtrlConnection n self u | _ \<Rightarrow> None) of
         None \<Rightarrow>
           bind_op (Connect E (UpstreamAddress conf)) (\<lambda>res.
             if res \<noteq> EN_ATBUS_ERR_SUCCESS then node_op (\<lambda>n. n\<lparr>nd_upstreamOpTimepoint := now + RetryInterval (nd_configure n)\<rparr>)
             else node_op (\<lambda>n. setState NodeState_ConnectingUpstream
                    (n\<lparr>nd_upstreamOpTimepoint := now + FirstIdleTimeout (nd_configure n)\<rparr>)))
       | Some _ \<Rightarrow>
           (case nd_upstream n of None \<Rightarrow> ret_op ()
            | Some u \<Rightarrow>
                if \<not> IsAvailable n u
                then when_op (es_CreatedTime (ep_stat (nd_eps n ! u)) + FirstIdleTimeout conf < now) (node_op (AddEndpointGcList u))
                else bind_op (pingEndpoint E u) (\<lambda>_. ret_op ())))"

partial_function (option) processPingTimers :: "('p, 'c) env \<Rightarrow> int \<Rightarrow> ('p, 'c, unit) op" where
  "processPingTimers E now b =
     (case lru_Front (en_pingQueue E) (nd_pingList (bs_node b)) of
        None \<Rightarrow> Some (Returns ((), b))
      | Some (_, timeout, e) \<Rightarrow>
          if \<not> timeout < now then Some (Returns ((), b))
          else (case pingEndpoint E e (b\<lparr>bs_node := (bs_node b)\<lparr>nd_pingList := lru_PopFront (en_pingQueue E) (nd_pingList (bs_node b))\<rparr>\<rparr>) of
            None \<Rightarrow> None
          | Some Panics \<Rightarrow> Some Panics
          | Some (Returns (_, b)) \<Rightarrow> processPingTimers E now b))"

text \<open>Endpoints that wait to be collected are removed from the routes when they are not available any more.\<close>

definition gc_endpoint :: "nat \<Rightarrow> ('p, 'c) Node \<Rightarrow> ('p, 'c) Node" where
  "gc_endpoint e n = (if IsAvailable n e then n else fst (RemoveEndpoint e n))"

definition gc_endpoints :: "('p, 'c, unit) op" where
  "gc_endpoints = run_op (\<lambda>b.
     let checked = nd_pendingEndpointGc (bs_node b) in
     bind_op (node_op (\<lambda>n. n\<lparr>nd_pendingEndpointGc := []\<rparr>)) (\<lambda>_.
     bind_op (node_op (fold gc_endpoint checked)) (\<lambda>_.
       node_op (\<lambda>n. n\<lparr>nd_pendingEndpointGc := []\<rparr>))))"

definition executeGC :: "('p, 'c, unit) op" where
  "executeGC = run_op (\<lambda>b.
     bind_op (if Node_CheckFlag NodeFlag_InGcEndpoints (bs_node b) then ret_op ()
              else guarded NodeFlag_InGcEndpoints () gc_endpoints) (\<lambda>_.
       node_op (\<lambda>n. if Node_CheckFlag NodeFlag_InGcConnections n then n
                    else n\<lparr>nd_flags := fst (snd (openFlag new_guard NodeFlag_InGcConnections (nd_flags n))), nd_pendingConnectionGc := []\<rparr>)))"

subsection \<open>Taking a node down\<close>

partial_function (option) drain_connecting :: "('p, 'c) env \<Rightarrow> ('p, 'c, unit) op" where
  "drain_connecting E b =
     (case front_connecting E b of
        None \<Rightarrow> Some (Returns ((), b))
      | Some (_, _, c) \<Rightarrow>
          (case reset_conn E c (pop_connecting E b) of
             None \<Rightarrow> None
           | Some Panics \<Rightarrow> Some Panics
           | Some (Returns (_, b)) \<Rightarrow> drain_connecting E b))"

partial_function (option) drain_ping :: "('p, nat, int \<times> nat) LRUQueue \<Rightarrow> 'p \<Rightarrow> 'p option" where
  "drain_ping Q m = (case lru_Front Q m of None \<Rightarrow> Some m | Some _ \<Rightarrow> drain_ping Q (lru_PopFront Q m))"

definition clear_ping :: "('p, 'c) env \<Rightarrow> ('p, 'c, unit) op" where
  "clear_ping E = node_opt (\<lambda>n. map_option (\<lambda>m. n\<lparr>nd_pingList := m\<rparr>) (drain_ping (en_pingQueue E) (nd_pingList n)))"

fun close_all :: "('p, 'c) env \<Rightarrow> nat list \<Rightarrow> ('p, 'c, unit) op" where
  "close_all E [] = ret_op ()"
| "close_all E (io # ios) = bind_op (onIoStreamDisconnected E io) (\<lambda>_. close_all E ios)"

text \<open>Closing the channel disconnects every stream connection it still has.\<close>

definition close_channel :: "('p, 'c) env \<Rightarrow> ('p, 'c, unit) op" where
  "close_channel E = run_op (\<lambda>b.
     if \<not> bs_channel b then ret_op ()
     else bind_op call_op (\<lambda>t. bind_op (close_all E (en_open E t)) (\<lambda>_. modify_op (\<lambda>b. b\<lparr>bs_channel := False\<rparr>))))"

definition Node_Reset :: "('p, 'c) env \<Rightarrow> ('p, 'c, ErrorType) op" where
  "Node_Reset E = guarded NodeFlag_Resetting EN_ATBUS_ERR_SUCCESS (run_op (\<lambda>b.
     bind_op (case nd_upstream (bs_node b) of None \<Rightarrow> ret_op () | Some u \<Rightarrow> node_op (\<lambda>n. fst (RemoveEndpoint u n))) (\<lambda>_.
     bind_op (node_op removeRouteCollection) (\<lambda>_.
     bind_op (drain_connecting E) (\<lambda>_. run_op (\<lambda>b.
     bind_op (case nd_self (bs_node b) of None \<Rightarrow> ret_op () | Some self \<Rightarrow> reset_ep E self) (\<lambda>_.
     bind_op (node_op (\<lambda>n. n\<lparr>nd_flags := nd_flags n OR NodeFlag_ResettingGc, nd_pendingEndpointGc := [], nd_pendingConnectionGc := []\<rparr>)) (\<lambda>_.
     bind_op (clear_ping E) (\<lambda>_.
     bind_op (close_channel E) (\<lambda>_.
     bind_op (modify_op (\<lambda>b. b\<lparr>bs_selfData := [], bs_selfCommand := []\<rparr>)) (\<lambda>_.
     bind_op (node_op (\<lambda>n. (setState NodeState_Created n)\<lparr>nd_flags := 0\<rparr>)) (\<lambda>_. ret_op EN_ATBUS_ERR_SUCCESS))))))))))))"

definition Node_Proc :: "('p, 'c) env \<Rightarrow> int \<Rightarrow> ('p, 'c, int \<times> ErrorType) op" where
  "Node_Proc E now = guarded NodeFlag_InProc (0, EN_ATBUS_ERR_SUCCESS)
     (bind_op (node_op (\<lambda>n. if nd_tick n < now then n\<lparr>nd_tick := now\<rparr> else n)) (\<lambda>_. run_op (\<lambda>b.
        if nd_state (bs_node b) = NodeState_Created then ret_op (0, EN_ATBUS_ERR_NOT_INITED)
        else if Node_CheckFlag NodeFlag_Shutdown (bs_node b) then
          bind_op (dispatchSelf E) (\<lambda>k. bind_op (Node_Reset E) (\<lambda>_. ret_op (wrap32 (1 + k), EN_ATBUS_ERR_SUCCESS)))
        else
          bind_op (processConnectingTimeout E now) (\<lambda>_.
          bind_op (processUpstreamOperations E now) (\<lambda>_.
          bind_op (processPingTimers E now) (\<lambda>_.
          bind_op (dispatchSelf E) (\<lambda>k.
          bind_op executeGC (\<lambda>_. ret_op (wrap32 k, EN_ATBUS_ERR_SUCCESS)))))))))"

definition Poll :: "('p, 'c) env \<Rightarrow> ('p, 'c, int \<times> ErrorType) op" where
  "Poll E = run_op (\<lambda>b.
     if Node_CheckFlag NodeFlag_InCallback (bs_node b) then ret_op (0, EN_ATBUS_ERR_SUCCESS)
     else guarded NodeFlag_InCallback (0, EN_ATBUS_ERR_SUCCESS) (run_op (\<lambda>b.
       if Node_CheckFlag NodeFlag_Shutdown (bs_node b) then
         bind_op (dispatchSelf E) (\<lambda>k. bind_op (Node_Reset E) (\<lambda>_. ret_op (wrap32 (1 + k), EN_ATBUS_ERR_SUCCESS)))
       else
         bind_op (dispatchSelf E) (\<lambda>k.
         bind_op executeGC (\<lambda>_. run_op (\<lambda>b.
           if Node_CheckFlag NodeFlag_Shutdown (bs_node b)
           then bind_op (Node_Reset E) (\<lambda>_. ret_op (wrap32 (k + 1), EN_ATBUS_ERR_SUCCESS))
           else ret_op (wrap32 k, EN_ATBUS_ERR_SUCCESS)))))))"

subsection \<open>Setting a node up\<close>

definition ReloadCrypto ::
  "ATBUS_CRYPTO_KEY_EXCHANGE_TYPE \<Rightarrow> int \<Rightarrow> ATBUS_CRYPTO_ALGORITHM_TYPE list \<Rightarrow> ('p, 'c, ErrorType) op" where
  "ReloadCrypto exchange interval algorithms =
     bind_op (modify_op (\<lambda>b.
       let exchange = (if bs_keyExchange b \<noteq> exchange
                       then (if exchange \<in> {X25519, SECP256R1, SECP384R1, SECP521R1} then exchange else KEY_EXCHANGE_NONE)
                       else bs_keyExchange b)
       in b\<lparr>bs_keyExchange := exchange, bs_node := (bs_node b)\<lparr>nd_configure := (nd_configure (bs_node b))
             \<lparr>CryptoKeyRefreshInterval := interval, CryptoKeyExchangeType := exchange, CryptoAllowAlgorithms := algorithms\<rparr>\<rparr>\<rparr>))
       (\<lambda>_. ret_op EN_ATBUS_ERR_SUCCESS)"

definition ReloadCompression :: "ATBUS_COMPRESSION_ALGORITHM_TYPE list \<Rightarrow> int \<Rightarrow> ('p, 'c, ErrorType) op" where
  "ReloadCompression algorithms level =
     bind_op (node_op (\<lambda>n. n\<lparr>nd_configure := (nd_configure n)\<lparr>CompressionAllowAlgorithms := algorithms, CompressionLevel := level\<rparr>\<rparr>))
       (\<lambda>_. ret_op EN_ATBUS_ERR_SUCCESS)"

text \<open>The configuration of the channel is made once and kept.\<close>

definition ATBUS_MACRO_MAX_FRAME_HEADER :: uint64 where "ATBUS_MACRO_MAX_FRAME_HEADER = 4096"

definition GetIoStreamConfigure :: "('p, 'c, IoStreamConfigure) op" where
  "GetIoStreamConfigure = run_op (\<lambda>b.
     case bs_ioConf b of Some conf \<Rightarrow> ret_op conf
     | None \<Rightarrow>
         let c = conf_of b;
             conf = \<lparr>Keepalive = 60 * second, NoBlock = True, NoDelay = True, SendBufferStatic = SendBufferNumber c, ReceiveBufferStatic = 0,
               SendBufferMaxSize = SendBufferSize c,
               SendBufferLimitSize = MessageSize c + ATBUS_MACRO_MAX_FRAME_HEADER + word_of_int (PaddingSize 20),
               ReceiveBufferMaxSize = MessageSize c + MessageSize c + ATBUS_MACRO_MAX_FRAME_HEADER + 1024,
               ReceiveBufferLimitSize = MessageSize c + ATBUS_MACRO_MAX_FRAME_HEADER, Backlog = BackLog c, ConfirmTimeout = FirstIdleTimeout c,
               MaxReadNetEgainCount = 256, MaxReadCheckBlockSizeFailedCount = 10, MaxReadCheckHashFailedCount = 10,
               OverwriteListenPath = NodeConfigure.OverwriteListenPath c\<rparr>
         in bind_op (modify_op (\<lambda>b. b\<lparr>bs_ioConf := Some conf\<rparr>)) (\<lambda>_. ret_op conf))"

definition limit_tokens :: "NodeConfigure \<Rightarrow> NodeConfigure" where
  "limit_tokens conf =
     (if AccessTokenMaxNumber conf < word_of_nat (length (AccessTokens conf))
      then conf\<lparr>AccessTokens := take (unat (AccessTokenMaxNumber conf)) (AccessTokens conf)\<rparr> else conf)"

definition init_topology :: "BusIdType \<Rightarrow> TopologyData \<Rightarrow> ('p, 'c, unit) op" where
  "init_topology i data =
     (if i = 0 then ret_op ()
      else node_opt (\<lambda>n. map_option (\<lambda>(r, _). n\<lparr>nd_topology := r\<rparr>) (UpdatePeer i 0 (Some data) (nd_topology n))))"

text \<open>What \<open>Init\<close> does once the configuration is in place.\<close>

definition init_configured :: "('p, 'c) env \<Rightarrow> BusIdType \<Rightarrow> ('p, 'c, ErrorType) op" where
  "init_configured E i = run_op (\<lambda>b.
     bind_op (init_topology i \<lparr>td_Pid = wrap32 (en_pid E), td_Hostname = en_osHostname E, td_Labels = TopologyLabels (conf_of b)\<rparr>) (\<lambda>_.
     bind_op (ReloadCrypto (CryptoKeyExchangeType (conf_of b)) (CryptoKeyRefreshInterval (conf_of b)) (CryptoAllowAlgorithms (conf_of b))) (\<lambda>_.
     bind_op (ReloadCompression (CompressionAllowAlgorithms (conf_of b)) (CompressionLevel (conf_of b))) (\<lambda>_.
     bind_op (node_op (\<lambda>n. n\<lparr>nd_configure := (limit_tokens (nd_configure n))\<lparr>ProtocolVersion := 3, ProtocolMinimalVersion := 3\<rparr>\<rparr>)) (\<lambda>_.
     bind_op GetIoStreamConfigure (\<lambda>_.
     bind_op (modify_op (\<lambda>b. b\<lparr>bs_channel := True\<rparr>)) (\<lambda>_.
     bind_op call_op (\<lambda>t.
     bind_op (node_run (CreateEndpoint i (wrap32 (en_pid E)) (en_osHostname E) (en_time E t))) (\<lambda>self.
     bind_op (node_op (\<lambda>n. n\<lparr>nd_self := Some self\<rparr>)) (\<lambda>_.
     bind_op (node_op (ClearPingTimer (en_ping E) self)) (\<lambda>_.
     bind_op (node_op (\<lambda>n. setState NodeState_Inited (n\<lparr>nd_pingList := lru_New (en_pingQueue E),
                nd_connectingList := lru_New (en_connectingQueue E), nd_route := []\<rparr>))) (\<lambda>_. ret_op EN_ATBUS_ERR_SUCCESS))))))))))))"

definition Init :: "('p, 'c) env \<Rightarrow> BusIdType \<Rightarrow> NodeConfigure option \<Rightarrow> ('p, 'c, ErrorType) op" where
  "Init E i conf = run_op (\<lambda>b.
     bind_op (if nd_state (bs_node b) \<noteq> NodeState_Created then bind_op (Node_Reset E) (\<lambda>_. ret_op ()) else ret_op ()) (\<lambda>_.
     bind_op (node_op (\<lambda>n. n\<lparr>nd_configure := (case conf of None \<Rightarrow> SetDefaultNodeConfigure (nd_configure n) | Some c \<Rightarrow> c)\<rparr>)) (\<lambda>_.
       init_configured E i)))"

text \<open>The hash of a node: its hardware addresses without their leading zeros, sorted and each once, then host, process, address and id.\<close>

definition mac_names :: "(bool \<times> bytes) list \<Rightarrow> string list" where
  "mac_names interfaces =
     filter (\<lambda>a. a \<noteq> '''') (map (\<lambda>(_, mac). EncodeToString (dropWhile (\<lambda>x. x = 0) mac)) (filter (\<lambda>(loopback, _). \<not> loopback) interfaces))"

fun write_macs :: "string \<Rightarrow> string list \<Rightarrow> bytes" where
  "write_macs prev [] = []"
| "write_macs prev (addr # addrs) = (if addr = prev then write_macs prev addrs else string_bytes addr @ write_macs addr addrs)"

definition initHashCode :: "('p, 'c) env \<Rightarrow> ('p, 'c) Bus \<Rightarrow> ('p, 'c) Bus" where
  "initHashCode E b = b\<lparr>bs_hashCode := EncodeToString (en_sha256 E (write_macs '''' (sort (mac_names (en_interfaces E)))
     @ string_bytes (GetHostname E) @ PutUint32 (word_of_int (GetPid E)) @ PutUint64_le (en_nodeAddress E)
     @ PutUint64_le (Node_GetId (bs_node b))))\<rparr>"

definition StartWithConfigure :: "('p, 'c) env \<Rightarrow> int option \<Rightarrow> ('p, 'c, ErrorType) op" where
  "StartWithConfigure E timepoint = run_op (\<lambda>b.
     if nd_state (bs_node b) = NodeState_Created then ret_op EN_ATBUS_ERR_NOT_INITED
     else
       bind_op (case timepoint of Some t \<Rightarrow> if t = 0 then bind_op call_op (\<lambda>k. ret_op (en_time E k)) else ret_op t
                | None \<Rightarrow> bind_op call_op (\<lambda>k. ret_op (en_time E k))) (\<lambda>tick.
       bind_op (node_op (\<lambda>n. n\<lparr>nd_tick := tick\<rparr>)) (\<lambda>_.
       bind_op (modify_op (initHashCode E)) (\<lambda>_. run_op (\<lambda>b.
       bind_op (case nd_self (bs_node b) of None \<Rightarrow> ret_op () | Some self \<Rightarrow> ep_op self (UpdateHashCode (bs_hashCode b))) (\<lambda>_.
         if Node_GetId (bs_node b) \<noteq> 0 \<and> UpstreamAddress (conf_of b) \<noteq> '''' then
           if nd_upstream (bs_node b) \<noteq> None then ret_op EN_ATBUS_ERR_SUCCESS
           else bind_op (Connect E (UpstreamAddress (conf_of b))) (\<lambda>r.
             bind_op (if r = EN_ATBUS_ERR_SUCCESS
                      then node_op (\<lambda>n. setState NodeState_ConnectingUpstream (n\<lparr>nd_upstreamOpTimepoint := nd_tick n + FirstIdleTimeout (nd_configure n)\<rparr>))
                      else node_op (\<lambda>n. setState NodeState_LostUpstream (n\<lparr>nd_upstreamOpTimepoint := nd_tick n + RetryInterval (nd_configure n)\<rparr>)))
               (\<lambda>_. ret_op EN_ATBUS_ERR_SUCCESS))
         else bind_op (node_op OnActived) (\<lambda>_. ret_op EN_ATBUS_ERR_SUCCESS)))))))"

definition Start :: "('p, 'c) env \<Rightarrow> ('p, 'c, ErrorType) op" where
  "Start E = StartWithConfigure E None"

definition disconnect_op :: "('p, 'c) env \<Rightarrow> BusIdType \<Rightarrow> ('p, 'c, ErrorType) op" where
  "disconnect_op E i b =
     (case Node_Disconnect (en_ping E) (en_connecting E) 4 i (bs_node b) of
        None \<Rightarrow> None
      | Some (n, r) \<Rightarrow> Some (Returns (r, b\<lparr>bs_node := n\<rparr>)))"

text \<open>A node as it is made: nothing in it yet.\<close>

definition NewNode :: "('p, 'c) env \<Rightarrow> ('p, 'c) Bus" where
  "NewNode E = \<lparr>bs_node = \<lparr>nd_conns = [], nd_eps = [], nd_flags = 0, nd_state = NodeState_Created, nd_configure = zero_NodeConfigure,
       nd_self = None, nd_upstream = None, nd_route = [], nd_topology = CreateTopologyRegistry, nd_tick = 0, nd_upstreamOpTimepoint = 0,
       nd_pingList = lru_New (en_pingQueue E), nd_connectingList = lru_New (en_connectingQueue E), nd_pendingEndpointGc = [],
       nd_pendingConnectionGc = [], nd_sequence = 0, nd_events = []\<rparr>,
     bs_ctx = [], bs_keyExchange = KEY_EXCHANGE_NONE, bs_channel = False, bs_private = (\<lambda>_. None), bs_selfData = [], bs_selfCommand = [],
     bs_dispatchTimes = 0, bs_hashCode = '''', bs_ioConf = None, bs_calls = 0, bs_sent = []\<rparr>"

text \<open>A node is used once it was initialised: the timer lists of the zero value are replaced by \<open>Init\<close>.\<close>

definition CreateNode :: "('p, 'c) env \<Rightarrow> BusIdType \<Rightarrow> NodeConfigure option \<Rightarrow> (ErrorType \<times> ('p, 'c) Bus) outcome option" where
  "CreateNode E i conf = Init E i conf (NewNode E)"

subsection \<open>What can happen to a node\<close>

text \<open>The calls of the application and the events of the channel, one after the other. Their results go to the caller.\<close>

datatype action =
    Call_Init BusIdType "NodeConfigure option"
  | Call_Start "int option"
  | Call_ReloadCrypto ATBUS_CRYPTO_KEY_EXCHANGE_TYPE int "ATBUS_CRYPTO_ALGORITHM_TYPE list"
  | Call_ReloadCompression "ATBUS_COMPRESSION_ALGORITHM_TYPE list" int
  | Call_Listen string
  | Call_Connect string
  | Call_Disconnect BusIdType
  | Call_SendData BusIdType int bytes "NodeSendDataOptions option"
  | Call_SendCustomCommand BusIdType "bytes list" "NodeSendDataOptions option"
  | Call_SetTopologyUpstream BusIdType
  | Call_RemoveEndpointByID BusIdType
  | Call_Proc int
  | Call_Poll
  | Call_Shutdown ErrorType
  | Call_Reset
  | Event_Accepted nat
  | Event_Received nat int bytes
  | Event_Written nat int bytes
  | Event_Disconnected nat

definition void :: "('p, 'c, 'a) op \<Rightarrow> ('p, 'c, unit) op" where
  "void m = bind_op m (\<lambda>_. ret_op ())"

fun perform :: "('p, 'c) env \<Rightarrow> action \<Rightarrow> ('p, 'c, unit) op" where
  "perform E (Call_Init i conf) = void (Init E i conf)"
| "perform E (Call_Start timepoint) = void (StartWithConfigure E timepoint)"
| "perform E (Call_ReloadCrypto exchange interval algorithms) = void (ReloadCrypto exchange interval algorithms)"
| "perform E (Call_ReloadCompression algorithms level) = void (ReloadCompression algorithms level)"
| "perform E (Call_Listen address) = void (Listen E address)"
| "perform E (Call_Connect address) = void (Connect E address)"
| "perform E (Call_Disconnect i) = void (disconnect_op E i)"
| "perform E (Call_SendData tid t data options) = void (SendDataWithOptions E tid t data options)"
| "perform E (Call_SendCustomCommand tid args options) = void (SendCustomCommandWithOptions E tid args options)"
| "perform E (Call_SetTopologyUpstream tid) = node_opt (SetTopologyUpstream tid)"
| "perform E (Call_RemoveEndpointByID tid) = void (node_run (RemoveEndpointByID tid))"
| "perform E (Call_Proc now) = void (Node_Proc E now)"
| "perform E Call_Poll = void (Poll E)"
| "perform E (Call_Shutdown reason) = void (node_run (Shutdown (en_onNodeDown E) reason))"
| "perform E Call_Reset = void (Node_Reset E)"
| "perform E (Event_Accepted io) = onIoStreamAccepted E io"
| "perform E (Event_Received io status payload) = onIoStreamReceived E io status payload"
| "perform E (Event_Written io status payload) = onIoStreamWritten io status payload"
| "perform E (Event_Disconnected io) = onIoStreamDisconnected E io"

inductive reachable :: "('p, 'c) env \<Rightarrow> ('p, 'c) Bus \<Rightarrow> bool" for E where
  start: "CreateNode E i conf = Some (Returns (EN_ATBUS_ERR_SUCCESS, b)) \<Longrightarrow> reachable E b"
| step: "reachable E b \<Longrightarrow> perform E a b = Some (Returns ((), b')) \<Longrightarrow> reachable E b'"

end
