(* ===== verification/Bus_Sample.thy ===== *)
theory Bus_Sample
  imports Node_Run
begin

section \<open>A concrete environment\<close>

text \<open>
  Surroundings in which the operations of a node can be evaluated: timer lists that are lists of entries in the order in which they were
  put, the sample cryptography of \<open>Crypto_Session\<close>, an encoding that keeps only the size of a body, and a channel that accepts all it is
  given. The laws that are assumed of timer lists hold of the lists.
\<close>

subsection \<open>Timer lists as lists\<close>

definition list_map :: "(('k \<times> 'v) list, 'k, 'v) LRUMap" where
  "list_map = \<lparr>lru_Put = \<lambda>k v m. filter (\<lambda>x. fst x \<noteq> k) m @ [(k, v)], lru_Get = \<lambda>k m. map_of m k, lru_Delete = \<lambda>k m. filter (\<lambda>x. fst x \<noteq> k) m\<rparr>"

definition list_queue :: "(('k \<times> 'v) list, 'k, 'v) LRUQueue" where
  "list_queue = \<lparr>lru_New = [], lru_Front = \<lambda>m. (case m of [] \<Rightarrow> None | x # _ \<Rightarrow> Some x),
     lru_PopFront = \<lambda>m. (case m of [] \<Rightarrow> [] | x # _ \<Rightarrow> filter (\<lambda>y. fst y \<noteq> fst x) m)\<rparr>"

lemma map_of_filter_key: "map_of (filter (\<lambda>x. fst x \<noteq> k) m) k' = (if k' = k then None else map_of m k')"
  by (induction m) auto

lemma list_map_laws: "lru_laws list_map"
  by (auto simp: lru_laws_def list_map_def map_of_filter_key map_add_def split: option.splits)

lemma list_queue_laws: "queue_laws list_map list_queue"
proof -
  have "finite {k. map_of m k \<noteq> None}" for m :: "('a \<times> 'b) list" using finite_dom_map_of [of m] by (simp add: dom_def)
  then show ?thesis by (auto simp: queue_laws_def list_map_def list_queue_def map_of_filter_key split: list.splits)
qed

subsection \<open>An environment and a node in it\<close>

definition plain_proto :: proto_lib where
  "plain_proto = \<lparr>size_body = \<lambda>_. 0, marshal_head = \<lambda>_. Some [0], marshal_body = \<lambda>_. Some [], unmarshal_head = \<lambda>_. (zero_message_head, True),
     unmarshal_body = \<lambda>_. (BodyNone, True)\<rparr>"

type_synonym sample_ping = "(nat \<times> int \<times> nat) list"
type_synonym sample_connecting = "(string \<times> int \<times> nat) list"

definition sample_env :: "(sample_ping, sample_connecting) env" where
  "sample_env = \<lparr>en_ping = list_map, en_connecting = list_map, en_pingQueue = list_queue, en_connectingQueue = list_queue,
     en_crypto = sample_lib, en_compression = sample_compression, en_proto = plain_proto,
     en_sha256 = (\<lambda>x. x), en_hmac = (\<lambda>k x. k @ x), en_lower = (\<lambda>s. s),
     en_pid = 1, en_hostname = ''host'', en_osHostname = ''host'', en_interfaces = [(True, []), (False, [1, 2, 3, 4, 5, 6])], en_nodeAddress = 4096,
     en_scheme_order = (\<lambda>s. s), en_time = (\<lambda>_. 0), en_random = (\<lambda>_ n. Some (replicate n 0)), en_entropy = (\<lambda>_. [1]),
     en_uint64 = (\<lambda>_. 7), en_send = (\<lambda>_ _ _. EN_ATBUS_ERR_SUCCESS), en_connect = (\<lambda>n _. (n, EN_ATBUS_ERR_SUCCESS)),
     en_listen = (\<lambda>_ _. EN_ATBUS_ERR_SUCCESS), en_open = (\<lambda>_. []), en_ioAddress = (\<lambda>_. ''ipv4://10.0.0.2:80''), en_onNodeDown = (\<lambda>r. r),
     en_onNewConnection = (\<lambda>_. EN_ATBUS_ERR_SUCCESS), en_onCommand = (\<lambda>_ _ _. (EN_ATBUS_ERR_SUCCESS, [])),
     en_onCommandResponse = (\<lambda>_ _ _ _. EN_ATBUS_ERR_PARAMS)\<rparr>"

text \<open>The node 1 with its peer 2, which is below it in the topology and has the connections of \<open>sample_node\<close>.\<close>

definition sample_bus :: "(sample_ping, sample_connecting) Bus" where
  "sample_bus = (NewNode sample_env)\<lparr>bs_node := \<lparr>nd_conns = nd_conns sample_node, nd_eps = [sample_ep 1 None [], sample_ep 2 (Some 0) [1, 2]],
       nd_flags = nd_flags sample_node, nd_state = NodeState_Running, nd_configure = nd_configure sample_node, nd_self = Some 0, nd_upstream = None,
       nd_route = [(2, 1)], nd_topology = fst (the (UpdatePeer 2 1 None (fst (the (UpdatePeer 1 0 None CreateTopologyRegistry))))),
       nd_tick = 5, nd_upstreamOpTimepoint = 0, nd_pingList = [], nd_connectingList = [],
       nd_pendingEndpointGc = [], nd_pendingConnectionGc = [], nd_sequence = 0, nd_events = []\<rparr>,
     bs_ctx := replicate 4 (NewConnectionContext KEY_EXCHANGE_NONE), bs_channel := True\<rparr>"

text \<open>The signatures one token at a time, for evaluation.\<close>

lemma sign_all_map: "sign_all hmac ts p ad = ad\<lparr>ad_signature := map (\<lambda>t. CalculateAccessDataSignature hmac t p) ts\<rparr>"
proof -
  have "foldl (\<lambda>ad t. ad\<lparr>ad_signature := ad_signature ad @ [CalculateAccessDataSignature hmac t p]\<rparr>) a ts
      = a\<lparr>ad_signature := ad_signature a @ map (\<lambda>t. CalculateAccessDataSignature hmac t p) ts\<rparr>" for a :: access_data
    by (induction ts arbitrary: a) simp_all
  then show ?thesis by (simp add: sign_all_def)
qed

lemma sign_all_code [code]:
  "sign_all hmac [] p ad = ad\<lparr>ad_signature := []\<rparr>"
  "sign_all hmac (t # ts) p ad =
     (let r = sign_all hmac ts p ad in r\<lparr>ad_signature := CalculateAccessDataSignature hmac t p # ad_signature r\<rparr>)"
  by (simp_all add: sign_all_map Let_def)

text \<open>What a caller sees of an operation.\<close>

definition answer_of :: "('a \<times> ('p, 'c) Bus) outcome option \<Rightarrow> 'a option" where
  "answer_of x = (case x of Some (Returns (r, _)) \<Rightarrow> Some r | _ \<Rightarrow> None)"

lemma answer_ofE:
  assumes "answer_of x = Some r"
  obtains b where "x = Some (Returns (r, b))"
  using assms by (auto simp: answer_of_def split: option.splits outcome.splits)

definition sample_message :: "message_body \<Rightarrow> Message" where
  "sample_message body = \<lparr>msg_head = Some (zero_message_head\<lparr>mh_version := 3\<rparr>), msg_body = Some body, msg_unpackError = ''''\<rparr>"

definition sample_transfer :: "BusIdType \<Rightarrow> forward_data" where
  "sample_transfer to = \<lparr>fd_from = 2, fd_to = to, fd_router = [], fd_content = [42], fd_flags = 0\<rparr>"

definition sample_command :: "BusIdType \<Rightarrow> custom_command_data" where
  "sample_command i = \<lparr>cc_from = i, cc_commands = [[1], [2]],
     cc_access_key = Some \<lparr>ad_algorithm = HMAC_SHA256, ad_timestamp = 0, ad_nonce1 = 0, ad_nonce2 = 0, ad_signature = []\<rparr>\<rparr>"

definition sample_register :: register_data where
  "sample_register = \<lparr>rd_bus_id = 3, rd_pid = 1, rd_hostname = ''h'', rd_channels = [], rd_supported_channel_schema = [],
     rd_supported_compression_algorithm = [], rd_flags = 0, rd_access_key = None, rd_hash_code = '''', rd_crypto_handshake = None\<rparr>"

text \<open>A view of the state an operation leads to.\<close>

definition seen :: "(('p, 'c) Bus \<Rightarrow> 'v) \<Rightarrow> ('a \<times> ('p, 'c) Bus) outcome option \<Rightarrow> 'v option" where
  "seen v x = (case x of Some (Returns (_, b)) \<Rightarrow> Some (v b) | _ \<Rightarrow> None)"

lemma seenE:
  assumes "seen v x = Some y"
  obtains r b where "x = Some (Returns (r, b))" "v b = y"
  using assms by (auto simp: seen_def split: option.splits outcome.splits)

end
