(* ===== verification/Message_Effect.thy ===== *)
theory Message_Effect
  imports Bus_Invariant Bus_Sample
begin

unbundle bit_operations_syntax

section \<open>What messages do\<close>

text \<open>
  The effects of the handlers on the application and on the links between nodes: what reaches the application, what a refused
  message changes, and the answers of a node.
\<close>

subsection \<open>What sending leaves alone\<close>

text \<open>
  \<open>links\<close> is what an operation that only sends may not change: the events of the application, the endpoints with their ids and
  connections, the route table, the topology, the clock and the timers, the status and binding of the connections.
\<close>

definition links :: "('p, 'c) Bus \<Rightarrow> node_event list \<times> BusIdType list \<times> (BusIdType \<times> nat) list \<times> nat option \<times> nat option \<times> TopologyRegistry
    \<times> NodeState \<times> NodeConfigure \<times> int \<times> 'p \<times> 'c \<times> nat option list \<times> (ConnectionState \<times> uint32) list \<times> nat set list" where
  "links b = (let n = bs_node b in (nd_events n, ids n, nd_route n, nd_upstream n, nd_self n, nd_topology n, nd_state n, nd_configure n,
     nd_tick n, nd_pingList n, nd_connectingList n,
     map cn_binding (nd_conns n), map (\<lambda>c. (cn_status c, cn_flags c)) (nd_conns n), map (\<lambda>e. set (attached e)) (nd_eps n)))"

text \<open>A frame condition: whatever the operation returns, a view of the state is as it was.\<close>

definition frames :: "(('p, 'c) Bus \<Rightarrow> 'v) \<Rightarrow> ('p, 'c) Bus \<Rightarrow> ('p, 'c, 'a) op \<Rightarrow> ('p, 'c) Bus \<Rightarrow> bool" where
  "frames v b0 m b \<longleftrightarrow> (\<forall>x b'. m b = Some (Returns (x, b')) \<longrightarrow> v b' = v b0)"

abbreviation leaves :: "('p, 'c) Bus \<Rightarrow> ('p, 'c, 'a) op \<Rightarrow> ('p, 'c) Bus \<Rightarrow> bool" where
  "leaves \<equiv> frames links"

named_theorems leaves_intros

lemma frames_bind [leaves_intros]:
  assumes "frames v b0 m b" and "\<And>x b'. v b' = v b0 \<Longrightarrow> frames v b0 (f x) b'"
  shows "frames v b0 (bind_op m f) b"
proof (unfold frames_def, intro allI impI)
  fix y b2 assume "bind_op m f b = Some (Returns (y, b2))"
  then obtain x b1 where "m b = Some (Returns (x, b1))" and y: "f x b1 = Some (Returns (y, b2))"
    by (auto simp: bind_op_def split: option.splits outcome.splits)
  with assms show "v b2 = v b0" unfolding frames_def by blast
qed

lemma frames_basic [leaves_intros]:
  "v b = v b0 \<Longrightarrow> frames v b0 (ret_op x) b" "frames v b0 panic_op b" "frames v b0 (f b) b \<Longrightarrow> frames v b0 (run_op f) b"
  "(c \<Longrightarrow> frames v b0 m b) \<Longrightarrow> (\<not> c \<Longrightarrow> frames v b0 m' b) \<Longrightarrow> frames v b0 (if c then m else m') b"
  "frames v b0 (g x) b \<Longrightarrow> frames v b0 (Let x g) b"
  by (simp_all add: frames_def ret_op_def panic_op_def run_op_def)

lemma frames_cases [leaves_intros]:
  "(o1 = None \<Longrightarrow> frames v b0 m b) \<Longrightarrow> (\<And>x. o1 = Some x \<Longrightarrow> frames v b0 (f x) b) \<Longrightarrow> frames v b0 (case o1 of None \<Rightarrow> m | Some x \<Rightarrow> f x) b"
  "(\<And>x y. p = (x, y) \<Longrightarrow> frames v b0 (g x y) b) \<Longrightarrow> frames v b0 (case p of (x, y) \<Rightarrow> g x y) b"
  "(\<And>x. u = Returns x \<Longrightarrow> frames v b0 (h x) b) \<Longrightarrow> frames v b0 (case u of Panics \<Rightarrow> panic_op | Returns x \<Rightarrow> h x) b"
proof -
  show "frames v b0 (case o1 of None \<Rightarrow> m | Some x \<Rightarrow> f x) b" if "o1 = None \<Longrightarrow> frames v b0 m b" "\<And>x. o1 = Some x \<Longrightarrow> frames v b0 (f x) b"
    using that by (cases o1) simp_all
  show "frames v b0 (case p of (x, y) \<Rightarrow> g x y) b" if "\<And>x y. p = (x, y) \<Longrightarrow> frames v b0 (g x y) b" using that by (cases p) simp
  show "frames v b0 (case u of Panics \<Rightarrow> panic_op | Returns x \<Rightarrow> h x) b" if "\<And>x. u = Returns x \<Longrightarrow> frames v b0 (h x) b"
    using that by (cases u) (simp_all add: frames_basic(2))
qed

lemma leaves_parts [leaves_intros]:
  assumes "links b = links b0"
  shows "leaves b0 call_op b" "leaves b0 (ctx_op c f) b" "leaves b0 (ctx_run c g) b" "leaves b0 (ctx_out c h) b" "leaves b0 (node_run AllocateMessageSequence) b"
  using assms
  by (auto simp: frames_def call_op_def ctx_op_def ctx_run_def ctx_out_def modify_op_def node_run_def AllocateMessageSequence_def links_def ids_def Let_def
      split: prod.splits outcome.splits)

lemma map_frame: "f x = f (xs ! c) \<Longrightarrow> map f (xs[c := x]) = map f xs"
  by (metis list_update_id map_update)

lemma leaves_push [leaves_intros]:
  assumes "links b = links b0"
  shows "leaves b0 (push_op E c data) b"
proof -
  have p: "cn_binding (fst (Push ch data x)) = cn_binding x" "cn_status (fst (Push ch data x)) = cn_status x" "cn_flags (fst (Push ch data x)) = cn_flags x" for ch x
    by (simp_all add: Push_def Let_def split: option.split)
  have "links (b\<lparr>bs_calls := k, bs_node := upd_conn c (\<lambda>_. fst (Push ch data (conn_of b c))) (bs_node b), bs_sent := s\<rparr>) = links b"
    "links (b\<lparr>bs_calls := k, bs_node := upd_conn c (\<lambda>_. fst (Push ch data (conn_of b c))) (bs_node b)\<rparr>) = links b" for k ch s
    using p by (simp_all add: links_def Let_def ids_def upd_conn_def map_frame conn_of_def)
  with assms show ?thesis
    by (auto simp: frames_def push_op_def bind_op_def call_op_def Let_def conn_of_def split: prod.splits) (metis fst_conv)+
qed

lemma leaves_SendMessage [leaves_intros]: "links b = links b0 \<Longrightarrow> leaves b0 (SendMessage E conn om) b"
  unfolding SendMessage_def by (intro leaves_intros)

lemma leaves_sends [leaves_intros]:
  assumes "links b = links b0"
  shows "leaves b0 (SendHandshakeConfirm E conn sq) b" "leaves b0 (sign_op E f) b" "leaves b0 (SendRegister E t conn code sq) b"
    "leaves b0 (ensure_sequence m head) b" "leaves b0 (client_handshake E c h) b" "leaves b0 (server_handshake E c h) b"
  unfolding SendHandshakeConfirm_def sign_op_def SendRegister_def register_key_def ensure_sequence_def client_handshake_def server_handshake_def
  using assms by (auto intro!: leaves_intros)

lemma choose_hop_state: "choose_hop fn options tid self n = Some (n', r, ep, conn) \<Longrightarrow> n' = n \<or> (\<exists>e. n' = fst (fn self e n))"
  by (auto simp: choose_hop_def Let_def via_def fallback_upstream_def split: option.splits prod.splits if_splits) (metis fst_conv)+

lemma GetPeerChannel_state: "GetPeerChannel fn options tid n = Some (n', r, ep, conn, peer) \<Longrightarrow> n' = n \<or> (\<exists>self e. n' = fst (fn self e n))"
proof -
  assume run: "GetPeerChannel fn options tid n = Some (n', r, ep, conn, peer)"
  show ?thesis
  proof (cases "nd_self n = None \<or> nd_state n = NodeState_Created \<or> tid = Node_GetId n")
    case True
    with run show ?thesis by (cases "nd_self n"; cases "nd_state n = NodeState_Created"; cases "tid = Node_GetId n") (simp_all add: GetPeerChannel_def)
  next
    case False
    then obtain self where self: "nd_self n = Some self" by auto
    show ?thesis
    proof (cases "choose_hop fn options tid self n")
      case None
      with run False self show ?thesis by (simp add: GetPeerChannel_def)
    next
      case (Some x)
      obtain n1 r1 ep1 conn1 where x: "x = (n1, r1, ep1, conn1)" by (cases x)
      with run False self Some have "n' = n1" by (auto simp: GetPeerChannel_def Let_def split: if_splits)
      with choose_hop_state [of fn options tid self n n1 r1 ep1 conn1] Some x show ?thesis by blast
    qed
  qed
qed

lemma leaves_get_peer_channel:
  assumes "links b = links b0" and "\<And>self e. links (b\<lparr>bs_node := fst (fn self e (bs_node b))\<rparr>) = links b"
  shows "leaves b0 (get_peer_channel fn options tid) b"
proof -
  have same: "links (b\<lparr>bs_node := n'\<rparr>) = links b" if "GetPeerChannel fn options tid (bs_node b) = Some (n', r, ep, conn, peer)" for n' r ep conn peer
    using GetPeerChannel_state [OF that] assms(2) by auto
  then show ?thesis using assms(1) by (auto simp: frames_def get_peer_channel_def split: option.splits prod.splits)
qed

lemma links_GetDataConnection: "links (b\<lparr>bs_node := fst (GetDataConnection self e v (bs_node b))\<rparr>) = links b"
proof -
  have "links (b\<lparr>bs_node := sort_data e (bs_node b)\<rparr>) = links b"
    by (simp add: links_def Let_def sort_data_def ids_def upd_ep_def map_frame) (simp add: map_frame attached_def Endpoint_setFlag_def)
  then show ?thesis by (simp add: GetDataConnection_def Let_def)
qed

lemma leaves_forwardDataMessage [leaves_intros]: "links b = links b0 \<Longrightarrow> leaves b0 (forwardDataMessage E om f t) b"
  unfolding forwardDataMessage_def by (intro leaves_intros leaves_get_peer_channel links_GetDataConnection)

text \<open>The id of a node with its own endpoint in place is part of its links.\<close>

lemma links_GetId:
  assumes "links b = links b0" and "ep_ref b0 (nd_self (bs_node b0))"
  shows "Node_GetId (bs_node b) = Node_GetId (bs_node b0)"
proof -
  have l: "nd_self (bs_node b) = nd_self (bs_node b0)" "map ep_id (nd_eps (bs_node b)) = map ep_id (nd_eps (bs_node b0))" using assms(1) by (simp_all add: links_def Let_def ids_def)
  then have "length (nd_eps (bs_node b)) = length (nd_eps (bs_node b0))" by (metis length_map)
  then show ?thesis using assms(2) l by (auto simp: Node_GetId_def split: option.split) (metis nth_map)
qed

lemma leaves_sendMessage:
  assumes "links b = links b0" and "ep_ref b0 (nd_self (bs_node b0))" and "tid \<noteq> Node_GetId (bs_node b0)"
    and "\<And>self e b. links (b\<lparr>bs_node := fst (fn self e (bs_node b))\<rparr>) = links b"
  shows "leaves b0 (Node_sendMessage E D tid m fn options) b"
  using assms links_GetId [OF assms(1,2)] unfolding Node_sendMessage_def
  by (intro leaves_intros leaves_get_peer_channel) simp_all

lemma leaves_SendTransferResponse:
  assumes "links b = links b0" and "ep_ref b0 (nd_self (bs_node b0))" and "GetBody (Some m) = Some body" and "forward_of body = Some d"
    and "fd_from d \<noteq> Node_GetId (bs_node b0)"
  shows "leaves b0 (SendTransferResponse E D m code) b"
  unfolding SendTransferResponse_def SendCtrlMessage_def using assms by (auto intro!: leaves_intros leaves_sendMessage)

lemma leaves_SendCustomCommandResponse:
  assumes "links b = links b0"
  shows "leaves b0 (SendCustomCommandResponse E D (Some c) d t code sq from) b"
  unfolding SendCustomCommandResponse_def using assms by (auto intro!: leaves_intros)

lemma leavesD: "frames v b0 m b \<Longrightarrow> m b = Some (Returns (x, b')) \<Longrightarrow> v b' = v b0"
  by (simp add: frames_def)

lemma bind_op_Returns:
  "bind_op m f b = Some (Returns (y, b2)) \<longleftrightarrow> (\<exists>x b1. m b = Some (Returns (x, b1)) \<and> f x b1 = Some (Returns (y, b2)))"
  by (auto simp: bind_op_def split: option.splits outcome.splits)

lemma links_fault: "links (b\<lparr>bs_node := upd_conn c (\<lambda>cn. fst (Connection_AddStatisticFault cn)) (bs_node b)\<rparr>) = links b"
  by (simp add: links_def Let_def ids_def upd_conn_def map_frame Connection_AddStatisticFault_def)

lemma leaves_fault [leaves_intros]: "links b = links b0 \<Longrightarrow> leaves b0 (fault_op conn) b"
  by (auto simp: frames_def fault_op_def ret_op_def node_op_def modify_op_def links_fault split: option.split)

text \<open>An event of the application is all that \<open>event_op\<close> adds to the links.\<close>

definition with_event :: "node_event \<Rightarrow> ('p, 'c) Bus \<Rightarrow> ('p, 'c) Bus" where
  "with_event ev b = b\<lparr>bs_node := log_event ev (bs_node b)\<rparr>"

lemma event_op_eq: "event_op ev b = Some (Returns ((), with_event ev b))"
  by (simp add: event_op_def node_op_def modify_op_def with_event_def)

definition events_of :: "('p, 'c) Bus \<Rightarrow> node_event list" where
  "events_of b = nd_events (bs_node b)"

lemma links_events: "links b' = links b \<Longrightarrow> events_of b' = events_of b"
  by (simp add: links_def events_of_def Let_def)

lemma with_event_simps [simp]: "events_of (with_event ev b) = events_of b @ [ev]" "bs_node (with_event ev b) = log_event ev (bs_node b)"
  by (simp_all add: with_event_def events_of_def log_event_def)

subsection \<open>Packing keeps the body\<close>

text \<open>The message a failed forward hands back still carries its body, so the answer goes to the sender of the transfer.\<close>

lemma packMessageWith_body: "msg_body (fst (snd (packMessageWith L Z P rnd ca cr m cc))) = msg_body m"
proof -
  obtain x h where xh: "MutableHead m = (x, h)" by (cases "MutableHead m")
  then have b: "msg_body x = msg_body m" by (auto simp: MutableHead_def split: option.splits)
  define origin where "origin = (case msg_body x of Some b \<Rightarrow> if 0 < int_of_uint64 (mh_body_size h) then marshal_body P b else Some [] | None \<Rightarrow> Some [])"
  note u = packMessageWith_def [of L Z P rnd ca cr m cc, unfolded xh Let_def prod.case, folded origin_def]
  show ?thesis
  proof (cases origin)
    case None
    then show ?thesis using b by (simp add: u)
  next
    case (Some bytes)
    show ?thesis
    proof (cases "pack_compress Z ca bytes cc")
      case (Inl e)
      then show ?thesis using b Some by (simp add: u)
    next
      case (Inr y)
      obtain p a k where y: "y = (p, a, k)" by (cases y)
      obtain cc' h' r where e: "pack_encrypt L rnd cr p h cc = (cc', h', r)" by (cases "pack_encrypt L rnd cr p h cc")
      show ?thesis using b Some Inr y e by (cases r) (simp_all add: u)
    qed
  qed
qed

lemma MutableHead_body [simp]: "msg_body (fst (MutableHead m)) = msg_body m"
  by (simp add: MutableHead_def split: option.split)

lemma PackMessage_body:
  assumes "PackMessage L Z P rnd (Some m) v s cc = (cc', om, r)"
  obtains m' where "om = Some m'" and "msg_body m' = msg_body m"
proof -
  have "om = fst (snd (PackMessage L Z P rnd (Some m) v s cc))" using assms by simp
  then have "\<exists>m'. om = Some m' \<and> msg_body m' = msg_body m"
    by (simp add: PackMessage_def Let_def split_beta packMessageWith_body)
  then show ?thesis using that by blast
qed

lemma SendMessage_body:
  assumes "SendMessage E (Some c) (Some m) b = Some (Returns ((om, r), b'))"
  obtains m' where "om = Some m'" and "msg_body m' = msg_body m"
proof -
  define b1 where "b1 = b\<lparr>bs_calls := Suc (bs_calls b)\<rparr>"
  obtain cc om1 buf e where pack: "PackMessage (en_crypto E) (en_compression E) (en_proto E) (en_random E (bs_calls b)) (Some (fst (MutableHead m)))
      (ProtocolVersion (conf_of b1)) (int_of_uint64 (MessageSize (conf_of b1))) (bs_ctx b1 ! c) = (cc, om1, buf, e)"
    by (cases "PackMessage (en_crypto E) (en_compression E) (en_proto E) (en_random E (bs_calls b)) (Some (fst (MutableHead m)))
      (ProtocolVersion (conf_of b1)) (int_of_uint64 (MessageSize (conf_of b1))) (bs_ctx b1 ! c)")
  define rest where "rest = (\<lambda>(om :: Message option, buf, errCode).
              if errCode \<noteq> EN_ATBUS_ERR_SUCCESS then ret_op (om, errCode)
              else if buf = None then ret_op (om, EN_ATBUS_ERR_INNER)
              else case StaticBufferBlock_UsedSpan buf of
                Panics \<Rightarrow> panic_op
              | Returns data \<Rightarrow> bind_op (push_op E c data) (\<lambda>r. ret_op (om, r)))"
  have "rest (om1, buf, e) (b1\<lparr>bs_ctx := (bs_ctx b1)[c := cc]\<rparr>) = Some (Returns ((om, r), b'))"
    using assms unfolding SendMessage_def option.case rest_def
    by (simp add: bind_op_def call_op_def run_op_def ctx_run_def pack [unfolded b1_def, simplified] b1_def)
  then have "om = om1"
    by (auto simp: rest_def ret_op_def panic_op_def bind_op_Returns split: if_splits outcome.splits)
  then show ?thesis using PackMessage_body [OF pack] that by (metis MutableHead_body)
qed

lemma forwardDataMessage_body:
  assumes "forwardDataMessage E (Some m) f t b = Some (Returns ((om, r, ep), b'))"
  obtains m' where "om = Some m'" and "msg_body m' = msg_body m"
proof -
  define n where "n = (\<lambda>b. let (m, head) = MutableHead m in m\<lparr>msg_head := Some (head\<lparr>mh_source_bus_id := Node_GetId (bs_node (b :: ('a, 'b) Bus))\<rparr>)\<rparr>)"
  have n: "msg_body (n b) = msg_body m" for b by (simp add: n_def MutableHead_def split: option.split)
  have "\<exists>m'. om = Some m' \<and> msg_body m' = msg_body m"
  proof (cases "t = 0 \<or> Node_GetId (bs_node b) = t")
    case True
    with assms show ?thesis by (auto simp: forwardDataMessage_def run_op_def ret_op_def)
  next
    case False
    define G where "G = (\<lambda>(r1, ep1, conn1). if r1 \<noteq> EN_ATBUS_ERR_SUCCESS then ret_op (Some m, r1, ep1)
         else if conn1 = None \<or> ep1 = None then ret_op (Some m, EN_ATBUS_ERR_CONNECTION_NOT_FOUND, ep1)
         else run_op (\<lambda>b.
           if f = 0 \<and> ep_id (nd_eps (bs_node b) ! the ep1) = f
           then ret_op (Some m, EN_ATBUS_ERR_ATNODE_SRC_DST_IS_SAME, ep1)
           else bind_op (SendMessage E conn1 (Some (n b))) (\<lambda>(om, r). ret_op (om, r, ep1))))"
    have "bind_op (get_peer_channel (\<lambda>from peer n. GetDataConnection from peer True n) (Some (SetBlacklist [f] CreateNodeGetPeerOptions)) t) G b
        = Some (Returns ((om, r, ep), b'))"
      using assms False unfolding forwardDataMessage_def Let_def n_def G_def option.sel by (simp add: run_op_def)
    then obtain x b1 where "G x b1 = Some (Returns ((om, r, ep), b'))" unfolding bind_op_Returns by blast
    then obtain r1 ep1 conn1 where rest: "G (r1, ep1, conn1) b1 = Some (Returns ((om, r, ep), b'))" by (cases x) auto
    consider "om = Some m" | c where "conn1 = Some c" "\<exists>r b2. SendMessage E (Some c) (Some (n b1)) b1 = Some (Returns ((om, r), b2))"
      using rest by (auto simp: G_def run_op_def ret_op_def bind_op_Returns split: if_splits)
    then show ?thesis
    proof cases
      case (2 c)
      then show ?thesis using SendMessage_body [of E c "n b1" b1] n by metis
    qed simp
  qed
  then show ?thesis using that by blast
qed

subsection \<open>Transfers\<close>

lemma retry_upstream_cases:
  assumes "retry_upstream E om from res toEp b = Some (Returns ((om', r), b'))"
  shows "(om', b') = (om, b) \<or> (\<exists>f t r ep. forwardDataMessage E om f t b = Some (Returns ((om', r, ep), b')))"
proof -
  define via where "via = run_op (\<lambda>b.
      case nd_upstream (bs_node b) of
        None \<Rightarrow> ret_op (om, res)
      | Some u \<Rightarrow>
          if (case toEp of None \<Rightarrow> False | Some e \<Rightarrow> ep_id (nd_eps (bs_node b) ! u) = ep_id (nd_eps (bs_node b) ! e)) \<or> from = ep_id (nd_eps (bs_node b) ! u)
          then ret_op (om, res)
          else bind_op (forwardDataMessage E om from (ep_id (nd_eps (bs_node b) ! u))) (\<lambda>(om, r, _). ret_op (om, r)))"
  have v: "(om', b') = (om, b) \<or> (\<exists>f t r ep. forwardDataMessage E om f t b = Some (Returns ((om', r, ep), b')))" if "via b = Some (Returns ((om', r), b'))"
    using that by (auto simp: via_def run_op_def ret_op_def bind_op_Returns split: option.splits if_splits)
  show ?thesis
    using assms v unfolding retry_upstream_def Let_def via_def [symmetric]
    by (auto simp: ret_op_def split: option.splits if_splits prod.splits)
qed

definition transfer_here :: "('p, 'c) Bus \<Rightarrow> nat \<Rightarrow> message_head \<Rightarrow> forward_data \<Rightarrow> bool" where
  "transfer_here b c head d \<longleftrightarrow> ProtocolMinimalVersion (conf_of b) \<le> mh_version head \<and> cn_status (conn_of b c) = ConnectionState_Connected
     \<and> fd_to d = Node_GetId (bs_node b)"

lemma leaves_answer:
  assumes "links b1 = links b" and "ep_ref b (nd_self (bs_node b))" and "msg_body m = Some (BodyDataTransformReq d)" and "fd_from d \<noteq> Node_GetId (bs_node b)"
  shows "leaves b (SendTransferResponse E D m code) b1"
  by (rule leaves_SendTransferResponse [OF assms(1,2), where body = "BodyDataTransformReq d" and d = d]) (simp_all add: GetBody_def assms(3,4))

text \<open>A transfer that is passed on leaves the application alone, whether or not it finds a way.\<close>

lemma forward_leaves:
  assumes "ep_ref b (nd_self (bs_node b))" and "msg_body m = Some (BodyDataTransformReq d)" and "fd_from d \<noteq> Node_GetId (bs_node b)"
    and run: "bind_op (forwardDataMessage E (Some m) f t) (\<lambda>(om, r, toEp). bind_op (retry_upstream E om f r toEp) (\<lambda>(om, r).
        if r \<noteq> EN_ATBUS_ERR_SUCCESS \<or> response then SendTransferResponse E D (the om) r else ret_op r)) b = Some (Returns (x, b'))"
  shows "links b' = links b"
proof -
  define A where "A = (\<lambda>(om, r). if r \<noteq> EN_ATBUS_ERR_SUCCESS \<or> response then SendTransferResponse E D (the om) r else ret_op r)"
  obtain y b1 where f1: "forwardDataMessage E (Some m) f t b = Some (Returns (y, b1))"
    and f2: "(case y of (om, r, toEp) \<Rightarrow> bind_op (retry_upstream E om f r toEp) A) b1 = Some (Returns (x, b'))"
    using run unfolding A_def [symmetric] bind_op_Returns by blast
  obtain om r ep where y: "y = (om, r, ep)" by (cases y)
  obtain z b2 where f3: "retry_upstream E om f r ep b1 = Some (Returns (z, b2))" and f4: "A z b2 = Some (Returns (x, b'))"
    using f2 unfolding y prod.case bind_op_Returns by blast
  obtain om' r' where z: "z = (om', r')" by (cases z)
  have l1: "links b1 = links b" by (rule leavesD [OF leaves_forwardDataMessage [OF refl] f1])
  obtain m1 where m1: "om = Some m1" "msg_body m1 = msg_body m" by (rule forwardDataMessage_body [OF f1 [unfolded y]])
  have "links b2 = links b \<and> (\<exists>m2. om' = Some m2 \<and> msg_body m2 = msg_body m)"
    using retry_upstream_cases [OF f3 [unfolded z]]
  proof
    assume "(om', b2) = (om, b1)"
    then show ?thesis using l1 m1 by simp
  next
    assume "\<exists>f t r ep. forwardDataMessage E om f t b1 = Some (Returns ((om', r, ep), b2))"
    then obtain f t r ep where g: "forwardDataMessage E (Some m1) f t b1 = Some (Returns ((om', r, ep), b2))" unfolding m1(1) by blast
    have "links b2 = links b" by (rule leavesD [OF leaves_forwardDataMessage [OF l1] g])
    then show ?thesis using m1(2) by (metis forwardDataMessage_body [OF g])
  qed
  then obtain m2 where l2: "links b2 = links b" and m2: "om' = Some m2" "msg_body m2 = msg_body m" by blast
  have "leaves b (A z) b2"
    unfolding A_def z prod.case m2 option.sel
    by (intro leaves_intros leaves_answer [OF l2 assms(1) _ assms(3)] l2) (simp add: m2 assms(2))
  then show ?thesis using f4 by (rule leavesD)
qed

text \<open>C6: 
  A transfer that arrives on a connection from another node reaches the application exactly once when it speaks a supported version,
  the connection is connected and it is addressed to this node, and in no other case; the event carries the message as it came, its
  content and the endpoint the connection is bound to.
\<close>

theorem transfer_delivered_once:
  assumes self: "ep_ref b (nd_self (bs_node b))" and m: "msg_head m = Some head" "msg_body m = Some (BodyDataTransformReq d)"
    and sender: "fd_from d \<noteq> Node_GetId (bs_node b)"
    and run: "onRecvDataTransferReq E D (Some c) m b = Some (Returns (r, b'))"
  shows "events_of b' = events_of b @
    (if transfer_here b c head d then [OnForwardRequest (cn_binding (conn_of b c)) (Some c) m (fd_content d)] else [])"
proof -
  have bt: "GetBodyType (Some m) = MessageBodyTypeDataTransformReq" "is_data_body MessageBodyTypeDataTransformReq" "GetBody (Some m) = Some (BodyDataTransformReq d)"
    using m(2) by (simp_all add: GetBodyType_def GetBody_def is_data_body_def)
  note u = onRecvDataTransferReq_def [of E D "Some c" m, unfolded bt(1,3) m(1) option.case forward_of.simps prod.case]
  have same: "events_of b' = events_of b" if "leaves b (n :: ('a, 'b, 'z) op) b" "n b = Some (Returns (y, b'))" for n y
    by (rule links_events [OF leavesD [OF that]])
  note answer = leaves_answer [OF _ self m(2) sender]
  consider (version) "mh_version head < ProtocolMinimalVersion (conf_of b)"
    | (source) "\<not> mh_version head < ProtocolMinimalVersion (conf_of b)" "cn_status (conn_of b c) \<noteq> ConnectionState_Connected"
    | (here) "\<not> mh_version head < ProtocolMinimalVersion (conf_of b)" "cn_status (conn_of b c) = ConnectionState_Connected" "fd_to d = Node_GetId (bs_node b)"
    | (pass) "\<not> mh_version head < ProtocolMinimalVersion (conf_of b)" "cn_status (conn_of b c) = ConnectionState_Connected" "fd_to d \<noteq> Node_GetId (bs_node b)"
    by blast
  then show ?thesis
  proof cases
    case version
    have "leaves b (bind_op (fault_op (Some c)) (\<lambda>_. SendTransferResponse E D m EN_ATBUS_ERR_UNSUPPORTED_VERSION)) b"
      by (intro leaves_intros answer) simp_all
    then show ?thesis using same run version bt(2) by (simp add: u run_op_def transfer_here_def)
  next
    case source
    then show ?thesis using run bt(2)
      by (auto simp: u run_op_def transfer_here_def transfer_source_def ret_op_def EN_ATBUS_ERR_NOT_READY_def EN_ATBUS_ERR_SUCCESS_def)
  next
    case here
    define b1 where "b1 = with_event (OnForwardRequest (cn_binding (conn_of b c)) (Some c) m (fd_content d)) b"
    have b1: "ep_ref b1 (nd_self (bs_node b1))" "Node_GetId (bs_node b1) = Node_GetId (bs_node b)"
      using self by (simp_all add: b1_def log_event_def ep_ref_def Node_GetId_def split: option.split)
    have "(if requires_response d then SendTransferResponse E D m EN_ATBUS_ERR_SUCCESS else ret_op EN_ATBUS_ERR_SUCCESS) b1 = Some (Returns (r, b'))"
    proof -
      have "OnReceiveData (getConnectionBinding b (Some c)) (Some c) m (fd_content d) b = Some (Returns ((), b1))"
        by (simp add: OnReceiveData_def run_op_def Let_def getConnectionBinding_def event_op_eq b1_def)
      then show ?thesis using run here bt(2) by (simp add: u run_op_def transfer_source_def bind_op_def)
    qed
    moreover have "leaves b1 (if requires_response d then SendTransferResponse E D m EN_ATBUS_ERR_SUCCESS else ret_op EN_ATBUS_ERR_SUCCESS) b1"
      by (intro leaves_intros leaves_answer [OF _ b1(1) m(2)]) (simp_all add: b1(2) sender)
    ultimately have "events_of b' = events_of b1" by (metis links_events leavesD)
    then show ?thesis using here by (simp add: b1_def transfer_here_def)
  next
    case pass
    define d' where "d' = AppendRouter (Node_GetId (bs_node b)) d"
    have d': "fd_from d' = fd_from d" by (simp add: d'_def AppendRouter_def)
    consider "TTL (conf_of b) \<le> int (length (fd_router d))" | "\<not> TTL (conf_of b) \<le> int (length (fd_router d))" by blast
    then have "links b' = links b"
    proof cases
      case 1
      then show ?thesis using run pass bt(2) leavesD [OF answer [OF refl]] by (simp add: u run_op_def transfer_source_def)
    next
      case 2
      then show ?thesis
        using run pass bt(2) sender d' by (intro forward_leaves [OF self, of "m\<lparr>msg_body := Some (BodyDataTransformReq d')\<rparr>" d'])
          (simp_all add: u run_op_def transfer_source_def d'_def [symmetric] Let_def)
    qed
    then show ?thesis using pass links_events by (simp add: transfer_here_def)
  qed
qed

subsection \<open>Custom commands\<close>

text \<open>C7: 
  A custom command that arrives on a connection reaches the application exactly once when it speaks a supported version and its
  signature is accepted, and never otherwise.
\<close>

theorem command_needs_signature:
  assumes m: "msg_head m = Some head" "msg_body m = Some (BodyCustomCommandReq d)"
    and run: "onRecvCustomCommandReq E D (Some c) m b = Some (Returns (r, b'))"
  shows "events_of b' = events_of b @
    (if ProtocolMinimalVersion (conf_of b) \<le> mh_version head \<and> command_accepted E d b
     then [OnCustomCommandRequest (cn_binding (conn_of b c)) (Some c) (cc_from d) (cc_commands d)] else [])"
proof -
  have bt: "GetBodyType (Some m) = MessageBodyTypeCustomCommandReq" "is_command_body MessageBodyTypeCustomCommandReq" "GetBody (Some m) = Some (BodyCustomCommandReq d)"
    using m(2) by (simp_all add: GetBodyType_def GetBody_def is_command_body_def)
  note u = onRecvCustomCommandReq_def [of E D "Some c" m, unfolded bt(1,3) m(1) option.case command_of.simps prod.case]
  note answer = leaves_SendCustomCommandResponse
  consider (version) "mh_version head < ProtocolMinimalVersion (conf_of b)"
    | (denied) "\<not> mh_version head < ProtocolMinimalVersion (conf_of b)" "\<not> command_accepted E d b"
    | (accepted) "\<not> mh_version head < ProtocolMinimalVersion (conf_of b)" "command_accepted E d b"
    by blast
  then show ?thesis
  proof cases
    case version
    have "leaves b (bind_op (fault_op (Some c)) (\<lambda>_. SendCustomCommandResponse E D (Some c) x y z sq i)) b" for x y z sq i
      by (intro leaves_intros answer) simp_all
    note same = links_events [OF leavesD [OF this]]
    then show ?thesis using run version bt(2) by (simp add: u run_op_def)
  next
    case denied
    then show ?thesis using links_events [OF leavesD [OF answer [OF refl]]] run bt(2) by (simp add: u run_op_def)
  next
    case accepted
    define b1 where "b1 = (with_event (OnCustomCommandRequest (cn_binding (conn_of b c)) (Some c) (cc_from d) (cc_commands d)) b)\<lparr>bs_calls := Suc (bs_calls b)\<rparr>"
    have ev: "events_of b1 = events_of b @ [OnCustomCommandRequest (cn_binding (conn_of b c)) (Some c) (cc_from d) (cc_commands d)]"
      by (simp add: b1_def events_of_def with_event_def log_event_def)
    have n: "Node_OnCustomCommandRequest E (getConnectionBinding b (Some c)) (Some c) (cc_from d) (cc_commands d) b
        = Some (Returns (en_onCommand E (bs_calls b) (cc_from d) (cc_commands d), b1))"
      by (simp add: Node_OnCustomCommandRequest_def bind_op_def event_op_eq call_op_def ret_op_def b1_def getConnectionBinding_def with_event_def)
    obtain rc rsp where o: "en_onCommand E (bs_calls b) (cc_from d) (cc_commands d) = (rc, rsp)" by (cases "en_onCommand E (bs_calls b) (cc_from d) (cc_commands d)")
    define A where "A = (if IsRunning (conn_of b1 c) \<and> CheckFlag ConnectionFlag_RegFd (conn_of b1 c) \<or> Node_GetId (bs_node b1) = cc_from d
      then SendCustomCommandResponse E D (Some c) rsp (mh_type head) EN_ATBUS_ERR_SUCCESS (mh_sequence head) (cc_from d) else ret_op rc)"
    have A: "A b1 = Some (Returns (r, b'))" using run accepted bt(2) by (simp add: u run_op_def bind_op_def n o A_def)
    have lv: "leaves b1 A b1" unfolding A_def by (intro leaves_intros answer) simp_all
    have "events_of b' = events_of b1" by (rule links_events [OF leavesD [OF lv A]])
    then show ?thesis using accepted ev by simp
  qed
qed

subsection \<open>Registration\<close>

text \<open>
  The context of a new connection has made no key pair, so whatever key exchange it was made for, \<open>SendRegister\<close> makes none either and sends a
  registration without a public key.
\<close>

lemma new_connection_registers_without_key:
  assumes "ctx_of b c = NewConnectionContext kx"
  shows "register_key E bodyType c b = Some (Returns (EN_ATBUS_ERR_SUCCESS, b)) \<and> register_handshake errcode c b = None"
proof -
  have "GetCryptoKeyExchangeAlgorithm (ctx_of b c) = KEY_EXCHANGE_NONE"
    unfolding assms by (simp add: GetCryptoKeyExchangeAlgorithm_def NewConnectionContext_def NewCryptoSession_def Let_def)
  then show ?thesis by (simp add: register_key_def register_handshake_def run_op_def ret_op_def)
qed

lemma links_flags:
  assumes "links b1 = links b" "c < length (nd_conns (bs_node b))"
  shows "CheckFlag f (conn_of b1 c) = CheckFlag f (conn_of b c)"
proof -
  have v: "map (\<lambda>c. (cn_status c, cn_flags c)) (nd_conns (bs_node b1)) = map (\<lambda>c. (cn_status c, cn_flags c)) (nd_conns (bs_node b))"
    using assms(1) unfolding links_def Let_def prod.inject by (elim conjE)
  have l: "c < length (nd_conns (bs_node b1))" using arg_cong [OF v, of length] assms(2) by (simp only: length_map)
  have "cn_flags (nd_conns (bs_node b1) ! c) = cn_flags (nd_conns (bs_node b) ! c)"
    using arg_cong [OF v, of "\<lambda>l. snd (l ! c)"] unfolding nth_map [OF l] nth_map [OF assms(2)] snd_conv .
  then show ?thesis by (simp only: CheckFlag_def conn_of_def)
qed

text \<open>What is left of \<open>onRecvNodeRegisterReq\<close> once the request is refused: the response, and the response again.\<close>

lemma refused_request:
  fixes E :: "('p, 'c) env" and c :: nat
  assumes m: "msg_head m = Some head" "msg_body m = Some (BodyNodeRegisterReq reg)"
    and ok: "ProtocolMinimalVersion (conf_of b) \<le> mh_version head" and bad: "\<not> register_accepted E reg b"
  defines "S \<equiv> SendRegister E MessageBodyTypeNodeRegisterRsp (Some c) EN_ATBUS_ERR_ACCESS_DENY (mh_sequence head)"
  shows "onRecvNodeRegisterReq E (Some c) m b = bind_op S (\<lambda>r.
      if r \<noteq> EN_ATBUS_ERR_SUCCESS then bind_op (reset_conn E c) (\<lambda>_. ret_op r)
      else run_op (\<lambda>b. if CheckFlag ConnectionFlag_RegFd (conn_of b c) then
          bind_op S (\<lambda>r. if r \<noteq> EN_ATBUS_ERR_SUCCESS then bind_op (reset_conn E c) (\<lambda>_. ret_op r)
            else bind_op (Node_OnRegister None (Some c) EN_ATBUS_ERR_SUCCESS) (\<lambda>_. ret_op r))
        else ret_op EN_ATBUS_ERR_SUCCESS)) b"
proof -
  have bt: "GetBodyType (Some m) = MessageBodyTypeNodeRegisterReq" "GetBody (Some m) = Some (BodyNodeRegisterReq reg)"
    using m(2) by (simp_all add: GetBodyType_def GetBody_def)
  have old: "(mh_version head < ProtocolMinimalVersion (conf_of b)) = False" using ok by simp
  have deny: "(EN_ATBUS_ERR_ACCESS_DENY \<noteq> EN_ATBUS_ERR_SUCCESS) = True" by (simp add: EN_ATBUS_ERR_ACCESS_DENY_def EN_ATBUS_ERR_SUCCESS_def)
  have q: "register_request E c reg b = Some (Returns ((EN_ATBUS_ERR_ACCESS_DENY, None), b))" using bad by (simp add: register_request_def run_op_def ret_op_def)
  have first: "bind_op (register_request E c reg) k b = k (EN_ATBUS_ERR_ACCESS_DENY, None) b" for k :: "ErrorType \<times> nat option \<Rightarrow> ('p, 'c, ErrorType) op"
    by (simp only: bind_op_def q option.case outcome.case prod.case)
  have at: "run_op f b = f b b" for f :: "('p, 'c) Bus \<Rightarrow> ('p, 'c, ErrorType) op" by (simp only: run_op_def)
  show ?thesis
    unfolding S_def onRecvNodeRegisterReq_def at
    by (simp only: bt m(1) Let_def option.case register_of.simps prod.case old first deny if_True if_False simp_thms)
qed

lemma reset_then:
  assumes "bind_op (reset_conn E c) (\<lambda>_. ret_op r1) b1 = Some (Returns (r, b'))"
  shows "r = r1 \<and> reset_conn E c b1 = Some (Returns ((), b'))"
  using assms unfolding bind_op_Returns by (auto simp: ret_op_def)

text \<open>C8: 
  A registration request of a supported version whose signature is not accepted. When the handler returns success, the refusal was sent and
  no endpoint, no route, no binding and no topology has changed; on a registered connection the application is nevertheless told of a registration,
  with the code of success. When it returns another code, that is the code of sending the refusal, and the one thing it has done besides is to reset
  the connection the request came on.
\<close>

theorem registration_refused:
  assumes m: "msg_head m = Some head" "msg_body m = Some (BodyNodeRegisterReq reg)"
    and c: "c < length (nd_conns (bs_node b))"
    and ok: "ProtocolMinimalVersion (conf_of b) \<le> mh_version head" and bad: "\<not> register_accepted E reg b"
    and run: "onRecvNodeRegisterReq E (Some c) m b = Some (Returns (r, b'))"
  shows "if r = EN_ATBUS_ERR_SUCCESS
    then links b' = links (if CheckFlag ConnectionFlag_RegFd (conn_of b c) then with_event (OnRegister None (Some c) EN_ATBUS_ERR_SUCCESS) b else b)
    else \<exists>b0 b1. links b0 = links b \<and> links b1 = links b
      \<and> SendRegister E MessageBodyTypeNodeRegisterRsp (Some c) EN_ATBUS_ERR_ACCESS_DENY (mh_sequence head) b0 = Some (Returns (r, b1))
      \<and> reset_conn E c b1 = Some (Returns ((), b'))"
proof -
  define S where "S = SendRegister E MessageBodyTypeNodeRegisterRsp (Some c) EN_ATBUS_ERR_ACCESS_DENY (mh_sequence head)"
  have lS: "leaves b S b1" if "links b1 = links b" for b1 unfolding S_def by (rule leaves_sends(3) [OF that])
  obtain r1 b1 where r1: "S b = Some (Returns (r1, b1))" and tail:
    "(if r1 \<noteq> EN_ATBUS_ERR_SUCCESS then bind_op (reset_conn E c) (\<lambda>_. ret_op r1)
      else run_op (\<lambda>b. if CheckFlag ConnectionFlag_RegFd (conn_of b c) then
          bind_op S (\<lambda>r. if r \<noteq> EN_ATBUS_ERR_SUCCESS then bind_op (reset_conn E c) (\<lambda>_. ret_op r)
            else bind_op (Node_OnRegister None (Some c) EN_ATBUS_ERR_SUCCESS) (\<lambda>_. ret_op r))
        else ret_op EN_ATBUS_ERR_SUCCESS)) b1 = Some (Returns (r, b'))"
    using run unfolding refused_request [OF m ok bad] S_def [symmetric] bind_op_Returns [of S] by (elim exE conjE)
  have l1: "links b1 = links b" by (rule leavesD [OF lS [OF refl] r1])
  have fl: "CheckFlag ConnectionFlag_RegFd (conn_of b1 c) = CheckFlag ConnectionFlag_RegFd (conn_of b c)" by (rule links_flags [OF l1 c])
  show ?thesis
  proof (cases "r1 = EN_ATBUS_ERR_SUCCESS")
    case False
    then have bad1: "r1 \<noteq> EN_ATBUS_ERR_SUCCESS" .
    note reset = reset_then [OF tail [unfolded if_P [OF bad1]]]
    show ?thesis using False reset r1 l1 unfolding S_def by (simp only: if_False) blast
  next
    case True
    then have nb: "\<not> r1 \<noteq> EN_ATBUS_ERR_SUCCESS" by simp
    note rest = tail [unfolded if_not_P [OF nb] run_op_def fl]
    show ?thesis
    proof (cases "CheckFlag ConnectionFlag_RegFd (conn_of b c)")
      case True
      obtain r2 b2 where r2: "S b1 = Some (Returns (r2, b2))" and last:
        "(if r2 \<noteq> EN_ATBUS_ERR_SUCCESS then bind_op (reset_conn E c) (\<lambda>_. ret_op r2)
          else bind_op (Node_OnRegister None (Some c) EN_ATBUS_ERR_SUCCESS) (\<lambda>_. ret_op r2)) b2 = Some (Returns (r, b'))"
        using rest unfolding if_P [OF True] bind_op_Returns [of S] by (elim exE conjE)
      have l2: "links b2 = links b" by (rule leavesD [OF lS [OF l1] r2])
      show ?thesis
      proof (cases "r2 = EN_ATBUS_ERR_SUCCESS")
        case False
        then have bad2: "r2 \<noteq> EN_ATBUS_ERR_SUCCESS" .
        note reset = reset_then [OF last [unfolded if_P [OF bad2]]]
        show ?thesis using False reset r2 l1 l2 unfolding S_def by (simp only: if_False) blast
      next
        case ok2: True
        then have "\<not> r2 \<noteq> EN_ATBUS_ERR_SUCCESS" by simp
        then have b': "r = EN_ATBUS_ERR_SUCCESS" "b' = with_event (OnRegister None (Some c) EN_ATBUS_ERR_SUCCESS) b2"
          using last ok2 by (simp_all add: bind_op_def ret_op_def Node_OnRegister_def event_op_eq)
        show ?thesis using l2 unfolding b' if_P [OF True] by (simp add: links_def Let_def with_event_def log_event_def ids_def)
      qed
    next
      case False
      then show ?thesis using rest unfolding if_not_P [OF False] ret_op_def using l1 by simp
    qed
  qed
qed

subsection \<open>Examples\<close>

abbreviation sample_dispatch :: "(sample_ping, sample_connecting, int) op" where
  "sample_dispatch \<equiv> dispatchSelf sample_env"

lemma sample_message_parts [simp]:
  "msg_head (sample_message body) = Some (zero_message_head\<lparr>mh_version := 3\<rparr>)" "msg_body (sample_message body) = Some body"
  by (simp_all add: sample_message_def)

lemma sample_bus_facts: "events_of sample_bus = []" "cn_binding (conn_of sample_bus 1) = Some 1" "Node_GetId (bs_node sample_bus) = 1"
    "nd_self (bs_node sample_bus) = Some 0" "length (nd_eps (bs_node sample_bus)) = 2" "length (nd_conns (bs_node sample_bus)) = 4"
    "ProtocolMinimalVersion (conf_of sample_bus) = 3" "CheckFlag ConnectionFlag_RegFd (conn_of sample_bus 1)"
    "cn_status (conn_of sample_bus 1) = ConnectionState_Connected"
  by code_simp+

lemma sample_transfer_runs: "answer_of (onRecvDataTransferReq sample_env sample_dispatch (Some 1)
    (sample_message (BodyDataTransformReq (sample_transfer 1))) sample_bus) = Some EN_ATBUS_ERR_SUCCESS"
  by code_simp

lemma sample_command_runs: "answer_of (onRecvCustomCommandReq sample_env sample_dispatch (Some 1)
    (sample_message (BodyCustomCommandReq (sample_command 2))) sample_bus) = Some EN_ATBUS_ERR_SUCCESS"
  by code_simp

lemma sample_register_runs: "answer_of (onRecvNodeRegisterReq sample_env (Some 1) (sample_message (BodyNodeRegisterReq sample_register)) sample_bus)
    = Some EN_ATBUS_ERR_SUCCESS"
  by code_simp

lemma sample_accepted: "command_accepted sample_env (sample_command 2) sample_bus" "\<not> register_accepted sample_env sample_register sample_bus"
  by code_simp+

theorem transfer_delivered_once_witness:
  "\<exists>b'. onRecvDataTransferReq sample_env sample_dispatch (Some 1) (sample_message (BodyDataTransformReq (sample_transfer 1))) sample_bus
        = Some (Returns (EN_ATBUS_ERR_SUCCESS, b'))
      \<and> events_of b' = [OnForwardRequest (Some 1) (Some 1) (sample_message (BodyDataTransformReq (sample_transfer 1))) [42]]"
proof -
  obtain b' where run: "onRecvDataTransferReq sample_env sample_dispatch (Some 1) (sample_message (BodyDataTransformReq (sample_transfer 1))) sample_bus
      = Some (Returns (EN_ATBUS_ERR_SUCCESS, b'))" by (rule answer_ofE [OF sample_transfer_runs])
  have "ep_ref sample_bus (nd_self (bs_node sample_bus))" by (simp add: ep_ref_def below_def sample_bus_facts)
  moreover have "fd_from (sample_transfer 1) \<noteq> Node_GetId (bs_node sample_bus)" by (simp add: sample_bus_facts sample_transfer_def)
  moreover have "transfer_here sample_bus 1 (zero_message_head\<lparr>mh_version := 3\<rparr>) (sample_transfer 1)"
    by (simp add: transfer_here_def sample_bus_facts sample_transfer_def del: One_nat_def)
  ultimately have "events_of b' = [OnForwardRequest (Some 1) (Some 1) (sample_message (BodyDataTransformReq (sample_transfer 1))) (fd_content (sample_transfer 1))]"
    using transfer_delivered_once [OF _ sample_message_parts _ run] by (simp only: sample_bus_facts append_Nil if_True simp_thms)
  then have "events_of b' = [OnForwardRequest (Some 1) (Some 1) (sample_message (BodyDataTransformReq (sample_transfer 1))) [42]]"
    by (simp only:) (simp add: sample_transfer_def)
  with run show ?thesis by (intro exI conjI)
qed

theorem command_needs_signature_witness:
  "\<exists>b'. onRecvCustomCommandReq sample_env sample_dispatch (Some 1) (sample_message (BodyCustomCommandReq (sample_command 2))) sample_bus
        = Some (Returns (EN_ATBUS_ERR_SUCCESS, b'))
      \<and> events_of b' = [OnCustomCommandRequest (Some 1) (Some 1) 2 [[1], [2]]]"
proof -
  obtain b' where run: "onRecvCustomCommandReq sample_env sample_dispatch (Some 1) (sample_message (BodyCustomCommandReq (sample_command 2))) sample_bus
      = Some (Returns (EN_ATBUS_ERR_SUCCESS, b'))" by (rule answer_ofE [OF sample_command_runs])
  have "events_of b' = [OnCustomCommandRequest (Some 1) (Some 1) (cc_from (sample_command 2)) (cc_commands (sample_command 2))]"
    using command_needs_signature [OF sample_message_parts run] sample_accepted(1) by (simp add: sample_bus_facts del: One_nat_def)
  then have "events_of b' = [OnCustomCommandRequest (Some 1) (Some 1) 2 [[1], [2]]]" by (simp add: sample_command_def)
  with run show ?thesis by (intro exI conjI)
qed

theorem registration_refused_witness:
  "\<exists>b'. onRecvNodeRegisterReq sample_env (Some 1) (sample_message (BodyNodeRegisterReq sample_register)) sample_bus
        = Some (Returns (EN_ATBUS_ERR_SUCCESS, b'))
      \<and> links b' = links (with_event (OnRegister None (Some 1) EN_ATBUS_ERR_SUCCESS) sample_bus)"
proof -
  obtain b' where run: "onRecvNodeRegisterReq sample_env (Some 1) (sample_message (BodyNodeRegisterReq sample_register)) sample_bus
      = Some (Returns (EN_ATBUS_ERR_SUCCESS, b'))" by (rule answer_ofE [OF sample_register_runs])
  have "1 < length (nd_conns (bs_node sample_bus))" "ProtocolMinimalVersion (conf_of sample_bus) \<le> mh_version (zero_message_head\<lparr>mh_version := 3\<rparr>)"
    by (simp_all add: sample_bus_facts)
  note r = registration_refused [OF sample_message_parts this sample_accepted(2) run]
  show ?thesis by (intro exI conjI, rule run, rule r [unfolded if_P [OF sample_bus_facts(8)] if_P [OF refl]])
qed

end
