(* ===== verification/Self_Command.thy ===== *)
theory Self_Command
  imports Bus_Invariant Bus_Sample
begin

unbundle bit_operations_syntax

section \<open>Commands of a node to itself\<close>

text \<open>
  The way of a custom command that a node sends to its own id: it is signed, put into the queue of the node, taken out by
  \<open>dispatchAllSelfMessages\<close> and handled without a connection; the response goes into the same queue and is handled in the next round.
\<close>

subsection \<open>Operations that return\<close>

definition returning :: "('p, 'c, 'a) op \<Rightarrow> ('p, 'c) Bus \<Rightarrow> ('a \<Rightarrow> ('p, 'c) Bus \<Rightarrow> bool) \<Rightarrow> bool" where
  "returning m b Q \<longleftrightarrow> (\<exists>x b1. m b = Some (Returns (x, b1)) \<and> Q x b1)"

lemma returning_bind: "returning m b P \<Longrightarrow> (\<And>x b1. P x b1 \<Longrightarrow> returning (f x) b1 Q) \<Longrightarrow> returning (bind_op m f) b Q"
  unfolding returning_def by (auto simp: bind_op_def)

lemma panics_after: "returning m b P \<Longrightarrow> (\<And>x b1. P x b1 \<Longrightarrow> f x b1 = Some Panics) \<Longrightarrow> bind_op m f b = Some Panics"
  unfolding returning_def by (auto simp: bind_op_def)

lemma panics_first: "m b = Some Panics \<Longrightarrow> bind_op m f b = Some Panics"
  by (simp add: bind_op_def)

lemma returning_mono: "returning m b P \<Longrightarrow> (\<And>x b1. P x b1 \<Longrightarrow> Q x b1) \<Longrightarrow> returning m b Q"
  unfolding returning_def by blast

lemma returning_ret: "Q x b \<Longrightarrow> returning (ret_op x) b Q"
  by (simp add: returning_def ret_op_def)

lemma returning_run: "returning (f b) b Q \<Longrightarrow> returning (run_op f) b Q"
  by (simp add: returning_def run_op_def)

lemma returning_modify: "Q () (f b) \<Longrightarrow> returning (modify_op f) b Q"
  by (simp add: returning_def modify_op_def)

text \<open>What the way of the command depends on: the id, the configuration, the state and the flags of the node, and its queues.\<close>

definition desk :: "('p, 'c) Bus \<Rightarrow> BusIdType \<times> NodeConfigure \<times> NodeState \<times> 16 word \<times> Message list" where
  "desk b = (Node_GetId (bs_node b), conf_of b, nd_state (bs_node b), nd_flags (bs_node b), bs_selfData b)"

lemma desk_eq:
  assumes "desk b' = desk b"
  shows "Node_GetId (bs_node b') = Node_GetId (bs_node b)" "conf_of b' = conf_of b" "nd_state (bs_node b') = nd_state (bs_node b)"
    "nd_flags (bs_node b') = nd_flags (bs_node b)" "bs_selfData b' = bs_selfData b"
  using assms by (simp_all add: desk_def)

lemma desk_upd [simp]:
  "desk (b\<lparr>bs_calls := k\<rparr>) = desk b" "desk (b\<lparr>bs_dispatchTimes := d\<rparr>) = desk b" "desk (b\<lparr>bs_selfCommand := q\<rparr>) = desk b"
  "desk (b\<lparr>bs_node := log_event ev (bs_node b)\<rparr>) = desk b"
  by (simp_all add: desk_def conf_of_def Node_GetId_def log_event_def split: option.split)

abbreviation keeping :: "('p, 'c) Bus \<Rightarrow> Message list \<Rightarrow> ('p, 'c) Bus \<Rightarrow> bool" where
  "keeping b q b1 \<equiv> desk b1 = desk b \<and> bs_selfCommand b1 = q"

lemma sign_keeps: "returning (sign_op E f) b (\<lambda>_. keeping b (bs_selfCommand b))"
  by (simp add: returning_def sign_op_def bind_op_def call_op_def ret_op_def)

lemma sequence_keeps: "returning (node_run AllocateMessageSequence) b (\<lambda>_. keeping b (bs_selfCommand b))"
  by (simp add: returning_def node_run_def AllocateMessageSequence_def Let_def desk_def conf_of_def Node_GetId_def split: option.split)

lemma sequence_of_keeps: "returning (sequence_of options) b (\<lambda>_. keeping b (bs_selfCommand b))"
  unfolding sequence_of_def by (auto intro!: returning_bind [OF sequence_keeps] returning_ret)

lemma event_call_keeps:
  "returning (bind_op (event_op ev) (\<lambda>_. bind_op call_op (\<lambda>t. ret_op (f t)))) b (\<lambda>x b1. keeping b (bs_selfCommand b) b1 \<and> x = f (bs_calls b))"
  by (simp add: returning_def event_op_def node_op_def modify_op_def call_op_def ret_op_def bind_op_def)

subsection \<open>Messages in the queue\<close>

definition own_request :: "BusIdType \<Rightarrow> Message \<Rightarrow> bool" where
  "own_request i m \<longleftrightarrow> (\<exists>h d. msg_head m = Some h \<and> msg_body m = Some (BodyCustomCommandReq d) \<and> mh_source_bus_id h = i \<and> cc_from d = i)"

definition own_response :: "BusIdType \<Rightarrow> Message \<Rightarrow> bool" where
  "own_response i m \<longleftrightarrow> (\<exists>h d. msg_head m = Some h \<and> msg_body m = Some (BodyCustomCommandRsp d) \<and> cc_from d = i)"

lemma ensure_sequence_keeps:
  assumes "msg_head m = Some h"
  shows "returning (ensure_sequence m h) b (\<lambda>m' b1. keeping b (bs_selfCommand b) b1 \<and> msg_body m' = msg_body m
    \<and> (\<exists>sq. msg_head m' = Some (h\<lparr>mh_sequence := sq\<rparr>)))"
proof (cases "mh_sequence h = 0")
  case True
  then show ?thesis unfolding ensure_sequence_def by (auto intro!: returning_bind [OF sequence_keeps] returning_ret)
next
  case False
  have "\<exists>sq. Some h = Some (h\<lparr>mh_sequence := sq\<rparr>)" by (rule exI [of _ "mh_sequence h"]) simp
  with False assms show ?thesis by (simp add: ensure_sequence_def returning_ret)
qed

text \<open>A command to the node itself is put at the end of the queue, and the dispatcher is called.\<close>

lemma send_self_queues:
  assumes m: "msg_head m = Some h" "msg_body m = Some body" and cmd: "is_command_body (oneof_case body)"
  shows "\<exists>m' sq b2. msg_head m' = Some (h\<lparr>mh_sequence := sq\<rparr>) \<and> msg_body m' = Some body \<and> keeping b (bs_selfCommand b @ [m']) b2
    \<and> send_self D m b = bind_op D (\<lambda>_. ret_op (EN_ATBUS_ERR_SUCCESS, None, None)) b2"
proof -
  obtain m' b1 sq where e: "ensure_sequence m h b = Some (Returns (m', b1))" "keeping b (bs_selfCommand b) b1" "msg_body m' = Some body"
      "msg_head m' = Some (h\<lparr>mh_sequence := sq\<rparr>)"
    using ensure_sequence_keeps [OF m(1), of b] m(2) by (auto simp: returning_def)
  have bt: "GetBodyType (Some m) = oneof_case body" "GetBodyType (Some m') = oneof_case body"
    using m(2) e(3) by (simp_all add: GetBodyType_def GetBody_def)
  have kind: "\<not> is_data_body (oneof_case body)" "oneof_case body \<noteq> MessageBodyTypeUnknown"
    using cmd by (auto simp: is_command_body_def is_data_body_def)
  let ?b = "b1\<lparr>bs_selfCommand := bs_selfCommand b1 @ [m']\<rparr>"
  have "send_self D m b = bind_op D (\<lambda>_. ret_op (EN_ATBUS_ERR_SUCCESS, None, None)) ?b"
    by (simp add: send_self_def m(1) bt kind cmd e(1) bind_op_def modify_op_def Let_def)
  moreover have "keeping b (bs_selfCommand b @ [m']) ?b" using e(2) by simp
  ultimately show ?thesis using e(3,4) by blast
qed

text \<open>While a message is dispatched, the dispatcher only returns.\<close>

lemma dispatch_nested:
  "Node_CheckFlag NodeFlag_RecvSelfMsg (bs_node b) \<Longrightarrow> dispatchAllSelfMessages E (Suc d) b = Some (Returns (0, b))"
  by (simp add: run_op_def ret_op_def)

text \<open>The handlers in these states: the node runs and dispatches.\<close>

definition dispatching :: "('p, 'c) Bus \<Rightarrow> bool" where
  "dispatching b \<longleftrightarrow> nd_state (bs_node b) \<noteq> NodeState_Created \<and> Node_CheckFlag NodeFlag_RecvSelfMsg (bs_node b)"

lemma dispatching_desk: "desk b' = desk b \<Longrightarrow> dispatching b' = dispatching b"
  using desk_eq [of b' b] by (simp add: dispatching_def Node_CheckFlag_def)

abbreviation answered :: "('p, 'c) Bus \<Rightarrow> ErrorType \<Rightarrow> ('p, 'c) Bus \<Rightarrow> bool" where
  "answered b r b1 \<equiv> r = EN_ATBUS_ERR_SUCCESS \<and> (\<exists>m. own_response (Node_GetId (bs_node b)) m \<and> keeping b (bs_selfCommand b @ [m]) b1)"

lemma response_queued:
  assumes "dispatching b"
  shows "returning (SendCustomCommandResponse E (dispatchAllSelfMessages E (Suc d)) None rsp t code sq (Node_GetId (bs_node b))) b (answered b)"
proof -
  let ?D = "dispatchAllSelfMessages E (Suc d)" and ?i = "Node_GetId (bs_node b)"
  have queue: "returning (send_self ?D m) b1 (\<lambda>(r, _). answered b r)" if m: "own_response ?i m" and k: "keeping b (bs_selfCommand b) b1" for m b1
  proof -
    obtain h c where h: "msg_head m = Some h" "msg_body m = Some (BodyCustomCommandRsp c)" "cc_from c = ?i" using m by (auto simp: own_response_def)
    obtain m' s b2 where m': "msg_head m' = Some (h\<lparr>mh_sequence := s\<rparr>)" "msg_body m' = Some (BodyCustomCommandRsp c)"
        "keeping b1 (bs_selfCommand b1 @ [m']) b2" "send_self ?D m b1 = bind_op ?D (\<lambda>_. ret_op (EN_ATBUS_ERR_SUCCESS, None, None)) b2"
      using send_self_queues [OF h(1,2), where D = ?D and b = b1] by (auto simp: is_command_body_def)
    have "dispatching b2" using assms dispatching_desk [of b2 b] k m'(3) by simp
    then have "send_self ?D m b1 = Some (Returns ((EN_ATBUS_ERR_SUCCESS, None, None), b2))"
      unfolding m'(4) bind_op_def by (simp add: dispatching_def dispatch_nested ret_op_def del: dispatchAllSelfMessages.simps)
    moreover have "own_response ?i m'" using m' h by (auto simp: own_response_def)
    ultimately show ?thesis using k m'(3) by (auto simp: returning_def)
  qed
  show ?thesis
    unfolding SendCustomCommandResponse_def Let_def option.case
  proof (rule returning_run, rule returning_bind [OF sign_keeps])
    fix ad b1 assume k: "keeping b (bs_selfCommand b) b1"
    have st: "nd_state (bs_node b1) \<noteq> NodeState_Created" "Node_GetId (bs_node b1) = ?i" using assms desk_eq [of b1 b] k by (simp_all add: dispatching_def)
    show "returning (bind_op (SendCtrlMessage E ?D ?i (NewMessage\<lparr>msg_head := Some (zero_message_head\<lparr>mh_version := ProtocolVersion (conf_of b),
          mh_sequence := sq, mh_source_bus_id := ?i, mh_result_code := code, mh_type := t\<rparr>),
          msg_body := Some (BodyCustomCommandRsp (\<lparr>cc_from = ?i, cc_commands = rsp, cc_access_key = None\<rparr>\<lparr>cc_access_key := ad\<rparr>))\<rparr>) None)
        (\<lambda>(r, _, _). ret_op r)) b1 (answered b)"
      unfolding SendCtrlMessage_def Node_sendMessage_def
      by (rule returning_bind, rule returning_run, simp only: st(2) if_not_P [OF st(1)] if_True simp_thms, rule queue [OF _ k])
        (auto simp: own_response_def intro: returning_ret)
  qed
qed

subsection \<open>The two rounds\<close>

text \<open>Whatever the handler of the request decides, it answers; the response is then the only message of the queue.\<close>

lemma request_answered:
  assumes "dispatching b" and m: "own_request (Node_GetId (bs_node b)) m"
  shows "returning (onRecvCustomCommandReq E (dispatchAllSelfMessages E (Suc d)) None m) b (answered b)"
proof -
  obtain h c where h: "msg_head m = Some h" "msg_body m = Some (BodyCustomCommandReq c)" "mh_source_bus_id h = Node_GetId (bs_node b)"
      "cc_from c = Node_GetId (bs_node b)" using m by (auto simp: own_request_def)
  have bt: "is_command_body (GetBodyType (Some m))" "GetBody (Some m) = Some (BodyCustomCommandReq c)"
    using h(2) by (simp_all add: GetBodyType_def GetBody_def is_command_body_def)
  note answer = response_queued [OF assms(1), where E = E and d = d]
  have called: "returning (bind_op (Node_OnCustomCommandRequest E ep None frm argv) (\<lambda>(r, rsp). run_op (\<lambda>b'.
      if Node_GetId (bs_node b') = Node_GetId (bs_node b)
      then SendCustomCommandResponse E (dispatchAllSelfMessages E (Suc d)) None rsp t code sq (Node_GetId (bs_node b)) else ret_op r))) b (answered b)"
    for ep frm argv t code sq
    unfolding Node_OnCustomCommandRequest_def
  proof (rule returning_bind [OF event_call_keeps])
    fix x b1 assume k: "keeping b (bs_selfCommand b) b1 \<and> x = en_onCommand E (bs_calls b) frm argv"
    have same: "dispatching b1" "Node_GetId (bs_node b1) = Node_GetId (bs_node b)"
      using assms(1) dispatching_desk [of b1 b] desk_eq(1) [of b1 b] k by simp_all
    show "returning (case x of (r, rsp) \<Rightarrow> run_op (\<lambda>b'. if Node_GetId (bs_node b') = Node_GetId (bs_node b)
        then SendCustomCommandResponse E (dispatchAllSelfMessages E (Suc d)) None rsp t code sq (Node_GetId (bs_node b)) else ret_op r)) b1 (answered b)"
      using response_queued [OF same(1), where E = E and d = d] k same(2)
      by (auto simp: returning_def run_op_def split: prod.split simp del: dispatchAllSelfMessages.simps)
  qed
  have old: "returning (bind_op (fault_op None) (\<lambda>_. SendCustomCommandResponse E (dispatchAllSelfMessages E (Suc d)) None rsp t code sq
      (Node_GetId (bs_node b)))) b (answered b)" for rsp t code sq
    using answer by (simp add: fault_op_def returning_def bind_op_def ret_op_def del: dispatchAllSelfMessages.simps)
  show ?thesis
    unfolding onRecvCustomCommandReq_def
    by (rule returning_run)
      (simp add: h bt getConnectionBinding_def answer old del: dispatchAllSelfMessages.simps, unfold h(4), intro impI, rule called)
qed

lemma command_types:
  "own_request i m \<Longrightarrow> \<not> (msg_head m = None \<or> GetBodyType (Some m) = MessageBodyTypeUnknown)"
  "own_response i m \<Longrightarrow> \<not> (msg_head m = None \<or> GetBodyType (Some m) = MessageBodyTypeUnknown)"
  by (auto simp: own_request_def own_response_def GetBodyType_def GetBody_def)

lemma request_round:
  assumes "dispatching b" and m: "own_request (Node_GetId (bs_node b)) m" and q: "bs_selfCommand b = [m]"
  shows "returning (dispatch_command E (dispatchAllSelfMessages E (Suc d))) b
    (\<lambda>_ b1. \<exists>m'. own_response (Node_GetId (bs_node b)) m' \<and> keeping b [m'] b1)"
proof -
  let ?D = "dispatchAllSelfMessages E (Suc d)" and ?b = "b\<lparr>bs_selfCommand := []\<rparr>"
  let ?b1 = "?b\<lparr>bs_dispatchTimes := bs_dispatchTimes b + 1\<rparr>"
  obtain h c where h: "msg_head m = Some h" "GetBodyType (Some m) = MessageBodyTypeCustomCommandReq"
    using m by (auto simp: own_request_def GetBodyType_def GetBody_def)
  have d: "dispatching ?b1" using assms(1) dispatching_desk [of ?b1 b] by simp
  obtain m' b2 where r: "onRecvCustomCommandReq E ?D None m ?b1 = Some (Returns (EN_ATBUS_ERR_SUCCESS, b2))" "own_response (Node_GetId (bs_node b)) m'"
      "keeping b [m'] b2"
    using request_answered [OF d, of m E d] m by (auto simp: returning_def simp del: dispatchAllSelfMessages.simps)
  have "onReceiveMessage E ?D None m 0 EN_ATBUS_ERR_SUCCESS ?b = Some (Returns ((), b2))"
    by (simp add: onReceiveMessage_def DispatchMessage_def h r(1) bind_op_def modify_op_def ret_op_def EN_ATBUS_ERR_SUCCESS_def del: dispatchAllSelfMessages.simps)
  then show ?thesis
    using r(2,3) command_types(1) [OF m]
    by (auto simp: returning_def dispatch_command_def run_op_def q bind_op_def modify_op_def ret_op_def simp del: dispatchAllSelfMessages.simps)
qed

lemma response_round:
  assumes m: "own_response (Node_GetId (bs_node b)) m" and q: "bs_selfCommand b = [m]"
    and code: "\<And>t argv sq. en_onCommandResponse E t (Node_GetId (bs_node b)) argv sq < 0"
  shows "dispatch_command E D b = Some Panics"
proof -
  obtain h c where h: "msg_head m = Some h" "msg_body m = Some (BodyCustomCommandRsp c)" "cc_from c = Node_GetId (bs_node b)"
    using m by (auto simp: own_response_def)
  have bt: "GetBodyType (Some m) = MessageBodyTypeCustomCommandRsp" "is_command_body MessageBodyTypeCustomCommandRsp" "GetBody (Some m) = Some (BodyCustomCommandRsp c)"
    using h(2) by (simp_all add: GetBodyType_def GetBody_def is_command_body_def)
  show ?thesis
    using code
    by (simp add: dispatch_command_def onReceiveMessage_def DispatchMessage_def q h bt onRecvCustomCommandRsp_def bind_op_def modify_op_def run_op_def
        Node_OnCustomCommandResponse_def event_op_def node_op_def call_op_def ret_op_def receive_fault_def panic_op_def EN_ATBUS_ERR_SUCCESS_def)
qed

text \<open>A node that is idle: it runs, dispatches nothing, is in no callback, and its queues are empty; a dispatch has at least two rounds.\<close>

definition idle :: "('p, 'c) Bus \<Rightarrow> bool" where
  "idle b \<longleftrightarrow> nd_state (bs_node b) \<noteq> NodeState_Created \<and> \<not> Node_CheckFlag NodeFlag_RecvSelfMsg (bs_node b)
     \<and> \<not> Node_CheckFlag NodeFlag_InCallback (bs_node b) \<and> bs_selfData b = [] \<and> bs_selfCommand b = [] \<and> LoopTimes (conf_of b) \<noteq> 1"

lemma dispatch_own_request:
  assumes b: "idle b" and k: "keeping b [m] b1" and m: "own_request (Node_GetId (bs_node b)) m"
    and code: "\<And>t argv sq. en_onCommandResponse E t (Node_GetId (bs_node b)) argv sq < 0"
  shows "dispatchAllSelfMessages E (Suc (Suc d)) b1 = Some Panics"
proof -
  define D where "D = dispatchAllSelfMessages E (Suc d)"
  define n where "n = (if LoopTimes (conf_of b) \<le> 0 then 10240 else nat (LoopTimes (conf_of b)))"
  have "2 \<le> n" using b by (auto simp: n_def idle_def)
  then obtain j where n: "n = Suc (Suc j)" by (metis add_2_eq_Suc le_Suc_ex)
  let ?b = "b1\<lparr>bs_node := (bs_node b1)\<lparr>nd_flags := nd_flags (bs_node b1) OR NodeFlag_RecvSelfMsg\<rparr>\<rparr>"
  note same = desk_eq [OF conjunct1 [OF k]]
  have "receiving (bs_node ?b)" using receiving_set(1) [of "bs_node b1"] by simp
  then have disp: "dispatching ?b" using b same by (simp add: dispatching_def receiving_def idle_def)
  have id: "Node_GetId (bs_node ?b) = Node_GetId (bs_node b)" using same(1) by (simp add: Node_GetId_def split: option.splits)
  have q: "bs_selfCommand ?b = [m]" "bs_selfData ?b = []" using k same b by (simp_all add: idle_def)
  obtain x b2 m' where first: "dispatch_command E D ?b = Some (Returns (x, b2))" "own_response (Node_GetId (bs_node b)) m'" "keeping ?b [m'] b2"
    using request_round [OF disp _ q(1), of E d] m unfolding id D_def [symmetric] returning_def by blast
  have "Node_GetId (bs_node b2) = Node_GetId (bs_node b)" using desk_eq(1) [OF conjunct1 [OF first(3)]] id by simp
  then have second: "dispatch_command E D b2 = Some Panics" using response_round [of b2 m' E D] first(2,3) code by simp
  have "dispatch_loop (\<lambda>b. bs_selfCommand b \<noteq> []) (dispatch_command E D) n r ?b = Some Panics" for r
    using first(3) q(1) by (simp add: n run_op_def bind_op_def first(1) second)
  moreover have "dispatch_loop (\<lambda>b. bs_selfData b \<noteq> []) dispatch_data n 0 ?b = Some (Returns ((n, 0), ?b))"
    using q(2) by (simp add: n run_op_def ret_op_def)
  moreover have "\<not> (Node_CheckFlag NodeFlag_RecvSelfMsg (bs_node b1) \<or> Node_CheckFlag NodeFlag_InCallback (bs_node b1))"
    using b same(4) by (simp add: idle_def Node_CheckFlag_def)
  ultimately show ?thesis
    unfolding dispatchAllSelfMessages.simps(2) [of E "Suc d"] D_def [symmetric] run_op_def same(2) n_def [symmetric] Let_def
    by (simp add: bind_op_def node_op_def modify_op_def)
qed

text \<open>C9: 
  An idle node that sends a custom command to its own id panics, whatever the command is and however the application answers it,
  when the handler the application has set for responses returns negative codes: the command is queued and dispatched, its response is
  queued and dispatched, and the fault of the response is counted on a connection that does not exist.
\<close>

theorem self_command_response_panics:
  assumes "idle b" and "sum_list (map (\<lambda>a. word_of_nat (length a)) args) \<le> MessageSize (conf_of b)"
    and code: "\<forall>t argv sq. en_onCommandResponse E t (Node_GetId (bs_node b)) argv sq < 0"
  shows "SendCustomCommandWithOptions E (Node_GetId (bs_node b)) args options b = Some Panics"
proof -
  have limits: "\<not> nd_state (bs_node b) = NodeState_Created" "\<not> MessageSize (conf_of b) < sum_list (map (\<lambda>a. word_of_nat (length a)) args)"
    using assms(1,2) by (auto simp: idle_def)
  have sent: "Node_sendMessage E (dispatchSelf E) (Node_GetId (bs_node b)) m fn opts b1 = Some Panics"
    if m: "own_request (Node_GetId (bs_node b)) m" and k: "keeping b [] b1" for m fn opts b1
  proof -
    obtain h c where h: "msg_head m = Some h" "msg_body m = Some (BodyCustomCommandReq c)" "mh_source_bus_id h = Node_GetId (bs_node b)"
      "cc_from c = Node_GetId (bs_node b)" using m by (auto simp: own_request_def)
    obtain m' s b2 where m': "msg_head m' = Some (h\<lparr>mh_sequence := s\<rparr>)" "msg_body m' = Some (BodyCustomCommandReq c)" "keeping b1 (bs_selfCommand b1 @ [m']) b2"
        "send_self (dispatchSelf E) m b1 = bind_op (dispatchSelf E) (\<lambda>_. ret_op (EN_ATBUS_ERR_SUCCESS, None, None)) b2"
      using send_self_queues [OF h(1,2), where D = "dispatchSelf E" and b = b1] by (auto simp: is_command_body_def)
    have "own_request (Node_GetId (bs_node b)) m'" using m' h by (auto simp: own_request_def)
    moreover have "keeping b [m'] b2" using k m'(3) by simp
    ultimately have "dispatchSelf E b2 = Some Panics"
      unfolding dispatchSelf_def numeral_2_eq_2 using code by (intro dispatch_own_request [OF assms(1)]) simp_all
    then have "send_self (dispatchSelf E) m b1 = Some Panics" unfolding m'(4) by (rule panics_first)
    then show ?thesis using limits(1) desk_eq [OF conjunct1 [OF k]] by (simp add: Node_sendMessage_def run_op_def)
  qed
  show ?thesis
    unfolding SendCustomCommandWithOptions_def run_op_def if_not_P [OF limits(1)] if_not_P [OF limits(2)] Let_def
  proof (rule panics_after [OF sequence_of_keeps])
    fix x b1 assume k: "keeping b (bs_selfCommand b) b1"
    show "(case x of (sq, options) \<Rightarrow> bind_op (sign_op E (\<lambda>now nonce1 nonce2. GenerateAccessDataForCustomCommand (en_sha256 E) (en_hmac E) now (Some zero_access_data)
        (Node_GetId (bs_node b)) nonce1 nonce2 (AccessTokens (conf_of b)) \<lparr>cc_from = Node_GetId (bs_node b), cc_commands = args, cc_access_key = None\<rparr>))
      (\<lambda>ad. bind_op (SendDataMessage E (dispatchSelf E) (Node_GetId (bs_node b)) (NewMessage\<lparr>msg_head := Some (zero_message_head\<lparr>mh_version := ProtocolVersion (conf_of b),
          mh_source_bus_id := Node_GetId (bs_node b)\<rparr>\<lparr>mh_sequence := sq\<rparr>),
          msg_body := Some (BodyCustomCommandReq (\<lparr>cc_from = Node_GetId (bs_node b), cc_commands = args, cc_access_key = None\<rparr>\<lparr>cc_access_key := ad\<rparr>))\<rparr>) options)
        (\<lambda>(r, _, _). ret_op (r, options)))) b1 = Some Panics"
      unfolding SendDataMessage_def split_beta
      by (rule panics_after [OF sign_keeps], rule panics_first, rule sent)
        (use k assms(1) in \<open>auto simp: own_request_def idle_def\<close>)
  qed
qed

theorem self_command_response_panics_witness:
  "idle sample_bus \<and> SendCustomCommandWithOptions sample_env 1 [[1], [2]] (Some CreateNodeSendDataOptions) sample_bus = Some Panics"
proof -
  have facts: "idle sample_bus" "sum_list (map (\<lambda>a. word_of_nat (length a)) [[1 :: 8 word], [2]]) \<le> MessageSize (conf_of sample_bus)"
    "Node_GetId (bs_node sample_bus) = 1" by code_simp+
  have "\<forall>t argv sq. en_onCommandResponse sample_env t (Node_GetId (bs_node sample_bus)) argv sq < 0" by (simp add: sample_env_def EN_ATBUS_ERR_PARAMS_def)
  from self_command_response_panics [OF facts(1,2) this] facts(1) show ?thesis unfolding facts(3) by (intro conjI)
qed

end
