(* ===== verification/Node_Life.thy ===== *)
theory Node_Life
  imports Message_Effect Self_Command Node_Run
begin

unbundle bit_operations_syntax

section \<open>The life of a node never hangs\<close>

text \<open>
  Every call of the application and every event of the channel returns, or panics, from every state a node can reach, and keeps the
  invariant of \<open>Bus_Invariant\<close>. The loops over the timer lists end because each round leaves fewer entries, or fewer overdue entries,
  than it found.
\<close>

subsection \<open>The timer lists\<close>

definition waiting :: "('m, 'k, 'v) LRUMap \<Rightarrow> 'm \<Rightarrow> 'k set" where
  "waiting L m = {k. lru_Get L k m \<noteq> None}"

text \<open>Resets only take entries out of the list of connections that are being opened.\<close>

definition trimmed :: "('m, 'k, 'v) LRUMap \<Rightarrow> 'm \<Rightarrow> 'm \<Rightarrow> bool" where
  "trimmed L m m' \<longleftrightarrow> (\<exists>ks. m' = fold (lru_Delete L) ks m)"

lemma trimmed_refl [simp]: "trimmed L m m"
  unfolding trimmed_def by (rule exI [of _ "[]"]) simp

lemma trimmed_trans: "trimmed L a b \<Longrightarrow> trimmed L b c \<Longrightarrow> trimmed L a c"
  by (metis trimmed_def fold_append comp_apply)

lemma trimmed_Delete: "trimmed L m (lru_Delete L k m)"
  unfolding trimmed_def by (rule exI [of _ "[k]"]) simp

lemma trimmed_Get:
  assumes "lru_laws L" and "trimmed L m m'"
  shows "lru_Get L k m' = Some v \<Longrightarrow> lru_Get L k m = Some v"
proof -
  have "lru_Get L k (fold (lru_Delete L) ks m) = Some v \<Longrightarrow> lru_Get L k m = Some v" for ks
  proof (induction ks arbitrary: m)
    case (Cons k' ks)
    then have "lru_Get L k (lru_Delete L k' m) = Some v" by simp
    then show ?case by (simp add: lru_Get_Delete [OF assms(1)] split: if_splits)
  qed simp
  with assms(2) show "lru_Get L k m' = Some v \<Longrightarrow> lru_Get L k m = Some v" by (auto simp: trimmed_def)
qed

lemma trimmed_front:
  assumes "lru_laws L" and "queue_laws L Q" and "trimmed L m m'" and "lru_Front Q m = Some (k, v)"
  shows "lru_Get L k m' = None \<or> lru_Front Q m' = Some (k, v)"
proof -
  obtain ks where m': "m' = fold (lru_Delete L) ks m" using assms(3) by (auto simp: trimmed_def)
  have gone: "lru_Get L k (fold (lru_Delete L) ks m) = None" if "lru_Get L k m = None" for ks m
    using trimmed_Get [OF assms(1), of m "fold (lru_Delete L) ks m" k] that by (cases "lru_Get L k (fold (lru_Delete L) ks m)") (auto simp: trimmed_def)
  from assms(4) show ?thesis unfolding m'
  proof (induction ks arbitrary: m)
    case (Cons k' ks)
    show ?case
    proof (cases "k' = k")
      case True
      then have "lru_Get L k (lru_Delete L k' m) = None" using lru_Get_Delete [OF assms(1)] by simp
      then show ?thesis using gone by simp
    next
      case False
      then have "lru_Front Q (lru_Delete L k' m) = Some (k, v)" using assms(2) Cons.prems by (auto simp: queue_laws_def)
      then show ?thesis using Cons.IH by simp
    qed
  qed simp
qed

lemma pop_Get:
  assumes "queue_laws L Q"
  shows "lru_Get L k (lru_PopFront Q m) = Some v \<Longrightarrow> lru_Get L k m = Some v"
    "lru_Front Q m = Some (k', v') \<Longrightarrow> waiting L (lru_PopFront Q m) = waiting L m - {k'}"
    "lru_Front Q m = Some (k', v') \<Longrightarrow> k' \<in> waiting L m"
    "lru_Front Q m = Some (k', v') \<Longrightarrow> lru_Get L k' m = Some v'"
    "finite (waiting L m)" "lru_Get L k (lru_New Q) = None" "lru_Front Q m = None \<Longrightarrow> lru_Get L k m = None"
  using assms by (cases "lru_Front Q m"; auto simp: queue_laws_def waiting_def split: if_splits)+

lemma waiting_mono: "(\<And>k v. lru_Get L k m' = Some v \<Longrightarrow> lru_Get L k m = Some v) \<Longrightarrow> waiting L m' \<subseteq> waiting L m"
  by (auto simp: waiting_def)

lemma connecting_views:
  "nd_connectingList (upd_conn c f n) = nd_connectingList n" "nd_connectingList (upd_ep e g n) = nd_connectingList n"
  "nd_connectingList (ClearPingTimer P e n) = nd_connectingList n" "nd_connectingList (AddEndpointGcList e n) = nd_connectingList n"
  "nd_connectingList (AddConnectionGcList c n) = nd_connectingList n" "nd_connectingList (OnDisconnect b c n) = nd_connectingList n"
  by (simp_all add: upd_conn_def upd_ep_def ClearPingTimer_def removePingTimer_def AddEndpointGcList_def AddConnectionGcList_def OnDisconnect_def
      log_event_def setState_def shutdown_part_views Let_def)

lemma tick_views:
  "nd_tick (upd_conn c f n) = nd_tick n" "nd_tick (upd_ep e g n) = nd_tick n"
  "nd_tick (ClearPingTimer P e n) = nd_tick n" "nd_tick (AddEndpointGcList e n) = nd_tick n"
  "nd_tick (AddConnectionGcList c n) = nd_tick n" "nd_tick (OnDisconnect b c n) = nd_tick n"
  by (simp_all add: upd_conn_def upd_ep_def ClearPingTimer_def removePingTimer_def AddEndpointGcList_def AddConnectionGcList_def OnDisconnect_def
      log_event_def setState_def FatalShutdown_def Shutdown_def OnShutdown_def Let_def)

text \<open>What resets do to the clock and the list: nothing, and take entries out.\<close>

definition trims :: "'c connecting_ops \<Rightarrow> ('p, 'c) Node \<Rightarrow> ('p, 'c) Node \<Rightarrow> bool" where
  "trims C n n' \<longleftrightarrow> trimmed C (nd_connectingList n) (nd_connectingList n') \<and> nd_tick n' = nd_tick n"

lemma trims_trans: "trims C a b \<Longrightarrow> trims C b c \<Longrightarrow> trims C a c"
  by (auto simp: trims_def intro: trimmed_trans)

lemma trims_refl [simp]: "trims C n n"
  by (simp add: trims_def)

lemma trims_views [simp]:
  "trims C n (upd_conn c f n') = trims C n n'" "trims C n (upd_ep e g n') = trims C n n'" "trims C n (ClearPingTimer P e n') = trims C n n'"
  "trims C n (AddEndpointGcList e n') = trims C n n'" "trims C n (AddConnectionGcList c n') = trims C n n'"
  "trims C n (OnDisconnect b c n') = trims C n n'" "trims C (upd_conn c f n) n' = trims C n n'" "trims C (upd_ep e g n) n' = trims C n n'"
  by (simp_all add: trims_def connecting_views tick_views)

lemma removeConnectionTimer_trims: "trims C n (removeConnectionTimer C c n)"
  by (auto simp: trims_def removeConnectionTimer_def Let_def log_event_def trimmed_Delete split: option.split)

lemma fold_reset_trims:
  assumes "\<And>c n n'. reset c n = Some n' \<Longrightarrow> trims C n n'" and "fold_reset reset cs n = Some n'"
  shows "trims C n n'"
  using assms(2)
proof (induction cs arbitrary: n)
  case (Cons c cs)
  then obtain n2 where n2: "reset c (upd_conn c (setBinding None) n) = Some n2" "fold_reset reset cs n2 = Some n'" by (auto split: option.splits)
  show ?case using trims_trans [OF _ Cons.IH [OF n2(2)]] assms(1) [OF n2(1)] by simp
qed simp

lemma Endpoint_Reset_trims:
  assumes "\<And>c n n'. Connection_Reset P C d c n = Some n' \<Longrightarrow> trims C n n'"
    and "Endpoint_Reset P C (Suc d) e n = Some n'"
  shows "trims C n n'"
proof (cases "Endpoint_GetFlag EndpointFlag_Resetting (nd_eps n ! e)")
  case True
  with assms(2) show ?thesis by (simp add: reset_simps)
next
  case False
  define n1 where "n1 = upd_ep e (\<lambda>ep. ep\<lparr>ep_ctrlConn := None, ep_dataConn := [], ep_listenAddress := []\<rparr>) (upd_ep e (Endpoint_setFlag EndpointFlag_Resetting True) n)"
  define ctrl where "ctrl = ep_ctrlConn (nd_eps (upd_ep e (Endpoint_setFlag EndpointFlag_Resetting True) n) ! e)"
  define data where "data = ep_dataConn (nd_eps (upd_ep e (Endpoint_setFlag EndpointFlag_Resetting True) n) ! e)"
  have "(case (case ctrl of None \<Rightarrow> Some n1 | Some c \<Rightarrow> Connection_Reset P C d c (upd_conn c (setBinding None) n1)) of None \<Rightarrow> None
      | Some n \<Rightarrow> (case fold_reset (Connection_Reset P C d) data n of None \<Rightarrow> None
        | Some n \<Rightarrow> Some (upd_ep e (\<lambda>ep. ep\<lparr>ep_flags := 0\<rparr>) (AddEndpointGcList e (ClearPingTimer P e n))))) = Some n'"
    using assms(2) False unfolding reset_simps Let_def ctrl_def data_def n1_def by (simp only: if_False)
  then obtain n2 n3 where
    n2: "(case ctrl of None \<Rightarrow> Some n1 | Some c \<Rightarrow> Connection_Reset P C d c (upd_conn c (setBinding None) n1)) = Some n2"
    and n3: "fold_reset (Connection_Reset P C d) data n2 = Some n3"
    and n': "n' = upd_ep e (\<lambda>ep. ep\<lparr>ep_flags := 0\<rparr>) (AddEndpointGcList e (ClearPingTimer P e n3))"
    by (auto split: option.split_asm)
  have "trims C n n1" by (simp add: n1_def)
  moreover have "trims C n1 n2" using n2 assms(1) [of _ "upd_conn _ (setBinding None) n1"] by (cases ctrl) auto
  moreover have "trims C n2 n3" by (rule fold_reset_trims [OF assms(1) n3])
  ultimately show ?thesis unfolding n' by (auto intro: trims_trans)
qed

lemma reset_trims:
  "Connection_Reset P C d c n = Some n' \<Longrightarrow> trims C n n'"
  "RemoveConnection P C d e c n = Some (n', b) \<Longrightarrow> trims C n n'"
  "Endpoint_Reset P C d e n = Some n' \<Longrightarrow> trims C n n'"
proof (induction d arbitrary: n n' c e b)
  case (Suc d)
  { case 1
    let ?n = "removeConnectionTimer C c (upd_conn c (Connection_setFlag ConnectionFlag_Resetting True) n)"
    have t: "trims C n ?n"
      using removeConnectionTimer_trims [of C "upd_conn c (Connection_setFlag ConnectionFlag_Resetting True) n" c] by (simp add: connecting_views)
    have "trims C ?n n2" if "RemoveConnection P C d e c ?n = Some (n2, b)" for e n2 b
      by (rule Suc.IH(2) [OF that])
    with 1 t show ?case by (auto simp: reset_simps Let_def split: if_splits option.splits intro: trims_trans) }
  { case 2 then show ?case using Suc.IH(3) by (fastforce simp: reset_simps Let_def split: if_splits) }
  { case 3 then show ?case by (rule Endpoint_Reset_trims [rotated]) (rule Suc.IH(1)) }
qed (simp_all add: reset_simps)

subsection \<open>Steps that leave the objects alone\<close>

text \<open>
  The invariant speaks of the objects, the links between them and the entries of the timer lists: a step that changes none of them, or
  only takes entries out, keeps it.
\<close>

lemma node_inv_cong:
  assumes "node_inv P C n" and "nd_conns n' = nd_conns n" and "nd_eps n' = nd_eps n" and "nd_self n' = nd_self n" and "nd_upstream n' = nd_upstream n"
    and "nd_route n' = nd_route n" and "nd_topology n' = nd_topology n"
    and "\<And>a x. lru_Get C a (nd_connectingList n') = Some x \<Longrightarrow> lru_Get C a (nd_connectingList n) = Some x"
    and "\<And>k x. lru_Get P k (nd_pingList n') = Some x \<Longrightarrow> lru_Get P k (nd_pingList n) = Some x"
    and "set (nd_pendingConnectionGc n') \<subseteq> set (nd_pendingConnectionGc n)" and "set (nd_pendingEndpointGc n') \<subseteq> set (nd_pendingEndpointGc n)"
  shows "node_inv P C n'"
proof -
  have ids: "ids n' = ids n" using assms(3) by (simp add: ids_def)
  have "route_wf n'" using assms(1,4-7) route_wf_cong [of n' n] ids by (simp add: node_inv_def)
  moreover have "refs_ok P C n'" using assms(1-3,8-11) ids unfolding node_inv_def refs_ok_def by (metis subset_trans)
  ultimately show ?thesis using assms(1-3,7) by (simp add: node_inv_def bind_inv_def quiet_def)
qed

definition same_objects :: "'p ping_ops \<Rightarrow> 'c connecting_ops \<Rightarrow> ('p, 'c) Node \<Rightarrow> ('p, 'c) Node \<Rightarrow> bool" where
  "same_objects P C n n' \<longleftrightarrow> nd_conns n' = nd_conns n \<and> nd_eps n' = nd_eps n \<and> nd_self n' = nd_self n \<and> nd_upstream n' = nd_upstream n
     \<and> nd_route n' = nd_route n \<and> nd_topology n' = nd_topology n \<and> receiving n' = receiving n
     \<and> (\<forall>a x. lru_Get C a (nd_connectingList n') = Some x \<longrightarrow> lru_Get C a (nd_connectingList n) = Some x)
     \<and> (\<forall>k x. lru_Get P k (nd_pingList n') = Some x \<longrightarrow> lru_Get P k (nd_pingList n) = Some x)
     \<and> set (nd_pendingConnectionGc n') \<subseteq> set (nd_pendingConnectionGc n) \<and> set (nd_pendingEndpointGc n') \<subseteq> set (nd_pendingEndpointGc n)"

lemma later_same_objects:
  assumes "later E b0 b" and "same_objects (en_ping E) (en_connecting E) (bs_node b) n"
  shows "later E b0 (b\<lparr>bs_node := n\<rparr>)"
proof (rule later_node [OF assms(1)])
  show "node_inv (en_ping E) (en_connecting E) n"
    by (rule node_inv_cong [OF laterD(2) [OF assms(1)]]) (use assms(2) [unfolded same_objects_def] in blast)+
  show "steps (bs_node b) n" using assms(2) by (simp add: same_objects_def steps_def)
qed

lemma safe_same_objects:
  "later E b0 b \<Longrightarrow> same_objects (en_ping E) (en_connecting E) (bs_node b) (f (bs_node b)) \<Longrightarrow> safe E b0 anything (node_op f) b"
  unfolding node_op_def by (rule safe_modify) (rule later_same_objects)

lemma same_objects_parts [simp]:
  "same_objects P C n (n\<lparr>nd_tick := t\<rparr>)" "same_objects P C n (n\<lparr>nd_configure := conf\<rparr>)" "same_objects P C n (n\<lparr>nd_upstreamOpTimepoint := t\<rparr>)"
  "same_objects P C n (setState s n)" "same_objects P C n (setState s (n\<lparr>nd_upstreamOpTimepoint := t\<rparr>))"
  "same_objects P C n (n\<lparr>nd_pendingEndpointGc := []\<rparr>)" "same_objects P C n (log_event ev n)" "same_objects P C n n"
  "same_objects P C n (if c then n else m) \<longleftrightarrow> c \<or> same_objects P C n m" "same_objects P C n (if c then m else n) \<longleftrightarrow> \<not> c \<or> same_objects P C n m"
  by (auto simp: same_objects_def setState_def log_event_def receiving_def Node_CheckFlag_def)

subsection \<open>Flag guards\<close>

definition other_flag :: "16 word \<Rightarrow> bool" where
  "other_flag f \<longleftrightarrow> NodeFlag_RecvSelfMsg AND f = 0"

lemma other_flags [simp]:
  "other_flag NodeFlag_Resetting" "other_flag NodeFlag_InProc" "other_flag NodeFlag_InCallback" "other_flag NodeFlag_InGcEndpoints"
  "other_flag NodeFlag_InGcConnections" "other_flag NodeFlag_ResettingGc"
  by (simp_all add: other_flag_def NodeFlag_RecvSelfMsg_def NodeFlag_Resetting_def NodeFlag_InProc_def NodeFlag_InCallback_def
      NodeFlag_InGcEndpoints_def NodeFlag_InGcConnections_def NodeFlag_ResettingGc_def)

lemma receiving_flags:
  assumes "other_flag f"
  shows "receiving (n\<lparr>nd_flags := nd_flags n OR f\<rparr>) = receiving n" "receiving (n\<lparr>nd_flags := nd_flags n AND NOT f\<rparr>) = receiving n"
  using assms has_flag_put_other [of NodeFlag_RecvSelfMsg f True] has_flag_put_other [of NodeFlag_RecvSelfMsg f False]
  by (simp_all add: other_flag_def receiving_def Node_CheckFlag_def put_flag_def)

lemma guard_flags:
  assumes "other_flag f" and "openFlag new_guard f w = (fg, w', opened)"
  shows "receiving (n\<lparr>nd_flags := w\<rparr>) = receiving n \<Longrightarrow> receiving (n\<lparr>nd_flags := w'\<rparr>) = receiving n"
    "receiving (n\<lparr>nd_flags := snd (closeFlag fg (nd_flags n))\<rparr>) = receiving n" "\<not> opened"
  using assms receiving_flags [OF assms(1), of "n\<lparr>nd_flags := w\<rparr>"] receiving_flags [OF assms(1), of n]
  by (auto simp: openFlag_def new_guard_def closeFlag_def split: if_splits)

lemma later_flags:
  assumes "later E b0 b" and "receiving ((bs_node b)\<lparr>nd_flags := w\<rparr>) = receiving (bs_node b)"
  shows "later E b0 (b\<lparr>bs_node := (bs_node b)\<lparr>nd_flags := w\<rparr>\<rparr>)"
  by (rule later_same_objects [OF assms(1)]) (use assms(2) in \<open>simp add: same_objects_def\<close>)

lemma safe_guarded:
  assumes "later E b0 b" and "other_flag f" and "\<And>b'. later E b0 b' \<Longrightarrow> safe E b0 anything m b'"
  shows "safe E b0 anything (guarded f r m) b"
proof -
  obtain fg w opened where o: "openFlag new_guard f (nd_flags (bs_node b)) = (fg, w, opened)" by (cases "openFlag new_guard f (nd_flags (bs_node b))")
  note G = guard_flags [OF assms(2) o]
  have 1: "safe E b0 anything (node_op (\<lambda>n. n\<lparr>nd_flags := w\<rparr>)) b"
    unfolding node_op_def by (intro safe_modify later_flags assms(1) G(1)) simp
  have 2: "safe E b0 anything (node_op (\<lambda>n. n\<lparr>nd_flags := snd (closeFlag fg (nd_flags n))\<rparr>)) b'" if "later E b0 b'" for b'
    unfolding node_op_def by (intro safe_modify later_flags that G(2))
  have "guarded f r m b = bind_op (node_op (\<lambda>n. n\<lparr>nd_flags := w\<rparr>)) (\<lambda>_. bind_op m (\<lambda>x.
      bind_op (node_op (\<lambda>n. n\<lparr>nd_flags := snd (closeFlag fg (nd_flags n))\<rparr>)) (\<lambda>_. ret_op x))) b"
    using G(3) by (simp add: guarded_def run_op_def o)
  moreover have "safe E b0 anything (bind_op (node_op (\<lambda>n. n\<lparr>nd_flags := w\<rparr>)) (\<lambda>_. bind_op m (\<lambda>x.
      bind_op (node_op (\<lambda>n. n\<lparr>nd_flags := snd (closeFlag fg (nd_flags n))\<rparr>)) (\<lambda>_. ret_op x)))) b"
    by (intro safe_seq 1 assms(3) 2 safe_ret) simp_all
  ultimately show ?thesis by (simp add: safe_def)
qed

subsection \<open>The loops end\<close>

definition env_ok :: "('p, 'c) env \<Rightarrow> bool" where
  "env_ok E \<longleftrightarrow> lru_laws (en_ping E) \<and> lru_laws (en_connecting E) \<and> queue_laws (en_ping E) (en_pingQueue E)
     \<and> queue_laws (en_connecting E) (en_connectingQueue E)"

lemma env_okD: "env_ok E \<Longrightarrow> lru_laws (en_ping E)" "env_ok E \<Longrightarrow> lru_laws (en_connecting E)"
  "env_ok E \<Longrightarrow> queue_laws (en_ping E) (en_pingQueue E)" "env_ok E \<Longrightarrow> queue_laws (en_connecting E) (en_connectingQueue E)"
  by (simp_all add: env_ok_def)

definition connecting :: "('p, 'c) env \<Rightarrow> ('p, 'c) Bus \<Rightarrow> string set" where
  "connecting E b = waiting (en_connecting E) (nd_connectingList (bs_node b))"

lemma later_pop:
  assumes "env_ok E" and "later E b0 b"
  shows "later E b0 (pop_connecting E b)"
  unfolding pop_connecting_def
  by (intro later_same_objects assms(2)) (auto simp: same_objects_def receiving_def Node_CheckFlag_def dest: pop_Get(1) [OF env_okD(4) [OF assms(1)]])

lemma pop_connecting_set:
  assumes "env_ok E"
  shows "connecting E (pop_connecting E b) \<subseteq> connecting E b"
    "front_connecting E b = Some (a, x) \<Longrightarrow> connecting E (pop_connecting E b) = connecting E b - {a}"
    "front_connecting E b = Some (a, x) \<Longrightarrow> a \<in> connecting E b" "finite (connecting E b)"
proof -
  note q = env_okD(4) [OF assms]
  show "connecting E (pop_connecting E b) \<subseteq> connecting E b"
    unfolding connecting_def pop_connecting_def by (rule waiting_mono) (auto dest: pop_Get(1) [OF q])
  show "front_connecting E b = Some (a, x) \<Longrightarrow> connecting E (pop_connecting E b) = connecting E b - {a}"
    "front_connecting E b = Some (a, x) \<Longrightarrow> a \<in> connecting E b" "finite (connecting E b)"
    using pop_Get(2,3,5) [OF q, of "nd_connectingList (bs_node b)"] unfolding connecting_def pop_connecting_def front_connecting_def by simp_all
qed

lemma front_connecting_ref:
  assumes "env_ok E" and "later E b0 b" and "front_connecting E b = Some (a, t, c)"
  shows "c < length (nd_conns (bs_node b))"
proof -
  have "lru_Get (en_connecting E) a (nd_connectingList (bs_node b)) = Some (t, c)"
    using pop_Get(4) [OF env_okD(4) [OF assms(1)]] assms(3) unfolding front_connecting_def by blast
  then show ?thesis using laterD(2) [OF assms(2)] refs_okD(3) by (auto simp: node_inv_def)
qed

lemma reset_conn_returns:
  assumes "later E b0 b" and "c < length (nd_conns (bs_node b))"
  obtains b' where "reset_conn E c b = Some (Returns ((), b'))" and "later E b0 b'"
    and "trimmed (en_connecting E) (nd_connectingList (bs_node b)) (nd_connectingList (bs_node b'))"
    and "nd_tick (bs_node b') = nd_tick (bs_node b)"
proof -
  obtain n' where n': "Connection_Reset (en_ping E) (en_connecting E) 4 c (bs_node b) = Some n'"
    "node_inv (en_ping E) (en_connecting E) n'" "steps (bs_node b) n'"
    using node_inv_Connection_Reset [OF laterD(2) [OF assms(1)] assms(2), of 4] by auto
  show ?thesis
    by (rule that [of "b\<lparr>bs_node := n'\<rparr>"]) (use n' later_node [OF assms(1)] reset_trims(1) [OF n'(1)] in \<open>auto simp: reset_conn_def node_opt_def trims_def\<close>)
qed

lemma trimmed_connecting:
  "env_ok E \<Longrightarrow> trimmed (en_connecting E) (nd_connectingList (bs_node b)) (nd_connectingList (bs_node b')) \<Longrightarrow> connecting E b' \<subseteq> connecting E b"
  unfolding connecting_def by (rule waiting_mono) (rule trimmed_Get [OF env_okD(2)])

lemma safe_drain_connecting:
  assumes "env_ok E" and "later E b0 b"
  shows "safe E b0 anything (drain_connecting E) b"
  using assms(2)
proof (induction "card (connecting E b)" arbitrary: b rule: less_induct)
  case less
  show ?case
  proof (cases "front_connecting E b")
    case None
    then show ?thesis using less.prems by (simp add: drain_connecting.simps safe_def)
  next
    case (Some x)
    obtain a t c where f: "front_connecting E b = Some (a, t, c)" using Some by (cases x) auto
    have l: "later E b0 (pop_connecting E b)" by (rule later_pop [OF assms(1) less.prems])
    have "c < length (nd_conns (bs_node (pop_connecting E b)))" using front_connecting_ref [OF assms(1) less.prems f] by (simp add: pop_connecting_def)
    then obtain b' where b': "reset_conn E c (pop_connecting E b) = Some (Returns ((), b'))" "later E b0 b'"
      "trimmed (en_connecting E) (nd_connectingList (bs_node (pop_connecting E b))) (nd_connectingList (bs_node b'))"
      using reset_conn_returns [OF l] by blast
    have "connecting E b' \<subseteq> connecting E b - {a}" using trimmed_connecting [OF assms(1) b'(3)] pop_connecting_set(2) [OF assms(1) f] by simp
    then have "card (connecting E b') < card (connecting E b)" using pop_connecting_set(3,4) [OF assms(1)] f by (intro psubset_card_mono) blast+
    then have "safe E b0 anything (drain_connecting E) b'" using less.hyps b'(2) by blast
    then show ?thesis by (simp add: drain_connecting.simps [of E b] f b'(1) safe_def)
  qed
qed

text \<open>A round of the loop over the connections that time out takes at least one entry out of the list.\<close>

lemma timed_out_later:
  assumes "env_ok E" and "later E b0 b"
  shows "later E b0 (timed_out E a c b)" "connecting E (timed_out E a c b) \<subseteq> connecting E b"
    "nd_tick (bs_node (timed_out E a c b)) = nd_tick (bs_node b)"
proof -
  show "nd_tick (bs_node (timed_out E a c b)) = nd_tick (bs_node b)"
    by (simp add: timed_out_def pop_connecting_def log_event_def split: option.split prod.split)
  define b1 where "b1 = b\<lparr>bs_node := log_event (OnInvalidConnection c EN_ATBUS_ERR_NODE_TIMEOUT) (bs_node b)\<rparr>"
  have 1: "later E b0 b1" unfolding b1_def by (intro later_same_objects assms(2)) simp
  have 2: "connecting E b1 = connecting E b" by (simp add: b1_def connecting_def log_event_def)
  show "later E b0 (timed_out E a c b)"
    using assms(2) later_pop [OF assms(1) 1] unfolding b1_def by (auto simp: timed_out_def split: option.split prod.split)
  show "connecting E (timed_out E a c b) \<subseteq> connecting E b"
    using pop_connecting_set(1) [OF assms(1), of b1] 2 unfolding b1_def by (auto simp: timed_out_def split: option.splits prod.splits if_splits)
qed

lemma timed_out_shrinks:
  assumes "env_ok E" and "front_connecting E b = Some (a, t, c)"
    and "trimmed (en_connecting E) (nd_connectingList (bs_node b)) (nd_connectingList (bs_node b'))"
  shows "a \<notin> connecting E (timed_out E a c b')"
proof -
  have "lru_Get (en_connecting E) a (nd_connectingList (bs_node b')) = None \<or> front_connecting E b' = Some (a, t, c)"
    using trimmed_front [OF env_okD(2,4) assms(3)] assms(1,2) by (simp add: front_connecting_def)
  then show ?thesis
  proof
    assume "lru_Get (en_connecting E) a (nd_connectingList (bs_node b')) = None"
    then have g: "a \<notin> connecting E b'" by (simp add: connecting_def waiting_def)
    define b1 where "b1 = b'\<lparr>bs_node := log_event (OnInvalidConnection c EN_ATBUS_ERR_NODE_TIMEOUT) (bs_node b')\<rparr>"
    have "connecting E b1 = connecting E b'" by (simp add: b1_def connecting_def log_event_def)
    then show ?thesis using g pop_connecting_set(1) [OF assms(1), of b1] unfolding b1_def by (auto simp: timed_out_def split: option.splits prod.splits if_splits)
  next
    assume f: "front_connecting E b' = Some (a, t, c)"
    define b1 where "b1 = b'\<lparr>bs_node := log_event (OnInvalidConnection c EN_ATBUS_ERR_NODE_TIMEOUT) (bs_node b')\<rparr>"
    have "front_connecting E b1 = Some (a, t, c)" using f by (simp add: b1_def front_connecting_def log_event_def)
    then have "a \<notin> connecting E (pop_connecting E b1)" using pop_connecting_set(2) [OF assms(1)] by simp
    then show ?thesis using f by (simp add: timed_out_def b1_def)
  qed
qed

lemma removeConnectionTimer_cases:
  "nd_connectingList (removeConnectionTimer C c n) = nd_connectingList n
    \<or> (\<exists>a x. lru_Get C a (nd_connectingList n) = Some x \<and> nd_connectingList (removeConnectionTimer C c n) = lru_Delete C a (nd_connectingList n))"
  by (auto simp: removeConnectionTimer_def Let_def log_event_def split: option.split)

lemma removeConnectionTimer_round:
  assumes "env_ok E" and "later E b0 b" and "front_connecting E b = Some (a, t, c)"
  defines "b1 \<equiv> pop_connecting E (b\<lparr>bs_node := removeConnectionTimer (en_connecting E) c (bs_node b)\<rparr>)"
  shows "later E b0 b1" "connecting E b1 \<subset> connecting E b" "nd_tick (bs_node b1) = nd_tick (bs_node b)"
proof -
  show "nd_tick (bs_node b1) = nd_tick (bs_node b)"
    using removeConnectionTimer_trims [of "en_connecting E" "bs_node b" c] by (simp add: b1_def pop_connecting_def trims_def)
  let ?b = "b\<lparr>bs_node := removeConnectionTimer (en_connecting E) c (bs_node b)\<rparr>"
  have g: "goes (en_ping E) (en_connecting E) (bs_node b) (removeConnectionTimer (en_connecting E) c (bs_node b))"
    by (rule goes_removeConnectionTimer [OF later_refs [OF assms(2)]])
  have "nd_conns (bs_node ?b) = nd_conns (bs_node b)" "nd_eps (bs_node ?b) = nd_eps (bs_node b)"
    by (simp_all add: removeConnectionTimer_def Let_def log_event_def split: option.split)
  then have "later E b0 ?b" using later_node [OF assms(2)] node_inv_same_stores [OF laterD(2) [OF assms(2)] g] by simp
  then show "later E b0 b1" unfolding b1_def by (rule later_pop [OF assms(1)])
  have sub: "connecting E ?b \<subseteq> connecting E b"
    by (rule trimmed_connecting [OF assms(1)]) (use removeConnectionTimer_trims [of "en_connecting E" "bs_node b" c] in \<open>simp add: trims_def\<close>)
  consider "nd_connectingList (bs_node ?b) = nd_connectingList (bs_node b)"
    | k x where "lru_Get (en_connecting E) k (nd_connectingList (bs_node b)) = Some x" "nd_connectingList (bs_node ?b) = lru_Delete (en_connecting E) k (nd_connectingList (bs_node b))"
    using removeConnectionTimer_cases [of "en_connecting E" c "bs_node b"] by auto
  then show "connecting E b1 \<subset> connecting E b"
  proof cases
    case 1
    then have "front_connecting E ?b = Some (a, t, c)" using assms(3) by (simp add: front_connecting_def)
    then have "a \<notin> connecting E b1" using pop_connecting_set(2) [OF assms(1)] by (simp add: b1_def)
    then show ?thesis using pop_connecting_set(1) [OF assms(1), of ?b] pop_connecting_set(3) [OF assms(1,3)] sub by (auto simp: b1_def)
  next
    case (2 k x)
    then have "k \<in> connecting E b" "k \<notin> connecting E ?b" by (simp_all add: connecting_def waiting_def lru_Get_Delete [OF env_okD(2) [OF assms(1)]])
    then show ?thesis using pop_connecting_set(1) [OF assms(1), of ?b] sub by (auto simp: b1_def)
  qed
qed

lemma safe_processConnectingTimeout:
  assumes "env_ok E" and "later E b0 b"
  shows "safe E b0 (\<lambda>_ b'. nd_tick (bs_node b') = nd_tick (bs_node b)) (processConnectingTimeout E now) b"
  using assms(2)
proof (induction "card (connecting E b)" arbitrary: b rule: less_induct)
  case less
  let ?Q = "\<lambda>_ b'. nd_tick (bs_node b') = nd_tick (bs_node b)"
  have again: "safe E b0 ?Q (processConnectingTimeout E now) b'"
    if "later E b0 b'" "connecting E b' \<subset> connecting E b" "nd_tick (bs_node b') = nd_tick (bs_node b)" for b'
    using less.hyps [OF psubset_card_mono [OF pop_connecting_set(4) [OF assms(1)] that(2)] that(1)] that(3) by simp
  show ?case
  proof (cases "front_connecting E b")
    case None
    then show ?thesis using less.prems by (simp add: processConnectingTimeout.simps safe_def)
  next
    case (Some x)
    obtain a t c where f: "front_connecting E b = Some (a, t, c)" using Some by (cases x) auto
    have c: "c < length (nd_conns (bs_node b))" by (rule front_connecting_ref [OF assms(1) less.prems f])
    consider "IsConnected (conn_of b c)" | "\<not> IsConnected (conn_of b c)" "\<not> t < now" | "\<not> IsConnected (conn_of b c)" "t < now" by blast
    then show ?thesis
    proof cases
      case 1
      with again [OF removeConnectionTimer_round [OF assms(1) less.prems f]] show ?thesis
        by (simp add: processConnectingTimeout.simps [of E now b] f safe_def)
    next
      case 2
      then show ?thesis using less.prems by (simp add: processConnectingTimeout.simps [of E now b] f safe_def)
    next
      case 3
      obtain b' where b': "reset_conn E c b = Some (Returns ((), b'))" "later E b0 b'"
        "trimmed (en_connecting E) (nd_connectingList (bs_node b)) (nd_connectingList (bs_node b'))" "nd_tick (bs_node b') = nd_tick (bs_node b)"
        by (rule reset_conn_returns [OF less.prems c])
      have "connecting E (timed_out E a c b') \<subset> connecting E b"
        using timed_out_later(2) [OF assms(1) b'(2), of a c] trimmed_connecting [OF assms(1) b'(3)] timed_out_shrinks [OF assms(1) f b'(3)]
          pop_connecting_set(3) [OF assms(1) f] by auto
      with again [OF timed_out_later(1) [OF assms(1) b'(2)]] timed_out_later(3) [OF assms(1) b'(2)] b'(4) 3 show ?thesis
        by (simp add: processConnectingTimeout.simps [of E now b] f b'(1) safe_def)
    qed
  qed
qed

lemma drain_ping_empties:
  assumes "queue_laws L Q"
  shows "\<exists>m'. drain_ping Q m = Some m' \<and> (\<forall>k. lru_Get L k m' = None)"
proof (induction "card (waiting L m)" arbitrary: m rule: less_induct)
  case less
  show ?case
  proof (cases "lru_Front Q m")
    case None
    then show ?thesis using pop_Get(7) [OF assms] by (simp add: drain_ping.simps)
  next
    case (Some x)
    obtain k v where f: "lru_Front Q m = Some (k, v)" using Some by (cases x) auto
    have "waiting L (lru_PopFront Q m) \<subset> waiting L m" using pop_Get(2,3) [OF assms f] by auto
    then have "card (waiting L (lru_PopFront Q m)) < card (waiting L m)" by (rule psubset_card_mono [OF pop_Get(5) [OF assms]])
    from less.hyps [OF this] show ?thesis by (simp add: drain_ping.simps [of Q m] f)
  qed
qed

text \<open>A ping puts the endpoint back into the list of timers at a time that has not come yet.\<close>

definition overdue :: "'p ping_ops \<Rightarrow> int \<Rightarrow> 'p \<Rightarrow> nat set" where
  "overdue P now m = {k. \<exists>t e. lru_Get P k m = Some (t, e) \<and> t < now}"

lemma AddPingTimer_overdue:
  assumes "lru_laws P" and "now \<le> nd_tick n"
  shows "overdue P now (nd_pingList (AddPingTimer P e n)) \<subseteq> overdue P now (nd_pingList n)" "nd_tick (AddPingTimer P e n) = nd_tick n"
proof -
  have c: "nd_tick (ClearPingTimer P e n) = nd_tick n" "nd_configure (ClearPingTimer P e n) = nd_configure n"
    "overdue P now (nd_pingList (ClearPingTimer P e n)) \<subseteq> overdue P now (nd_pingList n)"
    using assms(1) by (auto simp: ClearPingTimer_def removePingTimer_def upd_ep_def overdue_def lru_Get_Delete split: if_splits)
  have p: "overdue P now (lru_Put P e (nd_tick n + PingInterval (nd_configure n), e) m) \<subseteq> overdue P now m" if "0 < PingInterval (nd_configure n)" for m
    using assms that by (auto simp: overdue_def lru_Get_Put split: if_splits)
  show "overdue P now (nd_pingList (AddPingTimer P e n)) \<subseteq> overdue P now (nd_pingList n)"
    using c(1,2,3) subset_trans [OF p c(3)] by (simp add: AddPingTimer_def addPingTimer_def Let_def upd_ep_def linorder_not_le)
  show "nd_tick (AddPingTimer P e n) = nd_tick n" using c by (simp add: AddPingTimer_def addPingTimer_def Let_def upd_ep_def)
qed

lemma leaves_SendPing [leaves_intros]: "links b = links b0 \<Longrightarrow> leaves b0 (SendPing E conn sq) b"
  unfolding SendPing_def by (intro leaves_intros)

lemma links_timers: "links b' = links b \<Longrightarrow> nd_tick (bs_node b') = nd_tick (bs_node b)"
  "links b' = links b \<Longrightarrow> nd_pingList (bs_node b') = nd_pingList (bs_node b)"
  by (simp_all add: links_def Let_def)

lemma pingEndpoint_overdue:
  assumes "env_ok E" and "now \<le> nd_tick (bs_node b)" and "pingEndpoint E e b = Some (Returns (r, b'))"
  shows "overdue (en_ping E) now (nd_pingList (bs_node b')) \<subseteq> overdue (en_ping E) now (nd_pingList (bs_node b)) \<and> nd_tick (bs_node b') = nd_tick (bs_node b)"
proof (cases "nd_self (bs_node b)")
  case None
  with assms(3) show ?thesis by (simp add: pingEndpoint_def run_op_def ret_op_def)
next
  case (Some self)
  show ?thesis
  proof (cases "GetCtrlConnection (bs_node b) self e")
    case None
    with Some assms(3) show ?thesis by (simp add: pingEndpoint_def run_op_def ret_op_def)
  next
    case conn: (Some c)
    define m where "m = bind_op (node_run AllocateMessageSequence) (\<lambda>sq. SendPing E (Some c) sq)"
    have lv: "leaves b m b" unfolding m_def by (intro leaves_intros) simp_all
    obtain b1 where b1: "m b = Some (Returns (r, b1))" and
      b': "bs_node b' = AddPingTimer (en_ping E) e (log_event (OnEndpointPing (Some e) None) (bs_node b1))"
      using assms(3) Some conn unfolding m_def
      by (auto simp: pingEndpoint_def run_op_def bind_op_Returns event_op_eq node_op_def modify_op_def ret_op_def)
    have l: "links b1 = links b" by (rule leavesD [OF lv b1])
    have v: "nd_pingList (log_event ev (bs_node b1)) = nd_pingList (bs_node b)" "nd_tick (log_event ev (bs_node b1)) = nd_tick (bs_node b)" for ev
      using links_timers [OF l] by (simp_all add: log_event_def)
    show ?thesis
      using AddPingTimer_overdue [OF env_okD(1) [OF assms(1)], of now "log_event (OnEndpointPing (Some e) None) (bs_node b1)" e] assms(2) b' v by simp
  qed
qed

lemma safe_AddPingTimer:
  assumes "later E b0 b" and "e < length (nd_eps (bs_node b0))"
  shows "safe E b0 anything (node_op (AddPingTimer (en_ping E) e)) b"
proof (rule safe_node_op [OF assms(1)])
  have g: "goes (en_ping E) (en_connecting E) (bs_node b) (AddPingTimer (en_ping E) e (bs_node b))"
    by (rule goes_AddPingTimer [OF later_refs [OF assms(1)] later_less(2) [OF assms]])
  note i = node_inv_goes [OF laterD(2) [OF assms(1)] g] laterD(2) [OF assms(1)]
  then show "node_inv (en_ping E) (en_connecting E) (AddPingTimer (en_ping E) e (bs_node b))"
    "steps (bs_node b) (AddPingTimer (en_ping E) e (bs_node b))"
    by (auto simp: node_inv_def AddPingTimer_stores)
qed

lemma safe_pingEndpoint:
  assumes "later E b0 b" and "e < length (nd_eps (bs_node b0))"
  shows "safe E b0 anything (pingEndpoint E e) b"
  unfolding pingEndpoint_def by (intro safe_intros safe_AddPingTimer assms) simp_all

lemma safe_processPingTimers:
  assumes "env_ok E" and "later E b0 b" and "now \<le> nd_tick (bs_node b)"
  shows "safe E b0 anything (processPingTimers E now) b"
  using assms(2,3)
proof (induction "card (overdue (en_ping E) now (nd_pingList (bs_node b)))" arbitrary: b rule: less_induct)
  case less
  note q = env_okD(3) [OF assms(1)]
  let ?l = "nd_pingList (bs_node b)"
  show ?case
  proof (cases "\<exists>k t e. lru_Front (en_pingQueue E) ?l = Some (k, t, e) \<and> t < now")
    case False
    then show ?thesis using less.prems(1) by (auto simp: processPingTimers.simps [of E now b] safe_def split: option.split)
  next
    case True
    then obtain k t e where f: "lru_Front (en_pingQueue E) ?l = Some (k, t, e)" "t < now" by blast
    define b1 where "b1 = b\<lparr>bs_node := (bs_node b)\<lparr>nd_pingList := lru_PopFront (en_pingQueue E) ?l\<rparr>\<rparr>"
    have l1: "later E b0 b1" unfolding b1_def
      by (intro later_same_objects less.prems(1)) (auto simp: same_objects_def receiving_def Node_CheckFlag_def dest: pop_Get(1) [OF q])
    have "e < length (nd_eps (bs_node b1))"
      using refs_okD(4) [of "en_ping E" "en_connecting E" "bs_node b" k t e] laterD(2) [OF less.prems(1)] pop_Get(4) [OF q f(1)] by (simp add: b1_def node_inv_def)
    then have s: "safe E b1 anything (pingEndpoint E e) b1" by (intro safe_pingEndpoint later_here [OF l1])
    have less: "overdue (en_ping E) now (nd_pingList (bs_node b1)) \<subset> overdue (en_ping E) now ?l"
    proof -
      have g: "lru_Get (en_ping E) k' (nd_pingList (bs_node b1)) = (if k' = k then None else lru_Get (en_ping E) k' ?l)" for k'
        using q f(1) by (simp add: queue_laws_def b1_def)
      have "k \<in> overdue (en_ping E) now ?l" using pop_Get(4) [OF q f(1)] f(2) by (simp add: overdue_def)
      moreover have "k \<notin> overdue (en_ping E) now (nd_pingList (bs_node b1))" using g [of k] by (simp add: overdue_def)
      moreover have "overdue (en_ping E) now (nd_pingList (bs_node b1)) \<subseteq> overdue (en_ping E) now ?l" by (auto simp: overdue_def g split: if_splits)
      ultimately show ?thesis by blast
    qed
    have fin: "finite (overdue (en_ping E) now ?l)" by (rule finite_subset [OF _ pop_Get(5) [OF q]]) (auto simp: overdue_def waiting_def)
    have "safe E b0 anything (processPingTimers E now) b'" if run: "pingEndpoint E e b1 = Some (Returns (r, b'))" and "later E b1 b'" for r b'
    proof -
      have o: "overdue (en_ping E) now (nd_pingList (bs_node b')) \<subseteq> overdue (en_ping E) now (nd_pingList (bs_node b1))" "nd_tick (bs_node b') = nd_tick (bs_node b1)"
        using pingEndpoint_overdue [OF assms(1) _ run] less.prems(2) by (simp_all add: b1_def)
      have "card (overdue (en_ping E) now (nd_pingList (bs_node b'))) < card (overdue (en_ping E) now ?l)"
        using o(1) less by (intro psubset_card_mono [OF fin]) auto
      then show ?thesis using less.hyps later_trans [OF l1 that(2)] o(2) less.prems(2) by (simp add: b1_def)
    qed
    with s show ?thesis by (auto simp: processPingTimers.simps [of E now b] f b1_def [symmetric] safe_def)
  qed
qed

subsection \<open>The clock\<close>

text \<open>Only starting a node and \<open>Proc\<close> move its clock; the periodic work before the pings leaves it where \<open>Proc\<close> put it.\<close>

definition tick_of :: "('p, 'c) Bus \<Rightarrow> int" where
  "tick_of b = nd_tick (bs_node b)"

lemma ticks_leaves: "leaves b m b \<Longrightarrow> tick_of b = tick_of b0 \<Longrightarrow> frames tick_of b0 m b"
  unfolding frames_def tick_of_def by (metis links_timers(1))

lemma ticks_parts [leaves_intros]:
  assumes "tick_of b = tick_of b0"
  shows "frames tick_of b0 call_op b" "frames tick_of b0 (create_connection E addr) b" "frames tick_of b0 (reset_conn E c) b"
    "frames tick_of b0 (conn_op c f) b" "frames tick_of b0 (node_run AllocateMessageSequence) b" "frames tick_of b0 (event_op ev) b"
    "frames tick_of b0 (SendRegister E t conn code sq) b" "frames tick_of b0 (modify_op (\<lambda>b. b\<lparr>bs_private := g b\<rparr>)) b"
    "frames tick_of b0 (node_op (\<lambda>n. n\<lparr>nd_connectingList := h n\<rparr>)) b"
proof -
  have r: "nd_tick n' = nd_tick n" if "Connection_Reset P C d c n = Some n'" for P C d c and n n' :: "('a, 'b) Node"
    using reset_trims(1) [OF that] by (simp add: trims_def)
  show "frames tick_of b0 (reset_conn E c) b" using assms r by (auto simp: frames_def reset_conn_def node_opt_def tick_of_def)
  show "frames tick_of b0 (SendRegister E t conn code sq) b" by (intro ticks_leaves leaves_sends assms) simp
  have "nd_tick n' = nd_tick n" if "CreateConnection u addr n = Some (n', c)" for u c and n n' :: "('a, 'b) Node"
    using that by (auto simp: CreateConnection_def split: option.splits if_splits)
  then show "frames tick_of b0 (create_connection E addr) b"
    using assms by (auto simp: frames_def create_connection_def tick_of_def split: option.splits)
qed (use assms in \<open>auto simp: frames_def tick_of_def call_op_def conn_op_def node_op_def node_run_def modify_op_def upd_conn_def event_op_def log_event_def
      AllocateMessageSequence_def Let_def\<close>)

lemma ticks_when [leaves_intros]: "tick_of b = tick_of b0 \<Longrightarrow> frames tick_of b0 m b \<Longrightarrow> frames tick_of b0 (when_op c m) b"
  by (simp add: when_op_def frames_basic)

lemma ticks_Connect: "tick_of b = tick_of b0 \<Longrightarrow> frames tick_of b0 (Connect E addr) b"
  unfolding Connect_def Connection_Connect_def Node_OnNewConnection_def by (intro leaves_intros) simp_all

lemma safe_frames:
  "safe E b0 anything m b \<Longrightarrow> frames v b1 m b \<Longrightarrow> safe E b0 (\<lambda>_ b'. v b' = v b1) m b"
  by (auto simp: safe_def frames_def)

lemma safe_processUpstreamOperations:
  assumes "later E b0 b"
  shows "safe E b0 anything (processUpstreamOperations E now) b"
proof (rule safe_rebase [OF assms])
  have b: "later E b b" by (rule later_here [OF assms])
  show "safe E b anything (processUpstreamOperations E now) b"
    unfolding processUpstreamOperations_def
    by (intro safe_intros safe_same_objects safe_EndpointGc safe_pingEndpoint b) (use node_refs(2) [OF b] in \<open>simp_all\<close>)
qed

lemma ticks_pingEndpoint:
  assumes "env_ok E"
  shows "frames tick_of b (pingEndpoint E e) b"
  unfolding frames_def tick_of_def using pingEndpoint_overdue [OF assms order_refl] by blast

lemma ticks_processUpstreamOperations:
  assumes "env_ok E"
  shows "frames tick_of b (processUpstreamOperations E now) b"
proof -
  have n: "frames tick_of b0 (node_op f) b" if "\<And>n. nd_tick (f n) = nd_tick n" "tick_of b = tick_of b0" for f and b b0 :: "('a, 'b) Bus"
    using that by (simp add: frames_def node_op_def modify_op_def tick_of_def)
  show ?thesis
    unfolding processUpstreamOperations_def
    by (intro leaves_intros ticks_Connect ticks_pingEndpoint [OF assms] n) (simp_all add: setState_def tick_views)
qed

subsection \<open>Collecting and taking down\<close>

lemma node_inv_gc:
  assumes "node_inv P C n" and "set es \<subseteq> {..<length (nd_eps n)}"
  shows "node_inv P C (fold gc_endpoint es n)" "steps n (fold gc_endpoint es n)"
proof -
  have "node_inv P C (fold gc_endpoint es n) \<and> steps n (fold gc_endpoint es n)"
    using assms
  proof (induction es arbitrary: n)
    case (Cons e es)
    have "node_inv P C (gc_endpoint e n)" "steps n (gc_endpoint e n)"
      using Cons.prems node_inv_RemoveEndpoint [of P C n e] by (simp_all add: gc_endpoint_def)
    moreover from this have "set es \<subseteq> {..<length (nd_eps (gc_endpoint e n))}" using Cons.prems(2) unfolding steps_def by auto
    ultimately show ?case using Cons.IH [of "gc_endpoint e n"] by (auto intro: steps_trans)
  qed simp
  then show "node_inv P C (fold gc_endpoint es n)" "steps n (fold gc_endpoint es n)" by blast+
qed

lemma safe_gc_endpoints:
  assumes "later E b0 b"
  shows "safe E b0 anything gc_endpoints b"
proof -
  define es where "es = nd_pendingEndpointGc (bs_node b)"
  have es: "set es \<subseteq> {..<length (nd_eps (bs_node b))}"
    using refs_okD(6) laterD(2) [OF assms] by (auto simp: es_def node_inv_def)
  have fold: "safe E b anything (node_op (fold gc_endpoint es)) b'" if "later E b b'" for b'
  proof -
    have "set es \<subseteq> {..<length (nd_eps (bs_node b'))}" using es that unfolding later_def by auto
    from node_inv_gc [OF laterD(2) [OF that] this] show ?thesis by (rule safe_node_op [OF that])
  qed
  show ?thesis
    unfolding gc_endpoints_def
    by (rule safe_rebase [OF assms], intro safe_run safe_let safe_seq [OF safe_same_objects] safe_seq [OF fold [unfolded es_def]]
        safe_same_objects later_here [OF assms]) simp_all
qed

lemma safe_executeGC: "later E b0 b \<Longrightarrow> safe E b0 anything executeGC b"
proof -
  assume b: "later E b0 b"
  have "receiving (n\<lparr>nd_flags := fst (snd (openFlag new_guard NodeFlag_InGcConnections (nd_flags n))), nd_pendingConnectionGc := []\<rparr>) = receiving n"
    for n :: "('a, 'b) Node"
    using receiving_flags [OF other_flags(5), of n] by (simp add: openFlag_def new_guard_def receiving_def Node_CheckFlag_def)
  then show ?thesis
    unfolding executeGC_def
    by (intro safe_intros safe_guarded safe_gc_endpoints safe_same_objects b) (simp_all add: same_objects_def)
qed

lemma node_inv_removeChild:
  assumes "node_inv P C n"
  shows "node_inv P C (fst (removeChild i x v n))" "steps n (fst (removeChild i x v n))"
proof -
  have v: "nd_eps (fst (removeChild i x v n)) = nd_eps n" "nd_topology (fst (removeChild i x v n)) = nd_topology n"
    by (simp_all add: removeChild_def Let_def log_event_def split: option.split)
  have "refs_ok P C (fst (removeChild i x v n))" using assms v by (auto simp: node_inv_def removeChild_part_views intro: refs_ok_cong)
  then show "node_inv P C (fst (removeChild i x v n))"
    using assms v route_wf_removed(1) [of n i x v] by (simp add: node_inv_def bind_inv_def quiet_def removeChild_part_views)
  show "steps n (fst (removeChild i x v n))" using v by (simp add: steps_def removeChild_part_views)
qed

lemma node_inv_removeRouteCollection:
  assumes "node_inv P C n"
  shows "node_inv P C (removeRouteCollection n)" "steps n (removeRouteCollection n)"
proof -
  have "node_inv P C (fold (\<lambda>i n. fst (removeChild i None False n)) is n) \<and> steps n (fold (\<lambda>i n. fst (removeChild i None False n)) is n)" for "is"
    using assms
  proof (induction "is" arbitrary: n)
    case (Cons i js)
    then show ?case using node_inv_removeChild [OF Cons.prems, of i None False] by (auto intro: steps_trans)
  qed simp
  then show "node_inv P C (removeRouteCollection n)" "steps n (removeRouteCollection n)" by (simp_all add: removeRouteCollection_def)
qed

lemma safe_reset_ep:
  assumes "later E b0 b" and "e < length (nd_eps (bs_node b))"
  shows "safe E b0 anything (reset_ep E e) b"
proof -
  obtain n' where "Endpoint_Reset (en_ping E) (en_connecting E) 4 e (bs_node b) = Some n'" "node_inv (en_ping E) (en_connecting E) n'" "steps (bs_node b) n'"
    using node_inv_Endpoint_Reset [OF laterD(2) [OF assms(1)] assms(2), of 4] by auto
  then show ?thesis using later_node [OF assms(1)] by (simp add: safe_def reset_ep_def node_opt_def)
qed

lemma safe_onIoStreamDisconnected:
  assumes "later E b0 b"
  shows "safe E b0 anything (onIoStreamDisconnected E io) b"
proof (rule safe_rebase [OF assms])
  have b: "later E b b" by (rule later_here [OF assms])
  have c: "c < length (nd_conns (bs_node b))" if "bs_private b io = Some c" for c
    using laterD(1) [OF assms] that unfolding bus_inv_def by (metis below_simps(2))
  show "safe E b anything (onIoStreamDisconnected E io) b"
    unfolding onIoStreamDisconnected_def
    by (intro safe_intros safe_conn_op b) (use c in \<open>simp_all add: setStatus_def CheckFlag_def\<close>)
qed

lemma safe_close_all: "later E b0 b \<Longrightarrow> safe E b0 anything (close_all E ios) b"
  by (induction ios arbitrary: b) (auto intro!: safe_intros safe_onIoStreamDisconnected)

lemma safe_close_channel: "later E b0 b \<Longrightarrow> safe E b0 anything (close_channel E) b"
  unfolding close_channel_def by (intro safe_intros safe_close_all safe_modify) (auto intro: later_view)

lemma safe_clear_ping:
  assumes "env_ok E" and "later E b0 b"
  shows "safe E b0 anything (clear_ping E) b"
proof -
  obtain m where m: "drain_ping (en_pingQueue E) (nd_pingList (bs_node b)) = Some m" "\<And>k. lru_Get (en_ping E) k m = None"
    using drain_ping_empties [OF env_okD(3) [OF assms(1)]] by blast
  have "same_objects (en_ping E) (en_connecting E) (bs_node b) ((bs_node b)\<lparr>nd_pingList := m\<rparr>)"
    using m(2) by (simp add: same_objects_def receiving_def Node_CheckFlag_def)
  then show ?thesis using later_same_objects [OF assms(2)] m(1) by (simp add: safe_def clear_ping_def node_opt_def)
qed

lemma safe_Node_Reset:
  assumes "env_ok E" and "later E b0 b" and idle: "\<not> receiving (bs_node b0)"
  shows "safe E b0 anything (Node_Reset E) b"
proof -
  have up: "safe E b0 anything (case nd_upstream (bs_node b') of None \<Rightarrow> ret_op () | Some u \<Rightarrow> node_op (\<lambda>n. fst (RemoveEndpoint u n))) b'" if "later E b0 b'" for b'
    using node_inv_RemoveEndpoint [OF laterD(2) [OF that]] node_refs(2) [OF that] by (intro safe_intros safe_node_op that) auto
  have col: "safe E b0 anything (node_op removeRouteCollection) b'" if "later E b0 b'" for b'
    by (rule safe_node_op [OF that]) (rule node_inv_removeRouteCollection [OF laterD(2) [OF that]])+
  have self: "safe E b0 anything (case nd_self (bs_node b') of None \<Rightarrow> ret_op () | Some self \<Rightarrow> reset_ep E self) b'" if "later E b0 b'" for b'
    using node_refs(1) [OF that] by (intro safe_intros safe_reset_ep that) auto
  have gc: "safe E b0 anything (node_op (\<lambda>n. n\<lparr>nd_flags := nd_flags n OR NodeFlag_ResettingGc, nd_pendingEndpointGc := [], nd_pendingConnectionGc := []\<rparr>)) b'"
    if "later E b0 b'" for b'
    using receiving_flags [OF other_flags(6), of "bs_node b'"] by (intro safe_same_objects that) (simp add: same_objects_def receiving_def Node_CheckFlag_def)
  have last: "safe E b0 anything (node_op (\<lambda>n. (setState NodeState_Created n)\<lparr>nd_flags := 0\<rparr>)) b'" if "later E b0 b'" for b'
    using that idle by (intro safe_same_objects that) (simp add: same_objects_def setState_def receiving_def Node_CheckFlag_def later_def)
  have queues: "safe E b0 anything (modify_op (\<lambda>b. b\<lparr>bs_selfData := [], bs_selfCommand := []\<rparr>)) b'" if "later E b0 b'" for b'
    by (intro safe_modify later_view [OF that]) simp_all
  show ?thesis
    unfolding Node_Reset_def
    by (rule safe_guarded [OF assms(2) other_flags(1)], rule safe_run, rule safe_seq [OF up], assumption, rule safe_seq [OF col], assumption,
        rule safe_seq [OF safe_drain_connecting [OF assms(1)]], assumption, rule safe_run, rule safe_seq [OF self], assumption,
        rule safe_seq [OF gc], assumption, rule safe_seq [OF safe_clear_ping [OF assms(1)]], assumption,
        rule safe_seq [OF safe_close_channel], assumption, rule safe_seq [OF queues], assumption, rule safe_seq [OF last], assumption, rule safe_ret)
      simp_all
qed

subsection \<open>Every call returns\<close>

lemma safe_dispatchSelf: "later E b0 b \<Longrightarrow> safe E b0 anything (dispatchSelf E) b"
  unfolding dispatchSelf_def numeral_2_eq_2 by (rule safe_dispatchAllSelfMessages)

text \<open>The clock first, then the three kinds of timers, in that order: the pings need the clock that \<open>Proc\<close> has set.\<close>

lemma safe_timers:
  assumes "env_ok E" and "later E b0 b" and "now \<le> tick_of b"
    and "\<And>b'. later E b0 b' \<Longrightarrow> safe E b0 Q m b'"
  shows "safe E b0 Q (bind_op (processConnectingTimeout E now) (\<lambda>_. bind_op (processUpstreamOperations E now) (\<lambda>_. bind_op (processPingTimers E now) (\<lambda>_. m)))) b"
proof (rule safe_bind [OF safe_processConnectingTimeout [OF assms(1,2)]])
  fix x b1 assume b1: "later E b0 b1" "nd_tick (bs_node b1) = nd_tick (bs_node b)"
  have up: "safe E b0 (\<lambda>_ b'. tick_of b' = tick_of b1) (processUpstreamOperations E now) b1"
    by (rule safe_frames [OF safe_processUpstreamOperations [OF b1(1)] ticks_processUpstreamOperations [OF assms(1)]])
  show "safe E b0 Q (bind_op (processUpstreamOperations E now) (\<lambda>_. bind_op (processPingTimers E now) (\<lambda>_. m))) b1"
  proof (rule safe_bind [OF up])
    fix y b2 assume b2: "later E b0 b2" "tick_of b2 = tick_of b1"
    have "now \<le> nd_tick (bs_node b2)" using assms(3) b1(2) b2(2) by (simp add: tick_of_def)
    then show "safe E b0 Q (bind_op (processPingTimers E now) (\<lambda>_. m)) b2"
      using assms(4) by (intro safe_seq safe_processPingTimers assms(1) b2(1))
  qed
qed

lemma safe_shut_down:
  assumes "env_ok E" and "later E b0 b" and "\<not> receiving (bs_node b0)"
  shows "safe E b0 anything (bind_op (dispatchSelf E) (\<lambda>k. bind_op (Node_Reset E) (\<lambda>_. ret_op (f k)))) b"
  by (intro safe_seq [OF safe_dispatchSelf] safe_seq [OF safe_Node_Reset] safe_ret assms) simp_all

lemma safe_Node_Proc:
  assumes "env_ok E" and "later E b0 b" and "\<not> receiving (bs_node b0)"
  shows "safe E b0 anything (Node_Proc E now) b"
  unfolding Node_Proc_def
proof (rule safe_guarded [OF assms(2) other_flags(2)])
  fix b1 assume b1: "later E b0 b1"
  have tick: "safe E b0 (\<lambda>_ b'. now \<le> tick_of b') (node_op (\<lambda>n. if nd_tick n < now then n\<lparr>nd_tick := now\<rparr> else n)) b1"
    using safe_same_objects [OF b1, of "\<lambda>n. if nd_tick n < now then n\<lparr>nd_tick := now\<rparr> else n"]
    by (auto simp: safe_def node_op_def modify_op_def tick_of_def)
  have work: "safe E b0 anything (bind_op (dispatchSelf E) (\<lambda>k. bind_op executeGC (\<lambda>_. ret_op (g k)))) b'" if "later E b0 b'" for b' and g :: "int \<Rightarrow> int \<times> ErrorType"
    by (intro safe_seq [OF safe_dispatchSelf] safe_seq [OF safe_executeGC] safe_ret that) simp_all
  show "safe E b0 anything (bind_op (node_op (\<lambda>n. if nd_tick n < now then n\<lparr>nd_tick := now\<rparr> else n)) (\<lambda>_. run_op (\<lambda>b.
        if nd_state (bs_node b) = NodeState_Created then ret_op (0, EN_ATBUS_ERR_NOT_INITED)
        else if Node_CheckFlag NodeFlag_Shutdown (bs_node b) then
          bind_op (dispatchSelf E) (\<lambda>k. bind_op (Node_Reset E) (\<lambda>_. ret_op (wrap32 (1 + k), EN_ATBUS_ERR_SUCCESS)))
        else
          bind_op (processConnectingTimeout E now) (\<lambda>_.
          bind_op (processUpstreamOperations E now) (\<lambda>_.
          bind_op (processPingTimers E now) (\<lambda>_.
          bind_op (dispatchSelf E) (\<lambda>k.
          bind_op executeGC (\<lambda>_. ret_op (wrap32 k, EN_ATBUS_ERR_SUCCESS))))))))) b1"
    by (rule safe_bind [OF tick], intro safe_run safe_if safe_ret safe_shut_down safe_timers work assms(1,3)) simp_all
qed

lemma safe_Poll:
  assumes "env_ok E" and "later E b0 b" and "\<not> receiving (bs_node b0)"
  shows "safe E b0 anything (Poll E) b"
  unfolding Poll_def
  by (intro safe_run safe_if safe_ret safe_guarded safe_shut_down safe_seq [OF safe_dispatchSelf] safe_seq [OF safe_executeGC]
      safe_seq [OF safe_Node_Reset] assms) simp_all

lemma safe_sequence_of [safe_intros]: "later E b0 b \<Longrightarrow> safe E b0 anything (sequence_of options) b"
  unfolding sequence_of_def by (intro safe_intros) simp_all

lemma safe_SendDataWithOptions: "later E b0 b \<Longrightarrow> safe E b0 anything (SendDataWithOptions E tid t data options) b"
  unfolding SendDataWithOptions_def dispatchSelf_def numeral_2_eq_2 by (intro safe_intros outer.safe_SendDataMessage) simp_all

lemma safe_SendCustomCommandWithOptions: "later E b0 b \<Longrightarrow> safe E b0 anything (SendCustomCommandWithOptions E tid args options) b"
  unfolding SendCustomCommandWithOptions_def dispatchSelf_def numeral_2_eq_2 by (intro safe_intros outer.safe_SendDataMessage) simp_all

lemma safe_onIoStreamAccepted:
  assumes "later E b0 b"
  shows "safe E b0 anything (onIoStreamAccepted E io) b"
proof -
  define accept where "accept = (\<lambda>cn. (setStatus ConnectionState_Handshaking (Connection_setFlag ConnectionFlag_ServerMode True
        (Connection_setFlag ConnectionFlag_RegFd True cn)))\<lparr>cn_ioStreamConnection := Some io\<rparr>)"
  have a: "cn_binding (accept x) = cn_binding x" "CheckFlag ConnectionFlag_Resetting (accept x) = CheckFlag ConnectionFlag_Resetting x" for x
    by (simp_all add: accept_def setStatus_def Connection_setFlag_def CheckFlag_def has_flag_put_other ConnectionFlag_Resetting_def ConnectionFlag_RegFd_def
        ConnectionFlag_ServerMode_def)
  show ?thesis
    unfolding onIoStreamAccepted_def accept_def [symmetric]
    by (intro safe_run safe_if safe_ret safe_new_connection assms) (auto intro!: safe_intros safe_conn_op safe_private simp: a)
qed

lemma safe_onIoStreamReceived:
  assumes "later E b0 b"
  shows "safe E b0 anything (onIoStreamReceived E io status payload) b"
proof (rule safe_rebase [OF assms])
  have b: "later E b b" by (rule later_here [OF assms])
  have c: "c < length (nd_conns (bs_node b))" if "bs_private b io = Some c" for c
    using laterD(1) [OF assms] that unfolding bus_inv_def by (metis below_simps(2))
  have body: "safe E b anything (case u of Panics \<Rightarrow> panic_op | Returns (om, errCode) \<Rightarrow> onReceiveMessage E (dispatchSelf E) (Some c) (the om) status errCode) b'"
    if "later E b b'" "bs_private b io = Some c" for b' u c
    unfolding dispatchSelf_def numeral_2_eq_2
    using outer.safe_onReceiveMessage [OF that(1)] c [OF that(2)] by (auto intro: safe_panic split: outcome.split)
  show "safe E b anything (onIoStreamReceived E io status payload) b"
    unfolding onIoStreamReceived_def
    by (intro safe_run safe_if safe_ret safe_option safe_seq [OF safe_conn_op] body b) (simp_all add: pulled_def Let_def CheckFlag_def)
qed

lemma safe_onIoStreamWritten: "later E b0 b \<Longrightarrow> safe E b0 anything (onIoStreamWritten io status payload) b"
  unfolding onIoStreamWritten_def by (intro safe_intros safe_conn_op) (simp_all add: written_def Let_def CheckFlag_def)

subsection \<open>Setting up\<close>

lemma node_inv_set_up:
  assumes "node_inv P C n" and "topo_inv r" and "attached x = []" and "\<not> Endpoint_GetFlag EndpointFlag_Resetting x"
    and "\<And>k. lru_Get P k p = None" and "\<And>a. lru_Get C a c = None"
    and "nd_conns n' = nd_conns n" and "nd_eps n' = nd_eps n @ [x]" and "nd_self n' = Some (length (nd_eps n))" and "nd_upstream n' = nd_upstream n"
    and "nd_route n' = []" and "nd_topology n' = r" and "nd_pingList n' = p" and "nd_connectingList n' = c"
    and "nd_pendingConnectionGc n' = nd_pendingConnectionGc n" and "nd_pendingEndpointGc n' = nd_pendingEndpointGc n"
  shows "node_inv P C n'"
proof -
  let ?n = "n\<lparr>nd_eps := nd_eps n @ [x]\<rparr>"
  have i: "node_inv P C ?n" by (rule node_inv_new_ep(1) [OF assms(1,3,4)])
  have ids: "ids n' = ids ?n" using assms(8) by (simp add: ids_def)
  have "refs_ok P C n'" using i assms(5-8,13-16) ids by (auto simp: node_inv_def refs_ok_def)
  moreover have "in_range n'"
    using route_wfD(1) [of ?n] i assms(9-11) ids by (auto simp: node_inv_def in_range_def ids_def assms(8) split: option.splits)
  then have "route_wf n'" using assms(11) by (auto simp: route_wf_def split: option.splits)
  ultimately show ?thesis using i assms(2,7,8,12) by (simp add: node_inv_def bind_inv_def quiet_def)
qed

lemma init_configured_returns:
  assumes "env_ok E" and "later E b0 b"
  shows "safe E b0 anything (init_configured E i) b"
proof -
  define data where "data = \<lparr>td_Pid = wrap32 (en_pid E), td_Hostname = en_osHostname E, td_Labels = TopologyLabels (conf_of b)\<rparr>"
  have topo: "topo_inv (nd_topology (bs_node b))" using laterD(2) [OF assms(2)] by (simp add: node_inv_def)
  obtain r where r: "topo_inv r" and run: "init_topology i data b = Some (Returns ((), b\<lparr>bs_node := (bs_node b)\<lparr>nd_topology := r\<rparr>\<rparr>))"
    using UpdatePeer_total [OF topo, of i 0 "Some data"] topo
    by (cases "i = 0") (auto simp: init_topology_def ret_op_def node_opt_def intro: that [of "nd_topology (bs_node b)"])
  have e: "\<not> Endpoint_GetFlag f x" if "ep_flags x = 0" for f x using that by (simp add: Endpoint_GetFlag_def)
  define x where "x = last (nd_eps (fst (CreateEndpoint i (wrap32 (en_pid E)) (en_osHostname E) (en_time E (bs_calls b)) (bs_node b))))"
  have x: "ep_flags x = 0" "attached x = []"
    and xe: "nd_eps (fst (CreateEndpoint i (wrap32 (en_pid E)) (en_osHostname E) (en_time E (bs_calls b)) m)) = nd_eps m @ [x]" for m :: "('a, 'b) Node"
    by (simp_all add: x_def CreateEndpoint_def attached_def)
  have "\<exists>b2. init_configured E i b = Some (Returns (EN_ATBUS_ERR_SUCCESS, b2)) \<and> nd_conns (bs_node b2) = nd_conns (bs_node b)
      \<and> nd_eps (bs_node b2) = nd_eps (bs_node b) @ [x] \<and> nd_self (bs_node b2) = Some (length (nd_eps (bs_node b)))
      \<and> nd_upstream (bs_node b2) = nd_upstream (bs_node b) \<and> nd_route (bs_node b2) = [] \<and> nd_topology (bs_node b2) = r
      \<and> nd_pingList (bs_node b2) = lru_New (en_pingQueue E) \<and> nd_connectingList (bs_node b2) = lru_New (en_connectingQueue E)
      \<and> nd_pendingConnectionGc (bs_node b2) = nd_pendingConnectionGc (bs_node b) \<and> nd_pendingEndpointGc (bs_node b2) = nd_pendingEndpointGc (bs_node b)
      \<and> nd_flags (bs_node b2) = nd_flags (bs_node b) \<and> bs_ctx b2 = bs_ctx b \<and> bs_private b2 = bs_private b"
    unfolding init_configured_def
    by (cases "bs_ioConf b")
      (simp_all add: run_op_def bind_op_def run [unfolded data_def] ReloadCrypto_def ReloadCompression_def GetIoStreamConfigure_def modify_op_def
        node_op_def ret_op_def call_op_def node_run_def CreateEndpoint_def Let_def ClearPingTimer_def Endpoint_GetFlag_def setState_def x_def)
  then obtain b2 where run2: "init_configured E i b = Some (Returns (EN_ATBUS_ERR_SUCCESS, b2))"
    and n: "nd_conns (bs_node b2) = nd_conns (bs_node b)" "nd_eps (bs_node b2) = nd_eps (bs_node b) @ [x]"
      "nd_self (bs_node b2) = Some (length (nd_eps (bs_node b)))" "nd_upstream (bs_node b2) = nd_upstream (bs_node b)" "nd_route (bs_node b2) = []"
      "nd_topology (bs_node b2) = r" "nd_pingList (bs_node b2) = lru_New (en_pingQueue E)" "nd_connectingList (bs_node b2) = lru_New (en_connectingQueue E)"
      "nd_pendingConnectionGc (bs_node b2) = nd_pendingConnectionGc (bs_node b)" "nd_pendingEndpointGc (bs_node b2) = nd_pendingEndpointGc (bs_node b)"
    and v: "nd_flags (bs_node b2) = nd_flags (bs_node b)" "bs_ctx b2 = bs_ctx b" "bs_private b2 = bs_private b"
    by blast
  have "node_inv (en_ping E) (en_connecting E) (bs_node b2)"
    by (rule node_inv_set_up [OF laterD(2) [OF assms(2)] r x(2) e [OF x(1)] pop_Get(6) [OF env_okD(3) [OF assms(1)]] pop_Get(6) [OF env_okD(4) [OF assms(1)]] n])
  then have "later E b0 b2" using assms(2) n(1,2) v by (simp add: later_def bus_inv_def receiving_def Node_CheckFlag_def)
  then show ?thesis using run2 by (simp add: safe_def)
qed

lemma safe_Init:
  assumes "env_ok E" and "later E b0 b" and "\<not> receiving (bs_node b0)"
  shows "safe E b0 anything (Init E i conf) b"
  unfolding Init_def
  by (intro safe_run safe_seq [OF safe_if] safe_seq [OF safe_Node_Reset] safe_seq [OF safe_same_objects] safe_ret init_configured_returns assms) simp_all

lemma safe_ReloadCrypto: "later E b0 b \<Longrightarrow> safe E b0 anything (ReloadCrypto exchange interval algorithms) b"
proof -
  assume b: "later E b0 b"
  have "later E b0 (b\<lparr>bs_keyExchange := x, bs_node := (bs_node b)\<lparr>nd_configure := conf\<rparr>\<rparr>)" for x conf
    by (rule later_view [OF later_same_objects [OF b same_objects_parts(2)]]) simp_all
  then show ?thesis unfolding ReloadCrypto_def Let_def by (intro safe_seq [OF safe_modify] safe_ret) simp_all
qed

lemma safe_ReloadCompression: "later E b0 b \<Longrightarrow> safe E b0 anything (ReloadCompression algorithms level) b"
  unfolding ReloadCompression_def by (intro safe_seq [OF safe_same_objects] safe_ret) simp_all

lemma safe_StartWithConfigure: "later E b0 b \<Longrightarrow> safe E b0 anything (StartWithConfigure E timepoint) b"
  unfolding StartWithConfigure_def
  by (intro safe_intros safe_same_objects safe_modify safe_actived) (auto simp: initHashCode_def intro: later_view)

lemma safe_disconnect:
  assumes "later E b0 b"
  shows "safe E b0 anything (disconnect_op E i) b"
proof -
  note inv = laterD(2) [OF assms]
  have reset: "\<exists>n'. Endpoint_Reset (en_ping E) (en_connecting E) 4 e n = Some n' \<and> later E b0 (b\<lparr>bs_node := n'\<rparr>)"
    if n: "node_inv (en_ping E) (en_connecting E) n" "steps (bs_node b) n" "e < length (nd_eps n)" for n e
  proof -
    obtain n' where "Endpoint_Reset (en_ping E) (en_connecting E) 4 e n = Some n'" "node_inv (en_ping E) (en_connecting E) n'" "steps n n'"
      using node_inv_Endpoint_Reset [OF n(1,3), of 4] by auto
    moreover from this have "later E b0 (b\<lparr>bs_node := n'\<rparr>)" by (intro later_node [OF assms] steps_trans [OF n(2)])
    ultimately show ?thesis by simp
  qed
  define up where "up = (case nd_upstream (bs_node b) of Some u \<Rightarrow> if ep_id (nd_eps (bs_node b) ! u) = i then Some u else None | None \<Rightarrow> None)"
  have len: "length (nd_eps (bs_node b)) = length (nd_eps (fst (removeChild i None False (bs_node b))))"
    by (simp add: removeChild_def Let_def log_event_def split: option.split)
  have e: "e < length (nd_eps (bs_node b))" if "findRouteEndpoint i (bs_node b) = Some e" for e
    using route_wfD(6) [of "bs_node b" i e] inv that by (simp add: node_inv_def findRouteEndpoint_def ids_def)
  show ?thesis
  proof (cases up)
    case (Some u)
    then have "u < length (nd_eps (bs_node b))" using node_refs(2) [OF assms] by (auto simp: up_def split: option.splits if_splits)
    then have u: "u < length (nd_eps (log_event (OnEndpointRemoved u) (bs_node b)))" by (simp add: log_event_def)
    have i: "node_inv (en_ping E) (en_connecting E) (log_event (OnEndpointRemoved u) (bs_node b))"
      by (rule node_inv_cong [OF inv]) (simp_all add: log_event_def)
    have st: "steps (bs_node b) (log_event (OnEndpointRemoved u) (bs_node b))" by (simp add: log_event_def steps_def receiving_def Node_CheckFlag_def)
    obtain n' where n': "Endpoint_Reset (en_ping E) (en_connecting E) 4 u (log_event (OnEndpointRemoved u) (bs_node b)) = Some n'" "later E b0 (b\<lparr>bs_node := n'\<rparr>)"
      using reset [OF i st u] by blast
    have "disconnect_op E i b = Some (Returns (EN_ATBUS_ERR_SUCCESS, b\<lparr>bs_node := n'\<rparr>))"
      by (simp add: disconnect_op_def Node_Disconnect_def Let_def up_def [symmetric] Some n'(1))
    then show ?thesis using n'(2) by (simp add: safe_def)
  next
    case None
    show ?thesis
    proof (cases "findRouteEndpoint i (bs_node b)")
      case missing: None
      have "disconnect_op E i b = Some (Returns (EN_ATBUS_ERR_SUCCESS, b))"
        by (simp add: disconnect_op_def Node_Disconnect_def Let_def up_def [symmetric] None missing)
      then show ?thesis using assms by (simp add: safe_def)
    next
      case found: (Some e)
      obtain n' where n': "Endpoint_Reset (en_ping E) (en_connecting E) 4 e (fst (removeChild i None False (bs_node b))) = Some n'" "later E b0 (b\<lparr>bs_node := n'\<rparr>)"
        using reset [OF node_inv_removeChild [OF inv, of i None False], of e] e [OF found] unfolding len by blast
      have "disconnect_op E i b = Some (Returns (EN_ATBUS_ERR_SUCCESS, b\<lparr>bs_node := n'\<rparr>))"
        by (simp add: disconnect_op_def Node_Disconnect_def Let_def up_def [symmetric] None found n'(1))
      then show ?thesis using n'(2) by (simp add: safe_def)
    qed
  qed
qed

subsection \<open>The node as a whole\<close>

lemma safe_void: "safe E b0 anything m b \<Longrightarrow> safe E b0 anything (void m) b"
  unfolding void_def by (intro safe_seq safe_ret) simp_all

lemma safe_Shutdown: "later E b0 b \<Longrightarrow> safe E b0 anything (node_run (Shutdown handle reason)) b"
proof -
  assume b: "later E b0 b"
  have "same_objects P C n (fst (Shutdown handle reason n))" for P C and n :: "('a, 'b) Node"
    by (simp add: same_objects_def Shutdown_def OnShutdown_def log_event_def receiving_def Node_CheckFlag_def)
  then have "later E b0 (b\<lparr>bs_node := fst (Shutdown handle reason (bs_node b))\<rparr>)" by (rule later_same_objects [OF b])
  then show ?thesis by (simp add: safe_def node_run_def split: prod.split) (metis fst_conv)
qed

lemma safe_RemoveEndpointByID:
  assumes "later E b0 b"
  shows "safe E b0 anything (node_run (RemoveEndpointByID tid)) b"
proof (rule safe_node_run [OF assms])
  have "e < length (nd_eps (bs_node b))" if "GetEndpoint tid (bs_node b) = Some e" for e
    using node_refs(3) [OF assms, of tid] that by simp
  then show "node_inv (en_ping E) (en_connecting E) (fst (RemoveEndpointByID tid (bs_node b)))"
    "steps (bs_node b) (fst (RemoveEndpointByID tid (bs_node b)))"
    using node_inv_RemoveEndpoint [OF laterD(2) [OF assms]] laterD(2) [OF assms] by (auto simp: RemoveEndpointByID_def split: option.split)
qed simp

lemma safe_perform:
  assumes "env_ok E" and "later E b0 b" and "\<not> receiving (bs_node b0)"
  shows "safe E b0 anything (perform E a) b"
  using assms
  by (cases a) (simp_all add: safe_void safe_Init safe_StartWithConfigure safe_ReloadCrypto safe_ReloadCompression safe_Listen safe_Connect safe_disconnect
      safe_SendDataWithOptions safe_SendCustomCommandWithOptions safe_SetTopologyUpstream safe_RemoveEndpointByID safe_Node_Proc safe_Poll safe_Shutdown
      safe_Node_Reset safe_onIoStreamAccepted safe_onIoStreamReceived safe_onIoStreamWritten safe_onIoStreamDisconnected)

text \<open>A node at rest: between two calls it keeps the invariant and is not handling its own messages.\<close>

definition at_rest :: "('p, 'c) env \<Rightarrow> ('p, 'c) Bus \<Rightarrow> bool" where
  "at_rest E b \<longleftrightarrow> bus_inv E b \<and> \<not> receiving (bs_node b)"

lemma NewNode_at_rest: "env_ok E \<Longrightarrow> at_rest E (NewNode E)"
  by (simp add: at_rest_def bus_inv_def node_inv_def NewNode_def bind_inv_def bindings_agree_def quiet_def route_wf_def in_range_def topo_inv_create
      refs_ok_def env_ok_def pop_Get(6) receiving_def Node_CheckFlag_def ids_def topo_upstream_def self_id_def split: option.split)

lemma perform_at_rest:
  assumes "env_ok E" and "at_rest E b"
  shows "perform E a b = Some Panics \<or> (\<exists>b'. perform E a b = Some (Returns ((), b')) \<and> at_rest E b'
     \<and> length (nd_conns (bs_node b)) \<le> length (nd_conns (bs_node b')) \<and> length (nd_eps (bs_node b)) \<le> length (nd_eps (bs_node b')))"
  using safe_perform [OF assms(1) later_refl, of b a] assms(2) by (auto simp: at_rest_def safe_def later_def)

lemma reachable_at_rest:
  assumes "env_ok E" and "reachable E b"
  shows "at_rest E b"
  using assms(2)
proof (induction rule: reachable.induct)
  case (start i conf b)
  have "safe E (NewNode E) anything (Init E i conf) (NewNode E)"
    using NewNode_at_rest [OF assms(1)] by (intro safe_Init assms(1) later_refl) (simp_all add: at_rest_def)
  then show ?case using start NewNode_at_rest [OF assms(1)] by (auto simp: CreateNode_def safe_def later_def at_rest_def)
next
  case (step b a b')
  then show ?case using perform_at_rest [OF assms(1), of b a] by auto
qed

text \<open>C3: 
  From every state a node can reach, every call of the application and every event of the channel returns or panics, and leaves the
  node in a state that keeps the invariant and in which it is not handling its own messages.
\<close>

theorem node_never_hangs:
  assumes "env_ok E" and "reachable E b"
  shows "perform E a b = Some Panics \<or> (\<exists>b'. perform E a b = Some (Returns ((), b')) \<and> reachable E b' \<and> bus_inv E b' \<and> \<not> receiving (bs_node b'))"
  using perform_at_rest [OF assms(1) reachable_at_rest [OF assms], of a] assms(2) unfolding at_rest_def by (blast intro: reachable.step)

text \<open>C5: 
  In every state a node can reach, whatever names a connection or an endpoint names one that exists: the binding of a connection, the
  connections of an endpoint, the route table, the endpoint of the node itself and the upstream, the entries of both timer lists and of
  both lists of the collector, and the private data of a stream connection. Every connection has its context.
\<close>

theorem reachable_references:
  assumes "env_ok E" and "reachable E b" and "n = bs_node b"
  shows "list_all (\<lambda>c. below (length (nd_eps n)) (cn_binding c)) (nd_conns n) \<and> list_all (\<lambda>e. list_all (\<lambda>c. c < length (nd_conns n)) (attached e)) (nd_eps n)
    \<and> list_all (\<lambda>(i, e). e < length (nd_eps n) \<and> ep_id (nd_eps n ! e) = i) (nd_route n)
    \<and> below (length (nd_eps n)) (nd_self n) \<and> below (length (nd_eps n)) (nd_upstream n)
    \<and> list_all (\<lambda>e. e < length (nd_eps n)) (nd_pendingEndpointGc n) \<and> list_all (\<lambda>c. c < length (nd_conns n)) (nd_pendingConnectionGc n)
    \<and> (\<forall>i. below (length (nd_eps n)) (map_option snd (lru_Get (en_ping E) i (nd_pingList n))))
    \<and> (\<forall>addr. below (length (nd_conns n)) (map_option snd (lru_Get (en_connecting E) addr (nd_connectingList n))))
    \<and> (\<forall>io. below (length (nd_conns n)) (bs_private b io)) \<and> length (bs_ctx b) = length (nd_conns n)"
proof -
  have b: "bus_inv E b" using reachable_at_rest [OF assms(1,2)] by (simp add: at_rest_def)
  then have r: "refs_ok (en_ping E) (en_connecting E) n" "in_range n" by (simp_all add: bus_inv_def node_inv_def route_wf_def assms(3))
  have l: "length (ids n) = length (nd_eps n)" by (simp add: ids_def)
  have "list_all (\<lambda>(i, e). e < length (nd_eps n) \<and> ep_id (nd_eps n ! e) = i) (nd_route n)"
    using r(2) by (auto simp: in_range_def list_all_iff ids_def)
  moreover have "below (length (nd_eps n)) (nd_self n)" "below (length (nd_eps n)) (nd_upstream n)"
    using r(2) by (auto simp: in_range_def ids_def below_def split: option.splits)
  moreover have "\<forall>i. below (length (nd_eps n)) (map_option snd (lru_Get (en_ping E) i (nd_pingList n)))"
    "\<forall>addr. below (length (nd_conns n)) (map_option snd (lru_Get (en_connecting E) addr (nd_connectingList n)))"
    using r(1) by (auto simp: refs_ok_def below_def l split: option.splits)
  moreover have "list_all (\<lambda>c. below (length (nd_eps n)) (cn_binding c)) (nd_conns n)" "list_all (\<lambda>e. list_all (\<lambda>c. c < length (nd_conns n)) (attached e)) (nd_eps n)"
    "list_all (\<lambda>e. e < length (nd_eps n)) (nd_pendingEndpointGc n)" "list_all (\<lambda>c. c < length (nd_conns n)) (nd_pendingConnectionGc n)"
    using r(1) unfolding refs_ok_def l list_all_iff by auto
  moreover have "\<forall>io. below (length (nd_conns n)) (bs_private b io)" "length (bs_ctx b) = length (nd_conns n)"
    using b by (simp_all add: bus_inv_def assms(3))
  ultimately show ?thesis by blast
qed

text \<open>C4: 
  In every state a node can reach, a connection is attached to an endpoint exactly when it is bound to it, an endpoint in the route table
  is found by its id and by no other, and the upstream is not in the table.
\<close>

theorem reachable_links:
  assumes "env_ok E" and "reachable E b" and "n = bs_node b"
  shows "(\<forall>e<length (nd_eps n). \<forall>c<length (nd_conns n). c \<in> set (attached (nd_eps n ! e)) \<longleftrightarrow> cn_binding (nd_conns n ! c) = Some e)
    \<and> (\<forall>(i, e) \<in> set (nd_route n). GetEndpoint i n = Some e \<and> ep_id (nd_eps n ! e) = i \<and> nd_upstream n \<noteq> Some e)"
proof (intro conjI)
  have r: "bind_inv n" "route_wf n" using reachable_at_rest [OF assms(1,2)] by (simp_all add: at_rest_def bus_inv_def node_inv_def assms(3))
  show "\<forall>e<length (nd_eps n). \<forall>c<length (nd_conns n). c \<in> set (attached (nd_eps n ! e)) \<longleftrightarrow> cn_binding (nd_conns n ! c) = Some e"
    using r(1) by (simp add: bind_inv_def bindings_agree_def)
  show "\<forall>(i, e) \<in> set (nd_route n). GetEndpoint i n = Some e \<and> ep_id (nd_eps n ! e) = i \<and> nd_upstream n \<noteq> Some e"
  proof (intro ballI, clarify)
    fix i e assume ie: "(i, e) \<in> set (nd_route n)"
    then have m: "map_of (nd_route n) i = Some e" using r(2) by (simp add: route_wf_def)
    have id: "e < length (ids n)" "ids n ! e = i" using ie r(2) by (auto simp: route_wf_def in_range_def list_all_iff)
    have u: "nd_upstream n \<noteq> Some u" if "ids n ! u = i" for u using r(2) m that by (auto simp: route_wf_def)
    have "GetEndpoint i n = Some e"
      using GetEndpoint_lookup [of n i] r(2) m u by (auto simp: route_wf_def lookup_def split: option.splits)
    then show "GetEndpoint i n = Some e \<and> ep_id (nd_eps n ! e) = i \<and> nd_upstream n \<noteq> Some e" using id u by (auto simp: ids_def)
  qed
qed

subsection \<open>What \<open>Poll\<close> does\<close>

definition ends :: "('a \<Rightarrow> ('p, 'c) Bus \<Rightarrow> bool) \<Rightarrow> ('p, 'c, 'a) op \<Rightarrow> ('p, 'c) Bus \<Rightarrow> bool" where
  "ends Q m b \<longleftrightarrow> (\<forall>x b'. m b = Some (Returns (x, b')) \<longrightarrow> Q x b')"

lemma ends_bind: "ends R m b \<Longrightarrow> (\<And>x b1. R x b1 \<Longrightarrow> ends Q (f x) b1) \<Longrightarrow> ends Q (bind_op m f) b"
  unfolding ends_def bind_op_Returns by blast

lemma ends_last: "(\<And>x b1. ends Q (f x) b1) \<Longrightarrow> ends Q (bind_op m f) b"
  unfolding ends_def bind_op_Returns by blast

lemma ends_basic: "Q x b \<Longrightarrow> ends Q (ret_op x) b" "ends Q (f b) b \<Longrightarrow> ends Q (run_op f) b"
  by (simp_all add: ends_def ret_op_def run_op_def)

lemma ends_update: "Q () (b\<lparr>bs_node := g (bs_node b)\<rparr>) \<Longrightarrow> ends Q (node_op g) b" "Q () (h b) \<Longrightarrow> ends Q (modify_op h) b"
  by (simp_all add: ends_def node_op_def modify_op_def)

definition self_queues :: "('p, 'c) Bus \<Rightarrow> Message list \<times> Message list" where
  "self_queues b = (bs_selfData b, bs_selfCommand b)"

lemma self_queues_node [simp]: "self_queues (b\<lparr>bs_node := n\<rparr>) = self_queues b"
  by (simp add: self_queues_def)

lemma bind_node: "bind_op (node_op g) f b = f () (b\<lparr>bs_node := g (bs_node b)\<rparr>)"
  by (simp add: bind_op_def node_op_def modify_op_def)

lemma ends_guarded:
  assumes "other_flag f"
    and "\<And>w. w AND f \<noteq> 0 \<Longrightarrow> ends (\<lambda>x b. Q x (self_queues b)) m (b\<lparr>bs_node := (bs_node b)\<lparr>nd_flags := w\<rparr>\<rparr>)" and "f \<noteq> 0"
  shows "ends (\<lambda>x b. Q x (self_queues b)) (guarded f r m) b"
proof -
  obtain fg w opened where o: "openFlag new_guard f (nd_flags (bs_node b)) = (fg, w, opened)" by (cases "openFlag new_guard f (nd_flags (bs_node b))")
  have no: "\<not> opened" by (rule guard_flags(3) [OF assms(1) o])
  have w: "w AND f \<noteq> 0" using o assms(3) by (auto simp: openFlag_def new_guard_def bit.conj_disj_distrib2 split: if_splits)
  let ?b = "b\<lparr>bs_node := (bs_node b)\<lparr>nd_flags := w\<rparr>\<rparr>"
  have close: "ends (\<lambda>x b. Q x (self_queues b)) (bind_op (node_op g) (\<lambda>_. ret_op x)) b1" if "Q x (self_queues b1)" for x b1 g
    using that by (simp add: ends_def bind_op_def node_op_def modify_op_def ret_op_def)
  have "ends (\<lambda>x b. Q x (self_queues b)) (bind_op m (\<lambda>x. bind_op (node_op (\<lambda>n. n\<lparr>nd_flags := snd (closeFlag fg (nd_flags n))\<rparr>)) (\<lambda>_. ret_op x))) ?b"
    by (rule ends_bind [OF assms(2) [OF w]]) (rule close)
  then show ?thesis using no by (simp add: ends_def guarded_def run_op_def o bind_node)
qed

lemma Node_Reset_clears: "ends (\<lambda>_ b. self_queues b = ([], [])) (Node_Reset E) b"
proof -
  have "ends (\<lambda>_ b. self_queues b = ([], [])) (bind_op (modify_op (\<lambda>b. b\<lparr>bs_selfData := [], bs_selfCommand := []\<rparr>)) (\<lambda>_.
      bind_op (node_op (\<lambda>n. (setState NodeState_Created n)\<lparr>nd_flags := 0\<rparr>)) (\<lambda>_. ret_op EN_ATBUS_ERR_SUCCESS))) b" for b :: "('a, 'b) Bus"
    by (simp add: ends_def bind_op_def node_op_def modify_op_def ret_op_def self_queues_def)
  note tail = this
  show ?thesis
    unfolding Node_Reset_def
    by (rule ends_guarded [where Q = "\<lambda>_ q. q = ([], [])"], simp, rule ends_basic(2), (rule tail ends_last ends_basic(2))+) (simp add: NodeFlag_Resetting_def)
qed

lemma executeGC_queues: "ends (\<lambda>_ b'. self_queues b' = self_queues b) executeGC b"
proof -
  have gc: "ends (\<lambda>_ b'. self_queues b' = self_queues b) gc_endpoints b'" if "self_queues b' = self_queues b" for b'
    using that by (simp add: ends_def gc_endpoints_def run_op_def bind_op_def node_op_def modify_op_def Let_def)
  have first: "ends (\<lambda>_ b'. self_queues b' = self_queues b)
      (if Node_CheckFlag NodeFlag_InGcEndpoints (bs_node b) then ret_op () else guarded NodeFlag_InGcEndpoints () gc_endpoints) b"
  proof (cases "Node_CheckFlag NodeFlag_InGcEndpoints (bs_node b)")
    case False
    have "NodeFlag_InGcEndpoints \<noteq> 0" by (simp add: NodeFlag_InGcEndpoints_def)
    from ends_guarded [OF other_flags(4) gc this, of b "()"] show ?thesis using False by simp
  qed (simp add: ends_basic(1))
  show ?thesis unfolding executeGC_def by (rule ends_basic(2), rule ends_bind [OF first], rule ends_update(1)) simp
qed

lemma dispatchSelf_in_callback: "Node_CheckFlag NodeFlag_InCallback (bs_node b) \<Longrightarrow> dispatchSelf E b = Some (Returns (0, b))"
  by (simp add: dispatchSelf_def numeral_2_eq_2 run_op_def ret_op_def)

text \<open>C10: 
  \<open>Poll\<close> never handles a message that the node sent to itself: it calls the dispatcher while its own guard is open, and the dispatcher
  then does nothing. Either the queues stay as they are and no event is counted, or the node is reset, one event is counted and the
  messages are lost.
\<close>

theorem Poll_dispatches_nothing:
  assumes "Poll E b = Some (Returns ((k, r), b'))"
  shows "r = EN_ATBUS_ERR_SUCCESS \<and> (k = 0 \<and> bs_selfData b' = bs_selfData b \<and> bs_selfCommand b' = bs_selfCommand b
    \<or> k = 1 \<and> bs_selfData b' = [] \<and> bs_selfCommand b' = [])"
proof -
  define Q :: "int \<times> ErrorType \<Rightarrow> Message list \<times> Message list \<Rightarrow> bool" where "Q = (\<lambda>x q. x = (0, EN_ATBUS_ERR_SUCCESS) \<and> q = self_queues b \<or> x = (1, EN_ATBUS_ERR_SUCCESS) \<and> q = ([], []))"
  have reset: "ends (\<lambda>x b. Q x (self_queues b)) (bind_op (Node_Reset E) (\<lambda>_. ret_op (1, EN_ATBUS_ERR_SUCCESS))) b1" for b1
    by (rule ends_bind [OF Node_Reset_clears], rule ends_basic(1)) (simp add: Q_def)
  have one: "wrap32 (1 + 0) = 1" "wrap32 (0 + 1) = 1" "wrap32 0 = 0" by (simp_all add: wrap32_def)
  have "ends (\<lambda>x b. Q x (self_queues b)) (Poll E) b"
  proof (cases "Node_CheckFlag NodeFlag_InCallback (bs_node b)")
    case True
    then show ?thesis by (simp add: Poll_def ends_def run_op_def ret_op_def Q_def)
  next
    case False
    have body: "ends (\<lambda>x b. Q x (self_queues b)) (run_op (\<lambda>b.
       if Node_CheckFlag NodeFlag_Shutdown (bs_node b) then
         bind_op (dispatchSelf E) (\<lambda>k. bind_op (Node_Reset E) (\<lambda>_. ret_op (wrap32 (1 + k), EN_ATBUS_ERR_SUCCESS)))
       else
         bind_op (dispatchSelf E) (\<lambda>k.
         bind_op executeGC (\<lambda>_. run_op (\<lambda>b.
           if Node_CheckFlag NodeFlag_Shutdown (bs_node b)
           then bind_op (Node_Reset E) (\<lambda>_. ret_op (wrap32 (k + 1), EN_ATBUS_ERR_SUCCESS))
           else ret_op (wrap32 k, EN_ATBUS_ERR_SUCCESS)))))) b1" (is "ends _ ?body b1")
      if w: "Node_CheckFlag NodeFlag_InCallback (bs_node b1)" "self_queues b1 = self_queues b" for b1
    proof -
      have d: "bind_op (dispatchSelf E) f b1 = f 0 b1" for f :: "int \<Rightarrow> ('a, 'b, int \<times> ErrorType) op"
        by (simp add: bind_op_def dispatchSelf_in_callback [OF w(1)])
      have gc: "ends (\<lambda>x b. Q x (self_queues b)) (bind_op executeGC (\<lambda>_. run_op (\<lambda>b.
           if Node_CheckFlag NodeFlag_Shutdown (bs_node b)
           then bind_op (Node_Reset E) (\<lambda>_. ret_op (1, EN_ATBUS_ERR_SUCCESS)) else ret_op (0, EN_ATBUS_ERR_SUCCESS)))) b1"
      proof (rule ends_bind [OF executeGC_queues], rule ends_basic(2))
        fix b2 :: "('a, 'b) Bus" assume "self_queues b2 = self_queues b1"
        then have "ends (\<lambda>x b. Q x (self_queues b)) (ret_op (0, EN_ATBUS_ERR_SUCCESS)) b2" by (intro ends_basic(1)) (simp add: Q_def w(2))
        then show "ends (\<lambda>x b. Q x (self_queues b)) (if Node_CheckFlag NodeFlag_Shutdown (bs_node b2)
            then bind_op (Node_Reset E) (\<lambda>_. ret_op (1, EN_ATBUS_ERR_SUCCESS)) else ret_op (0, EN_ATBUS_ERR_SUCCESS)) b2" using reset by simp
      qed
      show ?thesis
        by (rule ends_basic(2)) (use reset [of b1] gc in \<open>simp only: ends_def d one split: if_splits, blast\<close>)
    qed
    have "ends (\<lambda>x b. Q x (self_queues b)) (guarded NodeFlag_InCallback (0, EN_ATBUS_ERR_SUCCESS) m) b"
      if "\<And>b1. Node_CheckFlag NodeFlag_InCallback (bs_node b1) \<Longrightarrow> self_queues b1 = self_queues b \<Longrightarrow> ends (\<lambda>x b. Q x (self_queues b)) m b1" for m
      by (rule ends_guarded [OF other_flags(3) that]) (simp_all add: Node_CheckFlag_def has_flag_def NodeFlag_InCallback_def)
    from this [OF body] False show ?thesis by (simp add: Poll_def ends_def run_op_def)
  qed
  with assms show ?thesis by (auto simp: ends_def Q_def self_queues_def)
qed

subsection \<open>The connections that are being opened\<close>

text \<open>C11: 
  A connection that has become connected while it was at the front of the list, under its own address, takes the next one with it,
  however long the list is: its own entry is removed by its checker, and the front that is popped afterwards is the entry of another
  connection. The round goes on as if it had started without both entries, with nothing else changed: the second connection, however long it
  has been overdue, is neither checked nor reported.
\<close>

theorem connected_front_drops_next:
  assumes E: "env_ok E" and f: "front_connecting E b = Some (a, t, c)" and c: "IsConnected (conn_of b c)" "ca_Address (cn_address (conn_of b c)) = a"
    and f2: "lru_Front (en_connectingQueue E) (lru_Delete (en_connecting E) a (nd_connectingList (bs_node b))) = Some (a2, t2, c2)"
  shows "\<exists>l. processConnectingTimeout E now b = processConnectingTimeout E now (b\<lparr>bs_node := (bs_node b)\<lparr>nd_connectingList := l\<rparr>\<rparr>)
    \<and> a2 \<noteq> a \<and> lru_Get (en_connecting E) a2 (nd_connectingList (bs_node b)) = Some (t2, c2)
    \<and> (\<forall>k. lru_Get (en_connecting E) k l = (if k = a \<or> k = a2 then None else lru_Get (en_connecting E) k (nd_connectingList (bs_node b))))"
proof -
  let ?L = "nd_connectingList (bs_node b)" and ?d = "lru_Delete (en_connecting E) a (nd_connectingList (bs_node b))"
  let ?l = "lru_PopFront (en_connectingQueue E) ?d"
  note del = lru_Get_Delete [OF env_okD(2) [OF E]] and q = env_okD(4) [OF E]
  have "lru_Get (en_connecting E) a ?L = Some (t, c)" using pop_Get(4) [OF q] f by (simp add: front_connecting_def)
  then have "removeConnectionTimer (en_connecting E) c (bs_node b) = (bs_node b)\<lparr>nd_connectingList := ?d\<rparr>"
    using c by (simp add: removeConnectionTimer_def Let_def conn_of_def IsConnected_def)
  then have run: "processConnectingTimeout E now b = processConnectingTimeout E now (b\<lparr>bs_node := (bs_node b)\<lparr>nd_connectingList := ?l\<rparr>\<rparr>)"
    using c(1) by (simp add: processConnectingTimeout.simps [of E now b] f pop_connecting_def)
  have second: "lru_Get (en_connecting E) a2 ?d = Some (t2, c2)" by (rule pop_Get(4) [OF q f2])
  then have other: "a2 \<noteq> a" "lru_Get (en_connecting E) a2 ?L = Some (t2, c2)" by (auto simp: del split: if_splits)
  have "lru_Get (en_connecting E) k ?l = (if k = a \<or> k = a2 then None else lru_Get (en_connecting E) k ?L)" for k
  proof -
    have w: "(lru_Get (en_connecting E) k ?l = None) = (lru_Get (en_connecting E) k ?d = None \<or> k = a2)"
      using arg_cong [OF pop_Get(2) [OF q f2], of "\<lambda>s. k \<in> s"] unfolding waiting_def mem_Collect_eq Diff_iff singleton_iff by blast
    show ?thesis
    proof (cases "k = a \<or> k = a2")
      case True
      then show ?thesis using w by (auto simp: del)
    next
      case False
      then have "lru_Get (en_connecting E) k ?l = lru_Get (en_connecting E) k ?d"
        using w pop_Get(1) [OF q, of k ?d] by (cases "lru_Get (en_connecting E) k ?l") auto
      then show ?thesis using False by (simp add: del)
    qed
  qed
  with run other show ?thesis by blast
qed

subsection \<open>Examples\<close>

lemma sample_env_ok: "env_ok sample_env"
  by (simp add: env_ok_def sample_env_def list_map_laws list_queue_laws)

text \<open>A node that was created, and to which a peer then connected.\<close>

lemma sample_created:
  obtains b b' where "reachable sample_env b" "perform sample_env (Event_Accepted 3) b = Some (Returns ((), b'))"
    "length (nd_eps (bs_node b')) = 1" "length (nd_conns (bs_node b')) = 1"
proof -
  have "seen (\<lambda>b. (length (nd_eps (bs_node b)), length (nd_conns (bs_node b))))
      (bind_op (Init sample_env 1 None) (\<lambda>r. if r = EN_ATBUS_ERR_SUCCESS then perform sample_env (Event_Accepted 3) else panic_op) (NewNode sample_env))
      = Some (1, 1)" by code_simp
  then obtain r b' where b': "bind_op (Init sample_env 1 None) (\<lambda>r. if r = EN_ATBUS_ERR_SUCCESS then perform sample_env (Event_Accepted 3) else panic_op)
        (NewNode sample_env) = Some (Returns (r, b'))" "(length (nd_eps (bs_node b')), length (nd_conns (bs_node b'))) = (1, 1)" by (rule seenE)
  obtain c b where i: "Init sample_env 1 None (NewNode sample_env) = Some (Returns (c, b))"
    and p: "(if c = EN_ATBUS_ERR_SUCCESS then perform sample_env (Event_Accepted 3) else panic_op) b = Some (Returns ((), b'))"
    using b'(1) unfolding bind_op_Returns unit_eq [of r] by blast
  have "c = EN_ATBUS_ERR_SUCCESS" using p by (simp add: panic_op_def split: if_splits)
  then have "reachable sample_env b" "perform sample_env (Event_Accepted 3) b = Some (Returns ((), b'))"
    using i p by (auto simp: CreateNode_def intro!: reachable.start simp del: perform.simps)
  then show ?thesis using b'(2) by (intro that [of b b']) (auto simp only: prod.inject)
qed

lemma sample_life:
  obtains b where "reachable sample_env b" "length (nd_eps (bs_node b)) = 1" "length (nd_conns (bs_node b)) = 1"
  by (rule sample_created) (rule that [OF reachable.step])

theorem node_never_hangs_witness:
  "\<exists>b b'. perform sample_env (Event_Accepted 3) b = Some (Returns ((), b')) \<and> length (nd_conns (bs_node b')) = 1 \<and> reachable sample_env b'
     \<and> bus_inv sample_env b'"
proof -
  obtain b b' where b: "reachable sample_env b" "perform sample_env (Event_Accepted 3) b = Some (Returns ((), b'))" "length (nd_conns (bs_node b')) = 1"
    by (rule sample_created)
  from node_never_hangs [OF sample_env_ok b(1), of "Event_Accepted 3"] have "reachable sample_env b'" "bus_inv sample_env b'" unfolding b(2) by auto
  with b(2,3) show ?thesis by blast
qed

theorem reachable_references_witness:
  "\<exists>b. reachable sample_env b \<and> length (bs_ctx b) = 1 \<and> list_all (\<lambda>c. below 1 (cn_binding c)) (nd_conns (bs_node b))"
proof -
  obtain b where b: "reachable sample_env b" "length (nd_eps (bs_node b)) = 1" "length (nd_conns (bs_node b)) = 1" by (rule sample_life)
  from reachable_references [OF sample_env_ok b(1) refl] have "length (bs_ctx b) = 1" "list_all (\<lambda>c. below 1 (cn_binding c)) (nd_conns (bs_node b))"
    unfolding b(2,3) by blast+
  with b(1) show ?thesis by blast
qed

theorem reachable_links_witness:
  "\<exists>b. reachable sample_env b \<and> (0 \<in> set (attached (nd_eps (bs_node b) ! 0)) \<longleftrightarrow> cn_binding (nd_conns (bs_node b) ! 0) = Some 0)"
proof -
  obtain b where b: "reachable sample_env b" "length (nd_eps (bs_node b)) = 1" "length (nd_conns (bs_node b)) = 1" by (rule sample_life)
  from conjunct1 [OF reachable_links [OF sample_env_ok b(1) refl]]
  have "0 \<in> set (attached (nd_eps (bs_node b) ! 0)) \<longleftrightarrow> cn_binding (nd_conns (bs_node b) ! 0) = Some 0" unfolding b(2,3) by blast
  with b(1) show ?thesis by blast
qed

theorem Poll_dispatches_nothing_witness:
  "\<exists>b'. Poll sample_env (sample_bus\<lparr>bs_selfCommand := [sample_message (BodyCustomCommandReq (sample_command 1))]\<rparr>)
        = Some (Returns ((0, EN_ATBUS_ERR_SUCCESS), b')) \<and> bs_selfCommand b' = [sample_message (BodyCustomCommandReq (sample_command 1))]"
proof -
  let ?b = "sample_bus\<lparr>bs_selfCommand := [sample_message (BodyCustomCommandReq (sample_command 1))]\<rparr>"
  have "answer_of (Poll sample_env ?b) = Some (0, EN_ATBUS_ERR_SUCCESS)" by code_simp
  then obtain b' where run: "Poll sample_env ?b = Some (Returns ((0, EN_ATBUS_ERR_SUCCESS), b'))" by (rule answer_ofE)
  from Poll_dispatches_nothing [OF run] run show ?thesis by simp
qed

text \<open>Three connections in the list: the first of them is connected, the second overdue, the third has time left.\<close>

definition connecting_bus :: "(sample_ping, sample_connecting) Bus" where
  "connecting_bus = sample_bus\<lparr>bs_node := (bs_node sample_bus)\<lparr>nd_connectingList :=
     [(''ipv4://10.0.0.1:80'', 9, 1), (''ipv4://10.0.0.9:80'', 1, 3), (''ipv4://10.0.0.7:80'', 200, 3)]\<rparr>\<rparr>"

theorem connected_front_drops_next_witness:
  "\<exists>l. processConnectingTimeout sample_env 100 connecting_bus
      = processConnectingTimeout sample_env 100 (connecting_bus\<lparr>bs_node := (bs_node connecting_bus)\<lparr>nd_connectingList := l\<rparr>\<rparr>)
    \<and> lru_Get list_map ''ipv4://10.0.0.1:80'' l = None \<and> lru_Get list_map ''ipv4://10.0.0.9:80'' l = None
    \<and> lru_Get list_map ''ipv4://10.0.0.7:80'' l = Some (200, 3)"
proof -
  let ?L = "nd_connectingList (bs_node connecting_bus)"
  have env: "en_connecting sample_env = list_map" "en_connectingQueue sample_env = list_queue" by (simp_all add: sample_env_def)
  have L: "?L = [(''ipv4://10.0.0.1:80'', 9, 1), (''ipv4://10.0.0.9:80'', 1, 3), (''ipv4://10.0.0.7:80'', 200, 3)]" by (simp add: connecting_bus_def)
  have f: "front_connecting sample_env connecting_bus = Some (''ipv4://10.0.0.1:80'', 9, 1)"
    by (simp add: front_connecting_def L env list_queue_def)
  have c: "IsConnected (conn_of connecting_bus 1)" "ca_Address (cn_address (conn_of connecting_bus 1)) = ''ipv4://10.0.0.1:80''" by code_simp+
  have f2: "lru_Front (en_connectingQueue sample_env) (lru_Delete (en_connecting sample_env) ''ipv4://10.0.0.1:80'' ?L) = Some (''ipv4://10.0.0.9:80'', 1, 3)"
    by (simp add: L env list_queue_def list_map_def)
  have third: "lru_Get list_map ''ipv4://10.0.0.7:80'' ?L = Some (200, 3)" by (simp add: L list_map_def)
  obtain l where "processConnectingTimeout sample_env 100 connecting_bus
      = processConnectingTimeout sample_env 100 (connecting_bus\<lparr>bs_node := (bs_node connecting_bus)\<lparr>nd_connectingList := l\<rparr>\<rparr>)"
    and l: "\<And>k. lru_Get list_map k l = (if k = ''ipv4://10.0.0.1:80'' \<or> k = ''ipv4://10.0.0.9:80'' then None else lru_Get list_map k ?L)"
    using connected_front_drops_next [OF sample_env_ok f c f2, of 100] unfolding env by blast
  then show ?thesis using third by (intro exI [of _ l]) simp
qed

text \<open>The guard of the second collection is opened and never closed: the list of connections is cleared at most once.\<close>

lemma executeGC_blocks_itself: "ends (\<lambda>_ b. Node_CheckFlag NodeFlag_InGcConnections (bs_node b)) executeGC b"
  unfolding executeGC_def
  by (rule ends_basic(2), rule ends_last, rule ends_update(1))
    (simp add: Node_CheckFlag_def has_flag_def openFlag_def new_guard_def bit.conj_disj_distrib2 NodeFlag_InGcConnections_def)

end
