(* ===== verification/Spec2Isabelle.thy ===== *)
theory Spec2Isabelle
  imports Vint Buffer_Manager Error_Code Frame_Codec Io_Stream Io_Write Channel_Address Topology Endpoint Node_Route Access_Data Crypto_Session Connection_Context Message_Codec Node_Life
begin

text \<open>
  This development models libatbus-go, a message bus: nodes of a cluster, each with a 64-bit bus id,
  connect to each other over stream sockets, register with an upstream node, and route messages along
  the tree the upstream links form.

  \<^bold>\<open>The parts of the program and the theories that model them.\<close>

  \<^item> \<open>Prelude\<close>: Go's machine integers, slices and byte copies, and panics as the outcome type (\<open>Returns\<close>, \<open>Panics\<close>).
  \<^item> \<open>Vint\<close> (buffer/buffer\_algorithm.go): the variable length integers of frames and blocks.
  \<^item> \<open>Buffer_Block\<close>, \<open>Buffer_Manager\<close> (buffer/): blocks and the queue of blocks, in dynamic mode a list, in static mode a ring
    of indices over one array. The specification is a bounded double ended queue of byte blocks, stated as the locale
    \<open>block_deque\<close>, which both modes interpret; the manager refines it. The counters are signed 64-bit sums that wrap around, and a
    request above \<open>maxAlloc\<close> panics in the runtime: the refinement is for requests that memory serves or the limit refuses without a wrap.
  \<^item> \<open>Error_Code\<close> (error\_code/): the codes and their messages.
  \<^item> \<open>Frame_Codec\<close> (channel/io\_stream/frame\_codec.go): hash, length and payload of a frame, and the frame reader. The hash
    is the murmur3 of another module: a parameter \<open>sum32\<close> about which nothing is assumed.
  \<^item> \<open>Io_Stream\<close> (channel/io\_stream/channel\_io\_stream.go, reading): the read loop with its small head buffer and its
    large-frame buffer. The socket is a list of chunks.
  \<^item> \<open>Io_Write\<close> (the same file, writing): send, the write loop with merging, graceful and forced disconnect, and the
    interleaving of the goroutines of a connection as a step relation.
  \<^item> \<open>Channel_Address\<close> (channel/utility/, types/atbus\_algorithm\_parse.go): channel addresses and algorithm names.
  \<^item> \<open>Topology\<close> (impl/atbus\_topology.go): the registry of peers and their upstream links, with an explicit store of peer
    objects, because the code compares and keeps pointers.
  \<^item> \<open>Node_State\<close>, \<open>Endpoint\<close> (impl/atbus\_connection.go, impl/atbus\_endpoint.go and the parts of impl/atbus\_node.go they
    call): connections and endpoints as objects of two stores of the node, their binding, resetting and statistics. The
    timer lists are \<open>LRUMap\<close>s of another module, a parameter with the laws \<open>lru_laws\<close>.
  \<^item> \<open>Node_Route\<close> (impl/atbus\_node.go): the route table of a node, its upstream, the choice of the next hop, faults.
  \<^item> \<open>Protocol\<close> (protocol/libatbus\_protocol.proto, types/atbus\_message.go): the messages and their wrapper.
  \<^item> \<open>Access_Data\<close> (message\_handle/, \<open>CheckAccessHash\<close> of impl/atbus\_node.go): the texts two nodes sign and the check. SHA-256 and
    HMAC are functions about which nothing is assumed.
  \<^item> \<open>Crypto_Session\<close>, \<open>Connection_Context\<close>, \<open>Message_Codec\<close> (impl/atbus\_connection\_context.go): encryption with a key; compression,
    negotiation and the handshake; and packing and unpacking of messages. Ciphers, curves and key derivation, the compressors and
    the protobuf encoding are the parameters \<open>crypto_lib\<close>, \<open>compression_lib\<close> and \<open>proto_lib\<close>; their laws (\<open>crypto_lib_ok\<close>,
    \<open>compression_ok\<close>, \<open>proto_ok\<close>) say that decoding inverts encoding, with the sizes the code relies on, and sample
    functions satisfy them.
  \<^item> \<open>Bus\<close>: a whole node as one state, with the store of connections and endpoints, a context per connection, the queues of messages
    to itself and the private data of the stream connections; and its surroundings, the record \<open>env\<close>: the clock, random numbers, the
    channel, the handlers of the application and the libraries. What the surroundings answer may depend on the number of the call. An
    operation gives nothing when it does not return, a panic, or a result and a new state.
  \<^item> \<open>Message_Send\<close>, \<open>Message_Handler\<close> (message\_handle/atbus\_message\_handler.go, the callbacks and \<open>dispatchAllSelfMessages\<close> of
    impl/atbus\_node.go, \<open>Connect\<close> of impl/atbus\_connection.go): the messages a node sends and a handler per body type.
  \<^item> \<open>Node_Frame\<close>, \<open>Bus_Invariant\<close>: the invariant of a node, and that the operations of its parts and every handler keep it, in the
    form \<open>safe\<close>: a panic, or a result in a later state.
  \<^item> \<open>Node_Run\<close> (impl/atbus\_node.go): \<open>Init\<close>, \<open>Start\<close>, \<open>Reset\<close>, \<open>Proc\<close> and \<open>Poll\<close> with the timers and the collector, sending, the
    events of the channel, and \<open>reachable\<close>, the states a created node can get into by calls and events in any order.
  \<^item> \<open>Bus_Sample\<close>: concrete surroundings with timer lists that satisfy the laws, and a concrete node.
  \<^item> \<open>Message_Effect\<close>, \<open>Self_Command\<close>, \<open>Node_Life\<close>: what the handlers do to the application and the links, the way of a command that a
    node sends to itself, and the properties of a running node.

  \<^bold>\<open>What the theorems show.\<close> Round trips of the codecs; that the read loop delivers exactly the payloads of the frames
  whatever the chunks are, and end to end that what is sent is received in order; the limits of the buffers; refinement of the
  bounded queue; that the upstream links form a forest, that updates and removals end and keep it, and that the relation of
  two peers is the one the links say; that a connection is torn down once under every interleaving; that resetting
  connections and endpoints ends and leaves no dangling binding; that the next hop of a message is on the way to its target; that the
  calls of a key exchange give both sides the same keys and that a packed message is unpacked to itself, whatever is encrypted and compressed;
  which signatures are accepted; exactly which inputs make the code panic; that a running node never hangs and keeps its references,
  bindings and routes consistent, whatever calls and events come in whatever order; that transfers and commands reach the
  application once, and commands only with an accepted signature; and what a refused
  registration does: nothing but its answer, or the reset of its connection when the answer cannot be sent.

  \<^bold>\<open>Loops and recursion.\<close> Loops over data are structural or have a measure. Climbing the upstream links is a
  \<open>partial_function (option)\<close>, proved to return for every registry the operations build. The mutually recursive resets carry
  a recursion depth, proved to suffice at four. A node that handles a message to itself may come back to the dispatcher, which then does
  nothing: depth two is enough, and running out would be a missing value, which the proofs exclude. The loops over the timer lists are
  \<open>partial_function (option)\<close>: they end because every round leaves fewer entries, or fewer overdue entries (\<open>queue_laws\<close>).

  \<^bold>\<open>Assumptions on the surroundings.\<close> The handlers of the application and the channel answer, and do not call back into the node; the
  goroutines of a stream connection are interleaved in \<open>Io_Write\<close>, the events they give to a node come one after the other.

  \<^bold>\<open>Not modelled.\<close> Code generated by protoc; file locks and socket calls of the operating system, with \<open>Listen\<close>, \<open>Connect\<close> and the accept
  loop of the channel, which only drive them; logging; the setters and getters of the handlers; the aliases of the public facade;
  the sample and the tools.
\<close>

end
